(* ===== verification/Prelude.thy ===== *)
theory Prelude
  imports Main "HOL-Library.AList" "HOL-Library.Code_Target_Nat"
begin

text \<open>
  Shared vocabulary of the development.

  Rust's \<open>Result<T, E>\<close> is the sum type \<open>'e + 'a\<close>: \<open>Err\<close> and \<open>Ok\<close> abbreviate the two
  injections and \<open>and_then\<close> is the sequencing that the \<open>?\<close> operator performs.  Unsigned
  machine arithmetic that the sources saturate or check is written out over \<open>nat\<close> with the
  width of the operands as a bound.

  The locale \<open>capped_append\<close> is the contract of every size-limited accumulator of the sources
  (the patch applier, the diff worker, the metadata writer and the frame writer each have one):
  an append either extends the value exactly or reports the one limit error and the limit is
  never exceeded.  Its client lemma says what a whole sequence of appends produces.
  \<open>strict_append\<close> extends it for the accumulators that never accept an oversized value.
\<close>

section \<open>Results\<close>

type_synonym ('a, 'e) result = "'e + 'a"

abbreviation Ok :: "'a \<Rightarrow> ('a, 'e) result" where
  "Ok \<equiv> Inr"

abbreviation Err :: "'e \<Rightarrow> ('a, 'e) result" where
  "Err \<equiv> Inl"

definition and_then :: "('a, 'e) result \<Rightarrow> ('a \<Rightarrow> ('b, 'e) result) \<Rightarrow> ('b, 'e) result" where
  "and_then m f = (case m of Inl e \<Rightarrow> Inl e | Inr x \<Rightarrow> f x)"

definition ok_or :: "'a option \<Rightarrow> 'e \<Rightarrow> ('a, 'e) result" where
  "ok_or v e = (case v of None \<Rightarrow> Err e | Some x \<Rightarrow> Ok x)"

definition is_ok :: "('a, 'e) result \<Rightarrow> bool" where
  "is_ok m = (case m of Inl _ \<Rightarrow> False | Inr _ \<Rightarrow> True)"

named_theorems result_simps \<open>rewriting of results and of the question-mark operator\<close>
named_theorems size_simps \<open>the numeric limits of the sources\<close>

lemma and_then_simps [simp]:
  "and_then (Inl e) f = Inl e"
  "and_then (Inr x) f = f x"
  by (simp_all add: and_then_def)

lemma and_then_eq_Ok [result_simps]:
  "and_then m f = Inr y \<longleftrightarrow> (\<exists>x. m = Inr x \<and> f x = Inr y)"
  by (cases m) auto

lemma and_then_eq_Err [result_simps]:
  "and_then m f = Inl e \<longleftrightarrow> m = Inl e \<or> (\<exists>x. m = Inr x \<and> f x = Inl e)"
  by (cases m) auto

lemma and_then_assoc: "and_then (and_then m f) g = and_then m (\<lambda>x. and_then (f x) g)"
  by (cases m) auto

lemma and_then_cong [fundef_cong]:
  "m = m' \<Longrightarrow> (\<And>x. m' = Inr x \<Longrightarrow> f x = f' x) \<Longrightarrow> and_then m f = and_then m' f'"
  by (cases m') auto

lemma ok_or_simps [simp]:
  "ok_or None e = Inl e"
  "ok_or (Some x) e = Inr x"
  by (simp_all add: ok_or_def)

lemma ok_or_eq_Ok [result_simps]: "ok_or v e = Inr x \<longleftrightarrow> v = Some x"
  by (cases v) auto

lemma ok_or_eq_Err [result_simps]: "ok_or v e = Inl e' \<longleftrightarrow> v = None \<and> e' = e"
  by (cases v) auto

lemma is_ok_simps [simp]:
  "is_ok (Inr x)"
  "\<not> is_ok (Inl e)"
  by (simp_all add: is_ok_def)

lemma is_ok_iff: "is_ok m \<longleftrightarrow> (\<exists>x. m = Inr x)"
  by (cases m) auto

lemma if_eq_Ok [result_simps]:
  "(if b then Inl e else m) = Inr x \<longleftrightarrow> \<not> b \<and> m = Inr x"
  by simp

lemma if_eq_Ok_else [result_simps]:
  "(if b then m else Inl e) = Inr x \<longleftrightarrow> b \<and> m = Inr x"
  by simp

text \<open>An operation that can also panic: \<open>Raised\<close> is an error value, \<open>Panicked\<close> an abort.\<close>

datatype 'e fault = Raised 'e | Panicked

definition raising :: "('a, 'e) result \<Rightarrow> ('a, 'e fault) result" where
  "raising m = (case m of Inl e \<Rightarrow> Inl (Raised e) | Inr x \<Rightarrow> Inr x)"

lemma raising_simps [simp]:
  "raising (Inl e) = Inl (Raised e)"
  "raising (Inr x) = Inr x"
  by (simp_all add: raising_def)

lemma raising_eq_Ok [result_simps]: "raising m = Inr x \<longleftrightarrow> m = Inr x"
  by (cases m) auto

lemma raising_eq_Err [result_simps]: "raising m = Inl f \<longleftrightarrow> (\<exists>e. m = Inl e \<and> f = Raised e)"
  by (cases m) auto

section \<open>Machine integers\<close>

definition usize_max :: nat where
  "usize_max = 2 ^ 64 - 1"

definition saturating_add :: "nat \<Rightarrow> nat \<Rightarrow> nat" where
  "saturating_add a b = min (a + b) usize_max"

definition checked_add :: "nat \<Rightarrow> nat \<Rightarrow> nat option" where
  "checked_add a b = (if a + b \<le> usize_max then Some (a + b) else None)"

definition checked_mul :: "nat \<Rightarrow> nat \<Rightarrow> nat option" where
  "checked_mul a b = (if a * b \<le> usize_max then Some (a * b) else None)"

definition checked_sub :: "nat \<Rightarrow> nat \<Rightarrow> nat option" where
  "checked_sub a b = (if b \<le> a then Some (a - b) else None)"

lemma usize_max_val [size_simps]: "usize_max = 18446744073709551615"
  by (simp add: usize_max_def)

lemma checked_add_Some: "checked_add a b = Some c \<longleftrightarrow> c = a + b \<and> a + b \<le> usize_max"
  by (auto simp: checked_add_def)

lemma checked_sub_Some [simp]: "checked_sub a b = Some c \<longleftrightarrow> b \<le> a \<and> c = a - b"
  by (auto simp: checked_sub_def)

lemma checked_sub_None [simp]: "checked_sub a b = None \<longleftrightarrow> a < b"
  by (auto simp: checked_sub_def)

lemma saturating_add_le: "limit < usize_max \<Longrightarrow> saturating_add a b \<le> limit \<longleftrightarrow> a + b \<le> limit"
  by (auto simp: saturating_add_def)

section \<open>Lists\<close>

text \<open>Rust's checked indexing \<open>get\<close>, and \<open>get(a..b)\<close>, which is absent unless \<open>a \<le> b \<le> len\<close>.\<close>

definition get_at :: "'a list \<Rightarrow> nat \<Rightarrow> 'a option" where
  "get_at xs i = (if i < length xs then Some (xs ! i) else None)"

definition get_range :: "'a list \<Rightarrow> nat \<Rightarrow> nat \<Rightarrow> 'a list option" where
  "get_range xs a b = (if a \<le> b \<and> b \<le> length xs then Some (take (b - a) (drop a xs)) else None)"

definition get_from :: "'a list \<Rightarrow> nat \<Rightarrow> 'a list option" where
  "get_from xs a = (if a \<le> length xs then Some (drop a xs) else None)"

lemma get_at_Some: "get_at xs i = Some x \<longleftrightarrow> i < length xs \<and> xs ! i = x"
  by (auto simp: get_at_def)

lemma get_range_Some:
  "get_range xs a b = Some ys \<longleftrightarrow> a \<le> b \<and> b \<le> length xs \<and> ys = take (b - a) (drop a xs)"
  by (auto simp: get_range_def)

lemma get_from_Some: "get_from xs a = Some ys \<longleftrightarrow> a \<le> length xs \<and> ys = drop a xs"
  by (auto simp: get_from_def)

lemma get_at_drop: "get_at xs i = Some x \<Longrightarrow> drop i xs = x # drop (Suc i) xs"
  by (auto simp: get_at_Some Cons_nth_drop_Suc)

lemma get_range_drop:
  "get_range xs a b = Some ys \<Longrightarrow> drop a xs = ys @ drop b xs \<and> length ys = b - a"
  by (auto simp: get_range_Some) (metis append_take_drop_id drop_drop le_add_diff_inverse2)

section \<open>Size-limited accumulators\<close>

locale capped_append =
  fixes append :: "'a list \<Rightarrow> 'a list \<Rightarrow> ('a list, 'e) result"
    and size_of :: "'a list \<Rightarrow> nat"
    and cap :: nat
    and limit_error :: 'e
  assumes size_append: "size_of (xs @ ys) = size_of xs + size_of ys"
    and append_fits: "size_of xs + size_of ys \<le> cap \<Longrightarrow> append xs ys = Inr (xs @ ys)"
    and append_full:
      "size_of xs \<le> cap \<Longrightarrow> cap < size_of xs + size_of ys \<Longrightarrow> append xs ys = Inl limit_error"
begin

lemma append_within:
  "size_of xs \<le> cap \<Longrightarrow>
    append xs ys = (if size_of xs + size_of ys \<le> cap then Inr (xs @ ys) else Inl limit_error)"
  using append_fits append_full by (cases "size_of xs + size_of ys \<le> cap") auto

lemma size_Nil [simp]: "size_of [] = 0"
  using size_append [of "[]" "[]"] by simp

text \<open>A run of appends: the first one that does not fit ends the run.\<close>

primrec append_all :: "'a list \<Rightarrow> 'a list list \<Rightarrow> ('a list, 'e) result" where
  "append_all xs [] = Inr xs"
| "append_all xs (ys # yss) = and_then (append xs ys) (\<lambda>zs. append_all zs yss)"

lemma append_all_eq:
  "size_of xs \<le> cap \<Longrightarrow>
    append_all xs yss =
      (if size_of xs + size_of (concat yss) \<le> cap then Inr (xs @ concat yss) else Inl limit_error)"
  by (induction yss arbitrary: xs) (auto simp: append_within size_append)

end

text \<open>An accumulator that also refuses to touch a value that is already too large.\<close>

locale strict_append = capped_append append size_of cap limit_error
  for append :: "'a list \<Rightarrow> 'a list \<Rightarrow> ('a list, 'e) result" and size_of cap limit_error +
  assumes append_over: "cap < size_of xs \<Longrightarrow> append xs ys = Inl limit_error"
begin

lemma append_iff:
  "append xs ys = (if size_of xs + size_of ys \<le> cap then Inr (xs @ ys) else Inl limit_error)"
  using append_fits append_full append_over by (cases "size_of xs \<le> cap") auto

lemma append_OkD: "append xs ys = Inr zs \<Longrightarrow> zs = xs @ ys \<and> size_of zs \<le> cap"
  by (auto simp: append_iff size_append split: if_splits)

lemma append_Err_iff: "append xs ys = Inl e \<longleftrightarrow> e = limit_error \<and> cap < size_of xs + size_of ys"
  by (auto simp: append_iff not_le)

end

end
