(* ===== verification/Rust_Text.thy ===== *)
theory Rust_Text
  imports Prelude
begin

text \<open>
  The part of Rust's \<open>char\<close> and \<open>str\<close> that the sources use.

  A \<open>char\<close> is its Unicode scalar value and a \<open>str\<close> is the list of its characters.  Lengths and
  offsets of the sources count UTF-8 bytes: \<open>str_len\<close> is \<open>str::len\<close>, \<open>split_bytes\<close> and
  \<open>slice\<close> cut at byte offsets and are absent away from a character boundary (where Rust's
  slicing panics and \<open>str::get\<close> returns nothing), \<open>floor_boundary\<close> is the loop
  \<open>while !text.is_char_boundary(end) { end -= 1 }\<close>.  \<open>split_inclusive\<close> is
  \<open>str::split_inclusive('\n')\<close>; \<open>lines_wf\<close> characterises the lists it returns.
\<close>

section \<open>Characters\<close>

type_synonym rchar = nat
type_synonym rstr = "rchar list"

definition scalar :: "rchar \<Rightarrow> bool" where
  "scalar c \<longleftrightarrow> c < 0xD800 \<or> (0xDFFF < c \<and> c < 0x110000)"

definition len_utf8 :: "rchar \<Rightarrow> nat" where
  "len_utf8 c = (if c < 0x80 then 1 else if c < 0x800 then 2 else if c < 0x10000 then 3 else 4)"

definition is_control :: "rchar \<Rightarrow> bool" where
  "is_control c \<longleftrightarrow> c < 0x20 \<or> (0x7F \<le> c \<and> c < 0xA0)"

definition is_whitespace :: "rchar \<Rightarrow> bool" where
  "is_whitespace c \<longleftrightarrow> (9 \<le> c \<and> c \<le> 13) \<or> c = 0x20 \<or> c = 0x85 \<or> c = 0xA0 \<or> c = 0x1680 \<or>
     (0x2000 \<le> c \<and> c \<le> 0x200A) \<or> c = 0x2028 \<or> c = 0x2029 \<or> c = 0x202F \<or> c = 0x205F \<or> c = 0x3000"

definition is_ascii_digit :: "rchar \<Rightarrow> bool" where
  "is_ascii_digit c \<longleftrightarrow> 48 \<le> c \<and> c \<le> 57"

definition is_ascii_lowercase :: "rchar \<Rightarrow> bool" where
  "is_ascii_lowercase c \<longleftrightarrow> 97 \<le> c \<and> c \<le> 122"

definition is_ascii_uppercase :: "rchar \<Rightarrow> bool" where
  "is_ascii_uppercase c \<longleftrightarrow> 65 \<le> c \<and> c \<le> 90"

definition is_ascii_alphanumeric :: "rchar \<Rightarrow> bool" where
  "is_ascii_alphanumeric c \<longleftrightarrow> is_ascii_digit c \<or> is_ascii_lowercase c \<or> is_ascii_uppercase c"

text \<open>The space characters of \<open>split_ascii_whitespace\<close>.\<close>

definition is_ascii_whitespace :: "rchar \<Rightarrow> bool" where
  "is_ascii_whitespace c \<longleftrightarrow> c = 9 \<or> c = 10 \<or> c = 12 \<or> c = 13 \<or> c = 32"

definition lit :: "string \<Rightarrow> rstr" where
  "lit s = map of_char s"

text \<open>\<open>format!("{byte:02x}")\<close> over the bytes.\<close>

definition hex_digit :: "nat \<Rightarrow> rchar" where
  "hex_digit n = (if n < 10 then 48 + n else 87 + n)"

definition hex_string :: "nat list \<Rightarrow> rstr" where
  "hex_string bytes = concat (map (\<lambda>b. [hex_digit (b div 16), hex_digit (b mod 16)]) bytes)"

text \<open>ASCII lines, for concrete texts.\<close>

definition lns :: "string list \<Rightarrow> rstr" where
  "lns ls = concat (map (\<lambda>l. lit l @ [10]) ls)"

abbreviation (input) NL :: rchar where "NL \<equiv> 10"
abbreviation (input) CR :: rchar where "CR \<equiv> 13"

lemma len_utf8_pos [simp]: "0 < len_utf8 c" "1 \<le> len_utf8 c" "len_utf8 c \<noteq> 0"
  by (simp_all add: len_utf8_def)

lemma len_utf8_le: "len_utf8 c \<le> 4"
  by (simp add: len_utf8_def)

lemma len_utf8_ascii: "c < 128 \<Longrightarrow> len_utf8 c = 1"
  by (simp add: len_utf8_def)

lemma lit_simps [simp]: "lit [] = []" "lit (c # cs) = of_char c # lit cs"
  by (simp_all add: lit_def)

section \<open>Byte lengths and offsets\<close>

definition str_len :: "rstr \<Rightarrow> nat" where
  "str_len s = sum_list (map len_utf8 s)"

lemma str_len_simps [simp]:
  "str_len [] = 0"
  "str_len (c # s) = len_utf8 c + str_len s"
  "str_len (s @ t) = str_len s + str_len t"
  by (simp_all add: str_len_def)

lemma str_len_0 [simp]: "str_len s = 0 \<longleftrightarrow> s = []"
  by (cases s) auto

lemma length_le_str_len: "length s \<le> str_len s"
proof (induction s)
  case (Cons c s)
  then show ?case using len_utf8_pos(2) [of c] by simp
qed simp

lemma str_len_concat: "str_len (concat ss) = sum_list (map str_len ss)"
  by (induction ss) auto

fun split_bytes :: "rstr \<Rightarrow> nat \<Rightarrow> (rstr \<times> rstr) option" where
  "split_bytes s 0 = Some ([], s)"
| "split_bytes [] (Suc n) = None"
| "split_bytes (c # s) (Suc n) =
     (if len_utf8 c \<le> Suc n
      then map_option (\<lambda>(a, b). (c # a, b)) (split_bytes s (Suc n - len_utf8 c))
      else None)"

definition is_char_boundary :: "rstr \<Rightarrow> nat \<Rightarrow> bool" where
  "is_char_boundary s n \<longleftrightarrow> split_bytes s n \<noteq> None"

definition slice :: "rstr \<Rightarrow> nat \<Rightarrow> nat \<Rightarrow> rstr option" where
  "slice s a b =
     (if a \<le> b then
        (case split_bytes s a of
           None \<Rightarrow> None
         | Some (_, t) \<Rightarrow> map_option fst (split_bytes t (b - a)))
      else None)"

fun floor_boundary :: "rstr \<Rightarrow> nat \<Rightarrow> nat" where
  "floor_boundary s 0 = 0"
| "floor_boundary s (Suc n) = (if is_char_boundary s (Suc n) then Suc n else floor_boundary s n)"

lemma split_bytes_0 [simp]: "split_bytes s 0 = Some ([], s)"
  by (cases s) auto

lemma split_bytes_append [simp]: "split_bytes (a @ b) (str_len a) = Some (a, b)"
proof (induction a)
  case (Cons c a)
  obtain m where m: "len_utf8 c + str_len a = Suc m" "Suc m - len_utf8 c = str_len a"
      "len_utf8 c \<le> Suc m"
    by (cases "len_utf8 c + str_len a") auto
  with Cons show ?case by simp
qed simp

lemma split_bytes_SomeD: "split_bytes s n = Some (a, b) \<Longrightarrow> s = a @ b \<and> str_len a = n"
  by (induction s n arbitrary: a b rule: split_bytes.induct) (auto split: if_splits)

lemma split_bytes_Some_iff: "split_bytes s n = Some (a, b) \<longleftrightarrow> s = a @ b \<and> str_len a = n"
  using split_bytes_SomeD split_bytes_append by blast

lemma append_eq_by_len:
  "a @ b = c @ d \<Longrightarrow> str_len a = str_len c \<Longrightarrow> a = c \<and> b = d"
  by (metis option.inject prod.inject split_bytes_append)

lemma char_boundary_iff: "is_char_boundary s n \<longleftrightarrow> (\<exists>a b. s = a @ b \<and> str_len a = n)"
  unfolding is_char_boundary_def using split_bytes_Some_iff by fastforce

lemma char_boundary_0 [simp]: "is_char_boundary s 0"
  by (simp add: is_char_boundary_def)

lemma char_boundary_len [simp]: "is_char_boundary s (str_len s)"
  by (metis append_Nil2 char_boundary_iff)

lemma char_boundary_le: "is_char_boundary s n \<Longrightarrow> n \<le> str_len s"
  by (auto simp: char_boundary_iff)

lemma slice_Some_iff:
  "slice s i j = Some t \<longleftrightarrow> (\<exists>a b. s = a @ t @ b \<and> str_len a = i \<and> i + str_len t = j)"
  (is "?l \<longleftrightarrow> ?r")
proof
  assume ?l
  then show ?r
    by (fastforce simp: slice_def split_bytes_Some_iff split: option.splits if_splits)
next
  assume ?r
  then show ?l by (auto simp: slice_def)
qed

lemma floor_boundary_le: "floor_boundary s n \<le> n"
  by (induction s n rule: floor_boundary.induct) auto

lemma floor_boundary_ok [simp]: "is_char_boundary s (floor_boundary s n)"
  by (induction s n rule: floor_boundary.induct) auto

lemma floor_boundary_greatest: "is_char_boundary s m \<Longrightarrow> m \<le> n \<Longrightarrow> m \<le> floor_boundary s n"
  by (induction s n rule: floor_boundary.induct) (auto simp: le_Suc_eq)

lemma split_bytes_code [code]:
  "split_bytes s n =
     (if n = 0 then Some ([], s)
      else case s of
        [] \<Rightarrow> None
      | c # s' \<Rightarrow>
          if len_utf8 c \<le> n then map_option (\<lambda>(a, b). (c # a, b)) (split_bytes s' (n - len_utf8 c)) else None)"
  by (cases n; cases s) auto

lemma floor_boundary_code [code]:
  "floor_boundary s n = (if n = 0 \<or> is_char_boundary s n then n else floor_boundary s (n - 1))"
  by (cases n) auto

lemma str_len_pos [simp]: "0 < str_len s \<longleftrightarrow> s \<noteq> []"
  by (cases s) auto

section \<open>Prefixes, suffixes and searching\<close>

definition starts_with :: "rstr \<Rightarrow> rstr \<Rightarrow> bool" where
  "starts_with s p \<longleftrightarrow> take (length p) s = p"

definition strip_prefix :: "rstr \<Rightarrow> rstr \<Rightarrow> rstr option" where
  "strip_prefix p s = (if starts_with s p then Some (drop (length p) s) else None)"

definition ends_with :: "rchar \<Rightarrow> rstr \<Rightarrow> bool" where
  "ends_with c s \<longleftrightarrow> s \<noteq> [] \<and> last s = c"

definition strip_suffix :: "rchar \<Rightarrow> rstr \<Rightarrow> rstr option" where
  "strip_suffix c s = (if ends_with c s then Some (butlast s) else None)"

text \<open>\<open>split_once\<close>: the parts around the first occurrence of the separator.\<close>

fun split_once :: "rstr \<Rightarrow> rstr \<Rightarrow> (rstr \<times> rstr) option" where
  "split_once p [] = (if p = [] then Some ([], []) else None)"
| "split_once p (c # s) =
     (if starts_with (c # s) p then Some ([], drop (length p) (c # s))
      else map_option (\<lambda>(a, b). (c # a, b)) (split_once p s))"

lemma starts_with_append [simp]: "starts_with (p @ s) p"
  by (simp add: starts_with_def)

lemma starts_with_iff: "starts_with s p \<longleftrightarrow> (\<exists>t. s = p @ t)"
  by (auto simp: starts_with_def) (metis append_take_drop_id)

lemma strip_prefix_append [simp]: "strip_prefix p (p @ s) = Some s"
  by (simp add: strip_prefix_def)

lemma strip_prefix_Some_iff: "strip_prefix p s = Some t \<longleftrightarrow> s = p @ t"
  by (auto simp: strip_prefix_def starts_with_iff)

lemma ends_with_snoc [simp]: "ends_with c (s @ [d]) \<longleftrightarrow> d = c"
  by (simp add: ends_with_def)

lemma ends_with_Nil [simp]: "\<not> ends_with c []"
  by (simp add: ends_with_def)

lemma ends_with_Cons [simp]: "s \<noteq> [] \<Longrightarrow> ends_with c (d # s) \<longleftrightarrow> ends_with c s"
  by (simp add: ends_with_def)

lemma ends_with_single [simp]: "ends_with c [d] \<longleftrightarrow> d = c"
  by (simp add: ends_with_def)

lemma ends_with_append [simp]: "t \<noteq> [] \<Longrightarrow> ends_with c (s @ t) \<longleftrightarrow> ends_with c t"
  by (simp add: ends_with_def)

lemma strip_suffix_Some_iff: "strip_suffix c s = Some t \<longleftrightarrow> s = t @ [c]"
  by (cases s rule: rev_cases) (auto simp: strip_suffix_def)

lemma strip_suffix_snoc [simp]: "strip_suffix c (s @ [c]) = Some s"
  by (simp add: strip_suffix_Some_iff)

lemma split_once_SomeD: "split_once p s = Some (a, b) \<Longrightarrow> s = a @ p @ b"
  by (induction p s arbitrary: a b rule: split_once.induct)
     (auto simp: starts_with_iff split: if_splits)

lemma split_once_single:
  "c \<notin> set a \<Longrightarrow> split_once [c] (a @ c # b) = Some (a, b)"
  by (induction a) (auto simp: starts_with_def)

lemma split_once_single_None: "c \<notin> set s \<Longrightarrow> split_once [c] s = None"
  by (induction s) (auto simp: starts_with_def)

text \<open>\<open>split_ascii_whitespace\<close>: the maximal runs of other characters.\<close>

fun split_ascii_whitespace :: "rstr \<Rightarrow> rstr list" where
  "split_ascii_whitespace [] = []"
| "split_ascii_whitespace (c # s) =
     (if is_ascii_whitespace c then split_ascii_whitespace s
      else if s = [] \<or> is_ascii_whitespace (hd s) then [c] # split_ascii_whitespace s
      else (case split_ascii_whitespace s of [] \<Rightarrow> [[c]] | w # ws \<Rightarrow> (c # w) # ws))"

section \<open>Lines\<close>

fun split_inclusive :: "rstr \<Rightarrow> rstr list" where
  "split_inclusive [] = []"
| "split_inclusive (c # s) =
     (if c = NL then [c] # split_inclusive s
      else (case split_inclusive s of [] \<Rightarrow> [[c]] | l # ls \<Rightarrow> (c # l) # ls))"

text \<open>A line has no line feed before its last character.\<close>

definition line_wf :: "rstr \<Rightarrow> bool" where
  "line_wf l \<longleftrightarrow> l \<noteq> [] \<and> NL \<notin> set (butlast l)"

text \<open>The shape of a split text: every line but the last ends with a line feed.\<close>

fun lines_wf :: "rstr list \<Rightarrow> bool" where
  "lines_wf [] = True"
| "lines_wf (l # ls) = (line_wf l \<and> (ls \<noteq> [] \<longrightarrow> ends_with NL l) \<and> lines_wf ls)"

lemma concat_split_inclusive [simp]: "concat (split_inclusive s) = s"
  by (induction s) (auto split: list.splits)

lemma split_inclusive_eq_Nil [simp]: "split_inclusive s = [] \<longleftrightarrow> s = []"
  by (cases s) (auto split: list.splits)

lemma line_wf_Cons: "line_wf l \<Longrightarrow> c \<noteq> NL \<Longrightarrow> line_wf (c # l)"
  by (auto simp: line_wf_def)

lemma split_inclusive_wf [simp]: "lines_wf (split_inclusive s)"
  by (induction s) (auto simp: line_wf_def split: list.splits)

lemma split_inclusive_line:
  "line_wf l \<Longrightarrow> ends_with NL l \<or> s = [] \<Longrightarrow> split_inclusive (l @ s) = l # split_inclusive s"
proof (induction l)
  case (Cons c l)
  show ?case
  proof (cases "l = []")
    case True
    with Cons.prems show ?thesis by auto
  next
    case False
    with Cons.prems have "line_wf l" "c \<noteq> NL" "ends_with NL l \<or> s = []"
      by (auto simp: line_wf_def)
    with Cons.IH show ?thesis by auto
  qed
qed (simp add: line_wf_def)

lemma split_inclusive_concat: "lines_wf ls \<Longrightarrow> split_inclusive (concat ls) = ls"
proof (induction ls)
  case (Cons l ls)
  then have "ends_with NL l \<or> concat ls = []" by (cases "ls = []") auto
  with Cons show ?case by (simp add: split_inclusive_line)
qed simp

lemma split_inclusive_unique: "split_inclusive s = ls \<longleftrightarrow> concat ls = s \<and> lines_wf ls"
  using split_inclusive_concat by fastforce

lemma lines_wf_append:
  "lines_wf (xs @ ys) \<longleftrightarrow>
    lines_wf xs \<and> lines_wf ys \<and> (ys \<noteq> [] \<longrightarrow> xs \<noteq> [] \<longrightarrow> ends_with NL (last xs))"
  by (induction xs) auto

lemma lines_wf_line: "lines_wf ls \<Longrightarrow> l \<in> set ls \<Longrightarrow> line_wf l"
  by (induction ls) auto

lemma lines_wf_drop: "lines_wf ls \<Longrightarrow> lines_wf (drop n ls)"
  by (metis append_take_drop_id lines_wf_append)

lemma lines_wf_take: "lines_wf ls \<Longrightarrow> lines_wf (take n ls)"
  by (metis append_take_drop_id lines_wf_append)

section \<open>Decimal numbers\<close>

text \<open>\<open>usize::to_string\<close> and \<open>str::parse::<usize>\<close>, which takes an optional plus sign.\<close>

fun nat_str :: "nat \<Rightarrow> rstr" where
  "nat_str n = (if n < 10 then [48 + n] else nat_str (n div 10) @ [48 + n mod 10])"

declare nat_str.simps [simp del]

definition digits_val :: "rstr \<Rightarrow> nat" where
  "digits_val ds = foldl (\<lambda>v d. 10 * v + (d - 48)) 0 ds"

definition parse_usize :: "rstr \<Rightarrow> nat option" where
  "parse_usize s =
     (let ds = (case s of [] \<Rightarrow> [] | c # cs \<Rightarrow> if c = 43 then cs else s)
      in if ds = [] \<or> \<not> list_all is_ascii_digit ds then None
         else if digits_val ds \<le> usize_max then Some (digits_val ds) else None)"

lemma nat_str_nonempty [simp]: "nat_str n \<noteq> []"
  by (subst nat_str.simps) simp

lemma nat_str_digits: "list_all is_ascii_digit (nat_str n)"
proof (induction n rule: nat_str.induct)
  case (1 n)
  then show ?case by (subst nat_str.simps) (auto simp: is_ascii_digit_def [of "48 + _"])
qed

lemma digits_val_nat_str [simp]: "digits_val (nat_str n) = n"
proof (induction n rule: nat_str.induct)
  case (1 n)
  then show ?case by (subst nat_str.simps) (auto simp: digits_val_def)
qed

lemma nat_str_set: "d \<in> set (nat_str n) \<Longrightarrow> 48 \<le> d \<and> d \<le> 57"
  using nat_str_digits [of n] by (auto simp: list_all_iff is_ascii_digit_def)

lemma parse_nat_str: "n \<le> usize_max \<Longrightarrow> parse_usize (nat_str n) = Some n"
proof -
  assume n: "n \<le> usize_max"
  obtain c cs where cs: "nat_str n = c # cs" by (cases "nat_str n") auto
  with nat_str_set [of c n] have "c \<noteq> 43" by auto
  with cs n nat_str_digits [of n] show ?thesis
    using digits_val_nat_str [of n] by (simp add: parse_usize_def)
qed

lemma str_len_nat_str: "str_len (nat_str n) = length (nat_str n)"
proof -
  have "\<forall>d \<in> set ds. len_utf8 d = 1 \<Longrightarrow> str_len ds = length ds" for ds
    by (induction ds) auto
  moreover have "\<forall>d \<in> set (nat_str n). len_utf8 d = 1"
    using nat_str_set len_utf8_ascii by fastforce
  ultimately show ?thesis by blast
qed

end
