(* ===== verification/Retrieval_Domain.thy ===== *)
theory Retrieval_Domain
  imports Rust_Text
begin

text \<open>
  The retrieval contracts of \<open>crates/domain/src/lib.rs\<close> and \<open>history.rs\<close>: queries and their
  admission check, records, envelopes, snapshots and the error type.  Constructors that other
  components reuse carry a prefix (\<open>RE\<close> for retrieval errors, \<open>RD\<close> for retrieval data).
\<close>

section \<open>Errors\<close>

datatype retrieval_error =
    REStorageUnavailable
  | REStorageCorrupt
  | REStorageCapacity
  | RESnapshotUnavailable
  | REInvalidInput
  | REUnknownSource
  | RENotFound
  | REAmbiguous
  | REBusy
  | REUnavailable
  | REFreshnessUnavailable
  | RENormalizationFailed
  | REInvalidPayload
  | REResourceLimit
  | RECancelled
  | REShutdown
  | REInternal
  | REThrottled "nat option"

fun is_transient :: "retrieval_error \<Rightarrow> bool" where
  "is_transient REUnavailable = True"
| "is_transient (REThrottled _) = True"
| "is_transient _ = False"

section \<open>Queries\<close>

datatype query =
    Search (q_source: rstr) (q_query: rstr) (q_page: nat) (q_page_size: nat)
  | Get (q_source: rstr) (q_id: rstr)

definition identifier_char :: "rchar \<Rightarrow> bool" where
  "identifier_char c \<longleftrightarrow> is_ascii_alphanumeric c \<or> c = 95 \<or> c = 45"

definition valid_identifier :: "rstr \<Rightarrow> nat \<Rightarrow> bool" where
  "valid_identifier text max_bytes \<longleftrightarrow>
     text \<noteq> [] \<and> str_len text \<le> max_bytes \<and> list_all identifier_char text"

fun query_validate :: "query \<Rightarrow> (unit, retrieval_error) result" where
  "query_validate (Search source text page page_size) =
     (if \<not> valid_identifier source 64 then Err REInvalidInput
      else if 256 < str_len text \<or> list_ex is_control text \<or> 1000 < page
          \<or> \<not> (1 \<le> page_size \<and> page_size \<le> 20)
      then Err REInvalidInput else Ok ())"
| "query_validate (Get source i) =
     (if \<not> valid_identifier source 64 then Err REInvalidInput
      else if \<not> valid_identifier i 128 then Err REInvalidInput else Ok ())"

section \<open>Data\<close>

datatype freshness_requirement = AllowStale | FreshOnly

record law_record =
  r_source :: rstr
  r_id :: rstr
  r_title :: rstr
  r_body :: rstr
  r_synthetic :: bool

record search_page =
  sp_records :: "law_record list"
  sp_page :: nat
  sp_page_size :: nat
  sp_total :: nat

datatype retrieval_data = RDSearch search_page | RDGet law_record

record provenance =
  pv_provider :: rstr
  pv_dataset :: rstr
  pv_source_reference :: rstr
  pv_payload_sha256 :: rstr
  pv_processor_version :: rstr
  pv_retrieved_at :: nat
  pv_validated_at :: nat

datatype freshness_state = Fresh | Stale

record freshness =
  fs_state :: freshness_state
  fs_age_seconds :: nat

datatype progress_stage = Accepted | Refreshing | Validating | Complete

section \<open>Snapshots\<close>

record snapshot_reference =
  sn_snapshot_id :: rstr
  sn_captured_at :: nat

record snapshot_summary =
  ss_snapshot_id :: rstr
  ss_sequence :: nat
  ss_captured_at :: nat
  ss_processor_version :: rstr
  ss_schema_version :: nat
  ss_payload_sha256 :: rstr

record snapshot_envelope =
  se_schema_version :: nat
  se_snapshot :: snapshot_summary
  se_query :: query
  se_data :: retrieval_data
  se_provenance :: provenance
  se_historical :: bool
  se_synthetic :: bool
  se_clock_anomaly :: bool

record snapshot_comparison_origin =
  co_source :: rstr
  co_record_id :: rstr
  co_before :: snapshot_summary
  co_after :: snapshot_summary
  co_projection :: rstr

definition lower_hex :: "rchar \<Rightarrow> bool" where
  "lower_hex c \<longleftrightarrow> is_ascii_digit c \<or> (97 \<le> c \<and> c \<le> 102)"

definition valid_snapshot_id :: "rstr \<Rightarrow> bool" where
  "valid_snapshot_id text \<longleftrightarrow> str_len text = 64 \<and> list_all lower_hex text"

section \<open>Lemmas\<close>

lemma identifier_ascii: "identifier_char c \<Longrightarrow> c < 128 \<and> \<not> is_control c \<and> \<not> is_whitespace c"
  by (auto simp: identifier_char_def is_ascii_alphanumeric_def is_ascii_digit_def
      is_ascii_lowercase_def is_ascii_uppercase_def is_control_def is_whitespace_def)

lemma ascii_str_len: "list_all (\<lambda>c. c < 128) s \<Longrightarrow> str_len s = length s"
  by (induction s) (auto simp: len_utf8_ascii)

lemma valid_identifier_length: "valid_identifier s n \<Longrightarrow> length s = str_len s \<and> length s \<le> n"
  using ascii_str_len [of s] identifier_ascii by (auto simp: valid_identifier_def list_all_iff)

end
