(* ===== verification/Text_Diff_Domain.thy ===== *)
theory Text_Diff_Domain
  imports Retrieval_Domain
begin

text \<open>
  The supplied-text comparison contracts of \<open>crates/domain/src/text_diff.rs\<close>: the limits, the
  attachment and comparison messages and the error type.  Optional fields are \<open>option\<close> values;
  a record field carries a prefix where the source reuses a field name in several structs.
  The serde attributes (untagged decoding of the two input shapes) are not modelled; the
  constructors are what the decoder yields.
\<close>

section \<open>Limits\<close>

definition MAX_TEXT_BYTES :: nat where "MAX_TEXT_BYTES = 1024 * 1024"
definition MAX_LINE_BYTES :: nat where "MAX_LINE_BYTES = 16 * 1024"
definition MAX_LINES :: nat where "MAX_LINES = 100000"
definition MAX_INLINE_RANGES :: nat where "MAX_INLINE_RANGES = 65536"
definition MAX_PAGE_INLINE_RANGES :: nat where "MAX_PAGE_INLINE_RANGES = 4096"
definition MAX_PATCH_INPUT_BYTES :: nat where "MAX_PATCH_INPUT_BYTES = 8 * 1024 * 1024"
definition MAX_ATTACHMENT_CHUNK_BYTES :: nat where "MAX_ATTACHMENT_CHUNK_BYTES = 32 * 1024"

lemmas domain_limits [size_simps] =
  MAX_TEXT_BYTES_def MAX_LINE_BYTES_def MAX_LINES_def MAX_INLINE_RANGES_def
  MAX_PAGE_INLINE_RANGES_def MAX_PATCH_INPUT_BYTES_def MAX_ATTACHMENT_CHUNK_BYTES_def

section \<open>Errors\<close>

datatype text_diff_error =
    InvalidInput
  | InvalidUtf8Boundary nat
  | PatchConflict
  | AttachmentKindMismatch
  | NotFound
  | Busy
  | ResourceLimit
  | Unavailable
  | Cancelled
  | Internal

section \<open>Attachments\<close>

datatype attachment_kind = KText | KPatch

record attachment_summary =
  as_schema_version :: nat
  as_attachment_id :: rstr
  as_kind :: attachment_kind
  as_total_bytes :: nat
  as_committed_bytes :: nat
  as_sealed :: bool
  as_expires_at :: nat

datatype attachment_reference = Handle rstr | Summary attachment_summary

datatype text_source = Inline rstr | Attachment attachment_reference

fun attachment_id :: "attachment_reference \<Rightarrow> rstr" where
  "attachment_id (Handle i) = i"
| "attachment_id (Summary s) = as_attachment_id s"

fun declared_kind :: "attachment_reference \<Rightarrow> attachment_kind option" where
  "declared_kind (Handle _) = None"
| "declared_kind (Summary s) = Some (as_kind s)"

record attachment_upload =
  up_attachment_id :: "rstr option"
  up_kind :: "attachment_kind option"
  up_total_bytes :: "nat option"
  up_offset :: nat
  up_chunk :: rstr
  up_complete :: bool

text \<open>An upload continuation that repeats the published metadata.\<close>

record attachment_upload_resume =
  ur_summary :: attachment_summary
  ur_chunk :: rstr
  ur_offset :: nat
  ur_complete :: bool

definition upload_resume_into_request ::
    "attachment_upload_resume \<Rightarrow> attachment_upload \<times> attachment_kind" where
  "upload_resume_into_request r =
     (\<lparr>up_attachment_id = Some (as_attachment_id (ur_summary r)),
       up_kind = None, up_total_bytes = None,
       up_offset = ur_offset r, up_chunk = ur_chunk r, up_complete = ur_complete r\<rparr>,
      as_kind (ur_summary r))"

record attachment_read =
  rd_attachment_id :: rstr
  rd_offset :: nat

datatype attachment_read_input =
    Minimal attachment_read
  | Full attachment_summary nat

fun read_into_request :: "attachment_read_input \<Rightarrow> attachment_read \<times> attachment_kind option" where
  "read_into_request (Minimal r) = (r, None)"
| "read_into_request (Full s off) =
     (\<lparr>rd_attachment_id = as_attachment_id s, rd_offset = off\<rparr>, Some (as_kind s))"

record attachment_page =
  ap_schema_version :: nat
  ap_attachment :: attachment_summary
  ap_offset :: nat
  ap_next_offset :: nat
  ap_complete :: bool
  ap_text :: rstr

section \<open>Comparisons\<close>

text \<open>Half-open Unicode scalar offsets in one line.\<close>

type_synonym scalar_range = "nat \<times> nat"

record inline_change =
  ic_row_index :: nat
  ic_ranges :: "scalar_range list"

record text_information =
  ti_label :: rstr
  ti_bytes :: nat
  ti_lines :: nat
  ti_crlf :: nat
  ti_lf :: nat
  ti_bare_cr :: nat
  ti_bom :: bool
  ti_final_newline :: bool

record diff_fragment =
  df_patch :: rstr
  df_before_start :: nat
  df_before_count :: nat
  df_after_start :: nat
  df_after_count :: nat
  df_inline_changes :: "inline_change list"

datatype page_view = Changes | Before | After

record compare_input =
  ci_before :: rstr
  ci_after :: rstr
  ci_before_label :: "rstr option"
  ci_after_label :: "rstr option"

record comparison_summary =
  cs_schema_version :: nat
  cs_comparison_id :: rstr
  cs_expires_at :: nat
  cs_before :: text_information
  cs_after :: text_information
  cs_additions :: nat
  cs_deletions :: nat
  cs_equal :: bool
  cs_change_pages :: nat
  cs_origin :: "snapshot_comparison_origin option"

record page_request =
  pr_comparison_id :: rstr
  pr_view :: page_view
  pr_page :: nat

record page_response =
  pp_schema_version :: nat
  pp_comparison_id :: rstr
  pp_view :: page_view
  pp_page :: nat
  pp_total_pages :: nat
  pp_text :: "rstr option"
  pp_fragments :: "diff_fragment list"

record diff_input =
  di_before :: text_source
  di_after :: text_source
  di_before_label :: "rstr option"
  di_after_label :: "rstr option"

record apply_patch_input =
  ai_target :: text_source
  ai_patch :: text_source

record apply_patch_result =
  ar_schema_version :: nat
  ar_result :: attachment_summary
  ar_info :: text_information

end
