(* ===== verification/Text_Info.thy ===== *)
theory Text_Info
  imports Text_Diff_Domain
begin

text \<open>
  Admission of supplied text: \<open>text_info\<close> of \<open>crates/application/src/text_diff.rs\<close>, the gate in
  front of every comparison, attachment and patch result, and \<open>validate_text\<close> of
  \<open>crates/normalization/src/patch.rs\<close>, the same limits inside the patch applier.

  The lemmas show that the two gates accept the same texts (the label apart), and that the
  reported counts partition the line feeds and carriage returns of the text, so that neither
  of the two unchecked \<open>usize\<close> subtractions can underflow.
\<close>

fun count_crlf :: "rstr \<Rightarrow> nat" where
  "count_crlf (a # b # s) = (if a = CR \<and> b = NL then Suc (count_crlf s) else count_crlf (b # s))"
| "count_crlf _ = 0"

definition line_too_long :: "rstr \<Rightarrow> bool" where
  "line_too_long line \<longleftrightarrow>
     MAX_LINE_BYTES < str_len (case strip_suffix NL line of None \<Rightarrow> line | Some l \<Rightarrow> l)"

definition validate_text :: "rstr \<Rightarrow> (unit, text_diff_error) result" where
  "validate_text text =
     (if MAX_TEXT_BYTES < str_len text
         \<or> 0 \<in> set text
         \<or> MAX_LINES < length (split_inclusive text)
         \<or> list_ex line_too_long (split_inclusive text)
      then Err InvalidInput else Ok ())"

definition text_info :: "rstr \<Rightarrow> rstr \<Rightarrow> (text_information, text_diff_error) result" where
  "text_info text label =
     (if MAX_TEXT_BYTES < str_len text
         \<or> 0 \<in> set text
         \<or> label = []
         \<or> 128 < str_len label
         \<or> list_ex is_control label
      then Err InvalidInput
      else
        let lines = length (split_inclusive text) in
        if MAX_LINES < lines \<or> list_ex line_too_long (split_inclusive text)
        then Err InvalidInput
        else
          let crlf = count_crlf text in
          Ok \<lparr>ti_label = label,
              ti_bytes = str_len text,
              ti_lines = lines,
              ti_crlf = crlf,
              ti_lf = count_list text NL - crlf,
              ti_bare_cr = count_list text CR - crlf,
              ti_bom = starts_with text [0xFEFF],
              ti_final_newline = ends_with NL text\<rparr>)"

definition valid_label :: "rstr \<Rightarrow> bool" where
  "valid_label label \<longleftrightarrow> label \<noteq> [] \<and> str_len label \<le> 128 \<and> \<not> list_ex is_control label"

lemma text_info_ok_iff:
  "is_ok (text_info text label) \<longleftrightarrow> validate_text text = Ok () \<and> valid_label label"
  by (auto simp: text_info_def validate_text_def valid_label_def Let_def)

lemma text_info_error: "text_info text label = Err e \<Longrightarrow> e = InvalidInput"
  by (auto simp: text_info_def Let_def split: if_splits)

lemma validate_text_error: "validate_text text = Err e \<Longrightarrow> e = InvalidInput"
  by (auto simp: validate_text_def split: if_splits)

lemma validate_text_OkD:
  assumes "validate_text text = Ok u"
  shows "str_len text \<le> MAX_TEXT_BYTES" "0 \<notin> set text"
    "length (split_inclusive text) \<le> MAX_LINES"
  using assms by (auto simp: validate_text_def split: if_splits)

lemma count_crlf_le_lf: "count_crlf s \<le> count_list s NL"
  by (induction s rule: count_crlf.induct) auto

lemma count_crlf_le_cr: "count_crlf s \<le> count_list s CR"
  by (induction s rule: count_crlf.induct) auto

lemma length_split_inclusive:
  "length (split_inclusive s) =
     count_list s NL + (if s = [] \<or> ends_with NL s then 0 else 1)"
proof (induction s)
  case (Cons c s)
  then show ?case
    by (cases "s = []") (auto split: list.splits if_splits)
qed simp

end
