(* ===== verification/Patch.thy ===== *)
theory Patch
  imports Text_Info
begin

text \<open>
  Strict single-text unified patches: \<open>crates/normalization/src/patch.rs\<close>.

  \<open>parse_patch\<close> validates a whole patch before any row is compared with the target; its loops
  over the remaining lines are \<open>parse_rows\<close> (the rows of one hunk) and \<open>parse_hunks\<close>.
  \<open>apply_patch\<close> then replays the rows at exactly the declared positions, \<open>apply_rows\<close> and
  \<open>apply_hunks\<close> being its loops.

  The specification is \<open>splice_lines\<close>: on the list of source lines, every hunk replaces its old side,
  found at its declared position, by its new side.  The lemmas show that an accepted patch has
  ordered, non-overlapping, changing hunks, that \<open>apply_patch\<close> succeeds exactly when the splice_lines
  exists, keeps the line structure and fits the limits, that a syntax error never depends on
  the target, and that splicing is undone by the inverted hunks.
\<close>

section \<open>The program\<close>

definition MAX_PATCH :: nat where "MAX_PATCH = 8 * 1024 * 1024"
definition MAX_PATCH_ROWS :: nat where "MAX_PATCH_ROWS = 2 * MAX_LINES"
definition MARKER :: rstr where "MARKER = 92 # lit '' No newline at end of file'' @ [NL]"

definition patch_append :: "rstr \<Rightarrow> rstr \<Rightarrow> (rstr, text_diff_error) result" where
  "patch_append out text =
     (if MAX_TEXT_BYTES < saturating_add (str_len out) (str_len text)
      then Err ResourceLimit else Ok (out @ text))"

definition coordinate :: "rstr \<Rightarrow> rchar \<Rightarrow> (nat \<times> nat, text_diff_error) result" where
  "coordinate token prefix =
     and_then (ok_or (strip_prefix [prefix] token) InvalidInput) (\<lambda>token.
       let (start, count) = (case split_once [44] token of None \<Rightarrow> (token, lit ''1'') | Some p \<Rightarrow> p) in
       if start = [] \<or> count = [] \<or> \<not> list_all is_ascii_digit start
           \<or> \<not> list_all is_ascii_digit count
       then Err InvalidInput
       else
         and_then (ok_or (parse_usize start) InvalidInput) (\<lambda>start.
         and_then (ok_or (parse_usize count) InvalidInput) (\<lambda>count.
           if MAX_LINES < count \<or> MAX_LINES < start \<or> (count \<noteq> 0 \<and> start = 0)
           then Err InvalidInput
           else Ok (if count = 0 then start else start - 1, count))))"

record patch_row =
  row_prefix :: rchar
  row_text :: rstr

record patch_hunk =
  old_start :: nat
  hunk_rows :: "patch_row list"

definition parse_preamble :: "rstr list \<Rightarrow> (rstr list, text_diff_error) result" where
  "parse_preamble lines =
     (case lines of
        [] \<Rightarrow> Ok lines
      | header # rest \<Rightarrow>
          if starts_with header (lit ''diff --git '') then
            if \<not> ends_with NL header then Err InvalidInput
            else (case rest of
                    [] \<Rightarrow> Ok rest
                  | l # rest' \<Rightarrow> Ok (if starts_with l (lit ''index '') then rest' else rest))
          else Ok lines)"

definition parse_file_header :: "rstr \<Rightarrow> rstr list \<Rightarrow> (rstr list, text_diff_error) result" where
  "parse_file_header prefix lines =
     (case lines of
        [] \<Rightarrow> Err InvalidInput
      | header # rest \<Rightarrow>
          if \<not> starts_with header prefix \<or> \<not> ends_with NL header
             \<or> str_len header \<le> str_len prefix + 1 \<or> 4096 < str_len header
          then Err InvalidInput else Ok rest)"

text \<open>One row, with the marker line that may follow it.\<close>

definition parse_row :: "rstr list \<Rightarrow> (patch_row \<times> rstr list, text_diff_error) result" where
  "parse_row lines =
     (case lines of
        [] \<Rightarrow> Err InvalidInput
      | row # rest \<Rightarrow>
          (case row of
             [] \<Rightarrow> Err InvalidInput
           | prefix # text \<Rightarrow>
               if prefix \<notin> {32, 45, 43} \<or> \<not> ends_with NL row then Err InvalidInput
               else if rest \<noteq> [] \<and> hd rest = MARKER then
                 and_then (ok_or (strip_suffix NL text) InvalidInput) (\<lambda>text.
                   if text = [] then Err InvalidInput
                   else Ok (\<lparr>row_prefix = prefix, row_text = text\<rparr>, tl rest))
               else Ok (\<lparr>row_prefix = prefix, row_text = text\<rparr>, rest)))"

lemma parse_row_shorter: "parse_row lines = Ok (r, rest) \<Longrightarrow> length rest < length lines"
  by (auto simp: parse_row_def result_simps Let_def split: list.splits if_splits)

record row_state =
  rs_lines :: "rstr list"
  rs_consumed :: nat
  rs_produced :: nat
  rs_changed :: bool
  rs_unterminated :: bool
  rs_total :: nat
  rs_rows :: "patch_row list"

definition row_step ::
    "nat \<Rightarrow> nat \<Rightarrow> row_state \<Rightarrow> (row_state, text_diff_error) result" where
  "row_step old_count new_count st =
     (if MAX_PATCH_ROWS \<le> rs_total st then Err ResourceLimit
      else and_then (parse_row (rs_lines st)) (\<lambda>(row, rest).
        let prefix = row_prefix row; text = row_text row in
        if prefix \<noteq> 43 \<and> old_count \<le> rs_consumed st then Err InvalidInput
        else if prefix \<noteq> 45 \<and> (new_count \<le> rs_produced st \<or> rs_unterminated st)
        then Err InvalidInput
        else Ok \<lparr>rs_lines = rest,
                 rs_consumed = rs_consumed st + (if prefix \<noteq> 43 then 1 else 0),
                 rs_produced = rs_produced st + (if prefix \<noteq> 45 then 1 else 0),
                 rs_changed = (rs_changed st \<or> prefix \<noteq> 32),
                 rs_unterminated =
                   (if prefix \<noteq> 45 then \<not> ends_with NL text else rs_unterminated st),
                 rs_total = rs_total st + 1,
                 rs_rows = rs_rows st @ [row]\<rparr>))"

lemma row_step_shorter:
  "row_step oc nc st = Ok st' \<Longrightarrow> length (rs_lines st') < length (rs_lines st)"
  by (auto simp: row_step_def result_simps Let_def dest: parse_row_shorter split: if_splits)

function parse_rows :: "nat \<Rightarrow> nat \<Rightarrow> row_state \<Rightarrow> (row_state, text_diff_error) result" where
  "parse_rows old_count new_count st =
     (if rs_consumed st < old_count \<or> rs_produced st < new_count
      then and_then (row_step old_count new_count st) (\<lambda>st'. parse_rows old_count new_count st')
      else Ok st)"
  by pat_completeness auto
termination
  by (relation "measure (\<lambda>(oc, nc, st). length (rs_lines st))") (auto dest: row_step_shorter)

declare parse_rows.simps [simp del]

definition parse_hunk_header ::
    "rstr \<Rightarrow> ((nat \<times> nat) \<times> (nat \<times> nat), text_diff_error) result" where
  "parse_hunk_header header =
     and_then (ok_or (strip_prefix (lit ''@@ '') header) InvalidInput) (\<lambda>inner.
     and_then (ok_or (split_once (lit '' @@'') inner) InvalidInput) (\<lambda>(coordinates, suffix).
       if suffix \<noteq> [NL] \<and> \<not> starts_with suffix [32] then Err InvalidInput
       else
         and_then (ok_or (split_once [32] coordinates) InvalidInput) (\<lambda>(old, new).
         and_then (coordinate old 45) (\<lambda>o_range.
         and_then (coordinate new 43) (\<lambda>n_range. Ok (o_range, n_range))))))"

record hunk_state =
  hs_lines :: "rstr list"
  hs_hunks :: "patch_hunk list"
  hs_old_cursor :: nat
  hs_new_cursor :: nat
  hs_unterminated :: bool
  hs_total :: nat

definition hunk_step ::
    "rstr \<Rightarrow> hunk_state \<Rightarrow> (hunk_state, text_diff_error) result" where
  "hunk_step header st =
     (if MAX_LINES \<le> length (hs_hunks st) \<or> \<not> ends_with NL header then Err InvalidInput
      else and_then (parse_hunk_header header) (\<lambda>((o_start, o_count), (n_start, n_count)).
        if o_start < hs_old_cursor st then Err InvalidInput
        else
          let gap = o_start - hs_old_cursor st in
          if checked_add (hs_new_cursor st) gap \<noteq> Some n_start
             \<or> (0 < gap \<and> hs_unterminated st)
          then Err InvalidInput
          else
            and_then (parse_rows o_count n_count
               \<lparr>rs_lines = hs_lines st, rs_consumed = 0, rs_produced = 0, rs_changed = False,
                rs_unterminated = hs_unterminated st, rs_total = hs_total st, rs_rows = []\<rparr>)
            (\<lambda>rs.
              if \<not> rs_changed rs then Err InvalidInput
              else Ok \<lparr>hs_lines = rs_lines rs,
                       hs_hunks = hs_hunks st @ [\<lparr>old_start = o_start, hunk_rows = rs_rows rs\<rparr>],
                       hs_old_cursor = o_start + o_count,
                       hs_new_cursor = n_start + n_count,
                       hs_unterminated = rs_unterminated rs,
                       hs_total = rs_total rs\<rparr>)))"

lemma parse_rows_shorter:
  "parse_rows oc nc st = Ok st' \<Longrightarrow> length (rs_lines st') \<le> length (rs_lines st)"
proof (induction oc nc st rule: parse_rows.induct)
  case (1 oc nc st)
  show ?case
  proof (cases "rs_consumed st < oc \<or> rs_produced st < nc")
    case True
    with "1.prems" obtain st1 where st1: "row_step oc nc st = Ok st1" "parse_rows oc nc st1 = Ok st'"
      by (auto simp: parse_rows.simps [of oc nc st] result_simps)
    from "1.IH" [OF True st1] row_step_shorter [OF st1(1)] show ?thesis by simp
  next
    case False
    with "1.prems" show ?thesis by (simp add: parse_rows.simps [of oc nc st])
  qed
qed

lemma hunk_step_shorter:
  "hunk_step header st = Ok st' \<Longrightarrow> length (hs_lines st') \<le> length (hs_lines st)"
  by (auto simp: hunk_step_def result_simps Let_def dest!: parse_rows_shorter split: if_splits)

function parse_hunks :: "hunk_state \<Rightarrow> (hunk_state, text_diff_error) result" where
  "parse_hunks st =
     (case hs_lines st of
        [] \<Rightarrow> Ok st
      | header # rest \<Rightarrow>
          and_then (hunk_step header (st\<lparr>hs_lines := rest\<rparr>)) (\<lambda>st'. parse_hunks st'))"
  by pat_completeness auto
termination
  by (relation "measure (\<lambda>st. length (hs_lines st))") (auto dest: hunk_step_shorter)

declare parse_hunks.simps [simp del]

definition parse_patch :: "rstr \<Rightarrow> (patch_hunk list, text_diff_error) result" where
  "parse_patch patch =
     and_then (parse_preamble (split_inclusive patch)) (\<lambda>lines.
     and_then (parse_file_header (lit ''--- '') lines) (\<lambda>lines.
     and_then (parse_file_header (lit ''+++ '') lines) (\<lambda>lines.
     and_then (parse_hunks
        \<lparr>hs_lines = lines, hs_hunks = [], hs_old_cursor = 0, hs_new_cursor = 0,
         hs_unterminated = False, hs_total = 0\<rparr>) (\<lambda>st.
       if hs_hunks st = [] then Err InvalidInput else Ok (hs_hunks st)))))"

text \<open>An output that is neither empty nor terminated cannot be extended.\<close>

definition open_tail :: "rstr \<Rightarrow> bool" where
  "open_tail out \<longleftrightarrow> out \<noteq> [] \<and> \<not> ends_with NL out"

primrec append_lines :: "rstr \<Rightarrow> rstr list \<Rightarrow> (rstr, text_diff_error) result" where
  "append_lines out [] = Ok out"
| "append_lines out (l # ls) = and_then (patch_append out l) (\<lambda>out. append_lines out ls)"

fun apply_rows ::
    "rstr list \<Rightarrow> patch_row list \<Rightarrow> nat \<Rightarrow> rstr \<Rightarrow> (nat \<times> rstr, text_diff_error) result" where
  "apply_rows source [] cursor out = Ok (cursor, out)"
| "apply_rows source (row # rows) cursor out =
     (if row_prefix row \<noteq> 43 \<and> get_at source cursor \<noteq> Some (row_text row) then Err PatchConflict
      else
        let cursor' = (if row_prefix row \<noteq> 43 then cursor + 1 else cursor) in
        if row_prefix row \<noteq> 45 then
          if open_tail out then Err PatchConflict
          else and_then (patch_append out (row_text row)) (\<lambda>out. apply_rows source rows cursor' out)
        else apply_rows source rows cursor' out)"

fun apply_hunks ::
    "rstr list \<Rightarrow> patch_hunk list \<Rightarrow> nat \<Rightarrow> rstr \<Rightarrow> (nat \<times> rstr, text_diff_error) result" where
  "apply_hunks source [] cursor out = Ok (cursor, out)"
| "apply_hunks source (h # hs) cursor out =
     and_then (ok_or (get_range source cursor (old_start h)) PatchConflict) (\<lambda>gap.
       if gap \<noteq> [] \<and> open_tail out then Err PatchConflict
       else and_then (append_lines out gap) (\<lambda>out.
            and_then (apply_rows source (hunk_rows h) (old_start h) out) (\<lambda>(cursor, out).
              apply_hunks source hs cursor out)))"

definition apply_patch :: "rstr \<Rightarrow> rstr \<Rightarrow> (rstr, text_diff_error) result" where
  "apply_patch target patch =
     and_then (validate_text target) (\<lambda>_.
       if MAX_PATCH < str_len patch \<or> 0 \<in> set patch then Err InvalidInput
       else if patch = [] then Ok target
       else
         and_then (parse_patch patch) (\<lambda>hunks.
           let source = split_inclusive target in
           and_then (apply_hunks source hunks 0 []) (\<lambda>(cursor, out).
             if cursor < length source \<and> open_tail out then Err PatchConflict
             else
               and_then (append_lines out (drop cursor source)) (\<lambda>out.
               and_then (validate_text out) (\<lambda>_. Ok out)))))"

section \<open>The bounded output\<close>

interpretation patch_out: strict_append patch_append str_len MAX_TEXT_BYTES ResourceLimit
  by unfold_locales (auto simp: patch_append_def saturating_add_def size_simps)

lemma append_lines_eq_all: "append_lines out ls = patch_out.append_all out ls"
  by (induction ls arbitrary: out) auto

lemma append_lines_eq:
  "str_len out \<le> MAX_TEXT_BYTES \<Longrightarrow>
    append_lines out ls =
      (if str_len (out @ concat ls) \<le> MAX_TEXT_BYTES then Ok (out @ concat ls)
       else Err ResourceLimit)"
  by (simp add: append_lines_eq_all patch_out.append_all_eq)

section \<open>The shape of accepted patches\<close>

definition old_side :: "patch_row list \<Rightarrow> rstr list" where
  "old_side rows = map row_text (filter (\<lambda>r. row_prefix r \<noteq> 43) rows)"

definition new_side :: "patch_row list \<Rightarrow> rstr list" where
  "new_side rows = map row_text (filter (\<lambda>r. row_prefix r \<noteq> 45) rows)"

definition row_ok :: "patch_row \<Rightarrow> bool" where
  "row_ok r \<longleftrightarrow> row_prefix r \<in> {32, 45, 43} \<and> line_wf (row_text r)"

definition hunk_ok :: "patch_hunk \<Rightarrow> bool" where
  "hunk_ok h \<longleftrightarrow> list_all row_ok (hunk_rows h) \<and> list_ex (\<lambda>r. row_prefix r \<noteq> 32) (hunk_rows h)"

text \<open>Hunks in source order, each starting at or after the end of the one before.\<close>

fun hunks_ordered :: "nat \<Rightarrow> patch_hunk list \<Rightarrow> bool" where
  "hunks_ordered cur [] = True"
| "hunks_ordered cur (h # hs) =
     (cur \<le> old_start h \<and> hunks_ordered (old_start h + length (old_side (hunk_rows h))) hs)"

fun hunks_end :: "nat \<Rightarrow> patch_hunk list \<Rightarrow> nat" where
  "hunks_end cur [] = cur"
| "hunks_end cur (h # hs) = hunks_end (old_start h + length (old_side (hunk_rows h))) hs"

definition total_rows :: "patch_hunk list \<Rightarrow> nat" where
  "total_rows hs = sum_list (map (\<lambda>h. length (hunk_rows h)) hs)"

lemma sides_simps [simp]:
  "old_side [] = []" "new_side [] = []"
  "old_side (r # rs) = (if row_prefix r \<noteq> 43 then row_text r # old_side rs else old_side rs)"
  "new_side (r # rs) = (if row_prefix r \<noteq> 45 then row_text r # new_side rs else new_side rs)"
  "old_side (rs @ rs') = old_side rs @ old_side rs'"
  "new_side (rs @ rs') = new_side rs @ new_side rs'"
  by (simp_all add: old_side_def new_side_def)

lemma hunks_ordered_snoc [simp]:
  "hunks_ordered cur (hs @ [h]) \<longleftrightarrow> hunks_ordered cur hs \<and> hunks_end cur hs \<le> old_start h"
  by (induction hs arbitrary: cur) auto

lemma hunks_end_snoc [simp]:
  "hunks_end cur (hs @ [h]) = old_start h + length (old_side (hunk_rows h))"
  by (induction hs arbitrary: cur) auto

lemma line_wf_body:
  assumes "line_wf (p # t)" "ends_with NL (p # t)" "p \<noteq> NL"
  shows "line_wf t" "ends_with NL t"
  using assms by (auto simp: line_wf_def ends_with_def split: if_splits)

lemma parse_row_ok:
  assumes "parse_row lines = Ok (r, rest)" "list_all line_wf lines"
  shows "row_ok r \<and> list_all line_wf rest"
proof -
  from assms(1) obtain row rest0 p t where
    lines: "lines = row # rest0" "row = p # t" and p: "p \<in> {32, 45, 43}" and nl: "ends_with NL row"
    by (auto simp: parse_row_def split: list.splits if_splits)
  with assms(2) line_wf_body [of p t] have t: "line_wf t" "ends_with NL t"
    by auto
  show ?thesis
  proof (cases "rest0 \<noteq> [] \<and> hd rest0 = MARKER")
    case True
    with assms(1) lines p nl obtain u where "strip_suffix NL t = Some u" "u \<noteq> []"
      and r: "r = \<lparr>row_prefix = p, row_text = u\<rparr>" "rest = tl rest0"
      by (auto simp: parse_row_def result_simps split: if_splits)
    then have "line_wf u"
      using t by (auto simp: strip_suffix_Some_iff line_wf_def dest: in_set_butlastD)
    with r p assms(2) lines show ?thesis by (cases rest0) (auto simp: row_ok_def)
  next
    case False
    with assms lines p nl t show ?thesis by (auto simp: parse_row_def row_ok_def)
  qed
qed

definition row_inv :: "nat \<Rightarrow> nat \<Rightarrow> row_state \<Rightarrow> bool" where
  "row_inv oc nc st \<longleftrightarrow>
     rs_consumed st = length (old_side (rs_rows st)) \<and> rs_consumed st \<le> oc \<and>
     rs_produced st = length (new_side (rs_rows st)) \<and> rs_produced st \<le> nc \<and>
     rs_changed st = list_ex (\<lambda>r. row_prefix r \<noteq> 32) (rs_rows st) \<and>
     list_all row_ok (rs_rows st) \<and> list_all line_wf (rs_lines st) \<and>
     rs_total st \<le> MAX_PATCH_ROWS"

lemma row_step_inv:
  "row_step oc nc st = Ok st' \<Longrightarrow> row_inv oc nc st \<Longrightarrow>
     row_inv oc nc st' \<and> (\<exists>r. rs_rows st' = rs_rows st @ [r]) \<and> rs_total st' = rs_total st + 1"
  by (auto simp: row_step_def row_inv_def result_simps Let_def
      dest!: parse_row_ok split: if_splits)

lemma parse_rows_inv:
  "parse_rows oc nc st = Ok st' \<Longrightarrow> row_inv oc nc st \<Longrightarrow>
     row_inv oc nc st' \<and> rs_consumed st' = oc \<and> rs_produced st' = nc \<and>
     rs_total st' + length (rs_rows st) = rs_total st + length (rs_rows st')"
proof (induction oc nc st rule: parse_rows.induct)
  case (1 oc nc st)
  show ?case
  proof (cases "rs_consumed st < oc \<or> rs_produced st < nc")
    case True
    with "1.prems" obtain st1 where st1: "row_step oc nc st = Ok st1" "parse_rows oc nc st1 = Ok st'"
      by (auto simp: parse_rows.simps [of oc nc st] result_simps)
    from row_step_inv [OF st1(1) "1.prems"(2)] "1.IH" [OF True st1] show ?thesis by auto
  next
    case False
    with "1.prems" show ?thesis
      by (auto simp: parse_rows.simps [of oc nc st] row_inv_def)
  qed
qed

definition hunk_inv :: "hunk_state \<Rightarrow> bool" where
  "hunk_inv st \<longleftrightarrow>
     hunks_ordered 0 (hs_hunks st) \<and> hunks_end 0 (hs_hunks st) = hs_old_cursor st \<and>
     list_all hunk_ok (hs_hunks st) \<and> list_all line_wf (hs_lines st) \<and>
     hs_total st = total_rows (hs_hunks st) \<and> hs_total st \<le> MAX_PATCH_ROWS \<and>
     length (hs_hunks st) \<le> MAX_LINES"

lemma hunk_step_inv:
  assumes "hunk_step header st = Ok st'" "hunk_inv st"
  shows "hunk_inv st'"
proof -
  from assms(1) obtain os oc ns nc rs where
    len: "length (hs_hunks st) < MAX_LINES" and cur: "hs_old_cursor st \<le> os" and
    rows: "parse_rows oc nc
       \<lparr>rs_lines = hs_lines st, rs_consumed = 0, rs_produced = 0, rs_changed = False,
        rs_unterminated = hs_unterminated st, rs_total = hs_total st, rs_rows = []\<rparr> = Ok rs" and
    changed: "rs_changed rs" and
    st': "st' = \<lparr>hs_lines = rs_lines rs,
       hs_hunks = hs_hunks st @ [\<lparr>old_start = os, hunk_rows = rs_rows rs\<rparr>],
       hs_old_cursor = os + oc, hs_new_cursor = ns + nc,
       hs_unterminated = rs_unterminated rs, hs_total = rs_total rs\<rparr>"
    by (auto simp: hunk_step_def result_simps Let_def split: if_splits)
  from parse_rows_inv [OF rows] assms(2) have "row_inv oc nc rs" "rs_consumed rs = oc"
    "rs_total rs = hs_total st + length (rs_rows rs)"
    by (auto simp: row_inv_def hunk_inv_def)
  with assms(2) len cur changed st' show ?thesis
    by (auto simp: hunk_inv_def row_inv_def hunk_ok_def total_rows_def)
qed

lemma parse_hunks_inv: "parse_hunks st = Ok st' \<Longrightarrow> hunk_inv st \<Longrightarrow> hunk_inv st'"
proof (induction st rule: parse_hunks.induct)
  case (1 st)
  show ?case
  proof (cases "hs_lines st")
    case Nil
    with "1.prems" show ?thesis by (simp add: parse_hunks.simps [of st])
  next
    case (Cons header rest)
    with "1.prems"(1) obtain st1 where st1: "hunk_step header (st\<lparr>hs_lines := rest\<rparr>) = Ok st1"
      "parse_hunks st1 = Ok st'"
      by (auto simp: parse_hunks.simps [of st] result_simps)
    have "hunk_inv (st\<lparr>hs_lines := rest\<rparr>)"
      using "1.prems"(2) Cons by (auto simp: hunk_inv_def)
    then have "hunk_inv st1" by (rule hunk_step_inv [OF st1(1)])
    with "1.IH" [OF Cons st1(1) st1(2)] show ?thesis by simp
  qed
qed

lemma preamble_lines_wf:
  "parse_preamble ls = Ok ls' \<Longrightarrow> list_all line_wf ls \<Longrightarrow> list_all line_wf ls'"
  by (cases ls) (auto simp: parse_preamble_def split: list.splits if_splits)

lemma header_lines_wf:
  "parse_file_header p ls = Ok ls' \<Longrightarrow> list_all line_wf ls \<Longrightarrow> list_all line_wf ls'"
  by (cases ls) (auto simp: parse_file_header_def split: if_splits)

lemma parse_patch_shape:
  assumes "parse_patch patch = Ok hunks"
  shows "hunks \<noteq> []" "list_all hunk_ok hunks" "hunks_ordered 0 hunks"
    "total_rows hunks \<le> MAX_PATCH_ROWS" "length hunks \<le> MAX_LINES"
proof -
  have wf: "list_all line_wf (split_inclusive patch)"
    by (metis list_all_iff lines_wf_line split_inclusive_wf)
  from assms obtain l1 l2 l3 st where
    l: "parse_preamble (split_inclusive patch) = Ok l1" "parse_file_header (lit ''--- '') l1 = Ok l2"
      "parse_file_header (lit ''+++ '') l2 = Ok l3" and
    st: "parse_hunks \<lparr>hs_lines = l3, hs_hunks = [], hs_old_cursor = 0, hs_new_cursor = 0,
         hs_unterminated = False, hs_total = 0\<rparr> = Ok st" "hs_hunks st \<noteq> []" "hunks = hs_hunks st"
    by (auto simp: parse_patch_def result_simps split: if_splits)
  have "list_all line_wf l3"
    using header_lines_wf [OF l(3) header_lines_wf [OF l(2) preamble_lines_wf [OF l(1) wf]]] .
  then have "hunk_inv st"
    by (intro parse_hunks_inv [OF st(1)]) (simp add: hunk_inv_def total_rows_def)
  with st show "hunks \<noteq> []" "list_all hunk_ok hunks" "hunks_ordered 0 hunks"
    "total_rows hunks \<le> MAX_PATCH_ROWS" "length hunks \<le> MAX_LINES"
    by (auto simp: hunk_inv_def)
qed

section \<open>The specification\<close>

text \<open>Replace the old side of every hunk, found at its declared line, by its new side.\<close>

fun splice_lines :: "rstr list \<Rightarrow> nat \<Rightarrow> patch_hunk list \<Rightarrow> rstr list option" where
  "splice_lines src cur [] = Some (drop cur src)"
| "splice_lines src cur (h # hs) =
     (let old = old_side (hunk_rows h) in
      if cur \<le> old_start h \<and> old_start h + length old \<le> length src
         \<and> take (length old) (drop (old_start h) src) = old
      then map_option (\<lambda>rest. take (old_start h - cur) (drop cur src) @ new_side (hunk_rows h) @ rest)
             (splice_lines src (old_start h + length old) hs)
      else None)"

lemma open_tail_concat:
  "lines_wf acc \<Longrightarrow> open_tail (concat acc) \<longleftrightarrow> acc \<noteq> [] \<and> \<not> ends_with NL (last acc)"
proof (cases acc rule: rev_cases)
  case (snoc xs x)
  assume "lines_wf acc"
  with snoc have "x \<noteq> []" by (auto simp: lines_wf_append line_wf_def)
  with snoc show ?thesis by (auto simp: open_tail_def)
qed (simp add: open_tail_def)

lemma lines_wf_extend:
  "lines_wf acc \<Longrightarrow> lines_wf ls \<Longrightarrow>
     lines_wf (acc @ ls) \<longleftrightarrow> \<not> (ls \<noteq> [] \<and> open_tail (concat acc))"
  by (auto simp: lines_wf_append open_tail_concat)

lemma lines_wf_snoc:
  "lines_wf acc \<Longrightarrow> line_wf l \<Longrightarrow> lines_wf (acc @ [l]) \<longleftrightarrow> \<not> open_tail (concat acc)"
  by (simp add: lines_wf_extend)

lemma take_drop_Cons_iff:
  "take (Suc n) (drop i xs) = y # ys \<longleftrightarrow>
     get_at xs i = Some y \<and> take n (drop (Suc i) xs) = ys"
  by (cases "i < length xs") (auto simp: get_at_def Cons_nth_drop_Suc [symmetric])

lemma apply_rows_iff:
  assumes "list_all row_ok rows" "lines_wf acc" "str_len (concat acc) \<le> MAX_TEXT_BYTES"
  shows "apply_rows src rows cur (concat acc) = Ok (cur', out') \<longleftrightarrow>
    take (length (old_side rows)) (drop cur src) = old_side rows \<and>
    cur' = cur + length (old_side rows) \<and>
    lines_wf (acc @ new_side rows) \<and> out' = concat (acc @ new_side rows) \<and>
    str_len out' \<le> MAX_TEXT_BYTES"
  using assms
proof (induction rows arbitrary: cur acc)
  case (Cons r rows)
  from Cons.prems have r: "line_wf (row_text r)" and rows: "list_all row_ok rows"
    by (auto simp: row_ok_def [of r])
  define cur1 where "cur1 = (if row_prefix r \<noteq> 43 then cur + 1 else cur)"
  have step: "apply_rows src (r # rows) cur (concat acc) =
     (if row_prefix r \<noteq> 43 \<and> get_at src cur \<noteq> Some (row_text r) then Err PatchConflict
      else if row_prefix r \<noteq> 45 then
        if open_tail (concat acc) then Err PatchConflict
        else if str_len (concat (acc @ [row_text r])) \<le> MAX_TEXT_BYTES
          then apply_rows src rows cur1 (concat (acc @ [row_text r])) else Err ResourceLimit
      else apply_rows src rows cur1 (concat acc))"
    by (simp add: cur1_def patch_out.append_iff Let_def)
  show ?case
  proof (cases "row_prefix r = 45")
    case True
    have "apply_rows src rows cur1 (concat acc) = Ok (cur', out') \<longleftrightarrow>
        take (length (old_side rows)) (drop cur1 src) = old_side rows \<and>
        cur' = cur1 + length (old_side rows) \<and> lines_wf (acc @ new_side rows) \<and>
        out' = concat (acc @ new_side rows) \<and> str_len out' \<le> MAX_TEXT_BYTES"
      using Cons.IH [of acc cur1] Cons.prems(2,3) rows by simp
    with True show ?thesis
      unfolding step by (auto simp: cur1_def take_drop_Cons_iff simp del: apply_rows.simps)
  next
    case False
    have wf: "lines_wf (acc @ [row_text r]) \<longleftrightarrow> \<not> open_tail (concat acc)"
      using Cons.prems(2) r by (simp add: lines_wf_snoc)
    have big: "str_len out' \<le> MAX_TEXT_BYTES \<Longrightarrow>
        out' = concat (acc @ row_text r # new_side rows) \<Longrightarrow>
        str_len (concat (acc @ [row_text r])) \<le> MAX_TEXT_BYTES"
      by simp
    have wf': "lines_wf (acc @ row_text r # new_side rows) \<Longrightarrow> lines_wf (acc @ [row_text r])"
      by (auto simp: lines_wf_append)
    have IH: "lines_wf (acc @ [row_text r]) \<Longrightarrow>
        str_len (concat (acc @ [row_text r])) \<le> MAX_TEXT_BYTES \<Longrightarrow>
        apply_rows src rows cur1 (concat (acc @ [row_text r])) = Ok (cur', out') \<longleftrightarrow>
        take (length (old_side rows)) (drop cur1 src) = old_side rows \<and>
        cur' = cur1 + length (old_side rows) \<and> lines_wf (acc @ row_text r # new_side rows) \<and>
        out' = concat (acc @ row_text r # new_side rows) \<and> str_len out' \<le> MAX_TEXT_BYTES"
      using Cons.IH [of "acc @ [row_text r]" cur1] rows by simp
    show ?thesis
    proof (cases "lines_wf (acc @ [row_text r]) \<and>
        str_len (concat (acc @ [row_text r])) \<le> MAX_TEXT_BYTES")
      case True
      with False wf IH show ?thesis
        unfolding step
        by (auto simp: cur1_def take_drop_Cons_iff simp del: concat_append apply_rows.simps)
    next
      case no: False
      with False wf wf' big show ?thesis
        unfolding step by (auto simp del: concat_append apply_rows.simps)
    qed
  qed
qed auto

text \<open>All hunks from a cursor, then the rest of the source.\<close>

definition apply_from ::
    "rstr list \<Rightarrow> patch_hunk list \<Rightarrow> nat \<Rightarrow> rstr \<Rightarrow> (rstr, text_diff_error) result" where
  "apply_from src hs cur out =
     and_then (apply_hunks src hs cur out) (\<lambda>(cursor, out).
       if cursor < length src \<and> open_tail out then Err PatchConflict
       else append_lines out (drop cursor src))"

lemma apply_from_Nil:
  assumes "lines_wf src" "lines_wf acc" "str_len (concat acc) \<le> MAX_TEXT_BYTES"
  shows "apply_from src [] cur (concat acc) = Ok out \<longleftrightarrow>
    lines_wf (acc @ drop cur src) \<and> out = concat (acc @ drop cur src) \<and> str_len out \<le> MAX_TEXT_BYTES"
  using assms lines_wf_extend [OF assms(2) lines_wf_drop [OF assms(1), of cur]]
  by (auto simp: apply_from_def append_lines_eq)

lemma apply_from_Cons:
  "apply_from src (h # hs) cur out =
     and_then (ok_or (get_range src cur (old_start h)) PatchConflict) (\<lambda>gap.
       if gap \<noteq> [] \<and> open_tail out then Err PatchConflict
       else and_then (append_lines out gap) (\<lambda>out.
            and_then (apply_rows src (hunk_rows h) (old_start h) out) (\<lambda>(cursor, out).
              apply_from src hs cursor out)))"
  by (auto simp: apply_from_def and_then_def ok_or_def split: option.splits sum.splits prod.splits)

lemma apply_from_iff:
  assumes "list_all hunk_ok hs" "lines_wf src" "lines_wf acc"
    "str_len (concat acc) \<le> MAX_TEXT_BYTES"
  shows "apply_from src hs cur (concat acc) = Ok out \<longleftrightarrow>
    (\<exists>ls. splice_lines src cur hs = Some ls \<and> lines_wf (acc @ ls) \<and> out = concat (acc @ ls) \<and>
      str_len out \<le> MAX_TEXT_BYTES)"
  using assms
proof (induction hs arbitrary: cur acc)
  case Nil
  then show ?case by (simp add: apply_from_Nil)
next
  case (Cons h hs)
  let ?rows = "hunk_rows h" and ?new = "new_side (hunk_rows h)"
  let ?old = "old_side (hunk_rows h)" and ?s = "old_start h"
  let ?gap = "take (?s - cur) (drop cur src)" and ?next = "?s + length ?old"
  have rows: "list_all row_ok ?rows" and hs: "list_all hunk_ok hs"
    using Cons.prems(1) by (auto simp: hunk_ok_def [of h])
  have gap_wf: "lines_wf ?gap" by (intro lines_wf_take lines_wf_drop Cons.prems)
  note ext = lines_wf_extend [OF Cons.prems(3) gap_wf]
  have reach: "take (length ?old) (drop ?s src) = ?old \<Longrightarrow> ?s \<le> length src \<Longrightarrow> ?next \<le> length src"
  proof -
    assume m: "take (length ?old) (drop ?s src) = ?old" and "?s \<le> length src"
    have "length ?old = min (length ?old) (length src - ?s)" using m by (metis length_drop length_take min.commute)
    with \<open>?s \<le> length src\<close> show ?thesis by linarith
  qed
  show ?case
  proof (cases "cur \<le> ?s \<and> ?s \<le> length src \<and> lines_wf (acc @ ?gap) \<and>
      str_len (concat (acc @ ?gap)) \<le> MAX_TEXT_BYTES")
    case True
    then have step: "apply_from src (h # hs) cur (concat acc) =
        and_then (apply_rows src ?rows ?s (concat (acc @ ?gap)))
          (\<lambda>(cursor, out). apply_from src hs cursor out)"
      using ext Cons.prems(4) by (auto simp: apply_from_Cons get_range_def append_lines_eq)
    have rows_iff: "\<And>c o1. apply_rows src ?rows ?s (concat (acc @ ?gap)) = Ok (c, o1) \<longleftrightarrow>
        take (length ?old) (drop ?s src) = ?old \<and> c = ?next \<and>
        lines_wf (acc @ ?gap @ ?new) \<and> o1 = concat (acc @ ?gap @ ?new) \<and> str_len o1 \<le> MAX_TEXT_BYTES"
      using apply_rows_iff [OF rows, of "acc @ ?gap"] True by simp
    have rest_iff: "lines_wf (acc @ ?gap @ ?new) \<Longrightarrow>
        str_len (concat (acc @ ?gap @ ?new)) \<le> MAX_TEXT_BYTES \<Longrightarrow>
        apply_from src hs ?next (concat (acc @ ?gap @ ?new)) = Ok out \<longleftrightarrow>
        (\<exists>ls. splice_lines src ?next hs = Some ls \<and> lines_wf ((acc @ ?gap @ ?new) @ ls) \<and>
          out = concat ((acc @ ?gap @ ?new) @ ls) \<and> str_len out \<le> MAX_TEXT_BYTES)"
      by (rule Cons.IH [OF hs Cons.prems(2)])
    have "apply_from src (h # hs) cur (concat acc) = Ok out \<longleftrightarrow>
        take (length ?old) (drop ?s src) = ?old \<and> lines_wf (acc @ ?gap @ ?new) \<and>
        str_len (concat (acc @ ?gap @ ?new)) \<le> MAX_TEXT_BYTES \<and>
        apply_from src hs ?next (concat (acc @ ?gap @ ?new)) = Ok out"
      by (simp add: step and_then_eq_Ok rows_iff split_paired_Ex del: concat_append)
    also have "\<dots> \<longleftrightarrow> take (length ?old) (drop ?s src) = ?old \<and>
        (\<exists>ls. splice_lines src ?next hs = Some ls \<and> lines_wf (acc @ ?gap @ ?new @ ls) \<and>
          out = concat (acc @ ?gap @ ?new @ ls) \<and> str_len out \<le> MAX_TEXT_BYTES)"
    proof -
      have "lines_wf (acc @ ?gap @ ?new @ ls) \<Longrightarrow> str_len (concat (acc @ ?gap @ ?new @ ls)) \<le> M \<Longrightarrow>
          lines_wf (acc @ ?gap @ ?new) \<and> str_len (concat (acc @ ?gap @ ?new)) \<le> M" for ls M
        using lines_wf_append [of "acc @ ?gap @ ?new" ls] by simp
      with rest_iff show ?thesis by (simp del: concat_append) blast
    qed
    also have "\<dots> \<longleftrightarrow> (\<exists>ls. splice_lines src cur (h # hs) = Some ls \<and> lines_wf (acc @ ls) \<and>
        out = concat (acc @ ls) \<and> str_len out \<le> MAX_TEXT_BYTES)"
    proof (cases "take (length ?old) (drop ?s src) = ?old")
      case match: True
      with True reach have "splice_lines src cur (h # hs) =
          map_option (\<lambda>rest. ?gap @ ?new @ rest) (splice_lines src ?next hs)"
        by (simp only: splice_lines.simps Let_def) simp
      with match show ?thesis by auto
    qed (simp add: Let_def)
    finally show ?thesis .
  next
    case False
    have "apply_from src (h # hs) cur (concat acc) \<noteq> Ok out"
    proof (cases "cur \<le> ?s \<and> ?s \<le> length src")
      case True
      with False ext Cons.prems(4) have
        "?gap \<noteq> [] \<and> open_tail (concat acc) \<or> append_lines (concat acc) ?gap = Err ResourceLimit"
        by (auto simp: append_lines_eq)
      with True show ?thesis by (auto simp: apply_from_Cons get_range_def)
    qed (auto simp: apply_from_Cons get_range_def)
    moreover have "splice_lines src cur (h # hs) = Some ls \<Longrightarrow> lines_wf (acc @ ls) \<Longrightarrow>
        MAX_TEXT_BYTES < str_len (concat (acc @ ls))" for ls
    proof -
      assume sp: "splice_lines src cur (h # hs) = Some ls" and wf: "lines_wf (acc @ ls)"
      then obtain rest where "cur \<le> ?s" "?s \<le> length src" and ls: "ls = ?gap @ ?new @ rest"
        by (auto simp: Let_def split: if_splits)
      moreover have "lines_wf (acc @ ?gap)"
        using wf ls by (metis append.assoc lines_wf_append)
      ultimately show ?thesis using False by auto
    qed
    ultimately show ?thesis by fastforce
  qed
qed

lemma apply_from_start:
  assumes "list_all hunk_ok hs"
  shows "apply_from (split_inclusive t) hs 0 [] = Ok out \<longleftrightarrow>
    splice_lines (split_inclusive t) 0 hs = Some (split_inclusive out) \<and> str_len out \<le> MAX_TEXT_BYTES"
proof -
  have "apply_from (split_inclusive t) hs 0 [] = Ok out \<longleftrightarrow>
      (\<exists>ls. splice_lines (split_inclusive t) 0 hs = Some ls \<and> lines_wf ls \<and> out = concat ls \<and>
        str_len out \<le> MAX_TEXT_BYTES)"
    using apply_from_iff [OF assms split_inclusive_wf, of "[]" t 0 out] by simp
  also have "\<dots> \<longleftrightarrow> (\<exists>ls. splice_lines (split_inclusive t) 0 hs = Some ls \<and>
      split_inclusive out = ls \<and> str_len out \<le> MAX_TEXT_BYTES)"
    by (simp only: split_inclusive_unique) blast
  finally show ?thesis by blast
qed

lemma apply_patch_from:
  "patch \<noteq> [] \<Longrightarrow> apply_patch target patch =
     and_then (validate_text target) (\<lambda>_.
       if MAX_PATCH < str_len patch \<or> 0 \<in> set patch then Err InvalidInput
       else and_then (parse_patch patch) (\<lambda>hunks.
         and_then (apply_from (split_inclusive target) hunks 0 []) (\<lambda>out.
         and_then (validate_text out) (\<lambda>_. Ok out))))"
  by (auto simp: apply_patch_def apply_from_def and_then_def Let_def split: sum.splits)

section \<open>Conflicts and syntax errors\<close>

lemma apply_rows_no_conflict:
  assumes "list_all row_ok rows" "lines_wf acc" "str_len (concat acc) \<le> MAX_TEXT_BYTES"
    "take (length (old_side rows)) (drop cur src) = old_side rows" "lines_wf (acc @ new_side rows)"
  shows "apply_rows src rows cur (concat acc) \<noteq> Err PatchConflict"
  using assms
proof (induction rows arbitrary: cur acc)
  case (Cons r rows)
  have rows: "list_all row_ok rows" and r: "line_wf (row_text r)"
    using Cons.prems(1) by (auto simp: row_ok_def [of r])
  have wf1: "row_prefix r \<noteq> 45 \<Longrightarrow> lines_wf (acc @ [row_text r])"
    using Cons.prems(5) by (auto simp: lines_wf_append)
  then have closed: "row_prefix r \<noteq> 45 \<Longrightarrow> \<not> open_tail (concat acc)"
    using Cons.prems(2) r by (simp add: lines_wf_snoc)
  have ext: "row_prefix r \<noteq> 45 \<Longrightarrow> str_len (concat (acc @ [row_text r])) \<le> MAX_TEXT_BYTES \<Longrightarrow>
      take (length (old_side rows)) (drop c src) = old_side rows \<Longrightarrow>
      apply_rows src rows c (concat acc @ row_text r) \<noteq> Err PatchConflict" for c
    using Cons.IH [of "acc @ [row_text r]" c] rows wf1 Cons.prems(5) by simp
  show ?case
    using Cons.IH [of acc] rows Cons.prems(2-5) ext closed
    by (cases "row_prefix r = 45"; cases "row_prefix r = 43")
       (auto simp: take_drop_Cons_iff Let_def patch_out.append_iff)
qed simp

lemma apply_from_no_conflict:
  assumes "list_all hunk_ok hs" "lines_wf src" "lines_wf acc"
    "str_len (concat acc) \<le> MAX_TEXT_BYTES" "splice_lines src cur hs = Some ls" "lines_wf (acc @ ls)"
  shows "apply_from src hs cur (concat acc) \<noteq> Err PatchConflict"
  using assms
proof (induction hs arbitrary: cur acc ls)
  case Nil
  then have "\<not> (cur < length src \<and> open_tail (concat acc))"
    using lines_wf_extend [OF Nil(3) lines_wf_drop [OF Nil(2), of cur]] by auto
  then show ?case using Nil by (auto simp: apply_from_def append_lines_eq)
next
  case (Cons h hs)
  let ?gap = "take (old_start h - cur) (drop cur src)" and ?new = "new_side (hunk_rows h)"
  let ?old = "old_side (hunk_rows h)"
  have rows: "list_all row_ok (hunk_rows h)" and hs: "list_all hunk_ok hs"
    using Cons.prems(1) by (auto simp: hunk_ok_def [of h])
  from Cons.prems(5) obtain rest where
    le: "cur \<le> old_start h" "old_start h + length ?old \<le> length src" and
    match: "take (length ?old) (drop (old_start h) src) = ?old" and
    rest: "splice_lines src (old_start h + length ?old) hs = Some rest" and ls: "ls = ?gap @ ?new @ rest"
    by (auto simp: Let_def split: if_splits)
  have wf: "lines_wf (acc @ ?gap)" "lines_wf (acc @ ?gap @ ?new)" "lines_wf ((acc @ ?gap @ ?new) @ rest)"
    using Cons.prems(6) ls lines_wf_append [of "acc @ ?gap @ ?new" rest]
      lines_wf_append [of "acc @ ?gap" ?new] by auto
  have closed: "\<not> (?gap \<noteq> [] \<and> open_tail (concat acc))"
    using wf(1) lines_wf_extend [OF Cons.prems(3) lines_wf_take [OF lines_wf_drop [OF Cons.prems(2)]]]
    by blast
  have gap: "get_range src cur (old_start h) = Some ?gap"
    using le by (simp add: get_range_def)
  show ?case
  proof (cases "str_len (concat (acc @ ?gap)) \<le> MAX_TEXT_BYTES")
    case True
    have nc: "apply_rows src (hunk_rows h) (old_start h) (concat (acc @ ?gap)) \<noteq> Err PatchConflict"
      using apply_rows_no_conflict [OF rows wf(1) True match] wf(2) by simp
    have next_nc: "apply_from src hs c o1 \<noteq> Err PatchConflict"
      if "apply_rows src (hunk_rows h) (old_start h) (concat (acc @ ?gap)) = Ok (c, o1)" for c o1
      using that apply_rows_iff [OF rows wf(1) True, of src "old_start h" c o1]
        Cons.IH [OF hs Cons.prems(2) wf(2) _ rest wf(3)] by auto
    from gap closed True Cons.prems(4) nc next_nc show ?thesis
      by (auto simp: apply_from_Cons append_lines_eq and_then_eq_Err)
  next
    case False
    with gap closed Cons.prems(4) show ?thesis
      by (auto simp: apply_from_Cons append_lines_eq)
  qed
qed

text \<open>Parsing never reports a conflict: its errors do not depend on a target.\<close>

lemma coordinate_error: "coordinate t p = Err e \<Longrightarrow> e = InvalidInput"
  by (auto simp: coordinate_def result_simps Let_def split: if_splits prod.splits option.splits)

lemma parse_row_error: "parse_row ls = Err e \<Longrightarrow> e = InvalidInput"
  by (auto simp: parse_row_def result_simps split: list.splits if_splits)

lemma row_step_error: "row_step oc nc st = Err e \<Longrightarrow> e \<in> {InvalidInput, ResourceLimit}"
  by (auto simp: row_step_def result_simps Let_def dest: parse_row_error split: if_splits)

lemma parse_rows_error: "parse_rows oc nc st = Err e \<Longrightarrow> e \<in> {InvalidInput, ResourceLimit}"
proof (induction oc nc st rule: parse_rows.induct)
  case (1 oc nc st)
  then show ?case
    by (auto simp: parse_rows.simps [of oc nc st] and_then_eq_Err dest!: row_step_error split: if_splits)
qed

lemma hunk_header_error: "parse_hunk_header h = Err e \<Longrightarrow> e = InvalidInput"
  by (auto simp: parse_hunk_header_def result_simps dest: coordinate_error split: if_splits)

lemma hunk_step_error: "hunk_step h st = Err e \<Longrightarrow> e \<in> {InvalidInput, ResourceLimit}"
  by (auto simp: hunk_step_def and_then_eq_Err Let_def dest!: parse_rows_error hunk_header_error
      split: if_splits)

lemma parse_hunks_error: "parse_hunks st = Err e \<Longrightarrow> e \<in> {InvalidInput, ResourceLimit}"
proof (induction st rule: parse_hunks.induct)
  case (1 st)
  then show ?case
    by (auto simp: parse_hunks.simps [of st] and_then_eq_Err dest!: hunk_step_error
        split: list.splits)
qed

lemma preamble_error: "parse_preamble ls = Err e \<Longrightarrow> e = InvalidInput"
  by (auto simp: parse_preamble_def split: list.splits if_splits)

lemma file_header_error: "parse_file_header p ls = Err e \<Longrightarrow> e = InvalidInput"
  by (auto simp: parse_file_header_def split: list.splits if_splits)

lemma parse_patch_error: "parse_patch patch = Err e \<Longrightarrow> e \<in> {InvalidInput, ResourceLimit}"
  unfolding parse_patch_def and_then_eq_Err
  using preamble_error file_header_error parse_hunks_error
  by (elim disjE exE conjE) (auto split: if_splits)

section \<open>Inverting a patch\<close>

definition flip_row :: "patch_row \<Rightarrow> patch_row" where
  "flip_row r = r\<lparr>row_prefix :=
     (if row_prefix r = 43 then 45 else if row_prefix r = 45 then 43 else row_prefix r)\<rparr>"

fun invert :: "nat \<Rightarrow> nat \<Rightarrow> patch_hunk list \<Rightarrow> patch_hunk list" where
  "invert o_cur n_cur [] = []"
| "invert o_cur n_cur (h # hs) =
     (let n_start = n_cur + (old_start h - o_cur) in
      \<lparr>old_start = n_start, hunk_rows = map flip_row (hunk_rows h)\<rparr>
        # invert (old_start h + length (old_side (hunk_rows h)))
            (n_start + length (new_side (hunk_rows h))) hs)"

lemma flip_sides [simp]:
  "old_side (map flip_row rows) = new_side rows"
  "new_side (map flip_row rows) = old_side rows"
  by (induction rows) (auto simp: flip_row_def)

lemma splice_invert:
  assumes "splice_lines src cur hs = Some ls" "cur \<le> length src"
  shows "splice_lines (pre @ ls) (length pre) (invert cur (length pre) hs) = Some (drop cur src)"
  using assms
proof (induction hs arbitrary: cur ls pre)
  case (Cons h hs)
  let ?gap = "take (old_start h - cur) (drop cur src)" and ?new = "new_side (hunk_rows h)"
  let ?old = "old_side (hunk_rows h)"
  from Cons.prems obtain rest where
    le: "cur \<le> old_start h" "old_start h + length ?old \<le> length src" and
    match: "take (length ?old) (drop (old_start h) src) = ?old" and
    rest: "splice_lines src (old_start h + length ?old) hs = Some rest" and ls: "ls = ?gap @ ?new @ rest"
    by (auto simp: Let_def split: if_splits)
  have whole: "drop cur src = ?gap @ ?old @ drop (old_start h + length ?old) src"
    using match le by (metis append_take_drop_id drop_drop le_add_diff_inverse2 add.commute)
  obtain gap where g: "old_start h = cur + length gap" "ls = gap @ ?new @ rest"
      "drop cur src = gap @ ?old @ drop (old_start h + length ?old) src"
    using le whole ls that [of ?gap] by simp
  have "splice_lines ((pre @ gap @ ?new) @ rest) (length (pre @ gap @ ?new))
      (invert (old_start h + length ?old) (length (pre @ gap @ ?new)) hs) =
      Some (drop (old_start h + length ?old) src)"
    by (rule Cons.IH [OF rest le(2)])
  then show ?case
    using g by (simp add: Let_def add.assoc)
qed simp

lemma splice_injective:
  assumes "splice_lines src1 0 hs = Some ls" "splice_lines src2 0 hs = Some ls"
  shows "src1 = src2"
  using splice_invert [OF assms(1), of "[]"] splice_invert [OF assms(2), of "[]"] by simp

section \<open>Properties\<close>

text \<open>
  C6. \<open>apply_patch\<close> implements the specification: for an admitted target and a patch that parses,
  it returns a text exactly when splicing the hunks into the target's lines at their declared
  positions yields precisely the lines of that text and the text is within the limits.
\<close>

theorem apply_patch_splices:
  assumes "validate_text target = Ok ()" "parse_patch patch = Ok hunks"
    and "str_len patch \<le> MAX_PATCH" "0 \<notin> set patch"
  shows "apply_patch target patch = Ok out \<longleftrightarrow>
    splice_lines (split_inclusive target) 0 hunks = Some (split_inclusive out) \<and>
    validate_text out = Ok ()"
proof -
  have ne: "patch \<noteq> []" using assms(2) by (auto simp: parse_patch_def parse_preamble_def parse_file_header_def)
  have from_iff: "apply_from (split_inclusive target) hunks 0 [] = Ok out \<longleftrightarrow>
      splice_lines (split_inclusive target) 0 hunks = Some (split_inclusive out) \<and>
      str_len out \<le> MAX_TEXT_BYTES"
    by (rule apply_from_start [OF parse_patch_shape(2) [OF assms(2)]])
  have "apply_patch target patch = Ok out \<longleftrightarrow>
      apply_from (split_inclusive target) hunks 0 [] = Ok out \<and> validate_text out = Ok ()"
    using assms by (auto simp: apply_patch_from [OF ne] and_then_eq_Ok)
  then show ?thesis using from_iff validate_text_OkD(1) [of out "()"] by blast
qed

definition example_patch :: rstr where
  "example_patch = lns [''--- a'', ''+++ b'', ''@@ -1,2 +1,2 @@'', '' a'', ''-b'', ''+x'']"

theorem apply_patch_splices_witness:
  "apply_patch (lns [''a'', ''b'', ''c'']) example_patch = Ok (lns [''a'', ''x'', ''c''])"
proof -
  let ?t = "lns [''a'', ''b'', ''c'']" and ?o = "lns [''a'', ''x'', ''c'']"
  let ?h = "[\<lparr>old_start = 0, hunk_rows =
    [\<lparr>row_prefix = 32, row_text = lns [''a'']\<rparr>, \<lparr>row_prefix = 45, row_text = lns [''b'']\<rparr>,
     \<lparr>row_prefix = 43, row_text = lns [''x'']\<rparr>]\<rparr>]"
  have "validate_text ?t = Ok ()" "parse_patch example_patch = Ok ?h"
    "str_len example_patch \<le> MAX_PATCH" "0 \<notin> set example_patch"
    by code_simp+
  from apply_patch_splices [OF this, of ?o] show ?thesis
    by (rule iffD2) code_simp
qed

text \<open>
  C28. A conflict is reported only for the target's sake: if \<open>apply_patch\<close> answers
  \<open>PatchConflict\<close>, the whole patch is well formed, and splicing its hunks into the target's lines
  is impossible or would put text behind an unterminated line.  So malformed syntax in a later hunk
  is never hidden by an earlier mismatch.
\<close>

theorem apply_patch_conflict:
  assumes "apply_patch target patch = Err PatchConflict"
  shows "\<exists>hunks. parse_patch patch = Ok hunks \<and>
    (\<forall>ls. splice_lines (split_inclusive target) 0 hunks = Some ls \<longrightarrow> \<not> lines_wf ls)"
proof -
  have ne: "patch \<noteq> []"
    using assms by (auto simp: apply_patch_def result_simps split: if_splits dest: validate_text_error)
  from assms obtain hunks where h: "parse_patch patch = Ok hunks"
      "apply_from (split_inclusive target) hunks 0 [] = Err PatchConflict"
    unfolding apply_patch_from [OF ne]
    by (auto simp: and_then_eq_Err dest!: validate_text_error parse_patch_error split: if_splits)
  then have "\<not> lines_wf ls" if "splice_lines (split_inclusive target) 0 hunks = Some ls" for ls
    using apply_from_no_conflict [OF parse_patch_shape(2) [OF h(1)], of "split_inclusive target" "[]" 0 ls]
      that by auto
  with h(1) show ?thesis by blast
qed

theorem apply_patch_conflict_witness:
  "\<exists>hunks. parse_patch example_patch = Ok hunks \<and>
    (\<forall>ls. splice_lines (split_inclusive (lns [''a''])) 0 hunks = Some ls \<longrightarrow> \<not> lines_wf ls)"
  by (rule apply_patch_conflict) code_simp

text \<open>
  A nonempty patch determines its target: two targets that the same patch turns into the same
  text are equal.  Nothing of the target is ignored, fuzzed or shifted.
\<close>

theorem apply_patch_injective:
  assumes "apply_patch t1 patch = Ok out" "apply_patch t2 patch = Ok out"
  shows "t1 = t2"
proof (cases "patch = []")
  case True
  with assms show ?thesis by (auto simp: apply_patch_def result_simps split: if_splits)
next
  case False
  have "\<exists>hunks. parse_patch patch = Ok hunks \<and>
      splice_lines (split_inclusive t) 0 hunks = Some (split_inclusive out)"
    if ok: "apply_patch t patch = Ok out" for t
  proof -
    from ok obtain hunks where h: "parse_patch patch = Ok hunks"
        "apply_from (split_inclusive t) hunks 0 [] = Ok out"
      by (auto simp: apply_patch_from [OF False] and_then_eq_Ok split: if_splits)
    with apply_from_start [OF parse_patch_shape(2) [OF h(1)], of t out] show ?thesis by blast
  qed
  with assms have "split_inclusive t1 = split_inclusive t2"
    by (metis Inr_inject splice_injective)
  then show ?thesis by (metis concat_split_inclusive)
qed

theorem apply_patch_injective_witness:
  "lns [''a'', ''b'', ''c''] = concat [lns [''a''], lns [''b'', ''c'']]"
proof (rule apply_patch_injective)
  show "apply_patch (lns [''a'', ''b'', ''c'']) example_patch = Ok (lns [''a'', ''x'', ''c''])"
    by code_simp
  show "apply_patch (concat [lns [''a''], lns [''b'', ''c'']]) example_patch =
      Ok (lns [''a'', ''x'', ''c''])"
    by code_simp
qed

text \<open>
  What the parser accepts: at least one hunk, every hunk changes something and consists of
  context, deletion and addition rows holding one line each, the hunks are in source order without
  overlap, and the numbers of rows and hunks are within the limits.
\<close>

theorem parse_patch_accepts:
  assumes "parse_patch patch = Ok hunks"
  shows "hunks \<noteq> [] \<and> list_all hunk_ok hunks \<and> hunks_ordered 0 hunks \<and>
    total_rows hunks \<le> MAX_PATCH_ROWS \<and> length hunks \<le> MAX_LINES"
  using parse_patch_shape [OF assms] by blast

theorem parse_patch_accepts_witness:
  "\<exists>hunks. parse_patch example_patch = Ok hunks \<and> hunks \<noteq> [] \<and> list_all hunk_ok hunks \<and>
    hunks_ordered 0 hunks \<and> total_rows hunks \<le> MAX_PATCH_ROWS \<and> length hunks \<le> MAX_LINES"
proof -
  have "is_ok (parse_patch example_patch)" by code_simp
  then obtain hunks where "parse_patch example_patch = Ok hunks" by (auto simp: is_ok_iff)
  with parse_patch_accepts [OF this] show ?thesis by blast
qed

end
