(* ===== verification/Diff_Compute.thy ===== *)
theory Diff_Compute
  imports Patch
begin

text \<open>
  The comparison worker: \<open>crates/adapters/src/text_diff/compute.rs\<close>.

  \<open>compare\<close> prints the grouped operations of a line diff as a unified patch and annotates the
  changed lines with the ranges of characters that changed.  The diff algorithm itself is the
  third-party crate \<open>similar\<close>: a \<open>line_diff\<close> record holds the results of its calls
  (\<open>ops\<close>, \<open>grouped_ops(3)\<close>, \<open>iter_changes\<close>), and \<open>char_ops\<close> is \<open>diff_chars\<close> on a pair of
  texts.  What the worker relies on is stated as \<open>diff_ok\<close>: the groups are runs of adjoining
  operations that hold at least one change, everything outside them is equal on both sides and
  separates them, and the changes of an operation are the lines of its two ranges.

  Slicing and subtraction that would panic in the source are explicit \<open>Panicked\<close> results.
  The lemmas show that the printed patch parses back to the hunks that were printed and rebuilds
  the second text from the first, and that the annotations cover exactly the changed characters.
\<close>

section \<open>Engine output (application)\<close>

definition MAX_PATCH_BYTES :: nat where "MAX_PATCH_BYTES = 8 * 1024 * 1024"

datatype diff_side = SideBefore | SideAfter

record source_line_highlights =
  sh_side :: diff_side
  sh_line_index :: nat
  sh_ranges :: "scalar_range list"

record computed_diff =
  cd_patch :: rstr
  cd_inline_changes :: "source_line_highlights list"

section \<open>Results of the diff library\<close>

datatype diff_tag = TagEqual | TagDelete | TagInsert | TagReplace

record diff_op =
  op_tag :: diff_tag
  op_old :: "nat \<times> nat"
  op_new :: "nat \<times> nat"

datatype change_tag = ChEqual | ChDelete | ChInsert

record line_diff =
  ld_ops :: "diff_op list"
  ld_groups :: "diff_op list list"
  ld_changes :: "diff_op \<Rightarrow> (change_tag \<times> rstr) list"

section \<open>The program\<close>

definition coordinates :: "nat \<Rightarrow> nat \<Rightarrow> rstr" where
  "coordinates start len =
     (let start = (if len = 0 then start else start + 1) in
      if len = 1 then nat_str start else nat_str start @ [44] @ nat_str len)"

definition diff_append :: "rstr \<Rightarrow> rstr \<Rightarrow> (rstr, text_diff_error fault) result" where
  "diff_append out value =
     (if MAX_PATCH_BYTES < saturating_add (str_len out) (str_len value)
      then Err (Raised ResourceLimit) else Ok (out @ value))"

fun change_prefix :: "change_tag \<Rightarrow> rchar" where
  "change_prefix ChEqual = 32"
| "change_prefix ChDelete = 45"
| "change_prefix ChInsert = 43"

fun print_changes ::
    "rstr \<Rightarrow> (change_tag \<times> rstr) list \<Rightarrow> (rstr, text_diff_error fault) result" where
  "print_changes out [] = Ok out"
| "print_changes out ((tag, value) # cs) =
     and_then (diff_append out [change_prefix tag]) (\<lambda>out.
     and_then (diff_append out value) (\<lambda>out.
     and_then (if ends_with NL value then Ok out else diff_append out ([NL] @ MARKER)) (\<lambda>out.
       print_changes out cs)))"

definition print_group ::
    "(diff_op \<Rightarrow> (change_tag \<times> rstr) list) \<Rightarrow> rstr \<Rightarrow> diff_op list
      \<Rightarrow> (rstr, text_diff_error fault) result" where
  "print_group changes out grp =
     (if grp = [] then Err (Raised Internal)
      else
        let first = hd grp; final = last grp;
            o_start = fst (op_old first); n_start = fst (op_new first) in
        and_then (ok_or (checked_sub (snd (op_old final)) o_start) Panicked) (\<lambda>o_len.
        and_then (ok_or (checked_sub (snd (op_new final)) n_start) Panicked) (\<lambda>n_len.
        and_then (diff_append out
          (lit ''@@ -'' @ coordinates o_start o_len @ lit '' +'' @ coordinates n_start n_len
             @ lit '' @@'' @ [NL])) (\<lambda>out.
          print_changes out (concat (map changes grp))))))"

primrec print_groups ::
    "(diff_op \<Rightarrow> (change_tag \<times> rstr) list) \<Rightarrow> rstr \<Rightarrow> diff_op list list
      \<Rightarrow> (rstr, text_diff_error fault) result" where
  "print_groups changes out [] = Ok out"
| "print_groups changes out (g # gs) =
     and_then (print_group changes out g) (\<lambda>out. print_groups changes out gs)"

text \<open>The inner loop of \<open>annotate\<close>: the changes that meet one line, clipped to it.\<close>

fun line_ranges ::
    "nat \<Rightarrow> nat \<Rightarrow> (nat \<times> nat) list \<Rightarrow> scalar_range list \<Rightarrow> nat
      \<Rightarrow> (scalar_range list \<times> nat, text_diff_error fault) result" where
  "line_ranges offset end [] ranges count = Ok (ranges, count)"
| "line_ranges offset end ((c_start, c_end) # changes) ranges count =
     (if end \<le> c_start then Ok (ranges, count)
      else
        let a = max c_start offset - offset in
        and_then (ok_or (checked_sub (min c_end end) offset) Panicked) (\<lambda>b.
          if a < b then
            if ranges \<noteq> [] \<and> snd (last ranges) = a mod 2 ^ 32
            then line_ranges offset end changes
                   (butlast ranges @ [(fst (last ranges), b mod 2 ^ 32)]) count
            else if MAX_INLINE_RANGES < count + 1 then Err (Raised ResourceLimit)
            else line_ranges offset end changes (ranges @ [(a mod 2 ^ 32, b mod 2 ^ 32)]) (count + 1)
          else line_ranges offset end changes ranges count))"

text \<open>The outer loop; \<open>index\<close> is \<open>start + line_index\<close>, \<open>changes\<close> the part from \<open>range_index\<close> on.\<close>

fun annotate ::
    "source_line_highlights list \<Rightarrow> diff_side \<Rightarrow> nat \<Rightarrow> nat \<Rightarrow> rstr list \<Rightarrow> (nat \<times> nat) list \<Rightarrow> nat
      \<Rightarrow> (source_line_highlights list \<times> nat, text_diff_error fault) result" where
  "annotate output side index offset [] changes count = Ok (output, count)"
| "annotate output side index offset (line # lines) changes count =
     (let end = offset + length line;
          changes = dropWhile (\<lambda>c. snd c \<le> offset) changes in
      and_then (line_ranges offset end changes [] count) (\<lambda>(ranges, count).
        annotate
          (output @ [\<lparr>sh_side = side, sh_line_index = index mod 2 ^ 32, sh_ranges = ranges\<rparr>])
          side (index + 1) end lines changes count))"

definition changed_old :: "diff_op list \<Rightarrow> (nat \<times> nat) list" where
  "changed_old ops = map op_old
     (filter (\<lambda>op. op_tag op \<noteq> TagEqual \<and> fst (op_old op) < snd (op_old op)) ops)"

definition changed_new :: "diff_op list \<Rightarrow> (nat \<times> nat) list" where
  "changed_new ops = map op_new
     (filter (\<lambda>op. op_tag op \<noteq> TagEqual \<and> fst (op_new op) < snd (op_new op)) ops)"

text \<open>One block of adjoining non-equal operations.\<close>

definition annotate_block ::
    "(rstr \<Rightarrow> rstr \<Rightarrow> diff_op list) \<Rightarrow> rstr list \<Rightarrow> rstr list \<Rightarrow> diff_op list
      \<Rightarrow> source_line_highlights list \<Rightarrow> nat
      \<Rightarrow> (source_line_highlights list \<times> nat, text_diff_error fault) result" where
  "annotate_block char_ops before_lines after_lines block output count =
     (let o_start = fst (op_old (hd block)); n_start = fst (op_new (hd block));
          o_end = snd (op_old (last block)); n_end = snd (op_new (last block)) in
      and_then (ok_or (get_range before_lines o_start o_end) Panicked) (\<lambda>o_lines.
      and_then (ok_or (get_range after_lines n_start n_end) Panicked) (\<lambda>n_lines.
        let chars = char_ops (concat o_lines) (concat n_lines) in
        and_then (annotate output SideBefore o_start 0 o_lines (changed_old chars) count)
          (\<lambda>(output, count).
            annotate output SideAfter n_start 0 n_lines (changed_new chars) count))))"

function annotate_ops ::
    "(rstr \<Rightarrow> rstr \<Rightarrow> diff_op list) \<Rightarrow> rstr list \<Rightarrow> rstr list \<Rightarrow> diff_op list
      \<Rightarrow> source_line_highlights list \<Rightarrow> nat
      \<Rightarrow> (source_line_highlights list \<times> nat, text_diff_error fault) result" where
  "annotate_ops char_ops before_lines after_lines [] output count = Ok (output, count)"
| "annotate_ops char_ops before_lines after_lines (op # ops) output count =
     (if op_tag op = TagEqual
      then annotate_ops char_ops before_lines after_lines ops output count
      else
        and_then
          (annotate_block char_ops before_lines after_lines
             (takeWhile (\<lambda>op. op_tag op \<noteq> TagEqual) (op # ops)) output count)
          (\<lambda>(output, count).
            annotate_ops char_ops before_lines after_lines
              (dropWhile (\<lambda>op. op_tag op \<noteq> TagEqual) (op # ops)) output count))"
  by pat_completeness auto
termination
  by (relation "measure (\<lambda>(_, _, _, ops, _, _). length ops)")
     (auto simp: le_imp_less_Suc length_dropWhile_le)

definition compare ::
    "(rstr list \<Rightarrow> rstr list \<Rightarrow> line_diff) \<Rightarrow> (rstr \<Rightarrow> rstr \<Rightarrow> diff_op list) \<Rightarrow> rstr \<Rightarrow> rstr
      \<Rightarrow> (computed_diff, text_diff_error fault) result" where
  "compare diff_slices char_ops before after =
     and_then (raising (text_info before (lit ''Before''))) (\<lambda>_.
     and_then (raising (text_info after (lit ''After''))) (\<lambda>_.
       let before_lines = split_inclusive before;
           after_lines = split_inclusive after;
           diff = diff_slices before_lines after_lines in
       if ld_groups diff = [] then Ok \<lparr>cd_patch = [], cd_inline_changes = []\<rparr>
       else
         and_then (diff_append [] (lit ''--- before'' @ [NL] @ lit ''+++ after'' @ [NL])) (\<lambda>out.
         and_then (print_groups (ld_changes diff) out (ld_groups diff)) (\<lambda>patch.
         and_then (annotate_ops char_ops before_lines after_lines (ld_ops diff) [] 0)
           (\<lambda>(highlights, count).
              Ok \<lparr>cd_patch = patch, cd_inline_changes = highlights\<rparr>)))))"

interpretation diff_out: strict_append diff_append str_len MAX_PATCH_BYTES "Raised ResourceLimit"
  by unfold_locales
    (auto simp: diff_append_def saturating_add_def size_simps MAX_PATCH_BYTES_def)

section \<open>What the diff library promises\<close>

definition op_ok :: "rstr list \<Rightarrow> rstr list \<Rightarrow> diff_op \<Rightarrow> bool" where
  "op_ok b a op =
     (case (op_old op, op_new op) of ((i, i'), (j, j')) \<Rightarrow>
        i \<le> i' \<and> i' \<le> length b \<and> j \<le> j' \<and> j' \<le> length a \<and>
        (case op_tag op of
           TagEqual \<Rightarrow> take (i' - i) (drop i b) = take (j' - j) (drop j a)
         | TagDelete \<Rightarrow> i < i' \<and> j = j'
         | TagInsert \<Rightarrow> i = i' \<and> j < j'
         | TagReplace \<Rightarrow> i < i' \<and> j < j'))"

definition op_changes :: "rstr list \<Rightarrow> rstr list \<Rightarrow> diff_op \<Rightarrow> (change_tag \<times> rstr) list" where
  "op_changes b a op =
     (case (op_old op, op_new op) of ((i, i'), (j, j')) \<Rightarrow>
        (case op_tag op of
           TagEqual \<Rightarrow> map (Pair ChEqual) (take (i' - i) (drop i b))
         | _ \<Rightarrow> map (Pair ChDelete) (take (i' - i) (drop i b)) @
                map (Pair ChInsert) (take (j' - j) (drop j a))))"

text \<open>Adjoining operations from a pair of positions, and the positions they reach.\<close>

fun ops_from :: "rstr list \<Rightarrow> rstr list \<Rightarrow> nat \<Rightarrow> nat \<Rightarrow> diff_op list \<Rightarrow> (nat \<times> nat) option" where
  "ops_from b a i j [] = Some (i, j)"
| "ops_from b a i j (op # ops) =
     (if op_ok b a op \<and> fst (op_old op) = i \<and> fst (op_new op) = j
      then ops_from b a (snd (op_old op)) (snd (op_new op)) ops else None)"

fun groups_ok :: "rstr list \<Rightarrow> rstr list \<Rightarrow> nat \<Rightarrow> nat \<Rightarrow> diff_op list list \<Rightarrow> bool" where
  "groups_ok b a i j [] \<longleftrightarrow> drop i b = drop j a"
| "groups_ok b a i j (g # gs) \<longleftrightarrow>
     (g \<noteq> [] \<and> list_ex (\<lambda>op. op_tag op \<noteq> TagEqual) g \<and>
      i \<le> fst (op_old (hd g)) \<and> j \<le> fst (op_new (hd g)) \<and>
      take (fst (op_old (hd g)) - i) (drop i b) = take (fst (op_new (hd g)) - j) (drop j a) \<and>
      (case ops_from b a (fst (op_old (hd g))) (fst (op_new (hd g))) g of
         None \<Rightarrow> False
       | Some (i', j') \<Rightarrow>
           (gs \<noteq> [] \<longrightarrow> i' < fst (op_old (hd (hd gs)))) \<and> groups_ok b a i' j' gs))"

definition diff_ok :: "rstr list \<Rightarrow> rstr list \<Rightarrow> line_diff \<Rightarrow> bool" where
  "diff_ok b a d \<longleftrightarrow>
     ops_from b a 0 0 (ld_ops d) = Some (length b, length a) \<and>
     groups_ok b a 0 0 (ld_groups d) \<and>
     list_all (\<lambda>g. list_all (\<lambda>op. ld_changes d op = op_changes b a op) g) (ld_groups d)"

definition group_rows :: "rstr list \<Rightarrow> rstr list \<Rightarrow> diff_op list \<Rightarrow> patch_row list" where
  "group_rows b a g =
     map (\<lambda>(t, v). \<lparr>row_prefix = change_prefix t, row_text = v\<rparr>) (concat (map (op_changes b a) g))"

definition group_hunk :: "rstr list \<Rightarrow> rstr list \<Rightarrow> diff_op list \<Rightarrow> patch_hunk" where
  "group_hunk b a g = \<lparr>old_start = fst (op_old (hd g)), hunk_rows = group_rows b a g\<rparr>"

lemma group_rows_simps [simp]:
  "group_rows b a [] = []"
  "group_rows b a (op # g) =
     map (\<lambda>(t, v). \<lparr>row_prefix = change_prefix t, row_text = v\<rparr>) (op_changes b a op) @ group_rows b a g"
  by (simp_all add: group_rows_def)

lemma sides_of_changes [simp]:
  "old_side (map (\<lambda>(t, v). \<lparr>row_prefix = change_prefix t, row_text = v\<rparr>) (map (Pair ChEqual) ls)) = ls"
  "new_side (map (\<lambda>(t, v). \<lparr>row_prefix = change_prefix t, row_text = v\<rparr>) (map (Pair ChEqual) ls)) = ls"
  "old_side (map (\<lambda>(t, v). \<lparr>row_prefix = change_prefix t, row_text = v\<rparr>) (map (Pair ChDelete) ls)) = ls"
  "new_side (map (\<lambda>(t, v). \<lparr>row_prefix = change_prefix t, row_text = v\<rparr>) (map (Pair ChDelete) ls)) = []"
  "old_side (map (\<lambda>(t, v). \<lparr>row_prefix = change_prefix t, row_text = v\<rparr>) (map (Pair ChInsert) ls)) = []"
  "new_side (map (\<lambda>(t, v). \<lparr>row_prefix = change_prefix t, row_text = v\<rparr>) (map (Pair ChInsert) ls)) = ls"
  by (induction ls) auto

lemma op_sides:
  assumes "op_ok b a op"
  shows "old_side (group_rows b a [op]) =
      take (snd (op_old op) - fst (op_old op)) (drop (fst (op_old op)) b)"
    and "new_side (group_rows b a [op]) =
      take (snd (op_new op) - fst (op_new op)) (drop (fst (op_new op)) a)"
  using assms
  by (auto simp: op_changes_def op_ok_def simp del: map_map split: prod.splits diff_tag.splits)

lemma take_drop_join:
  "i \<le> k \<Longrightarrow> k \<le> m \<Longrightarrow> take (k - i) (drop i xs) @ take (m - k) (drop k xs) = take (m - i) (drop i xs)"
proof -
  assume "i \<le> k" "k \<le> m"
  then have "take (m - i) (drop i xs) = take ((k - i) + (m - k)) (drop i xs)" by simp
  also have "\<dots> = take (k - i) (drop i xs) @ take (m - k) (drop (k - i) (drop i xs))"
    by (rule take_add)
  finally show ?thesis using \<open>i \<le> k\<close> by simp
qed

lemma ops_from_sides:
  assumes "ops_from b a i j g = Some (i', j')" "i \<le> length b" "j \<le> length a"
  shows "i \<le> i' \<and> i' \<le> length b \<and> j \<le> j' \<and> j' \<le> length a \<and>
    old_side (group_rows b a g) = take (i' - i) (drop i b) \<and>
    new_side (group_rows b a g) = take (j' - j) (drop j a)"
  using assms
proof (induction g arbitrary: i j)
  case (Cons op g)
  let ?k = "snd (op_old op)" and ?l = "snd (op_new op)"
  from Cons.prems have op: "op_ok b a op" "fst (op_old op) = i" "fst (op_new op) = j"
    and rest: "ops_from b a ?k ?l g = Some (i', j')"
    by (auto split: if_splits)
  have bounds: "i \<le> ?k" "?k \<le> length b" "j \<le> ?l" "?l \<le> length a"
    using op by (auto simp: op_ok_def split: prod.splits)
  note IH = Cons.IH [OF rest bounds(2) bounds(4)]
  have "group_rows b a (op # g) = group_rows b a [op] @ group_rows b a g" by simp
  then show ?case
    using IH bounds op_sides [OF op(1)] op(2,3) take_drop_join [of i ?k i' b] take_drop_join [of j ?l j' a]
    by (simp only: sides_simps) auto
qed simp

lemma length_sides: "length rows \<le> length (old_side rows) + length (new_side rows)"
  by (induction rows) auto

lemma ops_changed:
  assumes "ops_from b a i j g = Some (i', j')" "list_ex (\<lambda>op. op_tag op \<noteq> TagEqual) g"
  shows "list_ex (\<lambda>r. row_prefix r \<noteq> 32) (group_rows b a g)"
  using assms
proof (induction g arbitrary: i j)
  case (Cons op g)
  then have ok: "op_ok b a op" and rest: "ops_from b a (snd (op_old op)) (snd (op_new op)) g = Some (i', j')"
    by (auto split: if_splits)
  show ?case
  proof (cases "op_tag op = TagEqual")
    case True
    with Cons.prems Cons.IH [OF rest] show ?thesis by auto
  next
    case False
    obtain i1 i2 j1 j2 where r: "op_old op = (i1, i2)" "op_new op = (j1, j2)"
      by fastforce
    with False ok have "take (i2 - i1) (drop i1 b) \<noteq> [] \<or> take (j2 - j1) (drop j1 a) \<noteq> []"
      by (cases "op_tag op") (auto simp: op_ok_def)
    then obtain l where "l \<in> set (take (i2 - i1) (drop i1 b)) \<or> l \<in> set (take (j2 - j1) (drop j1 a))"
      using hd_in_set by blast
    with False r have "(ChDelete, l) \<in> set (op_changes b a op) \<or> (ChInsert, l) \<in> set (op_changes b a op)"
      by (cases "op_tag op") (auto simp: op_changes_def)
    then have "\<lparr>row_prefix = 45, row_text = l\<rparr> \<in> set (group_rows b a (op # g)) \<or>
        \<lparr>row_prefix = 43, row_text = l\<rparr> \<in> set (group_rows b a (op # g))"
      by force
    then show ?thesis unfolding list_ex_iff by (elim disjE) (rule bexI; simp)+
  qed
qed simp

lemma group_rows_text:
  assumes "r \<in> set (group_rows b a g)"
  shows "row_text r \<in> set b \<union> set a \<and> row_prefix r \<in> {32, 45, 43}"
  using assms
  by (auto simp: group_rows_def op_changes_def dest!: in_set_takeD in_set_dropD
      split: diff_tag.splits prod.splits) (metis diff_tag.exhaust)+

section \<open>Printing and parsing\<close>

definition row_lines :: "patch_row \<Rightarrow> rstr list" where
  "row_lines r =
     (if ends_with NL (row_text r) then [row_prefix r # row_text r]
      else [row_prefix r # row_text r @ [NL], MARKER])"

definition header_line :: "nat \<Rightarrow> nat \<Rightarrow> nat \<Rightarrow> nat \<Rightarrow> rstr" where
  "header_line os oc ns nc =
     lit ''@@ -'' @ coordinates os oc @ lit '' +'' @ coordinates ns nc @ lit '' @@'' @ [NL]"

lemma MARKER_Cons: "MARKER = 92 # lit '' No newline at end of file'' @ [NL]"
  by (rule MARKER_def)

lemma parse_row_print:
  assumes "row_ok r" "rest = [] \<or> hd rest \<noteq> MARKER"
  shows "parse_row (row_lines r @ rest) = Ok (r, rest)"
  using assms
  by (auto simp: parse_row_def row_lines_def row_ok_def line_wf_def)

lemma parse_rows_print:
  assumes "list_all row_ok rows" "rest = [] \<or> hd rest \<noteq> MARKER"
    and "rs_lines st = concat (map row_lines rows) @ rest"
    and "rs_consumed st + length (old_side rows) = oc" "rs_produced st + length (new_side rows) = nc"
    and "rs_total st + length rows \<le> MAX_PATCH_ROWS"
    and "lines_wf (new_side rows)" "rs_unterminated st \<longrightarrow> new_side rows = []"
  shows "parse_rows oc nc st = Ok \<lparr>rs_lines = rest, rs_consumed = oc, rs_produced = nc,
    rs_changed = (rs_changed st \<or> list_ex (\<lambda>r. row_prefix r \<noteq> 32) rows),
    rs_unterminated = (if new_side rows = [] then rs_unterminated st
                       else \<not> ends_with NL (last (new_side rows))),
    rs_total = rs_total st + length rows, rs_rows = rs_rows st @ rows\<rparr>"
  using assms
proof (induction rows arbitrary: st)
  case Nil
  then show ?case by (simp add: parse_rows.simps [of oc nc st])
next
  case (Cons r rows)
  have r: "row_ok r" and p: "row_prefix r \<in> {32, 45, 43}"
    using Cons.prems(1) by (auto simp: row_ok_def)
  let ?rest = "concat (map row_lines rows) @ rest"
  have "?rest = [] \<or> hd ?rest \<noteq> MARKER"
  proof (cases rows)
    case (Cons r' rs)
    have "row_prefix r' \<noteq> 92" using Cons Cons.prems(1) by (auto simp: row_ok_def)
    with Cons show ?thesis by (simp add: row_lines_def MARKER_def)
  qed (use Cons.prems(2) in simp)
  then have pr: "parse_row (rs_lines st) = Ok (r, ?rest)"
    using parse_row_print [OF r, of ?rest] Cons.prems(3) by simp
  define st1 where "st1 = \<lparr>rs_lines = ?rest,
      rs_consumed = rs_consumed st + (if row_prefix r \<noteq> 43 then 1 else 0),
      rs_produced = rs_produced st + (if row_prefix r \<noteq> 45 then 1 else 0),
      rs_changed = (rs_changed st \<or> row_prefix r \<noteq> 32),
      rs_unterminated = (if row_prefix r \<noteq> 45 then \<not> ends_with NL (row_text r)
                         else rs_unterminated st),
      rs_total = rs_total st + 1, rs_rows = rs_rows st @ [r]\<rparr>"
  have step: "row_step oc nc st = Ok st1"
    using pr p Cons.prems(4-8) by (auto simp: row_step_def st1_def Let_def split: if_splits)
  have more: "rs_consumed st < oc \<or> rs_produced st < nc"
    using p Cons.prems(4,5) by (auto split: if_splits)
  have "parse_rows oc nc st1 = Ok \<lparr>rs_lines = rest, rs_consumed = oc, rs_produced = nc,
    rs_changed = (rs_changed st1 \<or> list_ex (\<lambda>r. row_prefix r \<noteq> 32) rows),
    rs_unterminated = (if new_side rows = [] then rs_unterminated st1
                       else \<not> ends_with NL (last (new_side rows))),
    rs_total = rs_total st1 + length rows, rs_rows = rs_rows st1 @ rows\<rparr>"
    by (rule Cons.IH) (use Cons.prems p in \<open>auto simp: st1_def split: if_splits\<close>)
  with step more show ?case
    by (subst parse_rows.simps) (auto simp: st1_def)
qed

lemma coordinates_chars: "c \<in> set (coordinates s l) \<Longrightarrow> c = 44 \<or> (48 \<le> c \<and> c \<le> 57)"
  by (auto simp: coordinates_def Let_def dest: nat_str_set split: if_splits)

lemma coordinate_print:
  assumes "s + (if l = 0 then 0 else 1) \<le> MAX_LINES" "l \<le> MAX_LINES"
  shows "coordinate (p # coordinates s l) p = Ok (s, l)"
proof -
  have no: "44 \<notin> set (nat_str n)" for n using nat_str_set [of 44 n] by auto
  have u: "MAX_LINES \<le> usize_max" by (simp add: size_simps)
  have strip: "strip_prefix [p] (p # t) = Some t" for t
    using strip_prefix_append [of "[p]" t] by simp
  have one: "parse_usize (lit ''1'') = Some 1" "list_all is_ascii_digit (lit ''1'')" by code_simp+
  show ?thesis
    using assms u one
    by (auto simp: coordinate_def strip coordinates_def Let_def split_once_single_None no
        split_once_single nat_str_digits parse_nat_str)
qed

lemma split_once_skip:
  "p \<noteq> [] \<Longrightarrow> hd p \<notin> set a \<Longrightarrow>
    split_once p (a @ s) = map_option (\<lambda>(x, y). (a @ x, y)) (split_once p s)"
proof (induction a)
  case Nil
  then show ?case by (cases "split_once p s") auto
next
  case (Cons c a)
  then have "\<not> starts_with (c # a @ s) p" by (cases p) (auto simp: starts_with_def)
  with Cons show ?case by (cases "split_once p s") auto
qed

lemma parse_header_print:
  assumes "os + (if oc = 0 then 0 else 1) \<le> MAX_LINES" "oc \<le> MAX_LINES"
    and "ns + (if nc = 0 then 0 else 1) \<le> MAX_LINES" "nc \<le> MAX_LINES"
  shows "parse_hunk_header (header_line os oc ns nc) = Ok ((os, oc), (ns, nc))"
proof -
  let ?a = "45 # coordinates os oc" and ?b = "43 # coordinates ns nc"
  have c: "32 \<notin> set (coordinates s l)" for s l using coordinates_chars [of 32 s l] by auto
  have h: "header_line os oc ns nc = lit ''@@ '' @ ?a @ 32 # ?b @ lit '' @@'' @ [NL]"
    by (simp add: header_line_def)
  have "split_once (lit '' @@'') (?b @ lit '' @@'' @ [NL]) = Some (?b, [NL])"
    using c by (subst split_once_skip) (auto simp: starts_with_def)
  then have "split_once (lit '' @@'') (32 # ?b @ lit '' @@'' @ [NL]) = Some (32 # ?b, [NL])"
    by (simp add: starts_with_def)
  then have s1: "split_once (lit '' @@'') (?a @ 32 # ?b @ lit '' @@'' @ [NL]) = Some (?a @ 32 # ?b, [NL])"
    using c by (subst split_once_skip) auto
  have s2: "split_once [32] (?a @ 32 # ?b) = Some (?a, ?b)"
    using c by (intro split_once_single) auto
  show ?thesis
    using coordinate_print [OF assms(1,2), of 45] coordinate_print [OF assms(3,4), of 43]
    by (simp only: parse_hunk_header_def h strip_prefix_append s1 s2 ok_or_simps and_then_simps prod.case) simp
qed

definition group_lines :: "rstr list \<Rightarrow> rstr list \<Rightarrow> diff_op list \<Rightarrow> rstr list" where
  "group_lines b a g =
     header_line (fst (op_old (hd g))) (snd (op_old (last g)) - fst (op_old (hd g)))
       (fst (op_new (hd g))) (snd (op_new (last g)) - fst (op_new (hd g)))
     # concat (map row_lines (group_rows b a g))"

lemma ops_from_last:
  "ops_from b a i j g = Some (i', j') \<Longrightarrow> g \<noteq> [] \<Longrightarrow>
     i' = snd (op_old (last g)) \<and> j' = snd (op_new (last g)) \<and>
     i = fst (op_old (hd g)) \<and> j = fst (op_new (hd g))"
proof (induction g arbitrary: i j)
  case (Cons op g)
  then show ?case by (cases "g = []") (auto split: if_splits)
qed simp

text \<open>A group as the parser meets it: positions, bounds, and its two sides.\<close>

lemma groups_ok_Cons:
  assumes "groups_ok b a i j (g # gs)" "i \<le> length b" "j \<le> length a"
  obtains os ns i' j' where "g \<noteq> []" "os = fst (op_old (hd g))" "ns = fst (op_new (hd g))"
    "i' = snd (op_old (last g))" "j' = snd (op_new (last g))"
    "i \<le> os" "os \<le> i'" "i' \<le> length b" "j \<le> ns" "ns \<le> j'" "j' \<le> length a" "os - i = ns - j"
    "take (os - i) (drop i b) = take (ns - j) (drop j a)"
    "old_side (group_rows b a g) = take (i' - os) (drop os b)"
    "new_side (group_rows b a g) = take (j' - ns) (drop ns a)"
    "list_ex (\<lambda>r. row_prefix r \<noteq> 32) (group_rows b a g)"
    "gs \<noteq> [] \<longrightarrow> i' < fst (op_old (hd (hd gs)))" "groups_ok b a i' j' gs"
proof -
  let ?os = "fst (op_old (hd g))" and ?ns = "fst (op_new (hd g))"
  from assms(1) obtain i' j' where g: "g \<noteq> []" "list_ex (\<lambda>op. op_tag op \<noteq> TagEqual) g"
      "i \<le> ?os" "j \<le> ?ns" and gap: "take (?os - i) (drop i b) = take (?ns - j) (drop j a)" and
      run: "ops_from b a ?os ?ns g = Some (i', j')" and
      rest: "gs \<noteq> [] \<longrightarrow> i' < fst (op_old (hd (hd gs)))" "groups_ok b a i' j' gs"
    by (auto split: option.splits)
  have "op_ok b a (hd g)" using run g(1) by (cases g) (auto split: if_splits)
  then have hd_le: "?os \<le> length b" "?ns \<le> length a" by (auto simp: op_ok_def split: prod.splits)
  have "length (take (?os - i) (drop i b)) = length (take (?ns - j) (drop j a))" using gap by simp
  then have "?os - i = ?ns - j" using hd_le g(3,4) by simp
  with that [OF g(1) refl refl refl refl] g gap rest ops_from_sides [OF run hd_le]
    ops_from_last [OF run g(1)] ops_changed [OF run g(2)]
  show thesis by auto
qed

lemma groups_count:
  "groups_ok b a i j gs \<Longrightarrow> i \<le> length b \<Longrightarrow> j \<le> length a \<Longrightarrow>
     3 * length gs + i + j \<le> length b + length a + 2 \<and>
     (gs \<noteq> [] \<longrightarrow> i < fst (op_old (hd (hd gs))) \<longrightarrow> 3 * length gs + i + j \<le> length b + length a)"
proof (induction gs arbitrary: i j)
  case (Cons g gs)
  from groups_ok_Cons [OF Cons.prems] obtain os ns i' j' where
    p: "os = fst (op_old (hd g))" "i \<le> os" "os \<le> i'" "i' \<le> length b" "j \<le> ns" "ns \<le> j'" "j' \<le> length a" "os - i = ns - j" and
    sides: "old_side (group_rows b a g) = take (i' - os) (drop os b)"
      "new_side (group_rows b a g) = take (j' - ns) (drop ns a)"
      "list_ex (\<lambda>r. row_prefix r \<noteq> 32) (group_rows b a g)" and
    rest: "gs \<noteq> [] \<longrightarrow> i' < fst (op_old (hd (hd gs)))" "groups_ok b a i' j' gs"
    by metis
  have "group_rows b a g \<noteq> []" using sides(3) by auto
  then have "0 < length (old_side (group_rows b a g)) + length (new_side (group_rows b a g))"
    using length_sides [of "group_rows b a g"] by (cases "group_rows b a g") auto
  then have "os < i' \<or> ns < j'" using sides(1,2) by auto
  with Cons.IH [OF rest(2)] rest(1) p show ?case by (cases "gs = []") auto
qed simp

lemma header_line_shape:
  "ends_with NL (header_line os oc ns nc)" "line_wf (header_line os oc ns nc)"
  "header_line os oc ns nc \<noteq> MARKER" "0 \<notin> set (header_line os oc ns nc)"
proof -
  have c: "10 \<notin> set (coordinates s l)" "0 \<notin> set (coordinates s l)" for s l
    using coordinates_chars [of 10 s l] coordinates_chars [of 0 s l] by auto
  show "ends_with NL (header_line os oc ns nc)" by (simp add: header_line_def)
  have "butlast (header_line os oc ns nc) =
      lit ''@@ -'' @ coordinates os oc @ lit '' +'' @ coordinates ns nc @ lit '' @@''"
    by (simp add: header_line_def butlast_append)
  then show "line_wf (header_line os oc ns nc)"
    using c by (simp add: line_wf_def) (simp add: header_line_def)
  show "header_line os oc ns nc \<noteq> MARKER" "0 \<notin> set (header_line os oc ns nc)"
    using c by (simp_all add: header_line_def MARKER_def)
qed

lemma unterminated_line: "line_wf l \<Longrightarrow> \<not> ends_with NL l \<Longrightarrow> NL \<notin> set l"
  by (cases l rule: rev_cases) (auto simp: line_wf_def)

lemma row_lines_shape:
  assumes "row_ok r" "0 \<notin> set (row_text r)" "l \<in> set (row_lines r)"
  shows "line_wf l \<and> ends_with NL l \<and> 0 \<notin> set l"
proof -
  have m: "line_wf MARKER" "ends_with NL MARKER" "0 \<notin> set MARKER" by code_simp+
  have r: "line_wf (row_text r)" "row_prefix r \<noteq> NL" "row_prefix r \<noteq> 0"
    using assms(1) by (auto simp: row_ok_def)
  show ?thesis
  proof (cases "ends_with NL (row_text r)")
    case True
    with assms r show ?thesis
      by (auto simp: row_lines_def line_wf_def ends_with_def)
  next
    case False
    with r(1) have "NL \<notin> set (row_text r)" by (rule unterminated_line)
    with False assms r m show ?thesis
      by (auto simp: row_lines_def line_wf_def butlast_append)
  qed
qed

text \<open>A diff of two admitted texts.\<close>

definition admitted_lines :: "rstr list \<Rightarrow> bool" where
  "admitted_lines ls \<longleftrightarrow> lines_wf ls \<and> length ls \<le> MAX_LINES \<and> list_all (\<lambda>l. 0 \<notin> set l) ls"

lemma admitted_split: "validate_text t = Ok u \<Longrightarrow> admitted_lines (split_inclusive t)"
proof -
  assume ok: "validate_text t = Ok u"
  have "l \<in> set (split_inclusive t) \<Longrightarrow> set l \<subseteq> set t" for l
    by (metis UN_I concat_split_inclusive set_concat subsetI)
  with validate_text_OkD [OF ok] show ?thesis
    by (auto simp: admitted_lines_def list_all_iff)
qed

lemma group_rows_ok:
  assumes "admitted_lines b" "admitted_lines a"
  shows "list_all (\<lambda>r. row_ok r \<and> 0 \<notin> set (row_text r)) (group_rows b a g)"
proof -
  have "row_ok r \<and> 0 \<notin> set (row_text r)" if "r \<in> set (group_rows b a g)" for r
    using group_rows_text [OF that] assms lines_wf_line
    by (auto simp: row_ok_def admitted_lines_def list_all_iff)
  then show ?thesis by (simp add: list_all_iff)
qed

lemma group_lines_shape:
  assumes "admitted_lines b" "admitted_lines a" "l \<in> set (group_lines b a g)"
  shows "line_wf l \<and> ends_with NL l \<and> 0 \<notin> set l"
  using assms(3) group_rows_ok [OF assms(1,2), of g] header_line_shape row_lines_shape
  by (auto simp: group_lines_def list_all_iff)

lemma last_unterminated:
  assumes "lines_wf a" "ns < j'" "j' \<le> length a" "\<not> ends_with NL (last (take (j' - ns) (drop ns a)))"
  shows "j' = length a"
proof (rule ccontr)
  assume "j' \<noteq> length a"
  then have "drop j' a \<noteq> []" using assms(3) by simp
  have "a = take ns a @ take (j' - ns) (drop ns a) @ drop j' a"
    using assms(2,3) by (metis append_take_drop_id drop_drop le_add_diff_inverse2 less_imp_le)
  with assms(1) have "lines_wf (take (j' - ns) (drop ns a) @ drop j' a)"
    by (metis lines_wf_append)
  with \<open>drop j' a \<noteq> []\<close> assms(2,3,4) show False by (auto simp: lines_wf_append)
qed

lemma hunk_step_print:
  assumes adm: "admitted_lines b" "admitted_lines a"
    and gs: "groups_ok b a i j (g # gs)" and ij: "i \<le> length b" "j \<le> length a"
    and st: "hs_lines st = concat (map row_lines (group_rows b a g)) @ rest"
      "hs_old_cursor st = i" "hs_new_cursor st = j" "hs_unterminated st \<longrightarrow> j = length a"
      "length (hs_hunks st) < MAX_LINES" "hs_total st \<le> i + j"
    and rest: "rest = [] \<or> hd rest \<noteq> MARKER"
  shows "\<exists>u. hunk_step (hd (group_lines b a g)) st = Ok \<lparr>hs_lines = rest,
      hs_hunks = hs_hunks st @ [group_hunk b a g],
      hs_old_cursor = snd (op_old (last g)), hs_new_cursor = snd (op_new (last g)),
      hs_unterminated = u, hs_total = hs_total st + length (group_rows b a g)\<rparr> \<and>
    (u \<longrightarrow> snd (op_new (last g)) = length a) \<and>
    hs_total st + length (group_rows b a g) \<le> snd (op_old (last g)) + snd (op_new (last g))"
proof -
  from groups_ok_Cons [OF gs ij] obtain os ns i' j' where
    d: "os = fst (op_old (hd g))" "ns = fst (op_new (hd g))" "i' = snd (op_old (last g))"
      "j' = snd (op_new (last g))" and
    p: "i \<le> os" "os \<le> i'" "i' \<le> length b" "j \<le> ns" "ns \<le> j'" "j' \<le> length a" "os - i = ns - j" and
    sides: "old_side (group_rows b a g) = take (i' - os) (drop os b)"
      "new_side (group_rows b a g) = take (j' - ns) (drop ns a)"
      "list_ex (\<lambda>r. row_prefix r \<noteq> 32) (group_rows b a g)"
    by metis
  let ?rows = "group_rows b a g" and ?oc = "i' - os" and ?nc = "j' - ns"
  have len: "length (old_side ?rows) = ?oc" "length (new_side ?rows) = ?nc"
    using sides p by simp_all
  have adm': "length b \<le> MAX_LINES" "length a \<le> MAX_LINES" "lines_wf a"
    using adm by (auto simp: admitted_lines_def)
  have total: "hs_total st + length ?rows \<le> i' + j'"
    using length_sides [of ?rows] len st(6) p by linarith
  have hdr: "parse_hunk_header (hd (group_lines b a g)) = Ok ((os, ?oc), (ns, ?nc))"
    using p adm' by (auto simp: group_lines_def d [symmetric] intro!: parse_header_print)
  define rs where "rs = \<lparr>rs_lines = hs_lines st, rs_consumed = 0, rs_produced = 0, rs_changed = False,
        rs_unterminated = hs_unterminated st, rs_total = hs_total st, rs_rows = []\<rparr>"
  define u where "u = (if new_side ?rows = [] then hs_unterminated st
      else \<not> ends_with NL (last (new_side ?rows)))"
  have rows_ok: "list_all row_ok ?rows"
    using group_rows_ok [OF adm, of g] by (auto simp: list_all_iff)
  have "parse_rows ?oc ?nc rs = Ok \<lparr>rs_lines = rest, rs_consumed = ?oc, rs_produced = ?nc,
    rs_changed = (rs_changed rs \<or> list_ex (\<lambda>r. row_prefix r \<noteq> 32) ?rows),
    rs_unterminated = (if new_side ?rows = [] then rs_unterminated rs
                       else \<not> ends_with NL (last (new_side ?rows))),
    rs_total = rs_total rs + length ?rows, rs_rows = rs_rows rs @ ?rows\<rparr>"
  proof (rule parse_rows_print [OF rows_ok rest])
    show "lines_wf (new_side ?rows)" using adm'(3) by (simp add: sides lines_wf_take lines_wf_drop)
    show "rs_unterminated rs \<longrightarrow> new_side ?rows = []" using st(4) p sides(2) by (auto simp: rs_def)
    show "rs_total rs + length ?rows \<le> MAX_PATCH_ROWS"
      using total p adm' by (simp add: rs_def MAX_PATCH_ROWS_def)
  qed (use len st(1) in \<open>simp_all add: rs_def\<close>)
  then have rows: "parse_rows ?oc ?nc rs = Ok \<lparr>rs_lines = rest, rs_consumed = ?oc, rs_produced = ?nc,
    rs_changed = True, rs_unterminated = u, rs_total = hs_total st + length ?rows, rs_rows = ?rows\<rparr>"
    using sides(3) by (simp add: rs_def u_def)
  have add: "checked_add j (os - i) = Some ns"
    using p adm' by (simp add: checked_add_def size_simps)
  have "u \<Longrightarrow> j' = length a"
    using last_unterminated [OF adm'(3), of ns j'] p st(4) sides(2)
    by (cases "ns = j'") (auto simp: u_def split: if_splits)
  moreover have "hunk_step (hd (group_lines b a g)) st = Ok \<lparr>hs_lines = rest,
      hs_hunks = hs_hunks st @ [group_hunk b a g], hs_old_cursor = i', hs_new_cursor = j',
      hs_unterminated = u, hs_total = hs_total st + length ?rows\<rparr>"
  proof -
    have g1: "\<not> (MAX_LINES \<le> length (hs_hunks st) \<or> \<not> ends_with NL (hd (group_lines b a g)))"
      using st(5) header_line_shape(1) by (simp add: group_lines_def)
    have g2: "\<not> os < hs_old_cursor st" using p st(2) by simp
    have g3: "\<not> (checked_add (hs_new_cursor st) (os - hs_old_cursor st) \<noteq> Some ns \<or>
        (0 < os - hs_old_cursor st \<and> hs_unterminated st))"
      using add st(2-4) p by auto
    have ends': "os + (i' - os) = i'" "ns + (j' - ns) = j'" using p by simp_all
    show ?thesis
      unfolding hunk_step_def if_not_P [OF g1] hdr and_then_simps prod.case if_not_P [OF g2] Let_def
        if_not_P [OF g3] rows [unfolded rs_def] ends'
      by (simp add: group_hunk_def d)
  qed
  ultimately show ?thesis using total by (auto simp: d)
qed

lemma parse_hunks_print:
  assumes "admitted_lines b" "admitted_lines a"
    and "groups_ok b a i j gs" "i \<le> length b" "j \<le> length a"
    and "hs_lines st = concat (map (group_lines b a) gs)"
    and "hs_old_cursor st = i" "hs_new_cursor st = j" "hs_unterminated st \<longrightarrow> j = length a"
    and "length (hs_hunks st) + length gs \<le> MAX_LINES" "hs_total st \<le> i + j"
  shows "\<exists>st'. parse_hunks st = Ok st' \<and> hs_hunks st' = hs_hunks st @ map (group_hunk b a) gs"
  using assms(3-)
proof (induction gs arbitrary: i j st)
  case Nil
  then show ?case by (simp add: parse_hunks.simps [of st])
next
  case (Cons g gs)
  let ?rest = "concat (map (group_lines b a) gs)"
  let ?st = "st\<lparr>hs_lines := concat (map row_lines (group_rows b a g)) @ ?rest\<rparr>"
  from groups_ok_Cons [OF Cons.prems(1-3)] have next_ok: "groups_ok b a (snd (op_old (last g))) (snd (op_new (last g))) gs"
      "snd (op_old (last g)) \<le> length b" "snd (op_new (last g)) \<le> length a"
    by metis+
  have "?rest = [] \<or> hd ?rest \<noteq> MARKER"
    using header_line_shape(3) by (cases gs) (auto simp: group_lines_def)
  with hunk_step_print [OF assms(1,2) Cons.prems(1-3), of ?st ?rest] Cons.prems(5-) obtain u where
    step: "hunk_step (hd (group_lines b a g)) ?st = Ok \<lparr>hs_lines = ?rest,
      hs_hunks = hs_hunks st @ [group_hunk b a g],
      hs_old_cursor = snd (op_old (last g)), hs_new_cursor = snd (op_new (last g)),
      hs_unterminated = u, hs_total = hs_total st + length (group_rows b a g)\<rparr>" (is "_ = Ok ?st1") and
    u: "u \<longrightarrow> snd (op_new (last g)) = length a"
      "hs_total st + length (group_rows b a g) \<le> snd (op_old (last g)) + snd (op_new (last g))"
    by auto
  have "\<exists>st'. parse_hunks ?st1 = Ok st' \<and> hs_hunks st' = hs_hunks ?st1 @ map (group_hunk b a) gs"
    by (rule Cons.IH [OF next_ok]) (use u Cons.prems(8) in simp_all)
  then obtain st' where st': "parse_hunks ?st1 = Ok st'"
      "hs_hunks st' = hs_hunks ?st1 @ map (group_hunk b a) gs" by blast
  have "hs_lines st = hd (group_lines b a g) # concat (map row_lines (group_rows b a g)) @ ?rest"
    using Cons.prems(4) by (simp add: group_lines_def [of b a g])
  then have "parse_hunks st = parse_hunks ?st1"
    using step by (subst parse_hunks.simps) simp
  with st' show ?case by auto
qed

lemma splice_groups:
  "groups_ok b a i j gs \<Longrightarrow> i \<le> length b \<Longrightarrow> j \<le> length a \<Longrightarrow>
     splice_lines b i (map (group_hunk b a) gs) = Some (drop j a)"
proof (induction gs arbitrary: i j)
  case (Cons g gs)
  from groups_ok_Cons [OF Cons.prems] obtain os ns i' j' where
    d: "os = fst (op_old (hd g))" and
    p: "i \<le> os" "os \<le> i'" "i' \<le> length b" "j \<le> ns" "ns \<le> j'" "j' \<le> length a" "os - i = ns - j" and
    gap: "take (os - i) (drop i b) = take (ns - j) (drop j a)" and
    sides: "old_side (group_rows b a g) = take (i' - os) (drop os b)"
      "new_side (group_rows b a g) = take (j' - ns) (drop ns a)" and
    rest: "groups_ok b a i' j' gs"
    by metis
  have "take (ns - j) (drop j a) @ take (j' - ns) (drop ns a) @ drop j' a = drop j a"
  proof -
    have "take (ns - j) (drop j a) @ take (j' - ns) (drop ns a) = take (j' - j) (drop j a)"
      using p by (intro take_drop_join)
    moreover have "drop j' a = drop (j' - j) (drop j a)" using p by simp
    ultimately show ?thesis by (metis append.assoc append_take_drop_id)
  qed
  with Cons.IH [OF rest p(3) p(6)] p gap sides show ?case
    by (simp add: group_hunk_def d [symmetric] Let_def)
qed simp

definition patch_lines :: "rstr list \<Rightarrow> rstr list \<Rightarrow> diff_op list list \<Rightarrow> rstr list" where
  "patch_lines b a gs =
     [lit ''--- before'' @ [NL], lit ''+++ after'' @ [NL]] @ concat (map (group_lines b a) gs)"

lemma lines_wf_all:
  "(\<And>l. l \<in> set ls \<Longrightarrow> line_wf l \<and> ends_with NL l) \<Longrightarrow> lines_wf ls"
  by (induction ls) auto

lemma patch_lines_shape:
  assumes "admitted_lines b" "admitted_lines a"
  shows "lines_wf (patch_lines b a gs)" "0 \<notin> set (concat (patch_lines b a gs))"
proof -
  have *: "line_wf l \<and> ends_with NL l \<and> 0 \<notin> set l" if "l \<in> set (patch_lines b a gs)" for l
    using that group_lines_shape [OF assms] by (auto simp: patch_lines_def line_wf_def)
  then show "lines_wf (patch_lines b a gs)" by (intro lines_wf_all) auto
  show "0 \<notin> set (concat (patch_lines b a gs))" using * by auto
qed

text \<open>Parsing a printed patch gives back the printed hunks.\<close>

lemma parse_patch_print:
  assumes adm: "admitted_lines b" "admitted_lines a" and gs: "groups_ok b a 0 0 gs" "gs \<noteq> []"
  shows "parse_patch (concat (patch_lines b a gs)) = Ok (map (group_hunk b a) gs)"
proof -
  let ?h1 = "lit ''--- before'' @ [NL]" and ?h2 = "lit ''+++ after'' @ [NL]"
  let ?ls = "concat (map (group_lines b a) gs)"
  have split: "split_inclusive (concat (patch_lines b a gs)) = ?h1 # ?h2 # ?ls"
    using split_inclusive_concat [OF patch_lines_shape(1) [OF adm]] by (simp add: patch_lines_def)
  have pre: "parse_preamble (?h1 # ?h2 # ?ls) = Ok (?h1 # ?h2 # ?ls)"
    by (simp add: parse_preamble_def starts_with_def)
  have h1: "parse_file_header (lit ''--- '') (?h1 # ?h2 # ?ls) = Ok (?h2 # ?ls)"
    by (simp add: parse_file_header_def starts_with_def len_utf8_def)
  have h2: "parse_file_header (lit ''+++ '') (?h2 # ?ls) = Ok ?ls"
    by (simp add: parse_file_header_def starts_with_def len_utf8_def)
  let ?st = "\<lparr>hs_lines = ?ls, hs_hunks = [], hs_old_cursor = 0, hs_new_cursor = 0,
         hs_unterminated = False, hs_total = 0\<rparr>"
  have "length gs \<le> MAX_LINES"
    using groups_count [OF gs(1)] adm by (simp add: admitted_lines_def size_simps)
  with parse_hunks_print [OF adm gs(1), of ?st] obtain st' where
    "parse_hunks ?st = Ok st'" "hs_hunks st' = map (group_hunk b a) gs" by auto
  with gs(2) show ?thesis
    unfolding parse_patch_def split pre and_then_simps h1 h2 by simp
qed

lemma print_changes_OkD:
  "print_changes out cs = Ok out' \<Longrightarrow> str_len out \<le> MAX_PATCH_BYTES \<Longrightarrow>
     out' = out @ concat (concat (map row_lines
       (map (\<lambda>(t, v). \<lparr>row_prefix = change_prefix t, row_text = v\<rparr>) cs))) \<and>
     str_len out' \<le> MAX_PATCH_BYTES"
proof (induction out cs rule: print_changes.induct)
  case (2 out tag v cs)
  then obtain o1 o2 o3 where o: "diff_append out [change_prefix tag] = Ok o1" "diff_append o1 v = Ok o2"
      "(if ends_with NL v then Ok o2 else diff_append o2 ([NL] @ MARKER)) = Ok o3"
      "print_changes o3 cs = Ok out'"
    by (auto simp: and_then_eq_Ok)
  have o2: "o2 = out @ change_prefix tag # v" "str_len o2 \<le> MAX_PATCH_BYTES"
    using diff_out.append_OkD [OF o(1)] diff_out.append_OkD [OF o(2)] by auto
  have o3: "o3 = o2 @ (if ends_with NL v then [] else NL # MARKER)" "str_len o3 \<le> MAX_PATCH_BYTES"
    using o(3) o2(2) diff_out.append_OkD [of o2 "[NL] @ MARKER" o3] by (auto split: if_splits)
  from "2.IH" [OF o(1-3) o(4) o3(2)] o2(1) o3(1) show ?case
    by (auto simp: row_lines_def)
qed simp

lemma print_groups_OkD:
  assumes "print_groups ch out gs = Ok out'" "str_len out \<le> MAX_PATCH_BYTES"
    and "list_all (\<lambda>g. list_all (\<lambda>op. ch op = op_changes b a op) g) gs"
  shows "out' = out @ concat (concat (map (group_lines b a) gs)) \<and> str_len out' \<le> MAX_PATCH_BYTES"
  using assms
proof (induction gs arbitrary: out)
  case (Cons g gs)
  let ?oc = "snd (op_old (last g)) - fst (op_old (hd g))" and ?nc = "snd (op_new (last g)) - fst (op_new (hd g))"
  let ?h = "header_line (fst (op_old (hd g))) ?oc (fst (op_new (hd g))) ?nc"
  have chg: "concat (map ch g) = concat (map (op_changes b a) g)"
    using Cons.prems(3) by (simp add: list_all_iff cong: map_cong)
  from Cons.prems(1) obtain o1 o2 where o: "diff_append out ?h = Ok o1"
      "print_changes o1 (concat (map ch g)) = Ok o2" "print_groups ch o2 gs = Ok out'"
    by (auto simp: print_group_def result_simps Let_def header_line_def split: if_splits)
  note o1 = diff_out.append_OkD [OF o(1)]
  from print_changes_OkD [OF o(2)] o1 have o2: "o2 = out @ concat (group_lines b a g)"
      "str_len o2 \<le> MAX_PATCH_BYTES"
    by (auto simp: group_lines_def chg group_rows_def)
  from Cons.IH [OF o(3) o2(2)] Cons.prems(3) o2(1) show ?case by auto
qed simp

lemma compare_patch:
  assumes "compare ds co before after = Ok r" "diff_ok b a (ds b a)"
    and "b = split_inclusive before" "a = split_inclusive after"
  shows "validate_text before = Ok () \<and> validate_text after = Ok () \<and>
    cd_patch r = (if ld_groups (ds b a) = [] then [] else concat (patch_lines b a (ld_groups (ds b a)))) \<and>
    str_len (cd_patch r) \<le> MAX_PATCH_BYTES"
proof -
  let ?d = "ds b a" and ?h = "lit ''--- before'' @ [NL] @ lit ''+++ after'' @ [NL]"
  from assms(1) obtain x y where xy: "text_info before (lit ''Before'') = Ok x" "text_info after (lit ''After'') = Ok y"
    by (auto simp: compare_def result_simps)
  then have ok: "validate_text before = Ok () \<and> validate_text after = Ok ()"
    using text_info_ok_iff [of before] text_info_ok_iff [of after] by (metis is_ok_iff)
  show ?thesis
  proof (cases "ld_groups ?d = []")
    case True
    with assms(1,3,4) xy ok show ?thesis by (auto simp: compare_def Let_def)
  next
    case False
    with assms(1,3,4) xy obtain o1 where o: "diff_append [] ?h = Ok o1"
        "print_groups (ld_changes ?d) o1 (ld_groups ?d) = Ok (cd_patch r)"
      by (auto simp: compare_def Let_def and_then_eq_Ok)
    note o1 = diff_out.append_OkD [OF o(1)]
    have "list_all (\<lambda>g. list_all (\<lambda>op. ld_changes ?d op = op_changes b a op) g) (ld_groups ?d)"
      using assms(2) by (simp add: diff_ok_def)
    note pg = print_groups_OkD [OF o(2) conjunct2 [OF o1] this]
    have "cd_patch r = ?h @ concat (concat (map (group_lines b a) (ld_groups ?d)))"
      using conjunct1 [OF pg] o1 by (simp only: append_Nil)
    moreover note conjunct2 [OF pg]
    moreover have "concat (patch_lines b a (ld_groups ?d)) =
        ?h @ concat (concat (map (group_lines b a) (ld_groups ?d)))"
      by (simp add: patch_lines_def)
    ultimately show ?thesis using ok False by (simp only: if_False simp_thms)
  qed
qed

section \<open>Properties\<close>

text \<open>
  C1. The worker's patch is exact: whenever \<open>compare\<close> succeeds, the strict applier accepts the
  printed patch on the first text and rebuilds precisely the second one (and an empty patch is
  returned only for equal texts).  Printing, the no-newline markers, the empty-side coordinates,
  the row and hunk limits and the parser agree for every diff that keeps the library's contract.
\<close>

theorem compare_apply_roundtrip:
  assumes "compare diff_slices char_ops before after = Ok r"
    and "diff_ok (split_inclusive before) (split_inclusive after)
      (diff_slices (split_inclusive before) (split_inclusive after))"
  shows "apply_patch before (cd_patch r) = Ok after"
proof -
  let ?b = "split_inclusive before" and ?a = "split_inclusive after"
  let ?gs = "ld_groups (diff_slices ?b ?a)"
  note c = compare_patch [OF assms refl refl]
  have adm: "admitted_lines ?b" "admitted_lines ?a" using c admitted_split by blast+
  have gs: "groups_ok ?b ?a 0 0 ?gs" using assms(2) by (simp add: diff_ok_def)
  show ?thesis
  proof (cases "?gs = []")
    case True
    with gs have "?b = ?a" by simp
    then have "before = after" by (metis concat_split_inclusive)
    with True c show ?thesis by (simp add: apply_patch_def)
  next
    case False
    let ?hs = "map (group_hunk ?b ?a) ?gs"
    have p: "cd_patch r = concat (patch_lines ?b ?a ?gs)" using c False by simp
    have parse: "parse_patch (cd_patch r) = Ok ?hs" unfolding p by (rule parse_patch_print [OF adm gs False])
    have "splice_lines ?b 0 ?hs = Some ?a" using splice_groups [OF gs] by simp
    then have "apply_from ?b ?hs 0 [] = Ok after"
      using apply_from_start [OF parse_patch_shape(2) [OF parse], of before after]
        validate_text_OkD(1) [of after] c by simp
    moreover have "cd_patch r \<noteq> []" by (simp add: p patch_lines_def)
    moreover have "0 \<notin> set (cd_patch r)" "str_len (cd_patch r) \<le> MAX_PATCH"
      using patch_lines_shape(2) [OF adm] p conjunct2 [OF conjunct2 [OF conjunct2 [OF c]]]
      by (simp_all only: MAX_PATCH_def MAX_PATCH_BYTES_def not_False_eq_True)
    ultimately show ?thesis using parse c by (simp add: apply_patch_from)
  qed
qed

definition example_diff :: line_diff where
  "example_diff = (let b = [lns [''a''], lns [''b''], lit ''c'']; a = [lns [''a''], lns [''x'']];
     e = \<lparr>op_tag = TagEqual, op_old = (0, 1), op_new = (0, 1)\<rparr>;
     r = \<lparr>op_tag = TagReplace, op_old = (1, 3), op_new = (1, 2)\<rparr> in
     \<lparr>ld_ops = [e, r], ld_groups = [[e, r]], ld_changes = op_changes b a\<rparr>)"

definition example_chars :: "rstr \<Rightarrow> rstr \<Rightarrow> diff_op list" where
  "example_chars o_text n_text =
     [\<lparr>op_tag = TagReplace, op_old = (0, length o_text), op_new = (0, length n_text)\<rparr>]"

theorem compare_apply_roundtrip_witness:
  "\<exists>r. compare (\<lambda>_ _. example_diff) example_chars (lns [''a'', ''b''] @ lit ''c'') (lns [''a'', ''x'']) = Ok r \<and>
     apply_patch (lns [''a'', ''b''] @ lit ''c'') (cd_patch r) = Ok (lns [''a'', ''x''])"
proof -
  have "is_ok (compare (\<lambda>_ _. example_diff) example_chars (lns [''a'', ''b''] @ lit ''c'') (lns [''a'', ''x'']))"
    by code_simp
  then obtain r where r: "compare (\<lambda>_ _. example_diff) example_chars
      (lns [''a'', ''b''] @ lit ''c'') (lns [''a'', ''x'']) = Ok r"
    by (auto simp: is_ok_iff)
  have "diff_ok (split_inclusive (lns [''a'', ''b''] @ lit ''c'')) (split_inclusive (lns [''a'', ''x'']))
      example_diff" by code_simp
  with compare_apply_roundtrip [OF r] r show ?thesis by blast
qed

section \<open>Annotations\<close>

fun ordered_ranges :: "nat \<Rightarrow> (nat \<times> nat) list \<Rightarrow> bool" where
  "ordered_ranges lo [] = True"
| "ordered_ranges lo ((s, e) # rs) = (lo \<le> s \<and> s < e \<and> ordered_ranges e rs)"

text \<open>Nonempty ranges in order with a gap between any two.\<close>

fun separated :: "nat \<Rightarrow> (nat \<times> nat) list \<Rightarrow> bool" where
  "separated lo [] = True"
| "separated lo ((s, e) # rs) = (lo \<le> s \<and> s < e \<and> separated (Suc e) rs)"

definition covered :: "(nat \<times> nat) list \<Rightarrow> nat \<Rightarrow> bool" where
  "covered rs p \<longleftrightarrow> list_ex (\<lambda>(s, e). s \<le> p \<and> p < e) rs"

lemma covered_simps [simp]:
  "\<not> covered [] p"
  "covered ((s, e) # rs) p \<longleftrightarrow> (s \<le> p \<and> p < e) \<or> covered rs p"
  "covered (rs @ rs') p \<longleftrightarrow> covered rs p \<or> covered rs' p"
  by (simp_all add: covered_def)

lemma separated_snoc:
  "separated lo (rs @ [(a, b)]) \<longleftrightarrow>
     separated lo rs \<and> (if rs = [] then lo \<le> a else snd (last rs) < a) \<and> a < b"
  by (induction lo rs rule: separated.induct) auto

lemma ordered_above: "ordered_ranges lo rs \<Longrightarrow> p < lo \<Longrightarrow> \<not> covered rs p"
  by (induction lo rs rule: ordered_ranges.induct) auto

lemma ordered_mono: "ordered_ranges lo rs \<Longrightarrow> lo' \<le> lo \<Longrightarrow> ordered_ranges lo' rs"
  by (cases rs) auto

lemma ordered_ends: "ordered_ranges lo rs \<Longrightarrow> (s, e) \<in> set rs \<Longrightarrow> lo < e"
  by (induction lo rs rule: ordered_ranges.induct) fastforce+

definition line_done :: "nat \<Rightarrow> nat \<Rightarrow> (nat \<times> nat) list \<Rightarrow>
    scalar_range list \<Rightarrow> nat \<Rightarrow> scalar_range list \<Rightarrow> nat \<Rightarrow> bool" where
  "line_done offset end changes ranges count ranges' count' \<longleftrightarrow>
     separated 0 ranges' \<and> list_all (\<lambda>(s, e). e \<le> end - offset) ranges' \<and>
     (\<forall>p < end - offset. covered ranges' p \<longleftrightarrow> covered ranges p \<or> covered changes (offset + p)) \<and>
     count' + length ranges = count + length ranges' \<and> (count' = count \<or> count' \<le> MAX_INLINE_RANGES)"

definition line_result :: "nat \<Rightarrow> nat \<Rightarrow> (nat \<times> nat) list \<Rightarrow> scalar_range list \<Rightarrow> nat
    \<Rightarrow> (scalar_range list \<times> nat, text_diff_error fault) result \<Rightarrow> bool" where
  "line_result offset end changes ranges count res =
     (case res of
        Inr (ranges', count') \<Rightarrow> line_done offset end changes ranges count ranges' count'
      | Inl e \<Rightarrow> e = Raised ResourceLimit)"

lemma line_result_step:
  assumes "line_result offset end changes r c res"
    and "\<And>p. p < end - offset \<Longrightarrow>
      covered r p \<or> covered changes (offset + p) \<longleftrightarrow> covered r0 p \<or> covered changes0 (offset + p)"
    and "c + length r0 = c0 + length r" "c = c0 \<or> c \<le> MAX_INLINE_RANGES"
  shows "line_result offset end changes0 r0 c0 res"
proof (cases res)
  case (Inl e)
  with assms(1) show ?thesis by (simp add: line_result_def)
next
  case (Inr p)
  obtain r' c' where p: "p = (r', c')" by fastforce
  from assms(1) Inr p have ld: "line_done offset end changes r c r' c'" by (simp add: line_result_def)
  then have "c' + length r0 = c0 + length r'" "c' = c0 \<or> c' \<le> MAX_INLINE_RANGES"
    using assms(3,4) by (auto simp: line_done_def)
  with ld assms(2) have "line_done offset end changes0 r0 c0 r' c'"
    by (simp add: line_done_def)
  with Inr p show ?thesis by (simp add: line_result_def)
qed

lemma line_ranges_spec:
  assumes "ordered_ranges lo changes" "list_all (\<lambda>c. offset < snd c) changes"
    and "offset \<le> stop" "stop < offset + 2 ^ 32" "separated 0 ranges"
    and "list_all (\<lambda>(s, e). e \<le> stop - offset) ranges"
    and "ranges = [] \<or> offset + snd (last ranges) \<le> max lo offset"
  shows "line_result offset stop changes ranges count (line_ranges offset stop changes ranges count)"
  using assms
proof (induction offset stop changes ranges count arbitrary: lo rule: line_ranges.induct)
  case (1 offset stop ranges count)
  then show ?case by (simp add: line_done_def line_result_def)
next
  case (2 offset stop c_start c_end changes ranges count)
  let ?a = "max c_start offset - offset" and ?b = "min c_end stop - offset"
  from "2.prems" have c: "lo \<le> c_start" "c_start < c_end" "ordered_ranges c_end changes" "offset < c_end"
      "list_all (\<lambda>c. offset < snd c) changes"
    by auto
  show ?case
  proof (cases "stop \<le> c_start")
    case True
    have "\<not> covered ((c_start, c_end) # changes) (offset + p)" if "p < stop - offset" for p
      using ordered_above [of c_start "(c_start, c_end) # changes" "offset + p"] c that True by auto
    with True "2.prems" show ?thesis by (auto simp: line_done_def line_result_def)
  next
    case early: False
    have sub: "ok_or (checked_sub (min c_end stop) offset) Panicked =
        (Ok ?b :: (nat, text_diff_error fault) result)"
      using c(4) "2.prems"(3) by (simp add: checked_sub_def)
    have m: "?a mod 2 ^ 32 = ?a" "?b mod 2 ^ 32 = ?b"
      using early "2.prems"(4) by auto
    have cov: "covered ((c_start, c_end) # changes) (offset + p) \<longleftrightarrow>
        (?a \<le> p \<and> p < ?b) \<or> covered changes (offset + p)" if "p < stop - offset" for p
      using that by auto
    show ?thesis
    proof (cases "?a < ?b")
      case False
      have "line_result offset stop changes ranges count (line_ranges offset stop changes ranges count)"
        by (rule "2.IH"(3) [OF early refl sub False c(3,5) "2.prems"(3-6)])
           (use "2.prems"(7) c in auto)
      then have "line_result offset stop ((c_start, c_end) # changes) ranges count
          (line_ranges offset stop changes ranges count)"
        by (rule line_result_step) (use cov False in auto)
      with False early sub show ?thesis by (simp add: Let_def)
    next
      case ab: True
      show ?thesis
      proof (cases "ranges \<noteq> [] \<and> snd (last ranges) = ?a mod 2 ^ 32")
        case True
        then obtain init s where r: "ranges = init @ [(s, ?a)]"
          using m(1) by (metis append_butlast_last_id prod.collapse)
        let ?r = "butlast ranges @ [(fst (last ranges), ?b mod 2 ^ 32)]"
        have r': "?r = init @ [(s, ?b)]" using r m(2) by simp
        have "s < ?a" using "2.prems"(5) r by (simp add: separated_snoc)
        have IH: "line_result offset stop changes ?r count (line_ranges offset stop changes ?r count)"
        proof (rule "2.IH"(1) [OF early refl sub ab True c(3,5) "2.prems"(3,4)])
          show "separated 0 ?r"
            unfolding r' using "2.prems"(5) [unfolded r separated_snoc] ab \<open>s < ?a\<close>
            by (auto simp: separated_snoc)
          show "list_all (\<lambda>(s, e). e \<le> stop - offset) ?r" unfolding r' using "2.prems"(6) [unfolded r] by auto
          show "?r = [] \<or> offset + snd (last ?r) \<le> max c_end offset"
            unfolding r' using c(4) by (auto simp: min_def max_def)
        qed
        have "covered ?r p \<longleftrightarrow> covered ranges p \<or> (?a \<le> p \<and> p < ?b)" for p
          unfolding r' using r ab \<open>s < ?a\<close> by auto
        then have "line_result offset stop ((c_start, c_end) # changes) ranges count
            (line_ranges offset stop changes ?r count)"
          by (intro line_result_step [OF IH]) (use cov True in auto)
        with True early sub ab show ?thesis by (simp add: Let_def)
      next
        case no: False
        show ?thesis
        proof (cases "MAX_INLINE_RANGES < count + 1")
          case True
          have "line_ranges offset stop ((c_start, c_end) # changes) ranges count = Err (Raised ResourceLimit)"
            unfolding line_ranges.simps if_not_P [OF early] Let_def sub and_then_simps if_P [OF ab]
              if_not_P [OF no] if_P [OF True] by (rule refl)
          then show ?thesis by (simp add: line_result_def)
        next
          case fits: False
          let ?r = "ranges @ [(?a mod 2 ^ 32, ?b mod 2 ^ 32)]"
          have IH: "line_result offset stop changes ?r (count + 1)
              (line_ranges offset stop changes ?r (count + 1))"
          proof (rule "2.IH"(2) [OF early refl sub ab no fits c(3,5) "2.prems"(3,4)])
            have "ranges = [] \<or> snd (last ranges) \<le> ?a"
              using "2.prems"(7) c(1) by (auto simp: max_def split: if_splits)
            then show "separated 0 ?r"
              using "2.prems"(5) no ab m by (auto simp: separated_snoc)
            show "list_all (\<lambda>(s, e). e \<le> stop - offset) ?r" using "2.prems"(6) m by (auto intro: diff_le_mono)
            show "?r = [] \<or> offset + snd (last ?r) \<le> max c_end offset"
              using c(4) m by (auto simp: min_def max_def)
          qed
          have "covered ?r p \<longleftrightarrow> covered ranges p \<or> (?a \<le> p \<and> p < ?b)" for p
            unfolding m by auto
          then have "line_result offset stop ((c_start, c_end) # changes) ranges count
              (line_ranges offset stop changes ?r (count + 1))"
            by (intro line_result_step [OF IH]) (use cov fits in auto)
          moreover have "line_ranges offset stop ((c_start, c_end) # changes) ranges count =
              line_ranges offset stop changes ?r (count + 1)"
            unfolding line_ranges.simps if_not_P [OF early] Let_def sub and_then_simps if_P [OF ab]
              if_not_P [OF no] if_not_P [OF fits] by (rule refl)
          ultimately show ?thesis by (simp only:)
        qed
      qed
    qed
  qed
qed

lemma drop_finished:
  assumes "ordered_ranges lo changes"
  shows "ordered_ranges lo (dropWhile (\<lambda>c. snd c \<le> offset) changes) \<and>
    list_all (\<lambda>c. offset < snd c) (dropWhile (\<lambda>c. snd c \<le> offset) changes) \<and>
    (\<forall>p\<ge>offset. covered (dropWhile (\<lambda>c. snd c \<le> offset) changes) p \<longleftrightarrow> covered changes p)"
  using assms(1)
proof (induction lo changes rule: ordered_ranges.induct)
  case (2 lo s e rs)
  show ?case
  proof (cases "e \<le> offset")
    case True
    with 2 ordered_mono [of e _ lo] show ?thesis by auto
  next
    case False
    with 2 ordered_ends [of e rs] have "list_all (\<lambda>c. offset < snd c) rs"
      by (fastforce simp: list_all_iff)
    with False 2 show ?thesis by auto
  qed
qed simp

text \<open>What the annotation of one line says about the changes of the whole block.\<close>

definition highlight_ok :: "diff_side \<Rightarrow> nat \<Rightarrow> nat \<Rightarrow> rstr \<Rightarrow> (nat \<times> nat) list \<Rightarrow> source_line_highlights \<Rightarrow> bool" where
  "highlight_ok side index offset line changes h \<longleftrightarrow>
     sh_side h = side \<and> sh_line_index h = index \<and> separated 0 (sh_ranges h) \<and>
     list_all (\<lambda>(s, e). e \<le> length line) (sh_ranges h) \<and>
     (\<forall>p < length line. covered (sh_ranges h) p \<longleftrightarrow> covered changes (offset + p))"

fun highlights_ok :: "diff_side \<Rightarrow> nat \<Rightarrow> nat \<Rightarrow> rstr list \<Rightarrow> (nat \<times> nat) list
    \<Rightarrow> source_line_highlights list \<Rightarrow> bool" where
  "highlights_ok side index offset [] changes hs \<longleftrightarrow> hs = []"
| "highlights_ok side index offset (line # lines) changes hs \<longleftrightarrow>
     hs \<noteq> [] \<and> highlight_ok side index offset line changes (hd hs) \<and>
     highlights_ok side (index + 1) (offset + length line) lines changes (tl hs)"

definition range_total :: "source_line_highlights list \<Rightarrow> nat" where
  "range_total hs = sum_list (map (\<lambda>h. length (sh_ranges h)) hs)"

lemma range_total_simps [simp]:
  "range_total [] = 0"
  "range_total (h # hs) = length (sh_ranges h) + range_total hs"
  "range_total (hs @ hs') = range_total hs + range_total hs'"
  by (simp_all add: range_total_def)

lemma highlights_ok_cong:
  "(\<And>p. offset \<le> p \<Longrightarrow> covered c p \<longleftrightarrow> covered c' p) \<Longrightarrow>
    highlights_ok side index offset lines c hs \<longleftrightarrow> highlights_ok side index offset lines c' hs"
proof (induction side index offset lines c hs rule: highlights_ok.induct)
  case (2 side index offset line lines c hs)
  from "2.IH" "2.prems" have "highlights_ok side (index + 1) (offset + length line) lines c (tl hs) \<longleftrightarrow>
      highlights_ok side (index + 1) (offset + length line) lines c' (tl hs)" by simp
  with "2.prems" show ?case by (simp add: highlight_ok_def)
qed simp

lemma annotate_spec:
  assumes "ordered_ranges lo changes" "list_all (\<lambda>l. length l < 2 ^ 32) lines"
    and "index + length lines \<le> 2 ^ 32"
  shows "case annotate acc side index offset lines changes count of
      Inr (acc', count') \<Rightarrow> (\<exists>hs. acc' = acc @ hs \<and>
        highlights_ok side index offset lines changes hs \<and> count' = count + range_total hs \<and>
        (count' = count \<or> count' \<le> MAX_INLINE_RANGES))
    | Inl e \<Rightarrow> e = Raised ResourceLimit"
  using assms
proof (induction acc side index offset lines changes count arbitrary: lo rule: annotate.induct)
  case (2 acc side index offset line lines changes count)
  let ?stop = "offset + length line" and ?rest = "dropWhile (\<lambda>c. snd c \<le> offset) changes"
  note rest = drop_finished [OF "2.prems"(1), of offset]
  have lr: "line_result offset ?stop ?rest [] count (line_ranges offset ?stop ?rest [] count)"
    by (rule line_ranges_spec) (use rest "2.prems"(2) in auto)
  show ?case
  proof (cases "line_ranges offset ?stop ?rest [] count")
    case (Inl e)
    with lr show ?thesis by (simp add: Let_def line_result_def)
  next
    case (Inr res)
    obtain ranges count1 where res: "res = (ranges, count1)" by fastforce
    let ?h = "\<lparr>sh_side = side, sh_line_index = index mod 2 ^ 32, sh_ranges = ranges\<rparr>"
    from lr Inr res have ld: "line_done offset ?stop ?rest [] count ranges count1"
      by (simp add: line_result_def)
    then have ok: "highlight_ok side index offset line changes ?h"
      using rest "2.prems"(3) by (auto simp: line_done_def highlight_ok_def)
    have "case annotate (acc @ [?h]) side (index + 1) ?stop lines ?rest count1 of
        Inr (acc', count') \<Rightarrow> (\<exists>hs. acc' = (acc @ [?h]) @ hs \<and>
          highlights_ok side (index + 1) ?stop lines ?rest hs \<and> count' = count1 + range_total hs \<and>
          (count' = count1 \<or> count' \<le> MAX_INLINE_RANGES))
      | Inl e \<Rightarrow> e = Raised ResourceLimit"
      using "2.prems" by (intro "2.IH" [OF refl refl Inr [unfolded res] refl conjunct1 [OF rest]]) auto
    moreover have "highlights_ok side (index + 1) ?stop lines ?rest hs \<longleftrightarrow>
        highlights_ok side (index + 1) ?stop lines changes hs" for hs
      using rest by (intro highlights_ok_cong) auto
    moreover have "annotate acc side index offset (line # lines) changes count =
        annotate (acc @ [?h]) side (index + 1) ?stop lines ?rest count1"
      by (simp add: Inr res Let_def)
    moreover have "count1 = count + length ranges" "count1 = count \<or> count1 \<le> MAX_INLINE_RANGES"
      using ld by (auto simp: line_done_def)
    moreover have "highlights_ok side index offset (line # lines) changes (?h # hs) \<longleftrightarrow>
        highlights_ok side (index + 1) ?stop lines changes hs" for hs
      using ok by simp
    ultimately show ?thesis
      by (cases "annotate (acc @ [?h]) side (index + 1) ?stop lines ?rest count1")
        (fastforce simp del: annotate.simps highlights_ok.simps)+
  qed
qed simp

lemma ops_from_append:
  "ops_from b a i j (xs @ ys) =
     (case ops_from b a i j xs of None \<Rightarrow> None | Some (i', j') \<Rightarrow> ops_from b a i' j' ys)"
  by (induction xs arbitrary: i j) auto

lemma ops_from_append_Some:
  "ops_from b a i j (xs @ ys) = Some r \<Longrightarrow>
     \<exists>i' j'. ops_from b a i j xs = Some (i', j') \<and> ops_from b a i' j' ys = Some r"
  by (auto simp: ops_from_append split: option.splits)

definition chars_ok :: "(rstr \<Rightarrow> rstr \<Rightarrow> diff_op list) \<Rightarrow> bool" where
  "chars_ok char_ops \<longleftrightarrow> (\<forall>x y. ordered_ranges 0 (changed_old (char_ops x y)) \<and>
     ordered_ranges 0 (changed_new (char_ops x y)))"

definition short_lines :: "rstr list \<Rightarrow> bool" where
  "short_lines ls \<longleftrightarrow> length ls \<le> 2 ^ 32 \<and> list_all (\<lambda>l. length l < 2 ^ 32) ls"

lemma annotate_error:
  assumes "annotate acc side index 0 (take n (drop index ls)) changes count = Err e"
    and "ordered_ranges 0 changes" "short_lines ls" "index + n \<le> length ls"
  shows "e = Raised ResourceLimit"
proof -
  have "list_all (\<lambda>l. length l < 2 ^ 32) (take n (drop index ls))"
    using assms(3) by (auto simp: short_lines_def list_all_iff dest!: in_set_takeD in_set_dropD)
  moreover have "index + length (take n (drop index ls)) \<le> 2 ^ 32"
    using assms(3,4) by (simp add: short_lines_def)
  ultimately show ?thesis
    using annotate_spec [OF assms(2), of "take n (drop index ls)" index acc side 0 count] assms(1) by simp
qed

lemma annotate_block_error:
  assumes "annotate_block char_ops b a block acc count = Err e"
    and "chars_ok char_ops" "short_lines b" "short_lines a"
    and "block \<noteq> []" "ops_from b a i j block = Some (i', j')" "i \<le> length b" "j \<le> length a"
  shows "e = Raised ResourceLimit"
proof -
  note bounds = ops_from_sides [OF assms(6-8)]
  have last: "i' = snd (op_old (last block))" "j' = snd (op_new (last block))"
    "i = fst (op_old (hd block))" "j = fst (op_new (hd block))"
    using ops_from_last [OF assms(6,5)] by auto
  have ranges: "get_range b i i' = Some (take (i' - i) (drop i b))"
      "get_range a j j' = Some (take (j' - j) (drop j a))"
    using bounds by (simp_all add: get_range_def)
  have le: "i + (i' - i) \<le> length b" "j + (j' - j) \<le> length a" using bounds by simp_all
  from assms(1) show ?thesis
    unfolding annotate_block_def last [symmetric] Let_def ranges ok_or_simps and_then_simps and_then_eq_Err
    using assms(2) annotate_error [OF _ _ assms(3) le(1)] annotate_error [OF _ _ assms(4) le(2)]
    by (auto simp: chars_ok_def)
qed

lemma annotate_ops_error:
  assumes "annotate_ops char_ops b a ops acc count = Err e"
    and "chars_ok char_ops" "short_lines b" "short_lines a"
    and "ops_from b a i j ops = Some (m, n)" "i \<le> length b" "j \<le> length a"
  shows "e = Raised ResourceLimit"
  using assms
proof (induction char_ops b a ops acc count arbitrary: i j rule: annotate_ops.induct)
  case (2 char_ops b a op ops acc count)
  show ?case
  proof (cases "op_tag op = TagEqual")
    case True
    from "2.prems"(5) have op: "op_ok b a op"
        "ops_from b a (snd (op_old op)) (snd (op_new op)) ops = Some (m, n)"
      by (auto split: if_splits)
    then have "snd (op_old op) \<le> length b" "snd (op_new op) \<le> length a"
      by (auto simp: op_ok_def split: prod.splits)
    with "2.IH"(1) [OF True _ "2.prems"(2-4) op(2)] "2.prems"(1) True show ?thesis by simp
  next
    case False
    let ?block = "takeWhile (\<lambda>op. op_tag op \<noteq> TagEqual) (op # ops)"
      and ?rest = "dropWhile (\<lambda>op. op_tag op \<noteq> TagEqual) (op # ops)"
    from "2.prems"(5) obtain i1 j1 where
      run: "ops_from b a i j ?block = Some (i1, j1)" "ops_from b a i1 j1 ?rest = Some (m, n)"
    proof -
      have "ops_from b a i j (?block @ ?rest) = Some (m, n)"
        using "2.prems"(5) by (simp only: takeWhile_dropWhile_id)
      from ops_from_append_Some [OF this] that show thesis by blast
    qed
    have ne: "?block \<noteq> []" using False by simp
    have le: "i1 \<le> length b" "j1 \<le> length a" using ops_from_sides [OF run(1) "2.prems"(6,7)] by auto
    show ?thesis
    proof (cases "annotate_block char_ops b a ?block acc count")
      case (Inl e')
      then have "e' = Raised ResourceLimit"
        by (rule annotate_block_error [OF _ "2.prems"(2-4) ne run(1) "2.prems"(6,7)])
      with Inl "2.prems"(1) False show ?thesis by simp
    next
      case (Inr p)
      obtain acc1 count1 where p: "p = (acc1, count1)" by fastforce
      from Inr p "2.prems"(1) False have "annotate_ops char_ops b a ?rest acc1 count1 = Err e" by simp
      with "2.IH"(2) [OF False Inr [unfolded p] refl _ "2.prems"(2-4) run(2) le] show ?thesis by blast
    qed
  qed
qed simp

lemma print_changes_error: "print_changes out cs = Err e \<Longrightarrow> e = Raised ResourceLimit"
proof (induction out cs rule: print_changes.induct)
  case (2 out tag v cs)
  from "2.prems" show ?case
    unfolding print_changes.simps and_then_eq_Err
  proof (elim disjE exE conjE)
    fix o1 o2
    assume "(if ends_with NL v then Ok o2 else diff_append o2 ([NL] @ MARKER)) = Err e"
    then show ?thesis by (auto simp: diff_out.append_Err_iff split: if_splits)
  qed (use "2.IH" in \<open>blast dest: iffD1 [OF diff_out.append_Err_iff]\<close>)+
qed simp

lemma print_groups_error:
  "print_groups ch out gs = Err e \<Longrightarrow> groups_ok b a i j gs \<Longrightarrow> i \<le> length b \<Longrightarrow> j \<le> length a \<Longrightarrow>
     e = Raised ResourceLimit"
proof (induction gs arbitrary: out i j)
  case (Cons g gs)
  from groups_ok_Cons [OF Cons.prems(2-4)] have g: "g \<noteq> []"
      "fst (op_old (hd g)) \<le> snd (op_old (last g))" "fst (op_new (hd g)) \<le> snd (op_new (last g))"
      "groups_ok b a (snd (op_old (last g))) (snd (op_new (last g))) gs"
      "snd (op_old (last g)) \<le> length b" "snd (op_new (last g)) \<le> length a"
    by metis+
  from Cons.prems(1) consider "print_group ch out g = Err e" | out1 where "print_groups ch out1 gs = Err e"
    by (auto simp: and_then_eq_Err)
  then show ?case
  proof cases
    case 1
    with g show ?thesis
      by (auto simp: print_group_def Let_def and_then_eq_Err ok_or_eq_Err diff_out.append_Err_iff
          dest: print_changes_error)
  next
    case 2
    with Cons.IH g(4-6) show ?thesis by blast
  qed
qed simp

lemma admitted_short: "validate_text t = Ok u \<Longrightarrow> short_lines (split_inclusive t)"
proof -
  assume ok: "validate_text t = Ok u"
  have "length l < 2 ^ 32" if l: "l \<in> set (split_inclusive t)" for l
  proof -
    have "\<not> line_too_long l" using ok l by (auto simp: validate_text_def list_ex_iff split: if_splits)
    moreover have "length l \<le> length (case strip_suffix NL l of None \<Rightarrow> l | Some l \<Rightarrow> l) + 1"
      by (auto simp: strip_suffix_Some_iff split: option.splits)
    ultimately show ?thesis
      using length_le_str_len [of "case strip_suffix NL l of None \<Rightarrow> l | Some l \<Rightarrow> l"]
      by (simp add: line_too_long_def size_simps)
  qed
  with validate_text_OkD(3) [OF ok] show ?thesis
    by (auto simp: short_lines_def list_all_iff size_simps)
qed

text \<open>
  C30. Annotations are exact: for ordered character changes of a block, \<open>annotate\<close> emits one entry
  per line in order, whose ranges are nonempty, separated, within the line, and cover a character
  exactly when the changes of the block cover it; the running total counts the emitted ranges and
  never grows past \<open>MAX_INLINE_RANGES\<close>.
\<close>

theorem annotate_exact:
  assumes "annotate [] side start 0 lines changes count = Ok (hs, count')"
    and "ordered_ranges 0 changes"
    and "list_all (\<lambda>l. length l < 2 ^ 32) lines" "start + length lines \<le> 2 ^ 32"
  shows "highlights_ok side start 0 lines changes hs \<and> count' = count + range_total hs \<and>
    (count' = count \<or> count' \<le> MAX_INLINE_RANGES)"
  using annotate_spec [OF assms(2-4), of "[]" side 0 count] unfolding assms(1)
  by (auto simp only: sum.case prod.case append_Nil)

theorem annotate_exact_witness:
  "highlights_ok SideAfter 7 0 [lns [''abc''], lns [''def'']] [(1, 3), (3, 6), (7, 8)]
     [\<lparr>sh_side = SideAfter, sh_line_index = 7, sh_ranges = [(1, 4)]\<rparr>,
      \<lparr>sh_side = SideAfter, sh_line_index = 8, sh_ranges = [(0, 2), (3, 4)]\<rparr>] \<and>
   (3::nat) = 0 + range_total
     [\<lparr>sh_side = SideAfter, sh_line_index = 7, sh_ranges = [(1, 4)]\<rparr>,
      \<lparr>sh_side = SideAfter, sh_line_index = 8, sh_ranges = [(0, 2), (3, 4)]\<rparr>] \<and>
   ((3::nat) = 0 \<or> 3 \<le> MAX_INLINE_RANGES)"
  by (rule annotate_exact) code_simp+

text \<open>
  C31. The worker cannot abort: with a diff library that keeps its contract, every slice and
  subtraction of \<open>compare\<close> is in range and the internal error of an empty group never occurs.  It answers
  with a comparison or with an exhausted resource limit; it calls the input invalid only when one of
  the two texts is.
\<close>

theorem compare_never_panics:
  assumes "diff_ok (split_inclusive before) (split_inclusive after)
      (diff_slices (split_inclusive before) (split_inclusive after))"
    and "chars_ok char_ops"
  shows "(\<exists>c. compare diff_slices char_ops before after = Ok c) \<or>
    compare diff_slices char_ops before after = Err (Raised ResourceLimit) \<or>
    (compare diff_slices char_ops before after = Err (Raised InvalidInput) \<and>
      (text_info before (lit ''Before'') = Err InvalidInput \<or> text_info after (lit ''After'') = Err InvalidInput))"
proof (cases "compare diff_slices char_ops before after")
  case (Inl e)
  let ?b = "split_inclusive before" and ?a = "split_inclusive after"
  let ?d = "diff_slices ?b ?a"
  show ?thesis
  proof (cases "is_ok (text_info before (lit ''Before'')) \<and> is_ok (text_info after (lit ''After''))")
    case False
    with Inl show ?thesis
      by (auto simp: compare_def result_simps is_ok_iff dest: text_info_error)
  next
    case True
    then have v: "validate_text before = Ok ()" "validate_text after = Ok ()"
      by (simp_all add: text_info_ok_iff)
    from Inl True consider "diff_append [] (lit ''--- before'' @ [NL] @ lit ''+++ after'' @ [NL]) = Err e"
      | out where "print_groups (ld_changes ?d) out (ld_groups ?d) = Err e"
      | "annotate_ops char_ops ?b ?a (ld_ops ?d) [] 0 = Err e"
      by (auto simp: compare_def is_ok_iff Let_def and_then_eq_Err split: if_splits)
    then have "e = Raised ResourceLimit"
    proof cases
      case 1
      then show ?thesis unfolding diff_out.append_Err_iff by blast
    next
      case 2
      then show ?thesis using print_groups_error [of _ _ _ e ?b ?a 0 0] assms(1) by (auto simp: diff_ok_def)
    next
      case 3
      then show ?thesis
        using annotate_ops_error [OF 3 assms(2) admitted_short [OF v(1)] admitted_short [OF v(2)], of 0 0]
          assms(1) by (auto simp: diff_ok_def)
    qed
    with Inl show ?thesis by simp
  qed
qed simp

theorem compare_never_panics_witness:
  "\<exists>c. compare (\<lambda>_ _. example_diff) example_chars (lns [''a'', ''b''] @ lit ''c'') (lns [''a'', ''x'']) = Ok c
     \<and> length (cd_inline_changes c) = 3 \<and> cd_patch c \<noteq> []"
proof -
  let ?b = "lns [''a'', ''b''] @ lit ''c''" and ?a = "lns [''a'', ''x'']"
  let ?r = "compare (\<lambda>_ _. example_diff) example_chars ?b ?a"
  have "diff_ok (split_inclusive ?b) (split_inclusive ?a) example_diff" by code_simp
  moreover have "chars_ok example_chars"
    by (auto simp: chars_ok_def example_chars_def changed_old_def changed_new_def)
  moreover have "text_info ?b (lit ''Before'') \<noteq> Err InvalidInput" "text_info ?a (lit ''After'') \<noteq> Err InvalidInput"
      "?r \<noteq> Err (Raised ResourceLimit)" by code_simp+
  ultimately obtain c where c: "?r = Ok c"
    using compare_never_panics [of ?b ?a "\<lambda>_ _. example_diff" example_chars] by blast
  have "(case ?r of Inr c \<Rightarrow> length (cd_inline_changes c) = 3 \<and> cd_patch c \<noteq> [] | Inl _ \<Rightarrow> False)" by code_simp
  with c show ?thesis by simp
qed

end
