(* ===== verification/Diff_Paging.thy ===== *)
theory Diff_Paging
  imports Diff_Compute
begin

text \<open>
  Validation and paging of the worker's output: \<open>crates/application/src/text_diff/paging.rs\<close>.

  \<open>chunks\<close> cuts a text into transferable pieces.  \<open>changes\<close> checks a complete patch row by row
  against both originals, attaches the character highlights to the changed rows and packs the rows
  into fragments and pages.  The mutable locals of \<open>changes\<close> are the record \<open>paging_state\<close>, the
  ones captured by its \<open>finish\<close> closure are \<open>pager\<close>; the ordered map of pending annotations is an
  association list.  The JSON sizes computed by \<open>serde_json\<close> are the parameters \<open>json_fragment\<close>
  (of a whole fragment) and \<open>json_line\<close> (of one line); both are absent where encoding fails.

  The lemmas show that whatever is accepted splices the old text into the new one, that every
  published fragment quotes both originals at its stated coordinates and carries exactly the
  highlights of its changed rows, and that pages respect the row, byte and range limits.
\<close>

section \<open>The program\<close>

definition PAGE_BYTES :: nat where "PAGE_BYTES = 240 * 1024"

text \<open>The loop of \<open>chunks\<close> from the current offset on.\<close>

definition chunk_end :: "rstr \<Rightarrow> nat" where
  "chunk_end text = floor_boundary text (min (32 * 1024) (str_len text))"

lemma chunk_end_pos: "text \<noteq> [] \<Longrightarrow> 0 < chunk_end text"
proof -
  assume "text \<noteq> []"
  then obtain c t where t: "text = [c] @ t" by (metis append_Cons append_Nil neq_Nil_conv)
  then have "is_char_boundary text (len_utf8 c)" unfolding char_boundary_iff
    by (intro exI [of _ "[c]"] exI [of _ t]) simp
  moreover have "len_utf8 c \<le> min (32 * 1024) (str_len text)" using len_utf8_le [of c] t by simp
  ultimately have "len_utf8 c \<le> chunk_end text"
    unfolding chunk_end_def by (rule floor_boundary_greatest)
  then show ?thesis using len_utf8_pos(1) [of c] by linarith
qed

function chunk_list :: "rstr \<Rightarrow> rstr list" where
  "chunk_list text =
     (if text = [] then []
      else (case split_bytes text (chunk_end text) of
              None \<Rightarrow> []
            | Some (chunk, rest) \<Rightarrow> chunk # chunk_list rest))"
  by pat_completeness auto
termination
proof (relation "measure length")
  fix t p chunk rest
  assume t: "t \<noteq> []" "split_bytes t (chunk_end t) = Some p" "(chunk, rest) = p"
  then have "t = chunk @ rest" "str_len chunk = chunk_end t"
    by (auto simp: split_bytes_Some_iff)
  with chunk_end_pos [OF t(1)] show "(rest, t) \<in> measure length" by (cases chunk) auto
qed simp

declare chunk_list.simps [simp del]

definition chunks :: "rstr \<Rightarrow> rstr list" where
  "chunks text = (if text = [] then [[]] else chunk_list text)"

record part =
  pt_before :: nat
  pt_after :: nat
  pt_before_count :: nat
  pt_after_count :: nat
  pt_body :: rstr
  pt_rows :: nat
  pt_encoded :: nat
  pt_range_count :: nat
  pt_inline_changes :: "inline_change list"

definition part_new :: "nat \<Rightarrow> nat \<Rightarrow> part" where
  "part_new before after =
     \<lparr>pt_before = before, pt_after = after, pt_before_count = 0, pt_after_count = 0, pt_body = [],
      pt_rows = 0, pt_encoded = 0, pt_range_count = 0, pt_inline_changes = []\<rparr>"

definition part_finish :: "part \<Rightarrow> diff_fragment" where
  "part_finish p =
     (let before_start = (if pt_before_count p = 0 then pt_before p - 1 else pt_before p);
          after_start = (if pt_after_count p = 0 then pt_after p - 1 else pt_after p) in
      \<lparr>df_patch = lit ''--- before'' @ [NL] @ lit ''+++ after'' @ [NL] @ lit ''@@ -'' @
         nat_str before_start @ [44] @ nat_str (pt_before_count p) @ lit '' +'' @
         nat_str after_start @ [44] @ nat_str (pt_after_count p) @ lit '' @@'' @ [NL] @ pt_body p,
       df_before_start = before_start, df_before_count = pt_before_count p,
       df_after_start = after_start, df_after_count = pt_after_count p,
       df_inline_changes = pt_inline_changes p\<rparr>)"

type_synonym annotation_map = "((diff_side \<times> nat) \<times> scalar_range list) list"

fun check_ranges :: "nat \<Rightarrow> nat \<Rightarrow> scalar_range list \<Rightarrow> bool" where
  "check_ranges scalar_count end [] = True"
| "check_ranges scalar_count end ((start, stop) # rs) =
     (if start < end \<or> stop \<le> start \<or> scalar_count < stop then False
      else check_ranges scalar_count stop rs)"

fun collect_annotations ::
    "rstr list \<Rightarrow> rstr list \<Rightarrow> source_line_highlights list \<Rightarrow> nat \<Rightarrow> annotation_map
      \<Rightarrow> (annotation_map, text_diff_error) result" where
  "collect_annotations old_lines new_lines [] total_ranges ann = Ok ann"
| "collect_annotations old_lines new_lines (c # cs) total_ranges ann =
     and_then (ok_or (checked_add total_ranges (length (sh_ranges c))) ResourceLimit) (\<lambda>total_ranges.
       if MAX_INLINE_RANGES < total_ranges \<or> MAX_PAGE_INLINE_RANGES < length (sh_ranges c)
       then Err ResourceLimit
       else
         let source = (case sh_side c of SideBefore \<Rightarrow> old_lines | SideAfter \<Rightarrow> new_lines) in
         and_then (ok_or (get_at source (sh_line_index c)) Internal) (\<lambda>line.
           if \<not> check_ranges (length line) 0 (sh_ranges c) then Err Internal
           else if map_of ann (sh_side c, sh_line_index c) \<noteq> None then Err Internal
           else collect_annotations old_lines new_lines cs total_ranges
                  (ann @ [((sh_side c, sh_line_index c), sh_ranges c)])))"

record pager =
  pg_pages :: "diff_fragment list list"
  pg_page :: "diff_fragment list"
  pg_rows :: nat
  pg_bytes :: nat
  pg_ranges :: nat

definition pager_finish ::
    "(diff_fragment \<Rightarrow> nat option) \<Rightarrow> part \<Rightarrow> pager \<Rightarrow> (pager, text_diff_error) result" where
  "pager_finish json_fragment p g =
     (if pt_rows p = 0 then Err Internal
      else
        let rows = pt_rows p; ranges = pt_range_count p; fragment = part_finish p in
        and_then (ok_or (json_fragment fragment) Internal) (\<lambda>bytes.
          if PAGE_BYTES < bytes \<or> MAX_PAGE_INLINE_RANGES < ranges then Err ResourceLimit
          else
            let g = (if pg_page g \<noteq> [] \<and>
                        (400 < pg_rows g + rows \<or> PAGE_BYTES < pg_bytes g + bytes \<or>
                         MAX_PAGE_INLINE_RANGES < pg_ranges g + ranges)
                     then \<lparr>pg_pages = pg_pages g @ [pg_page g], pg_page = [], pg_rows = 0,
                           pg_bytes = 0, pg_ranges = 0\<rparr>
                     else g) in
            Ok (g\<lparr>pg_rows := pg_rows g + rows, pg_bytes := pg_bytes g + bytes,
                  pg_ranges := pg_ranges g + ranges, pg_page := pg_page g @ [fragment]\<rparr>)))"

record paging_state =
  ps_lines :: "rstr list"
  ps_pager :: pager
  ps_part :: "part option"
  ps_before :: nat
  ps_after :: nat
  ps_old_remaining :: nat
  ps_new_remaining :: nat
  ps_old_cursor :: nat
  ps_new_cursor :: nat
  ps_additions :: nat
  ps_deletions :: nat
  ps_annotations :: annotation_map
  ps_saw_hunk :: bool
  ps_hunk_changed :: bool

definition hunk_range :: "rstr option \<Rightarrow> rchar \<Rightarrow> (nat \<times> nat, text_diff_error) result" where
  "hunk_range token prefix =
     and_then (ok_or (Option.bind token (strip_prefix [prefix])) Internal) (\<lambda>token.
       let (start, count) = (case split_once [44] token of None \<Rightarrow> (token, lit ''1'') | Some p \<Rightarrow> p) in
       and_then (ok_or (parse_usize start) Internal) (\<lambda>start.
       and_then (ok_or (parse_usize count) Internal) (\<lambda>count.
         if MAX_LINES + 1 < start \<or> MAX_LINES < count then Err Internal else Ok (start, count))))"

definition serialized_highlight_size :: "scalar_range list \<Rightarrow> nat" where
  "serialized_highlight_size ranges = 64 + length ranges * 24"

text \<open>A line that starts a hunk.\<close>

definition change_header :: "rstr \<Rightarrow> ((nat \<times> nat) \<times> (nat \<times> nat), text_diff_error) result" where
  "change_header line =
     (let tokens = split_ascii_whitespace line in
      if get_at tokens 0 \<noteq> Some (lit ''@@'') then Err Internal
      else
        and_then (hunk_range (get_at tokens 1) 45) (\<lambda>old.
        and_then (hunk_range (get_at tokens 2) 43) (\<lambda>new.
          if get_at tokens 3 \<noteq> Some (lit ''@@'') \<or> get_at tokens 4 \<noteq> None then Err Internal
          else Ok (old, new))))"

definition header_step ::
    "(diff_fragment \<Rightarrow> nat option) \<Rightarrow> rstr list \<Rightarrow> rstr list \<Rightarrow> rstr \<Rightarrow> paging_state
      \<Rightarrow> (paging_state, text_diff_error) result" where
  "header_step json_fragment old_lines new_lines line st =
     (if (ps_saw_hunk st \<and> \<not> ps_hunk_changed st) \<or> ps_old_remaining st \<noteq> 0 \<or> ps_new_remaining st \<noteq> 0
      then Err Internal
      else
        and_then (case ps_part st of
                    None \<Rightarrow> Ok (ps_pager st)
                  | Some p \<Rightarrow> pager_finish json_fragment p (ps_pager st)) (\<lambda>g.
        and_then (change_header line) (\<lambda>((old, old_count), (new, new_count)).
          let before = old + (if old_count = 0 then 1 else 0);
              after = new + (if new_count = 0 then 1 else 0) in
          and_then (ok_or (checked_sub before 1) Internal) (\<lambda>old_offset.
          and_then (ok_or (checked_sub after 1) Internal) (\<lambda>new_offset.
          and_then (ok_or (get_range old_lines (ps_old_cursor st) old_offset) Internal) (\<lambda>old_gap.
          and_then (ok_or (get_range new_lines (ps_new_cursor st) new_offset) Internal) (\<lambda>new_gap.
            if old_gap \<noteq> new_gap then Err Internal
            else Ok (st\<lparr>ps_pager := g, ps_part := Some (part_new before after),
                        ps_before := before, ps_after := after,
                        ps_old_remaining := old_count, ps_new_remaining := new_count,
                        ps_old_cursor := old_offset, ps_new_cursor := new_offset,
                        ps_saw_hunk := True, ps_hunk_changed := False\<rparr>))))))))"

text \<open>The annotation a changed row takes from the pending ones.\<close>

definition take_annotation ::
    "rchar \<Rightarrow> nat \<Rightarrow> nat \<Rightarrow> annotation_map
      \<Rightarrow> (scalar_range list option \<times> annotation_map, text_diff_error) result" where
  "take_annotation prefix old_cursor new_cursor ann =
     (if prefix = 45 \<or> prefix = 43 then
        let key = (if prefix = 45 then (SideBefore, old_cursor) else (SideAfter, new_cursor)) in
        and_then (ok_or (map_of ann key) Internal) (\<lambda>ranges. Ok (Some ranges, AList.delete key ann))
      else Ok (None, ann))"

text \<open>The part a row goes to: the open one, or a fresh one when the open one is full.\<close>

definition part_for_row ::
    "(diff_fragment \<Rightarrow> nat option) \<Rightarrow> nat \<Rightarrow> nat \<Rightarrow> paging_state \<Rightarrow> part
      \<Rightarrow> (part \<times> pager, text_diff_error) result" where
  "part_for_row json_fragment encoded range_count st p =
     (if 400 \<le> pt_rows p \<or> PAGE_BYTES < pt_encoded p + encoded + 1024
         \<or> MAX_PAGE_INLINE_RANGES < pt_range_count p + range_count
      then and_then (pager_finish json_fragment p (ps_pager st)) (\<lambda>g.
             Ok (part_new (ps_before st) (ps_after st), g))
      else Ok (p, ps_pager st))"

text \<open>The row's text: with a marker behind it, its line feed belongs to the patch only.\<close>

definition source_line :: "bool \<Rightarrow> rstr \<Rightarrow> rstr" where
  "source_line no_newline line = (if no_newline then butlast (tl line) else tl line)"

definition row_encoded :: "nat \<Rightarrow> scalar_range list option \<Rightarrow> bool \<Rightarrow> nat" where
  "row_encoded line_bytes ranges no_newline =
     line_bytes + (case ranges of None \<Rightarrow> 0 | Some rs \<Rightarrow> serialized_highlight_size rs)
       + (if no_newline then 40 else 0)"

definition range_count :: "scalar_range list option \<Rightarrow> nat" where
  "range_count ranges = (case ranges of None \<Rightarrow> 0 | Some rs \<Rightarrow> length rs)"

definition part_add_row ::
    "rchar \<Rightarrow> rstr \<Rightarrow> bool \<Rightarrow> scalar_range list option \<Rightarrow> nat \<Rightarrow> part \<Rightarrow> part" where
  "part_add_row prefix line no_newline ranges encoded current = current\<lparr>
     pt_inline_changes := pt_inline_changes current @
       (case ranges of None \<Rightarrow> []
        | Some rs \<Rightarrow> [\<lparr>ic_row_index = pt_rows current mod 2 ^ 32, ic_ranges = rs\<rparr>]),
     pt_before_count := pt_before_count current + (if prefix \<noteq> 43 then 1 else 0),
     pt_after_count := pt_after_count current + (if prefix \<noteq> 45 then 1 else 0),
     pt_body := pt_body current @ line @ (if no_newline then MARKER else []),
     pt_rows := pt_rows current + 1,
     pt_encoded := pt_encoded current + encoded,
     pt_range_count := pt_range_count current + range_count ranges\<rparr>"

definition state_add_row ::
    "rchar \<Rightarrow> rstr list \<Rightarrow> part \<Rightarrow> pager \<Rightarrow> annotation_map \<Rightarrow> nat \<Rightarrow> nat \<Rightarrow> paging_state \<Rightarrow> paging_state" where
  "state_add_row prefix rest p g annotations old_remaining new_remaining st = st\<lparr>
     ps_lines := rest, ps_pager := g, ps_part := Some p,
     ps_before := ps_before st + (if prefix \<noteq> 43 then 1 else 0),
     ps_after := ps_after st + (if prefix \<noteq> 45 then 1 else 0),
     ps_old_remaining := old_remaining, ps_new_remaining := new_remaining,
     ps_old_cursor := ps_old_cursor st + (if prefix \<noteq> 43 then 1 else 0),
     ps_new_cursor := ps_new_cursor st + (if prefix \<noteq> 45 then 1 else 0),
     ps_additions := ps_additions st + (if prefix = 43 then 1 else 0),
     ps_deletions := ps_deletions st + (if prefix = 45 then 1 else 0),
     ps_annotations := annotations,
     ps_hunk_changed := (ps_hunk_changed st \<or> prefix \<noteq> 32)\<rparr>"

text \<open>A row that matches the originals, once its marker is recognised.\<close>

definition accept_row ::
    "(diff_fragment \<Rightarrow> nat option) \<Rightarrow> (rstr \<Rightarrow> nat option) \<Rightarrow> rchar \<Rightarrow> rstr \<Rightarrow> bool \<Rightarrow> rstr list
      \<Rightarrow> part \<Rightarrow> paging_state \<Rightarrow> (paging_state, text_diff_error) result" where
  "accept_row json_fragment json_line prefix line no_newline rest open_part st =
     and_then (take_annotation prefix (ps_old_cursor st) (ps_new_cursor st) (ps_annotations st))
       (\<lambda>(ranges, annotations).
       and_then (ok_or (json_line line) Internal) (\<lambda>line_bytes.
       and_then (part_for_row json_fragment (row_encoded line_bytes ranges no_newline)
           (range_count ranges) st open_part) (\<lambda>(current, g).
       and_then (if prefix \<noteq> 43 then ok_or (checked_sub (ps_old_remaining st) 1) Internal
                 else Ok (ps_old_remaining st)) (\<lambda>old_remaining.
       and_then (if prefix \<noteq> 45 then ok_or (checked_sub (ps_new_remaining st) 1) Internal
                 else Ok (ps_new_remaining st)) (\<lambda>new_remaining.
         Ok (state_add_row prefix rest
               (part_add_row prefix line no_newline ranges
                  (row_encoded line_bytes ranges no_newline) current)
               g annotations old_remaining new_remaining st))))))"

definition change_row_step ::
    "(diff_fragment \<Rightarrow> nat option) \<Rightarrow> (rstr \<Rightarrow> nat option) \<Rightarrow> rstr list \<Rightarrow> rstr list \<Rightarrow> rstr
      \<Rightarrow> paging_state \<Rightarrow> (paging_state, text_diff_error) result" where
  "change_row_step json_fragment json_line old_lines new_lines line st =
     and_then (ok_or (ps_part st) Internal) (\<lambda>open_part.
     and_then (ok_or (get_at line 0) Internal) (\<lambda>prefix.
       if prefix \<notin> {32, 43, 45} \<or> \<not> ends_with NL line then Err Internal
       else
         let no_newline = (get_at (ps_lines st) 0 = Some MARKER);
             source = source_line no_newline line;
             rest = (if no_newline then tl (ps_lines st) else ps_lines st) in
         if prefix \<noteq> 43 \<and> get_at old_lines (ps_old_cursor st) \<noteq> Some source then Err Internal
         else if prefix \<noteq> 45 \<and> get_at new_lines (ps_new_cursor st) \<noteq> Some source then Err Internal
         else accept_row json_fragment json_line prefix line no_newline rest open_part st))"

definition change_step ::
    "(diff_fragment \<Rightarrow> nat option) \<Rightarrow> (rstr \<Rightarrow> nat option) \<Rightarrow> rstr list \<Rightarrow> rstr list \<Rightarrow> rstr
      \<Rightarrow> paging_state \<Rightarrow> (paging_state, text_diff_error) result" where
  "change_step json_fragment json_line old_lines new_lines line st =
     (if starts_with line (lit ''@@ '')
      then header_step json_fragment old_lines new_lines line st
      else change_row_step json_fragment json_line old_lines new_lines line st)"

lemma accept_row_lines:
  "accept_row jf jl prefix line nn rest p st = Ok st' \<Longrightarrow> ps_lines st' = rest"
  by (auto simp: accept_row_def result_simps state_add_row_def)

lemma change_row_step_shorter:
  "change_row_step jf jl old new line st = Ok st' \<Longrightarrow> length (ps_lines st') \<le> length (ps_lines st)"
  by (auto simp: change_row_step_def result_simps Let_def dest!: accept_row_lines split: if_splits)

lemma header_step_lines: "header_step jf old new line st = Ok st' \<Longrightarrow> ps_lines st' = ps_lines st"
  by (auto simp: header_step_def result_simps Let_def)

lemma change_step_shorter:
  "change_step jf jl old new line st = Ok st' \<Longrightarrow> length (ps_lines st') \<le> length (ps_lines st)"
  by (auto simp: change_step_def dest: change_row_step_shorter header_step_lines split: if_splits)

function change_loop ::
    "(diff_fragment \<Rightarrow> nat option) \<Rightarrow> (rstr \<Rightarrow> nat option) \<Rightarrow> rstr list \<Rightarrow> rstr list
      \<Rightarrow> paging_state \<Rightarrow> (paging_state, text_diff_error) result" where
  "change_loop json_fragment json_line old_lines new_lines st =
     (case ps_lines st of
        [] \<Rightarrow> Ok st
      | line # rest \<Rightarrow>
          and_then (change_step json_fragment json_line old_lines new_lines line (st\<lparr>ps_lines := rest\<rparr>))
            (\<lambda>st'. change_loop json_fragment json_line old_lines new_lines st'))"
  by pat_completeness auto
termination
  by (relation "measure (\<lambda>(_, _, _, _, st). length (ps_lines st))")
     (auto dest!: change_step_shorter)

declare change_loop.simps [simp del]

definition finish_changes ::
    "(diff_fragment \<Rightarrow> nat option) \<Rightarrow> rstr list \<Rightarrow> rstr list \<Rightarrow> paging_state
      \<Rightarrow> (diff_fragment list list \<times> nat \<times> nat, text_diff_error) result" where
  "finish_changes json_fragment old_lines new_lines st =
     (if \<not> ps_saw_hunk st \<or> \<not> ps_hunk_changed st \<or> ps_old_remaining st \<noteq> 0
         \<or> ps_new_remaining st \<noteq> 0 \<or> ps_annotations st \<noteq> []
      then Err Internal
      else
        and_then (ok_or (get_from old_lines (ps_old_cursor st)) Internal) (\<lambda>old_rest.
        and_then (ok_or (get_from new_lines (ps_new_cursor st)) Internal) (\<lambda>new_rest.
          if old_rest \<noteq> new_rest then Err Internal
          else
            and_then (case ps_part st of
                        None \<Rightarrow> Ok (ps_pager st)
                      | Some p \<Rightarrow> pager_finish json_fragment p (ps_pager st)) (\<lambda>g.
              Ok (if pg_page g \<noteq> [] then pg_pages g @ [pg_page g] else pg_pages g,
                  ps_additions st, ps_deletions st)))))"

definition changes ::
    "(diff_fragment \<Rightarrow> nat option) \<Rightarrow> (rstr \<Rightarrow> nat option) \<Rightarrow> computed_diff \<Rightarrow> rstr \<Rightarrow> rstr
      \<Rightarrow> (diff_fragment list list \<times> nat \<times> nat, text_diff_error) result" where
  "changes json_fragment json_line computed old_text new_text =
     (if old_text = new_text then
        if cd_patch computed = [] \<and> cd_inline_changes computed = [] then Ok ([], 0, 0)
        else Err Internal
      else
        let old_lines = split_inclusive old_text; new_lines = split_inclusive new_text in
        if MAX_LINES * 2 < length (cd_inline_changes computed) then Err ResourceLimit
        else
          and_then (collect_annotations old_lines new_lines (cd_inline_changes computed) 0 [])
            (\<lambda>annotations.
            let lines = split_inclusive (cd_patch computed) in
            if get_at lines 0 \<noteq> Some (lit ''--- before'' @ [NL])
               \<or> get_at lines 1 \<noteq> Some (lit ''+++ after'' @ [NL])
            then Err Internal
            else
              and_then (change_loop json_fragment json_line old_lines new_lines
                \<lparr>ps_lines = drop 2 lines,
                 ps_pager = \<lparr>pg_pages = [], pg_page = [], pg_rows = 0, pg_bytes = 0, pg_ranges = 0\<rparr>,
                 ps_part = None, ps_before = 0, ps_after = 0,
                 ps_old_remaining = 0, ps_new_remaining = 0, ps_old_cursor = 0, ps_new_cursor = 0,
                 ps_additions = 0, ps_deletions = 0, ps_annotations = annotations,
                 ps_saw_hunk = False, ps_hunk_changed = False\<rparr>)
                (\<lambda>st. finish_changes json_fragment old_lines new_lines st)))"

section \<open>Chunks\<close>

lemma chunk_list_spec:
  "concat (chunk_list t) = t \<and> (\<forall>c \<in> set (chunk_list t). c \<noteq> [] \<and> str_len c \<le> 32 * 1024)"
proof (induction t rule: chunk_list.induct)
  case (1 t)
  show ?case
  proof (cases "t = []")
    case True
    then show ?thesis by (simp add: chunk_list.simps)
  next
    case False
    have "is_char_boundary t (chunk_end t)" by (simp add: chunk_end_def)
    then obtain chunk rest where cr: "split_bytes t (chunk_end t) = Some (chunk, rest)"
      unfolding is_char_boundary_def by fastforce
    then have t: "t = chunk @ rest" and len: "str_len chunk = chunk_end t"
      by (auto simp: split_bytes_Some_iff)
    have le: "chunk_end t \<le> 32 * 1024"
      unfolding chunk_end_def by (rule order.trans [OF floor_boundary_le]) simp
    have "chunk \<noteq> []" using chunk_end_pos [OF False] len by auto
    moreover have "chunk_list t = chunk # chunk_list rest"
      using False cr by (simp add: chunk_list.simps [of t])
    ultimately show ?thesis using "1.IH" [OF False cr refl] t len le by auto
  qed
qed

section \<open>What an accepted patch does\<close>

text \<open>The rows read so far, replayed against both originals: from hunks to reached positions.\<close>

inductive applied ::
    "rstr list \<Rightarrow> rstr list \<Rightarrow> patch_hunk list \<Rightarrow> nat \<Rightarrow> nat \<Rightarrow> bool"
  for old new where
  start: "applied old new [] 0 0"
| hunk: "applied old new hs oc nc \<Longrightarrow> oc \<le> os \<Longrightarrow> os \<le> length old \<Longrightarrow> nc \<le> ns \<Longrightarrow> ns \<le> length new \<Longrightarrow>
     take (os - oc) (drop oc old) = take (ns - nc) (drop nc new) \<Longrightarrow>
     applied old new (hs @ [\<lparr>old_start = os, hunk_rows = []\<rparr>]) os ns"
| row: "applied old new (hs @ [\<lparr>old_start = os, hunk_rows = rows\<rparr>]) oc nc \<Longrightarrow>
     (row_prefix r \<noteq> 43 \<longrightarrow> get_at old oc = Some (row_text r)) \<Longrightarrow>
     (row_prefix r \<noteq> 45 \<longrightarrow> get_at new nc = Some (row_text r)) \<Longrightarrow>
     applied old new (hs @ [\<lparr>old_start = os, hunk_rows = rows @ [r]\<rparr>])
       (oc + (if row_prefix r \<noteq> 43 then 1 else 0)) (nc + (if row_prefix r \<noteq> 45 then 1 else 0))"

definition splices_to :: "rstr list \<Rightarrow> rstr list \<Rightarrow> patch_hunk list \<Rightarrow> nat \<Rightarrow> nat \<Rightarrow> bool" where
  "splices_to old new hs oc nc \<longleftrightarrow>
     (\<forall>rest out. splice_lines old oc rest = Some out \<longrightarrow>
        splice_lines old 0 (hs @ rest) = Some (take nc new @ out))"

definition hunk_at :: "rstr list \<Rightarrow> rstr list \<Rightarrow> patch_hunk \<Rightarrow> nat \<Rightarrow> nat \<Rightarrow> nat \<Rightarrow> nat \<Rightarrow> bool" where
  "hunk_at old new h oc nc oc' nc' \<longleftrightarrow> (\<exists>ns.
     oc \<le> old_start h \<and> old_start h \<le> oc' \<and> oc' \<le> length old \<and>
     nc \<le> ns \<and> ns \<le> nc' \<and> nc' \<le> length new \<and>
     take (old_start h - oc) (drop oc old) = take (ns - nc) (drop nc new) \<and>
     old_side (hunk_rows h) = take (oc' - old_start h) (drop (old_start h) old) \<and>
     new_side (hunk_rows h) = take (nc' - ns) (drop ns new))"

lemma splices_to_hunk:
  assumes "splices_to old new hs oc nc" "hunk_at old new h oc nc oc' nc'"
  shows "splices_to old new (hs @ [h]) oc' nc'"
  unfolding splices_to_def
proof (intro allI impI)
  fix rest out
  assume out: "splice_lines old oc' rest = Some out"
  from assms(2) obtain ns where
    p: "oc \<le> old_start h" "old_start h \<le> oc'" "oc' \<le> length old" "nc \<le> ns" "ns \<le> nc'" "nc' \<le> length new" and
    gap: "take (old_start h - oc) (drop oc old) = take (ns - nc) (drop nc new)" and
    sides: "old_side (hunk_rows h) = take (oc' - old_start h) (drop (old_start h) old)"
      "new_side (hunk_rows h) = take (nc' - ns) (drop ns new)"
    by (auto simp: hunk_at_def)
  have "splice_lines old oc (h # rest) =
      Some (take (ns - nc) (drop nc new) @ take (nc' - ns) (drop ns new) @ out)"
    using p gap sides out by (simp add: Let_def)
  with assms(1) have "splice_lines old 0 (hs @ h # rest) =
      Some (take nc new @ take (ns - nc) (drop nc new) @ take (nc' - ns) (drop ns new) @ out)"
    by (simp add: splices_to_def)
  moreover have "take nc new @ take (ns - nc) (drop nc new) @ take (nc' - ns) (drop ns new) = take nc' new"
    using take_drop_join [of nc ns nc' new] take_drop_join [of 0 nc nc' new] p by simp
  ultimately show "splice_lines old 0 ((hs @ [h]) @ rest) = Some (take nc' new @ out)"
    by (metis append.assoc append_Cons append_Nil)
qed

lemma take_snoc_drop:
  "os \<le> oc \<Longrightarrow> get_at xs oc = Some x \<Longrightarrow>
     take (oc - os) (drop os xs) @ [x] = take (Suc oc - os) (drop os xs)"
  by (auto simp: get_at_Some Suc_diff_le take_Suc_conv_app_nth)

lemma applied_cases:
  "applied old new hs oc nc \<Longrightarrow> oc \<le> length old \<and> nc \<le> length new \<and>
     (hs = [] \<and> oc = 0 \<and> nc = 0 \<or>
      (\<exists>hs0 h oc0 nc0. hs = hs0 @ [h] \<and> splices_to old new hs0 oc0 nc0 \<and> hunk_at old new h oc0 nc0 oc nc))"
proof (induction rule: applied.induct)
  case (hunk hs oc nc os ns)
  have "splices_to old new hs oc nc"
    using hunk.IH splices_to_hunk by (auto simp: splices_to_def)
  moreover have "hunk_at old new \<lparr>old_start = os, hunk_rows = []\<rparr> oc nc os ns"
    using hunk.hyps by (auto simp: hunk_at_def)
  ultimately show ?case using hunk.hyps by auto
next
  case (row hs os rows oc nc r)
  let ?oc = "oc + (if row_prefix r \<noteq> 43 then 1 else 0)" and ?nc = "nc + (if row_prefix r \<noteq> 45 then 1 else 0)"
  from row.IH obtain oc0 nc0 ns where sp: "splices_to old new hs oc0 nc0" and
    p: "oc0 \<le> os" "os \<le> oc" "oc \<le> length old" "nc0 \<le> ns" "ns \<le> nc" "nc \<le> length new"
      "take (os - oc0) (drop oc0 old) = take (ns - nc0) (drop nc0 new)" and
    sides: "old_side rows = take (oc - os) (drop os old)" "new_side rows = take (nc - ns) (drop ns new)"
    by (auto simp: hunk_at_def)
  have le: "?oc \<le> length old" "?nc \<le> length new"
    using row.hyps(2,3) p(3,6) by (auto simp: get_at_Some)
  have "old_side (rows @ [r]) = take (?oc - os) (drop os old)"
    using row.hyps(2) sides(1) take_snoc_drop [OF p(2), of old "row_text r"] by auto
  moreover have "new_side (rows @ [r]) = take (?nc - ns) (drop ns new)"
    using row.hyps(3) sides(2) take_snoc_drop [OF p(5), of new "row_text r"] by auto
  ultimately have "hunk_at old new \<lparr>old_start = os, hunk_rows = rows @ [r]\<rparr> oc0 nc0 ?oc ?nc"
    using p le by (auto simp: hunk_at_def intro!: exI [of _ ns])
  with sp le show ?case by blast
qed (simp add: splices_to_def)

lemma applied_splices:
  assumes "applied old new hs oc nc"
  shows "splices_to old new hs oc nc" "oc \<le> length old" "nc \<le> length new"
  using applied_cases [OF assms] splices_to_hunk by (auto simp: splices_to_def)

section \<open>What is published\<close>

text \<open>The highlights a run of rows must carry, from the annotations of both originals.\<close>

fun expected_changes ::
    "(diff_side \<times> nat \<rightharpoonup> scalar_range list) \<Rightarrow> nat \<Rightarrow> nat \<Rightarrow> nat \<Rightarrow> patch_row list \<Rightarrow> inline_change list" where
  "expected_changes ann i oc nc [] = []"
| "expected_changes ann i oc nc (r # rows) =
     (if row_prefix r = 45 then [\<lparr>ic_row_index = i, ic_ranges = the (ann (SideBefore, oc))\<rparr>]
      else if row_prefix r = 43 then [\<lparr>ic_row_index = i, ic_ranges = the (ann (SideAfter, nc))\<rparr>]
      else []) @
     expected_changes ann (i + 1) (oc + (if row_prefix r \<noteq> 43 then 1 else 0))
       (nc + (if row_prefix r \<noteq> 45 then 1 else 0)) rows"

lemma expected_changes_append:
  "expected_changes ann i oc nc (xs @ ys) = expected_changes ann i oc nc xs @
     expected_changes ann (i + length xs) (oc + length (old_side xs)) (nc + length (new_side xs)) ys"
  by (induction xs arbitrary: i oc nc) auto

definition frag_before :: "diff_fragment \<Rightarrow> nat" where
  "frag_before f = (if df_before_count f = 0 then df_before_start f else df_before_start f - 1)"

definition frag_after :: "diff_fragment \<Rightarrow> nat" where
  "frag_after f = (if df_after_count f = 0 then df_after_start f else df_after_start f - 1)"

definition fragment_text :: "diff_fragment \<Rightarrow> patch_row list \<Rightarrow> rstr" where
  "fragment_text f rows = lit ''--- before'' @ [NL] @ lit ''+++ after'' @ [NL] @ lit ''@@ -'' @
     nat_str (df_before_start f) @ [44] @ nat_str (df_before_count f) @ lit '' +'' @
     nat_str (df_after_start f) @ [44] @ nat_str (df_after_count f) @ lit '' @@'' @ [NL] @
     concat (concat (map row_lines rows))"

definition range_sum :: "inline_change list \<Rightarrow> nat" where
  "range_sum cs = sum_list (map (\<lambda>c. length (ic_ranges c)) cs)"

text \<open>A fragment quotes both originals where it says, and highlights exactly its changed rows.\<close>

definition fragment_ok ::
    "(diff_side \<times> nat \<rightharpoonup> scalar_range list) \<Rightarrow> rstr list \<Rightarrow> rstr list \<Rightarrow> diff_fragment \<Rightarrow> patch_row list \<Rightarrow> bool" where
  "fragment_ok ann old new f rows \<longleftrightarrow>
     rows \<noteq> [] \<and> df_patch f = fragment_text f rows \<and>
     df_before_count f = length (old_side rows) \<and> df_after_count f = length (new_side rows) \<and>
     take (df_before_count f) (drop (frag_before f) old) = old_side rows \<and>
     take (df_after_count f) (drop (frag_after f) new) = new_side rows \<and>
     df_inline_changes f = expected_changes ann 0 (frag_before f) (frag_after f) rows"

definition page_rows :: "(diff_fragment \<times> patch_row list) list \<Rightarrow> nat" where
  "page_rows pg = sum_list (map (\<lambda>(f, rows). length rows) pg)"

definition page_size :: "(diff_fragment \<Rightarrow> nat option) \<Rightarrow> (diff_fragment \<times> patch_row list) list \<Rightarrow> nat" where
  "page_size jf pg = sum_list (map (\<lambda>(f, rows). the (jf f)) pg)"

definition page_ranges :: "(diff_fragment \<times> patch_row list) list \<Rightarrow> nat" where
  "page_ranges pg = sum_list (map (\<lambda>(f, rows). range_sum (df_inline_changes f)) pg)"

definition page_ok :: "(diff_fragment \<Rightarrow> nat option) \<Rightarrow> (diff_side \<times> nat \<rightharpoonup> scalar_range list)
    \<Rightarrow> rstr list \<Rightarrow> rstr list \<Rightarrow> (diff_fragment \<times> patch_row list) list \<Rightarrow> bool" where
  "page_ok jf ann old new pg \<longleftrightarrow>
     list_all (\<lambda>(f, rows). fragment_ok ann old new f rows) pg \<and>
     page_rows pg \<le> 400 \<and> page_size jf pg \<le> PAGE_BYTES \<and> page_ranges pg \<le> MAX_PAGE_INLINE_RANGES"

lemmas page_sums = page_rows_def page_size_def page_ranges_def

definition pager_ok where
  "pager_ok jf ann old new g pgs pg \<longleftrightarrow>
     pg_pages g = map (map fst) pgs \<and> pg_page g = map fst pg \<and>
     list_all (\<lambda>pg. pg \<noteq> [] \<and> page_ok jf ann old new pg) pgs \<and> page_ok jf ann old new pg \<and>
     pg_rows g = page_rows pg \<and> pg_bytes g = page_size jf pg \<and> pg_ranges g = page_ranges pg"

definition part_ok where
  "part_ok ann old new p rows \<longleftrightarrow>
     1 \<le> pt_before p \<and> 1 \<le> pt_after p \<and> pt_rows p = length rows \<and> length rows \<le> 400 \<and>
     pt_before_count p = length (old_side rows) \<and> pt_after_count p = length (new_side rows) \<and>
     take (pt_before_count p) (drop (pt_before p - 1) old) = old_side rows \<and>
     take (pt_after_count p) (drop (pt_after p - 1) new) = new_side rows \<and>
     pt_body p = concat (concat (map row_lines rows)) \<and>
     pt_inline_changes p = expected_changes ann 0 (pt_before p - 1) (pt_after p - 1) rows \<and>
     pt_range_count p = range_sum (pt_inline_changes p)"

lemma part_finish_ok:
  "part_ok ann old new p rows \<Longrightarrow> rows \<noteq> [] \<Longrightarrow> fragment_ok ann old new (part_finish p) rows"
  by (auto simp: part_ok_def fragment_ok_def part_finish_def Let_def frag_before_def frag_after_def
      fragment_text_def)

lemma part_finish_changes [simp]: "df_inline_changes (part_finish p) = pt_inline_changes p"
  by (simp add: part_finish_def Let_def)

lemma page_ok_single:
  assumes "fragment_ok ann old new f rows" "length rows \<le> 400" "jf f = Some n" "n \<le> PAGE_BYTES"
    "range_sum (df_inline_changes f) \<le> MAX_PAGE_INLINE_RANGES"
  shows "page_ok jf ann old new [(f, rows)]"
  using assms by (simp add: page_ok_def page_sums)

lemma pager_finish_ok:
  assumes "pager_finish jf p g = Ok g'" "pager_ok jf ann old new g pgs pg" "part_ok ann old new p rows"
  shows "\<exists>pgs' pg'. pager_ok jf ann old new g' pgs' pg' \<and> pg' \<noteq> [] \<and>
    concat pgs' @ pg' = (concat pgs @ pg) @ [(part_finish p, rows)]"
proof -
  let ?f = "part_finish p"
  from assms(1) obtain n where n: "pt_rows p \<noteq> 0" "jf ?f = Some n" "n \<le> PAGE_BYTES"
      "pt_range_count p \<le> MAX_PAGE_INLINE_RANGES"
    by (auto simp: pager_finish_def result_simps Let_def not_less split: if_splits)
  define full where "full \<longleftrightarrow> pg_page g \<noteq> [] \<and>
    (400 < pg_rows g + pt_rows p \<or> PAGE_BYTES < pg_bytes g + n \<or>
     MAX_PAGE_INLINE_RANGES < pg_ranges g + pt_range_count p)"
  have rows: "rows \<noteq> []" "length rows = pt_rows p" "length rows \<le> 400"
      "range_sum (df_inline_changes ?f) = pt_range_count p"
    using assms(3) n by (auto simp: part_ok_def)
  have fo: "fragment_ok ann old new ?f rows" by (rule part_finish_ok [OF assms(3) rows(1)])
  have single: "page_ok jf ann old new [(?f, rows)]"
    by (rule page_ok_single [OF fo rows(3), where n = n]) (use rows n in simp_all)
  have g': "g' = (if full then \<lparr>pg_pages = pg_pages g @ [pg_page g], pg_page = [?f], pg_rows = pt_rows p,
        pg_bytes = n, pg_ranges = pt_range_count p\<rparr>
      else g\<lparr>pg_rows := pg_rows g + pt_rows p, pg_bytes := pg_bytes g + n,
        pg_ranges := pg_ranges g + pt_range_count p, pg_page := pg_page g @ [?f]\<rparr>)"
    using assms(1) n by (auto simp: pager_finish_def full_def Let_def split: if_splits)
  show ?thesis
  proof (cases full)
    case True
    then have "pg \<noteq> []" using assms(2) by (auto simp: full_def pager_ok_def)
    with True assms(2) single rows n have
      "pager_ok jf ann old new g' (pgs @ [pg]) [(?f, rows)]"
      by (simp add: g' pager_ok_def page_sums)
    then show ?thesis by (intro exI [of _ "pgs @ [pg]"] exI [of _ "[(?f, rows)]"]) simp
  next
    case False
    have "page_ok jf ann old new (pg @ [(?f, rows)])"
    proof (cases "pg = []")
      case True
      with single show ?thesis by simp
    next
      case ne: False
      with False assms(2) fo rows n show ?thesis
        by (auto simp: full_def pager_ok_def page_ok_def page_sums not_less)
    qed
    with False assms(2) rows n have "pager_ok jf ann old new g' pgs (pg @ [(?f, rows)])"
      by (simp add: g' pager_ok_def page_sums)
    then show ?thesis by (intro exI [of _ pgs] exI [of _ "pg @ [(?f, rows)]"]) simp
  qed
qed

definition row_ranges_ok where
  "row_ranges_ok ann prefix oc nc ranges \<longleftrightarrow>
     (if prefix = 45 then ranges = Some (the (ann (SideBefore, oc)))
      else if prefix = 43 then ranges = Some (the (ann (SideAfter, nc)))
      else ranges = None)"

lemma take_drop_snoc:
  "take n (drop b xs) = seg \<Longrightarrow> length seg = n \<Longrightarrow> get_at xs (b + n) = Some x \<Longrightarrow>
     take (Suc n) (drop b xs) = seg @ [x]"
  by (auto simp: get_at_Some take_Suc_conv_app_nth)

lemma part_add_row_ok:
  assumes "part_ok ann old new p rows" "length rows < 400"
    and "row_prefix r \<noteq> 43 \<longrightarrow> get_at old (pt_before p - 1 + pt_before_count p) = Some (row_text r)"
    and "row_prefix r \<noteq> 45 \<longrightarrow> get_at new (pt_after p - 1 + pt_after_count p) = Some (row_text r)"
    and "row_ranges_ok ann (row_prefix r) (pt_before p - 1 + pt_before_count p)
           (pt_after p - 1 + pt_after_count p) ranges"
    and "line @ (if nn then MARKER else []) = concat (row_lines r)"
  shows "part_ok ann old new (part_add_row (row_prefix r) line nn ranges enc p) (rows @ [r])"
proof -
  let ?q = "part_add_row (row_prefix r) line nn ranges enc p"
  have p: "pt_before_count p = length (old_side rows)" "pt_after_count p = length (new_side rows)"
      "take (length (old_side rows)) (drop (pt_before p - 1) old) = old_side rows"
      "take (length (new_side rows)) (drop (pt_after p - 1) new) = new_side rows"
      "pt_rows p = length rows"
    using assms(1) by (auto simp: part_ok_def)
  have "take (pt_before_count ?q) (drop (pt_before p - 1) old) = old_side (rows @ [r])"
    using p assms(3) take_drop_snoc [OF p(3)] by (auto simp: part_add_row_def)
  moreover have "take (pt_after_count ?q) (drop (pt_after p - 1) new) = new_side (rows @ [r])"
    using p assms(4) take_drop_snoc [OF p(4)] by (auto simp: part_add_row_def)
  moreover have "pt_inline_changes ?q =
      expected_changes ann 0 (pt_before p - 1) (pt_after p - 1) (rows @ [r])"
    using assms(1,2,5) p(1,2,5)
    by (auto simp: expected_changes_append part_add_row_def part_ok_def row_ranges_ok_def)
  moreover have "pt_range_count ?q = range_sum (pt_inline_changes ?q)"
    using assms(1) by (auto simp: part_add_row_def part_ok_def range_sum_def range_count_def split: option.splits)
  moreover have "pt_body ?q = concat (concat (map row_lines (rows @ [r])))"
    using assms(1,6) by (simp add: part_add_row_def part_ok_def)
  ultimately show ?thesis
    using assms(1,2) p by (simp add: part_ok_def part_add_row_def)
qed

definition hunk_changes :: "patch_hunk \<Rightarrow> bool" where
  "hunk_changes h \<longleftrightarrow> list_ex (\<lambda>r. row_prefix r \<noteq> 32) (hunk_rows h)"

definition rows_of :: "patch_hunk list \<Rightarrow> patch_row list" where
  "rows_of hs = concat (map hunk_rows hs)"

definition row_count :: "rchar \<Rightarrow> patch_row list \<Rightarrow> nat" where
  "row_count c rows = length (filter (\<lambda>r. row_prefix r = c) rows)"

lemma rows_of_simps [simp]:
  "rows_of [] = []" "rows_of (hs @ hs') = rows_of hs @ rows_of hs'"
  "rows_of [\<lparr>old_start = os, hunk_rows = rows\<rparr>] = rows"
  by (simp_all add: rows_of_def)

lemma row_count_simps [simp]:
  "row_count c [] = 0" "row_count c (xs @ ys) = row_count c xs + row_count c ys"
  "row_count c [r] = (if row_prefix r = c then 1 else 0)"
  by (simp_all add: row_count_def)

definition annotations_ok where
  "annotations_ok ann amap \<longleftrightarrow>
     distinct (map fst amap) \<and> (\<forall>k v. map_of amap k = Some v \<longrightarrow> ann k = Some v)"

text \<open>The state of the loop after some rows: what is published, open and still to be matched.\<close>

definition paging_inv where
  "paging_inv jf ann n old new st pgs pg prow hs \<longleftrightarrow>
     pager_ok jf ann old new (ps_pager st) pgs pg \<and>
     applied old new hs (ps_old_cursor st) (ps_new_cursor st) \<and>
     concat (map snd (concat pgs @ pg)) @ prow = rows_of hs \<and>
     ps_additions st = row_count 43 (rows_of hs) \<and> ps_deletions st = row_count 45 (rows_of hs) \<and>
     annotations_ok ann (ps_annotations st) \<and>
     length (ps_annotations st) + ps_additions st + ps_deletions st = n \<and>
     list_all line_wf (ps_lines st) \<and>
     (ps_saw_hunk st \<longleftrightarrow> ps_part st \<noteq> None) \<and>
     (ps_saw_hunk st \<longrightarrow> hs \<noteq> [] \<and> ps_hunk_changed st = hunk_changes (last hs)) \<and>
     list_all hunk_changes (butlast hs) \<and>
     (case ps_part st of
        None \<Rightarrow> prow = [] \<and> hs = []
      | Some p \<Rightarrow> part_ok ann old new p prow \<and>
          ps_before st = ps_old_cursor st + 1 \<and> ps_after st = ps_new_cursor st + 1 \<and>
          ps_before st = pt_before p + pt_before_count p \<and> ps_after st = pt_after p + pt_after_count p)"

lemma part_new_ok: "1 \<le> b \<Longrightarrow> 1 \<le> a \<Longrightarrow> part_ok ann old new (part_new b a) []"
  by (simp add: part_ok_def part_new_def range_sum_def)

lemma length_delete_key:
  "distinct (map fst al) \<Longrightarrow> map_of al k = Some v \<Longrightarrow> Suc (length (AList.delete k al)) = length al"
proof (induction al)
  case (Cons x al)
  show ?case
  proof (cases "fst x = k")
    case True
    with Cons.prems(1) have "AList.delete k al = al"
      unfolding AList.delete_eq filter_id_conv by (auto simp: image_iff)
    with True show ?thesis by (cases x) (simp add: AList.delete_eq)
  next
    case False
    with Cons show ?thesis by (cases x) (auto simp: AList.delete_eq)
  qed
qed simp

lemma take_annotation_ok:
  assumes "take_annotation prefix oc nc amap = Ok (ranges, amap')" "annotations_ok ann amap"
    "prefix \<in> {32, 43, 45}"
  shows "annotations_ok ann amap'" "row_ranges_ok ann prefix oc nc ranges"
    "length amap' + (if prefix = 32 then 0 else 1) = length amap"
proof -
  have del: "annotations_ok ann (AList.delete k amap)" for k
    using assms(2) by (auto simp: annotations_ok_def delete_conv map_of_eq_None_iff distinct_delete split: if_splits)
  show "annotations_ok ann amap'"
    using assms(1,2) del by (auto simp: take_annotation_def result_simps Let_def split: if_splits)
  show "row_ranges_ok ann prefix oc nc ranges"
    using assms by (auto simp: take_annotation_def result_simps Let_def row_ranges_ok_def annotations_ok_def split: if_splits)
  show "length amap' + (if prefix = 32 then 0 else 1) = length amap"
    using assms(1,3) length_delete_key [of amap] assms(2)
    by (auto simp: take_annotation_def result_simps Let_def annotations_ok_def split: if_splits)
qed

lemma row_text_lines:
  assumes "line_wf line" "ends_with NL line" "line = prefix # t" "prefix \<noteq> NL"
  shows "line @ (if nn then MARKER else []) =
    concat (row_lines \<lparr>row_prefix = prefix, row_text = source_line nn line\<rparr>)"
proof -
  from assms have t: "line_wf t" "ends_with NL t" using line_wf_body [of prefix t] by auto
  then obtain u where u: "t = u @ [NL]" "NL \<notin> set u"
    by (cases t rule: rev_cases) (auto simp: line_wf_def)
  then have "\<not> ends_with NL u" unfolding ends_with_def using last_in_set by metis
  with u assms(3) show ?thesis by (auto simp: row_lines_def source_line_def)
qed

lemma list_all_last: "xs \<noteq> [] \<Longrightarrow> list_all P xs \<longleftrightarrow> list_all P (butlast xs) \<and> P (last xs)"
  by (cases xs rule: rev_cases) auto

lemma header_step_inv:
  assumes "header_step jf old new line st = Ok st'" "paging_inv jf ann n old new st pgs pg prow hs"
  shows "\<exists>pgs' pg' prow' hs'. paging_inv jf ann n old new st' pgs' pg' prow' hs'"
proof -
  from assms(1) obtain g before after oo nof orem nrem where
    ready: "\<not> (ps_saw_hunk st \<and> \<not> ps_hunk_changed st)" and
    g: "(case ps_part st of None \<Rightarrow> Ok (ps_pager st) | Some p \<Rightarrow> pager_finish jf p (ps_pager st)) = Ok g" and
    off: "before = oo + 1" "after = nof + 1" and
    gap: "ps_old_cursor st \<le> oo" "oo \<le> length old" "ps_new_cursor st \<le> nof" "nof \<le> length new"
      "take (oo - ps_old_cursor st) (drop (ps_old_cursor st) old) =
       take (nof - ps_new_cursor st) (drop (ps_new_cursor st) new)" and
    st': "st' = st\<lparr>ps_pager := g, ps_part := Some (part_new before after),
        ps_before := before, ps_after := after, ps_old_remaining := orem, ps_new_remaining := nrem,
        ps_old_cursor := oo, ps_new_cursor := nof, ps_saw_hunk := True, ps_hunk_changed := False\<rparr>"
  proof -
    from assms(1) obtain hdr g where guard: "\<not> (ps_saw_hunk st \<and> \<not> ps_hunk_changed st)" and
      g: "(case ps_part st of None \<Rightarrow> Ok (ps_pager st) | Some p \<Rightarrow> pager_finish jf p (ps_pager st)) = Ok g" and
      step: "(\<lambda>((old_s, old_count), (new_s, new_count)).
          let before = old_s + (if old_count = 0 then 1 else 0);
              after = new_s + (if new_count = 0 then 1 else 0) in
          and_then (ok_or (checked_sub before 1) Internal) (\<lambda>old_offset.
          and_then (ok_or (checked_sub after 1) Internal) (\<lambda>new_offset.
          and_then (ok_or (get_range old (ps_old_cursor st) old_offset) Internal) (\<lambda>old_gap.
          and_then (ok_or (get_range new (ps_new_cursor st) new_offset) Internal) (\<lambda>new_gap.
            if old_gap \<noteq> new_gap then Err Internal
            else Ok (st\<lparr>ps_pager := g, ps_part := Some (part_new before after),
                        ps_before := before, ps_after := after,
                        ps_old_remaining := old_count, ps_new_remaining := new_count,
                        ps_old_cursor := old_offset, ps_new_cursor := new_offset,
                        ps_saw_hunk := True, ps_hunk_changed := False\<rparr>)))))) hdr = Ok st'"
      unfolding header_step_def if_eq_Ok and_then_eq_Ok by blast
    obtain old_s old_count new_s new_count where hdr: "hdr = ((old_s, old_count), (new_s, new_count))"
      by (metis prod.exhaust)
    define before after where "before = old_s + (if old_count = 0 then 1 else 0)"
      and "after = new_s + (if new_count = 0 then 1 else 0 :: nat)"
    from step [unfolded hdr prod.case before_def [symmetric] after_def [symmetric] Let_def]
    obtain oo nof where "checked_sub before 1 = Some oo" "checked_sub after 1 = Some nof"
      "get_range old (ps_old_cursor st) oo = get_range new (ps_new_cursor st) nof"
      "get_range old (ps_old_cursor st) oo \<noteq> None"
      "st' = st\<lparr>ps_pager := g, ps_part := Some (part_new before after),
        ps_before := before, ps_after := after, ps_old_remaining := old_count,
        ps_new_remaining := new_count,
        ps_old_cursor := oo, ps_new_cursor := nof, ps_saw_hunk := True, ps_hunk_changed := False\<rparr>"
      unfolding if_eq_Ok and_then_eq_Ok ok_or_eq_Ok sum.inject by fastforce
    then show thesis
      by (intro that [OF guard g, of before oo after nof]) (auto simp: get_range_def split: if_splits)
  qed
  note inv = assms(2) [unfolded paging_inv_def]
  obtain pgs' pg' where pg': "pager_ok jf ann old new g pgs' pg'"
      "concat (map snd (concat pgs' @ pg')) = rows_of hs"
  proof (cases "ps_part st")
    case None
    with g inv that [of pgs pg] show thesis by auto
  next
    case (Some p)
    with inv g have "pager_finish jf p (ps_pager st) = Ok g" "part_ok ann old new p prow" by auto
    from pager_finish_ok [OF this(1) conjunct1 [OF inv] this(2)] obtain pgs' pg' where
      ok: "pager_ok jf ann old new g pgs' pg'" "concat pgs' @ pg' = (concat pgs @ pg) @ [(part_finish p, prow)]"
      by blast
    then show thesis using that [OF ok(1)] inv by simp
  qed
  let ?hs = "hs @ [\<lparr>old_start = oo, hunk_rows = []\<rparr>]"
  have "applied old new ?hs oo nof"
    using inv gap by (intro applied.hunk [of _ _ hs "ps_old_cursor st" "ps_new_cursor st"]) auto
  moreover have "list_all hunk_changes hs"
  proof (cases "hs = []")
    case False
    with inv ready have "hunk_changes (last hs)" by (auto split: option.splits)
    with inv False show ?thesis by (simp add: list_all_last)
  qed simp
  ultimately have "paging_inv jf ann n old new st' pgs' pg' [] ?hs"
    using inv pg' part_new_ok [of before after ann old new] off
    by (simp add: paging_inv_def st' hunk_changes_def part_new_def)
  then show ?thesis by blast
qed

lemma part_for_row_ok:
  assumes "part_for_row jf enc k st p = Ok (cur, g)" "pager_ok jf ann old new (ps_pager st) pgs pg"
    and "part_ok ann old new p prow"
    and "ps_before st = pt_before p + pt_before_count p" "ps_after st = pt_after p + pt_after_count p"
  shows "\<exists>pgs' pg' prow'. pager_ok jf ann old new g pgs' pg' \<and> part_ok ann old new cur prow' \<and>
    length prow' < 400 \<and>
    concat (map snd (concat pgs' @ pg')) @ prow' = concat (map snd (concat pgs @ pg)) @ prow \<and>
    ps_before st = pt_before cur + pt_before_count cur \<and> ps_after st = pt_after cur + pt_after_count cur"
proof -
  define full where "full \<longleftrightarrow> 400 \<le> pt_rows p \<or> PAGE_BYTES < pt_encoded p + enc + 1024
         \<or> MAX_PAGE_INLINE_RANGES < pt_range_count p + k"
  show ?thesis
  proof (cases full)
    case True
    with assms(1) have fin: "pager_finish jf p (ps_pager st) = Ok g"
      and cur: "cur = part_new (ps_before st) (ps_after st)"
      by (auto simp: part_for_row_def full_def and_then_eq_Ok)
    from pager_finish_ok [OF fin assms(2,3)] obtain pgs' pg' where
      ok: "pager_ok jf ann old new g pgs' pg'" "concat pgs' @ pg' = (concat pgs @ pg) @ [(part_finish p, prow)]"
      by blast
    have "part_ok ann old new cur []"
      unfolding cur using assms(3-5) by (intro part_new_ok) (auto simp: part_ok_def)
    with ok show ?thesis
      by (intro exI [of _ pgs'] exI [of _ pg'] exI [of _ "[]"]) (simp add: cur part_new_def)
  next
    case False
    with assms(1) have "cur = p" "g = ps_pager st" by (auto simp: part_for_row_def full_def)
    moreover have "length prow < 400" using False assms(3) by (simp add: full_def part_ok_def)
    ultimately show ?thesis using assms by blast
  qed
qed

lemma change_row_step_inv:
  assumes "change_row_step jf jl old new line st = Ok st'"
    and "paging_inv jf ann n old new st pgs pg prow hs" "line_wf line"
  shows "\<exists>pgs' pg' prow' hs'. paging_inv jf ann n old new st' pgs' pg' prow' hs'"
proof -
  define nn where "nn \<longleftrightarrow> get_at (ps_lines st) 0 = Some MARKER"
  define rest where "rest = (if nn then tl (ps_lines st) else ps_lines st)"
  from assms(1) obtain p prefix where p: "ps_part st = Some p" and pre: "get_at line 0 = Some prefix"
      "prefix \<in> {32, 43, 45}" "ends_with NL line" and
    match: "prefix \<noteq> 43 \<longrightarrow> get_at old (ps_old_cursor st) = Some (source_line nn line)"
      "prefix \<noteq> 45 \<longrightarrow> get_at new (ps_new_cursor st) = Some (source_line nn line)" and
    acc: "accept_row jf jl prefix line nn rest p st = Ok st'"
    unfolding change_row_step_def and_then_eq_Ok ok_or_eq_Ok Let_def nn_def [symmetric] rest_def [symmetric]
    by (elim exE conjE) (auto simp only: if_eq_Ok)
  from acc obtain ranges amap lb cur g orem nrem where
    ta: "take_annotation prefix (ps_old_cursor st) (ps_new_cursor st) (ps_annotations st) = Ok (ranges, amap)" and
    pf: "part_for_row jf (row_encoded lb ranges nn) (range_count ranges) st p = Ok (cur, g)" and
    st': "st' = state_add_row prefix rest (part_add_row prefix line nn ranges (row_encoded lb ranges nn) cur)
        g amap orem nrem st"
    by (auto simp: accept_row_def and_then_eq_Ok ok_or_eq_Ok)
  note inv = assms(2) [unfolded paging_inv_def p option.case]
  define r where "r = \<lparr>row_prefix = prefix, row_text = source_line nn line\<rparr>"
  from part_for_row_ok [OF pf] inv obtain pgs' pg' prow' where
    fresh: "pager_ok jf ann old new g pgs' pg'" "part_ok ann old new cur prow'" "length prow' < 400"
      "concat (map snd (concat pgs' @ pg')) @ prow' = concat (map snd (concat pgs @ pg)) @ prow"
      "ps_before st = pt_before cur + pt_before_count cur" "ps_after st = pt_after cur + pt_after_count cur"
    by blast
  have pos: "pt_before cur - 1 + pt_before_count cur = ps_old_cursor st"
      "pt_after cur - 1 + pt_after_count cur = ps_new_cursor st"
    using fresh(2,5,6) inv by (auto simp: part_ok_def)
  obtain t where line: "line = prefix # t" using pre(1) by (cases line) (auto simp: get_at_def)
  have "line @ (if nn then MARKER else []) = concat (row_lines r)"
    unfolding r_def using pre by (intro row_text_lines [OF assms(3) _ line]) auto
  then have "part_ok ann old new
      (part_add_row (row_prefix r) line nn ranges (row_encoded lb ranges nn) cur) (prow' @ [r])"
    using match take_annotation_ok(2) [OF ta _ pre(2), of ann] inv
    by (intro part_add_row_ok [OF fresh(2,3)]) (simp_all only: pos r_def patch_row.select_convs)
  then have part': "part_ok ann old new
      (part_add_row prefix line nn ranges (row_encoded lb ranges nn) cur) (prow' @ [r])"
    by (simp add: r_def)
  from inv have "hs \<noteq> []" by blast
  then obtain hs0 os rows where hs: "hs = hs0 @ [\<lparr>old_start = os, hunk_rows = rows\<rparr>]"
    by (cases hs rule: rev_cases) (auto, metis patch_hunk.cases)
  let ?hs = "hs0 @ [\<lparr>old_start = os, hunk_rows = rows @ [r]\<rparr>]"
  have "applied old new ?hs (ps_old_cursor st + (if row_prefix r \<noteq> 43 then 1 else 0))
      (ps_new_cursor st + (if row_prefix r \<noteq> 45 then 1 else 0))"
    by (rule applied.row) (use inv hs match in \<open>simp_all add: r_def\<close>)
  moreover have "rows_of hs = rows_of hs0 @ rows" "rows_of ?hs = rows_of hs @ [r]"
    by (simp_all add: hs)
  moreover have "list_all line_wf rest"
  proof -
    have "list_all line_wf (ps_lines st)" using inv by blast
    then show ?thesis unfolding rest_def by (cases "ps_lines st") auto
  qed
  ultimately have "paging_inv jf ann n old new st' pgs' pg' (prow' @ [r]) ?hs"
    using fresh part' inv p take_annotation_ok [OF ta _ pre(2), of ann] pre(2) hs
    by (auto simp: paging_inv_def st' state_add_row_def part_add_row_def r_def hunk_changes_def)
  then show ?thesis by blast
qed

lemma change_step_inv:
  assumes "change_step jf jl old new line st = Ok st'"
    and "paging_inv jf ann n old new st pgs pg prow hs" "line_wf line"
  shows "\<exists>pgs' pg' prow' hs'. paging_inv jf ann n old new st' pgs' pg' prow' hs'"
  using assms header_step_inv [of jf old new line st st'] change_row_step_inv [of jf jl old new line st st']
  by (simp add: change_step_def split: if_splits)

lemma change_loop_inv:
  assumes "change_loop jf jl old new st = Ok st'" "paging_inv jf ann n old new st pgs pg prow hs"
  shows "\<exists>pgs' pg' prow' hs'. paging_inv jf ann n old new st' pgs' pg' prow' hs'"
  using assms
proof (induction jf jl old new st arbitrary: pgs pg prow hs rule: change_loop.induct)
  case (1 jf jl old new st)
  show ?case
  proof (cases "ps_lines st")
    case Nil
    with "1.prems" show ?thesis by (auto simp: change_loop.simps [of jf jl old new st])
  next
    case (Cons line rest)
    with "1.prems"(1) obtain st1 where st1: "change_step jf jl old new line (st\<lparr>ps_lines := rest\<rparr>) = Ok st1"
        "change_loop jf jl old new st1 = Ok st'"
      by (auto simp: change_loop.simps [of jf jl old new st] and_then_eq_Ok)
    have "paging_inv jf ann n old new (st\<lparr>ps_lines := rest\<rparr>) pgs pg prow hs" "line_wf line"
      using "1.prems"(2) Cons by (simp_all add: paging_inv_def split: option.splits)
    from change_step_inv [OF st1(1) this] "1.IH" [OF Cons st1(1) st1(2)] show ?thesis by blast
  qed
qed

text \<open>The collected annotations: one per key, those of the worker.\<close>

definition annotation_of :: "computed_diff \<Rightarrow> diff_side \<times> nat \<rightharpoonup> scalar_range list" where
  "annotation_of c = map_of (map (\<lambda>h. ((sh_side h, sh_line_index h), sh_ranges h)) (cd_inline_changes c))"

lemma collect_annotations_ok:
  "collect_annotations old new cs total_ranges amap = Ok amap' \<Longrightarrow> distinct (map fst amap) \<Longrightarrow>
     distinct (map fst amap') \<and>
     amap' = amap @ map (\<lambda>h. ((sh_side h, sh_line_index h), sh_ranges h)) cs"
proof (induction old new cs total_ranges amap rule: collect_annotations.induct)
  case (2 old new c cs total_ranges amap)
  let ?e = "((sh_side c, sh_line_index c), sh_ranges c)"
  from "2.prems"(1) have new: "map_of amap (sh_side c, sh_line_index c) = None"
    by (auto simp: result_simps Let_def split: if_splits)
  from new "2.prems"(2) have "distinct (map fst (amap @ [?e]))" by (auto simp: map_of_eq_None_iff)
  moreover have "distinct (map fst (amap @ [?e])) \<Longrightarrow> ?case"
  proof -
    assume d: "distinct (map fst (amap @ [?e]))"
    from "2.prems"(1) obtain tot line where
      "ok_or (checked_add total_ranges (length (sh_ranges c))) ResourceLimit = Ok tot"
      "\<not> (MAX_INLINE_RANGES < tot \<or> MAX_PAGE_INLINE_RANGES < length (sh_ranges c))"
      "ok_or (get_at (case sh_side c of SideBefore \<Rightarrow> old | SideAfter \<Rightarrow> new) (sh_line_index c)) Internal = Ok line"
      "\<not> \<not> check_ranges (length line) 0 (sh_ranges c)"
      "\<not> map_of amap (sh_side c, sh_line_index c) \<noteq> None"
      "collect_annotations old new cs tot (amap @ [?e]) = Ok amap'"
      unfolding collect_annotations.simps and_then_eq_Ok if_eq_Ok Let_def by blast
    from "2.IH" [OF this(1,2) refl this(3-5) this(6) d] show ?case
      unfolding append.assoc append_Cons append_Nil list.map .
  qed
  ultimately show ?case by blast
qed simp

lemma changes_final:
  assumes "finish_changes jf old new st = Ok (pages, adds, dels)"
    and "paging_inv jf ann n old new st pgs pg prow hs"
  shows "\<exists>pgs. pages = map (map fst) pgs \<and> list_all (\<lambda>pg. pg \<noteq> [] \<and> page_ok jf ann old new pg) pgs \<and>
    concat (map snd (concat pgs)) = rows_of hs \<and> list_all hunk_changes hs \<and> hs \<noteq> [] \<and>
    splice_lines old 0 hs = Some new \<and> adds = row_count 43 (rows_of hs) \<and>
    dels = row_count 45 (rows_of hs) \<and> n = adds + dels"
proof -
  note inv = assms(2) [unfolded paging_inv_def]
  from assms(1) obtain g where
    fin: "ps_saw_hunk st" "ps_hunk_changed st" "ps_annotations st = []" and
    rest: "drop (ps_old_cursor st) old = drop (ps_new_cursor st) new" and
    g: "(case ps_part st of None \<Rightarrow> Ok (ps_pager st) | Some p \<Rightarrow> pager_finish jf p (ps_pager st)) = Ok g" and
    res: "pages = (if pg_page g \<noteq> [] then pg_pages g @ [pg_page g] else pg_pages g)"
      "adds = ps_additions st" "dels = ps_deletions st"
    by (auto simp: finish_changes_def result_simps get_from_Some split: if_splits)
  from fin inv obtain p where p: "ps_part st = Some p" by auto
  with inv have part: "part_ok ann old new p prow" by simp
  from p g have last_part: "pager_finish jf p (ps_pager st) = Ok g" by simp
  from pager_finish_ok [OF last_part conjunct1 [OF inv] part] obtain pgs' pg' where
    ok: "pager_ok jf ann old new g pgs' pg'" "pg' \<noteq> []"
      "concat pgs' @ pg' = (concat pgs @ pg) @ [(part_finish p, prow)]"
    by blast
  have app: "applied old new hs (ps_old_cursor st) (ps_new_cursor st)" using inv by blast
  have "splice_lines old (ps_old_cursor st) [] = Some (drop (ps_new_cursor st) new)" using rest by simp
  then have "splice_lines old 0 hs = Some (take (ps_new_cursor st) new @ drop (ps_new_cursor st) new)"
    using applied_splices(1) [OF app] unfolding splices_to_def by (metis append_Nil2)
  moreover have "hs \<noteq> []" "hunk_changes (last hs)" "list_all hunk_changes (butlast hs)"
    using inv fin by auto
  then have "list_all hunk_changes hs" by (simp add: list_all_last)
  moreover have "concat (map snd (concat (pgs' @ [pg']))) = rows_of hs" using ok(3) inv by simp
  moreover have "pages = map (map fst) (pgs' @ [pg'])" using ok res by (simp add: pager_ok_def)
  moreover have "list_all (\<lambda>pg. pg \<noteq> [] \<and> page_ok jf ann old new pg) (pgs' @ [pg'])"
    using ok by (simp add: pager_ok_def)
  moreover have "adds = row_count 43 (rows_of hs)" "dels = row_count 45 (rows_of hs)" "n = adds + dels"
    using inv res fin by auto
  ultimately show ?thesis using \<open>hs \<noteq> []\<close> by (intro exI [of _ "pgs' @ [pg']"]) simp
qed

lemma changes_accept:
  assumes "changes jf jl c old_text new_text = Ok (pages, adds, dels)" "old_text \<noteq> new_text"
  shows "\<exists>pgs hs. pages = map (map fst) pgs \<and>
    list_all (\<lambda>pg. pg \<noteq> [] \<and>
      page_ok jf (annotation_of c) (split_inclusive old_text) (split_inclusive new_text) pg) pgs \<and>
    concat (map snd (concat pgs)) = rows_of hs \<and> list_all hunk_changes hs \<and> hs \<noteq> [] \<and>
    splice_lines (split_inclusive old_text) 0 hs = Some (split_inclusive new_text) \<and>
    adds = row_count 43 (rows_of hs) \<and> dels = row_count 45 (rows_of hs) \<and>
    length (cd_inline_changes c) = adds + dels"
proof -
  let ?old = "split_inclusive old_text" and ?new = "split_inclusive new_text"
  let ?init = "\<lambda>amap. \<lparr>ps_lines = drop 2 (split_inclusive (cd_patch c)),
     ps_pager = \<lparr>pg_pages = [], pg_page = [], pg_rows = 0, pg_bytes = 0, pg_ranges = 0\<rparr>,
     ps_part = None, ps_before = 0, ps_after = 0,
     ps_old_remaining = 0, ps_new_remaining = 0, ps_old_cursor = 0, ps_new_cursor = 0,
     ps_additions = 0, ps_deletions = 0, ps_annotations = amap,
     ps_saw_hunk = False, ps_hunk_changed = False\<rparr>"
  from assms obtain amap st where
    coll: "collect_annotations ?old ?new (cd_inline_changes c) 0 [] = Ok amap" and
    loop: "change_loop jf jl ?old ?new (?init amap) = Ok st" and
    fin: "finish_changes jf ?old ?new st = Ok (pages, adds, dels)"
    by (auto simp: changes_def and_then_eq_Ok Let_def split: if_splits)
  have amap: "annotations_ok (annotation_of c) amap" "length amap = length (cd_inline_changes c)"
    using collect_annotations_ok [OF coll] by (auto simp: annotations_ok_def annotation_of_def)
  have "list_all line_wf (drop 2 (split_inclusive (cd_patch c)))"
    using lines_wf_line [OF lines_wf_drop [OF split_inclusive_wf]] by (auto simp: list_all_iff)
  with amap have "paging_inv jf (annotation_of c) (length (cd_inline_changes c)) ?old ?new (?init amap) [] [] [] []"
    by (simp add: paging_inv_def pager_ok_def page_ok_def page_sums applied.start)
  from change_loop_inv [OF loop this] obtain pgs pg prow hs where
    "paging_inv jf (annotation_of c) (length (cd_inline_changes c)) ?old ?new st pgs pg prow hs" by blast
  from changes_final [OF fin this] show ?thesis by blast
qed

lemma splice_context:
  "list_all (\<lambda>h. row_count 43 (hunk_rows h) = 0 \<and> row_count 45 (hunk_rows h) = 0) hs \<Longrightarrow>
     splice_lines src cur hs = Some out \<Longrightarrow> out = drop cur src"
proof (induction hs arbitrary: cur out)
  case (Cons h hs)
  let ?old = "old_side (hunk_rows h)" and ?s = "old_start h"
  have same: "new_side rows = old_side rows" if "row_count 43 rows = 0" "row_count 45 rows = 0" for rows
    using that by (induction rows) (auto simp: row_count_def split: if_splits)
  from Cons.prems obtain rest where r: "cur \<le> ?s" "take (length ?old) (drop ?s src) = ?old"
      "splice_lines src (?s + length ?old) hs = Some rest"
      "out = take (?s - cur) (drop cur src) @ new_side (hunk_rows h) @ rest"
    by (auto simp: Let_def split: if_splits)
  have "rest = drop (?s + length ?old) src" using Cons.IH [OF _ r(3)] Cons.prems(1) by simp
  moreover have "new_side (hunk_rows h) = take (length ?old) (drop ?s src)"
    using same Cons.prems(1) r(2) by simp
  ultimately have "out = take (?s - cur) (drop cur src) @ drop ?s src"
    using r(4) by (simp add: add.commute [of ?s]) (metis append_take_drop_id drop_drop add.commute)
  then show ?case using r(1) by (metis append_take_drop_id drop_drop le_add_diff_inverse2)
qed simp

section \<open>Properties\<close>

text \<open>
  \<open>chunks\<close> loses nothing: the chunks concatenate to the text, each of them fits 32 KiB of
  UTF-8, and there is always at least one.
\<close>

theorem chunks_partition:
  "concat (chunks t) = t \<and> list_all (\<lambda>c. str_len c \<le> 32 * 1024) (chunks t) \<and> chunks t \<noteq> []"
  using chunk_list_spec [of t] by (auto simp: chunks_def list_all_iff)

text \<open>
  C3. Only a correct patch is published: when \<open>changes\<close> accepts the worker's output for two
  different texts, every published fragment prints its own rows under a header with its own
  coordinates, at which both originals hold exactly the two sides of these rows, with the worker's
  highlights (\<open>fragment_ok\<close>), and no page is empty or past its limits (\<open>page_ok\<close>).  In page order
  these rows are the rows of hunks that each change something and that splice the lines of the old
  text into exactly those of the new one; additions and deletions count the plus and minus rows, and
  the annotations were used up, one for each of them.
\<close>

theorem changes_rebuild:
  assumes "changes json_fragment json_line c old_text new_text = Ok (pages, additions, deletions)"
    and "old_text \<noteq> new_text"
  shows "\<exists>pgs hunks. pages = map (map fst) pgs \<and>
    list_all (\<lambda>pg. pg \<noteq> [] \<and>
      page_ok json_fragment (annotation_of c) (split_inclusive old_text) (split_inclusive new_text) pg) pgs \<and>
    concat (map snd (concat pgs)) = rows_of hunks \<and>
    list_all hunk_changes hunks \<and> hunks \<noteq> [] \<and>
    splice_lines (split_inclusive old_text) 0 hunks = Some (split_inclusive new_text) \<and>
    additions = row_count 43 (rows_of hunks) \<and> deletions = row_count 45 (rows_of hunks) \<and>
    length (cd_inline_changes c) = additions + deletions"
  by (rule changes_accept [OF assms])

definition example_computed :: computed_diff where
  "example_computed =
     \<lparr>cd_patch = lns [''--- before'', ''+++ after'', ''@@ -1,2 +1,2 @@'', '' a'', ''-b'', ''+x''],
      cd_inline_changes =
        [\<lparr>sh_side = SideBefore, sh_line_index = 1, sh_ranges = [(0, 1)]\<rparr>,
         \<lparr>sh_side = SideAfter, sh_line_index = 1, sh_ranges = [(0, 1)]\<rparr>]\<rparr>"

definition example_json_fragment :: "diff_fragment \<Rightarrow> nat option" where
  "example_json_fragment f = Some (2 * str_len (df_patch f) + 30 * range_sum (df_inline_changes f) + 200)"

definition example_json_line :: "rstr \<Rightarrow> nat option" where
  "example_json_line l = Some (2 * str_len l + 2)"

lemma example_changes_accepted:
  "is_ok (changes example_json_fragment example_json_line example_computed
     (lns [''a'', ''b'']) (lns [''a'', ''x'']))"
  by code_simp

lemma example_changes:
  obtains pages where "changes example_json_fragment example_json_line example_computed
     (lns [''a'', ''b'']) (lns [''a'', ''x'']) = Ok (pages, 1, 1)" "pages \<noteq> []"
proof -
  have "(case changes example_json_fragment example_json_line example_computed
     (lns [''a'', ''b'']) (lns [''a'', ''x'']) of
       Inr (pages, adds, dels) \<Rightarrow> pages \<noteq> [] \<and> adds = 1 \<and> dels = 1 | Inl _ \<Rightarrow> False)"
    by code_simp
  then show thesis by (auto split: sum.splits intro!: that)
qed

theorem changes_rebuild_witness:
  "\<exists>pages pgs hunks. changes example_json_fragment example_json_line example_computed
       (lns [''a'', ''b'']) (lns [''a'', ''x'']) = Ok (pages, 1, 1) \<and>
     pages \<noteq> [] \<and> pages = map (map fst) pgs \<and> list_all (\<lambda>pg. pg \<noteq> [] \<and>
       page_ok example_json_fragment (annotation_of example_computed)
         (split_inclusive (lns [''a'', ''b''])) (split_inclusive (lns [''a'', ''x''])) pg) pgs \<and>
     concat (map snd (concat pgs)) = rows_of hunks \<and>
     splice_lines (split_inclusive (lns [''a'', ''b''])) 0 hunks = Some (split_inclusive (lns [''a'', ''x'']))"
proof -
  obtain pages where ok: "changes example_json_fragment example_json_line example_computed
     (lns [''a'', ''b'']) (lns [''a'', ''x'']) = Ok (pages, 1, 1)" "pages \<noteq> []" by (rule example_changes)
  have "lns [''a'', ''b''] \<noteq> lns [''a'', ''x'']" by code_simp
  from changes_rebuild [OF ok(1) this] ok show ?thesis by blast
qed



text \<open>
  The reported counts decide equality: the accepted output has no additions and no deletions
  exactly when the two texts are equal, and then nothing is published.
\<close>

theorem changes_counts_decide:
  assumes "changes json_fragment json_line c old_text new_text = Ok (pages, additions, deletions)"
  shows "(additions = 0 \<and> deletions = 0 \<longleftrightarrow> old_text = new_text) \<and> (pages = [] \<longleftrightarrow> old_text = new_text)"
proof (cases "old_text = new_text")
  case True
  with assms show ?thesis by (auto simp: changes_def split: if_splits)
next
  case False
  from changes_accept [OF assms False] obtain pgs hs where
    pages: "pages = map (map fst) pgs" "concat (map snd (concat pgs)) = rows_of hs" and
    hs: "list_all hunk_changes hs" "hs \<noteq> []"
      "splice_lines (split_inclusive old_text) 0 hs = Some (split_inclusive new_text)"
      "additions = row_count 43 (rows_of hs)" "deletions = row_count 45 (rows_of hs)"
    by blast
  have "additions \<noteq> 0 \<or> deletions \<noteq> 0"
  proof (rule ccontr)
    assume "\<not> ?thesis"
    then have "list_all (\<lambda>h. row_count 43 (hunk_rows h) = 0 \<and> row_count 45 (hunk_rows h) = 0) hs"
      using hs(4,5) by (auto simp: list_all_iff row_count_def rows_of_def filter_concat)
    from splice_context [OF this hs(3)] have "split_inclusive new_text = split_inclusive old_text" by simp
    then have "new_text = old_text" by (metis concat_split_inclusive)
    with False show False by simp
  qed
  moreover have "pages \<noteq> []"
  proof
    assume "pages = []"
    with pages have "rows_of hs = []" by simp
    moreover have "hunk_changes (hd hs)" using hs(1,2) by (cases hs) auto
    ultimately show False using hs(2) by (cases hs) (auto simp: rows_of_def hunk_changes_def)
  qed
  ultimately show ?thesis using False by auto
qed

theorem changes_counts_decide_witness:
  "\<exists>pages additions deletions. changes example_json_fragment example_json_line example_computed
     (lns [''a'', ''b'']) (lns [''a'', ''x'']) = Ok (pages, additions, deletions) \<and>
     \<not> (additions = 0 \<and> deletions = 0) \<and> pages \<noteq> []"
proof -
  obtain pages adds dels where ok: "changes example_json_fragment example_json_line example_computed
     (lns [''a'', ''b'']) (lns [''a'', ''x'']) = Ok (pages, adds, dels)"
    using example_changes_accepted by (auto simp: is_ok_iff)
  have "lns [''a'', ''b''] \<noteq> lns [''a'', ''x'']" by code_simp
  with changes_counts_decide [OF ok] ok show ?thesis by blast
qed

end
