(* ===== verification/Attachments.thy ===== *)
theory Attachments
  imports Diff_Paging
begin

text \<open>
  The memory-only attachment store: \<open>crates/application/src/text_diff/attachments.rs\<close> and the
  shared state of \<open>crates/application/src/text_diff.rs\<close>.

  The mutex makes every operation one transition of \<open>service_state\<close>; an operation returns its
  result together with the new state.  Hash maps are association lists.  An \<open>Arc<AttachmentData>\<close>
  is the key of an object in \<open>s_heap\<close>: the store's entry holds one reference, every resolved
  request input a lease in \<open>s_leases\<close>; \<open>drop_unreferenced\<close> is what the destructors do when the last
  reference goes, including the subtraction from the ledger \<open>s_attachment_bytes\<close>.  The random
  handle generator is the parameter \<open>handles\<close> (the outcome of its n-th call), the allocator's
  answer to a reservation is \<open>reserve\<close>.  Times are seconds.

  The invariant \<open>store_ok\<close> says that the ledger equals the charges of the live objects, that each
  entry's metadata describes its text, and that only sealed, validated texts are ever leased.
\<close>

section \<open>State\<close>

definition RETENTION :: nat where "RETENTION = 600"
definition MAX_ENTRIES :: nat where "MAX_ENTRIES = 32"
definition MAX_STORE_BYTES :: nat where "MAX_STORE_BYTES = 128 * 1024 * 1024"
definition JOB_RESERVATION :: nat where "JOB_RESERVATION = 32 * 1024 * 1024"
definition MAX_ATTACHMENTS :: nat where "MAX_ATTACHMENTS = 64"
definition ENTRY_OVERHEAD :: nat where "ENTRY_OVERHEAD = 1024"

record attachment_data =
  ad_text :: rstr
  ad_charge :: nat

record stored_attachment =
  sa_data :: nat
  sa_summary :: attachment_summary
  sa_expires :: nat

record stored =
  sc_patch :: rstr
  sc_summary :: comparison_summary
  sc_before :: rstr
  sc_after :: rstr
  sc_changes :: "diff_fragment list list"
  sc_expires :: nat
  sc_caller :: nat
  sc_bytes :: nat

record service_state =
  s_attachments :: "(rstr \<times> stored_attachment) list"
  s_heap :: "(nat \<times> attachment_data) list"
  s_leases :: "nat list"
  s_next_data :: nat
  s_attachment_bytes :: nat
  s_entries :: "(rstr \<times> stored) list"
  s_reserved :: nat
  s_reserved_slots :: nat
  s_stopping :: bool
  s_cancelled :: "nat list"
  s_generated :: nat

definition state_default :: service_state where
  "state_default =
     \<lparr>s_attachments = [], s_heap = [], s_leases = [], s_next_data = 0, s_attachment_bytes = 0,
      s_entries = [], s_reserved = 0, s_reserved_slots = 0, s_stopping = False, s_cancelled = [],
      s_generated = 0\<rparr>"

section \<open>Destructors, expiry and handles\<close>

definition referenced :: "service_state \<Rightarrow> nat \<Rightarrow> bool" where
  "referenced st k \<longleftrightarrow> k \<in> set (s_leases st) \<or> list_ex (\<lambda>(_, a). sa_data a = k) (s_attachments st)"

definition charge_sum :: "(nat \<times> attachment_data) list \<Rightarrow> nat" where
  "charge_sum h = sum_list (map (\<lambda>(_, d). ad_charge d) h)"

definition drop_unreferenced :: "service_state \<Rightarrow> service_state" where
  "drop_unreferenced st = st\<lparr>
     s_heap := filter (\<lambda>(k, _). referenced st k) (s_heap st),
     s_attachment_bytes :=
       s_attachment_bytes st - charge_sum (filter (\<lambda>(k, _). \<not> referenced st k) (s_heap st))\<rparr>"

definition retain_attachments :: "(rstr \<times> stored_attachment \<Rightarrow> bool) \<Rightarrow> service_state \<Rightarrow> service_state" where
  "retain_attachments P st = drop_unreferenced (st\<lparr>s_attachments := filter P (s_attachments st)\<rparr>)"

definition expire :: "nat \<Rightarrow> service_state \<Rightarrow> service_state" where
  "expire now st =
     (let st = retain_attachments (\<lambda>(_, a). now < sa_expires a) st in
      st\<lparr>s_entries := filter (\<lambda>(_, e). now < sc_expires e \<and> sc_caller e \<notin> set (s_cancelled st))
           (s_entries st)\<rparr>)"

definition valid_handle :: "rstr \<Rightarrow> (unit, text_diff_error) result" where
  "valid_handle i = (if str_len i = 64 \<and> list_all lower_hex i then Ok () else Err InvalidInput)"

definition used :: "service_state \<Rightarrow> nat" where
  "used st = sum_list (map (\<lambda>(_, e). sc_bytes e) (s_entries st)) + s_reserved st + s_attachment_bytes st"

definition maximum :: "attachment_kind \<Rightarrow> nat" where
  "maximum kind = (case kind of KText \<Rightarrow> MAX_TEXT_BYTES | KPatch \<Rightarrow> MAX_PATCH_INPUT_BYTES)"

definition validate :: "attachment_kind \<Rightarrow> rstr \<Rightarrow> (unit, text_diff_error) result" where
  "validate kind t =
     (if maximum kind < str_len t \<or> 0 \<in> set t then Err InvalidInput
      else if kind = KText then and_then (text_info t (lit ''Text'')) (\<lambda>_. Ok ())
      else Ok ())"

definition check_declared_kind ::
    "attachment_kind option \<Rightarrow> attachment_kind \<Rightarrow> (unit, text_diff_error) result" where
  "check_declared_kind declared actual =
     (if declared \<noteq> None \<and> declared \<noteq> Some actual then Err AttachmentKindMismatch else Ok ())"

type_synonym handle_source = "nat \<Rightarrow> (nat list, text_diff_error) result"

text \<open>The loop of \<open>fresh_attachment_id\<close> with the remaining number of attempts.\<close>

fun fresh_id :: "handle_source \<Rightarrow> nat \<Rightarrow> service_state \<Rightarrow> (rstr, text_diff_error) result \<times> service_state" where
  "fresh_id handles 0 st = (Err Internal, st)"
| "fresh_id handles (Suc n) st =
     (let st' = st\<lparr>s_generated := s_generated st + 1\<rparr> in
      case handles (s_generated st) of
        Inl e \<Rightarrow> (Err e, st')
      | Inr bytes \<Rightarrow>
          let i = hex_string bytes in
          if map_of (s_attachments st) i = None \<and> map_of (s_entries st) i = None
          then (Ok i, st') else fresh_id handles n st')"

definition fresh_attachment_id ::
    "handle_source \<Rightarrow> service_state \<Rightarrow> (rstr, text_diff_error) result \<times> service_state" where
  "fresh_attachment_id handles st = fresh_id handles 4 st"

definition data_of :: "service_state \<Rightarrow> stored_attachment \<Rightarrow> attachment_data" where
  "data_of st a =
     (case map_of (s_heap st) (sa_data a) of None \<Rightarrow> \<lparr>ad_text = [], ad_charge = 0\<rparr> | Some d \<Rightarrow> d)"

text \<open>Charge the ledger, allocate the object and insert the entry.\<close>

definition insert_attachment ::
    "rstr \<Rightarrow> attachment_data \<Rightarrow> attachment_summary \<Rightarrow> nat \<Rightarrow> service_state \<Rightarrow> service_state" where
  "insert_attachment i d summary expires st = st\<lparr>
     s_attachment_bytes := s_attachment_bytes st + ad_charge d,
     s_heap := (s_next_data st, d) # s_heap st,
     s_next_data := s_next_data st + 1,
     s_attachments := AList.update i
       \<lparr>sa_data = s_next_data st, sa_summary = summary, sa_expires = expires\<rparr> (s_attachments st)\<rparr>"

section \<open>Operations\<close>

datatype resolved_text = RInline rstr | RAttachment nat

definition resolved_str :: "service_state \<Rightarrow> resolved_text \<Rightarrow> rstr" where
  "resolved_str st r =
     (case r of
        RInline t \<Rightarrow> t
      | RAttachment k \<Rightarrow> (case map_of (s_heap st) k of None \<Rightarrow> [] | Some d \<Rightarrow> ad_text d))"

definition resolve_attachment ::
    "attachment_reference \<Rightarrow> attachment_kind \<Rightarrow> service_state \<Rightarrow> (resolved_text, text_diff_error) result" where
  "resolve_attachment handle kind st =
     and_then (ok_or (map_of (s_attachments st) (attachment_id handle)) NotFound) (\<lambda>entry.
     and_then (check_declared_kind (declared_kind handle) (as_kind (sa_summary entry))) (\<lambda>_.
       if as_kind (sa_summary entry) \<noteq> kind then Err AttachmentKindMismatch
       else if \<not> as_sealed (sa_summary entry) then Err InvalidInput
       else Ok (RAttachment (sa_data entry))))"

definition lease :: "resolved_text \<Rightarrow> service_state \<Rightarrow> service_state" where
  "lease r st = (case r of RInline _ \<Rightarrow> st | RAttachment k \<Rightarrow> st\<lparr>s_leases := k # s_leases st\<rparr>)"

definition release :: "resolved_text \<Rightarrow> service_state \<Rightarrow> service_state" where
  "release r st =
     (case r of RInline _ \<Rightarrow> st
      | RAttachment k \<Rightarrow> drop_unreferenced (st\<lparr>s_leases := remove1 k (s_leases st)\<rparr>))"

definition resolve ::
    "text_source \<Rightarrow> attachment_kind \<Rightarrow> nat \<Rightarrow> service_state
      \<Rightarrow> (resolved_text, text_diff_error) result \<times> service_state" where
  "resolve input kind now st =
     (case input of
        Inline t \<Rightarrow> (and_then (validate kind t) (\<lambda>_. Ok (RInline t)), st)
      | Attachment handle \<Rightarrow>
          (case valid_handle (attachment_id handle) of
             Inl e \<Rightarrow> (Err e, st)
           | Inr _ \<Rightarrow>
               let st = expire now st in
               case resolve_attachment handle kind st of
                 Inl e \<Rightarrow> (Err e, st)
               | Inr r \<Rightarrow>
                   (case validate kind (resolved_str st r) of
                      Inl e \<Rightarrow> (Err e, st)
                    | Inr _ \<Rightarrow> (Ok r, lease r st))))"

definition set_text :: "nat \<Rightarrow> rstr \<Rightarrow> service_state \<Rightarrow> service_state" where
  "set_text k t st = st\<lparr>s_heap := map (\<lambda>(k', d). if k' = k then (k', d\<lparr>ad_text := t\<rparr>) else (k', d)) (s_heap st)\<rparr>"

definition set_summary :: "rstr \<Rightarrow> attachment_summary \<Rightarrow> service_state \<Rightarrow> service_state" where
  "set_summary i s st = st\<lparr>s_attachments :=
     map (\<lambda>(i', a). if i' = i then (i', a\<lparr>sa_summary := s\<rparr>) else (i', a)) (s_attachments st)\<rparr>"

text \<open>The continuation of an upload whose state has been expired.\<close>

definition upload_continue ::
    "rstr \<Rightarrow> attachment_upload \<Rightarrow> attachment_kind option \<Rightarrow> service_state
      \<Rightarrow> (attachment_summary, text_diff_error) result \<times> service_state" where
  "upload_continue i req declared st =
     (case valid_handle i of
        Inl e \<Rightarrow> (Err e, st)
      | Inr _ \<Rightarrow>
     if up_kind req \<noteq> None \<or> up_total_bytes req \<noteq> None then (Err InvalidInput, st)
     else
       (case map_of (s_attachments st) i of
          None \<Rightarrow> (Err NotFound, st)
        | Some entry \<Rightarrow>
            (case check_declared_kind declared (as_kind (sa_summary entry)) of
               Inl e \<Rightarrow> (Err e, st)
             | Inr _ \<Rightarrow>
            let t = ad_text (data_of st entry); summary = sa_summary entry in
            if up_offset req < str_len t \<and> \<not> is_char_boundary t (up_offset req)
            then (Err (InvalidUtf8Boundary (up_offset req)), st)
            else
              (case checked_add (up_offset req) (str_len (up_chunk req)) of
                 None \<Rightarrow> (Err InvalidInput, st)
               | Some stop \<Rightarrow>
                   if as_total_bytes summary < stop
                      \<or> (up_complete req \<and> stop \<noteq> as_total_bytes summary)
                   then (Err InvalidInput, st)
                   else if up_offset req < str_len t \<or> as_sealed summary then
                     if slice t (up_offset req) stop \<noteq> Some (up_chunk req)
                        \<or> (up_complete req \<and> \<not> as_sealed summary)
                     then (Err InvalidInput, st) else (Ok summary, st)
                   else if up_offset req \<noteq> str_len t \<or> (up_chunk req = [] \<and> \<not> up_complete req)
                   then (Err InvalidInput, st)
                   else if sa_data entry \<in> set (s_leases st) then (Err Internal, st)
                   else
                     let t' = t @ up_chunk req in
                     (case (if up_complete req then validate (as_kind summary) t' else Ok ()) of
                        Inl e \<Rightarrow> (Err e, st)
                      | Inr _ \<Rightarrow>
                          let summary' = summary\<lparr>as_committed_bytes := stop, as_sealed := up_complete req\<rparr> in
                          (Ok summary', set_summary i summary' (set_text (sa_data entry) t' st)))))))"

definition upload_create ::
    "handle_source \<Rightarrow> (nat \<Rightarrow> nat option) \<Rightarrow> attachment_upload \<Rightarrow> attachment_kind option \<Rightarrow> nat \<Rightarrow> nat
      \<Rightarrow> service_state \<Rightarrow> (attachment_summary, text_diff_error) result \<times> service_state" where
  "upload_create handles reserve req declared now clock st =
     (if declared \<noteq> None then (Err InvalidInput, st)
      else case (up_kind req, up_total_bytes req) of
        (Some kind, Some total_size) \<Rightarrow>
          if up_offset req \<noteq> 0 \<or> maximum kind < total_size \<or> total_size < str_len (up_chunk req)
             \<or> (up_complete req \<and> str_len (up_chunk req) \<noteq> total_size)
             \<or> (\<not> up_complete req \<and> up_chunk req = [])
          then (Err InvalidInput, st)
          else
            (case (if up_complete req then validate kind (up_chunk req) else Ok ()) of
               Inl e \<Rightarrow> (Err e, st)
             | Inr _ \<Rightarrow>
                 if MAX_ATTACHMENTS \<le> length (s_attachments st)
                    \<or> MAX_STORE_BYTES < saturating_add (used st) (total_size + ENTRY_OVERHEAD)
                 then (Err Busy, st)
                 else
                   (case fresh_attachment_id handles st of
                      (Inl e, st) \<Rightarrow> (Err e, st)
                    | (Inr i, st) \<Rightarrow>
                        (case reserve total_size of
                           None \<Rightarrow> (Err ResourceLimit, st)
                         | Some capacity \<Rightarrow>
                             let charge = capacity + ENTRY_OVERHEAD in
                             if MAX_STORE_BYTES < saturating_add (used st) charge then (Err Busy, st)
                             else
                               let summary =
                                 \<lparr>as_schema_version = 1, as_attachment_id = i, as_kind = kind,
                                  as_total_bytes = total_size, as_committed_bytes = str_len (up_chunk req),
                                  as_sealed = up_complete req,
                                  as_expires_at = saturating_add clock 600\<rparr> in
                               (Ok summary,
                                insert_attachment i \<lparr>ad_text = up_chunk req, ad_charge = charge\<rparr> summary
                                  (now + RETENTION) st))))
      | _ \<Rightarrow> (Err InvalidInput, st))"

definition upload_attachment_with_kind ::
    "handle_source \<Rightarrow> (nat \<Rightarrow> nat option) \<Rightarrow> attachment_upload \<Rightarrow> attachment_kind option \<Rightarrow> nat \<Rightarrow> nat
      \<Rightarrow> service_state \<Rightarrow> (attachment_summary, text_diff_error) result \<times> service_state" where
  "upload_attachment_with_kind handles reserve req declared now clock st =
     (if MAX_ATTACHMENT_CHUNK_BYTES < str_len (up_chunk req) \<or> 0 \<in> set (up_chunk req)
      then (Err InvalidInput, st)
      else
        let st = expire now st in
        if s_stopping st then (Err Unavailable, st)
        else case up_attachment_id req of
          Some i \<Rightarrow> upload_continue i req declared st
        | None \<Rightarrow> upload_create handles reserve req declared now clock st)"

definition upload_attachment where
  "upload_attachment handles reserve req now clock st =
     upload_attachment_with_kind handles reserve req None now clock st"

definition read_page :: "attachment_summary \<Rightarrow> rstr \<Rightarrow> nat \<Rightarrow> (attachment_page, text_diff_error) result" where
  "read_page summary t offset =
     (if \<not> as_sealed summary \<or> str_len t < offset then Err InvalidInput
      else if \<not> is_char_boundary t offset then Err (InvalidUtf8Boundary offset)
      else
        let stop = floor_boundary t (min (saturating_add offset MAX_ATTACHMENT_CHUNK_BYTES) (str_len t)) in
        and_then (ok_or (slice t offset stop) Internal) (\<lambda>piece.
          Ok \<lparr>ap_schema_version = 1, ap_attachment = summary, ap_offset = offset,
              ap_next_offset = stop, ap_complete = (stop = str_len t), ap_text = piece\<rparr>))"

definition read_attachment_with_kind ::
    "attachment_read \<Rightarrow> attachment_kind option \<Rightarrow> nat \<Rightarrow> service_state
      \<Rightarrow> (attachment_page, text_diff_error) result \<times> service_state" where
  "read_attachment_with_kind req declared now st =
     (case valid_handle (rd_attachment_id req) of
        Inl e \<Rightarrow> (Err e, st)
      | Inr _ \<Rightarrow>
          let st = expire now st in
          (and_then (ok_or (map_of (s_attachments st) (rd_attachment_id req)) NotFound) (\<lambda>entry.
           and_then (check_declared_kind declared (as_kind (sa_summary entry))) (\<lambda>_.
             read_page (sa_summary entry) (ad_text (data_of st entry)) (rd_offset req))), st))"

definition read_attachment where
  "read_attachment req now st = read_attachment_with_kind req None now st"

definition delete_attachment_with_kind ::
    "rstr \<Rightarrow> attachment_kind option \<Rightarrow> nat \<Rightarrow> service_state
      \<Rightarrow> (unit, text_diff_error) result \<times> service_state" where
  "delete_attachment_with_kind i declared now st =
     (case valid_handle i of
        Inl e \<Rightarrow> (Err e, st)
      | Inr _ \<Rightarrow>
          let st = expire now st in
          case (case map_of (s_attachments st) i of
                  None \<Rightarrow> Ok ()
                | Some entry \<Rightarrow> check_declared_kind declared (as_kind (sa_summary entry))) of
            Inl e \<Rightarrow> (Err e, st)
          | Inr _ \<Rightarrow> (Ok (), retain_attachments (\<lambda>(i', _). i' \<noteq> i) st))"

definition delete_attachment where
  "delete_attachment i now st = delete_attachment_with_kind i None now st"

definition publish_attachment ::
    "handle_source \<Rightarrow> rstr \<Rightarrow> nat \<Rightarrow> attachment_kind \<Rightarrow> nat \<Rightarrow> nat \<Rightarrow> service_state
      \<Rightarrow> (attachment_summary, text_diff_error) result \<times> service_state" where
  "publish_attachment handles t capacity kind now clock st =
     (case validate kind t of
        Inl e \<Rightarrow> (Err e, st)
      | Inr _ \<Rightarrow>
          let st = expire now st; charge = capacity + ENTRY_OVERHEAD in
          if s_stopping st then (Err Unavailable, st)
          else if MAX_ATTACHMENTS \<le> length (s_attachments st)
                  \<or> MAX_STORE_BYTES < saturating_add (used st) charge
          then (Err Busy, st)
          else
            (case fresh_attachment_id handles st of
               (Inl e, st) \<Rightarrow> (Err e, st)
             | (Inr i, st) \<Rightarrow>
                 let summary =
                   \<lparr>as_schema_version = 1, as_attachment_id = i, as_kind = kind,
                    as_total_bytes = str_len t, as_committed_bytes = str_len t, as_sealed = True,
                    as_expires_at = saturating_add clock 600\<rparr> in
                 (Ok summary,
                  insert_attachment i \<lparr>ad_text = t, ad_charge = charge\<rparr> summary (now + RETENTION) st)))"

text \<open>The exported copy of a stored comparison's patch, made by \<open>compare_sources\<close>.\<close>

definition export_patch ::
    "handle_source \<Rightarrow> comparison_summary \<Rightarrow> nat \<Rightarrow> service_state
      \<Rightarrow> (attachment_summary, text_diff_error) result \<times> service_state" where
  "export_patch handles comparison now st0 =
     (let st = expire now st0 in
      case map_of (s_entries st) (cs_comparison_id comparison) of
        None \<Rightarrow> (Err NotFound, st)
      | Some e \<Rightarrow>
          let charge = str_len (sc_patch e) + ENTRY_OVERHEAD in
          if MAX_ATTACHMENTS \<le> length (s_attachments st)
             \<or> MAX_STORE_BYTES < saturating_add (used st) charge
          then (Err Busy, st)
          else
            (case fresh_attachment_id handles st of
               (Inl err, st) \<Rightarrow> (Err err, st)
             | (Inr i, st) \<Rightarrow>
                 let summary =
                   \<lparr>as_schema_version = 1, as_attachment_id = i, as_kind = KPatch,
                    as_total_bytes = str_len (sc_patch e), as_committed_bytes = str_len (sc_patch e),
                    as_sealed = True, as_expires_at = cs_expires_at comparison\<rparr> in
                 (Ok summary,
                  insert_attachment i \<lparr>ad_text = sc_patch e, ad_charge = charge\<rparr> summary (sc_expires e) st)))"

section \<open>The store invariant\<close>

definition attachment_ok :: "rstr \<Rightarrow> stored_attachment \<Rightarrow> attachment_data \<Rightarrow> bool" where
  "attachment_ok i a d \<longleftrightarrow>
     as_attachment_id (sa_summary a) = i \<and>
     as_committed_bytes (sa_summary a) = str_len (ad_text d) \<and>
     as_committed_bytes (sa_summary a) \<le> as_total_bytes (sa_summary a) \<and>
     as_total_bytes (sa_summary a) \<le> maximum (as_kind (sa_summary a)) \<and>
     as_total_bytes (sa_summary a) + ENTRY_OVERHEAD \<le> ad_charge d \<and>
     0 \<notin> set (ad_text d) \<and>
     (as_sealed (sa_summary a) \<longrightarrow>
        as_committed_bytes (sa_summary a) = as_total_bytes (sa_summary a) \<and>
        validate (as_kind (sa_summary a)) (ad_text d) = Ok ())"

definition store_ok :: "service_state \<Rightarrow> bool" where
  "store_ok st \<longleftrightarrow>
     distinct (map fst (s_attachments st)) \<and> distinct (map fst (s_heap st)) \<and>
     distinct (map (\<lambda>(_, a). sa_data a) (s_attachments st)) \<and>
     (\<forall>(i, a) \<in> set (s_attachments st). \<exists>d. map_of (s_heap st) (sa_data a) = Some d \<and> attachment_ok i a d) \<and>
     (\<forall>k \<in> set (s_leases st). map_of (s_heap st) k \<noteq> None) \<and>
     (\<forall>(i, a) \<in> set (s_attachments st). sa_data a \<in> set (s_leases st) \<longrightarrow> as_sealed (sa_summary a)) \<and>
     (\<forall>k \<in> fst ` set (s_heap st). k < s_next_data st \<and> referenced st k) \<and>
     s_attachment_bytes st = charge_sum (s_heap st)"

lemma store_okD:
  assumes "store_ok st"
  shows "distinct (map fst (s_attachments st))" "distinct (map fst (s_heap st))"
    "distinct (map (\<lambda>(_, a). sa_data a) (s_attachments st))"
    "\<And>i a. (i, a) \<in> set (s_attachments st) \<Longrightarrow> \<exists>d. map_of (s_heap st) (sa_data a) = Some d \<and> attachment_ok i a d"
    "\<And>k. k \<in> set (s_leases st) \<Longrightarrow> \<exists>d. map_of (s_heap st) k = Some d"
    "\<And>i a. (i, a) \<in> set (s_attachments st) \<Longrightarrow> sa_data a \<in> set (s_leases st) \<Longrightarrow> as_sealed (sa_summary a)"
    "\<And>k. k \<in> fst ` set (s_heap st) \<Longrightarrow> k < s_next_data st \<and> referenced st k"
    "s_attachment_bytes st = charge_sum (s_heap st)"
proof -
  show "\<And>i a. (i, a) \<in> set (s_attachments st) \<Longrightarrow> \<exists>d. map_of (s_heap st) (sa_data a) = Some d \<and> attachment_ok i a d"
    using assms unfolding store_ok_def by blast
  show "\<And>i a. (i, a) \<in> set (s_attachments st) \<Longrightarrow> sa_data a \<in> set (s_leases st) \<Longrightarrow> as_sealed (sa_summary a)"
    using assms unfolding store_ok_def by blast
  show "\<And>k. k \<in> set (s_leases st) \<Longrightarrow> \<exists>d. map_of (s_heap st) k = Some d"
    using assms unfolding store_ok_def by blast
  show "\<And>k. k \<in> fst ` set (s_heap st) \<Longrightarrow> k < s_next_data st \<and> referenced st k"
    using assms unfolding store_ok_def by blast
qed (use assms in \<open>auto simp: store_ok_def\<close>)

lemma store_okI:
  assumes "distinct (map fst (s_attachments st))" "distinct (map fst (s_heap st))"
    "distinct (map (\<lambda>(_, a). sa_data a) (s_attachments st))"
    "\<And>i a. (i, a) \<in> set (s_attachments st) \<Longrightarrow> \<exists>d. map_of (s_heap st) (sa_data a) = Some d \<and> attachment_ok i a d"
    "\<And>k. k \<in> set (s_leases st) \<Longrightarrow> \<exists>d. map_of (s_heap st) k = Some d"
    "\<And>i a. (i, a) \<in> set (s_attachments st) \<Longrightarrow> sa_data a \<in> set (s_leases st) \<Longrightarrow> as_sealed (sa_summary a)"
    "\<And>k. k \<in> fst ` set (s_heap st) \<Longrightarrow> k < s_next_data st \<and> referenced st k"
    "s_attachment_bytes st = charge_sum (s_heap st)"
  shows "store_ok st"
  unfolding store_ok_def using assms by blast

lemma store_ok_default [simp]: "store_ok state_default"
  by (simp add: store_ok_def state_default_def charge_sum_def)

lemma store_ok_cong:
  assumes "store_ok st" "s_attachments st' = s_attachments st" "s_heap st' = s_heap st"
    "s_leases st' = s_leases st" "s_next_data st' = s_next_data st"
    "s_attachment_bytes st' = s_attachment_bytes st"
  shows "store_ok st'"
  using assms(1) unfolding store_ok_def referenced_def assms(2-) .

lemma charge_sum_filter:
  "charge_sum (filter P h) + charge_sum (filter (\<lambda>x. \<not> P x) h) = charge_sum h"
  by (induction h) (auto simp: charge_sum_def)

lemma map_of_filter_key:
  "P k \<Longrightarrow> map_of (filter (\<lambda>(k, _). P k) h) k = map_of h k"
  by (induction h) auto

text \<open>The destructors: dropping references and then the unreferenced objects.\<close>

lemma store_ok_drop:
  assumes ok: "store_ok st"
    and st': "s_heap st' = s_heap st" "s_next_data st' = s_next_data st"
      "s_attachment_bytes st' = s_attachment_bytes st"
      "s_attachments st' = filter P (s_attachments st)" "set (s_leases st') \<subseteq> set (s_leases st)"
  shows "store_ok (drop_unreferenced st')"
proof -
  let ?h = "filter (\<lambda>(k, _). referenced st' k) (s_heap st)"
  note d = store_okD [OF ok]
  have look: "map_of ?h k = map_of (s_heap st) k" if "referenced st' k" for k
    using that by (rule map_of_filter_key)
  have refa: "referenced st' (sa_data a)" if "(i, a) \<in> set (s_attachments st')" for i a
    using that unfolding referenced_def list_ex_iff by auto
  have refl: "referenced st' k" if "k \<in> set (s_leases st')" for k
    using that by (simp add: referenced_def)
  have "s_attachment_bytes st - charge_sum (filter (\<lambda>(k, _). \<not> referenced st' k) (s_heap st)) = charge_sum ?h"
    using charge_sum_filter [of "\<lambda>(k, _). referenced st' k" "s_heap st"] d(8)
    by (simp add: case_prod_unfold)
  moreover have "distinct (map fst ?h)" using d(2) by (rule distinct_map_filter)
  moreover have "distinct (map (\<lambda>(_, a). sa_data a) (filter P (s_attachments st)))"
    using d(3) by (rule distinct_map_filter)
  moreover have "distinct (map fst (filter P (s_attachments st)))" using d(1) by (rule distinct_map_filter)
  moreover have "\<exists>dd. map_of ?h (sa_data a) = Some dd \<and> attachment_ok i a dd"
    if "(i, a) \<in> set (s_attachments st')" for i a
    using that d(4) [of i a] refa [of i a] look [of "sa_data a"] st'(4) by auto
  moreover have "map_of ?h k \<noteq> None" if "k \<in> set (s_leases st')" for k
    using that d(5) [of k] refl [of k] look [of k] st'(5) by auto
  ultimately show ?thesis
    using st' d(6,7) unfolding store_ok_def drop_unreferenced_def
    by (auto simp: referenced_def [of "s_heap_update _ _"] referenced_def)
qed

lemma store_ok_retain: "store_ok st \<Longrightarrow> store_ok (retain_attachments P st)"
  unfolding retain_attachments_def by (rule store_ok_drop [where P = P]) auto

lemma store_ok_expire: "store_ok st \<Longrightarrow> store_ok (expire now st)"
  unfolding expire_def Let_def
  by (rule store_ok_cong [OF store_ok_retain [of st]]) auto

lemma store_ok_release: "store_ok st \<Longrightarrow> store_ok (release r st)"
  unfolding release_def
  by (cases r) (auto intro!: store_ok_drop [where P = "\<lambda>_. True"] dest: set_remove1_subset [THEN subsetD])

lemma store_ok_lease:
  assumes "store_ok st" "(i, a) \<in> set (s_attachments st)" "as_sealed (sa_summary a)"
  shows "store_ok (lease (RAttachment (sa_data a)) st)"
proof -
  note d = store_okD [OF assms(1)]
  have "a' = a" if "(i', a') \<in> set (s_attachments st)" "sa_data a' = sa_data a" for i' a'
    using d(3) that assms(2) by (auto simp: distinct_map inj_on_def)
  moreover have "map_of (s_heap st) (sa_data a) \<noteq> None" using d(4) [OF assms(2)] by auto
  ultimately show ?thesis
    using assms(3) d unfolding store_ok_def lease_def resolved_text.case
    by (auto simp: referenced_def)
qed

lemma fresh_id_keeps:
  "fresh_id handles n st = (r, st') \<Longrightarrow> st' = st\<lparr>s_generated := s_generated st'\<rparr>"
proof (induction n arbitrary: st)
  case (Suc n)
  from Suc.prems Suc.IH [of "st\<lparr>s_generated := Suc (s_generated st)\<rparr>"] show ?case
    by (auto simp: Let_def split: sum.splits if_splits)
qed simp

lemma fresh_id_fresh:
  "fresh_id handles n st = (Inr i, st') \<Longrightarrow> map_of (s_attachments st) i = None \<and> map_of (s_entries st) i = None \<and>
     (\<exists>k bytes. handles k = Inr bytes \<and> i = hex_string bytes)"
proof (induction n arbitrary: st)
  case (Suc n)
  from Suc.prems Suc.IH [of "st\<lparr>s_generated := Suc (s_generated st)\<rparr>"] show ?case
    by (auto simp: Let_def split: sum.splits if_splits)
qed simp

lemma update_fresh: "map_of al k = None \<Longrightarrow> AList.update k v al = al @ [(k, v)]"
  by (induction al) auto

lemma store_ok_insert:
  assumes "store_ok st" "map_of (s_attachments st) i = None"
    and "attachment_ok i \<lparr>sa_data = s_next_data st, sa_summary = s, sa_expires = e\<rparr> d"
  shows "store_ok (insert_attachment i d s e st)"
proof -
  note o = store_okD [OF assms(1)]
  let ?a = "\<lparr>sa_data = s_next_data st, sa_summary = s, sa_expires = e\<rparr>"
  have new: "s_next_data st \<notin> fst ` set (s_heap st)" using o(7) by blast
  have look: "map_of ((s_next_data st, d) # s_heap st) k = map_of (s_heap st) k"
    if "map_of (s_heap st) k = Some x" for k x
    using that new by (force dest!: map_of_SomeD)
  have data: "sa_data a \<noteq> s_next_data st" if "(j, a) \<in> set (s_attachments st)" for j a
    using o(4) [OF that] new by (force dest!: map_of_SomeD)
  have lease: "k \<noteq> s_next_data st" if "k \<in> set (s_leases st)" for k
    using o(5) [OF that] new by (force dest!: map_of_SomeD)
  let ?st = "insert_attachment i d s e st"
  have st: "s_attachments ?st = s_attachments st @ [(i, ?a)]" "s_heap ?st = (s_next_data st, d) # s_heap st"
      "s_leases ?st = s_leases st" "s_next_data ?st = s_next_data st + 1"
      "s_attachment_bytes ?st = s_attachment_bytes st + ad_charge d"
    using assms(2) by (simp_all add: insert_attachment_def update_fresh)
  show ?thesis
  proof (rule store_okI)
    show "distinct (map fst (s_attachments ?st))"
      using o(1) assms(2) unfolding st by (auto simp: map_of_eq_None_iff)
    show "distinct (map fst (s_heap ?st))" using o(2) new unfolding st by simp
    show "distinct (map (\<lambda>(_, a). sa_data a) (s_attachments ?st))"
    proof -
      have "s_next_data st \<notin> set (map (\<lambda>(_, a). sa_data a) (s_attachments st))" using data by force
      with o(3) show ?thesis unfolding st by simp
    qed
    show "\<exists>dd. map_of (s_heap ?st) (sa_data a) = Some dd \<and> attachment_ok j a dd"
      if "(j, a) \<in> set (s_attachments ?st)" for j a
      using that o(4) [of j a] data [of j a] assms(3) unfolding st by auto
    show "\<exists>dd. map_of (s_heap ?st) k = Some dd" if "k \<in> set (s_leases ?st)" for k
      using that o(5) [of k] lease [of k] unfolding st by auto
    show "as_sealed (sa_summary a)"
      if "(j, a) \<in> set (s_attachments ?st)" "sa_data a \<in> set (s_leases ?st)" for j a
      using that o(6) [of j a] lease [of "sa_data a"] unfolding st by auto
    show "k < s_next_data ?st \<and> referenced ?st k" if "k \<in> fst ` set (s_heap ?st)" for k
    proof -
      from that have "k = s_next_data st \<or> k \<in> fst ` set (s_heap st)" unfolding st by simp
      with o(7) [of k] show ?thesis unfolding referenced_def st by fastforce
    qed
    show "s_attachment_bytes ?st = charge_sum (s_heap ?st)"
      using o(8) unfolding st by (simp add: charge_sum_def)
  qed
qed

text \<open>Appending to the text of an open upload.\<close>

lemma map_of_map_key:
  "map_of (map (\<lambda>(k', d). if k' = k then (k', f d) else (k', d)) h) x =
     (if x = k then map_option f (map_of h k) else map_of h x)"
  by (induction h) auto

lemma store_ok_append:
  assumes "store_ok st" "map_of (s_attachments st) i = Some a" "\<not> as_sealed (sa_summary a)"
    and "attachment_ok i (a\<lparr>sa_summary := s\<rparr>) ((data_of st a)\<lparr>ad_text := t\<rparr>)"
  shows "store_ok (set_summary i s (set_text (sa_data a) t st))"
proof -
  note o = store_okD [OF assms(1)]
  let ?st = "set_summary i s (set_text (sa_data a) t st)"
  have a: "(i, a) \<in> set (s_attachments st)" using assms(2) by (rule map_of_SomeD)
  have uniq: "j = i \<and> b = a" if "(j, b) \<in> set (s_attachments st)" "j = i \<or> sa_data b = sa_data a" for j b
    using o(1,3) a that by (fastforce simp: distinct_map inj_on_def)
  have unleased: "sa_data a \<notin> set (s_leases st)" using o(6) [OF a] assms(3) by blast
  have heap: "map_of (s_heap ?st) k = (if k = sa_data a then Some ((data_of st a)\<lparr>ad_text := t\<rparr>)
      else map_of (s_heap st) k)" for k
  proof -
    obtain dd where dd: "map_of (s_heap st) (sa_data a) = Some dd" using o(4) [OF a] by blast
    then have "data_of st a = dd" by (simp add: data_of_def)
    moreover have "s_heap ?st = map (\<lambda>(k', d). if k' = sa_data a then (k', d\<lparr>ad_text := t\<rparr>) else (k', d)) (s_heap st)"
      by (simp add: set_summary_def set_text_def)
    ultimately show ?thesis using dd by (simp add: map_of_map_key)
  qed
  have att: "(j, b) \<in> set (s_attachments ?st) \<longleftrightarrow>
      (j, b) = (i, a\<lparr>sa_summary := s\<rparr>) \<or> ((j, b) \<in> set (s_attachments st) \<and> j \<noteq> i)" for j b
  proof -
    let ?f = "\<lambda>(i', a). if i' = i then (i', a\<lparr>sa_summary := s\<rparr>) else (i', a)"
    have eq: "s_attachments ?st = map ?f (s_attachments st)" by (simp add: set_summary_def set_text_def)
    have new: "(i, a\<lparr>sa_summary := s\<rparr>) \<in> ?f ` set (s_attachments st)"
      using a image_eqI [of "(i, a\<lparr>sa_summary := s\<rparr>)" ?f "(i, a)"] by simp
    have kept: "(j, b) \<in> ?f ` set (s_attachments st)" if "(j, b) \<in> set (s_attachments st)" "j \<noteq> i"
      using that image_eqI [of "(j, b)" ?f "(j, b)"] by simp
    have only: "(j, b) = (i, a\<lparr>sa_summary := s\<rparr>) \<or> ((j, b) \<in> set (s_attachments st) \<and> j \<noteq> i)"
      if "(j, b) \<in> ?f ` set (s_attachments st)"
    proof -
      from that obtain j' b' where m: "(j', b') \<in> set (s_attachments st)" "?f (j', b') = (j, b)" by force
      with uniq [OF m(1)] show ?thesis by (cases "j' = i") auto
    qed
    show ?thesis unfolding eq set_map using new kept only by (metis (no_types, lifting))
  qed
  have data: "map (\<lambda>(_, a). sa_data a) (s_attachments ?st) = map (\<lambda>(_, a). sa_data a) (s_attachments st)"
    "map fst (s_attachments ?st) = map fst (s_attachments st)" "map fst (s_heap ?st) = map fst (s_heap st)"
    "s_leases ?st = s_leases st" "s_next_data ?st = s_next_data st"
    "s_attachment_bytes ?st = s_attachment_bytes st"
    by (auto simp: set_summary_def set_text_def)
  have charges: "charge_sum (s_heap ?st) = charge_sum (s_heap st)"
    by (auto simp: charge_sum_def set_summary_def set_text_def intro!: arg_cong [where f = sum_list])
  have refs: "referenced ?st k = referenced st k" for k
  proof -
    have "list_ex (\<lambda>(_, a). sa_data a = k) al \<longleftrightarrow> k \<in> set (map (\<lambda>(_, a). sa_data a) al)" for al :: "(rstr \<times> stored_attachment) list"
      by (auto simp: list_ex_iff)
    then show ?thesis unfolding referenced_def data(4) using data(1) by metis
  qed
  have keys: "fst ` set (s_heap ?st) = fst ` set (s_heap st)" using data(3) by (metis set_map)
  show ?thesis
  proof (rule store_okI)
    show "\<exists>dd. map_of (s_heap ?st) (sa_data b) = Some dd \<and> attachment_ok j b dd"
      if "(j, b) \<in> set (s_attachments ?st)" for j b
      using that assms(4) o(4) [of j b] uniq [of j b] unfolding att heap by auto
    show "as_sealed (sa_summary b)"
      if "(j, b) \<in> set (s_attachments ?st)" "sa_data b \<in> set (s_leases ?st)" for j b
      using that unleased o(6) [of j b] unfolding att data(4) by auto
    show "\<exists>dd. map_of (s_heap ?st) k = Some dd" if "k \<in> set (s_leases ?st)" for k
      using that o(5) [of k] unfolding data(4) heap by auto
  qed (use o(1,2,3,7,8) in \<open>simp_all only: data refs charges keys\<close>)
qed

section \<open>Operations keep the invariant\<close>

definition reserve_ok :: "(nat \<Rightarrow> nat option) \<Rightarrow> bool" where
  "reserve_ok reserve \<longleftrightarrow> (\<forall>n c. reserve n = Some c \<longrightarrow> n \<le> c)"

lemma data_of_entry:
  assumes "store_ok st" "map_of (s_attachments st) i = Some a"
  shows "map_of (s_heap st) (sa_data a) = Some (data_of st a) \<and> attachment_ok i a (data_of st a)"
  using store_okD(4) [OF assms(1) map_of_SomeD [OF assms(2)]] by (auto simp: data_of_def)

text \<open>A continuation either changes nothing or appends its chunk at the committed offset.\<close>

lemma upload_continue_cases:
  assumes "upload_continue i req declared st = (r, st')"
  shows "st' = st \<or>
    (\<exists>a. map_of (s_attachments st) i = Some a \<and> \<not> as_sealed (sa_summary a) \<and>
       up_offset req = str_len (ad_text (data_of st a)) \<and>
       (let t' = ad_text (data_of st a) @ up_chunk req;
            s' = (sa_summary a)\<lparr>as_committed_bytes := str_len t', as_sealed := up_complete req\<rparr> in
        str_len t' \<le> as_total_bytes (sa_summary a) \<and>
        (up_complete req \<longrightarrow> str_len t' = as_total_bytes (sa_summary a) \<and>
           validate (as_kind (sa_summary a)) t' = Ok ()) \<and>
        (up_chunk req \<noteq> [] \<or> up_complete req) \<and>
        r = Ok s' \<and> st' = set_summary i s' (set_text (sa_data a) t' st)))"
proof (cases "st' = st")
  case False
  from assms False obtain a where a: "map_of (s_attachments st) i = Some a"
    by (auto simp: upload_continue_def split: sum.splits if_splits option.splits)
  define t where "t = ad_text (data_of st a)"
  from assms False a show ?thesis
    by (auto simp: upload_continue_def t_def [symmetric] Let_def checked_add_Some
        split: sum.splits if_splits option.splits)
qed simp

lemma upload_continue_ok:
  assumes "store_ok st" "upload_continue i req declared st = (r, st')" "0 \<notin> set (up_chunk req)"
  shows "store_ok st'"
  using upload_continue_cases [OF assms(2)]
proof (elim disjE exE conjE)
  fix a
  assume a: "map_of (s_attachments st) i = Some a" "\<not> as_sealed (sa_summary a)"
  define t' where "t' = ad_text (data_of st a) @ up_chunk req"
  define s' where "s' = (sa_summary a)\<lparr>as_committed_bytes := str_len t', as_sealed := up_complete req\<rparr>"
  assume "let t' = ad_text (data_of st a) @ up_chunk req;
            s' = (sa_summary a)\<lparr>as_committed_bytes := str_len t', as_sealed := up_complete req\<rparr> in
        str_len t' \<le> as_total_bytes (sa_summary a) \<and>
        (up_complete req \<longrightarrow> str_len t' = as_total_bytes (sa_summary a) \<and>
           validate (as_kind (sa_summary a)) t' = Ok ()) \<and>
        (up_chunk req \<noteq> [] \<or> up_complete req) \<and>
        r = Ok s' \<and> st' = set_summary i s' (set_text (sa_data a) t' st)"
  then have h: "str_len t' \<le> as_total_bytes (sa_summary a)"
      "up_complete req \<longrightarrow> str_len t' = as_total_bytes (sa_summary a) \<and> validate (as_kind (sa_summary a)) t' = Ok ()"
      "st' = set_summary i s' (set_text (sa_data a) t' st)"
    unfolding t'_def [symmetric] Let_def s'_def [symmetric] by blast+
  have "attachment_ok i (a\<lparr>sa_summary := s'\<rparr>) ((data_of st a)\<lparr>ad_text := t'\<rparr>)"
    using data_of_entry [OF assms(1) a(1)] h(1,2) assms(3)
    by (auto simp: attachment_ok_def s'_def t'_def)
  from store_ok_append [OF assms(1) a this] h(3) show ?thesis by simp
qed (use assms(1) in simp)

lemma fresh_attachment_ok:
  assumes "fresh_attachment_id handles st = (r, st')" "store_ok st"
  shows "store_ok st'"
  using fresh_id_keeps [OF assms(1) [unfolded fresh_attachment_id_def]]
  by (metis (no_types, lifting) assms(2) service_state.select_convs service_state.surjective service_state.update_convs(11) store_ok_cong)

lemma upload_create_ok:
  assumes "store_ok st" "upload_create handles reserve req declared now clock st = (r, st')"
    and "reserve_ok reserve" "0 \<notin> set (up_chunk req)"
  shows "store_ok st'"
proof (cases "\<exists>s. r = Ok s")
  case False
  with assms(2) have "st' = st \<or> (\<exists>x. fresh_attachment_id handles st = (x, st'))"
    by (auto simp: upload_create_def Let_def split: if_splits option.splits sum.splits prod.splits)
  with fresh_attachment_ok assms(1) show ?thesis by blast
next
  case True
  with assms(2) obtain kind n i st1 capacity where
    g: "n \<le> maximum kind" "str_len (up_chunk req) \<le> n" "up_complete req \<longrightarrow> str_len (up_chunk req) = n"
      "up_complete req \<longrightarrow> validate kind (up_chunk req) = Ok ()" and
    f: "fresh_attachment_id handles st = (Inr i, st1)" "reserve n = Some capacity" and
    st': "st' = insert_attachment i \<lparr>ad_text = up_chunk req, ad_charge = capacity + ENTRY_OVERHEAD\<rparr>
      \<lparr>as_schema_version = 1, as_attachment_id = i, as_kind = kind,
       as_total_bytes = n, as_committed_bytes = str_len (up_chunk req),
       as_sealed = up_complete req, as_expires_at = saturating_add clock 600\<rparr> (now + RETENTION) st1"
    by (auto simp: upload_create_def Let_def not_less split: if_splits option.splits sum.splits prod.splits)
  have st1: "store_ok st1" by (rule fresh_attachment_ok [OF f(1) assms(1)])
  have "map_of (s_attachments st) i = None" "s_attachments st1 = s_attachments st"
    using fresh_id_fresh [OF f(1) [unfolded fresh_attachment_id_def]]
      fresh_id_keeps [OF f(1) [unfolded fresh_attachment_id_def]]
    by (auto, metis service_state.select_convs(1) service_state.surjective service_state.update_convs(11))
  moreover have "n \<le> capacity" using assms(3) f(2) by (auto simp: reserve_ok_def)
  ultimately show ?thesis
    unfolding st' using g assms(4) by (intro store_ok_insert [OF st1]) (auto simp: attachment_ok_def)
qed

lemma upload_ok:
  assumes "store_ok st" "upload_attachment_with_kind handles reserve req declared now clock st = (r, st')"
    and "reserve_ok reserve"
  shows "store_ok st'"
proof -
  have e: "store_ok (expire now st)" by (rule store_ok_expire [OF assms(1)])
  from assms show ?thesis
    by (auto simp: upload_attachment_with_kind_def Let_def e split: if_splits option.splits
        intro: upload_continue_ok [OF e] upload_create_ok [OF e])
qed

lemma fresh_attachment_keeps:
  assumes "fresh_attachment_id handles st = (r, st')"
  shows "s_attachments st' = s_attachments st" "s_heap st' = s_heap st" "s_leases st' = s_leases st"
    "s_next_data st' = s_next_data st" "s_attachment_bytes st' = s_attachment_bytes st"
    "s_entries st' = s_entries st" "s_reserved st' = s_reserved st"
    "s_reserved_slots st' = s_reserved_slots st" "s_cancelled st' = s_cancelled st"
    "s_stopping st' = s_stopping st"
proof -
  obtain g where "st' = st\<lparr>s_generated := g\<rparr>"
    using fresh_id_keeps [OF assms [unfolded fresh_attachment_id_def]] by blast
  then show "s_attachments st' = s_attachments st" "s_heap st' = s_heap st" "s_leases st' = s_leases st"
    "s_next_data st' = s_next_data st" "s_attachment_bytes st' = s_attachment_bytes st"
    "s_entries st' = s_entries st" "s_reserved st' = s_reserved st"
    "s_reserved_slots st' = s_reserved_slots st" "s_cancelled st' = s_cancelled st"
    "s_stopping st' = s_stopping st"
    by simp_all
qed

lemma fresh_attachment_fresh:
  "fresh_attachment_id handles st = (Inr i, st') \<Longrightarrow>
     map_of (s_attachments st) i = None \<and> map_of (s_entries st) i = None"
  using fresh_id_fresh [of handles 4 st i st'] by (auto simp: fresh_attachment_id_def)

text \<open>A sealed attachment inserted under a fresh handle.\<close>

lemma insert_sealed_ok:
  assumes "store_ok st" "fresh_attachment_id handles st = (Inr i, st1)"
    and "validate kind t = Ok ()" "str_len t + ENTRY_OVERHEAD \<le> charge"
  shows "store_ok (insert_attachment i \<lparr>ad_text = t, ad_charge = charge\<rparr>
      \<lparr>as_schema_version = v, as_attachment_id = i, as_kind = kind, as_total_bytes = str_len t,
       as_committed_bytes = str_len t, as_sealed = True, as_expires_at = e\<rparr> ex st1)"
proof (rule store_ok_insert [OF fresh_attachment_ok [OF assms(2,1)]])
  show "map_of (s_attachments st1) i = None"
    using fresh_attachment_fresh [OF assms(2)] fresh_attachment_keeps(1) [OF assms(2)] by simp
qed (use assms(3,4) in \<open>auto simp: attachment_ok_def validate_def split: if_splits\<close>)

lemma publish_ok:
  assumes "store_ok st" "publish_attachment handles t capacity kind now clock st = (r, st')" "str_len t \<le> capacity"
  shows "store_ok st'"
proof -
  have e: "store_ok (expire now st)" by (rule store_ok_expire [OF assms(1)])
  from assms show ?thesis
    by (auto simp: publish_attachment_def Let_def e split: if_splits sum.splits prod.splits
        intro: insert_sealed_ok [OF e] fresh_attachment_ok [OF _ e])
qed

lemma export_ok:
  assumes "store_ok st" "export_patch handles c now st = (r, st')"
    and "\<And>i e. (i, e) \<in> set (s_entries st) \<Longrightarrow> validate KPatch (sc_patch e) = Ok ()"
  shows "store_ok st'"
proof -
  have e: "store_ok (expire now st)" by (rule store_ok_expire [OF assms(1)])
  have "validate KPatch (sc_patch x) = Ok ()" if "map_of (s_entries (expire now st)) i = Some x" for i x
    using map_of_SomeD [OF that] assms(3) by (auto simp: expire_def Let_def retain_attachments_def drop_unreferenced_def)
  with assms(2) show ?thesis
    by (auto simp: export_patch_def Let_def e split: if_splits sum.splits prod.splits option.splits
        intro: insert_sealed_ok [OF e] fresh_attachment_ok [OF _ e])
qed

lemma resolve_OkD:
  assumes "resolve_attachment handle kind st = Ok r"
  obtains a where "map_of (s_attachments st) (attachment_id handle) = Some a" "as_sealed (sa_summary a)"
    "as_kind (sa_summary a) = kind" "r = RAttachment (sa_data a)"
  using assms by (auto simp: resolve_attachment_def result_simps)

lemma resolve_ok:
  assumes "store_ok st" "resolve input kind now st = (r, st')"
  shows "store_ok st'"
proof -
  have e: "store_ok (expire now st)" by (rule store_ok_expire [OF assms(1)])
  have "store_ok (lease x (expire now st))" if "resolve_attachment handle kind (expire now st) = Ok x" for handle x
    using resolve_OkD [OF that] store_ok_lease [OF e map_of_SomeD] by metis
  with assms e show ?thesis
    by (auto simp: resolve_def Let_def split: text_source.splits sum.splits)
qed

lemma read_state: "snd (read_attachment_with_kind req declared now st) \<in> {st, expire now st}"
  by (auto simp: read_attachment_with_kind_def Let_def split: sum.splits)

lemma delete_ok:
  "store_ok st \<Longrightarrow> delete_attachment_with_kind i declared now st = (r, st') \<Longrightarrow> store_ok st'"
  by (auto simp: delete_attachment_with_kind_def Let_def store_ok_expire store_ok_retain split: sum.splits)

section \<open>Expiry\<close>

lemma store_ok_all_referenced:
  assumes "store_ok st"
  shows "drop_unreferenced st = st"
proof -
  have r: "\<And>k d. (k, d) \<in> set (s_heap st) \<Longrightarrow> referenced st k"
    using store_okD(7) [OF assms] by force
  then have "filter (\<lambda>(k, _). referenced st k) (s_heap st) = s_heap st"
    by (intro filter_True) auto
  moreover have "filter (\<lambda>(k, _). \<not> referenced st k) (s_heap st) = []" using r by (auto simp: filter_empty_conv)
  ultimately show ?thesis by (simp add: drop_unreferenced_def charge_sum_def)
qed

definition current :: "nat \<Rightarrow> service_state \<Rightarrow> bool" where
  "current now st \<longleftrightarrow> list_all (\<lambda>(_, a). now < sa_expires a) (s_attachments st) \<and>
     list_all (\<lambda>(_, e). now < sc_expires e \<and> sc_caller e \<notin> set (s_cancelled st)) (s_entries st)"

lemma expire_current: "store_ok st \<Longrightarrow> current now st \<Longrightarrow> expire now st = st"
proof -
  assume ok: "store_ok st" and c: "current now st"
  have "filter (\<lambda>(_, a). now < sa_expires a) (s_attachments st) = s_attachments st"
    using c by (simp add: current_def filter_id_conv list_all_iff)
  then have "retain_attachments (\<lambda>(_, a). now < sa_expires a) st = st"
    by (simp add: retain_attachments_def store_ok_all_referenced [OF ok])
  moreover have "filter (\<lambda>(_, e). now < sc_expires e \<and> sc_caller e \<notin> set (s_cancelled st)) (s_entries st) = s_entries st"
    using c by (simp add: current_def filter_id_conv list_all_iff)
  ultimately show ?thesis by (simp add: expire_def Let_def)
qed

lemma drop_keeps [simp]:
  "s_attachments (drop_unreferenced st) = s_attachments st" "s_entries (drop_unreferenced st) = s_entries st"
  "s_leases (drop_unreferenced st) = s_leases st" "s_cancelled (drop_unreferenced st) = s_cancelled st"
  "s_reserved (drop_unreferenced st) = s_reserved st" "s_stopping (drop_unreferenced st) = s_stopping st"
  "s_reserved_slots (drop_unreferenced st) = s_reserved_slots st" "s_next_data (drop_unreferenced st) = s_next_data st"
  by (simp_all add: drop_unreferenced_def)

lemma expire_keeps [simp]:
  "s_attachments (expire now st) = filter (\<lambda>(_, a). now < sa_expires a) (s_attachments st)"
  "s_entries (expire now st) = filter (\<lambda>(_, e). now < sc_expires e \<and> sc_caller e \<notin> set (s_cancelled st)) (s_entries st)"
  "s_leases (expire now st) = s_leases st" "s_cancelled (expire now st) = s_cancelled st"
  "s_reserved (expire now st) = s_reserved st" "s_stopping (expire now st) = s_stopping st"
  "s_reserved_slots (expire now st) = s_reserved_slots st" "s_next_data (expire now st) = s_next_data st"
  by (simp_all add: expire_def retain_attachments_def Let_def)

lemma current_expire [simp]: "current now (expire now st)"
  by (auto simp: current_def list_all_iff)

end
