(* ===== verification/Diff_Service.thy ===== *)
theory Diff_Service
  imports Attachments
begin

text \<open>
  The comparison service: \<open>crates/application/src/text_diff.rs\<close> and the asynchronous half of
  \<open>crates/application/src/text_diff/attachments.rs\<close>.

  A \<open>service\<close> holds the mutex-protected state of the theory \<open>Attachments\<close>, the semaphore's free
  permits, the tasks of the join set, the finished tasks that were not joined yet (\<open>True\<close> for one
  that panicked), the callers that still wait for a task (their oneshot receiver, completion guard
  and input leases) and the flags and counters.  A task is cut at the points where it takes or
  releases the lock, so every function below is one atomic step of the program: a comparison goes
  from \<open>CRunning\<close> (in the engine) over \<open>CValidated\<close> (its output passed \<open>paging::changes\<close>) and
  \<open>CPublished\<close> (result fixed, reservation still held) to \<open>CReleased\<close>; a patch application over
  \<open>ARunning\<close>, \<open>AChecked\<close> and \<open>APublished\<close> to \<open>ASent\<close>.  Tokens are numbers; a cancelled one is
  in \<open>s_cancelled\<close>.

  The engine's answer, clock readings and a vector's capacity are arguments of the steps.  The
  lengths of JSON encodings, the sizes of Rust types, the handle generator and the allocator are
  fields of \<open>service_env\<close>.
\<close>

section \<open>Environment and state\<close>

record type_layout =
  ly_fragment_vec :: nat
  ly_fragment :: nat
  ly_inline_change :: nat
  ly_scalar_range :: nat

record service_env =
  en_handles :: handle_source
  en_reserve :: "nat \<Rightarrow> nat option"
  en_json_fragment :: "diff_fragment \<Rightarrow> nat option"
  en_json_line :: "rstr \<Rightarrow> nat option"
  en_json_origin :: "snapshot_comparison_origin option \<Rightarrow> nat option"
  en_json_page :: "page_response \<Rightarrow> nat option"
  en_layout :: type_layout

datatype allocation =
    ChangePages
  | ChangePage nat
  | FragmentPatch nat nat
  | FragmentChanges nat nat
  | ChangeRanges nat nat nat

record resolved_compare =
  rc_before :: resolved_text
  rc_after :: resolved_text
  rc_before_label :: "rstr option"
  rc_after_label :: "rstr option"

definition resolved_compare_from :: "compare_input \<Rightarrow> resolved_compare" where
  "resolved_compare_from input =
     \<lparr>rc_before = RInline (ci_before input), rc_after = RInline (ci_after input),
      rc_before_label = ci_before_label input, rc_after_label = ci_after_label input\<rparr>"

datatype compare_phase =
    CRunning
  | CValidated computed_diff nat "diff_fragment list list" nat nat
  | CPublished "(comparison_summary, text_diff_error) result"
  | CReleased "(comparison_summary, text_diff_error) result"

record compare_job =
  cj_deadline :: nat
  cj_before :: rstr
  cj_after :: rstr
  cj_before_info :: text_information
  cj_after_info :: text_information
  cj_origin :: "snapshot_comparison_origin option"
  cj_phase :: compare_phase

datatype apply_phase =
    ARunning
  | AChecked rstr nat text_information
  | APublished "(apply_patch_result, text_diff_error) result"
  | ASent

record apply_job =
  pj_deadline :: nat
  pj_target :: resolved_text
  pj_patch :: resolved_text
  pj_phase :: apply_phase

datatype job = JCompare compare_job | JApply apply_job

datatype 'r buffer = Pending | Sent "('r, text_diff_error) result" | Closed

record 'r call =
  cl_leases :: "resolved_text list"
  cl_deadline :: nat
  cl_buffer :: "'r buffer"

record service =
  sv_state :: service_state
  sv_permits :: nat
  sv_jobs :: "(nat \<times> job) list"
  sv_finished :: "bool list"
  sv_compares :: "(nat \<times> comparison_summary call) list"
  sv_applies :: "(nat \<times> apply_patch_result call) list"
  sv_next_token :: nat
  sv_shutdown :: bool
  sv_worker_failed :: bool
  sv_run_failed :: bool
  sv_completed :: nat
  sv_failed :: nat

definition service_new :: service where
  "service_new =
     \<lparr>sv_state = state_default, sv_permits = 2, sv_jobs = [], sv_finished = [], sv_compares = [],
      sv_applies = [], sv_next_token = 0, sv_shutdown = False, sv_worker_failed = False,
      sv_run_failed = False, sv_completed = 0, sv_failed = 0\<rparr>"

section \<open>Accounting of a stored comparison\<close>

definition add_bytes :: "nat \<Rightarrow> nat \<Rightarrow> nat \<Rightarrow> (nat, text_diff_error) result" where
  "add_bytes count item bytes =
     and_then (ok_or (checked_mul count item) ResourceLimit) (\<lambda>n. ok_or (checked_add bytes n) ResourceLimit)"

fun retain_ranges ::
    "type_layout \<Rightarrow> (allocation \<Rightarrow> nat) \<Rightarrow> nat \<Rightarrow> nat \<Rightarrow> nat \<Rightarrow> inline_change list \<Rightarrow> nat \<Rightarrow> (nat, text_diff_error) result" where
  "retain_ranges ly caps p f k [] bytes = Ok bytes"
| "retain_ranges ly caps p f k (c # cs) bytes =
     and_then (add_bytes (caps (ChangeRanges p f k)) (ly_scalar_range ly) bytes)
       (retain_ranges ly caps p f (k + 1) cs)"

fun retain_fragments ::
    "type_layout \<Rightarrow> (allocation \<Rightarrow> nat) \<Rightarrow> nat \<Rightarrow> nat \<Rightarrow> diff_fragment list \<Rightarrow> nat \<Rightarrow> (nat, text_diff_error) result" where
  "retain_fragments ly caps p f [] bytes = Ok bytes"
| "retain_fragments ly caps p f (x # xs) bytes =
     and_then (add_bytes (caps (FragmentPatch p f)) 1 bytes) (\<lambda>bytes.
     and_then (add_bytes (caps (FragmentChanges p f)) (ly_inline_change ly) bytes) (\<lambda>bytes.
     and_then (retain_ranges ly caps p f 0 (df_inline_changes x) bytes)
       (retain_fragments ly caps p (f + 1) xs)))"

fun retain_pages ::
    "type_layout \<Rightarrow> (allocation \<Rightarrow> nat) \<Rightarrow> nat \<Rightarrow> diff_fragment list list \<Rightarrow> nat \<Rightarrow> (nat, text_diff_error) result" where
  "retain_pages ly caps p [] bytes = Ok bytes"
| "retain_pages ly caps p (page # pages) bytes =
     and_then (add_bytes (caps (ChangePage p)) (ly_fragment ly) bytes) (\<lambda>bytes.
     and_then (retain_fragments ly caps p 0 page bytes)
       (retain_pages ly caps (p + 1) pages))"

definition retained_bytes ::
    "type_layout \<Rightarrow> (allocation \<Rightarrow> nat) \<Rightarrow> rstr \<Rightarrow> rstr \<Rightarrow> diff_fragment list list \<Rightarrow> (nat, text_diff_error) result" where
  "retained_bytes ly caps before after pages =
     and_then (add_bytes (str_len before) 1 4096) (\<lambda>bytes.
     and_then (add_bytes (str_len after) 1 bytes) (\<lambda>bytes.
     and_then (add_bytes (caps ChangePages) (ly_fragment_vec ly) bytes)
       (retain_pages ly caps 0 pages)))"

section \<open>Admission\<close>

definition reserve_job :: "service_state \<Rightarrow> service_state" where
  "reserve_job st = st\<lparr>s_reserved := s_reserved st + JOB_RESERVATION, s_reserved_slots := s_reserved_slots st + 1\<rparr>"

definition drop_reservation :: "service_state \<Rightarrow> service_state" where
  "drop_reservation st = st\<lparr>s_reserved := s_reserved st - JOB_RESERVATION, s_reserved_slots := s_reserved_slots st - 1\<rparr>"

text \<open>Joining the finished tasks stops at the first one that panicked.\<close>

fun join_finished :: "bool list \<Rightarrow> bool \<times> bool list" where
  "join_finished [] = (False, [])"
| "join_finished (panicked # rest) = (if panicked then (True, rest) else join_finished rest)"

definition admit ::
    "(service_state \<Rightarrow> bool) \<Rightarrow> nat \<Rightarrow> service \<Rightarrow> (unit, text_diff_error) result \<times> service" where
  "admit full now sv =
     (if sv_permits sv = 0 then (Err Busy, sv)
      else
        case join_finished (sv_finished sv) of
          (True, rest) \<Rightarrow>
            (Err Internal, sv\<lparr>sv_finished := rest, sv_worker_failed := True, sv_shutdown := True\<rparr>)
        | (False, rest) \<Rightarrow>
            let st = expire now (sv_state sv); sv = sv\<lparr>sv_finished := rest, sv_state := st\<rparr> in
            if s_stopping st \<or> sv_shutdown sv then (Err Unavailable, sv)
            else if full st then (Err Busy, sv)
            else (Ok (), sv\<lparr>sv_state := reserve_job st, sv_permits := sv_permits sv - 1\<rparr>))"

definition compare_full :: "service_state \<Rightarrow> bool" where
  "compare_full st \<longleftrightarrow>
     MAX_ENTRIES \<le> length (s_entries st) + s_reserved_slots st \<or>
     MAX_STORE_BYTES < sum_list (map (\<lambda>(_, e). sc_bytes e) (s_entries st))
       + s_attachment_bytes st + s_reserved st + JOB_RESERVATION"

definition apply_full :: "service_state \<Rightarrow> bool" where
  "apply_full st \<longleftrightarrow>
     MAX_ENTRIES \<le> length (s_entries st) + s_reserved_slots st \<or>
     MAX_ATTACHMENTS \<le> length (s_attachments st) \<or>
     MAX_STORE_BYTES < saturating_add (used st) JOB_RESERVATION"

definition release_all :: "resolved_text list \<Rightarrow> service \<Rightarrow> service" where
  "release_all rs sv = sv\<lparr>sv_state := fold release rs (sv_state sv)\<rparr>"

definition label_or :: "rstr option \<Rightarrow> rstr \<Rightarrow> rstr" where
  "label_or label d = (case label of None \<Rightarrow> d | Some l \<Rightarrow> l)"

text \<open>The first half of \<open>compare_inner\<close>, up to the spawn; a refusal drops the inputs.\<close>

definition compare_begin ::
    "resolved_compare \<Rightarrow> snapshot_comparison_origin option \<Rightarrow> bool \<Rightarrow> nat \<Rightarrow> nat \<Rightarrow> service
      \<Rightarrow> (nat, text_diff_error) result \<times> service" where
  "compare_begin input origin cancelled now deadline sv =
     (let before = resolved_str (sv_state sv) (rc_before input);
          after = resolved_str (sv_state sv) (rc_after input);
          leases = [rc_before input, rc_after input] in
      case text_info before (label_or (rc_before_label input) (lit ''Before'')) of
        Inl e \<Rightarrow> (Err e, release_all leases sv)
      | Inr before_info \<Rightarrow>
      (case text_info after (label_or (rc_after_label input) (lit ''After'')) of
        Inl e \<Rightarrow> (Err e, release_all leases sv)
      | Inr after_info \<Rightarrow>
      if cancelled \<or> deadline \<le> now then (Err Cancelled, release_all leases sv)
      else
        (case admit compare_full now sv of
           (Inl e, sv) \<Rightarrow> (Err e, release_all leases sv)
         | (Inr _, sv) \<Rightarrow>
             let token = sv_next_token sv; deadline = min deadline (now + 10) in
             (Ok token, sv\<lparr>sv_next_token := token + 1,
                sv_jobs := sv_jobs sv @ [(token, JCompare
                  \<lparr>cj_deadline = deadline, cj_before = before, cj_after = after,
                   cj_before_info = before_info, cj_after_info = after_info,
                   cj_origin = origin, cj_phase = CRunning\<rparr>)],
                sv_compares := sv_compares sv @
                  [(token, \<lparr>cl_leases = leases, cl_deadline = deadline, cl_buffer = Pending\<rparr>)]\<rparr>))))"

definition service_compare where
  "service_compare input cancelled now deadline sv =
     compare_begin (resolved_compare_from input) None cancelled now deadline sv"

text \<open>The projection of two retained snapshots of one record.\<close>

definition snapshot_input ::
    "snapshot_envelope \<Rightarrow> snapshot_envelope \<Rightarrow> (compare_input \<times> snapshot_comparison_origin, text_diff_error) result" where
  "snapshot_input before after =
     (case se_query before of
        Search _ _ _ _ \<Rightarrow> Err InvalidInput
      | Get source i \<Rightarrow>
          if se_query before \<noteq> se_query after \<or> \<not> se_synthetic before \<or> \<not> se_synthetic after
          then Err InvalidInput
          else case (se_data before, se_data after) of
            (RDGet a, RDGet b) \<Rightarrow>
              if r_source a \<noteq> source \<or> r_id a \<noteq> i \<or> r_source a \<noteq> r_source b \<or> r_id a \<noteq> r_id b
              then Err InvalidInput
              else Ok
                (\<lparr>ci_before = r_title a @ [NL, NL] @ r_body a, ci_after = r_title b @ [NL, NL] @ r_body b,
                  ci_before_label = Some (lit ''Snapshot '' @ ss_snapshot_id (se_snapshot before)),
                  ci_after_label = Some (lit ''Snapshot '' @ ss_snapshot_id (se_snapshot after))\<rparr>,
                 \<lparr>co_source = source, co_record_id = i, co_before = se_snapshot before,
                  co_after = se_snapshot after, co_projection = lit ''title_lf_lf_body_v1''\<rparr>)
          | _ \<Rightarrow> Err InvalidInput)"

definition compare_snapshots where
  "compare_snapshots before after cancelled now deadline sv =
     (case snapshot_input before after of
        Inl e \<Rightarrow> (Err e, sv)
      | Inr (input, origin) \<Rightarrow>
          compare_begin (resolved_compare_from input) (Some origin) cancelled now deadline sv)"

text \<open>\<open>compare_sources\<close> up to the spawn: both inputs are resolved, then compared.\<close>

definition compare_sources_begin ::
    "diff_input \<Rightarrow> bool \<Rightarrow> nat \<Rightarrow> nat \<Rightarrow> service \<Rightarrow> (nat, text_diff_error) result \<times> service" where
  "compare_sources_begin input cancelled now deadline sv =
     (case resolve (di_before input) KText now (sv_state sv) of
        (Inl e, st) \<Rightarrow> (Err e, sv\<lparr>sv_state := st\<rparr>)
      | (Inr before, st) \<Rightarrow>
          (case resolve (di_after input) KText now st of
             (Inl e, st) \<Rightarrow> (Err e, sv\<lparr>sv_state := release before st\<rparr>)
           | (Inr after, st) \<Rightarrow>
               compare_begin
                 \<lparr>rc_before = before, rc_after = after, rc_before_label = di_before_label input,
                  rc_after_label = di_after_label input\<rparr> None cancelled now deadline (sv\<lparr>sv_state := st\<rparr>)))"

definition apply_patch_begin ::
    "apply_patch_input \<Rightarrow> bool \<Rightarrow> nat \<Rightarrow> nat \<Rightarrow> service \<Rightarrow> (nat, text_diff_error) result \<times> service" where
  "apply_patch_begin input cancelled now deadline sv =
     (case resolve (ai_target input) KText now (sv_state sv) of
        (Inl e, st) \<Rightarrow> (Err e, sv\<lparr>sv_state := st\<rparr>)
      | (Inr target, st) \<Rightarrow>
          (case resolve (ai_patch input) KPatch now st of
             (Inl e, st) \<Rightarrow> (Err e, sv\<lparr>sv_state := release target st\<rparr>)
           | (Inr patch, st) \<Rightarrow>
               let sv = sv\<lparr>sv_state := st\<rparr> in
               if cancelled \<or> deadline \<le> now then (Err Cancelled, release_all [target, patch] sv)
               else
                 (case admit apply_full now sv of
                    (Inl e, sv) \<Rightarrow> (Err e, release_all [target, patch] sv)
                  | (Inr _, sv) \<Rightarrow>
                      let token = sv_next_token sv; deadline = min deadline (now + 10) in
                      (Ok token, sv\<lparr>sv_next_token := token + 1,
                         sv_jobs := sv_jobs sv @ [(token, JApply
                           \<lparr>pj_deadline = deadline, pj_target = target, pj_patch = patch,
                            pj_phase = ARunning\<rparr>)],
                         sv_applies := sv_applies sv @
                           [(token, \<lparr>cl_leases = [], cl_deadline = deadline, cl_buffer = Pending\<rparr>)]\<rparr>))))"

section \<open>Comparison tasks\<close>

text \<open>The engine has answered: cancellation, size and \<open>paging::changes\<close>.  The second component of
  the engine's value is the capacity of the patch string.\<close>

definition compare_check ::
    "service_env \<Rightarrow> nat \<Rightarrow> (computed_diff \<times> nat, text_diff_error) result \<Rightarrow> nat \<Rightarrow> service \<Rightarrow> compare_job \<Rightarrow> compare_phase" where
  "compare_check env token answer now sv j =
     (case answer of
        Inl e \<Rightarrow> CPublished (Err e)
      | Inr (computed, capacity) \<Rightarrow>
          if token \<in> set (s_cancelled (sv_state sv)) \<or> sv_shutdown sv \<or> cj_deadline j \<le> now
          then CPublished (Err Cancelled)
          else if MAX_PATCH_BYTES < str_len (cd_patch computed) then CPublished (Err ResourceLimit)
          else
            (case changes (en_json_fragment env) (en_json_line env) computed (cj_before j) (cj_after j) of
               Inl e \<Rightarrow> CPublished (Err e)
             | Inr (pages, additions, deletions) \<Rightarrow> CValidated computed capacity pages additions deletions))"

text \<open>The loop that draws a handle for a comparison; a fourth collision is an error.\<close>

fun fresh_comparison_id ::
    "handle_source \<Rightarrow> nat \<Rightarrow> service_state \<Rightarrow> (rstr, text_diff_error) result \<times> service_state" where
  "fresh_comparison_id handles 0 st = (Err Internal, st)"
| "fresh_comparison_id handles (Suc n) st =
     (let st' = st\<lparr>s_generated := s_generated st + 1\<rparr> in
      case handles (s_generated st) of
        Inl e \<Rightarrow> (Err e, st')
      | Inr bytes \<Rightarrow>
          let i = hex_string bytes in
          if map_of (s_entries st) i = None then (Ok i, st') else fresh_comparison_id handles n st')"

text \<open>Publication under the lock.\<close>

definition compare_store ::
    "service_env \<Rightarrow> (allocation \<Rightarrow> nat) \<Rightarrow> nat \<Rightarrow> compare_job \<Rightarrow> computed_diff \<Rightarrow> nat \<Rightarrow> diff_fragment list list
      \<Rightarrow> nat \<Rightarrow> nat \<Rightarrow> nat \<Rightarrow> nat \<Rightarrow> rstr \<Rightarrow> service_state
      \<Rightarrow> (comparison_summary, text_diff_error) result \<times> service_state" where
  "compare_store env caps token j computed capacity pages additions deletions now clock i st =
     (let equal = (cj_before j = cj_after j) in
      if equal \<noteq> (additions = 0 \<and> deletions = 0) then (Err Internal, st)
      else
        let summary = \<lparr>cs_schema_version = 1, cs_comparison_id = i,
              cs_expires_at = saturating_add clock 600,
              cs_before = cj_before_info j, cs_after = cj_after_info j,
              cs_additions = additions, cs_deletions = deletions, cs_equal = equal,
              cs_change_pages = length pages, cs_origin = cj_origin j\<rparr> in
        case en_json_origin env (cs_origin summary) of
          None \<Rightarrow> (Err Internal, st)
        | Some origin_bytes \<Rightarrow>
            (case retained_bytes (en_layout env) caps (cj_before j) (cj_after j) pages of
               Inl e \<Rightarrow> (Err e, st)
             | Inr retained \<Rightarrow>
                 let bytes = retained + origin_bytes + capacity in
                 if JOB_RESERVATION < bytes then (Err ResourceLimit, st)
                 else (Ok summary, st\<lparr>s_entries := AList.update i
                   \<lparr>sc_patch = cd_patch computed, sc_summary = summary, sc_before = cj_before j,
                    sc_after = cj_after j, sc_changes = pages, sc_expires = now + RETENTION,
                    sc_caller = token, sc_bytes = bytes\<rparr> (s_entries st)\<rparr>)))"

definition compare_publish ::
    "service_env \<Rightarrow> (allocation \<Rightarrow> nat) \<Rightarrow> nat \<Rightarrow> compare_job \<Rightarrow> computed_diff \<Rightarrow> nat \<Rightarrow> diff_fragment list list
      \<Rightarrow> nat \<Rightarrow> nat \<Rightarrow> nat \<Rightarrow> nat \<Rightarrow> service_state
      \<Rightarrow> (comparison_summary, text_diff_error) result \<times> service_state" where
  "compare_publish env caps token j computed capacity pages additions deletions now clock st =
     (if s_stopping st \<or> token \<in> set (s_cancelled st) \<or> cj_deadline j \<le> now then (Err Cancelled, st)
      else case fresh_comparison_id (en_handles env) 4 st of
        (Inl e, st) \<Rightarrow> (Err e, st)
      | (Inr i, st) \<Rightarrow> compare_store env caps token j computed capacity pages additions deletions now clock i st)"

definition u64_succ :: "nat \<Rightarrow> nat" where
  "u64_succ n = (n + 1) mod 2 ^ 64"

text \<open>\<open>drop(reservation)\<close> and the outcome counters.\<close>

definition compare_release :: "(comparison_summary, text_diff_error) result \<Rightarrow> service \<Rightarrow> service" where
  "compare_release r sv = sv\<lparr>sv_state := drop_reservation (sv_state sv),
     sv_completed := (if is_ok r then u64_succ (sv_completed sv) else sv_completed sv),
     sv_failed := (if is_ok r then sv_failed sv else u64_succ (sv_failed sv))\<rparr>"

definition delete_comparison :: "rstr \<Rightarrow> service_state \<Rightarrow> (unit, text_diff_error) result \<times> service_state" where
  "delete_comparison i st =
     (case valid_handle i of
        Inl e \<Rightarrow> (Err e, st)
      | Inr _ \<Rightarrow> (Ok (), st\<lparr>s_entries := filter (\<lambda>(i', _). i' \<noteq> i) (s_entries st)\<rparr>))"

definition deliver :: "nat \<Rightarrow> ('r, text_diff_error) result \<Rightarrow> (nat \<times> 'r call) list \<Rightarrow> (nat \<times> 'r call) list" where
  "deliver token r calls =
     map (\<lambda>(t, c). if t = token then (t, c\<lparr>cl_buffer := Sent r\<rparr>) else (t, c)) calls"

text \<open>The task sends its result, or withdraws what it published when nobody waits, and ends; the
  caller of the step removes it from the join set.\<close>

definition task_end :: "bool \<Rightarrow> service \<Rightarrow> service" where
  "task_end panicked sv = sv\<lparr>sv_permits := sv_permits sv + 1, sv_finished := sv_finished sv @ [panicked]\<rparr>"

definition compare_send ::
    "nat \<Rightarrow> (comparison_summary, text_diff_error) result \<Rightarrow> service \<Rightarrow> service" where
  "compare_send token r sv = task_end False
     (if map_of (sv_compares sv) token \<noteq> None
      then sv\<lparr>sv_compares := deliver token r (sv_compares sv)\<rparr>
      else case r of
        Inl _ \<Rightarrow> sv
      | Inr summary \<Rightarrow> sv\<lparr>sv_state := snd (delete_comparison (cs_comparison_id summary) (sv_state sv))\<rparr>)"

definition close_channel :: "nat \<Rightarrow> (nat \<times> 'r call) list \<Rightarrow> (nat \<times> 'r call) list" where
  "close_channel token calls =
     map (\<lambda>(t, c). if t = token then (t, c\<lparr>cl_buffer := Closed\<rparr>) else (t, c)) calls"

text \<open>A panic of the engine unwinds the task: its reservation, permit and leases are dropped and
  its sender is closed.\<close>

definition compare_panic :: "nat \<Rightarrow> service \<Rightarrow> service" where
  "compare_panic token sv = task_end True
     (sv\<lparr>sv_state := drop_reservation (sv_state sv), sv_compares := close_channel token (sv_compares sv)\<rparr>)"

section \<open>Patch application tasks\<close>

definition apply_check ::
    "nat \<Rightarrow> (rstr \<times> nat, text_diff_error) result \<Rightarrow> nat \<Rightarrow> service \<Rightarrow> apply_job \<Rightarrow> apply_phase" where
  "apply_check token answer now sv j =
     (case answer of
        Inl e \<Rightarrow> APublished (Err e)
      | Inr (t, capacity) \<Rightarrow>
          if token \<in> set (s_cancelled (sv_state sv)) \<or> sv_shutdown sv \<or> pj_deadline j \<le> now
          then APublished (Err Cancelled)
          else (case text_info t (lit ''Patched text'') of
                  Inl e \<Rightarrow> APublished (Err e)
                | Inr info \<Rightarrow> AChecked t capacity info))"

definition apply_publish ::
    "service_env \<Rightarrow> rstr \<Rightarrow> nat \<Rightarrow> text_information \<Rightarrow> nat \<Rightarrow> nat \<Rightarrow> service_state
      \<Rightarrow> (apply_patch_result, text_diff_error) result \<times> service_state" where
  "apply_publish env t capacity info now clock st =
     (case publish_attachment (en_handles env) t capacity KText now clock st of
        (Inl e, st) \<Rightarrow> (Err e, st)
      | (Inr summary, st) \<Rightarrow> (Ok \<lparr>ar_schema_version = 1, ar_result = summary, ar_info = info\<rparr>, st))"

text \<open>Dropping an undelivered \<open>AttachmentDelivery\<close> deletes the attachment it owns.\<close>

definition drop_delivery :: "(apply_patch_result, text_diff_error) result \<Rightarrow> nat \<Rightarrow> service_state \<Rightarrow> service_state" where
  "drop_delivery r now st =
     (case r of
        Inl _ \<Rightarrow> st
      | Inr result \<Rightarrow> snd (delete_attachment (as_attachment_id (ar_result result)) now st))"

definition apply_send ::
    "nat \<Rightarrow> (apply_patch_result, text_diff_error) result \<Rightarrow> nat \<Rightarrow> service \<Rightarrow> service" where
  "apply_send token r now sv =
     (if map_of (sv_applies sv) token \<noteq> None
      then sv\<lparr>sv_applies := deliver token r (sv_applies sv)\<rparr>
      else sv\<lparr>sv_state := drop_delivery r now (sv_state sv)\<rparr>)"

definition apply_drop :: "apply_job \<Rightarrow> service \<Rightarrow> service" where
  "apply_drop j sv = release_all [pj_target j, pj_patch j] (sv\<lparr>sv_state := drop_reservation (sv_state sv)\<rparr>)"

definition apply_finish :: "apply_job \<Rightarrow> service \<Rightarrow> service" where
  "apply_finish j sv = task_end False (apply_drop j sv)"

definition apply_panic :: "nat \<Rightarrow> apply_job \<Rightarrow> service \<Rightarrow> service" where
  "apply_panic token j sv =
     task_end True ((apply_drop j sv)\<lparr>sv_applies := close_channel token (sv_applies sv)\<rparr>)"

section \<open>Callers\<close>

text \<open>The biased selection of a waiting caller; nothing while the task has not answered.\<close>

definition select_call ::
    "bool \<Rightarrow> nat \<Rightarrow> service \<Rightarrow> 'r call \<Rightarrow> ('r, text_diff_error) result option" where
  "select_call cancelled now sv c =
     (if cancelled \<or> sv_shutdown sv \<or> cl_deadline c \<le> now then Some (Err Cancelled)
      else case cl_buffer c of
        Pending \<Rightarrow> None
      | Sent r \<Rightarrow> Some r
      | Closed \<Rightarrow> Some (Err Internal))"

definition cancel_token :: "nat \<Rightarrow> service \<Rightarrow> service" where
  "cancel_token token sv =
     sv\<lparr>sv_state := (sv_state sv)\<lparr>s_cancelled := token # s_cancelled (sv_state sv)\<rparr>\<rparr>"

text \<open>The end of \<open>compare_inner\<close>: a success disarms the guard, any other end (also the caller's
  disappearance) cancels the token; the inputs are dropped.\<close>

definition compare_return :: "nat \<Rightarrow> comparison_summary call \<Rightarrow> bool \<Rightarrow> service \<Rightarrow> service" where
  "compare_return token c success sv =
     release_all (cl_leases c) (if success then sv else cancel_token token sv)"

definition apply_return :: "nat \<Rightarrow> apply_patch_result call \<Rightarrow> bool \<Rightarrow> nat \<Rightarrow> service \<Rightarrow> service" where
  "apply_return token c success now sv =
     (if success then sv
      else
        let sv = cancel_token token sv in
        case cl_buffer c of
          Sent r \<Rightarrow> sv\<lparr>sv_state := drop_delivery r now (sv_state sv)\<rparr>
        | _ \<Rightarrow> sv)"

text \<open>The end of \<open>compare_sources\<close>: a comparison whose patch cannot be exported is deleted.\<close>

definition compare_sources_end ::
    "service_env \<Rightarrow> comparison_summary \<Rightarrow> nat \<Rightarrow> service_state
      \<Rightarrow> (comparison_summary \<times> attachment_summary, text_diff_error) result \<times> service_state" where
  "compare_sources_end env comparison now st =
     (case export_patch (en_handles env) comparison now st of
        (Inr patch, st) \<Rightarrow> (Ok (comparison, patch), st)
      | (Inl e, st) \<Rightarrow>
          (case delete_comparison (cs_comparison_id comparison) st of
             (Inl e', st) \<Rightarrow> (Err e', st)
           | (Inr _, st) \<Rightarrow> (Err e, st)))"

section \<open>Reading and deleting comparisons\<close>

definition summary :: "rstr \<Rightarrow> nat \<Rightarrow> service_state \<Rightarrow> (comparison_summary, text_diff_error) result \<times> service_state" where
  "summary i now st =
     (case valid_handle i of
        Inl e \<Rightarrow> (Err e, st)
      | Inr _ \<Rightarrow>
          let st = expire now st in
          (ok_or (map_option sc_summary (map_of (s_entries st) i)) NotFound, st))"

definition page_content ::
    "page_request \<Rightarrow> stored \<Rightarrow> (nat \<times> rstr option \<times> diff_fragment list, text_diff_error) result" where
  "page_content req e =
     (case pr_view req of
        Changes \<Rightarrow>
          and_then (ok_or (get_at (sc_changes e) (pr_page req)) InvalidInput) (\<lambda>fragments.
            Ok (length (sc_changes e), None, fragments))
      | view \<Rightarrow>
          let pieces = chunks (if view = Before then sc_before e else sc_after e) in
          and_then (ok_or (get_at pieces (pr_page req)) InvalidInput) (\<lambda>t.
            Ok (length pieces, Some t, [])))"

definition page ::
    "service_env \<Rightarrow> page_request \<Rightarrow> nat \<Rightarrow> service_state \<Rightarrow> (page_response, text_diff_error) result \<times> service_state" where
  "page env req now st =
     (case valid_handle (pr_comparison_id req) of
        Inl e \<Rightarrow> (Err e, st)
      | Inr _ \<Rightarrow>
          let st = expire now st in
          (and_then (ok_or (map_of (s_entries st) (pr_comparison_id req)) NotFound) (\<lambda>e.
           and_then (page_content req e) (\<lambda>(total_pages, t, fragments).
             let response = \<lparr>pp_schema_version = 1, pp_comparison_id = pr_comparison_id req,
                   pp_view = pr_view req, pp_page = pr_page req, pp_total_pages = total_pages,
                   pp_text = t, pp_fragments = fragments\<rparr> in
             and_then (ok_or (en_json_page env response) Internal) (\<lambda>n.
               if 256 * 1024 < n then Err ResourceLimit else Ok response))), st))"

text \<open>The gauges of \<open>metrics_prometheus\<close>: entries, accounted bytes and active jobs.\<close>

definition metrics_gauges :: "nat \<Rightarrow> service_state \<Rightarrow> (nat \<times> nat \<times> nat) \<times> service_state" where
  "metrics_gauges now st =
     (let st = expire now st in
      ((length (s_entries st),
        sum_list (map (\<lambda>(_, e). sc_bytes e) (s_entries st)) + s_reserved st + s_attachment_bytes st,
        s_reserved_slots st), st))"

section \<open>Supervision\<close>

fun join_all :: "bool list \<Rightarrow> bool" where
  "join_all [] = False"
| "join_all (panicked # rest) \<longleftrightarrow> panicked \<or> join_all rest"

text \<open>A tick of \<open>run\<close>: expiry and joining everything that has finished.\<close>

definition run_tick :: "nat \<Rightarrow> service \<Rightarrow> service" where
  "run_tick now sv =
     (let failed = join_all (sv_finished sv) in
      sv\<lparr>sv_state := expire now (sv_state sv), sv_finished := [],
         sv_run_failed := sv_run_failed sv \<or> failed, sv_shutdown := sv_shutdown sv \<or> failed\<rparr>)"

definition run_stop :: "service \<Rightarrow> service" where
  "run_stop sv = sv\<lparr>sv_shutdown := True, sv_state := (sv_state sv)\<lparr>s_stopping := True\<rparr>\<rparr>"

text \<open>The end of \<open>run\<close>, once every task has been joined.\<close>

definition run_end :: "service \<Rightarrow> (unit, text_diff_error) result \<times> service" where
  "run_end sv =
     (let failed = sv_run_failed sv \<or> join_all (sv_finished sv);
          st = (sv_state sv)\<lparr>s_entries := []\<rparr>;
          st = retain_attachments (\<lambda>_. False) st in
      (if failed \<or> sv_worker_failed sv then Err Internal else Ok (),
       sv\<lparr>sv_run_failed := failed, sv_finished := [], sv_state := st\<rparr>))"

end
