(* ===== verification/Diff_Service_Safety.thy ===== *)
theory Diff_Service_Safety
  imports Diff_Service "HOL-Library.Multiset"
begin

text \<open>
  The comparison service as a transition system, and what holds in every reachable state: the
  memory and slot limits, that reservations, permits and leases are neither lost nor duplicated,
  and that whatever is stored was validated against its two texts.
\<close>

section \<open>Steps\<close>

text \<open>A step acts for one public call, one phase of a task or one turn of the supervisor.  The
  engine's answers, cancellations, clock readings and capacities are unconstrained, so that every
  interleaving of the program is a path.\<close>

inductive service_step :: "service_env \<Rightarrow> service \<Rightarrow> service \<Rightarrow> bool" for env where
  upload: "upload_attachment_with_kind (en_handles env) (en_reserve env) req declared now clock (sv_state sv) = (r, st) \<Longrightarrow>
    service_step env sv (sv\<lparr>sv_state := st\<rparr>)"
| read: "read_attachment_with_kind rreq declared now (sv_state sv) = (rr, st) \<Longrightarrow>
    service_step env sv (sv\<lparr>sv_state := st\<rparr>)"
| delete_att: "delete_attachment_with_kind i declared now (sv_state sv) = (dr, st) \<Longrightarrow>
    service_step env sv (sv\<lparr>sv_state := st\<rparr>)"
| compare: "service_compare input cancelled now deadline sv = (tr, sv') \<Longrightarrow> service_step env sv sv'"
| snapshots: "compare_snapshots before after cancelled now deadline sv = (tr, sv') \<Longrightarrow> service_step env sv sv'"
| sources: "compare_sources_begin dinput cancelled now deadline sv = (tr, sv') \<Longrightarrow> service_step env sv sv'"
| apply_started: "apply_patch_begin ainput cancelled now deadline sv = (tr, sv') \<Longrightarrow> service_step env sv sv'"
| checked: "sv_jobs sv = xs @ (token, JCompare j) # ys \<Longrightarrow> cj_phase j = CRunning \<Longrightarrow>
    service_step env sv (sv\<lparr>sv_jobs := xs @ (token, JCompare (j\<lparr>cj_phase := compare_check env token answer now sv j\<rparr>)) # ys\<rparr>)"
| published: "sv_jobs sv = xs @ (token, JCompare j) # ys \<Longrightarrow>
    cj_phase j = CValidated computed capacity pages additions deletions \<Longrightarrow>
    compare_publish env caps token j computed capacity pages additions deletions now clock (sv_state sv) = (cr, st) \<Longrightarrow>
    service_step env sv (sv\<lparr>sv_state := st, sv_jobs := xs @ (token, JCompare (j\<lparr>cj_phase := CPublished cr\<rparr>)) # ys\<rparr>)"
| released: "sv_jobs sv = xs @ (token, JCompare j) # ys \<Longrightarrow> cj_phase j = CPublished cr \<Longrightarrow>
    service_step env sv ((compare_release cr sv)\<lparr>sv_jobs := xs @ (token, JCompare (j\<lparr>cj_phase := CReleased cr\<rparr>)) # ys\<rparr>)"
| sent: "sv_jobs sv = xs @ (token, JCompare j) # ys \<Longrightarrow> cj_phase j = CReleased cr \<Longrightarrow>
    service_step env sv ((compare_send token cr sv)\<lparr>sv_jobs := xs @ ys\<rparr>)"
| compare_panicked: "sv_jobs sv = xs @ (token, JCompare j) # ys \<Longrightarrow> cj_phase j = CRunning \<Longrightarrow>
    service_step env sv ((compare_panic token sv)\<lparr>sv_jobs := xs @ ys\<rparr>)"
| apply_checked: "sv_jobs sv = xs @ (token, JApply p) # ys \<Longrightarrow> pj_phase p = ARunning \<Longrightarrow>
    (\<And>t c. aanswer = Ok (t, c) \<Longrightarrow> str_len t \<le> c) \<Longrightarrow>
    service_step env sv (sv\<lparr>sv_jobs := xs @ (token, JApply (p\<lparr>pj_phase := apply_check token aanswer now sv p\<rparr>)) # ys\<rparr>)"
| apply_published: "sv_jobs sv = xs @ (token, JApply p) # ys \<Longrightarrow> pj_phase p = AChecked t capacity info \<Longrightarrow>
    apply_publish env t capacity info now clock (sv_state sv) = (ar, st) \<Longrightarrow>
    service_step env sv (sv\<lparr>sv_state := st, sv_jobs := xs @ (token, JApply (p\<lparr>pj_phase := APublished ar\<rparr>)) # ys\<rparr>)"
| apply_sent: "sv_jobs sv = xs @ (token, JApply p) # ys \<Longrightarrow> pj_phase p = APublished ar \<Longrightarrow>
    service_step env sv ((apply_send token ar now sv)\<lparr>sv_jobs := xs @ (token, JApply (p\<lparr>pj_phase := ASent\<rparr>)) # ys\<rparr>)"
| apply_finished: "sv_jobs sv = xs @ (token, JApply p) # ys \<Longrightarrow> pj_phase p = ASent \<Longrightarrow>
    service_step env sv ((apply_finish p sv)\<lparr>sv_jobs := xs @ ys\<rparr>)"
| apply_panicked: "sv_jobs sv = xs @ (token, JApply p) # ys \<Longrightarrow> pj_phase p = ARunning \<Longrightarrow>
    service_step env sv ((apply_panic token p sv)\<lparr>sv_jobs := xs @ ys\<rparr>)"
| compare_returned: "sv_compares sv = cs @ (token, c) # ds \<Longrightarrow> select_call cancelled now sv c = Some cr \<Longrightarrow>
    service_step env sv ((compare_return token c (is_ok cr) sv)\<lparr>sv_compares := cs @ ds\<rparr>)"
| compare_abandoned: "sv_compares sv = cs @ (token, c) # ds \<Longrightarrow>
    service_step env sv ((compare_return token c False sv)\<lparr>sv_compares := cs @ ds\<rparr>)"
| apply_returned: "sv_applies sv = as @ (token, a) # bs \<Longrightarrow> select_call cancelled now sv a = Some ar \<Longrightarrow>
    service_step env sv ((apply_return token a (is_ok ar) now sv)\<lparr>sv_applies := as @ bs\<rparr>)"
| apply_abandoned: "sv_applies sv = as @ (token, a) # bs \<Longrightarrow>
    service_step env sv ((apply_return token a False now sv)\<lparr>sv_applies := as @ bs\<rparr>)"
| exported: "compare_sources_end env comparison now (sv_state sv) = (er, st) \<Longrightarrow>
    service_step env sv (sv\<lparr>sv_state := st\<rparr>)"
| summary: "summary i now (sv_state sv) = (sr, st) \<Longrightarrow> service_step env sv (sv\<lparr>sv_state := st\<rparr>)"
| page: "page env preq now (sv_state sv) = (pr, st) \<Longrightarrow> service_step env sv (sv\<lparr>sv_state := st\<rparr>)"
| delete: "delete_comparison i (sv_state sv) = (dr, st) \<Longrightarrow> service_step env sv (sv\<lparr>sv_state := st\<rparr>)"
| metrics: "metrics_gauges now (sv_state sv) = (g, st) \<Longrightarrow> service_step env sv (sv\<lparr>sv_state := st\<rparr>)"
| tick: "service_step env sv (run_tick now sv)"
| stop: "service_step env sv (run_stop sv)"
| finish: "sv_jobs sv = [] \<Longrightarrow> s_stopping (sv_state sv) \<Longrightarrow> run_end sv = (rr', sv') \<Longrightarrow> service_step env sv sv'"

inductive reachable :: "service_env \<Rightarrow> service \<Rightarrow> bool" for env where
  start: "reachable env service_new"
| step: "reachable env sv \<Longrightarrow> service_step env sv sv' \<Longrightarrow> reachable env sv'"

section \<open>An accepted patch has no NUL\<close>

lemma parse_usize_no_nul: "parse_usize s = Some n \<Longrightarrow> 0 \<notin> set s"
  by (auto simp: parse_usize_def Let_def list_all_iff is_ascii_digit_def split: list.splits if_splits)

lemma in_ascii_tokens: "c \<in> set s \<Longrightarrow> \<not> is_ascii_whitespace c \<Longrightarrow> \<exists>w \<in> set (split_ascii_whitespace s). c \<in> set w"
proof (induction s)
  case (Cons d s)
  then show ?case by (cases "split_ascii_whitespace s") auto
qed simp

lemma hunk_range_no_nul:
  assumes "hunk_range (Some w) p = Ok r" "p \<noteq> 0"
  shows "0 \<notin> set w"
proof -
  from assms(1) obtain t where w: "w = p # t"
    by (auto simp: hunk_range_def result_simps strip_prefix_Some_iff)
  have "0 \<notin> set t"
  proof (cases "split_once [44] t")
    case None
    with assms(1) w show ?thesis
      by (auto simp: hunk_range_def result_simps strip_prefix_def starts_with_def dest!: parse_usize_no_nul)
  next
    case (Some ab)
    then obtain a b where ab: "split_once [44] t = Some (a, b)" by (cases ab) auto
    with assms(1) w have "0 \<notin> set a" "0 \<notin> set b"
      by (auto simp: hunk_range_def result_simps strip_prefix_def starts_with_def dest!: parse_usize_no_nul)
    with split_once_SomeD [OF ab] show ?thesis by simp
  qed
  with w assms(2) show ?thesis by simp
qed

lemma change_header_no_nul:
  assumes "change_header line = Ok r"
  shows "0 \<notin> set line"
proof
  assume "0 \<in> set line"
  then obtain w where w: "w \<in> set (split_ascii_whitespace line)" "0 \<in> set w"
    using in_ascii_tokens [of 0 line] by (auto simp: is_ascii_whitespace_def)
  let ?t = "split_ascii_whitespace line"
  from assms obtain o' n' where t: "get_at ?t 0 = Some (lit ''@@'')" "get_at ?t 3 = Some (lit ''@@'')" "get_at ?t 4 = None"
    and r: "hunk_range (get_at ?t 1) 45 = Ok o'" "hunk_range (get_at ?t 2) 43 = Ok n'"
    by (auto simp: change_header_def Let_def result_simps split: if_splits)
  from w(1) obtain k where k: "k < length ?t" "?t ! k = w" by (auto simp: in_set_conv_nth)
  from t(3) have "length ?t \<le> 4" by (auto simp: get_at_def split: if_splits)
  with k have "k = 0 \<or> k = 1 \<or> k = 2 \<or> k = 3" by auto
  then show False using t(1,2) r k w(2) hunk_range_no_nul
    by (fastforce simp: get_at_def split: if_splits)
qed

lemma get_at_all: "get_at xs i = Some x \<Longrightarrow> list_all P xs \<Longrightarrow> P x"
  by (auto simp: get_at_def list_all_iff split: if_splits)

lemma change_row_step_no_nul:
  assumes "change_row_step jf jl old new line st = Ok st'"
    and "list_all (\<lambda>l. 0 \<notin> set l) old" "list_all (\<lambda>l. 0 \<notin> set l) new"
  shows "0 \<notin> set line \<and> (ps_lines st' = ps_lines st \<or> ps_lines st = MARKER # ps_lines st')"
proof -
  define nn where "nn = (get_at (ps_lines st) 0 = Some MARKER)"
  define rest where "rest = (if nn then tl (ps_lines st) else ps_lines st)"
  from assms(1) obtain prefix op where
    pre: "get_at line 0 = Some prefix" "prefix \<in> {32, 43, 45}" "ends_with NL line" and
    old: "prefix \<noteq> 43 \<Longrightarrow> get_at old (ps_old_cursor st) = Some (source_line nn line)" and
    new: "prefix \<noteq> 45 \<Longrightarrow> get_at new (ps_new_cursor st) = Some (source_line nn line)" and
    acc: "accept_row jf jl prefix line nn rest op st = Ok st'"
    by (auto simp: change_row_step_def result_simps Let_def nn_def [symmetric] rest_def [symmetric] split: if_splits)
  have src: "0 \<notin> set (source_line nn line)"
    using old new assms(2,3) get_at_all [where P = "\<lambda>l. 0 \<notin> set l"] by (cases "prefix = 43") auto
  from pre(1) obtain t where line: "line = prefix # t" by (cases line) (auto simp: get_at_def)
  have "0 \<notin> set t"
  proof (cases nn)
    case False
    with src line show ?thesis by (simp add: source_line_def)
  next
    case True
    with src line have "0 \<notin> set (butlast t)" by (simp add: source_line_def)
    moreover have "t \<noteq> [] \<Longrightarrow> last t = NL" using pre(3) line by (auto simp: ends_with_def)
    ultimately show ?thesis by (cases t rule: rev_cases) auto
  qed
  moreover have "ps_lines st' = rest" using acc by (rule accept_row_lines)
  moreover have "rest = ps_lines st \<or> ps_lines st = MARKER # rest"
    by (cases "ps_lines st") (auto simp: rest_def nn_def get_at_def)
  ultimately show ?thesis using line pre(2) by auto
qed

lemma change_step_no_nul:
  assumes "change_step jf jl old new line st = Ok st'"
    and "list_all (\<lambda>l. 0 \<notin> set l) old" "list_all (\<lambda>l. 0 \<notin> set l) new"
  shows "0 \<notin> set line \<and> (ps_lines st' = ps_lines st \<or> ps_lines st = MARKER # ps_lines st')"
proof (cases "starts_with line (lit ''@@ '')")
  case True
  with assms(1) have h: "header_step jf old new line st = Ok st'" by (simp add: change_step_def)
  then obtain x where "change_header line = Ok x"
    unfolding header_step_def and_then_eq_Ok if_eq_Ok by blast
  with change_header_no_nul header_step_lines [OF h] show ?thesis by blast
next
  case False
  with assms(1) have "change_row_step jf jl old new line st = Ok st'" by (simp add: change_step_def)
  then show ?thesis using assms(2,3) by (rule change_row_step_no_nul)
qed

lemma change_loop_no_nul:
  assumes "change_loop jf jl old new st = Ok st'"
    and "list_all (\<lambda>l. 0 \<notin> set l) old" "list_all (\<lambda>l. 0 \<notin> set l) new"
  shows "list_all (\<lambda>l. 0 \<notin> set l) (ps_lines st)"
  using assms
proof (induction jf jl old new st rule: change_loop.induct)
  case (1 jf jl old new st)
  show ?case
  proof (cases "ps_lines st")
    case (Cons line rest)
    with "1.prems"(1) obtain st1 where s: "change_step jf jl old new line (st\<lparr>ps_lines := rest\<rparr>) = Ok st1"
        "change_loop jf jl old new st1 = Ok st'"
      by (subst (asm) change_loop.simps) (auto simp: result_simps)
    have tail: "list_all (\<lambda>l. 0 \<notin> set l) (ps_lines st1)"
      by (rule "1.IH" [OF Cons s "1.prems"(2,3)])
    have "0 \<notin> set MARKER" by code_simp
    with change_step_no_nul [OF s(1) "1.prems"(2,3)] Cons tail show ?thesis by auto
  qed simp
qed

lemma lines_no_nul: "0 \<notin> set t \<Longrightarrow> list_all (\<lambda>l. 0 \<notin> set l) (split_inclusive t)"
proof -
  assume "0 \<notin> set t"
  moreover have "set t = (\<Union>l \<in> set (split_inclusive t). set l)"
    by (metis concat_split_inclusive set_concat)
  ultimately show ?thesis by (auto simp: list_all_iff)
qed

lemma changes_no_nul:
  assumes "changes jf jl c old_text new_text = Ok r" "0 \<notin> set old_text" "0 \<notin> set new_text"
  shows "0 \<notin> set (cd_patch c)"
proof (cases "old_text = new_text")
  case True
  with assms(1) show ?thesis by (auto simp: changes_def split: if_splits)
next
  case False
  let ?l = "split_inclusive (cd_patch c)"
  from assms(1) False obtain st st' where
    head: "get_at ?l 0 = Some (lit ''--- before'' @ [NL])" "get_at ?l 1 = Some (lit ''+++ after'' @ [NL])" and
    loop: "change_loop jf jl (split_inclusive old_text) (split_inclusive new_text) st = Ok st'" "ps_lines st = drop 2 ?l"
    by (auto simp: changes_def and_then_eq_Ok Let_def split: if_splits)
  have tail: "list_all (\<lambda>l. 0 \<notin> set l) (drop 2 ?l)"
    using change_loop_no_nul [OF loop(1) lines_no_nul [OF assms(2)] lines_no_nul [OF assms(3)]] loop(2) by simp
  obtain a b where l: "?l = a # b # drop 2 ?l" and ab: "a = lit ''--- before'' @ [NL]" "b = lit ''+++ after'' @ [NL]"
    using head by (cases ?l; cases "tl ?l") (auto simp: get_at_def split: if_splits)
  have "0 \<notin> set a" "0 \<notin> set b" unfolding ab by code_simp+
  moreover have "0 \<notin> set (concat (drop 2 ?l))" using tail by (auto simp: list_all_iff)
  moreover have "cd_patch c = a @ b @ concat (drop 2 ?l)"
    using concat_split_inclusive [of "cd_patch c"] arg_cong [OF l, of concat] by simp
  ultimately show ?thesis by (metis Un_iff set_append)
qed

section \<open>The invariant\<close>

definition entry_bytes :: "service_state \<Rightarrow> nat" where
  "entry_bytes st = sum_list (map (\<lambda>(_, e). sc_bytes e) (s_entries st))"

definition lease_keys :: "resolved_text list \<Rightarrow> nat list" where
  "lease_keys rs = concat (map (\<lambda>r. case r of RInline _ \<Rightarrow> [] | RAttachment k \<Rightarrow> [k]) rs)"

definition job_keys :: "job \<Rightarrow> nat list" where
  "job_keys j = (case j of JCompare _ \<Rightarrow> [] | JApply p \<Rightarrow> lease_keys [pj_target p, pj_patch p])"

definition held :: "service \<Rightarrow> nat multiset" where
  "held sv = mset (concat (map (\<lambda>(_, c). lease_keys (cl_leases c)) (sv_compares sv))) +
     mset (concat (map (\<lambda>(_, j). job_keys j) (sv_jobs sv)))"

text \<open>Tasks that still own their reservation, and those that have not published yet.\<close>

fun reserving :: "job \<Rightarrow> bool" where
  "reserving (JCompare j) = (case cj_phase j of CReleased _ \<Rightarrow> False | _ \<Rightarrow> True)"
| "reserving (JApply p) = True"

fun uncommitted :: "job \<Rightarrow> bool" where
  "uncommitted (JCompare j) = (case cj_phase j of CRunning \<Rightarrow> True | CValidated _ _ _ _ _ \<Rightarrow> True | _ \<Rightarrow> False)"
| "uncommitted (JApply p) = True"

definition job_count :: "(job \<Rightarrow> bool) \<Rightarrow> (nat \<times> job) list \<Rightarrow> nat" where
  "job_count P jobs = length (filter (\<lambda>(_, j). P j) jobs)"

text \<open>A stored comparison describes its two texts, and its pages are the validated ones.\<close>

definition entry_ok :: "service_env \<Rightarrow> rstr \<Rightarrow> stored \<Rightarrow> bool" where
  "entry_ok env i e \<longleftrightarrow>
     cs_comparison_id (sc_summary e) = i \<and>
     text_info (sc_before e) (ti_label (cs_before (sc_summary e))) = Ok (cs_before (sc_summary e)) \<and>
     text_info (sc_after e) (ti_label (cs_after (sc_summary e))) = Ok (cs_after (sc_summary e)) \<and>
     cs_equal (sc_summary e) = (sc_before e = sc_after e) \<and>
     cs_change_pages (sc_summary e) = length (sc_changes e) \<and>
     str_len (sc_patch e) \<le> MAX_PATCH_BYTES \<and> sc_bytes e \<le> JOB_RESERVATION \<and>
     (\<exists>inline. changes (en_json_fragment env) (en_json_line env)
        \<lparr>cd_patch = sc_patch e, cd_inline_changes = inline\<rparr> (sc_before e) (sc_after e) =
        Ok (sc_changes e, cs_additions (sc_summary e), cs_deletions (sc_summary e)))"

fun job_ok :: "service_env \<Rightarrow> job \<Rightarrow> bool" where
  "job_ok env (JCompare j) \<longleftrightarrow>
     text_info (cj_before j) (ti_label (cj_before_info j)) = Ok (cj_before_info j) \<and>
     text_info (cj_after j) (ti_label (cj_after_info j)) = Ok (cj_after_info j) \<and>
     (case cj_phase j of
        CValidated computed capacity pages additions deletions \<Rightarrow>
          str_len (cd_patch computed) \<le> MAX_PATCH_BYTES \<and>
          changes (en_json_fragment env) (en_json_line env) computed (cj_before j) (cj_after j) =
            Ok (pages, additions, deletions)
      | _ \<Rightarrow> True)"
| "job_ok env (JApply p) \<longleftrightarrow>
     (case pj_phase p of AChecked t capacity info \<Rightarrow> str_len t \<le> capacity | _ \<Rightarrow> True)"

definition state_inv :: "service_env \<Rightarrow> nat \<Rightarrow> nat \<Rightarrow> nat multiset \<Rightarrow> service_state \<Rightarrow> bool" where
  "state_inv env u h L st \<longleftrightarrow>
     store_ok st \<and> mset (s_leases st) = L \<and>
     s_reserved st = JOB_RESERVATION * h \<and> s_reserved_slots st = h \<and> u \<le> h \<and>
     entry_bytes st + JOB_RESERVATION * u + s_attachment_bytes st \<le> MAX_STORE_BYTES \<and>
     length (s_entries st) + u \<le> MAX_ENTRIES \<and> length (s_attachments st) \<le> MAX_ATTACHMENTS \<and>
     distinct (map fst (s_entries st)) \<and> list_all (\<lambda>(i, e). entry_ok env i e) (s_entries st)"

definition service_inv :: "service_env \<Rightarrow> service \<Rightarrow> bool" where
  "service_inv env sv \<longleftrightarrow>
     state_inv env (job_count uncommitted (sv_jobs sv)) (job_count reserving (sv_jobs sv)) (held sv) (sv_state sv) \<and>
     sv_permits sv + length (sv_jobs sv) = 2 \<and> list_all (\<lambda>(_, j). job_ok env j) (sv_jobs sv)"

lemma state_invD:
  assumes "state_inv env u h L st"
  shows "store_ok st" "mset (s_leases st) = L" "s_reserved st = JOB_RESERVATION * h" "s_reserved_slots st = h" "u \<le> h"
    "entry_bytes st + JOB_RESERVATION * u + s_attachment_bytes st \<le> MAX_STORE_BYTES"
    "length (s_entries st) + u \<le> MAX_ENTRIES" "length (s_attachments st) \<le> MAX_ATTACHMENTS"
    "distinct (map fst (s_entries st))" "list_all (\<lambda>(i, e). entry_ok env i e) (s_entries st)"
  using assms by (auto simp: state_inv_def)

lemma job_count_simps [simp]:
  "job_count P [] = 0" "job_count P (x # xs) = (if P (snd x) then 1 else 0) + job_count P xs"
  "job_count P (xs @ ys) = job_count P xs + job_count P ys"
  by (auto simp: job_count_def)

lemma job_count_le: "job_count P xs \<le> length xs"
  by (simp add: job_count_def)

lemma uncommitted_reserving: "uncommitted j \<Longrightarrow> reserving j"
  by (cases j) (auto split: compare_phase.splits)

lemma uncommitted_le: "job_count uncommitted xs \<le> job_count reserving xs"
  by (induction xs) (auto dest: uncommitted_reserving)

lemma lease_keys_simps [simp]:
  "lease_keys [] = []" "lease_keys (RInline t # rs) = lease_keys rs"
  "lease_keys (RAttachment k # rs) = k # lease_keys rs"
  by (simp_all add: lease_keys_def)

lemma lease_keys_Cons: "lease_keys (r # rs) = lease_keys [r] @ lease_keys rs"
  by (simp add: lease_keys_def)

lemma entry_bytes_filter: "sum_list (map (\<lambda>(_, e). sc_bytes e) (filter P es)) \<le> sum_list (map (\<lambda>(_, e). sc_bytes e) es)"
  by (induction es) auto

lemma service_inv_new: "service_inv env service_new"
  by (simp add: service_inv_def service_new_def state_inv_def held_def state_default_def store_ok_default
      [unfolded state_default_def] entry_bytes_def MAX_STORE_BYTES_def)

text \<open>Expiry, deletion and the like only shrink the state.\<close>

lemma state_inv_shrink:
  assumes inv: "state_inv env u h L st" and ok: "store_ok st'"
    and "s_leases st' = s_leases st" "s_reserved st' = s_reserved st" "s_reserved_slots st' = s_reserved_slots st"
      "s_attachment_bytes st' \<le> s_attachment_bytes st" "length (s_attachments st') \<le> length (s_attachments st)"
      "s_entries st' = filter P (s_entries st)"
  shows "state_inv env u h L st'"
proof -
  note d = state_invD [OF inv]
  have "entry_bytes st' \<le> entry_bytes st" unfolding entry_bytes_def assms(8) by (rule entry_bytes_filter)
  moreover have "length (s_entries st') \<le> length (s_entries st)" unfolding assms(8) by simp
  moreover have "distinct (map fst (s_entries st'))" unfolding assms(8) using d(9) by (rule distinct_map_filter)
  moreover have "list_all (\<lambda>(i, e). entry_ok env i e) (s_entries st')"
    using d(10) unfolding assms(8) by (auto simp: list_all_iff)
  ultimately show ?thesis unfolding state_inv_def using d ok assms(3-7) by simp
qed

lemma drop_bytes_le: "s_attachment_bytes (drop_unreferenced st) \<le> s_attachment_bytes st"
  by (simp add: drop_unreferenced_def)

lemma retain_keeps [simp]:
  "s_attachments (retain_attachments P st) = filter P (s_attachments st)"
  "s_entries (retain_attachments P st) = s_entries st" "s_leases (retain_attachments P st) = s_leases st"
  "s_reserved (retain_attachments P st) = s_reserved st" "s_reserved_slots (retain_attachments P st) = s_reserved_slots st"
  "s_stopping (retain_attachments P st) = s_stopping st" "s_cancelled (retain_attachments P st) = s_cancelled st"
  by (simp_all add: retain_attachments_def)

lemma retain_bytes_le: "s_attachment_bytes (retain_attachments P st) \<le> s_attachment_bytes st"
  using drop_bytes_le [of "st\<lparr>s_attachments := filter P (s_attachments st)\<rparr>"] by (simp add: retain_attachments_def)

lemma expire_bytes_le: "s_attachment_bytes (expire now st) \<le> s_attachment_bytes st"
  using retain_bytes_le by (simp add: expire_def Let_def)

lemma state_inv_retain: "state_inv env u h L st \<Longrightarrow> state_inv env u h L (retain_attachments P st)"
  by (rule state_inv_shrink [where P = "\<lambda>_. True"])
    (auto simp: retain_bytes_le intro: store_ok_retain dest: state_invD(1))

lemma state_inv_expire: "state_inv env u h L st \<Longrightarrow> state_inv env u h L (expire now st)"
  by (rule state_inv_shrink [OF _ _ _ _ _ _ _ expire_keeps(2)])
    (auto simp: expire_bytes_le intro: store_ok_expire dest: state_invD(1))

lemma state_inv_delete_attachment:
  "state_inv env u h L st \<Longrightarrow> state_inv env u h L (snd (delete_attachment_with_kind i k now st))"
  by (auto simp: delete_attachment_with_kind_def Let_def intro: state_inv_retain state_inv_expire split: sum.splits)

lemma state_inv_delete_comparison:
  assumes "state_inv env u h L st"
  shows "state_inv env u h L (snd (delete_comparison i st))"
proof -
  have "state_inv env u h L (st\<lparr>s_entries := filter (\<lambda>(i', _). i' \<noteq> i) (s_entries st)\<rparr>)"
    by (rule state_inv_shrink [OF assms]) (auto intro: store_ok_cong [OF state_invD(1) [OF assms]])
  with assms show ?thesis by (auto simp: delete_comparison_def split: sum.splits)
qed

lemma state_inv_drop_delivery: "state_inv env u h L st \<Longrightarrow> state_inv env u h L (drop_delivery r now st)"
  by (auto simp: drop_delivery_def delete_attachment_def intro: state_inv_delete_attachment split: sum.splits)

text \<open>Growth is admitted against everything that is accounted for, reservations included.\<close>

lemma state_inv_cong:
  assumes "state_inv env u h L st" "s_attachments st' = s_attachments st" "s_heap st' = s_heap st"
    "s_leases st' = s_leases st" "s_next_data st' = s_next_data st" "s_attachment_bytes st' = s_attachment_bytes st"
    "s_entries st' = s_entries st" "s_reserved st' = s_reserved st" "s_reserved_slots st' = s_reserved_slots st"
  shows "state_inv env u h L st'"
  using assms store_ok_cong [OF state_invD(1) [OF assms(1)] assms(2-6)]
  by (simp add: state_inv_def entry_bytes_def)

lemma state_inv_fresh:
  assumes "state_inv env u h L st" "fresh_attachment_id handles st = (r, st')"
  shows "state_inv env u h L st'"
  by (rule state_inv_cong [OF assms(1)]) (simp_all add: fresh_attachment_keeps [OF assms(2)])

lemma used_covers:
  assumes "state_inv env u h L st"
  shows "entry_bytes st + JOB_RESERVATION * u + s_attachment_bytes st \<le> used st"
  using state_invD(3,5) [OF assms] by (simp add: used_def entry_bytes_def JOB_RESERVATION_def)

lemma store_limit: "\<not> MAX_STORE_BYTES < saturating_add a b \<longleftrightarrow> a + b \<le> MAX_STORE_BYTES"
  by (simp add: not_less saturating_add_le MAX_STORE_BYTES_def usize_max_def)

lemma state_inv_insert:
  assumes inv: "state_inv env u h L st" and f: "fresh_attachment_id handles st = (Inr i, st1)"
    and ok: "store_ok (insert_attachment i d s ex st1)"
    and room: "length (s_attachments st) < MAX_ATTACHMENTS" "used st + ad_charge d \<le> MAX_STORE_BYTES"
  shows "state_inv env u h L (insert_attachment i d s ex st1)"
proof -
  note k = fresh_attachment_keeps [OF f]
  have none: "map_of (s_attachments st) i = None" using fresh_attachment_fresh [OF f] by simp
  from used_covers [OF inv] room(2)
  have "entry_bytes st + JOB_RESERVATION * u + (s_attachment_bytes st + ad_charge d) \<le> MAX_STORE_BYTES" by simp
  with state_invD [OF inv] ok room(1) k show ?thesis
    by (simp add: state_inv_def entry_bytes_def insert_attachment_def update_fresh [OF none])
qed

lemma state_inv_upload_create:
  assumes inv: "state_inv env u h L st" and ok: "store_ok st'"
    and call: "upload_create handles reserve req declared now clock st = (r, st')"
  shows "state_inv env u h L st'"
proof (cases "\<exists>s. r = Ok s")
  case False
  with call have "st' = st \<or> (\<exists>x. fresh_attachment_id handles st = (x, st'))"
    by (auto simp: upload_create_def Let_def split: if_splits option.splits sum.splits prod.splits)
  with state_inv_fresh inv show ?thesis by blast
next
  case True
  with call obtain n i st1 capacity s ex where
    f: "fresh_attachment_id handles st = (Inr i, st1)" and
    room: "\<not> MAX_ATTACHMENTS \<le> length (s_attachments st)"
      "\<not> MAX_STORE_BYTES < saturating_add (used st1) (capacity + ENTRY_OVERHEAD)" and
    st': "st' = insert_attachment i \<lparr>ad_text = up_chunk req, ad_charge = capacity + ENTRY_OVERHEAD\<rparr> s ex st1"
    by (auto simp: upload_create_def Let_def not_less split: if_splits option.splits sum.splits prod.splits)
  have "used st1 = used st" by (simp add: used_def fresh_attachment_keeps [OF f])
  with room ok st' show ?thesis unfolding store_limit
    by (auto intro!: state_inv_insert [OF inv f])
qed

lemma state_inv_upload_continue:
  assumes inv: "state_inv env u h L st" and ok: "store_ok st'" and call: "upload_continue i req declared st = (r, st')"
  shows "state_inv env u h L st'"
proof -
  have "s_entries st' = s_entries st" "s_leases st' = s_leases st" "s_reserved st' = s_reserved st"
    "s_reserved_slots st' = s_reserved_slots st" "s_attachment_bytes st' = s_attachment_bytes st"
    "length (s_attachments st') = length (s_attachments st)"
    using upload_continue_cases [OF call] by (auto simp: set_summary_def set_text_def Let_def)
  with state_invD [OF inv] ok show ?thesis by (simp add: state_inv_def entry_bytes_def)
qed

lemma state_inv_upload:
  assumes inv: "state_inv env u h L st" and "reserve_ok reserve"
    and call: "upload_attachment_with_kind handles reserve req declared now clock st = (r, st')"
  shows "state_inv env u h L st'"
proof -
  have ok: "store_ok st'" by (rule upload_ok [OF state_invD(1) [OF inv] call assms(2)])
  have e: "state_inv env u h L (expire now st)" by (rule state_inv_expire [OF inv])
  from call inv e show ?thesis
    by (auto simp: upload_attachment_with_kind_def Let_def split: if_splits option.splits
        intro: state_inv_upload_create [OF e ok] state_inv_upload_continue [OF e ok])
qed

lemma state_inv_publish:
  assumes inv: "state_inv env u h L st" and "str_len t \<le> capacity"
    and call: "publish_attachment handles t capacity kind now clock st = (r, st')"
  shows "state_inv env u h L st'"
proof -
  have ok: "store_ok st'" by (rule publish_ok [OF state_invD(1) [OF inv] call assms(2)])
  have e: "state_inv env u h L (expire now st)" by (rule state_inv_expire [OF inv])
  from call inv e ok show ?thesis
    by (auto simp: publish_attachment_def Let_def store_limit not_le split: if_splits sum.splits prod.splits
        intro: state_inv_insert [OF e] state_inv_fresh [OF e])
qed

lemma text_info_no_nul: "text_info t l = Ok i \<Longrightarrow> 0 \<notin> set t"
  by (auto simp: text_info_def split: if_splits)

lemma entry_patch_valid:
  assumes "entry_ok env i e"
  shows "validate KPatch (sc_patch e) = Ok ()"
proof -
  from assms obtain inline r where
    "changes (en_json_fragment env) (en_json_line env) \<lparr>cd_patch = sc_patch e, cd_inline_changes = inline\<rparr>
       (sc_before e) (sc_after e) = Ok r"
    "0 \<notin> set (sc_before e)" "0 \<notin> set (sc_after e)"
    unfolding entry_ok_def by (metis text_info_no_nul)
  from changes_no_nul [OF this] assms show ?thesis
    by (auto simp: validate_def entry_ok_def maximum_def size_simps MAX_PATCH_BYTES_def)
qed

lemma state_inv_export:
  assumes inv: "state_inv env u h L st" and call: "export_patch handles c now st = (r, st')"
  shows "state_inv env u h L st'"
proof -
  have ok: "store_ok st'"
    by (rule export_ok [OF state_invD(1) [OF inv] call])
      (use state_invD(10) [OF inv] entry_patch_valid in \<open>auto simp: list_all_iff\<close>)
  have e: "state_inv env u h L (expire now st)" by (rule state_inv_expire [OF inv])
  from call inv e ok show ?thesis
    by (auto simp: export_patch_def Let_def store_limit not_le simp del: expire_keeps
        split: if_splits sum.splits prod.splits option.splits
        intro: state_inv_insert [OF e] state_inv_fresh [OF e])
qed

lemma state_inv_sources_end:
  assumes inv: "state_inv env u h L st" and call: "compare_sources_end env c now st = (r, st')"
  shows "state_inv env u h L st'"
proof -
  obtain x st1 where x: "export_patch (en_handles env) c now st = (x, st1)" by force
  have e: "state_inv env u h L st1" by (rule state_inv_export [OF inv x])
  show ?thesis using call x e state_inv_delete_comparison [OF e, of "cs_comparison_id c"]
    by (auto simp: compare_sources_end_def split: sum.splits prod.splits)
qed

text \<open>Leases.\<close>

lemma state_inv_resolve:
  assumes inv: "state_inv env u h L st" and call: "resolve input kind now st = (r, st')"
  shows "state_inv env u h (L + (case r of Inl _ \<Rightarrow> {#} | Inr x \<Rightarrow> mset (lease_keys [x]))) st'"
proof -
  have ok: "store_ok st'" by (rule resolve_ok [OF state_invD(1) [OF inv] call])
  have e: "state_inv env u h L (expire now st)" by (rule state_inv_expire [OF inv])
  have "state_inv env u h (L + mset (lease_keys [x])) (lease x (expire now st))"
    if "store_ok (lease x (expire now st))" for x
    using that state_invD [OF e] by (cases x) (simp_all add: state_inv_def lease_def entry_bytes_def)
  with call inv e ok show ?thesis
    by (auto simp: resolve_def Let_def result_simps split: text_source.splits sum.splits)
qed

lemma state_inv_release:
  assumes inv: "state_inv env u h (L + mset (lease_keys [r])) st"
  shows "state_inv env u h L (release r st)"
proof (cases r)
  case (RAttachment k)
  let ?st = "st\<lparr>s_leases := remove1 k (s_leases st)\<rparr>"
  have "store_ok (release r st)" by (rule store_ok_release [OF state_invD(1) [OF inv]])
  moreover have "s_attachment_bytes (drop_unreferenced ?st) \<le> s_attachment_bytes st"
    using drop_bytes_le [of ?st] by simp
  moreover have "mset (remove1 k (s_leases st)) = L"
    using state_invD(2) [OF inv] RAttachment by simp
  ultimately show ?thesis
    using state_invD [OF inv] RAttachment by (simp add: state_inv_def release_def entry_bytes_def)
qed (use inv in \<open>simp add: release_def\<close>)

lemma state_inv_release_all:
  "state_inv env u h (L + mset (lease_keys rs)) st \<Longrightarrow> state_inv env u h L (fold release rs st)"
proof (induction rs arbitrary: st)
  case (Cons r rs)
  have "L + mset (lease_keys (r # rs)) = (L + mset (lease_keys rs)) + mset (lease_keys [r])"
    by (subst lease_keys_Cons) simp
  with Cons.prems state_inv_release [of env u h "L + mset (lease_keys rs)" r st] Cons.IH show ?case by simp
qed simp

text \<open>Reservations.\<close>

lemma state_inv_reserve:
  assumes inv: "state_inv env u h L st" and full: "\<not> compare_full st"
  shows "state_inv env (u + 1) (h + 1) L (reserve_job st)"
proof -
  have "JOB_RESERVATION * u \<le> JOB_RESERVATION * h" using state_invD(5) [OF inv] by simp
  then have "entry_bytes st + (JOB_RESERVATION * u + JOB_RESERVATION) + s_attachment_bytes st \<le> MAX_STORE_BYTES"
    using full state_invD(3) [OF inv] unfolding compare_full_def entry_bytes_def by linarith
  with state_invD [OF inv] full store_ok_cong [OF state_invD(1) [OF inv], of "reserve_job st"] show ?thesis
    by (simp add: state_inv_def reserve_job_def compare_full_def entry_bytes_def add.commute)
qed

lemma apply_full_compare: "state_inv env u h L st \<Longrightarrow> \<not> apply_full st \<Longrightarrow> \<not> compare_full st"
  by (simp add: apply_full_def compare_full_def store_limit used_def)

lemma state_inv_unreserve:
  assumes inv: "state_inv env u (h + 1) L st" and "u \<le> h"
  shows "state_inv env u h L (drop_reservation st)"
  using assms(2) state_invD [OF inv] store_ok_cong [OF state_invD(1) [OF inv], of "drop_reservation st"]
  by (simp add: state_inv_def drop_reservation_def entry_bytes_def)

lemma state_inv_weaken: "state_inv env u h L st \<Longrightarrow> v \<le> u \<Longrightarrow> state_inv env v h L st"
proof -
  assume inv: "state_inv env u h L st" and le: "v \<le> u"
  from le have "JOB_RESERVATION * v \<le> JOB_RESERVATION * u" by simp
  then have "entry_bytes st + JOB_RESERVATION * v + s_attachment_bytes st \<le> MAX_STORE_BYTES"
    using state_invD(6) [OF inv] by linarith
  with state_invD [OF inv] le show ?thesis by (simp add: state_inv_def)
qed

text \<open>Publication turns a reservation into an entry that is no larger.\<close>

lemma fresh_comparison_keeps:
  "fresh_comparison_id handles n st = (r, st') \<Longrightarrow> \<exists>g. st' = st\<lparr>s_generated := g\<rparr>"
proof (induction n arbitrary: st)
  case 0
  then have "st' = st\<lparr>s_generated := s_generated st\<rparr>" by simp
  then show ?case by blast
next
  case (Suc n)
  from Suc.prems show ?case
    by (auto simp: Let_def split: sum.splits if_splits dest!: Suc.IH)
qed

lemma fresh_comparison_fresh:
  "fresh_comparison_id handles n st = (Inr i, st') \<Longrightarrow> map_of (s_entries st) i = None"
proof (induction n arbitrary: st)
  case (Suc n)
  from Suc.prems Suc.IH [of "st\<lparr>s_generated := Suc (s_generated st)\<rparr>"] show ?case
    by (auto simp: Let_def split: sum.splits if_splits)
qed simp

lemma state_inv_store:
  assumes inv: "state_inv env (u + 1) h L st" and new: "map_of (s_entries st) i = None"
    and job: "job_ok env (JCompare j)" "cj_phase j = CValidated computed capacity pages additions deletions"
    and call: "compare_store env caps token j computed capacity pages additions deletions now clock i st = (r, st')"
  shows "state_inv env u h L st'"
proof (cases "st' = st")
  case True
  with state_inv_weaken [OF inv, of u] show ?thesis by simp
next
  case False
  with call obtain s bytes where
    s: "s = \<lparr>cs_schema_version = 1, cs_comparison_id = i, cs_expires_at = saturating_add clock 600,
         cs_before = cj_before_info j, cs_after = cj_after_info j, cs_additions = additions,
         cs_deletions = deletions, cs_equal = (cj_before j = cj_after j), cs_change_pages = length pages,
         cs_origin = cj_origin j\<rparr>" and
    b: "bytes \<le> JOB_RESERVATION" and
    st': "st' = st\<lparr>s_entries := AList.update i
       \<lparr>sc_patch = cd_patch computed, sc_summary = s, sc_before = cj_before j, sc_after = cj_after j,
        sc_changes = pages, sc_expires = now + RETENTION, sc_caller = token, sc_bytes = bytes\<rparr> (s_entries st)\<rparr>"
    by (auto simp: compare_store_def Let_def not_less split: if_splits option.splits sum.splits)
  let ?e = "\<lparr>sc_patch = cd_patch computed, sc_summary = s, sc_before = cj_before j, sc_after = cj_after j,
        sc_changes = pages, sc_expires = now + RETENTION, sc_caller = token, sc_bytes = bytes\<rparr>"
  have "changes (en_json_fragment env) (en_json_line env)
      \<lparr>cd_patch = cd_patch computed, cd_inline_changes = cd_inline_changes computed\<rparr> (cj_before j) (cj_after j) =
      Ok (pages, additions, deletions)"
    using job by (cases computed) simp
  then have "entry_ok env i ?e"
    unfolding entry_ok_def s using job b by auto
  moreover have "s_entries st' = s_entries st @ [(i, ?e)]" using st' update_fresh [OF new] by simp
  moreover have "i \<notin> fst ` set (s_entries st)" using new by (simp add: map_of_eq_None_iff)
  moreover have "store_ok st'" unfolding st' by (rule store_ok_cong [OF state_invD(1) [OF inv]]) simp_all
  ultimately show ?thesis
    using state_invD [OF inv] b st' by (simp add: state_inv_def entry_bytes_def)
qed

lemma state_inv_compare_publish:
  assumes inv: "state_inv env (u + 1) h L st"
    and job: "job_ok env (JCompare j)" "cj_phase j = CValidated computed capacity pages additions deletions"
    and call: "compare_publish env caps token j computed capacity pages additions deletions now clock st = (r, st')"
  shows "state_inv env u h L st'"
proof (cases "s_stopping st \<or> token \<in> set (s_cancelled st) \<or> cj_deadline j \<le> now")
  case True
  with call state_inv_weaken [OF inv, of u] show ?thesis by (simp add: compare_publish_def)
next
  case False
  obtain x st1 where x: "fresh_comparison_id (en_handles env) 4 st = (x, st1)" by force
  obtain g where g: "st1 = st\<lparr>s_generated := g\<rparr>" using fresh_comparison_keeps [OF x] by blast
  have i1: "state_inv env (u + 1) h L st1" unfolding g by (rule state_inv_cong [OF inv]) simp_all
  show ?thesis
  proof (cases x)
    case (Inl e)
    with False call x state_inv_weaken [OF i1, of u] show ?thesis by (simp add: compare_publish_def)
  next
    case (Inr i)
    with fresh_comparison_fresh x have "map_of (s_entries st1) i = None" unfolding g by fastforce
    with False call x Inr show ?thesis
      by (auto simp: compare_publish_def intro: state_inv_store [OF i1 _ job])
  qed
qed

section \<open>Every step keeps the invariant\<close>

definition inv_with :: "service_env \<Rightarrow> nat multiset \<Rightarrow> service \<Rightarrow> bool" where
  "inv_with env L sv \<longleftrightarrow>
     state_inv env (job_count uncommitted (sv_jobs sv)) (job_count reserving (sv_jobs sv)) (held sv + L) (sv_state sv) \<and>
     sv_permits sv + length (sv_jobs sv) = 2 \<and> list_all (\<lambda>(_, j). job_ok env j) (sv_jobs sv)"

lemma service_inv_with: "service_inv env sv \<longleftrightarrow> inv_with env {#} sv"
  by (simp add: service_inv_def inv_with_def)

lemma inv_with_state:
  assumes "inv_with env L sv"
    "\<And>u h K. state_inv env u h (K + L) (sv_state sv) \<Longrightarrow> state_inv env u h (K + L') st"
  shows "inv_with env L' (sv\<lparr>sv_state := st\<rparr>)"
  using assms by (simp add: inv_with_def held_def)

lemma service_inv_state:
  assumes "service_inv env sv" "\<And>u h K. state_inv env u h K (sv_state sv) \<Longrightarrow> state_inv env u h K st"
  shows "service_inv env (sv\<lparr>sv_state := st\<rparr>)"
  using inv_with_state [of env "{#}" sv "{#}" st] assms by (simp add: service_inv_with)

lemma inv_with_release_all:
  "inv_with env (L + mset (lease_keys rs)) sv \<Longrightarrow> inv_with env L (release_all rs sv)"
  unfolding release_all_def
  by (rule inv_with_state) (auto intro: state_inv_release_all simp: add.assoc [symmetric])

lemma inv_with_fields:
  "inv_with env L (sv\<lparr>sv_finished := a\<rparr>) = inv_with env L sv" "inv_with env L (sv\<lparr>sv_shutdown := b\<rparr>) = inv_with env L sv"
  "inv_with env L (sv\<lparr>sv_worker_failed := b\<rparr>) = inv_with env L sv" "inv_with env L (sv\<lparr>sv_run_failed := b\<rparr>) = inv_with env L sv"
  "inv_with env L (sv\<lparr>sv_applies := c\<rparr>) = inv_with env L sv" "inv_with env L (sv\<lparr>sv_completed := n\<rparr>) = inv_with env L sv"
  "inv_with env L (sv\<lparr>sv_failed := n\<rparr>) = inv_with env L sv" "inv_with env L (sv\<lparr>sv_next_token := n\<rparr>) = inv_with env L sv"
  by (simp_all add: inv_with_def held_def)

lemma admit_refused:
  assumes "inv_with env L sv" "admit full now sv = (Inl e, sv')"
  shows "inv_with env L sv'"
proof -
  have "inv_with env L (sv\<lparr>sv_state := expire now (sv_state sv)\<rparr>)"
    by (rule inv_with_state [OF assms(1)]) (rule state_inv_expire)
  with assms show ?thesis
    by (auto simp: admit_def Let_def inv_with_def held_def split: if_splits prod.splits bool.splits)
qed

lemma admit_accepted:
  assumes inv: "inv_with env L sv" and call: "admit full now sv = (Inr x, sv')"
    and full: "\<And>u h K st. state_inv env u h K st \<Longrightarrow> \<not> full st \<Longrightarrow> \<not> compare_full st"
  shows "state_inv env (job_count uncommitted (sv_jobs sv') + 1) (job_count reserving (sv_jobs sv') + 1) (held sv' + L) (sv_state sv')"
    and "sv_permits sv' + length (sv_jobs sv') + 1 = 2" and "list_all (\<lambda>(_, j). job_ok env j) (sv_jobs sv')"
proof -
  from inv have e: "state_inv env (job_count uncommitted (sv_jobs sv)) (job_count reserving (sv_jobs sv)) (held sv + L)
      (expire now (sv_state sv))"
    unfolding inv_with_def by (intro state_inv_expire) blast
  from call obtain rest where nf: "\<not> full (expire now (sv_state sv))" and p: "sv_permits sv \<noteq> 0"
    and sv': "sv' = sv\<lparr>sv_finished := rest, sv_state := reserve_job (expire now (sv_state sv)), sv_permits := sv_permits sv - 1\<rparr>"
    by (auto simp: admit_def Let_def split: if_splits prod.splits bool.splits)
  show "state_inv env (job_count uncommitted (sv_jobs sv') + 1) (job_count reserving (sv_jobs sv') + 1) (held sv' + L) (sv_state sv')"
    using state_inv_reserve [OF e full [OF e nf]] sv' by (simp add: held_def)
  show "sv_permits sv' + length (sv_jobs sv') + 1 = 2" "list_all (\<lambda>(_, j). job_ok env j) (sv_jobs sv')"
    using inv p sv' by (auto simp: inv_with_def)
qed

lemma text_info_label: "text_info t l = Ok i \<Longrightarrow> ti_label i = l"
  by (auto simp: text_info_def Let_def split: if_splits)

lemma inv_with_refused: "inv_with env (mset (lease_keys rs)) sv \<Longrightarrow> service_inv env (release_all rs sv)"
  unfolding service_inv_with by (intro inv_with_release_all) simp

lemma inv_with_release_one:
  assumes "inv_with env (mset (lease_keys [x])) (sv\<lparr>sv_state := st\<rparr>)"
  shows "service_inv env (sv\<lparr>sv_state := release x st\<rparr>)"
  using inv_with_refused [OF assms] by (simp add: release_all_def)

lemma inv_with_resolve:
  assumes "inv_with env L sv" "resolve input kind now (sv_state sv) = (r, st)"
  shows "inv_with env (L + (case r of Inl _ \<Rightarrow> {#} | Inr x \<Rightarrow> mset (lease_keys [x]))) (sv\<lparr>sv_state := st\<rparr>)"
  by (rule inv_with_state [OF assms(1)])
    (use state_inv_resolve [OF _ assms(2)] in \<open>simp add: add.assoc [symmetric]\<close>)

lemma compare_begin_refused:
  assumes "compare_begin input origin cancelled now deadline sv = (Inl e, sv')"
  shows "sv' = release_all [rc_before input, rc_after input] sv \<or>
    (\<exists>e sv1. admit compare_full now sv = (Inl e, sv1) \<and> sv' = release_all [rc_before input, rc_after input] sv1)"
  using assms unfolding compare_begin_def Let_def
  by (auto split: sum.splits if_splits prod.splits)

lemma compare_begin_inv:
  assumes inv: "inv_with env (mset (lease_keys [rc_before input, rc_after input])) sv"
    and call: "compare_begin input origin cancelled now deadline sv = (r, sv')"
  shows "service_inv env sv'"
proof -
  let ?l = "[rc_before input, rc_after input]"
  show ?thesis
  proof (cases r)
    case (Inl e)
    from compare_begin_refused [OF call [unfolded Inl]] show ?thesis
      using inv_with_refused inv admit_refused [OF inv] by blast
  next
    case (Inr token)
    with call obtain before after bi ai sv1 x where
      infos: "text_info before (label_or (rc_before_label input) (lit ''Before'')) = Ok bi"
        "text_info after (label_or (rc_after_label input) (lit ''After'')) = Ok ai" and
      adm: "admit compare_full now sv = (Inr x, sv1)" and
      sv': "sv' = sv1\<lparr>sv_next_token := sv_next_token sv1 + 1,
         sv_jobs := sv_jobs sv1 @ [(sv_next_token sv1, JCompare
           \<lparr>cj_deadline = min deadline (now + 10), cj_before = before, cj_after = after,
            cj_before_info = bi, cj_after_info = ai, cj_origin = origin, cj_phase = CRunning\<rparr>)],
         sv_compares := sv_compares sv1 @
           [(sv_next_token sv1, \<lparr>cl_leases = ?l, cl_deadline = min deadline (now + 10), cl_buffer = Pending\<rparr>)]\<rparr>"
      by (auto simp: compare_begin_def Let_def split: sum.splits if_splits prod.splits)
    have l: "ti_label bi = label_or (rc_before_label input) (lit ''Before'')"
      "ti_label ai = label_or (rc_after_label input) (lit ''After'')"
      using infos [THEN text_info_label] .
    note a = admit_accepted [OF inv adm]
    have "held sv' = held sv1 + mset (lease_keys ?l)" by (simp add: held_def sv' job_keys_def)
    with a l infos show ?thesis by (simp add: service_inv_def sv')
  qed
qed

lemma sources_begin_inv:
  assumes inv: "service_inv env sv" and call: "compare_sources_begin input cancelled now deadline sv = (r, sv')"
  shows "service_inv env sv'"
proof -
  obtain t st1 where t: "resolve (di_before input) KText now (sv_state sv) = (t, st1)" by force
  note i1 = inv_with_resolve [OF inv [unfolded service_inv_with] t]
  obtain p st2 where p: "resolve (di_after input) KText now st1 = (p, st2)" by force
  have i2: "inv_with env ((case t of Inl _ \<Rightarrow> {#} | Inr x \<Rightarrow> mset (lease_keys [x])) +
      (case p of Inl _ \<Rightarrow> {#} | Inr x \<Rightarrow> mset (lease_keys [x]))) (sv\<lparr>sv_state := st2\<rparr>)"
    using inv_with_resolve [OF i1, of "di_after input" KText now p st2] p by simp
  show ?thesis
  proof (cases t)
    case (Inl e)
    with call t i1 show ?thesis by (simp add: compare_sources_begin_def service_inv_with)
  next
    case t': (Inr before)
    show ?thesis
    proof (cases p)
      case (Inl e)
      with i2 t' have "inv_with env (mset (lease_keys [before])) (sv\<lparr>sv_state := st2\<rparr>)" by simp
      from inv_with_release_one [OF this] call t p t' Inl show ?thesis
        by (simp add: compare_sources_begin_def)
    next
      case (Inr after)
      with i2 t' have "inv_with env (mset (lease_keys [before, after])) (sv\<lparr>sv_state := st2\<rparr>)"
        using lease_keys_Cons [of before "[after]"] by simp
      with call t p t' Inr show ?thesis
        by (simp add: compare_sources_begin_def) (rule compare_begin_inv, simp_all)
    qed
  qed
qed

lemma apply_admitted_inv:
  assumes inv: "inv_with env (mset (lease_keys [target, patch])) sv" and adm: "admit apply_full now sv = (Inr x, sv1)"
  shows "service_inv env (sv1\<lparr>sv_next_token := n,
       sv_jobs := sv_jobs sv1 @ [(token, JApply \<lparr>pj_deadline = d, pj_target = target, pj_patch = patch, pj_phase = ARunning\<rparr>)],
       sv_applies := as\<rparr>)" (is "service_inv env ?sv")
proof -
  note a = admit_accepted [OF inv adm apply_full_compare]
  have "held ?sv = held sv1 + mset (lease_keys [target, patch])" by (simp add: held_def job_keys_def)
  with a show ?thesis by (simp add: service_inv_def)
qed

lemma apply_begin_inv:
  assumes inv: "service_inv env sv" and call: "apply_patch_begin input cancelled now deadline sv = (r, sv')"
  shows "service_inv env sv'"
proof -
  obtain t st1 where t: "resolve (ai_target input) KText now (sv_state sv) = (t, st1)" by force
  note i1 = inv_with_resolve [OF inv [unfolded service_inv_with] t]
  obtain p st2 where p: "resolve (ai_patch input) KPatch now st1 = (p, st2)" by force
  have i2: "inv_with env ((case t of Inl _ \<Rightarrow> {#} | Inr x \<Rightarrow> mset (lease_keys [x])) +
      (case p of Inl _ \<Rightarrow> {#} | Inr x \<Rightarrow> mset (lease_keys [x]))) (sv\<lparr>sv_state := st2\<rparr>)"
    using inv_with_resolve [OF i1, of "ai_patch input" KPatch now p st2] p by simp
  show ?thesis
  proof (cases t)
    case (Inl e)
    with call t i1 show ?thesis by (simp add: apply_patch_begin_def service_inv_with)
  next
    case t': (Inr target)
    show ?thesis
    proof (cases p)
      case (Inl e)
      with i2 t' have "inv_with env (mset (lease_keys [target])) (sv\<lparr>sv_state := st2\<rparr>)" by simp
      from inv_with_release_one [OF this] call t p t' Inl show ?thesis
        by (simp add: apply_patch_begin_def)
    next
      case p': (Inr patch)
      with i2 t' have i3: "inv_with env (mset (lease_keys [target, patch])) (sv\<lparr>sv_state := st2\<rparr>)"
        using lease_keys_Cons [of target "[patch]"] by simp
      obtain x sv1 where adm: "admit apply_full now (sv\<lparr>sv_state := st2\<rparr>) = (x, sv1)" by force
      from call t p t' p' have "sv' = release_all [target, patch] (sv\<lparr>sv_state := st2\<rparr>) \<or>
          (case x of Inl _ \<Rightarrow> sv' = release_all [target, patch] sv1
           | Inr _ \<Rightarrow> \<exists>n token d as. sv' = sv1\<lparr>sv_next_token := n,
               sv_jobs := sv_jobs sv1 @ [(token, JApply \<lparr>pj_deadline = d, pj_target = target, pj_patch = patch,
                 pj_phase = ARunning\<rparr>)], sv_applies := as\<rparr>)"
        unfolding apply_patch_begin_def by (auto simp: adm Let_def split: sum.splits if_splits)
      with inv_with_refused [OF i3] adm admit_refused [OF i3] apply_admitted_inv [OF i3] show ?thesis
        by (cases x) (auto intro: inv_with_refused)
    qed
  qed
qed

text \<open>The view of one task: the rest of the service, and its own share of every count.\<close>

definition call_keys :: "service \<Rightarrow> nat multiset" where
  "call_keys sv = mset (concat (map (\<lambda>(_, c). lease_keys (cl_leases c)) (sv_compares sv)))"

definition jobs_keys :: "(nat \<times> job) list \<Rightarrow> nat multiset" where
  "jobs_keys jobs = mset (concat (map (\<lambda>(_, j). job_keys j) jobs))"

lemma service_inv_job:
  assumes "sv_jobs sv = xs @ (token, j) # ys"
  shows "service_inv env sv \<longleftrightarrow>
    state_inv env (job_count uncommitted (xs @ ys) + (if uncommitted j then 1 else 0))
      (job_count reserving (xs @ ys) + (if reserving j then 1 else 0))
      (call_keys sv + jobs_keys (xs @ ys) + mset (job_keys j)) (sv_state sv) \<and>
    sv_permits sv + length (xs @ ys) = 1 \<and> job_ok env j \<and> list_all (\<lambda>(_, j). job_ok env j) (xs @ ys)"
  unfolding service_inv_def held_def call_keys_def jobs_keys_def assms by (auto simp: ac_simps)

lemma service_inv_no_job:
  assumes "sv_jobs sv = xs @ ys"
  shows "service_inv env sv \<longleftrightarrow>
    state_inv env (job_count uncommitted (xs @ ys)) (job_count reserving (xs @ ys))
      (call_keys sv + jobs_keys (xs @ ys)) (sv_state sv) \<and>
    sv_permits sv + length (xs @ ys) = 2 \<and> list_all (\<lambda>(_, j). job_ok env j) (xs @ ys)"
  unfolding service_inv_def held_def call_keys_def jobs_keys_def assms by simp

lemma job_keys_compare [simp]: "job_keys (JCompare j) = []"
  by (simp add: job_keys_def)

lemma job_keys_phase [simp]: "job_keys (JApply (p\<lparr>pj_phase := ph\<rparr>)) = job_keys (JApply p)"
  by (simp add: job_keys_def)

lemma call_keys_simps [simp]:
  "call_keys (sv\<lparr>sv_jobs := a\<rparr>) = call_keys sv" "call_keys (sv\<lparr>sv_state := st\<rparr>) = call_keys sv"
  "call_keys (sv\<lparr>sv_applies := c\<rparr>) = call_keys sv" "call_keys (task_end b sv) = call_keys sv"
  "call_keys (sv\<lparr>sv_completed := n\<rparr>) = call_keys sv" "call_keys (sv\<lparr>sv_failed := n\<rparr>) = call_keys sv"
  by (simp_all add: call_keys_def task_end_def)

lemma lease_keys_deliver:
  "map (\<lambda>(_, c). lease_keys (cl_leases c)) (deliver token r calls) = map (\<lambda>(_, c). lease_keys (cl_leases c)) calls"
  "map (\<lambda>(_, c). lease_keys (cl_leases c)) (close_channel token calls) = map (\<lambda>(_, c). lease_keys (cl_leases c)) calls"
  by (auto simp: deliver_def close_channel_def)

lemma checked_inv:
  assumes "service_inv env sv" "sv_jobs sv = xs @ (token, JCompare j) # ys" "cj_phase j = CRunning"
  shows "service_inv env (sv\<lparr>sv_jobs := xs @ (token, JCompare (j\<lparr>cj_phase := compare_check env token answer now sv j\<rparr>)) # ys\<rparr>)"
    (is "service_inv env ?sv")
proof -
  let ?j = "JCompare (j\<lparr>cj_phase := compare_check env token answer now sv j\<rparr>)"
  have split: "sv_jobs ?sv = xs @ (token, ?j) # ys" by simp
  note inv = assms(1) [unfolded service_inv_job [OF assms(2)]]
  have ok: "job_ok env ?j"
    using inv by (auto simp: compare_check_def split: sum.splits prod.splits if_splits compare_phase.splits)
  have r: "reserving ?j" by (auto simp: compare_check_def split: sum.splits prod.splits if_splits compare_phase.splits)
  from inv assms(3) have "state_inv env (job_count uncommitted (xs @ ys) + 1) (job_count reserving (xs @ ys) + 1)
      (call_keys sv + jobs_keys (xs @ ys) + mset (job_keys (JCompare j))) (sv_state sv)" by simp
  from state_inv_weaken [OF this, of "job_count uncommitted (xs @ ys) + (if uncommitted ?j then 1 else 0)"]
  show ?thesis unfolding service_inv_job [OF split] using inv ok r by simp
qed

lemma published_inv:
  assumes "service_inv env sv" "sv_jobs sv = xs @ (token, JCompare j) # ys"
    "cj_phase j = CValidated computed capacity pages additions deletions"
    "compare_publish env caps token j computed capacity pages additions deletions now clock (sv_state sv) = (cr, st)"
  shows "service_inv env (sv\<lparr>sv_state := st, sv_jobs := xs @ (token, JCompare (j\<lparr>cj_phase := CPublished cr\<rparr>)) # ys\<rparr>)"
    (is "service_inv env ?sv")
proof -
  have split: "sv_jobs ?sv = xs @ (token, JCompare (j\<lparr>cj_phase := CPublished cr\<rparr>)) # ys" by simp
  note inv = assms(1) [unfolded service_inv_job [OF assms(2)]]
  from inv assms(3) have s: "state_inv env (job_count uncommitted (xs @ ys) + 1) (job_count reserving (xs @ ys) + 1)
      (call_keys sv + jobs_keys (xs @ ys)) (sv_state sv)" by simp
  from inv have "job_ok env (JCompare j)" by blast
  from state_inv_compare_publish [OF s this assms(3,4)]
  show ?thesis unfolding service_inv_job [OF split] using inv by simp
qed

lemma released_inv:
  assumes "service_inv env sv" "sv_jobs sv = xs @ (token, JCompare j) # ys" "cj_phase j = CPublished cr"
  shows "service_inv env ((compare_release cr sv)\<lparr>sv_jobs := xs @ (token, JCompare (j\<lparr>cj_phase := CReleased cr\<rparr>)) # ys\<rparr>)"
    (is "service_inv env ?sv")
proof -
  have split: "sv_jobs ?sv = xs @ (token, JCompare (j\<lparr>cj_phase := CReleased cr\<rparr>)) # ys" by simp
  note inv = assms(1) [unfolded service_inv_job [OF assms(2)]]
  from inv assms(3) have s: "state_inv env (job_count uncommitted (xs @ ys)) (job_count reserving (xs @ ys) + 1)
      (call_keys sv + jobs_keys (xs @ ys)) (sv_state sv)" by simp
  from state_inv_unreserve [OF s uncommitted_le]
  show ?thesis unfolding service_inv_job [OF split] using inv by (simp add: compare_release_def)
qed

lemma sent_inv:
  assumes "service_inv env sv" "sv_jobs sv = xs @ (token, JCompare j) # ys" "cj_phase j = CReleased cr"
  shows "service_inv env ((compare_send token cr sv)\<lparr>sv_jobs := xs @ ys\<rparr>)" (is "service_inv env ?sv")
proof -
  have split: "sv_jobs ?sv = xs @ ys" by simp
  note inv = assms(1) [unfolded service_inv_job [OF assms(2)]]
  from inv assms(3) have s: "state_inv env (job_count uncommitted (xs @ ys)) (job_count reserving (xs @ ys))
      (call_keys sv + jobs_keys (xs @ ys)) (sv_state sv)" by simp
  have "call_keys ?sv = call_keys sv"
    by (auto simp: compare_send_def call_keys_def task_end_def lease_keys_deliver split: sum.splits)
  moreover have "sv_state ?sv = sv_state sv \<or> (\<exists>i. sv_state ?sv = snd (delete_comparison i (sv_state sv)))"
    by (auto simp: compare_send_def task_end_def split: sum.splits)
  moreover have "sv_permits ?sv = sv_permits sv + 1" by (auto simp: compare_send_def task_end_def split: sum.splits)
  ultimately show ?thesis
    unfolding service_inv_no_job [OF split] using inv s state_inv_delete_comparison [OF s] by auto
qed

lemma compare_panicked_inv:
  assumes "service_inv env sv" "sv_jobs sv = xs @ (token, JCompare j) # ys" "cj_phase j = CRunning"
  shows "service_inv env ((compare_panic token sv)\<lparr>sv_jobs := xs @ ys\<rparr>)" (is "service_inv env ?sv")
proof -
  have split: "sv_jobs ?sv = xs @ ys" by simp
  note inv = assms(1) [unfolded service_inv_job [OF assms(2)]]
  from inv assms(3) have "state_inv env (job_count uncommitted (xs @ ys) + 1) (job_count reserving (xs @ ys) + 1)
      (call_keys sv + jobs_keys (xs @ ys)) (sv_state sv)" by simp
  then have "state_inv env (job_count uncommitted (xs @ ys)) (job_count reserving (xs @ ys) + 1)
      (call_keys sv + jobs_keys (xs @ ys)) (sv_state sv)" by (rule state_inv_weaken) simp
  from state_inv_unreserve [OF this uncommitted_le]
  show ?thesis unfolding service_inv_no_job [OF split] using inv
    by (simp add: compare_panic_def call_keys_def task_end_def lease_keys_deliver)
qed

lemma apply_phase_inv:
  assumes "service_inv env sv" "sv_jobs sv = xs @ (token, JApply p) # ys" "job_ok env (JApply (p\<lparr>pj_phase := ph\<rparr>))"
    and "\<And>u h K. state_inv env u h K (sv_state sv) \<Longrightarrow> state_inv env u h K (sv_state sv')"
    and "call_keys sv' = call_keys sv" "sv_permits sv' = sv_permits sv"
  shows "service_inv env (sv'\<lparr>sv_jobs := xs @ (token, JApply (p\<lparr>pj_phase := ph\<rparr>)) # ys\<rparr>)" (is "service_inv env ?sv")
proof -
  have split: "sv_jobs ?sv = xs @ (token, JApply (p\<lparr>pj_phase := ph\<rparr>)) # ys" by simp
  note inv = assms(1) [unfolded service_inv_job [OF assms(2)]]
  show ?thesis unfolding service_inv_job [OF split] using inv assms(3-) by simp
qed

lemma apply_check_ok:
  "(\<And>t c. answer = Ok (t, c) \<Longrightarrow> str_len t \<le> c) \<Longrightarrow>
     job_ok env (JApply (p\<lparr>pj_phase := apply_check token answer now sv p\<rparr>))"
  by (auto simp: apply_check_def split: sum.splits prod.splits if_splits)

lemma apply_publish_inv:
  assumes "state_inv env u h K st" "str_len t \<le> capacity" "apply_publish env t capacity info now clock st = (r, st')"
  shows "state_inv env u h K st'"
proof -
  obtain x st1 where x: "publish_attachment (en_handles env) t capacity KText now clock st = (x, st1)" by force
  from state_inv_publish [OF assms(1,2) x] assms(3) x show ?thesis
    by (auto simp: apply_publish_def split: sum.splits)
qed

lemma apply_drop_inv:
  assumes "service_inv env sv" "sv_jobs sv = xs @ (token, JApply p) # ys"
  shows "state_inv env (job_count uncommitted (xs @ ys)) (job_count reserving (xs @ ys))
    (call_keys sv + jobs_keys (xs @ ys)) (sv_state (apply_drop p sv))"
proof -
  note inv = assms(1) [unfolded service_inv_job [OF assms(2)]]
  let ?l = "[pj_target p, pj_patch p]"
  from inv have "state_inv env (job_count uncommitted (xs @ ys) + 1) (job_count reserving (xs @ ys) + 1)
      (call_keys sv + jobs_keys (xs @ ys) + mset (lease_keys ?l)) (sv_state sv)"
    by (simp add: job_keys_def)
  then have "state_inv env (job_count uncommitted (xs @ ys)) (job_count reserving (xs @ ys) + 1)
      (call_keys sv + jobs_keys (xs @ ys) + mset (lease_keys ?l)) (sv_state sv)" by (rule state_inv_weaken) simp
  from state_inv_release_all [OF state_inv_unreserve [OF this uncommitted_le]]
  show ?thesis by (simp add: apply_drop_def release_all_def)
qed

lemma apply_over_inv:
  assumes "service_inv env sv" "sv_jobs sv = xs @ (token, JApply p) # ys"
    and "sv_state sv' = sv_state (apply_drop p sv)" "call_keys sv' = call_keys sv" "sv_permits sv' = sv_permits sv + 1"
  shows "service_inv env (sv'\<lparr>sv_jobs := xs @ ys\<rparr>)" (is "service_inv env ?sv")
proof -
  have split: "sv_jobs ?sv = xs @ ys" by simp
  note inv = assms(1) [unfolded service_inv_job [OF assms(2)]]
  show ?thesis unfolding service_inv_no_job [OF split]
    using inv apply_drop_inv [OF assms(1,2)] assms(3-) by simp
qed

text \<open>A caller that returns gives its leases back.\<close>

lemma compare_return_inv:
  assumes "service_inv env sv" "sv_compares sv = cs @ (token, c) # ds"
  shows "service_inv env ((compare_return token c ok sv)\<lparr>sv_compares := cs @ ds\<rparr>)"
proof -
  define sv1 where "sv1 = (if ok then sv else cancel_token token sv)"
  have same: "sv_jobs sv1 = sv_jobs sv" "sv_permits sv1 = sv_permits sv" "sv_compares sv1 = sv_compares sv"
    by (simp_all add: sv1_def cancel_token_def)
  have "inv_with env (mset (lease_keys (cl_leases c))) (sv1\<lparr>sv_compares := cs @ ds\<rparr>)"
  proof -
    have "held (sv1\<lparr>sv_compares := cs @ ds\<rparr>) + mset (lease_keys (cl_leases c)) = held sv"
      using assms(2) same by (simp add: held_def ac_simps)
    moreover have "state_inv env u h K (sv_state sv1)" if "state_inv env u h K (sv_state sv)" for u h K
      using that state_inv_cong [OF that, of "sv_state sv1"] by (simp add: sv1_def cancel_token_def)
    ultimately show ?thesis
      using assms(1) same by (simp add: inv_with_def service_inv_def)
  qed
  from inv_with_refused [OF this]
  show ?thesis unfolding compare_return_def sv1_def [symmetric] release_all_def by (cases sv1) simp
qed

lemma apply_return_inv:
  assumes "service_inv env sv"
  shows "service_inv env ((apply_return token c ok now sv)\<lparr>sv_applies := as\<rparr>)"
proof -
  have c: "service_inv env (cancel_token token sv)"
    unfolding cancel_token_def by (rule service_inv_state [OF assms]) (erule state_inv_cong, simp_all)
  have "service_inv env (apply_return token c ok now sv)"
    using assms c
    by (auto simp: apply_return_def Let_def split: buffer.splits intro!: service_inv_state state_inv_drop_delivery)
  then show ?thesis by (simp add: service_inv_with inv_with_fields)
qed

lemma run_end_inv:
  assumes "service_inv env sv"
  shows "service_inv env (snd (run_end sv))"
proof -
  have e: "state_inv env u h K (st\<lparr>s_entries := []\<rparr>)" if "state_inv env u h K st" for u h K st
    by (rule state_inv_shrink [OF that, where P = "\<lambda>_. False"])
      (auto intro: store_ok_cong [OF state_invD(1) [OF that]])
  have "service_inv env (sv\<lparr>sv_state := retain_attachments (\<lambda>_. False) ((sv_state sv)\<lparr>s_entries := []\<rparr>)\<rparr>)"
    by (rule service_inv_state [OF assms]) (intro state_inv_retain e)
  then show ?thesis by (simp add: run_end_def Let_def service_inv_with inv_with_def held_def)
qed

lemma read_inv: "state_inv env u h K st \<Longrightarrow> state_inv env u h K (snd (read_attachment_with_kind r d now st))"
  using read_state [of r d now st] by (auto intro: state_inv_expire)

lemma summary_inv: "state_inv env u h K st \<Longrightarrow> state_inv env u h K (snd (summary i now st))"
  by (auto simp: summary_def Let_def intro: state_inv_expire split: sum.splits)

lemma page_inv: "state_inv env u h K st \<Longrightarrow> state_inv env u h K (snd (page env' r now st))"
  by (auto simp: page_def Let_def intro: state_inv_expire split: sum.splits)

lemma service_step_inv:
  assumes "service_step env sv sv'" "service_inv env sv" "reserve_ok (en_reserve env)"
  shows "service_inv env sv'"
  using assms
proof (cases rule: service_step.cases)
  case (upload req declared now clock r st)
  show ?thesis unfolding upload(1)
    by (rule service_inv_state [OF assms(2)]) (rule state_inv_upload [OF _ assms(3) upload(2)])
next
  case (read rreq declared now rr st)
  then have "st = snd (read_attachment_with_kind rreq declared now (sv_state sv))" by simp
  with read(1) show ?thesis by (auto intro!: service_inv_state [OF assms(2)] read_inv)
next
  case (delete_att i declared now dr st)
  then have "st = snd (delete_attachment_with_kind i declared now (sv_state sv))" by simp
  with delete_att(1) show ?thesis by (auto intro!: service_inv_state [OF assms(2)] state_inv_delete_attachment)
next
  case (compare input cancelled now deadline tr)
  show ?thesis
    by (rule compare_begin_inv [OF _ compare [unfolded service_compare_def]])
      (use assms(2) in \<open>simp add: resolved_compare_from_def service_inv_with\<close>)
next
  case (snapshots before after cancelled now deadline tr)
  show ?thesis
  proof (cases "snapshot_input before after")
    case (Inl e)
    with snapshots assms(2) show ?thesis by (simp add: compare_snapshots_def)
  next
    case (Inr io)
    with snapshots have "compare_begin (resolved_compare_from (fst io)) (Some (snd io)) cancelled now deadline sv = (tr, sv')"
      by (simp add: compare_snapshots_def case_prod_unfold)
    then show ?thesis
      by (rule compare_begin_inv [rotated]) (use assms(2) in \<open>simp add: resolved_compare_from_def service_inv_with\<close>)
  qed
next
  case (sources dinput cancelled now deadline tr)
  show ?thesis by (rule sources_begin_inv [OF assms(2) sources])
next
  case (apply_started ainput cancelled now deadline tr)
  show ?thesis by (rule apply_begin_inv [OF assms(2) apply_started])
next
  case (checked xs token j ys answer now)
  show ?thesis unfolding checked(1) by (rule checked_inv [OF assms(2) checked(2,3)])
next
  case (published xs token j ys computed capacity pages additions deletions caps now clock cr st)
  show ?thesis unfolding published(1) by (rule published_inv [OF assms(2) published(2,3,4)])
next
  case (released xs token j ys cr)
  show ?thesis unfolding released(1) by (rule released_inv [OF assms(2) released(2,3)])
next
  case (sent xs token j ys cr)
  show ?thesis unfolding sent(1) by (rule sent_inv [OF assms(2) sent(2,3)])
next
  case (compare_panicked xs token j ys)
  show ?thesis unfolding compare_panicked(1) by (rule compare_panicked_inv [OF assms(2) compare_panicked(2,3)])
next
  case (apply_checked xs token p ys aanswer now)
  show ?thesis unfolding apply_checked(1)
    by (rule apply_phase_inv [OF assms(2) apply_checked(2) apply_check_ok]) (use apply_checked(4) in auto)
next
  case (apply_published xs token p ys t capacity info now clock ar st)
  have "str_len t \<le> capacity" using assms(2) [unfolded service_inv_job [OF apply_published(2)]] apply_published(3) by simp
  then have "service_inv env ((sv\<lparr>sv_state := st\<rparr>)\<lparr>sv_jobs := xs @ (token, JApply (p\<lparr>pj_phase := APublished ar\<rparr>)) # ys\<rparr>)"
    by (intro apply_phase_inv [OF assms(2) apply_published(2)]) (auto intro: apply_publish_inv [OF _ _ apply_published(4)])
  then show ?thesis unfolding apply_published(1) by simp
next
  case (apply_sent xs token p ys ar now)
  show ?thesis unfolding apply_sent(1)
    by (rule apply_phase_inv [OF assms(2) apply_sent(2)]) (auto simp: apply_send_def intro: state_inv_drop_delivery)
next
  case (apply_finished xs token p ys)
  show ?thesis unfolding apply_finished(1)
    by (rule apply_over_inv [OF assms(2) apply_finished(2)])
      (simp_all add: apply_finish_def task_end_def apply_drop_def release_all_def call_keys_def)
next
  case (apply_panicked xs token p ys)
  show ?thesis unfolding apply_panicked(1)
    by (rule apply_over_inv [OF assms(2) apply_panicked(2)])
      (simp_all add: apply_panic_def task_end_def apply_drop_def release_all_def call_keys_def)
next
  case (compare_returned cs token c ds cancelled now cr)
  show ?thesis unfolding compare_returned(1) by (rule compare_return_inv [OF assms(2) compare_returned(2)])
next
  case (compare_abandoned cs token c ds)
  show ?thesis unfolding compare_abandoned(1) by (rule compare_return_inv [OF assms(2) compare_abandoned(2)])
next
  case (apply_returned as token a bs cancelled now ar)
  show ?thesis unfolding apply_returned(1) by (rule apply_return_inv [OF assms(2)])
next
  case (apply_abandoned as token a bs now)
  show ?thesis unfolding apply_abandoned(1) by (rule apply_return_inv [OF assms(2)])
next
  case (exported comparison now er st)
  show ?thesis unfolding exported(1)
    by (rule service_inv_state [OF assms(2)]) (rule state_inv_sources_end [OF _ exported(2)])
next
  case (summary i now sr st)
  then have "st = snd (Diff_Service.summary i now (sv_state sv))" by simp
  with summary(1) show ?thesis by (auto intro!: service_inv_state [OF assms(2)] summary_inv)
next
  case (page preq now pr st)
  then have "st = snd (Diff_Service.page env preq now (sv_state sv))" by simp
  with page(1) show ?thesis by (auto intro!: service_inv_state [OF assms(2)] page_inv)
next
  case (delete i dr st)
  then have "st = snd (delete_comparison i (sv_state sv))" by simp
  with delete(1) show ?thesis by (auto intro!: service_inv_state [OF assms(2)] state_inv_delete_comparison)
next
  case (metrics now g st)
  then have "st = expire now (sv_state sv)" by (simp add: metrics_gauges_def Let_def)
  with metrics(1) show ?thesis by (auto intro!: service_inv_state [OF assms(2)] state_inv_expire)
next
  case (tick now)
  have "service_inv env (sv\<lparr>sv_state := expire now (sv_state sv)\<rparr>)"
    by (rule service_inv_state [OF assms(2)]) (rule state_inv_expire)
  then show ?thesis unfolding tick by (simp add: run_tick_def Let_def service_inv_with inv_with_def held_def)
next
  case stop
  have "service_inv env (sv\<lparr>sv_state := (sv_state sv)\<lparr>s_stopping := True\<rparr>\<rparr>)"
    by (rule service_inv_state [OF assms(2)]) (erule state_inv_cong, simp_all)
  then show ?thesis unfolding stop by (simp add: run_stop_def service_inv_with inv_with_def held_def)
next
  case (finish rr')
  with run_end_inv [OF assms(2)] show ?thesis by simp
qed

lemma reachable_inv: "reachable env sv \<Longrightarrow> reserve_ok (en_reserve env) \<Longrightarrow> service_inv env sv"
  by (induction rule: reachable.induct) (auto intro: service_inv_new service_step_inv)

end
