(* ===== verification/Attachment_Protocol.thy ===== *)
theory Attachment_Protocol
  imports Attachments
begin

text \<open>
  What a client of the attachment store (\<open>crates/application/src/text_diff/attachments.rs\<close>) sees:
  replaying an upload request is idempotent, following \<open>next_offset\<close> reads the whole text, and a
  deletion is effective at once while running requests keep the texts they have leased.
\<close>

section \<open>Replays, reads and deletion\<close>

lemma set_summary_lookup:
  assumes "map_of (s_attachments st) i = Some a" "map_of (s_heap st) (sa_data a) = Some d"
  shows "map_of (s_attachments (set_summary i s (set_text (sa_data a) t st))) i = Some (a\<lparr>sa_summary := s\<rparr>)"
    and "data_of (set_summary i s (set_text (sa_data a) t st)) (a\<lparr>sa_summary := s\<rparr>) = d\<lparr>ad_text := t\<rparr>"
  using assms by (simp_all add: set_summary_def set_text_def data_of_def map_of_map_key)

lemma continue_guards:
  assumes "upload_continue i req declared st = (Ok s, st')"
  obtains a where "valid_handle i = Ok ()" "up_kind req = None" "up_total_bytes req = None"
    "map_of (s_attachments st) i = Some a" "check_declared_kind declared (as_kind (sa_summary a)) = Ok ()"
  using assms by (auto simp: upload_continue_def split: sum.splits if_splits option.splits)

lemma continue_replay:
  assumes ok: "store_ok st" and call: "upload_continue i req declared st = (Ok s, st')"
  shows "upload_continue i req declared st' = (Ok s, st')"
  using upload_continue_cases [OF call]
proof (elim disjE exE conjE)
  assume "st' = st"
  with call show ?thesis by simp
next
  fix a
  assume a: "map_of (s_attachments st) i = Some a" and off: "up_offset req = str_len (ad_text (data_of st a))"
  define t where "t = ad_text (data_of st a)"
  define t' where "t' = t @ up_chunk req"
  define s' where "s' = (sa_summary a)\<lparr>as_committed_bytes := str_len t', as_sealed := up_complete req\<rparr>"
  assume "let t' = ad_text (data_of st a) @ up_chunk req;
            s' = (sa_summary a)\<lparr>as_committed_bytes := str_len t', as_sealed := up_complete req\<rparr> in
        str_len t' \<le> as_total_bytes (sa_summary a) \<and>
        (up_complete req \<longrightarrow> str_len t' = as_total_bytes (sa_summary a) \<and>
           validate (as_kind (sa_summary a)) t' = Ok ()) \<and>
        (up_chunk req \<noteq> [] \<or> up_complete req) \<and>
        Ok s = Ok s' \<and> st' = set_summary i s' (set_text (sa_data a) t' st)"
  then have h: "str_len t' \<le> as_total_bytes (sa_summary a)"
      "up_complete req \<longrightarrow> str_len t' = as_total_bytes (sa_summary a)"
      "up_chunk req \<noteq> [] \<or> up_complete req" "s = s'"
      "st' = set_summary i s' (set_text (sa_data a) t' st)"
    unfolding t_def [symmetric] t'_def [symmetric] Let_def s'_def [symmetric] by blast+
  note d = data_of_entry [OF ok a]
  have look: "map_of (s_attachments st') i = Some (a\<lparr>sa_summary := s'\<rparr>)"
    "ad_text (data_of st' (a\<lparr>sa_summary := s'\<rparr>)) = t'"
    unfolding h(5) using set_summary_lookup [OF a d [THEN conjunct1]] by simp_all
  have total: "as_total_bytes (sa_summary a) \<le> usize_max"
    using d by (auto simp: attachment_ok_def maximum_def size_simps usize_max_def split: attachment_kind.splits)
  have sl: "slice t' (up_offset req) (str_len t') = Some (up_chunk req)"
    unfolding slice_Some_iff using off by (intro exI [of _ t] exI [of _ "[]"]) (simp add: t'_def t_def)
  have bd: "is_char_boundary t' (up_offset req)"
    unfolding char_boundary_iff t'_def using off t_def by auto
  have pos: "up_offset req < str_len t' \<or> up_complete req"
    using h(3) off by (auto simp: t'_def t_def)
  have ca: "checked_add (up_offset req) (str_len (up_chunk req)) = Some (str_len t')"
    using h(1) total off by (simp add: checked_add_def t'_def t_def)
  have fields: "as_total_bytes s' = as_total_bytes (sa_summary a)" "as_kind s' = as_kind (sa_summary a)"
    "as_sealed s' = up_complete req" by (simp_all add: s'_def)
  obtain a' where g: "valid_handle i = Ok ()" "up_kind req = None" "up_total_bytes req = None"
    "map_of (s_attachments st) i = Some a'" "check_declared_kind declared (as_kind (sa_summary a')) = Ok ()"
    by (rule continue_guards [OF call])
  have kind: "check_declared_kind declared (as_kind (sa_summary a)) = Ok ()" using g(4,5) a by simp
  have fit: "\<not> (as_total_bytes (sa_summary a) < str_len t' \<or> up_complete req \<and> str_len t' \<noteq> as_total_bytes (sa_summary a))"
    using h(1,2) by auto
  show ?thesis
    unfolding upload_continue_def g(1-3) look(1) Let_def using pos fit
    by (simp add: look(2) fields kind ca sl bd h(4))
qed

text \<open>Replaying an accepted upload continuation is idempotent: while the attachment is
  retained, the same request (whatever the clock, the handle generator and the allocator answer
  then) returns the same summary and leaves the store, the expiry included, as it was.\<close>

theorem upload_replay:
  assumes "store_ok st" "up_attachment_id req = Some i"
    and "upload_attachment_with_kind handles reserve req declared now clock st = (Ok s, st')"
    and "current now' st'"
  shows "upload_attachment_with_kind handles' reserve' req declared now' clock' st' = (Ok s, st')"
proof -
  let ?st = "expire now st"
  have e: "store_ok ?st" by (rule store_ok_expire [OF assms(1)])
  from assms(2,3) have call: "upload_continue i req declared ?st = (Ok s, st')"
    and g: "\<not> (MAX_ATTACHMENT_CHUNK_BYTES < str_len (up_chunk req) \<or> 0 \<in> set (up_chunk req))" "\<not> s_stopping ?st"
    by (auto simp: upload_attachment_with_kind_def Let_def split: if_splits)
  have "store_ok st'" using upload_continue_ok [OF e call] g(1) by blast
  then have "expire now' st' = st'" using assms(4) by (rule expire_current)
  moreover have "s_stopping st' = s_stopping ?st"
    using upload_continue_cases [OF call] by (auto simp: set_summary_def set_text_def Let_def)
  ultimately show ?thesis
    using continue_replay [OF e call] g assms(2)
    by (simp add: upload_attachment_with_kind_def Let_def)
qed

text \<open>The witness of the replay: an upload of three bytes in two requests.\<close>

definition demo_handles :: handle_source where
  "demo_handles n = Ok (n # replicate 31 0)"

definition demo_reserve :: "nat \<Rightarrow> nat option" where
  "demo_reserve n = Some n"

definition demo_first :: attachment_upload where
  "demo_first = \<lparr>up_attachment_id = None, up_kind = Some KText, up_total_bytes = Some 3, up_offset = 0,
     up_chunk = lit ''ab'', up_complete = False\<rparr>"

definition demo_last :: attachment_upload where
  "demo_last = \<lparr>up_attachment_id = Some (hex_string (0 # replicate 31 0)), up_kind = None, up_total_bytes = None,
     up_offset = 2, up_chunk = lit ''c'', up_complete = True\<rparr>"

definition demo_open :: service_state where
  "demo_open = snd (upload_attachment demo_handles demo_reserve demo_first 10 1000 state_default)"

definition demo_sealed :: service_state where
  "demo_sealed = snd (upload_attachment demo_handles demo_reserve demo_last 11 1001 demo_open)"

definition demo_summary :: attachment_summary where
  "demo_summary = \<lparr>as_schema_version = 1, as_attachment_id = hex_string (0 # replicate 31 0), as_kind = KText,
     as_total_bytes = 3, as_committed_bytes = 3, as_sealed = True, as_expires_at = 1600\<rparr>"

lemma demo_open_ok: "store_ok demo_open"
  unfolding demo_open_def upload_attachment_def
  by (rule upload_ok [OF store_ok_default, where reserve = demo_reserve and handles = demo_handles and req = demo_first
        and declared = None and now = 10 and clock = 1000, OF prod.collapse [symmetric]])
    (simp add: reserve_ok_def demo_reserve_def)

lemma demo_second: "upload_attachment_with_kind demo_handles demo_reserve demo_last None 11 1001 demo_open = (Ok demo_summary, demo_sealed)"
  by code_simp

theorem upload_replay_witness:
  "upload_attachment_with_kind demo_handles demo_reserve demo_last None 30 2000 demo_sealed = (Ok demo_summary, demo_sealed)"
proof -
  have "current 30 demo_sealed" by code_simp
  moreover have "up_attachment_id demo_last = Some (hex_string (0 # replicate 31 0))" by (simp add: demo_last_def)
  ultimately show ?thesis by (intro upload_replay [OF demo_open_ok _ demo_second])
qed


text \<open>A page starts at the requested boundary, is never empty before the end and never larger than
  a chunk.\<close>

lemma read_page_step:
  assumes "as_sealed s" "str_len (a @ b) \<le> usize_max"
  obtains c d where "b = c @ d" "str_len c \<le> MAX_ATTACHMENT_CHUNK_BYTES" "b \<noteq> [] \<Longrightarrow> c \<noteq> []"
    "read_page s (a @ b) (str_len a) = Ok \<lparr>ap_schema_version = 1, ap_attachment = s, ap_offset = str_len a,
       ap_next_offset = str_len (a @ c), ap_complete = (d = []), ap_text = c\<rparr>"
proof -
  let ?t = "a @ b"
  define stop where "stop = floor_boundary ?t (min (saturating_add (str_len a) MAX_ATTACHMENT_CHUNK_BYTES) (str_len ?t))"
  have le: "stop \<le> str_len a + MAX_ATTACHMENT_CHUNK_BYTES"
    unfolding stop_def by (rule order.trans [OF floor_boundary_le]) (auto simp: saturating_add_def)
  have low: "str_len a \<le> stop" unfolding stop_def
    using assms(2) by (intro floor_boundary_greatest) (auto simp: char_boundary_iff saturating_add_def)
  obtain x y where xy: "?t = x @ y" "str_len x = stop"
    using floor_boundary_ok [of ?t] unfolding stop_def char_boundary_iff by blast
  obtain c where c: "x = a @ c" "b = c @ y"
  proof -
    from xy(1) obtain us where "a = x @ us \<and> us @ b = y \<or> a @ us = x \<and> b = us @ y"
      unfolding append_eq_append_conv2 by blast
    with low xy(2) that [of us] that [of "[]"] show ?thesis by auto
  qed
  have "c \<noteq> []" if "b \<noteq> []"
  proof -
    from that obtain v w where b: "b = v # w" by (cases b) auto
    have "len_utf8 v \<le> MAX_ATTACHMENT_CHUNK_BYTES"
      using len_utf8_le [of v] by (simp add: size_simps)
    then have "str_len a + len_utf8 v \<le> stop" unfolding stop_def
      using assms(2) b by (intro floor_boundary_greatest) (auto simp: char_boundary_iff saturating_add_def
          intro: exI [of _ "a @ [v]"] exI [of _ w])
    with xy(2) c(1) show ?thesis by auto
  qed
  moreover have "read_page s ?t (str_len a) = Ok \<lparr>ap_schema_version = 1, ap_attachment = s,
      ap_offset = str_len a, ap_next_offset = str_len (a @ c), ap_complete = (y = []), ap_text = c\<rparr>"
  proof -
    have "slice ?t (str_len a) stop = Some c" unfolding slice_Some_iff using c xy(2) by auto
    moreover have "is_char_boundary ?t (str_len a)" unfolding char_boundary_iff by blast
    moreover have "stop = str_len ?t \<longleftrightarrow> y = []" using xy c by auto
    ultimately show ?thesis
      unfolding read_page_def stop_def [symmetric] Let_def using assms(1) c(1) xy(2) by simp
  qed
  moreover have "str_len c \<le> MAX_ATTACHMENT_CHUNK_BYTES" using le c(1) xy(2) by simp
  ultimately show ?thesis using that [of c y] c(2) by blast
qed

text \<open>Reading an attachment page by page, following \<open>next_offset\<close> until \<open>complete\<close>.\<close>

fun read_all :: "nat \<Rightarrow> rstr \<Rightarrow> nat \<Rightarrow> service_state \<Rightarrow> nat \<Rightarrow> (attachment_page list, text_diff_error) result" where
  "read_all 0 i now st off = Err Internal"
| "read_all (Suc n) i now st off =
     (case read_attachment \<lparr>rd_attachment_id = i, rd_offset = off\<rparr> now st of
        (Inl e, _) \<Rightarrow> Err e
      | (Inr p, st') \<Rightarrow>
          if ap_complete p then Ok [p]
          else and_then (read_all n i now st' (ap_next_offset p)) (\<lambda>ps. Ok (p # ps)))"

lemma read_current:
  assumes "store_ok st" "current now st" "valid_handle i = Ok ()" "map_of (s_attachments st) i = Some a"
  shows "read_attachment \<lparr>rd_attachment_id = i, rd_offset = off\<rparr> now st =
    (read_page (sa_summary a) (ad_text (data_of st a)) off, st)"
  using assms expire_current [OF assms(1,2)]
  by (simp add: read_attachment_def read_attachment_with_kind_def check_declared_kind_def)

lemma read_all_from:
  assumes "store_ok st" "current now st" "valid_handle i = Ok ()" "map_of (s_attachments st) i = Some a"
    and "as_sealed (sa_summary a)" "ad_text (data_of st a) = x @ y" "str_len (x @ y) \<le> usize_max" "str_len y < n"
  shows "\<exists>pages. read_all n i now st (str_len x) = Ok pages \<and> concat (map ap_text pages) = y \<and>
    list_all (\<lambda>p. str_len (ap_text p) \<le> MAX_ATTACHMENT_CHUNK_BYTES) pages"
  using assms(6-8)
proof (induction n arbitrary: x y)
  case (Suc n)
  obtain c d where p: "y = c @ d" "str_len c \<le> MAX_ATTACHMENT_CHUNK_BYTES" "y \<noteq> [] \<Longrightarrow> c \<noteq> []"
    "read_page (sa_summary a) (x @ y) (str_len x) = Ok \<lparr>ap_schema_version = 1, ap_attachment = sa_summary a,
       ap_offset = str_len x, ap_next_offset = str_len (x @ c), ap_complete = (d = []), ap_text = c\<rparr>"
    using read_page_step [OF assms(5) Suc.prems(2)] by blast
  have step: "read_attachment \<lparr>rd_attachment_id = i, rd_offset = str_len x\<rparr> now st =
      (read_page (sa_summary a) (x @ y) (str_len x), st)"
    using read_current [OF assms(1-4)] Suc.prems(1) by simp
  show ?case
  proof (cases "d = []")
    case True
    with p step show ?thesis by simp
  next
    case False
    then have "0 < str_len c" using p(1,3) by auto
    then have "str_len d < n" using Suc.prems(3) p(1) by (simp del: str_len_pos)
    with Suc.IH [of "x @ c" d] Suc.prems p(1)
    obtain pages where "read_all n i now st (str_len (x @ c)) = Ok pages" "concat (map ap_text pages) = d"
        "list_all (\<lambda>p. str_len (ap_text p) \<le> MAX_ATTACHMENT_CHUNK_BYTES) pages" by auto
    with p step False show ?thesis by simp
  qed
qed simp

text \<open>C26 A client that reads a sealed attachment page by page, following \<open>next_offset\<close>, gets
  after at most \<open>total_bytes + 1\<close> reads a complete sequence of pages, each within the chunk
  limit, whose texts concatenate to exactly the stored text.\<close>

theorem read_pages_complete:
  assumes "store_ok st" "current now st" "valid_handle i = Ok ()" "map_of (s_attachments st) i = Some a"
    and "as_sealed (sa_summary a)"
  shows "\<exists>pages. read_all (as_total_bytes (sa_summary a) + 1) i now st 0 = Ok pages \<and>
    concat (map ap_text pages) = ad_text (data_of st a) \<and>
    list_all (\<lambda>p. str_len (ap_text p) \<le> MAX_ATTACHMENT_CHUNK_BYTES) pages"
proof -
  have ok: "str_len (ad_text (data_of st a)) = as_total_bytes (sa_summary a)"
      "as_total_bytes (sa_summary a) \<le> maximum (as_kind (sa_summary a))"
    using data_of_entry [OF assms(1,4)] assms(5) by (auto simp: attachment_ok_def)
  then have "str_len (ad_text (data_of st a)) \<le> usize_max"
    by (auto simp: maximum_def size_simps usize_max_def split: attachment_kind.splits)
  with ok(1) show ?thesis
    using read_all_from [OF assms, of "[]" "ad_text (data_of st a)" "as_total_bytes (sa_summary a) + 1"]
    by (simp del: read_all.simps)
qed

lemma demo_sealed_ok: "store_ok demo_sealed"
  using upload_ok [OF demo_open_ok demo_second] by (simp add: reserve_ok_def demo_reserve_def)

theorem read_pages_complete_witness:
  "\<exists>pages. read_all 4 (hex_string (0 # replicate 31 0)) 20 demo_sealed 0 = Ok pages \<and> concat (map ap_text pages) = lit ''abc''"
proof -
  let ?a = "\<lparr>sa_data = 0, sa_summary = demo_summary, sa_expires = 610\<rparr>"
  have h: "current 20 demo_sealed" "valid_handle (hex_string (0 # replicate 31 0)) = Ok ()"
    "map_of (s_attachments demo_sealed) (hex_string (0 # replicate 31 0)) = Some ?a"
    "as_sealed (sa_summary ?a)" "as_total_bytes (sa_summary ?a) + 1 = 4"
    "ad_text (data_of demo_sealed ?a) = lit ''abc''"
    by code_simp+
  show ?thesis
    using read_pages_complete [OF demo_sealed_ok h(1-4)] unfolding h(5,6) by blast
qed

lemma drop_heap:
  "referenced st k \<Longrightarrow> map_of (s_heap (drop_unreferenced st)) k = map_of (s_heap st) k"
  by (simp add: drop_unreferenced_def map_of_filter_key)

lemma retain_leased:
  "k \<in> set (s_leases st) \<Longrightarrow> map_of (s_heap (retain_attachments P st)) k = map_of (s_heap st) k"
  by (simp add: retain_attachments_def drop_heap referenced_def)

lemma expire_leased:
  "k \<in> set (s_leases st) \<Longrightarrow> map_of (s_heap (expire now st)) k = map_of (s_heap st) k"
  by (simp add: expire_def Let_def retain_leased)

lemma expire_again:
  assumes "store_ok st" "s_attachments st' = filter P (s_attachments (expire now st))"
    "s_entries st' = s_entries (expire now st)" "s_cancelled st' = s_cancelled st" "store_ok st'"
  shows "expire now st' = st'"
proof (rule expire_current [OF assms(5)])
  show "current now st'" using assms(2-4) by (auto simp: current_def list_all_iff)
qed

text \<open>Deleting an attachment is effective and idempotent: an accepted deletion leaves a state
  in which the handle is unknown, so a read of it and its use as an input are refused with
  \<open>NotFound\<close>, a second deletion succeeds and changes nothing, every other retained attachment keeps
  its entry, and the text that a running request has leased stays alive.\<close>

theorem delete_effective:
  assumes "store_ok st" "delete_attachment_with_kind i declared now st = (Ok (), st')"
  shows "delete_attachment_with_kind i declared' now st' = (Ok (), st') \<and>
    read_attachment_with_kind \<lparr>rd_attachment_id = i, rd_offset = off\<rparr> declared' now st' = (Err NotFound, st') \<and>
    resolve (Attachment (Handle i)) kind now st' = (Err NotFound, st') \<and>
    (\<forall>j. j \<noteq> i \<longrightarrow> map_of (s_attachments st') j = map_of (s_attachments (expire now st)) j) \<and>
    (\<forall>k \<in> set (s_leases st). map_of (s_heap st') k = map_of (s_heap st) k)"
proof -
  let ?e = "expire now st"
  have v: "valid_handle i = Ok ()" using assms(2)
    by (auto simp: delete_attachment_with_kind_def split: sum.splits)
  from assms(2) v have st': "st' = retain_attachments (\<lambda>(i', _). i' \<noteq> i) ?e"
    by (auto simp: delete_attachment_with_kind_def Let_def split: sum.splits)
  have ok: "store_ok st'" unfolding st' by (intro store_ok_retain store_ok_expire assms(1))
  have att: "s_attachments st' = filter (\<lambda>(i', _). i' \<noteq> i) (s_attachments ?e)"
    by (simp add: st' retain_attachments_def)
  have "s_entries st' = s_entries ?e" "s_cancelled st' = s_cancelled st"
    by (simp_all add: st' retain_attachments_def)
  then have ex: "expire now st' = st'" by (rule expire_again [OF assms(1) att _ _ ok])
  have gone: "map_of (s_attachments st') i = None" unfolding att map_of_eq_None_iff by auto
  have keep: "map_of (s_attachments st') j = map_of (s_attachments ?e) j" if "j \<noteq> i" for j
    unfolding att using map_of_filter_key [of "\<lambda>k. k \<noteq> i" j "s_attachments ?e"] that by simp
  have "filter (\<lambda>(i', _). i' \<noteq> i) (s_attachments st') = s_attachments st'" unfolding att by simp
  then have again: "retain_attachments (\<lambda>(i', _). i' \<noteq> i) st' = st'"
    by (simp add: retain_attachments_def store_ok_all_referenced [OF ok])
  have leased: "map_of (s_heap st') k = map_of (s_heap st) k" if "k \<in> set (s_leases st)" for k
    unfolding st' using that by (simp add: retain_leased expire_leased)
  show ?thesis
    using v ex gone keep again leased
    by (simp add: delete_attachment_with_kind_def read_attachment_with_kind_def resolve_def resolve_attachment_def Let_def)
qed

theorem delete_effective_witness:
  "resolve (Attachment (Handle (hex_string (0 # replicate 31 0)))) KText 20
     (snd (delete_attachment_with_kind (hex_string (0 # replicate 31 0)) None 20 demo_sealed)) =
   (Err NotFound, snd (delete_attachment_with_kind (hex_string (0 # replicate 31 0)) None 20 demo_sealed))"
proof -
  have "fst (delete_attachment_with_kind (hex_string (0 # replicate 31 0)) None 20 demo_sealed) = Ok ()"
    by code_simp
  then show ?thesis using delete_effective [OF demo_sealed_ok] by (metis prod.collapse)
qed


end
