(* ===== verification/Diff_Service_Properties.thy ===== *)
theory Diff_Service_Properties
  imports Diff_Service_Safety Attachment_Protocol
begin

text \<open>
  What the comparison service (\<open>crates/application/src/text_diff.rs\<close>) promises in every reachable
  state: bounded memory, no leaked reservation, permit or lease, stored comparisons that agree with
  their texts, texts that never change under a running request, complete page views and a
  shutdown after which nothing is stored again.
\<close>

section \<open>A run of the service\<close>

definition demo_env :: service_env where
  "demo_env = \<lparr>en_handles = demo_handles, en_reserve = demo_reserve,
     en_json_fragment = example_json_fragment, en_json_line = example_json_line,
     en_json_origin = (\<lambda>_. Some 4), en_json_page = (\<lambda>_. Some 512),
     en_layout = \<lparr>ly_fragment_vec = 24, ly_fragment = 80, ly_inline_change = 32, ly_scalar_range = 8\<rparr>\<rparr>"

definition demo_input :: compare_input where
  "demo_input = \<lparr>ci_before = lns [''a'', ''b''], ci_after = lns [''a'', ''x''],
     ci_before_label = None, ci_after_label = None\<rparr>"

definition demo_admitted :: service where
  "demo_admitted = snd (service_compare demo_input False 5 20 service_new)"

definition demo_job :: compare_job where
  "demo_job = (case sv_jobs demo_admitted of (_, JCompare j) # _ \<Rightarrow> j | _ \<Rightarrow> undefined)"

definition demo_checked_job :: compare_job where
  "demo_checked_job = demo_job\<lparr>cj_phase := compare_check demo_env 0 (Ok (example_computed, 64)) 6 demo_admitted demo_job\<rparr>"

definition demo_checked :: service where
  "demo_checked = demo_admitted\<lparr>sv_jobs := [(0, JCompare demo_checked_job)]\<rparr>"

definition demo_published_state :: "(comparison_summary, text_diff_error) result \<times> service_state" where
  "demo_published_state = (case cj_phase demo_checked_job of
     CValidated computed capacity pages additions deletions \<Rightarrow>
       compare_publish demo_env (\<lambda>_. 4) 0 demo_checked_job computed capacity pages additions deletions 7 1000 (sv_state demo_checked)
   | _ \<Rightarrow> (Err Internal, state_default))"

definition demo_published :: service where
  "demo_published = demo_checked\<lparr>sv_state := snd demo_published_state,
     sv_jobs := [(0, JCompare (demo_checked_job\<lparr>cj_phase := CPublished (fst demo_published_state)\<rparr>))]\<rparr>"

lemma demo_jobs: "sv_jobs demo_admitted = [(0, JCompare demo_job)]" "cj_phase demo_job = CRunning"
  by code_simp+

lemma demo_reachable: "reachable demo_env demo_admitted" "reachable demo_env demo_checked"
proof -
  show a: "reachable demo_env demo_admitted"
    unfolding demo_admitted_def
    by (rule reachable.step [OF reachable.start service_step.compare]) (rule prod.collapse [symmetric])
  have "service_step demo_env demo_admitted (demo_admitted\<lparr>sv_jobs := [] @ (0, JCompare demo_checked_job) # []\<rparr>)"
    unfolding demo_checked_job_def by (rule service_step.checked) (simp_all add: demo_jobs)
  then show "reachable demo_env demo_checked"
    using reachable.step [OF a] by (simp add: demo_checked_def)
qed

lemma demo_reachable_published: "reachable demo_env demo_published"
  and demo_published_ok: "is_ok (fst demo_published_state)"
proof -
  show "is_ok (fst demo_published_state)" by code_simp
  then obtain computed capacity pages additions deletions where
    ph: "cj_phase demo_checked_job = CValidated computed capacity pages additions deletions"
    by (auto simp: demo_published_state_def split: compare_phase.splits)
  have jobs: "sv_jobs demo_checked = [] @ (0, JCompare demo_checked_job) # []" by (simp add: demo_checked_def)
  have call: "compare_publish demo_env (\<lambda>_. 4) 0 demo_checked_job computed capacity pages additions deletions 7 1000
      (sv_state demo_checked) = (fst demo_published_state, snd demo_published_state)"
    using ph by (simp add: demo_published_state_def)
  from reachable.step [OF demo_reachable(2) service_step.published [OF jobs ph call]]
  show "reachable demo_env demo_published" by (simp add: demo_published_def)
qed

lemma demo_reserve_env: "reserve_ok (en_reserve demo_env)"
  by (simp add: demo_env_def reserve_ok_def demo_reserve_def)

section \<open>Limits\<close>

text \<open>C16 Bounded memory.  In every reachable state the bytes of the stored comparisons, one full
  reservation for every task that has not published and the charges of all live attachment texts
  (also of deleted ones that a request still leases) stay within \<open>MAX_STORE_BYTES\<close>; the comparisons
  and the unpublished tasks together within \<open>MAX_ENTRIES\<close>; the attachments within
  \<open>MAX_ATTACHMENTS\<close>; at most two tasks exist, and the ledger is exactly the sum of the charges.\<close>

theorem service_memory_bound:
  assumes "reachable env sv" "reserve_ok (en_reserve env)"
  shows "entry_bytes (sv_state sv) + JOB_RESERVATION * job_count uncommitted (sv_jobs sv) + charge_sum (s_heap (sv_state sv))
      \<le> MAX_STORE_BYTES \<and>
    length (s_entries (sv_state sv)) + job_count uncommitted (sv_jobs sv) \<le> MAX_ENTRIES \<and>
    length (s_attachments (sv_state sv)) \<le> MAX_ATTACHMENTS \<and> length (sv_jobs sv) \<le> 2 \<and>
    s_attachment_bytes (sv_state sv) = charge_sum (s_heap (sv_state sv))"
proof -
  from reachable_inv [OF assms] have inv: "service_inv env sv" .
  then have s: "state_inv env (job_count uncommitted (sv_jobs sv)) (job_count reserving (sv_jobs sv)) (held sv) (sv_state sv)"
    by (simp add: service_inv_def)
  note d = state_invD [OF s]
  show ?thesis using d(6,7,8) store_okD(8) [OF d(1)] inv by (simp add: service_inv_def)
qed

theorem service_memory_bound_witness:
  "entry_bytes (sv_state demo_published) + charge_sum (s_heap (sv_state demo_published)) \<le> MAX_STORE_BYTES"
  using service_memory_bound [OF demo_reachable_published demo_reserve_env] by linarith

text \<open>C17 Nothing leaks and nothing is let go early.  The reservation counters always equal the tasks
  that still own one, the permits and the tasks always make two, and the leases are, with their
  multiplicities, exactly those of the texts that waiting callers and live patch tasks hold; every
  leased text is still there.  Once no task runs and no caller waits every counter is back at its
  start, no text is leased and every live text belongs to a stored attachment.\<close>

theorem service_no_leak:
  assumes "reachable env sv" "reserve_ok (en_reserve env)"
  shows "s_reserved_slots (sv_state sv) = job_count reserving (sv_jobs sv) \<and>
    s_reserved (sv_state sv) = JOB_RESERVATION * job_count reserving (sv_jobs sv) \<and>
    sv_permits sv + length (sv_jobs sv) = 2 \<and>
    mset (s_leases (sv_state sv)) =
      mset (concat (map (\<lambda>(_, c). lease_keys (cl_leases c)) (sv_compares sv))) +
      mset (concat (map (\<lambda>(_, j). case j of JCompare _ \<Rightarrow> []
        | JApply p \<Rightarrow> lease_keys [pj_target p, pj_patch p]) (sv_jobs sv))) \<and>
    set (s_leases (sv_state sv)) \<subseteq> fst ` set (s_heap (sv_state sv)) \<and>
    (sv_jobs sv = [] \<and> sv_compares sv = [] \<longrightarrow>
       s_reserved (sv_state sv) = 0 \<and> s_leases (sv_state sv) = [] \<and>
       fst ` set (s_heap (sv_state sv)) = (\<lambda>(_, a). sa_data a) ` set (s_attachments (sv_state sv)))"
proof -
  from reachable_inv [OF assms] have inv: "service_inv env sv" .
  then have s: "state_inv env (job_count uncommitted (sv_jobs sv)) (job_count reserving (sv_jobs sv)) (held sv) (sv_state sv)"
    by (simp add: service_inv_def)
  note d = state_invD [OF s] and o = store_okD [OF state_invD(1) [OF s]]
  have keys: "fst ` set (s_heap (sv_state sv)) = (\<lambda>(_, a). sa_data a) ` set (s_attachments (sv_state sv))"
    if "s_leases (sv_state sv) = []"
  proof
    show "fst ` set (s_heap (sv_state sv)) \<subseteq> (\<lambda>(_, a). sa_data a) ` set (s_attachments (sv_state sv))"
      using o(7) that by (force simp: referenced_def list_ex_iff)
    show "(\<lambda>(_, a). sa_data a) ` set (s_attachments (sv_state sv)) \<subseteq> fst ` set (s_heap (sv_state sv))"
      using o(4) by (force dest: map_of_SomeD)
  qed
  have "s_leases (sv_state sv) = []" if "sv_jobs sv = []" "sv_compares sv = []"
    using d(2) that by (simp add: held_def)
  moreover have "set (s_leases (sv_state sv)) \<subseteq> fst ` set (s_heap (sv_state sv))"
    using o(5) by (force dest: map_of_SomeD)
  ultimately show ?thesis
    using d(2,3,4) inv keys unfolding held_def job_keys_def by (auto simp: service_inv_def)
qed

text \<open>A caller that compares an uploaded text, of which it holds one lease, with an inline one.\<close>

definition demo_sources :: diff_input where
  "demo_sources = \<lparr>di_before = Attachment (Handle (hex_string (0 # replicate 31 0))), di_after = Inline (lns [''x'']),
     di_before_label = None, di_after_label = None\<rparr>"

definition demo_uploaded :: service where
  "demo_uploaded = service_new\<lparr>sv_state := demo_sealed\<rparr>"

definition demo_leasing :: service where
  "demo_leasing = snd (compare_sources_begin demo_sources False 12 20 demo_uploaded)"

lemma demo_leasing_reachable: "reachable demo_env demo_leasing"
proof -
  let ?sv = "service_new\<lparr>sv_state := demo_open\<rparr>"
  have "service_step demo_env service_new ?sv"
    by (rule service_step.upload [where req = demo_first and declared = None and now = 10 and clock = 1000])
      (simp add: demo_open_def upload_attachment_def demo_env_def service_new_def prod_eq_iff)
  then have o: "reachable demo_env ?sv" by (rule reachable.step [OF reachable.start])
  have "service_step demo_env ?sv (?sv\<lparr>sv_state := demo_sealed\<rparr>)"
    by (rule service_step.upload [where req = demo_last and declared = None and now = 11 and clock = 1001])
      (simp add: demo_sealed_def upload_attachment_def demo_env_def prod_eq_iff)
  then have "reachable demo_env demo_uploaded" using reachable.step [OF o] by (simp add: demo_uploaded_def)
  then show ?thesis
    unfolding demo_leasing_def by (rule reachable.step) (rule service_step.sources [OF prod.collapse [symmetric]])
qed

theorem service_no_leak_witness:
  "s_reserved_slots (sv_state demo_leasing) = 1 \<and> sv_permits demo_leasing = 1
   \<and> mset (s_leases (sv_state demo_leasing)) = {#0#} \<and> 0 \<in> fst ` set (s_heap (sv_state demo_leasing))"
proof -
  have j: "job_count reserving (sv_jobs demo_leasing) = 1" "length (sv_jobs demo_leasing) = 1" by code_simp+
  have "concat (map (\<lambda>(_, c). lease_keys (cl_leases c)) (sv_compares demo_leasing)) = [0]"
    "concat (map (\<lambda>(_, j). case j of JCompare _ \<Rightarrow> []
        | JApply p \<Rightarrow> lease_keys [pj_target p, pj_patch p]) (sv_jobs demo_leasing)) = []"
    by code_simp+
  then have "mset (s_leases (sv_state demo_leasing)) = {#0#}"
      "set (s_leases (sv_state demo_leasing)) \<subseteq> fst ` set (s_heap (sv_state demo_leasing))"
    using service_no_leak [OF demo_leasing_reachable demo_reserve_env] by simp_all
  then have "mset (s_leases (sv_state demo_leasing)) = {#0#}" "0 \<in> fst ` set (s_heap (sv_state demo_leasing))"
    by (auto dest: mset_eq_setD)
  then show ?thesis
    using j service_no_leak [OF demo_leasing_reachable demo_reserve_env] by linarith
qed

section \<open>Stored comparisons\<close>

text \<open>C18 Whatever the engine answers, a stored comparison agrees with its two texts: the summary is
  filed under its own handle and says truly whether the texts are equal; if they differ, the pages
  hold, within their limits, the rows of hunks that splice the first text's lines into the second's,
  counted by additions and deletions; and the stored patch is itself acceptable as a patch input.\<close>

theorem stored_comparison_valid:
  assumes "reachable env sv" "reserve_ok (en_reserve env)" "(i, e) \<in> set (s_entries (sv_state sv))"
  shows "cs_comparison_id (sc_summary e) = i \<and>
    (cs_equal (sc_summary e) \<longleftrightarrow> sc_before e = sc_after e) \<and>
    cs_change_pages (sc_summary e) = length (sc_changes e) \<and>
    text_info (sc_before e) (ti_label (cs_before (sc_summary e))) = Ok (cs_before (sc_summary e)) \<and>
    validate KPatch (sc_patch e) = Ok () \<and>
    (sc_before e \<noteq> sc_after e \<longrightarrow> (\<exists>ann pgs hunks. sc_changes e = map (map fst) pgs \<and>
       list_all (\<lambda>pg. pg \<noteq> [] \<and> page_ok (en_json_fragment env) ann
         (split_inclusive (sc_before e)) (split_inclusive (sc_after e)) pg) pgs \<and>
       concat (map snd (concat pgs)) = rows_of hunks \<and>
       splice_lines (split_inclusive (sc_before e)) 0 hunks = Some (split_inclusive (sc_after e)) \<and>
       cs_additions (sc_summary e) = row_count 43 (rows_of hunks) \<and>
       cs_deletions (sc_summary e) = row_count 45 (rows_of hunks)))"
proof -
  have "state_inv env (job_count uncommitted (sv_jobs sv)) (job_count reserving (sv_jobs sv)) (held sv) (sv_state sv)"
    using reachable_inv [OF assms(1,2)] by (simp add: service_inv_def)
  from state_invD(10) [OF this] assms(3) have ok: "entry_ok env i e" by (auto simp: list_all_iff)
  then obtain inline where ch: "changes (en_json_fragment env) (en_json_line env)
      \<lparr>cd_patch = sc_patch e, cd_inline_changes = inline\<rparr> (sc_before e) (sc_after e) =
      Ok (sc_changes e, cs_additions (sc_summary e), cs_deletions (sc_summary e))"
    by (auto simp: entry_ok_def)
  from changes_accept [OF ch] have "sc_before e \<noteq> sc_after e \<longrightarrow> (\<exists>ann pgs hunks. sc_changes e = map (map fst) pgs \<and>
       list_all (\<lambda>pg. pg \<noteq> [] \<and> page_ok (en_json_fragment env) ann
         (split_inclusive (sc_before e)) (split_inclusive (sc_after e)) pg) pgs \<and>
       concat (map snd (concat pgs)) = rows_of hunks \<and>
       splice_lines (split_inclusive (sc_before e)) 0 hunks = Some (split_inclusive (sc_after e)) \<and>
       cs_additions (sc_summary e) = row_count 43 (rows_of hunks) \<and>
       cs_deletions (sc_summary e) = row_count 45 (rows_of hunks))" by blast
  with ok entry_patch_valid [OF ok] show ?thesis by (simp add: entry_ok_def)
qed

theorem stored_comparison_valid_witness:
  "\<exists>i e. (i, e) \<in> set (s_entries (sv_state demo_published)) \<and> \<not> cs_equal (sc_summary e)"
proof -
  obtain i e where e: "(i, e) \<in> set (s_entries (sv_state demo_published))" "sc_before e \<noteq> sc_after e"
  proof -
    have "list_ex (\<lambda>(_, e). sc_before e \<noteq> sc_after e) (s_entries (sv_state demo_published))" by code_simp
    with that show ?thesis by (auto simp: list_ex_iff)
  qed
  from stored_comparison_valid [OF demo_reachable_published demo_reserve_env e(1)] e show ?thesis by blast
qed

section \<open>Leases\<close>

text \<open>A running request reads immutable text: in a reachable state no upload changes a text that
  is leased, and the branch of the upload that finds its text shared (\<open>Arc::get_mut\<close> failing, an
  internal error) is never taken.\<close>

theorem upload_respects_leases:
  assumes "reachable env sv" "reserve_ok (en_reserve env)"
    and "upload_continue i req declared (sv_state sv) = (r, st)"
  shows "r \<noteq> Err Internal \<and>
    (\<forall>k \<in> set (s_leases (sv_state sv)). map_of (s_heap st) k = map_of (s_heap (sv_state sv)) k)"
proof -
  have "state_inv env (job_count uncommitted (sv_jobs sv)) (job_count reserving (sv_jobs sv)) (held sv) (sv_state sv)"
    using reachable_inv [OF assms(1,2)] by (simp add: service_inv_def)
  then have ok: "store_ok (sv_state sv)" by (rule state_invD(1))
  have sealed: "as_sealed (sa_summary a)" if "map_of (s_attachments (sv_state sv)) i = Some a"
      "sa_data a \<in> set (s_leases (sv_state sv))" for a
    using store_okD(6) [OF ok map_of_SomeD [OF that(1)] that(2)] .
  have "r \<noteq> Err Internal"
  proof
    assume "r = Err Internal"
    with assms(3) sealed show False
      by (auto simp: upload_continue_def Let_def validate_def valid_handle_def check_declared_kind_def result_simps
          split: sum.splits if_splits option.splits dest!: text_info_error)
  qed
  moreover have "map_of (s_heap st) k = map_of (s_heap (sv_state sv)) k" if k: "k \<in> set (s_leases (sv_state sv))" for k
    using upload_continue_cases [OF assms(3)]
  proof (elim disjE exE conjE)
    fix a
    assume a: "map_of (s_attachments (sv_state sv)) i = Some a" "\<not> as_sealed (sa_summary a)"
      and "let t' = ad_text (data_of (sv_state sv) a) @ up_chunk req;
            s' = (sa_summary a)\<lparr>as_committed_bytes := str_len t', as_sealed := up_complete req\<rparr> in
        str_len t' \<le> as_total_bytes (sa_summary a) \<and>
        (up_complete req \<longrightarrow> str_len t' = as_total_bytes (sa_summary a) \<and>
           validate (as_kind (sa_summary a)) t' = Ok ()) \<and>
        (up_chunk req \<noteq> [] \<or> up_complete req) \<and>
        r = Ok s' \<and> st = set_summary i s' (set_text (sa_data a) t' (sv_state sv))"
    then obtain s' t' where "st = set_summary i s' (set_text (sa_data a) t' (sv_state sv))" by (auto simp: Let_def)
    moreover have "k \<noteq> sa_data a" using sealed [OF a(1)] a(2) k by blast
    ultimately show ?thesis by (simp add: set_summary_def set_text_def map_of_map_key)
  qed simp
  ultimately show ?thesis by blast
qed

theorem upload_respects_leases_witness:
  "fst (upload_continue (hex_string (0 # replicate 31 0)) demo_last None (sv_state demo_published)) \<noteq> Err Internal"
  using upload_respects_leases [OF demo_reachable_published demo_reserve_env prod.collapse [symmetric]] by blast

section \<open>Views\<close>

text \<open>The text views are complete: the pages of the view of either original are numbered from
  zero to the reported total, concatenate to exactly that text, carry no fragments, and a page
  beyond the total is refused.\<close>

theorem page_text_complete:
  fixes e :: stored and view :: page_view and i :: rstr
  assumes "view \<noteq> Changes"
  defines "t \<equiv> (if view = Before then sc_before e else sc_after e)"
  shows "\<exists>texts. concat texts = t \<and> texts \<noteq> [] \<and>
    (\<forall>p. page_content \<lparr>pr_comparison_id = i, pr_view = view, pr_page = p\<rparr> e =
       (if p < length texts then Ok (length texts, Some (texts ! p), []) else Err InvalidInput))"
proof (intro exI conjI allI)
  show "concat (chunks t) = t" "chunks t \<noteq> []" using chunk_list_spec [of t] by (auto simp: chunks_def)
  show "page_content \<lparr>pr_comparison_id = i, pr_view = view, pr_page = p\<rparr> e =
      (if p < length (chunks t) then Ok (length (chunks t), Some (chunks t ! p), []) else Err InvalidInput)" for p
    using assms by (cases view) (auto simp: page_content_def t_def get_at_def Let_def)
qed

theorem page_text_complete_witness:
  "\<exists>texts. concat texts = lns [''a'', ''b''] \<and> texts \<noteq> [] \<and>
    (\<forall>p. page_content \<lparr>pr_comparison_id = [], pr_view = Before, pr_page = p\<rparr>
        (snd (hd (s_entries (sv_state demo_published)))) =
       (if p < length texts then Ok (length texts, Some (texts ! p), []) else Err InvalidInput))"
proof -
  have "sc_before (snd (hd (s_entries (sv_state demo_published)))) = lns [''a'', ''b'']" by code_simp
  then show ?thesis
    using page_text_complete [of Before "snd (hd (s_entries (sv_state demo_published)))" "[]"] by simp
qed

section \<open>Shutdown\<close>

definition quiet :: "service_state \<Rightarrow> bool" where
  "quiet st \<longleftrightarrow> s_stopping st \<and> s_entries st = [] \<and> s_attachments st = []"

lemma quiet_keeps:
  "quiet st \<Longrightarrow> quiet (expire now st)" "quiet st \<Longrightarrow> quiet (retain_attachments P st)"
  "quiet st \<Longrightarrow> quiet (drop_reservation st)" "quiet st \<Longrightarrow> quiet (release r st)"
  "quiet st \<Longrightarrow> quiet (st\<lparr>s_cancelled := x\<rparr>)"
  by (auto simp: quiet_def drop_reservation_def release_def split: resolved_text.splits)

lemma quiet_fold: "quiet st \<Longrightarrow> quiet (fold release rs st)"
  by (induction rs arbitrary: st) (auto intro: quiet_keeps)

lemma quiet_resolve:
  assumes "quiet st" "resolve input kind now st = (r, st')"
  shows "quiet st'"
  using assms by (auto simp: resolve_def resolve_attachment_def Let_def quiet_def split: text_source.splits sum.splits)

lemma quiet_delete: "quiet st \<Longrightarrow> quiet (snd (delete_attachment_with_kind i d now st))"
  "quiet st \<Longrightarrow> quiet (snd (delete_comparison i st))" "quiet st \<Longrightarrow> quiet (drop_delivery r now st)"
  by (auto simp: delete_attachment_with_kind_def delete_comparison_def drop_delivery_def delete_attachment_def quiet_def Let_def
      split: sum.splits)

lemma quiet_admit:
  assumes "quiet (sv_state sv)" "admit full now sv = (r, sv')"
  shows "quiet (sv_state sv') \<and> \<not> is_ok r"
  using assms by (auto simp: admit_def Let_def quiet_def split: if_splits prod.splits bool.splits)

lemma quiet_release_all: "quiet (sv_state sv) \<Longrightarrow> quiet (sv_state (release_all rs sv))"
  by (simp add: release_all_def quiet_fold)

lemma quiet_compare_begin:
  assumes "quiet (sv_state sv)" "compare_begin input origin cancelled now deadline sv = (r, sv')"
  shows "quiet (sv_state sv')"
proof (cases r)
  case (Inl e)
  from compare_begin_refused [OF assms(2) [unfolded Inl]] show ?thesis
    using quiet_release_all assms(1) quiet_admit [OF assms(1)] by blast
next
  case (Inr token)
  with assms(2) obtain x sv1 where "admit compare_full now sv = (Inr x, sv1)"
    by (auto simp: compare_begin_def Let_def split: sum.splits if_splits prod.splits)
  with quiet_admit [OF assms(1)] show ?thesis by fastforce
qed

lemma quiet_sources_begin:
  assumes q: "quiet (sv_state sv)" and call: "compare_sources_begin input cancelled now deadline sv = (r, sv')"
  shows "quiet (sv_state sv')"
proof -
  obtain x st1 where x: "resolve (di_before input) KText now (sv_state sv) = (x, st1)" by force
  obtain y st2 where y: "resolve (di_after input) KText now st1 = (y, st2)" by force
  have q1: "quiet st1" by (rule quiet_resolve [OF q x])
  have q2: "quiet st2" by (rule quiet_resolve [OF q1 y])
  have q2': "quiet (sv_state (sv\<lparr>sv_state := st2\<rparr>))" using q2 by simp
  from call x y q1 quiet_keeps(4) [OF q2] show ?thesis
    by (cases x; cases y) (auto simp: compare_sources_begin_def dest: quiet_compare_begin [OF q2'])
qed

lemma quiet_apply_begin:
  assumes q: "quiet (sv_state sv)" and call: "apply_patch_begin input cancelled now deadline sv = (r, sv')"
  shows "quiet (sv_state sv')"
proof -
  obtain x st1 where x: "resolve (ai_target input) KText now (sv_state sv) = (x, st1)" by force
  obtain y st2 where y: "resolve (ai_patch input) KPatch now st1 = (y, st2)" by force
  have q1: "quiet st1" by (rule quiet_resolve [OF q x])
  have q2: "quiet st2" by (rule quiet_resolve [OF q1 y])
  obtain z sv1 where z: "admit apply_full now (sv\<lparr>sv_state := st2\<rparr>) = (z, sv1)" by force
  have "quiet (sv_state sv1) \<and> \<not> is_ok z" using quiet_admit [OF _ z] q2 by simp
  then obtain e where z': "z = Inl e" and q3: "quiet (sv_state sv1)" by (cases z) auto
  have "quiet (sv_state (release_all l (sv\<lparr>sv_state := st2\<rparr>)))" "quiet (sv_state (release_all l sv1))" for l
    using quiet_release_all q2 q3 by simp_all
  with call x y z z' q1 quiet_keeps(4) [OF q2] show ?thesis
    by (cases x; cases y) (auto simp: apply_patch_begin_def Let_def split: if_splits)
qed

lemma quiet_step:
  assumes "service_step env sv sv'" "quiet (sv_state sv)"
  shows "quiet (sv_state sv')"
  using assms
proof (cases rule: service_step.cases)
  case (compare input cancelled now deadline tr)
  then show ?thesis unfolding service_compare_def by (rule quiet_compare_begin [OF assms(2)])
next
  case (snapshots before after cancelled now deadline tr)
  with assms(2) show ?thesis
    by (auto simp: compare_snapshots_def split: sum.splits prod.splits intro: quiet_compare_begin [OF assms(2)])
next
  case (compare_returned cs token c ds cancelled now cr)
  with assms(2) show ?thesis
    by (auto simp: compare_return_def cancel_token_def intro!: quiet_release_all quiet_keeps)
next
  case (compare_abandoned cs token c ds)
  with assms(2) show ?thesis
    by (auto simp: compare_return_def cancel_token_def intro!: quiet_release_all quiet_keeps)
next
  case (exported comparison now er st)
  with assms(2) show ?thesis
    by (auto simp: compare_sources_end_def export_patch_def delete_comparison_def quiet_def Let_def split: sum.splits prod.splits)
next
  case (apply_published xs token p ys t capacity info now clock ar st)
  with assms(2) show ?thesis
    by (auto simp: apply_publish_def publish_attachment_def quiet_def Let_def split: sum.splits prod.splits if_splits)
next
  case (sent xs token j ys cr)
  with assms(2) quiet_delete(2) [OF assms(2)] show ?thesis
    by (auto simp: compare_send_def task_end_def split: sum.splits)
next
  case (upload req declared now clock r st)
  with assms(2) quiet_keeps(1) [OF assms(2)] show ?thesis
    by (auto simp: upload_attachment_with_kind_def Let_def quiet_def split: if_splits)
next
  case (read rreq declared now rr st)
  with assms(2) read_state [of rreq declared now "sv_state sv"] quiet_keeps(1) [OF assms(2)] show ?thesis by auto
next
  case (delete_att i declared now dr st)
  with quiet_delete(1) [OF assms(2), of i declared now] show ?thesis by simp
next
  case (delete i dr st)
  with quiet_delete(2) [OF assms(2), of i] show ?thesis by simp
next
  case (published xs token j ys computed capacity pages additions deletions caps now clock cr st)
  with assms(2) show ?thesis by (auto simp: compare_publish_def quiet_def)
next
  case stop
  with assms(2) show ?thesis by (simp add: run_stop_def quiet_def)
next
  case (finish rr')
  with assms(2) show ?thesis by (auto simp: run_end_def quiet_def Let_def)
qed (use assms(2) quiet_delete(1,2) [OF assms(2)] in \<open>auto simp: upload_attachment_with_kind_def
   read_attachment_with_kind_def compare_publish_def compare_release_def compare_panic_def task_end_def
   apply_send_def apply_finish_def apply_panic_def apply_drop_def apply_return_def cancel_token_def summary_def page_def
   metrics_gauges_def run_tick_def run_stop_def run_end_def Let_def quiet_def [of "_\<lparr>s_stopping := _\<rparr>"]
   split: sum.splits if_splits prod.splits buffer.splits
   intro!: quiet_keeps quiet_release_all quiet_delete intro: quiet_sources_begin quiet_apply_begin\<close>)

text \<open>Shutdown is final: after the end of \<open>run\<close> of a stopping service no sequence of further
  calls, engine answers and returning callers ever stores a comparison or an attachment again.\<close>

theorem shutdown_final:
  assumes "s_stopping (sv_state sv)" "run_end sv = (r, sv1)" "(service_step env)\<^sup>*\<^sup>* sv1 sv2"
  shows "s_entries (sv_state sv2) = [] \<and> s_attachments (sv_state sv2) = []"
proof -
  have "quiet (sv_state sv1)" using assms(1,2) by (auto simp: run_end_def quiet_def Let_def)
  with assms(3) have "quiet (sv_state sv2)" by (induction rule: rtranclp_induct) (auto intro: quiet_step)
  then show ?thesis by (simp add: quiet_def)
qed

theorem shutdown_final_witness:
  "s_entries (sv_state (snd (service_compare demo_input False 9 20 (snd (run_end (run_stop service_new)))))) = []"
proof -
  have stop: "s_stopping (sv_state (run_stop service_new))" by (simp add: run_stop_def)
  let ?sv = "snd (run_end (run_stop service_new))"
  have "service_step demo_env ?sv (snd (service_compare demo_input False 9 20 ?sv))"
    by (rule service_step.compare) (rule prod.collapse [symmetric])
  then show ?thesis using shutdown_final [OF stop prod.collapse [symmetric] r_into_rtranclp] by blast
qed

section \<open>Accounting\<close>

lemma add_bytes_Ok: "add_bytes c item bytes = Ok n \<longleftrightarrow> n = bytes + c * item \<and> n \<le> usize_max"
  by (auto simp: add_bytes_def result_simps checked_mul_def checked_add_def split: if_splits)

lemma retain_ranges_Ok: "retain_ranges ly caps p f k cs bytes = Ok n \<Longrightarrow> bytes \<le> n"
  by (induction ly caps p f k cs bytes rule: retain_ranges.induct) (fastforce simp: result_simps add_bytes_Ok)+

definition caps_cover :: "(allocation \<Rightarrow> nat) \<Rightarrow> diff_fragment list list \<Rightarrow> bool" where
  "caps_cover caps pages \<longleftrightarrow>
     (\<forall>p < length pages. \<forall>f < length (pages ! p). str_len (df_patch (pages ! p ! f)) \<le> caps (FragmentPatch p f))"

lemma retain_fragments_Ok:
  "retain_fragments ly caps p f xs bytes = Ok n \<Longrightarrow>
     (\<And>k. k < length xs \<Longrightarrow> str_len (df_patch (xs ! k)) \<le> caps (FragmentPatch p (f + k))) \<Longrightarrow>
     bytes + sum_list (map (\<lambda>x. str_len (df_patch x)) xs) \<le> n"
proof (induction xs arbitrary: f bytes)
  case (Cons x xs)
  from Cons.prems(1) obtain b where
    r: "retain_ranges ly caps p f 0 (df_inline_changes x)
        (bytes + caps (FragmentPatch p f) + caps (FragmentChanges p f) * ly_inline_change ly) = Ok b" and
    b': "retain_fragments ly caps p (f + 1) xs b = Ok n"
    by (auto simp: result_simps add_bytes_Ok)
  have b: "bytes + caps (FragmentPatch p f) \<le> b" "retain_fragments ly caps p (f + 1) xs b = Ok n"
    using retain_ranges_Ok [OF r] b' by simp_all
  have "str_len (df_patch x) \<le> caps (FragmentPatch p f)" using Cons.prems(2) [of 0] by simp
  moreover have "b + sum_list (map (\<lambda>x. str_len (df_patch x)) xs) \<le> n"
    by (rule Cons.IH [OF b(2)]) (use Cons.prems(2) [of "Suc _"] in simp)
  ultimately show ?case using b(1) by simp
qed simp

lemma retain_pages_Ok:
  "retain_pages ly caps p pages bytes = Ok n \<Longrightarrow>
     (\<And>k f. k < length pages \<Longrightarrow> f < length (pages ! k) \<Longrightarrow>
        str_len (df_patch (pages ! k ! f)) \<le> caps (FragmentPatch (p + k) f)) \<Longrightarrow>
     bytes + sum_list (map (\<lambda>x. str_len (df_patch x)) (concat pages)) \<le> n"
proof (induction pages arbitrary: p bytes)
  case (Cons page pages)
  define b0 where "b0 = bytes + caps (ChangePage p) * ly_fragment ly"
  from Cons.prems(1) obtain b where b: "retain_fragments ly caps p 0 page b0 = Ok b"
      "retain_pages ly caps (p + 1) pages b = Ok n"
    by (auto simp: result_simps add_bytes_Ok b0_def)
  have "b0 + sum_list (map (\<lambda>x. str_len (df_patch x)) page) \<le> b"
    by (rule retain_fragments_Ok [OF b(1)]) (use Cons.prems(2) [of 0] in simp)
  moreover have "b + sum_list (map (\<lambda>x. str_len (df_patch x)) (concat pages)) \<le> n"
    by (rule Cons.IH [OF b(2)]) (use Cons.prems(2) [of "Suc _"] in simp)
  ultimately show ?case by (simp add: b0_def)
qed simp

text \<open>The bytes charged for a comparison cover what it keeps alive: when the allocations have at
  least the capacity of their contents, the charge is at least the overhead, both texts and the
  text of every fragment of every page, and computing it never overflows a \<open>usize\<close> silently.\<close>

theorem retained_bytes_covers:
  assumes "retained_bytes ly caps before after pages = Ok n" "caps_cover caps pages"
  shows "4096 + str_len before + str_len after + sum_list (map (\<lambda>x. str_len (df_patch x)) (concat pages)) \<le> n \<and>
    4096 + str_len before + str_len after \<le> usize_max"
proof -
  define b where "b = 4096 + str_len before + str_len after + caps ChangePages * ly_fragment_vec ly"
  from assms(1) have b: "4096 + str_len before + str_len after \<le> b" "b \<le> usize_max" "retain_pages ly caps 0 pages b = Ok n"
    by (auto simp: retained_bytes_def result_simps add_bytes_Ok b_def)
  have "b + sum_list (map (\<lambda>x. str_len (df_patch x)) (concat pages)) \<le> n"
    by (rule retain_pages_Ok [OF b(3)]) (use assms(2) in \<open>simp add: caps_cover_def\<close>)
  with b show ?thesis by simp
qed

definition demo_fragment :: diff_fragment where
  "demo_fragment = \<lparr>df_patch = lit ''patch'', df_before_start = 0, df_before_count = 0, df_after_start = 0,
     df_after_count = 0, df_inline_changes = [\<lparr>ic_row_index = 0, ic_ranges = [(0, 1)]\<rparr>]\<rparr>"

theorem retained_bytes_covers_witness:
  "\<exists>n. retained_bytes (en_layout demo_env) (\<lambda>_. 8) (lit ''old'') (lit ''new'') [[demo_fragment]] = Ok n \<and> 4107 \<le> n"
proof -
  have n: "retained_bytes (en_layout demo_env) (\<lambda>_. 8) (lit ''old'') (lit ''new'') [[demo_fragment]] = Ok 5262"
    by code_simp
  have "caps_cover (\<lambda>_. 8) [[demo_fragment]]" by (simp add: caps_cover_def demo_fragment_def len_utf8_def)
  from retained_bytes_covers [OF n this] n show ?thesis by simp
qed

end
