(* ===== verification/Rate_Limit.thy ===== *)
theory Rate_Limit
  imports Prelude "HOL-Library.Word"
begin

text \<open>
  The token bucket in front of the tool calls: \<open>apps/server/src/rate_limit.rs\<close>.

  \<open>try_admit\<close> is one call at the clock reading \<open>now\<close> (nanoseconds); the asynchronous mutex makes
  concurrent calls a sequence, \<open>admit_run\<close>.  The rate and the burst keep their 32 bits, token
  counts their 128 bits through the saturating operations of the source.

  The lemmas give the two sides of the contract: in every window of a run the admitted calls are at
  most the burst plus what the elapsed time refills, and a caller that waits long enough for one
  token is admitted.
\<close>

section \<open>The program\<close>

definition TOKEN :: nat where "TOKEN = 1000000000"
definition u128_max :: nat where "u128_max = 2 ^ 128 - 1"

record bucket =
  tokens :: nat
  at_time :: nat

record rate_limiter =
  enabled :: bool
  calls_per_second :: "32 word"
  burst :: "32 word"
  bucket_of :: bucket

definition limiter_new :: "bool \<Rightarrow> 32 word \<Rightarrow> 32 word \<Rightarrow> nat \<Rightarrow> rate_limiter" where
  "limiter_new en rate b now =
     \<lparr>enabled = en, calls_per_second = rate, burst = b,
      bucket_of = \<lparr>tokens = unat b * TOKEN, at_time = now\<rparr>\<rparr>"

definition verified_tunnel :: "32 word \<Rightarrow> 32 word \<Rightarrow> nat \<Rightarrow> rate_limiter" where
  "verified_tunnel rate b now = limiter_new True rate b now"

definition refill :: "rate_limiter \<Rightarrow> nat \<Rightarrow> nat" where
  "refill l now =
     min (min (tokens (bucket_of l) + min ((now - at_time (bucket_of l)) * unat (calls_per_second l)) u128_max)
            u128_max)
       (unat (burst l) * TOKEN)"

definition try_admit :: "rate_limiter \<Rightarrow> nat \<Rightarrow> bool \<times> rate_limiter" where
  "try_admit l now =
     (if \<not> enabled l then (True, l)
      else
        let filled = refill l now in
        if filled < TOKEN then (False, l\<lparr>bucket_of := \<lparr>tokens = filled, at_time = now\<rparr>\<rparr>)
        else (True, l\<lparr>bucket_of := \<lparr>tokens = filled - TOKEN, at_time = now\<rparr>\<rparr>))"

text \<open>Calls in the order in which they take the lock.\<close>

fun admit_run :: "rate_limiter \<Rightarrow> nat list \<Rightarrow> bool list \<times> rate_limiter" where
  "admit_run l [] = ([], l)"
| "admit_run l (t # ts) =
     (let (a, l') = try_admit l t; (as, l'') = admit_run l' ts in (a # as, l''))"

section \<open>Lemmas\<close>

definition limiter_ok :: "rate_limiter \<Rightarrow> bool" where
  "limiter_ok l \<longleftrightarrow> tokens (bucket_of l) \<le> unat (burst l) * TOKEN"

lemma limiter_new_ok [simp]: "limiter_ok (limiter_new en r b now)"
  by (simp add: limiter_ok_def limiter_new_def)

lemma try_admit_keeps [simp]:
  "enabled (snd (try_admit l t)) = enabled l"
  "calls_per_second (snd (try_admit l t)) = calls_per_second l"
  "burst (snd (try_admit l t)) = burst l"
  by (auto simp: try_admit_def Let_def)

lemma refill_le: "refill l t \<le> unat (burst l) * TOKEN"
    "refill l t \<le> tokens (bucket_of l) + (t - at_time (bucket_of l)) * unat (calls_per_second l)"
  by (auto simp: refill_def)

lemma try_admit_ok: "limiter_ok l \<Longrightarrow> limiter_ok (snd (try_admit l t))"
  using refill_le(1) [of l t] by (auto simp: limiter_ok_def try_admit_def Let_def)

lemma admit_run_Cons [simp]:
  "fst (admit_run l (t # ts)) = fst (try_admit l t) # fst (admit_run (snd (try_admit l t)) ts)"
  "snd (admit_run l (t # ts)) = snd (admit_run (snd (try_admit l t)) ts)"
  by (simp_all add: Let_def split: prod.splits)

declare admit_run.simps(2) [simp del]

lemma admit_run_ok: "limiter_ok l \<Longrightarrow> limiter_ok (snd (admit_run l ts))"
  by (induction ts arbitrary: l) (auto intro: try_admit_ok)

lemma length_admit_run: "length (fst (admit_run l ts)) = length ts"
  by (induction ts arbitrary: l) auto

lemma admit_run_append:
  "fst (admit_run l (ts @ us)) = fst (admit_run l ts) @ fst (admit_run (snd (admit_run l ts)) us)"
  "snd (admit_run l (ts @ us)) = snd (admit_run (snd (admit_run l ts)) us)"
  by (induction ts arbitrary: l) auto

text \<open>One call: what it costs and what the bucket can have gained.\<close>

lemma try_admit_cost:
  assumes "enabled l" "try_admit l t = (a, l')"
  shows "(if a then TOKEN else 0) + tokens (bucket_of l') = refill l t" "at_time (bucket_of l') = t"
    "enabled l'" "calls_per_second l' = calls_per_second l" "burst l' = burst l"
  using assms by (auto simp: try_admit_def Let_def split: if_splits)

lemma admit_run_cost:
  assumes "enabled l" "sorted (at_time (bucket_of l) # ts)" "admit_run l ts = (as, l')"
  shows "count_list as True * TOKEN + tokens (bucket_of l') \<le>
    tokens (bucket_of l) +
      (at_time (bucket_of l') - at_time (bucket_of l)) * unat (calls_per_second l) \<and>
    at_time (bucket_of l') = last (at_time (bucket_of l) # ts)"
  using assms
proof (induction ts arbitrary: l as l')
  case (Cons t ts)
  obtain a l1 where s: "try_admit l t = (a, l1)" by fastforce
  obtain as1 where r: "admit_run l1 ts = (as1, l')" "as = a # as1"
    using Cons.prems(3) s by (auto simp: admit_run.simps Let_def split: prod.splits)
  note c = try_admit_cost [OF Cons.prems(1) s]
  have "sorted (at_time (bucket_of l1) # ts)" using Cons.prems(2) c(2) by simp
  from Cons.IH [OF c(3) this r(1)] have IH: "count_list as1 True * TOKEN + tokens (bucket_of l') \<le>
      tokens (bucket_of l1) + (at_time (bucket_of l') - t) * unat (calls_per_second l)"
      "at_time (bucket_of l') = last (t # ts)"
    by (auto simp: c)
  have le: "at_time (bucket_of l) \<le> t" "t \<le> at_time (bucket_of l')"
    using Cons.prems(2) IH(2) by auto
  then have "(at_time (bucket_of l') - t) * unat (calls_per_second l) +
      (t - at_time (bucket_of l)) * unat (calls_per_second l) =
      (at_time (bucket_of l') - at_time (bucket_of l)) * unat (calls_per_second l)"
    by (simp add: add_mult_distrib [symmetric])
  moreover have "(if a then TOKEN else 0) + tokens (bucket_of l1) \<le>
      tokens (bucket_of l) + (t - at_time (bucket_of l)) * unat (calls_per_second l)"
    using c(1) refill_le(2) [of l t] by simp
  ultimately have "count_list as True * TOKEN + tokens (bucket_of l') \<le> tokens (bucket_of l) +
      (at_time (bucket_of l') - at_time (bucket_of l)) * unat (calls_per_second l)"
    using IH(1) r(2) by (cases a) auto
  then show ?case using IH(2) by simp
qed simp

lemma admit_run_keeps [simp]:
  "enabled (snd (admit_run l ts)) = enabled l"
  "calls_per_second (snd (admit_run l ts)) = calls_per_second l"
  "burst (snd (admit_run l ts)) = burst l"
  by (induction ts arbitrary: l) auto

lemma first_call_cost:
  assumes "enabled l" "admit_run l (t # ts) = (as, l')" "sorted (t # ts)"
  shows "count_list as True * TOKEN \<le>
    unat (burst l) * TOKEN + (last (t # ts) - t) * unat (calls_per_second l)"
proof -
  obtain a l1 where s: "try_admit l t = (a, l1)" by fastforce
  obtain as1 where r: "admit_run l1 ts = (as1, l')" "as = a # as1"
    using assms(2) s by (auto simp: admit_run.simps Let_def split: prod.splits)
  note c = try_admit_cost [OF assms(1) s]
  have "sorted (at_time (bucket_of l1) # ts)" using assms(3) c(2) by simp
  from admit_run_cost [OF c(3) this r(1)]
  have "count_list as1 True * TOKEN \<le> tokens (bucket_of l1) + (last (t # ts) - t) * unat (calls_per_second l)"
    by (auto simp: c)
  moreover have "(if a then TOKEN else 0) + tokens (bucket_of l1) \<le> unat (burst l) * TOKEN"
    using c(1) refill_le(1) [of l t] by simp
  ultimately show ?thesis using r(2) by (cases a) auto
qed

section \<open>Properties\<close>

text \<open>
  C33. The limit holds in every window: whatever was called before, the calls admitted at the clock
  readings \<open>t # ts\<close> number at most the burst plus the refill of the time between the first and the
  last of them (in billionths of a call, no rounding in the caller's favour).
\<close>

theorem rate_window_bound:
  assumes "sorted (t # ts)"
  shows "count_list (drop (length before) (fst (admit_run (limiter_new True rate b start) (before @ t # ts)))) True
      * TOKEN \<le> unat b * TOKEN + (last (t # ts) - t) * unat rate"
proof -
  let ?l0 = "snd (admit_run (limiter_new True rate b start) before)"
  have "enabled ?l0" "burst ?l0 = b" "calls_per_second ?l0 = rate"
    by (simp_all add: limiter_new_def)
  then show ?thesis
    using first_call_cost [OF _ surjective_pairing assms, of ?l0]
    by (simp add: admit_run_append length_admit_run del: admit_run_Cons)
qed

theorem rate_window_bound_witness:
  "count_list (drop 1 (fst (admit_run (limiter_new True 2 3 0) [0, 0, 0, 0, 500000000]))) True * TOKEN
     \<le> 4 * TOKEN \<and>
   count_list (drop 1 (fst (admit_run (limiter_new True 2 3 0) [0, 0, 0, 0, 500000000]))) True = 3"
  using rate_window_bound [of 0 "[0, 0, 500000000]" "[0]" 2 3 0]
  by (simp add: try_admit_def refill_def limiter_new_def Let_def TOKEN_def u128_max_def)

text \<open>
  C34. Nobody is starved: if the burst is not zero and enough time has passed since the last call
  to refill one token, the call is admitted.
\<close>

theorem rate_admits_after_wait:
  assumes "burst l \<noteq> 0"
    and "TOKEN \<le> (now - at_time (bucket_of l)) * unat (calls_per_second l)"
  shows "fst (try_admit l now)"
proof -
  have "1 \<le> unat (burst l)" using assms(1) by (simp add: Suc_leI unat_gt_0)
  then have "TOKEN \<le> unat (burst l) * TOKEN" by simp
  moreover have "TOKEN \<le> u128_max" by (simp add: TOKEN_def u128_max_def)
  ultimately have "TOKEN \<le> refill l now" using assms(2) by (simp add: refill_def)
  then show ?thesis by (simp add: try_admit_def Let_def)
qed

theorem rate_admits_after_wait_witness:
  "fst (try_admit \<lparr>enabled = True, calls_per_second = 2, burst = 3, bucket_of = \<lparr>tokens = 0, at_time = 7\<rparr>\<rparr>
     500000007)"
  by (rule rate_admits_after_wait) (simp_all add: TOKEN_def)

end
