(* ===== verification/Framing.thy ===== *)
theory Framing
  imports Prelude "HOL-Library.Word"
begin

text \<open>
  Newline-delimited frames over a byte stream: \<open>apps/server/src/framing.rs\<close>.

  A \<open>frame_reader\<close> is the state that survives a cancelled receive: the unread part of the
  \<open>BufReader\<close>, the partial frame, its byte permit and its deadline.  The transport is the list of
  its future reads with their arrival times; an empty read is the end of the stream, and a list
  that is exhausted leaves the receive pending.  The semaphore is the number of free permits.
  \<open>read_step\<close> is one round of the loop of \<open>FrameReader::read\<close>.

  The lemmas show that what is read does not depend on how the bytes were fragmented, that no more
  than the limit is ever buffered and that it is always covered by a permit, and that a written
  frame is read back.
\<close>

section \<open>The program\<close>

type_synonym byte = "8 word"

abbreviation (input) LF_byte :: byte where "LF_byte \<equiv> 10"
abbreviation (input) CR_byte :: byte where "CR_byte \<equiv> 13"

datatype io_kind = InvalidData | OutOfMemory | TimedOut | TransportFailure

datatype io_error = Io io_kind string

definition invalid :: "string \<Rightarrow> io_error" where
  "invalid message = Io InvalidData message"

record frame =
  frame_bytes :: "byte list"
  frame_permit :: nat

datatype read_event = Arrived "byte list" | Failed io_error

record frame_reader =
  fr_buffer :: "byte list"
  fr_events :: "(nat \<times> read_event) list"
  fr_now :: nat
  fr_bytes :: "byte list"
  fr_permit :: "nat option"
  fr_deadline :: "nat option"
  fr_max :: nat
  fr_budget :: nat
  fr_idle :: nat
  fr_completion :: nat
  fr_read_buffer_permit :: "nat option"

definition frame_reader_new ::
    "(nat \<times> read_event) list \<Rightarrow> nat \<Rightarrow> nat \<Rightarrow> nat \<Rightarrow> nat \<Rightarrow> nat \<Rightarrow> frame_reader" where
  "frame_reader_new events now max_bytes budget idle completion =
     (let capacity = min 8192 (max max_bytes 1);
          permit = (if capacity \<le> budget then Some capacity else None) in
      \<lparr>fr_buffer = [], fr_events = events, fr_now = now, fr_bytes = [], fr_permit = None,
       fr_deadline = None, fr_max = max_bytes,
       fr_budget = (case permit of None \<Rightarrow> budget | Some n \<Rightarrow> budget - n),
       fr_idle = idle, fr_completion = completion, fr_read_buffer_permit = permit\<rparr>)"

datatype outcome = Pending | Finished "(frame option, io_error) result"

text \<open>\<open>fill_buf\<close> under its deadline: nothing while the transport has nothing to say.\<close>

definition fill_buf :: "nat \<Rightarrow> frame_reader \<Rightarrow> (byte list \<times> frame_reader, io_error) result option" where
  "fill_buf deadline st =
     (if fr_buffer st \<noteq> [] then Some (Ok (fr_buffer st, st))
      else (case fr_events st of
              [] \<Rightarrow> None
            | (t, ev) # es \<Rightarrow>
                if deadline < t then Some (Err (Io TimedOut ''frame deadline exceeded''))
                else (case ev of
                        Arrived bs \<Rightarrow>
                          Some (Ok (bs, st\<lparr>fr_buffer := bs, fr_events := es, fr_now := max (fr_now st) t\<rparr>))
                      | Failed e \<Rightarrow> Some (Err e))))"

definition acquire_frame :: "frame_reader \<Rightarrow> (frame_reader, io_error) result" where
  "acquire_frame st =
     (if fr_permit st \<noteq> None then Ok st
      else if 2 ^ 32 \<le> fr_max st then Err (invalid ''invalid frame limit'')
      else if fr_budget st < fr_max st then Err (Io OutOfMemory ''frame budget exhausted'')
      else Ok (st\<lparr>fr_permit := Some (fr_max st), fr_budget := fr_budget st - fr_max st,
                  fr_deadline := Some (fr_now st + fr_completion st)\<rparr>))"

definition strip_cr :: "byte list \<Rightarrow> byte list" where
  "strip_cr bs = (if bs \<noteq> [] \<and> last bs = CR_byte then butlast bs else bs)"

definition complete_frame :: "frame_reader \<Rightarrow> (frame option, io_error) result \<times> frame_reader" where
  "complete_frame st =
     (let bytes = strip_cr (fr_bytes st);
          st' = st\<lparr>fr_bytes := [], fr_deadline := None\<rparr> in
      case fr_permit st of
        None \<Rightarrow> (Err (invalid ''missing frame budget''), st')
      | Some n \<Rightarrow>
          if bytes = []
          then (Err (invalid ''empty frame''), st'\<lparr>fr_permit := None, fr_budget := fr_budget st + n\<rparr>)
          else (Ok (Some \<lparr>frame_bytes = bytes, frame_permit = n\<rparr>), st'\<lparr>fr_permit := None\<rparr>))"

text \<open>One round of the loop: a result, or the state of the next round.\<close>

definition read_step :: "frame_reader \<Rightarrow> (outcome \<times> frame_reader) + frame_reader" where
  "read_step st0 =
     (let deadline = (case fr_deadline st0 of None \<Rightarrow> fr_now st0 + fr_idle st0 | Some d \<Rightarrow> d);
          st = st0\<lparr>fr_deadline := Some deadline\<rparr> in
      case fill_buf deadline st of
        None \<Rightarrow> Inl (Pending, st)
      | Some (Inl e) \<Rightarrow> Inl (Finished (Err e), st)
      | Some (Inr (available, st)) \<Rightarrow>
          if available = [] then
            Inl (Finished (if fr_bytes st = [] then Ok None else Err (invalid ''unterminated frame'')), st)
          else
            (case acquire_frame st of
               Inl e \<Rightarrow> Inl (Finished (Err e), st)
             | Inr st \<Rightarrow>
                 let line = takeWhile (\<lambda>b. b \<noteq> LF_byte) available;
                     newline = (LF_byte \<in> set available) in
                 if fr_max st - length (fr_bytes st) < length line
                 then Inl (Finished (Err (invalid ''frame exceeds byte limit'')), st)
                 else
                   let st = st\<lparr>fr_bytes := fr_bytes st @ line,
                               fr_buffer := drop (length line + (if newline then 1 else 0)) available\<rparr> in
                   if newline then
                     (case complete_frame st of (r, st) \<Rightarrow> Inl (Finished r, st))
                   else Inr st))"

definition remaining :: "frame_reader \<Rightarrow> nat" where
  "remaining st = 2 * length (fr_events st) + (if fr_buffer st = [] then 0 else 1)"

lemma takeWhile_all: "LF_byte \<notin> set bs \<Longrightarrow> takeWhile (\<lambda>b. b \<noteq> LF_byte) bs = bs"
  by (auto simp: takeWhile_eq_all_conv)

lemma fill_buf_OkD:
  "fill_buf d st = Some (Inr (bs, st')) \<Longrightarrow> fr_buffer st' = bs \<and>
     (bs \<noteq> [] \<longrightarrow> 2 * length (fr_events st') + 1 \<le> remaining st)"
  by (auto simp: fill_buf_def remaining_def split: if_splits list.splits read_event.splits)

lemma acquire_frame_keeps:
  "acquire_frame st = Ok st' \<Longrightarrow> fr_events st' = fr_events st \<and> fr_buffer st' = fr_buffer st \<and>
     fr_bytes st' = fr_bytes st \<and> fr_max st' = fr_max st \<and> fr_now st' = fr_now st \<and>
     fr_idle st' = fr_idle st \<and> fr_completion st' = fr_completion st \<and>
     fr_read_buffer_permit st' = fr_read_buffer_permit st"
  by (auto simp: acquire_frame_def split: if_splits)

lemma read_step_continue:
  assumes "read_step st0 = Inr st'"
  shows "remaining st' < remaining st0"
proof -
  define d where "d = (case fr_deadline st0 of None \<Rightarrow> fr_now st0 + fr_idle st0 | Some d \<Rightarrow> d)"
  let ?st = "st0\<lparr>fr_deadline := Some d\<rparr>"
  from assms obtain bs st1 st2 where f: "fill_buf d ?st = Some (Inr (bs, st1))" "bs \<noteq> []" and
    a: "acquire_frame st1 = Ok st2" and nl: "LF_byte \<notin> set bs" and
    st': "st' = st2\<lparr>fr_bytes := fr_bytes st2 @ bs, fr_buffer := []\<rparr>"
    by (auto simp: read_step_def d_def [symmetric] Let_def takeWhile_all
        split: option.splits sum.splits prod.splits if_splits)
  from fill_buf_OkD [OF f(1)] f(2) acquire_frame_keeps [OF a] show ?thesis
    by (auto simp: st' remaining_def)
qed

function read_loop :: "frame_reader \<Rightarrow> outcome \<times> frame_reader" where
  "read_loop st = (case read_step st of Inl r \<Rightarrow> r | Inr st' \<Rightarrow> read_loop st')"
  by pat_completeness auto
termination
  by (relation "measure remaining") (auto dest: read_step_continue)

declare read_loop.simps [simp del]

definition frame_read :: "frame_reader \<Rightarrow> outcome \<times> frame_reader" where
  "frame_read st =
     (if fr_read_buffer_permit st = None
      then (Finished (Err (Io OutOfMemory ''read buffer budget exhausted'')), st)
      else read_loop st)"

text \<open>\<open>io::Write\<close> of the capped buffer; \<open>write_json\<close> with the writes of the serializer.\<close>

definition capped_write :: "nat \<Rightarrow> byte list \<Rightarrow> byte list \<Rightarrow> (byte list, io_error) result" where
  "capped_write max_bytes bytes input =
     (if max_bytes - length bytes < length input then Err (invalid ''output exceeds byte limit'')
      else Ok (bytes @ input))"

primrec write_pieces :: "nat \<Rightarrow> byte list \<Rightarrow> byte list list \<Rightarrow> (byte list, io_error) result" where
  "write_pieces max_bytes bytes [] = Ok bytes"
| "write_pieces max_bytes bytes (p # ps) =
     and_then (capped_write max_bytes bytes p) (\<lambda>bytes. write_pieces max_bytes bytes ps)"

definition write_json ::
    "(byte list list \<Rightarrow> (unit, io_error) result option) \<Rightarrow> byte list list option \<Rightarrow> nat \<Rightarrow> nat
      \<Rightarrow> (byte list list, io_error) result" where
  "write_json transport pieces max_bytes budget =
     (if 2 ^ 32 \<le> max_bytes then Err (invalid ''invalid output limit'')
      else if budget < max_bytes then Err (Io OutOfMemory ''output budget exhausted'')
      else
        (case pieces of
           None \<Rightarrow> Err (invalid ''invalid or oversized output'')
         | Some ps \<Rightarrow>
             (case write_pieces max_bytes [] ps of
                Inl e \<Rightarrow> Err (invalid ''invalid or oversized output'')
              | Inr bytes \<Rightarrow>
                  (case transport [bytes, [LF_byte]] of
                     None \<Rightarrow> Err (Io TimedOut ''output deadline exceeded'')
                   | Some (Inl e) \<Rightarrow> Err e
                   | Some (Inr _) \<Rightarrow> Ok [bytes, [LF_byte]]))))"

interpretation capped_buffer:
  capped_append "capped_write max_bytes" length max_bytes "invalid ''output exceeds byte limit''"
  for max_bytes
  by unfold_locales (auto simp: capped_write_def)

lemma write_pieces_eq_all: "write_pieces m bytes ps = capped_buffer.append_all m bytes ps"
  by (induction ps arbitrary: bytes) auto

section \<open>Reading\<close>

fun event_bytes :: "nat \<times> read_event \<Rightarrow> byte list" where
  "event_bytes (t, Arrived bs) = bs"
| "event_bytes (t, Failed e) = []"

text \<open>Everything received so far and still to come.\<close>

definition stream :: "frame_reader \<Rightarrow> byte list" where
  "stream st = fr_bytes st @ fr_buffer st @ concat (map event_bytes (fr_events st))"

fun in_time :: "frame_reader \<Rightarrow> nat \<times> read_event \<Rightarrow> bool" where
  "in_time st (t, Failed e) = False"
| "in_time st (t, Arrived bs) =
     (bs \<noteq> [] \<and> t \<le> fr_now st + fr_idle st \<and> t \<le> fr_now st + fr_completion st \<and>
      (case fr_deadline st of None \<Rightarrow> True | Some d \<Rightarrow> t \<le> d))"

definition prompt :: "frame_reader \<Rightarrow> bool" where
  "prompt st \<longleftrightarrow> list_all (in_time st) (fr_events st)"

definition reader_ok :: "frame_reader \<Rightarrow> bool" where
  "reader_ok st \<longleftrightarrow> length (fr_bytes st) \<le> fr_max st \<and> LF_byte \<notin> set (fr_bytes st) \<and>
     (fr_bytes st \<noteq> [] \<longrightarrow> fr_permit st \<noteq> None) \<and>
     (\<forall>n. fr_permit st = Some n \<longrightarrow> n = fr_max st)"

definition budget_ok :: "frame_reader \<Rightarrow> bool" where
  "budget_ok st \<longleftrightarrow> fr_permit st \<noteq> None \<or> (fr_max st \<le> fr_budget st \<and> fr_max st < 2 ^ 32)"

definition expected :: "nat \<Rightarrow> byte list \<Rightarrow> outcome" where
  "expected max_bytes data =
     (let line = takeWhile (\<lambda>b. b \<noteq> LF_byte) data in
      if max_bytes < length line then Finished (Err (invalid ''frame exceeds byte limit''))
      else if LF_byte \<in> set data then
        if strip_cr line = [] then Finished (Err (invalid ''empty frame''))
        else Finished (Ok (Some \<lparr>frame_bytes = strip_cr line, frame_permit = max_bytes\<rparr>))
      else Pending)"

lemma in_time_shift:
  "in_time st e \<Longrightarrow> fr_now st \<le> fr_now st' \<Longrightarrow> fr_idle st' = fr_idle st \<Longrightarrow>
     fr_completion st' = fr_completion st \<Longrightarrow>
     fr_deadline st' \<in> {fr_deadline st, Some (fr_now st + fr_idle st), Some (fr_now st' + fr_completion st)} \<Longrightarrow>
     in_time st' e"
  by (cases "(st, e)" rule: in_time.cases) (auto split: option.splits)

lemma fill_prompt:
  assumes "prompt st0"
  defines "d \<equiv> (case fr_deadline st0 of None \<Rightarrow> fr_now st0 + fr_idle st0 | Some d \<Rightarrow> d)"
  defines "st \<equiv> st0\<lparr>fr_deadline := Some d\<rparr>"
  shows "fr_buffer st0 = [] \<and> fr_events st0 = [] \<and> fill_buf d st = None \<or>
    (\<exists>bs es now. bs \<noteq> [] \<and> fr_now st0 \<le> now \<and>
      fill_buf d st = Some (Inr (bs, st\<lparr>fr_buffer := bs, fr_events := es, fr_now := now\<rparr>)) \<and>
      bs @ concat (map event_bytes es) = fr_buffer st0 @ concat (map event_bytes (fr_events st0)) \<and>
      set es \<subseteq> set (fr_events st0))"
proof (cases "fr_buffer st0 = []")
  case False
  then have "fill_buf d st = Some (Inr (fr_buffer st0,
      st\<lparr>fr_buffer := fr_buffer st0, fr_events := fr_events st0, fr_now := fr_now st0\<rparr>))"
    by (simp add: fill_buf_def st_def)
  with False show ?thesis by blast
next
  case empty: True
  show ?thesis
  proof (cases "fr_events st0")
    case Nil
    with empty show ?thesis by (simp add: fill_buf_def st_def)
  next
    case (Cons e es)
    obtain t ev where e: "e = (t, ev)" by fastforce
    from assms(1) Cons have "in_time st0 e" by (simp add: prompt_def)
    with e obtain bs where ev: "ev = Arrived bs" "bs \<noteq> []" "t \<le> d"
      by (cases ev) (auto simp: d_def split: option.splits)
    with empty Cons e have "fill_buf d st =
        Some (Inr (bs, st\<lparr>fr_buffer := bs, fr_events := es, fr_now := max (fr_now st0) t\<rparr>))"
      by (simp add: fill_buf_def st_def)
    moreover have "bs @ concat (map event_bytes es) =
        fr_buffer st0 @ concat (map event_bytes (fr_events st0))"
      using empty Cons e ev by simp
    moreover have "set es \<subseteq> set (fr_events st0)" using Cons by auto
    ultimately show ?thesis using ev(2) by (intro disjI2) (metis max.cobounded1)
  qed
qed

lemma acquire_ok:
  assumes "budget_ok st" "reader_ok st"
  shows "\<exists>st'. acquire_frame st = Ok st' \<and> fr_permit st' = Some (fr_max st) \<and>
    fr_deadline st' \<in> {fr_deadline st, Some (fr_now st + fr_completion st)}"
  using assms by (auto simp: acquire_frame_def budget_ok_def reader_ok_def)

lemma takeWhile_prefix:
  "LF_byte \<notin> set xs \<Longrightarrow> takeWhile (\<lambda>b. b \<noteq> LF_byte) (xs @ ys) = xs @ takeWhile (\<lambda>b. b \<noteq> LF_byte) ys"
  by (induction xs) auto

lemma after_line:
  assumes "LF_byte \<notin> set xs" "LF_byte \<in> set ys"
  shows "tl (dropWhile (\<lambda>b. b \<noteq> LF_byte) (xs @ ys @ zs)) = tl (dropWhile (\<lambda>b. b \<noteq> LF_byte) ys) @ zs"
proof -
  have "tl (dropWhile (\<lambda>b. b \<noteq> LF_byte) (ys @ zs)) = tl (dropWhile (\<lambda>b. b \<noteq> LF_byte) ys) @ zs"
    using assms(2) by (induction ys) auto
  with assms(1) show ?thesis by (induction xs) auto
qed

lemma read_loop_spec:
  assumes "prompt st0" "reader_ok st0" "budget_ok st0"
  shows "fst (read_loop st0) = expected (fr_max st0) (stream st0) \<and>
    (\<forall>f. fst (read_loop st0) = Finished (Ok (Some f)) \<longrightarrow>
       stream (snd (read_loop st0)) = tl (dropWhile (\<lambda>b. b \<noteq> LF_byte) (stream st0)) \<and>
       fr_bytes (snd (read_loop st0)) = [])"
  using assms
proof (induction st0 rule: read_loop.induct)
  case (1 st0)
  define d where "d = (case fr_deadline st0 of None \<Rightarrow> fr_now st0 + fr_idle st0 | Some d \<Rightarrow> d)"
  define st where "st = st0\<lparr>fr_deadline := Some d\<rparr>"
  have d_cases: "Some d \<in> {fr_deadline st0, Some (fr_now st0 + fr_idle st0)}"
    by (auto simp: d_def split: option.splits)
  from fill_prompt [OF "1.prems"(1), folded d_def, folded st_def]
  show ?case
  proof (elim disjE conjE exE)
    assume e: "fr_buffer st0 = []" "fr_events st0 = []" "fill_buf d st = None"
    then have "read_step st0 = Inl (Pending, st)"
      by (simp add: read_step_def d_def [symmetric] st_def [symmetric] Let_def)
    moreover have "expected (fr_max st0) (stream st0) = Pending"
      using e "1.prems"(2) by (simp add: expected_def stream_def reader_ok_def takeWhile_all)
    ultimately show ?thesis by (simp add: read_loop.simps [of st0])
  next
    fix bs es now
    assume bs: "bs \<noteq> []" "fr_now st0 \<le> now" and
      fill: "fill_buf d st = Some (Inr (bs, st\<lparr>fr_buffer := bs, fr_events := es, fr_now := now\<rparr>))" and
      data: "bs @ concat (map event_bytes es) = fr_buffer st0 @ concat (map event_bytes (fr_events st0))" and
      es: "set es \<subseteq> set (fr_events st0)"
    define st1 where "st1 = st\<lparr>fr_buffer := bs, fr_events := es, fr_now := now\<rparr>"
    have st1: "fr_bytes st1 = fr_bytes st0" "fr_max st1 = fr_max st0" "fr_events st1 = es"
        "reader_ok st1" "budget_ok st1"
      using "1.prems"(2,3) by (simp_all add: st1_def st_def reader_ok_def budget_ok_def)
    from acquire_ok [OF st1(5,4)] obtain st2 where acq: "acquire_frame st1 = Ok st2"
        "fr_permit st2 = Some (fr_max st0)" "fr_deadline st2 \<in> {fr_deadline st1, Some (now + fr_completion st0)}"
      using st1(2) by (auto simp: st1_def st_def)
    have st2: "fr_bytes st2 = fr_bytes st0" "fr_max st2 = fr_max st0" "fr_events st2 = es"
        "fr_now st2 = now" "fr_idle st2 = fr_idle st0" "fr_completion st2 = fr_completion st0"
      using acquire_frame_keeps [OF acq(1)] st1 by (simp_all add: st1_def st_def)
    have str: "stream st0 = fr_bytes st0 @ bs @ concat (map event_bytes es)"
      using data by (simp add: stream_def)
    let ?line = "takeWhile (\<lambda>b. b \<noteq> LF_byte) bs"
    have noLF: "LF_byte \<notin> set (fr_bytes st0)" and len: "length (fr_bytes st0) \<le> fr_max st0"
      using "1.prems"(2) by (auto simp: reader_ok_def)
    have tw: "takeWhile (\<lambda>b. b \<noteq> LF_byte) (stream st0) = fr_bytes st0 @
        (if LF_byte \<in> set bs then ?line else bs @ takeWhile (\<lambda>b. b \<noteq> LF_byte) (concat (map event_bytes es)))"
      unfolding str takeWhile_prefix [OF noLF]
      by (auto simp: takeWhile_append1 [of LF_byte] takeWhile_prefix)
    have step: "read_step st0 =
        (if fr_max st0 - length (fr_bytes st0) < length ?line
         then Inl (Finished (Err (invalid ''frame exceeds byte limit'')), st2)
         else if LF_byte \<in> set bs then
           (case complete_frame (st2\<lparr>fr_bytes := fr_bytes st0 @ ?line,
              fr_buffer := drop (length ?line + 1) bs\<rparr>) of (r, st) \<Rightarrow> Inl (Finished r, st))
         else Inr (st2\<lparr>fr_bytes := fr_bytes st0 @ bs, fr_buffer := []\<rparr>))"
      using bs(1) acq(1) st2(1,2)
      by (simp add: read_step_def d_def [symmetric] st_def [symmetric] fill st1_def [symmetric] Let_def
          takeWhile_all)
    show ?thesis
    proof (cases "fr_max st0 - length (fr_bytes st0) < length ?line")
      case True
      moreover have "fr_max st0 < length (takeWhile (\<lambda>b. b \<noteq> LF_byte) (stream st0))"
        using True len unfolding tw by (auto simp: takeWhile_all)
      ultimately show ?thesis by (simp add: read_loop.simps [of st0] step expected_def)
    next
      case fits: False
      show ?thesis
      proof (cases "LF_byte \<in> set bs")
        case True
        have "drop (length ?line + 1) bs = tl (dropWhile (\<lambda>b. b \<noteq> LF_byte) bs)"
          by (simp add: dropWhile_eq_drop tl_drop drop_Suc)
        moreover have "tl (dropWhile (\<lambda>b. b \<noteq> LF_byte) (stream st0)) =
            tl (dropWhile (\<lambda>b. b \<noteq> LF_byte) bs) @ concat (map event_bytes es)"
          unfolding str by (rule after_line [OF noLF True])
        ultimately have rest: "drop (length ?line + 1) bs @ concat (map event_bytes es) =
            tl (dropWhile (\<lambda>b. b \<noteq> LF_byte) (stream st0))" by simp
        have "LF_byte \<in> set (stream st0)" using True by (simp add: str)
        then have "expected (fr_max st0) (stream st0) =
            (if strip_cr (fr_bytes st0 @ ?line) = [] then Finished (Err (invalid ''empty frame''))
             else Finished (Ok (Some \<lparr>frame_bytes = strip_cr (fr_bytes st0 @ ?line), frame_permit = fr_max st0\<rparr>)))"
        proof -
          have "\<not> fr_max st0 < length (fr_bytes st0) + length ?line" using fits len by linarith
          with \<open>LF_byte \<in> set (stream st0)\<close> True show ?thesis by (simp add: expected_def tw Let_def)
        qed
        moreover have "read_loop st0 = (case complete_frame (st2\<lparr>fr_bytes := fr_bytes st0 @ ?line,
              fr_buffer := drop (length ?line + 1) bs\<rparr>) of (r, st) \<Rightarrow> (Finished r, st))"
          using True fits by (simp add: read_loop.simps [of st0] step split: prod.splits)
        ultimately show ?thesis
          using acq(2) st2(3) rest by (simp add: complete_frame_def Let_def stream_def)
      next
        case False
        let ?st' = "st2\<lparr>fr_bytes := fr_bytes st0 @ bs, fr_buffer := []\<rparr>"
        have next': "read_step st0 = Inr ?st'" using step fits False by simp
        have "in_time ?st' e" if "e \<in> set es" for e
        proof (rule in_time_shift)
          show "in_time st0 e" using that es "1.prems"(1) by (auto simp: prompt_def list_all_iff)
          show "fr_deadline ?st' \<in> {fr_deadline st0, Some (fr_now st0 + fr_idle st0),
              Some (fr_now ?st' + fr_completion st0)}"
            using acq(3) d_cases st2 by (auto simp: st1_def st_def)
        qed (use bs st2 in auto)
        then have "prompt ?st'" using st2 by (simp add: prompt_def list_all_iff)
        moreover have "reader_ok ?st'"
          using fits False noLF len acq(2) st2 by (auto simp: reader_ok_def takeWhile_all)
        moreover have "budget_ok ?st'" using acq(2) by (simp add: budget_ok_def)
        moreover have "stream ?st' = stream st0" unfolding str using st2 by (simp add: stream_def)
        ultimately show ?thesis using "1.IH" [OF next'] st2
          by (simp add: read_loop.simps [of st0] next')
      qed
    qed
  qed
qed

section \<open>Permits\<close>

definition held :: "frame_reader \<Rightarrow> nat" where
  "held st = (case fr_permit st of None \<Rightarrow> 0 | Some n \<Rightarrow> n)"

fun handed_out :: "outcome \<Rightarrow> nat" where
  "handed_out (Finished (Inr (Some f))) = frame_permit f"
| "handed_out _ = 0"

fun frame_fits :: "nat \<Rightarrow> outcome \<Rightarrow> bool" where
  "frame_fits m (Finished (Inr (Some f))) \<longleftrightarrow>
     frame_bytes f \<noteq> [] \<and> length (frame_bytes f) \<le> m \<and> frame_permit f = m \<and> LF_byte \<notin> set (frame_bytes f)"
| "frame_fits m _ \<longleftrightarrow> True"

definition accounted :: "frame_reader \<Rightarrow> outcome \<Rightarrow> frame_reader \<Rightarrow> bool" where
  "accounted st out st' \<longleftrightarrow> reader_ok st' \<and> fr_max st' = fr_max st \<and> frame_fits (fr_max st) out \<and>
     fr_budget st' + held st' + handed_out out = fr_budget st + held st"

lemma fill_buf_keeps:
  "fill_buf d st = Some (Inr (bs, st')) \<Longrightarrow> fr_bytes st' = fr_bytes st \<and> fr_permit st' = fr_permit st \<and>
     fr_max st' = fr_max st \<and> fr_budget st' = fr_budget st"
  by (auto simp: fill_buf_def split: if_splits list.splits read_event.splits)

lemma acquire_accounted:
  "acquire_frame st = Ok st' \<Longrightarrow> reader_ok st \<Longrightarrow>
     fr_permit st' = Some (fr_max st) \<and> fr_budget st' + held st' = fr_budget st + held st"
  by (auto simp: acquire_frame_def reader_ok_def held_def split: if_splits)

lemma strip_cr_le: "length (strip_cr bs) \<le> length bs" "set (strip_cr bs) \<subseteq> set bs"
  by (auto simp: strip_cr_def dest: in_set_butlastD)

lemma complete_accounted:
  assumes "complete_frame st = (r, st')" "fr_permit st = Some (fr_max st)"
    "length (fr_bytes st) \<le> fr_max st" "LF_byte \<notin> set (fr_bytes st)"
  shows "accounted st (Finished r) st'"
proof -
  have "length (strip_cr (fr_bytes st)) \<le> fr_max st" "LF_byte \<notin> set (strip_cr (fr_bytes st))"
    using strip_cr_le [of "fr_bytes st"] assms(3,4) by auto
  with assms show ?thesis
    by (auto simp: complete_frame_def Let_def accounted_def reader_ok_def held_def split: if_splits)
qed

lemma read_step_accounted:
  assumes "reader_ok st0"
  shows "case read_step st0 of
      Inl (out, st') \<Rightarrow> accounted st0 out st'
    | Inr st' \<Rightarrow> accounted st0 Pending st'"
proof -
  define d where "d = (case fr_deadline st0 of None \<Rightarrow> fr_now st0 + fr_idle st0 | Some d \<Rightarrow> d)"
  define st where "st = st0\<lparr>fr_deadline := Some d\<rparr>"
  have same: "accounted st0 out st'" if "fr_bytes st' = fr_bytes st0" "fr_permit st' = fr_permit st0"
      "fr_max st' = fr_max st0" "fr_budget st' = fr_budget st0" "handed_out out = 0" "frame_fits (fr_max st0) out" for out st'
    using that assms by (simp add: accounted_def reader_ok_def held_def)
  note rs = read_step_def [of st0, folded d_def, unfolded Let_def, folded st_def]
  show ?thesis
  proof (cases "fill_buf d st")
    case None
    then show ?thesis using same [of st Pending] by (simp add: rs st_def)
  next
    case (Some res)
    show ?thesis
    proof (cases res)
      case (Inl e)
      with Some same [of st "Finished (Inl e)"] show ?thesis by (simp add: rs st_def)
    next
      case (Inr p)
      obtain bs st1 where p: "p = (bs, st1)" by fastforce
      from fill_buf_keeps [of d st bs st1] Some Inr p have
        st1: "fr_bytes st1 = fr_bytes st0" "fr_permit st1 = fr_permit st0" "fr_max st1 = fr_max st0"
          "fr_budget st1 = fr_budget st0"
        by (simp_all add: st_def)
      have ok1: "reader_ok st1" using assms st1 by (simp add: reader_ok_def)
      show ?thesis
      proof (cases "bs = []")
        case True
        with Some Inr p same [of st1] st1 show ?thesis by (simp add: rs)
      next
        case False
        show ?thesis
        proof (cases "acquire_frame st1")
          case (Inl e)
          with False Some Inr p same [of st1 "Finished (Inl e)"] st1 show ?thesis by (simp add: rs)
        next
          case acq: (Inr st2)
          note keep = acquire_frame_keeps [OF acq] and acct = acquire_accounted [OF acq ok1]
          let ?line = "takeWhile (\<lambda>b. b \<noteq> LF_byte) bs" and ?nl = "LF_byte \<in> set bs"
          let ?st = "st2\<lparr>fr_bytes := fr_bytes st2 @ ?line,
              fr_buffer := drop (length ?line + (if ?nl then 1 else 0)) bs\<rparr>"
          have line: "LF_byte \<notin> set ?line" by (auto dest: set_takeWhileD)
          have step: "read_step st0 =
              (if fr_max st2 - length (fr_bytes st2) < length ?line
               then Inl (Finished (Err (invalid ''frame exceeds byte limit'')), st2)
               else if ?nl then (case complete_frame ?st of (r, st) \<Rightarrow> Inl (Finished r, st)) else Inr ?st)"
            using False Some Inr p acq by (simp add: rs)
          have big: "accounted st0 (Finished (Err e)) st2" for e
            using acct keep st1 ok1 by (auto simp: accounted_def reader_ok_def held_def)
          have fits: "accounted st0 (Finished r) st'" if "complete_frame ?st = (r, st')"
              "\<not> fr_max st2 - length (fr_bytes st2) < length ?line" for r st'
          proof -
            have "accounted ?st (Finished r) st'"
              by (rule complete_accounted [OF that(1)])
                (use acct keep st1 ok1 line that(2) in \<open>auto simp: reader_ok_def\<close>)
            moreover have "held ?st = held st2" by (simp add: held_def)
            moreover have "held st1 = held st0" using st1(2) by (simp add: held_def)
            then have "fr_budget st2 + held st2 = fr_budget st0 + held st0" using acct st1(4) by simp
            ultimately show ?thesis using keep st1 by (simp add: accounted_def)
          qed
          have more: "accounted st0 Pending ?st"
            if "\<not> fr_max st2 - length (fr_bytes st2) < length ?line"
            using acct keep st1 ok1 line that by (auto simp: accounted_def reader_ok_def held_def)
          show ?thesis unfolding step using big fits more by (auto split: prod.splits)
        qed
      qed
    qed
  qed
qed

lemma read_loop_accounted: "reader_ok st \<Longrightarrow> read_loop st = (out, st') \<Longrightarrow> accounted st out st'"
proof (induction st rule: read_loop.induct)
  case (1 st)
  show ?case
  proof (cases "read_step st")
    case (Inl r)
    with read_step_accounted [OF "1.prems"(1)] "1.prems"(2) show ?thesis
      by (auto simp: read_loop.simps [of st])
  next
    case (Inr st1)
    with read_step_accounted [OF "1.prems"(1)] have a: "accounted st Pending st1" by simp
    from "1.IH" [OF Inr] a Inr "1.prems"(2) have "accounted st1 out st'"
      by (simp add: read_loop.simps [of st] accounted_def)
    with a show ?thesis by (simp add: accounted_def)
  qed
qed

section \<open>Properties\<close>

text \<open>
  C27. Fragmentation does not matter: when the bytes arrive in time and the budget allows a frame,
  what \<open>read\<close> returns is determined by the concatenation of everything received and still to come,
  up to the first line feed: the frame without line feed and carriage return, the empty-frame or
  the size error, or pending; after a frame exactly the bytes behind its line feed are left.
\<close>

theorem frame_read_fragmentation:
  assumes "prompt st" "reader_ok st" "budget_ok st" "fr_read_buffer_permit st \<noteq> None"
  shows "fst (frame_read st) = expected (fr_max st) (stream st) \<and>
    (\<forall>f. fst (frame_read st) = Finished (Ok (Some f)) \<longrightarrow>
       stream (snd (frame_read st)) = tl (dropWhile (\<lambda>b. b \<noteq> LF_byte) (stream st)) \<and>
       fr_bytes (snd (frame_read st)) = [])"
proof -
  have "frame_read st = read_loop st" using assms(4) by (auto simp: frame_read_def)
  then show ?thesis using read_loop_spec [OF assms(1-3)] by (elim ssubst)
qed

definition example_reader :: frame_reader where
  "example_reader = frame_reader_new
     [(1, Arrived [123, 34]), (2, Arrived [125, 13, 10, 91, 93]), (3, Arrived [10])] 0 8 100 50 50"

theorem frame_read_fragmentation_witness:
  "fst (frame_read example_reader) =
     Finished (Ok (Some \<lparr>frame_bytes = [123, 34, 125], frame_permit = 8\<rparr>)) \<and>
   stream (snd (frame_read example_reader)) = [91, 93, 10]"
proof -
  have h: "prompt example_reader" "reader_ok example_reader" "budget_ok example_reader"
      "fr_read_buffer_permit example_reader \<noteq> None"
    by (simp_all add: example_reader_def frame_reader_new_def prompt_def reader_ok_def budget_ok_def Let_def)
  have e: "expected (fr_max example_reader) (stream example_reader) =
      Finished (Ok (Some \<lparr>frame_bytes = [123, 34, 125], frame_permit = 8\<rparr>))"
    "stream example_reader = [123, 34, 125, 13, 10, 91, 93, 10]"
    by (simp_all add: example_reader_def frame_reader_new_def expected_def stream_def strip_cr_def Let_def)
  note r = frame_read_fragmentation [OF h]
  note first = conjunct1 [OF r, unfolded e(1)]
  from conjunct2 [OF r, rule_format, OF first] first show ?thesis unfolding e(2) by simp
qed

text \<open>
  Memory stays bounded and accounted for, whatever the peer sends and whenever: every receive,
  finished or cancelled, keeps the partial frame within the limit and covered by a permit, a
  returned frame is nonempty, within the limit and free of line feeds, and the free permits, the
  reader's permit and the returned frame's permit always add up to the same amount.
\<close>

theorem frame_read_accounting:
  assumes "reader_ok st" "frame_read st = (out, st')"
  shows "reader_ok st' \<and> fr_max st' = fr_max st \<and> frame_fits (fr_max st) out \<and>
    fr_budget st' + held st' + handed_out out = fr_budget st + held st"
proof (cases "fr_read_buffer_permit st = None")
  case True
  with assms show ?thesis by (auto simp: frame_read_def)
next
  case False
  with assms read_loop_accounted [of st out st'] show ?thesis
    by (simp add: frame_read_def accounted_def)
qed

theorem frame_read_accounting_witness:
  "reader_ok (snd (frame_read example_reader)) \<and>
     fr_budget (snd (frame_read example_reader)) + held (snd (frame_read example_reader))
       + handed_out (fst (frame_read example_reader)) = 92"
proof -
  have "reader_ok example_reader" "fr_budget example_reader + held example_reader = 92"
    by (simp_all add: example_reader_def frame_reader_new_def reader_ok_def held_def Let_def)
  with frame_read_accounting [OF _ surjective_pairing, of example_reader] show ?thesis by simp
qed

text \<open>
  C35. Writing and reading agree: if \<open>write_json\<close> succeeds for a value whose encoding is nonempty,
  holds no line feed and does not end with a carriage return, a fresh reader with at least the same
  limit returns exactly that encoding, however the bytes are fragmented on the way.
\<close>

theorem frame_roundtrip:
  assumes "write_json transport (Some pieces) max_bytes budget = Ok written"
    and "concat pieces \<noteq> []" "LF_byte \<notin> set (concat pieces)" "last (concat pieces) \<noteq> CR_byte"
    and "concat (map event_bytes events) = concat written"
    and "prompt (frame_reader_new events now limit budget' idle completion)"
    and "max_bytes \<le> limit" "limit < 2 ^ 32" "min 8192 (max limit 1) + limit \<le> budget'"
  shows "fst (frame_read (frame_reader_new events now limit budget' idle completion)) =
    Finished (Ok (Some \<lparr>frame_bytes = concat pieces, frame_permit = limit\<rparr>))"
proof -
  let ?st = "frame_reader_new events now limit budget' idle completion"
  have written: "length (concat pieces) \<le> max_bytes" "written = [concat pieces, [LF_byte]]"
    using assms(1) capped_buffer.append_all_eq [of "[]" max_bytes pieces]
    by (auto simp: write_json_def write_pieces_eq_all split: if_splits sum.splits option.splits)
  have st: "reader_ok ?st" "budget_ok ?st" "fr_read_buffer_permit ?st \<noteq> None" "fr_max ?st = limit"
      "stream ?st = concat pieces @ [LF_byte]"
    using assms(5,8,9) written(2)
    by (auto simp: frame_reader_new_def reader_ok_def budget_ok_def stream_def Let_def)
  have "takeWhile (\<lambda>b. b \<noteq> LF_byte) (concat pieces @ [LF_byte]) = concat pieces"
    using assms(3) takeWhile_prefix [of "concat pieces" "[LF_byte]"] by simp
  then have "expected limit (stream ?st) =
      Finished (Ok (Some \<lparr>frame_bytes = concat pieces, frame_permit = limit\<rparr>))"
    using assms(2,4,7) written(1) by (simp only: expected_def Let_def st(5)) (simp add: strip_cr_def)
  then show ?thesis
    using read_loop_spec [OF assms(6) st(1,2)] st(3,4) by (simp add: frame_read_def)
qed

theorem frame_roundtrip_witness:
  "fst (frame_read (frame_reader_new [(0, Arrived [123]), (1, Arrived [125, 10])] 0 4 100 9 9)) =
     Finished (Ok (Some \<lparr>frame_bytes = concat [[123], [125]], frame_permit = 4\<rparr>))"
  by (rule frame_roundtrip [where transport = "\<lambda>_. Some (Ok ())" and max_bytes = 2 and budget = 5 and
        written = "[[123, 125], [10]]"])
     (simp_all add: write_json_def capped_write_def prompt_def frame_reader_new_def Let_def)

end
