(* ===== verification/Search_Query.thy ===== *)
theory Search_Query
  imports Rust_Text
begin

text \<open>
  The search-query language: the syntax of \<open>crates/domain/src/search_query.rs\<close> and the parser of
  \<open>crates/normalization/src/search_query.rs\<close>.

  The scanner's offset is kept as the split of the input into the text before it and the text from
  it on, so \<open>input[..offset]\<close> is \<open>sc_done\<close>, \<open>input[offset..]\<close> is \<open>sc_rest\<close> and the offset is the
  byte length of the former.  The one slice at computed offsets, in \<open>reject_shorthand\<close>, can panic
  and does so as \<open>Panic\<close>.  The recursive descent takes fuel: \<open>Fuel\<close> is the answer of a parser that
  ran out of it, and is proved never to be given by \<open>parse\<close>.  \<open>char::is_alphanumeric\<close> is the
  parameter \<open>alnum\<close>.
\<close>

section \<open>Syntax\<close>

definition MAX_QUERY_BYTES :: nat where "MAX_QUERY_BYTES = 4096"
definition MAX_QUERY_NODES :: nat where "MAX_QUERY_NODES = 256"
definition MAX_QUERY_NESTING :: nat where "MAX_QUERY_NESTING = 32"
definition MAX_QUERY_FIELDS :: nat where "MAX_QUERY_FIELDS = 64"
definition MAX_QUERY_FIELD_BYTES :: nat where "MAX_QUERY_FIELD_BYTES = 64"

record byte_span =
  bs_start :: nat
  bs_end :: nat

datatype group_origin = Parentheses | SingleQuotes

datatype expr = Expr (e_span: byte_span) (e_kind: expr_kind)
and expr_kind =
    EMatchAll
  | ETerm rstr
  | EExact rstr
  | EPrefix rstr
  | ENot expr
  | EAnd "expr list"
  | EOr "expr list"
  | EField rstr expr
  | EGroup group_origin expr

record parsed_query =
  pq_source :: rstr
  pq_expression :: expr

datatype parse_error_kind =
    InputTooLong
  | TooManyNodes
  | NestingTooDeep
  | ForbiddenControl
  | ExpectedOperand
  | UnexpectedToken
  | MissingSeparator
  | UnclosedParenthesis
  | UnclosedQuote
  | EmptyGroup
  | EmptyPhrase
  | TrailingEscape
  | InvalidWildcard
  | InvalidFieldSyntax
  | FieldShorthand
  | UnknownField
  | NestedField

record parse_error =
  pe_kind :: parse_error_kind
  pe_span :: byte_span

datatype query_config_error = TooManyFields | InvalidFieldName | DuplicateField

section \<open>Configuration\<close>

definition field_char :: "rchar \<Rightarrow> bool" where
  "field_char c \<longleftrightarrow> is_ascii_lowercase c \<or> is_ascii_digit c \<or> c = 95"

definition valid_field :: "rstr \<Rightarrow> bool" where
  "valid_field name \<longleftrightarrow>
     name \<noteq> [] \<and> str_len name \<le> MAX_QUERY_FIELD_BYTES \<and> is_ascii_lowercase (hd name) \<and> list_all field_char name"

fun collect_fields :: "rstr list \<Rightarrow> rstr list \<Rightarrow> (rstr list, query_config_error) result" where
  "collect_fields known [] = Ok known"
| "collect_fields known (name # names) =
     (if \<not> valid_field name then Err InvalidFieldName
      else if name \<in> set known then Err DuplicateField
      else collect_fields (known @ [name]) names)"

definition search_query_processor_new :: "rstr list \<Rightarrow> (rstr list, query_config_error) result" where
  "search_query_processor_new allowed_fields =
     (if MAX_QUERY_FIELDS < length allowed_fields then Err TooManyFields
      else collect_fields [] allowed_fields)"

section \<open>Scanner\<close>

datatype parse_stop = Stop parse_error | Panic | Fuel

definition span :: "nat \<Rightarrow> nat \<Rightarrow> byte_span" where
  "span a b = \<lparr>bs_start = a, bs_end = b\<rparr>"

definition error :: "parse_error_kind \<Rightarrow> byte_span \<Rightarrow> parse_stop" where
  "error k s = Stop \<lparr>pe_kind = k, pe_span = s\<rparr>"

datatype token_kind =
    TTerm rstr
  | TExact rstr
  | TWords "(rstr \<times> byte_span) list"
  | TPrefix rstr
  | TField rstr
  | TAnd
  | TOr
  | TNot
  | TMinus
  | TOpen
  | TClose
  | TEnd

fun starts_operand :: "token_kind \<Rightarrow> bool" where
  "starts_operand (TTerm _) = True"
| "starts_operand (TExact _) = True"
| "starts_operand (TWords _) = True"
| "starts_operand (TPrefix _) = True"
| "starts_operand (TField _) = True"
| "starts_operand TNot = True"
| "starts_operand TMinus = True"
| "starts_operand TOpen = True"
| "starts_operand _ = False"

record token =
  tk_kind :: token_kind
  tk_span :: byte_span

record scanner =
  sc_done :: rstr
  sc_rest :: rstr

definition sc_offset :: "scanner \<Rightarrow> nat" where
  "sc_offset s = str_len (sc_done s)"

text \<open>Whether a quote, with \<open>pre\<close> in front of it and \<open>after\<close> behind it, is an apostrophe.\<close>

definition apostrophe :: "(rchar \<Rightarrow> bool) \<Rightarrow> rstr \<Rightarrow> rstr \<Rightarrow> bool" where
  "apostrophe alnum pre after \<longleftrightarrow>
     pre \<noteq> [] \<and> alnum (last pre) \<and> after \<noteq> [] \<and> alnum (hd after)"

fun skip_whitespace :: "rstr \<Rightarrow> rstr \<Rightarrow> rstr \<times> rstr" where
  "skip_whitespace pre [] = (pre, [])"
| "skip_whitespace pre (ch # rest) =
     (if is_whitespace ch then skip_whitespace (pre @ [ch]) rest else (pre, ch # rest))"

fun word_loop ::
    "(rchar \<Rightarrow> bool) \<Rightarrow> rstr \<Rightarrow> rstr \<Rightarrow> rstr \<Rightarrow> bool \<Rightarrow> nat list
      \<Rightarrow> (scanner \<times> rstr \<times> bool \<times> nat list, parse_stop) result" where
  "word_loop alnum pre [] val esc stars = Ok (\<lparr>sc_done = pre, sc_rest = []\<rparr>, val, esc, stars)"
| "word_loop alnum pre (ch # rest) val esc stars =
     (if is_whitespace ch \<or> ch = 40 \<or> ch = 41 \<or> ch = 34 \<or> (ch = 39 \<and> \<not> apostrophe alnum pre rest)
      then Ok (\<lparr>sc_done = pre, sc_rest = ch # rest\<rparr>, val, esc, stars)
      else if ch = 92 then
        (case rest of
           [] \<Rightarrow> Err (error TrailingEscape (span (str_len pre) (str_len pre + 1)))
         | c # rest' \<Rightarrow> word_loop alnum (pre @ [ch, c]) rest' (val @ [c]) True stars)
      else word_loop alnum (pre @ [ch]) rest (val @ [ch]) esc
             (if ch = 42 then stars @ [str_len val] else stars))"

definition word :: "(rchar \<Rightarrow> bool) \<Rightarrow> scanner \<Rightarrow> (token_kind \<times> scanner, parse_stop) result" where
  "word alnum s =
     and_then (word_loop alnum (sc_done s) (sc_rest s) [] False []) (\<lambda>(s', val, esc, stars).
       if stars \<noteq> [] then
         if length stars \<noteq> 1 \<or> hd stars = 0 \<or> hd stars + 1 \<noteq> str_len val
         then Err (error InvalidWildcard (span (sc_offset s) (sc_offset s')))
         else Ok (TPrefix (butlast val), s')
       else Ok (if \<not> esc \<and> val = lit ''AND'' then TAnd
                else if \<not> esc \<and> val = lit ''OR'' then TOr
                else if \<not> esc \<and> val = lit ''NOT'' then TNot
                else TTerm val, s'))"

definition push_word :: "rstr \<Rightarrow> nat \<Rightarrow> nat \<Rightarrow> (rstr \<times> byte_span) list \<Rightarrow> (rstr \<times> byte_span) list" where
  "push_word val word_start off words = (if val \<noteq> [] then words @ [(val, span word_start off)] else words)"

definition quoted_end ::
    "bool \<Rightarrow> nat \<Rightarrow> scanner \<Rightarrow> rstr \<Rightarrow> (rstr \<times> byte_span) list \<Rightarrow> (token_kind \<times> scanner, parse_stop) result" where
  "quoted_end single start s val words =
     (if single then
        if words = [] then Err (error EmptyGroup (span start (sc_offset s))) else Ok (TWords words, s)
      else if val = [] then Err (error EmptyPhrase (span start (sc_offset s)))
      else Ok (TExact val, s))"

fun quoted_loop ::
    "(rchar \<Rightarrow> bool) \<Rightarrow> bool \<Rightarrow> nat \<Rightarrow> rstr \<Rightarrow> rstr \<Rightarrow> rstr \<Rightarrow> (rstr \<times> byte_span) list \<Rightarrow> nat
      \<Rightarrow> (token_kind \<times> scanner, parse_stop) result" where
  "quoted_loop alnum single start pre [] val words word_start =
     Err (error UnclosedQuote (span start (str_len pre)))"
| "quoted_loop alnum single start pre (ch # rest) val words word_start =
     (if ch = (if single then 39 else 34) \<and> \<not> (single \<and> apostrophe alnum pre rest)
      then quoted_end single start \<lparr>sc_done = pre @ [ch], sc_rest = rest\<rparr> val
             (if single then push_word val word_start (str_len pre) words else words)
      else if single \<and> is_whitespace ch then
        quoted_loop alnum single start (pre @ [ch]) rest []
          (push_word val word_start (str_len pre) words) (str_len (pre @ [ch]))
      else
        let word_start = (if val = [] then str_len pre else word_start) in
        if ch = 92 then
          (case rest of
             [] \<Rightarrow> Err (error TrailingEscape (span (str_len pre) (str_len pre + 1)))
           | c # rest' \<Rightarrow> quoted_loop alnum single start (pre @ [ch, c]) rest' (val @ [c]) words word_start)
        else quoted_loop alnum single start (pre @ [ch]) rest (val @ [ch]) words word_start)"

definition quoted :: "(rchar \<Rightarrow> bool) \<Rightarrow> bool \<Rightarrow> scanner \<Rightarrow> (token_kind \<times> scanner, parse_stop) result" where
  "quoted alnum single s =
     (let pre = sc_done s @ [hd (sc_rest s)] in
      quoted_loop alnum single (sc_offset s) pre (tl (sc_rest s)) [] [] (str_len pre))"

definition name_char :: "rchar \<Rightarrow> bool" where
  "name_char c \<longleftrightarrow> is_ascii_alphanumeric c \<or> c = 95"

definition field :: "scanner \<Rightarrow> (token_kind \<times> scanner, parse_stop) result" where
  "field s =
     (let pre = sc_done s @ take 3 (sc_rest s); rest = drop 3 (sc_rest s);
          name = takeWhile name_char rest; after = dropWhile name_char rest in
      case after of
        ch # after' \<Rightarrow>
          if ch = 58 \<and> valid_field name
          then Ok (TField name, \<lparr>sc_done = pre @ name @ [58], sc_rest = after'\<rparr>)
          else Err (error InvalidFieldSyntax (span (sc_offset s) (str_len (pre @ name))))
      | [] \<Rightarrow> Err (error InvalidFieldSyntax (span (sc_offset s) (str_len (pre @ name)))))"

definition scan_kind :: "(rchar \<Rightarrow> bool) \<Rightarrow> scanner \<Rightarrow> (token_kind \<times> scanner, parse_stop) result" where
  "scan_kind alnum s =
     (case sc_rest s of
        [] \<Rightarrow> Ok (TEnd, s)
      | ch # rest \<Rightarrow>
          let s' = \<lparr>sc_done = sc_done s @ [ch], sc_rest = rest\<rparr> in
          if ch = 40 then Ok (TOpen, s')
          else if ch = 41 then Ok (TClose, s')
          else if ch = 45 then Ok (TMinus, s')
          else if ch = 34 then quoted alnum False s
          else if ch = 39 then quoted alnum True s
          else if starts_with (sc_rest s) (lit ''in:'') then field s
          else word alnum s)"

definition next_token :: "(rchar \<Rightarrow> bool) \<Rightarrow> scanner \<Rightarrow> (token \<times> scanner, parse_stop) result" where
  "next_token alnum s =
     (let (pre, rest) = skip_whitespace (sc_done s) (sc_rest s); s = \<lparr>sc_done = pre, sc_rest = rest\<rparr> in
      and_then (scan_kind alnum s) (\<lambda>(kind, s').
        Ok (\<lparr>tk_kind = kind, tk_span = span (sc_offset s) (sc_offset s')\<rparr>, s')))"

section \<open>Parser\<close>

record parser =
  pr_scanner :: scanner
  pr_lookahead :: "token option"
  pr_nodes :: nat

record grammar =
  gr_alnum :: "rchar \<Rightarrow> bool"
  gr_input :: rstr
  gr_fields :: "rstr list"

definition take_token :: "grammar \<Rightarrow> parser \<Rightarrow> (token \<times> parser, parse_stop) result" where
  "take_token g p =
     (case pr_lookahead p of
        Some t \<Rightarrow> Ok (t, p\<lparr>pr_lookahead := None\<rparr>)
      | None \<Rightarrow> and_then (next_token (gr_alnum g) (pr_scanner p)) (\<lambda>(t, s). Ok (t, p\<lparr>pr_scanner := s\<rparr>)))"

definition peek_token :: "grammar \<Rightarrow> parser \<Rightarrow> (token \<times> parser, parse_stop) result" where
  "peek_token g p = and_then (take_token g p) (\<lambda>(t, p). Ok (t, p\<lparr>pr_lookahead := Some t\<rparr>))"

definition node :: "expr_kind \<Rightarrow> byte_span \<Rightarrow> parser \<Rightarrow> (expr \<times> parser, parse_stop) result" where
  "node kind s p =
     (if MAX_QUERY_NODES \<le> pr_nodes p then Err (error TooManyNodes s)
      else Ok (Expr s kind, p\<lparr>pr_nodes := pr_nodes p + 1\<rparr>))"

definition reject_shorthand :: "grammar \<Rightarrow> byte_span \<Rightarrow> (unit, parse_stop) result" where
  "reject_shorthand g r =
     (case slice (gr_input g) (bs_start r) (bs_end r) of
        None \<Rightarrow> Err Panic
      | Some source \<Rightarrow>
          if list_ex (\<lambda>f. case strip_prefix f source of None \<Rightarrow> False | Some rest \<Rightarrow> starts_with rest [58]) (gr_fields g)
          then Err (error FieldShorthand r) else Ok ())"

definition nested :: "nat \<Rightarrow> byte_span \<Rightarrow> (nat, parse_stop) result" where
  "nested depth s = (if MAX_QUERY_NESTING \<le> depth then Err (error NestingTooDeep s) else Ok (depth + 1))"

definition chain :: "expr list \<Rightarrow> bool \<Rightarrow> byte_span \<Rightarrow> parser \<Rightarrow> (expr \<times> parser, parse_stop) result" where
  "chain expressions is_and s p =
     (if length expressions = 1 then Ok (last expressions, p)
      else node (if is_and then EAnd expressions else EOr expressions) s p)"

fun word_nodes :: "(rstr \<times> byte_span) list \<Rightarrow> parser \<Rightarrow> (expr list \<times> parser, parse_stop) result" where
  "word_nodes [] p = Ok ([], p)"
| "word_nodes ((val, r) # ws) p =
     and_then (node (ETerm val) r p) (\<lambda>(e, p). and_then (word_nodes ws p) (\<lambda>(es, p). Ok (e # es, p)))"

definition words_operand :: "(rstr \<times> byte_span) list \<Rightarrow> token \<Rightarrow> parser \<Rightarrow> (expr \<times> parser, parse_stop) result" where
  "words_operand words t p =
     and_then (word_nodes words p) (\<lambda>(es, p).
       let inner_span = (if words = [] then tk_span t
             else span (bs_start (snd (hd words))) (bs_end (snd (last words)))) in
       and_then (chain es True inner_span p) (\<lambda>(inner, p). node (EGroup SingleQuotes inner) (tk_span t) p))"

text \<open>
  The recursive descent.  \<open>rec\<close> is the call of \<open>operand\<close> with the remaining fuel, which the
  loops share; a call passes the depth and whether a field is in scope.
\<close>

type_synonym descent = "nat \<Rightarrow> bool \<Rightarrow> parser \<Rightarrow> (expr \<times> parser, parse_stop) result"

fun and_loop :: "descent \<Rightarrow> grammar \<Rightarrow> nat \<Rightarrow> nat \<Rightarrow> bool \<Rightarrow> expr list \<Rightarrow> parser \<Rightarrow> (expr list \<times> parser, parse_stop) result" where
  "and_loop rec g 0 depth scoped es p = Err Fuel"
| "and_loop rec g (Suc n) depth scoped es p =
     and_then (peek_token g p) (\<lambda>(t, p).
       if tk_kind t = TAnd then
         and_then (take_token g p) (\<lambda>(_, p).
         and_then (rec depth scoped p) (\<lambda>(e, p). and_loop rec g n depth scoped (es @ [e]) p))
       else if starts_operand (tk_kind t) then
         if bs_start (tk_span t) = bs_end (e_span (last es)) then Err (error MissingSeparator (tk_span t))
         else and_then (rec depth scoped p) (\<lambda>(e, p). and_loop rec g n depth scoped (es @ [e]) p)
       else Ok (es, p))"

definition parse_and :: "descent \<Rightarrow> grammar \<Rightarrow> nat \<Rightarrow> descent" where
  "parse_and rec g n depth scoped p =
     and_then (rec depth scoped p) (\<lambda>(first, p).
     and_then (and_loop rec g n depth scoped [first] p) (\<lambda>(es, p).
       chain es True (span (bs_start (e_span first)) (bs_end (e_span (last es)))) p))"

fun or_loop :: "descent \<Rightarrow> grammar \<Rightarrow> nat \<Rightarrow> nat \<Rightarrow> nat \<Rightarrow> bool \<Rightarrow> expr list \<Rightarrow> parser \<Rightarrow> (expr list \<times> parser, parse_stop) result" where
  "or_loop rec g m 0 depth scoped es p = Err Fuel"
| "or_loop rec g m (Suc n) depth scoped es p =
     and_then (peek_token g p) (\<lambda>(t, p).
       if tk_kind t = TOr then
         and_then (take_token g p) (\<lambda>(_, p).
         and_then (parse_and rec g m depth scoped p) (\<lambda>(e, p). or_loop rec g m n depth scoped (es @ [e]) p))
       else Ok (es, p))"

definition parse_or :: "descent \<Rightarrow> grammar \<Rightarrow> nat \<Rightarrow> descent" where
  "parse_or rec g n depth scoped p =
     and_then (parse_and rec g n depth scoped p) (\<lambda>(first, p).
     and_then (or_loop rec g n n depth scoped [first] p) (\<lambda>(es, p).
       chain es False (span (bs_start (e_span first)) (bs_end (e_span (last es)))) p))"

definition not_operand :: "descent \<Rightarrow> token \<Rightarrow> descent" where
  "not_operand rec t depth scoped p =
     and_then (nested depth (tk_span t)) (\<lambda>inner_depth.
     and_then (rec inner_depth scoped p) (\<lambda>(inner, p).
       node (ENot inner) (span (bs_start (tk_span t)) (bs_end (e_span inner))) p))"

definition field_operand :: "descent \<Rightarrow> grammar \<Rightarrow> token \<Rightarrow> rstr \<Rightarrow> descent" where
  "field_operand rec g t name depth scoped p =
     (if scoped then Err (error NestedField (tk_span t))
      else if name \<notin> set (gr_fields g) then Err (error UnknownField (tk_span t))
      else
        and_then (nested depth (tk_span t)) (\<lambda>inner_depth.
        and_then (peek_token g p) (\<lambda>(u, p).
          if bs_start (tk_span u) \<noteq> bs_end (tk_span t) \<or> \<not> starts_operand (tk_kind u)
          then Err (error InvalidFieldSyntax (tk_span u))
          else
            and_then (rec inner_depth True p) (\<lambda>(inner, p).
              node (EField name inner) (span (bs_start (tk_span t)) (bs_end (e_span inner))) p))))"

definition group_operand :: "descent \<Rightarrow> grammar \<Rightarrow> nat \<Rightarrow> token \<Rightarrow> descent" where
  "group_operand rec g n t depth scoped p =
     and_then (nested depth (tk_span t)) (\<lambda>inner_depth.
     and_then (peek_token g p) (\<lambda>(u, p).
       if tk_kind u = TClose then
         and_then (take_token g p) (\<lambda>(c, p).
           Err (error EmptyGroup (span (bs_start (tk_span t)) (bs_end (tk_span c)))))
       else
         and_then (parse_or rec g n inner_depth scoped p) (\<lambda>(inner, p).
         and_then (take_token g p) (\<lambda>(c, p).
           if tk_kind c \<noteq> TClose then Err (error UnclosedParenthesis (tk_span t))
           else node (EGroup Parentheses inner) (span (bs_start (tk_span t)) (bs_end (tk_span c))) p))))"

definition operand_step :: "descent \<Rightarrow> grammar \<Rightarrow> nat \<Rightarrow> descent" where
  "operand_step rec g n depth scoped p =
     and_then (take_token g p) (\<lambda>(t, p).
       case tk_kind t of
         TTerm val \<Rightarrow> and_then (reject_shorthand g (tk_span t)) (\<lambda>_. node (ETerm val) (tk_span t) p)
       | TPrefix val \<Rightarrow> and_then (reject_shorthand g (tk_span t)) (\<lambda>_. node (EPrefix val) (tk_span t) p)
       | TExact val \<Rightarrow> node (EExact val) (tk_span t) p
       | TNot \<Rightarrow> not_operand rec t depth scoped p
       | TMinus \<Rightarrow> not_operand rec t depth scoped p
       | TField name \<Rightarrow> field_operand rec g t name depth scoped p
       | TOpen \<Rightarrow> group_operand rec g n t depth scoped p
       | TWords words \<Rightarrow> and_then (nested depth (tk_span t)) (\<lambda>_. words_operand words t p)
       | _ \<Rightarrow> Err (error ExpectedOperand (tk_span t)))"

primrec operand :: "nat \<Rightarrow> grammar \<Rightarrow> descent" where
  "operand 0 g = (\<lambda>_ _ _. Err Fuel)"
| "operand (Suc n) g = operand_step (operand n g) g n"

fun find_control :: "nat \<Rightarrow> rstr \<Rightarrow> byte_span option" where
  "find_control off [] = None"
| "find_control off (ch # rest) =
     (if is_control ch then Some (span off (off + len_utf8 ch)) else find_control (off + len_utf8 ch) rest)"

definition parse_fuel :: "rstr \<Rightarrow> nat" where
  "parse_fuel input = str_len input + 1"

definition parse :: "(rchar \<Rightarrow> bool) \<Rightarrow> rstr list \<Rightarrow> rstr \<Rightarrow> (parsed_query, parse_stop) result" where
  "parse alnum known input =
     (if MAX_QUERY_BYTES < str_len input then Err (error InputTooLong (span 0 (str_len input)))
      else case find_control 0 input of
        Some r \<Rightarrow> Err (error ForbiddenControl r)
      | None \<Rightarrow>
          let g = \<lparr>gr_alnum = alnum, gr_input = input, gr_fields = known\<rparr>;
              p = \<lparr>pr_scanner = \<lparr>sc_done = [], sc_rest = input\<rparr>, pr_lookahead = None, pr_nodes = 0\<rparr> in
          and_then (peek_token g p) (\<lambda>(t, p).
          and_then
            (if tk_kind t = TEnd then node EMatchAll (span 0 (str_len input)) p
             else
               and_then (parse_or (operand (parse_fuel input) g) g (parse_fuel input) 0 False p) (\<lambda>(e, p).
               and_then (peek_token g p) (\<lambda>(u, p).
                 if tk_kind u \<noteq> TEnd then Err (error UnexpectedToken (tk_span u)) else Ok (e, p))))
            (\<lambda>(e, p). Ok \<lparr>pq_source = input, pq_expression = e\<rparr>)))"

end
