(* ===== verification/Search_Query_Safety.thy ===== *)
theory Search_Query_Safety
  imports Search_Query
begin

text \<open>
  What the search-query parser guarantees: it always answers, its answers are well-formed
  expressions within the limits, and every byte span, also of an error, is a proper slice of the
  query.
\<close>

section \<open>Spans and tokens\<close>

definition span_ok :: "rstr \<Rightarrow> byte_span \<Rightarrow> bool" where
  "span_ok input r \<longleftrightarrow> bs_start r \<le> bs_end r \<and> is_char_boundary input (bs_start r) \<and> is_char_boundary input (bs_end r)"

definition scanner_ok :: "rstr \<Rightarrow> scanner \<Rightarrow> bool" where
  "scanner_ok input s \<longleftrightarrow> sc_done s @ sc_rest s = input"

fun stop_ok :: "rstr \<Rightarrow> parse_stop \<Rightarrow> bool" where
  "stop_ok input (Stop e) = span_ok input (pe_span e)"
| "stop_ok input Panic = False"
| "stop_ok input Fuel = True"

text \<open>Word spans lie one after the other inside a range.\<close>

fun words_ok :: "rstr \<Rightarrow> nat \<Rightarrow> (rstr \<times> byte_span) list \<Rightarrow> nat \<Rightarrow> bool" where
  "words_ok input a [] b \<longleftrightarrow> a \<le> b"
| "words_ok input a ((_, r) # ws) b \<longleftrightarrow>
     a \<le> bs_start r \<and> bs_start r < bs_end r \<and> span_ok input r \<and> words_ok input (bs_end r) ws b"

definition token_ok :: "rstr \<Rightarrow> token \<Rightarrow> bool" where
  "token_ok input t \<longleftrightarrow> span_ok input (tk_span t) \<and>
     (tk_kind t \<noteq> TEnd \<longrightarrow> bs_start (tk_span t) < bs_end (tk_span t)) \<and>
     (\<forall>ws. tk_kind t = TWords ws \<longrightarrow> ws \<noteq> [] \<and> words_ok input (bs_start (tk_span t)) ws (bs_end (tk_span t)))"

lemma span_simps [simp]: "bs_start (span a b) = a" "bs_end (span a b) = b"
  by (simp_all add: span_def)

lemma stop_ok_error [simp]: "stop_ok input (error k r) = span_ok input r"
  by (simp add: error_def)

lemma error_neq [simp]: "error k r \<noteq> Fuel" "error k r \<noteq> Panic"
  by (simp_all add: error_def)

lemma boundary_pre [simp]: "is_char_boundary (a @ b) (str_len a)"
  unfolding char_boundary_iff by blast

lemma boundary_pre2 [simp]: "is_char_boundary (a @ b @ c) (str_len a + str_len b)"
  using boundary_pre [of "a @ b" c] by simp

lemma words_ok_snoc:
  "words_ok input a ws b \<Longrightarrow> b \<le> bs_start r \<Longrightarrow> bs_start r < bs_end r \<Longrightarrow> span_ok input r \<Longrightarrow> bs_end r \<le> c \<Longrightarrow>
     words_ok input a (ws @ [(v, r)]) c"
  by (induction input a ws b rule: words_ok.induct) auto

lemma words_ok_mono: "words_ok input a ws b \<Longrightarrow> b \<le> c \<Longrightarrow> words_ok input a ws c"
  by (induction input a ws b rule: words_ok.induct) auto

lemma words_ok_lower: "words_ok input a ws b \<Longrightarrow> c \<le> a \<Longrightarrow> words_ok input c ws b"
  by (cases ws) auto

lemma skip_whitespace_append: "skip_whitespace pre rest = (pre', rest') \<Longrightarrow> \<exists>ws. pre' = pre @ ws \<and> rest = ws @ rest' \<and> list_all is_whitespace ws \<and> (rest' = [] \<or> \<not> is_whitespace (hd rest'))"
  by (induction pre rest rule: skip_whitespace.induct) (fastforce split: if_splits)+

text \<open>What a scanning function returns: more of the input is behind it.\<close>

definition scanned :: "rstr \<Rightarrow> rstr \<Rightarrow> ('a \<Rightarrow> scanner) \<Rightarrow> ('a, parse_stop) result \<Rightarrow> bool" where
  "scanned input pre f r \<longleftrightarrow>
     (case r of
        Inl e \<Rightarrow> stop_ok input e \<and> e \<noteq> Fuel
      | Inr x \<Rightarrow> scanner_ok input (f x) \<and> (\<exists>c. sc_done (f x) = pre @ c))"

lemma scanned_simps [simp]:
  "scanned input pre f (Inl e) \<longleftrightarrow> stop_ok input e \<and> e \<noteq> Fuel"
  "scanned input pre f (Inr x) \<longleftrightarrow> scanner_ok input (f x) \<and> (\<exists>c. sc_done (f x) = pre @ c)"
  by (simp_all add: scanned_def)

lemma scanned_mono: "scanned input (pre @ c) f r \<Longrightarrow> scanned input pre f r"
  by (cases r) auto

lemma escape_span: "pre @ 92 # rest = input \<Longrightarrow> span_ok input (span (str_len pre) (str_len pre + 1))"
  using boundary_pre [of pre "92 # rest"] boundary_pre [of "pre @ [92]" rest]
  by (auto simp: span_ok_def len_utf8_def)

lemma word_loop_ok: "pre @ rest = input \<Longrightarrow> scanned input pre fst (word_loop alnum pre rest val esc stars)"
proof (induction alnum pre rest val esc stars rule: word_loop.induct)
  case (2 alnum pre ch rest val esc stars)
  let ?stop = "is_whitespace ch \<or> ch = 40 \<or> ch = 41 \<or> ch = 34 \<or> (ch = 39 \<and> \<not> apostrophe alnum pre rest)"
  consider "?stop" | "\<not> ?stop" "ch = 92" "rest = []" | c rest' where "\<not> ?stop" "ch = 92" "rest = c # rest'" | "\<not> ?stop" "ch \<noteq> 92"
    by (cases rest) auto
  then show ?case
  proof cases
    case 1
    with "2.prems" show ?thesis by (simp add: scanner_ok_def)
  next
    case 2
    with "2.prems" escape_span [of pre rest input] show ?thesis by simp
  next
    case 3
    with "2.prems" "2.IH"(1) [of c rest'] show ?thesis by (auto intro: scanned_mono)
  next
    case 4
    with "2.prems" "2.IH"(2) show ?thesis by (auto intro: scanned_mono)
  qed
qed (simp add: scanner_ok_def)

definition kind_ok :: "rstr \<Rightarrow> nat \<Rightarrow> (token_kind \<times> scanner, parse_stop) result \<Rightarrow> bool" where
  "kind_ok input start r \<longleftrightarrow>
     (case r of
        Inl _ \<Rightarrow> True
      | Inr (k, s') \<Rightarrow> k \<noteq> TEnd \<and> (\<forall>ws. k = TWords ws \<longrightarrow> ws \<noteq> [] \<and> words_ok input start ws (sc_offset s')))"

lemma scanner_boundary: "scanner_ok input s \<Longrightarrow> is_char_boundary input (sc_offset s)"
  unfolding scanner_ok_def sc_offset_def by (metis boundary_pre)

lemma kind_ok_Inl [simp]: "kind_ok input start (Inl e)"
  by (simp add: kind_ok_def)

definition word_inv :: "rstr \<Rightarrow> nat \<Rightarrow> rstr \<Rightarrow> rstr \<Rightarrow> (rstr \<times> byte_span) list \<Rightarrow> nat \<Rightarrow> bool" where
  "word_inv input start pre val words word_start \<longleftrightarrow>
     (if val = [] then words_ok input start words (str_len pre)
      else words_ok input start words word_start \<and> word_start < str_len pre \<and> is_char_boundary input word_start)"

lemma push_word_ok:
  assumes "word_inv input start pre val words word_start" "is_char_boundary input (str_len pre)"
  shows "words_ok input start (push_word val word_start (str_len pre) words) (str_len pre)"
  using assms by (auto simp: push_word_def word_inv_def span_ok_def intro: words_ok_snoc)

lemma word_inv_push:
  assumes "word_inv input start pre val words word_start" "is_char_boundary input (str_len pre)" "str_len pre < str_len pre'"
  shows "word_inv input start pre' (val @ [c]) words (if val = [] then str_len pre else word_start)"
  using assms by (auto simp: word_inv_def)

lemma quoted_loop_ok:
  assumes "pre @ rest = input" "is_char_boundary input start" "start \<le> str_len pre"
    "word_inv input start pre val words word_start"
  shows "scanned input pre snd (quoted_loop alnum single start pre rest val words word_start) \<and>
    kind_ok input start (quoted_loop alnum single start pre rest val words word_start)"
  using assms
proof (induction alnum single start pre rest val words word_start rule: quoted_loop.induct)
  case (1 alnum single start pre val words word_start)
  then show ?case by (auto simp: span_ok_def)
next
  case (2 alnum single start pre ch rest val words word_start)
  let ?close = "ch = (if single then 39 else 34) \<and> \<not> (single \<and> apostrophe alnum pre rest)"
  let ?ws = "if val = [] then str_len pre else word_start"
  have b: "is_char_boundary input (str_len pre)" "is_char_boundary input (str_len (pre @ [ch]))"
    using "2.prems"(1) boundary_pre [of pre "ch # rest"] boundary_pre [of "pre @ [ch]" rest] by auto
  have push: "words_ok input start (push_word val word_start (str_len pre) words) (str_len pre)"
    by (rule push_word_ok [OF "2.prems"(4) b(1)])
  consider "?close" | "\<not> ?close" "single" "is_whitespace ch" | "\<not> ?close" "\<not> (single \<and> is_whitespace ch)" "ch = 92" "rest = []"
    | c rest' where "\<not> ?close" "\<not> (single \<and> is_whitespace ch)" "ch = 92" "rest = c # rest'"
    | "\<not> ?close" "\<not> (single \<and> is_whitespace ch)" "ch \<noteq> 92"
    by (cases ?close; cases "single \<and> is_whitespace ch"; cases "ch = 92"; cases rest) blast+
  then show ?case
  proof cases
    case 1
    let ?s = "\<lparr>sc_done = pre @ [ch], sc_rest = rest\<rparr>"
    have off: "sc_offset ?s = str_len (pre @ [ch])" by (simp add: sc_offset_def)
    have sp: "span_ok input (span start (sc_offset ?s))"
      using b "2.prems"(2,3) unfolding off by (simp add: span_ok_def)
    have s: "scanner_ok input ?s" using "2.prems"(1) by (simp add: scanner_ok_def)
    have w: "words_ok input start (push_word val word_start (str_len pre) words) (sc_offset ?s)"
      using push by (rule words_ok_mono) (simp add: off)
    from 1 sp s w show ?thesis
      by (auto simp: quoted_end_def kind_ok_def)
  next
    case 2
    have "word_inv input start (pre @ [ch]) [] (push_word val word_start (str_len pre) words) (str_len (pre @ [ch]))"
      using push by (auto simp: word_inv_def intro: words_ok_mono)
    with 2 "2.prems" "2.IH"(1) show ?thesis by (auto intro: scanned_mono)
  next
    case 3
    with "2.prems" escape_span [of pre rest input] show ?thesis by (auto simp: Let_def)
  next
    case 4
    have "word_inv input start (pre @ [ch, c]) (val @ [c]) words ?ws"
      by (rule word_inv_push [OF "2.prems"(4) b(1)]) simp
    with 4 "2.prems" "2.IH"(2) [of ?ws c rest'] show ?thesis by (auto simp: Let_def intro: scanned_mono)
  next
    case 5
    have "word_inv input start (pre @ [ch]) (val @ [ch]) words ?ws"
      by (rule word_inv_push [OF "2.prems"(4) b(1)]) simp
    with 5 "2.prems" "2.IH"(3) [of ?ws] show ?thesis by (auto simp: Let_def intro: scanned_mono)
  qed
qed

definition scan_ok :: "rstr \<Rightarrow> scanner \<Rightarrow> (token_kind \<times> scanner, parse_stop) result \<Rightarrow> bool" where
  "scan_ok input s r \<longleftrightarrow> scanned input (sc_done s @ [hd (sc_rest s)]) snd r \<and> kind_ok input (sc_offset s) r"

lemma quoted_ok:
  assumes "scanner_ok input s" "sc_rest s = ch # rest"
  shows "scan_ok input s (quoted alnum single s)"
proof -
  let ?pre = "sc_done s @ [ch]"
  have input: "input = ?pre @ rest" "input = sc_done s @ ch # rest" using assms by (auto simp: scanner_ok_def)
  have b: "is_char_boundary input (sc_offset s)"
    unfolding input(2) sc_offset_def by (rule boundary_pre)
  have "scanned input ?pre snd (quoted alnum single s) \<and> kind_ok input (sc_offset s) (quoted alnum single s)"
    unfolding quoted_def Let_def assms(2) list.sel
    by (rule quoted_loop_ok) (use input b in \<open>auto simp: word_inv_def sc_offset_def\<close>)
  then show ?thesis unfolding scan_ok_def assms(2) list.sel .
qed

lemma field_ok:
  assumes "scanner_ok input s" "sc_rest s = ch # rest" "starts_with (sc_rest s) (lit ''in:'')"
  shows "scan_ok input s (field s)"
proof -
  let ?pre = "sc_done s @ take 3 (sc_rest s)" and ?rest = "drop 3 (sc_rest s)"
  let ?name = "takeWhile name_char ?rest" and ?after = "dropWhile name_char ?rest"
  have input: "input = (?pre @ ?name) @ ?after" using assms(1) by (simp add: scanner_ok_def)
  have ext: "?pre @ ?name @ x = (sc_done s @ [ch]) @ take 2 rest @ ?name @ x" for x
    using assms(2) by (simp add: numeral_3_eq_3 numeral_2_eq_2)
  have b: "is_char_boundary input (sc_offset s)" "is_char_boundary input (str_len (?pre @ ?name))"
    using assms(1) boundary_pre [of "sc_done s" "sc_rest s"] boundary_pre [of "?pre @ ?name" ?after] input
    by (auto simp: scanner_ok_def sc_offset_def)
  have sp: "span_ok input (span (sc_offset s) (str_len (?pre @ ?name)))"
    using b by (simp add: span_ok_def sc_offset_def)
  have ok: "scanner_ok input \<lparr>sc_done = ?pre @ ?name @ [58], sc_rest = after'\<rparr>" if "?after = 58 # after'" for after'
    using input that by (simp add: scanner_ok_def)
  show ?thesis
  proof (cases "\<exists>after'. ?after = 58 # after' \<and> valid_field ?name")
    case True
    then obtain after' where a: "?after = 58 # after'" "valid_field ?name" by blast
    then have "field s = Ok (TField ?name, \<lparr>sc_done = ?pre @ ?name @ [58], sc_rest = after'\<rparr>)"
      by (simp add: field_def Let_def)
    with ok [OF a(1)] ext [of "[58]"] assms(2) show ?thesis by (simp add: scan_ok_def kind_ok_def)
  next
    case False
    then have "field s = Err (error InvalidFieldSyntax (span (sc_offset s) (str_len (?pre @ ?name))))"
      by (auto simp: field_def Let_def split: list.splits)
    with sp show ?thesis by (simp add: scan_ok_def)
  qed
qed

lemma word_ok:
  assumes "scanner_ok input s" "sc_rest s = ch # rest" "\<not> is_whitespace ch" "ch \<notin> {40, 41, 34, 39}"
  shows "scan_ok input s (word alnum s)"
proof -
  have input: "(sc_done s @ [ch]) @ rest = input" using assms(1,2) by (simp add: scanner_ok_def)
  let ?l = "word_loop alnum (sc_done s) (sc_rest s) [] False []"
  have "scanned input (sc_done s @ [ch]) fst ?l"
  proof (cases "ch = 92")
    case False
    with assms(2-4) word_loop_ok [OF input] show ?thesis by simp
  next
    case True
    show ?thesis
    proof (cases rest)
      case Nil
      with True assms(2-4) input escape_span [of "sc_done s" rest input] show ?thesis by simp
    next
      case (Cons c rest')
      then have "(sc_done s @ [ch, c]) @ rest' = input" using input by simp
      from word_loop_ok [OF this] have "scanned input ((sc_done s @ [ch]) @ [c]) fst
          (word_loop alnum (sc_done s @ [ch, c]) rest' [c] True [])" by simp
      from scanned_mono [OF this] True Cons assms(2-4) show ?thesis by simp
    qed
  qed
  then show ?thesis
  proof (cases ?l)
    case (Inr x)
    obtain s' val esc stars where x: "x = (s', val, esc, stars)" by (cases x) auto
    with \<open>scanned input (sc_done s @ [ch]) fst ?l\<close> Inr obtain c where
      s': "scanner_ok input s'" "sc_done s' = sc_done s @ ch # c" by auto
    have "is_char_boundary input (sc_offset s)" "is_char_boundary input (sc_offset s')"
      using assms(1) s'(1) by (simp_all add: scanner_boundary)
    then have "span_ok input (span (sc_offset s) (sc_offset s'))"
      using s'(2) by (simp add: span_ok_def sc_offset_def)
    with Inr x s' assms(2) show ?thesis by (auto simp: word_def scan_ok_def kind_ok_def)
  qed (auto simp: word_def scan_ok_def)
qed

lemma scan_kind_ok:
  assumes "scanner_ok input s" "sc_rest s = ch # rest" "\<not> is_whitespace ch"
  shows "scan_ok input s (scan_kind alnum s)"
  using assms quoted_ok [OF assms(1,2)] field_ok [OF assms(1,2)] word_ok [OF assms]
  by (auto simp: scan_kind_def Let_def scan_ok_def kind_ok_def scanner_ok_def)

text \<open>A token and the parser's place.\<close>

lemma next_token_ok:
  assumes "scanner_ok input s"
  shows "case next_token alnum s of
      Inl e \<Rightarrow> stop_ok input e \<and> e \<noteq> Fuel
    | Inr (t, s') \<Rightarrow> scanner_ok input s' \<and> token_ok input t \<and> sc_offset s \<le> bs_start (tk_span t) \<and>
        bs_end (tk_span t) = sc_offset s' \<and> (tk_kind t = TEnd \<longrightarrow> sc_rest s' = [])"
proof -
  obtain pre rest where sk: "skip_whitespace (sc_done s) (sc_rest s) = (pre, rest)" by force
  then obtain ws where ws: "pre = sc_done s @ ws" "sc_rest s = ws @ rest" "rest = [] \<or> \<not> is_whitespace (hd rest)"
    using skip_whitespace_append by blast
  let ?s = "\<lparr>sc_done = pre, sc_rest = rest\<rparr>"
  have ok: "scanner_ok input ?s" using assms ws by (simp add: scanner_ok_def)
  have off: "sc_offset s \<le> sc_offset ?s" using ws by (simp add: sc_offset_def)
  have b: "is_char_boundary input (sc_offset ?s)" using ok by (rule scanner_boundary)
  show ?thesis
  proof (cases rest)
    case Nil
    with sk ok off b show ?thesis by (simp add: next_token_def Let_def scan_kind_def token_ok_def span_ok_def)
  next
    case (Cons ch rest')
    with scan_kind_ok [OF ok] ws(3) have k: "scan_ok input ?s (scan_kind alnum ?s)" by simp
    show ?thesis
    proof (cases "scan_kind alnum ?s")
      case (Inl e)
      with k sk show ?thesis by (simp add: next_token_def Let_def scan_ok_def)
    next
      case (Inr x)
      obtain kind s' where x: "x = (kind, s')" by force
      from k Inr x Cons have s': "scanner_ok input s'" "kind \<noteq> TEnd" "sc_offset ?s < sc_offset s'"
        and w: "\<And>ws. kind = TWords ws \<Longrightarrow> ws \<noteq> [] \<and> words_ok input (sc_offset ?s) ws (sc_offset s')"
        by (auto simp: scan_ok_def kind_ok_def sc_offset_def)
      have "is_char_boundary input (sc_offset s')" using s'(1) by (rule scanner_boundary)
      with sk Inr x s' w b off show ?thesis by (simp add: next_token_def Let_def token_ok_def span_ok_def)
    qed
  qed
qed

section \<open>Well-formed expressions\<close>

text \<open>The operands of a chain lie one after the other and fill its span.\<close>

fun in_order :: "nat \<Rightarrow> expr list \<Rightarrow> nat \<Rightarrow> bool" where
  "in_order a [] b \<longleftrightarrow> a \<le> b"
| "in_order a (e # es) b \<longleftrightarrow> a \<le> bs_start (e_span e) \<and> in_order (bs_end (e_span e)) es b"

definition chain_ok :: "byte_span \<Rightarrow> expr list \<Rightarrow> bool" where
  "chain_ok s es \<longleftrightarrow> es \<noteq> [] \<and> bs_start s = bs_start (e_span (hd es)) \<and> bs_end s = bs_end (e_span (last es)) \<and>
     in_order (bs_start s) es (bs_end s)"

definition inside :: "byte_span \<Rightarrow> byte_span \<Rightarrow> bool" where
  "inside r s \<longleftrightarrow> bs_start s \<le> bs_start r \<and> bs_end r \<le> bs_end s"

text \<open>\<open>expr_wf g depth scoped e\<close>: a parsed expression at a nesting depth, inside a field or not.\<close>

fun expr_wf :: "grammar \<Rightarrow> nat \<Rightarrow> bool \<Rightarrow> expr \<Rightarrow> bool" where
  "expr_wf g depth scoped (Expr s k) \<longleftrightarrow>
     span_ok (gr_input g) s \<and> bs_start s < bs_end s \<and>
     (case k of
        EMatchAll \<Rightarrow> False
      | ETerm _ \<Rightarrow> True
      | EExact _ \<Rightarrow> True
      | EPrefix _ \<Rightarrow> True
      | ENot e \<Rightarrow> depth < MAX_QUERY_NESTING \<and> inside (e_span e) s \<and> expr_wf g (depth + 1) scoped e
      | EAnd es \<Rightarrow> 2 \<le> length es \<and> chain_ok s es \<and> (\<forall>e \<in> set es. expr_wf g depth scoped e)
      | EOr es \<Rightarrow> 2 \<le> length es \<and> chain_ok s es \<and> (\<forall>e \<in> set es. expr_wf g depth scoped e)
      | EField name e \<Rightarrow> depth < MAX_QUERY_NESTING \<and> \<not> scoped \<and> name \<in> set (gr_fields g) \<and>
          inside (e_span e) s \<and> expr_wf g (depth + 1) True e
      | EGroup _ e \<Rightarrow> depth < MAX_QUERY_NESTING \<and> inside (e_span e) s \<and> expr_wf g (depth + 1) scoped e)"

fun expr_nodes :: "expr \<Rightarrow> nat" where
  "expr_nodes (Expr s k) = 1 +
     (case k of
        ENot e \<Rightarrow> expr_nodes e
      | EAnd es \<Rightarrow> sum_list (map expr_nodes es)
      | EOr es \<Rightarrow> sum_list (map expr_nodes es)
      | EField _ e \<Rightarrow> expr_nodes e
      | EGroup _ e \<Rightarrow> expr_nodes e
      | _ \<Rightarrow> 0)"

lemma expr_wf_span: "expr_wf g d sc e \<Longrightarrow> span_ok (gr_input g) (e_span e) \<and> bs_start (e_span e) < bs_end (e_span e)"
  by (cases e) simp

lemma in_order_snoc:
  "in_order a es b \<Longrightarrow> b \<le> bs_start (e_span e) \<Longrightarrow> bs_end (e_span e) \<le> c \<Longrightarrow> in_order a (es @ [e]) c"
  by (induction a es b rule: in_order.induct) auto

lemma in_order_upper: "in_order a es b \<Longrightarrow> b \<le> c \<Longrightarrow> in_order a es c"
  by (induction a es b rule: in_order.induct) auto

lemma in_order_last: "in_order a es b \<Longrightarrow> es \<noteq> [] \<Longrightarrow> in_order a es (bs_end (e_span (last es)))"
proof (induction a es b rule: in_order.induct)
  case (2 a e es b)
  then show ?case by (cases es) auto
qed simp

lemma in_order_last_le: "in_order a es b \<Longrightarrow> es \<noteq> [] \<Longrightarrow> bs_end (e_span (last es)) \<le> b"
  by (induction a es b rule: in_order.induct) (auto split: if_splits)

lemma in_order_le: "in_order a es b \<Longrightarrow> \<forall>e \<in> set es. expr_wf g d sc e \<Longrightarrow> a \<le> b"
proof (induction a es b rule: in_order.induct)
  case (2 a e es b)
  then show ?case using expr_wf_span [of g d sc e] by auto
qed simp

section \<open>Parser states\<close>

definition parser_ok :: "grammar \<Rightarrow> parser \<Rightarrow> bool" where
  "parser_ok g p \<longleftrightarrow> scanner_ok (gr_input g) (pr_scanner p) \<and> pr_nodes p \<le> MAX_QUERY_NODES \<and>
     (\<forall>t. pr_lookahead p = Some t \<longrightarrow>
        token_ok (gr_input g) t \<and> bs_end (tk_span t) = sc_offset (pr_scanner p) \<and>
        (tk_kind t = TEnd \<longrightarrow> sc_rest (pr_scanner p) = []))"

definition place :: "parser \<Rightarrow> nat" where
  "place p = (case pr_lookahead p of None \<Rightarrow> sc_offset (pr_scanner p) | Some t \<Rightarrow> bs_start (tk_span t))"

lemma place_le: "parser_ok g p \<Longrightarrow> place p \<le> str_len (gr_input g)"
  by (cases "pr_lookahead p")
    (auto simp: parser_ok_def place_def token_ok_def span_ok_def intro: char_boundary_le scanner_boundary)

definition took :: "grammar \<Rightarrow> parser \<Rightarrow> token \<Rightarrow> parser \<Rightarrow> bool" where
  "took g p t p' \<longleftrightarrow> parser_ok g p' \<and> token_ok (gr_input g) t \<and> place p \<le> bs_start (tk_span t) \<and>
     place p' = bs_end (tk_span t) \<and> pr_nodes p' = pr_nodes p \<and> pr_lookahead p' = None \<and>
     (tk_kind t = TEnd \<longrightarrow> sc_rest (pr_scanner p') = [])"

text \<open>\<open>answers g F P r\<close>: a result satisfies \<open>P\<close>, an error has a proper span, and the fuel can
  only be exhausted where \<open>F\<close> holds.\<close>

definition answers :: "grammar \<Rightarrow> bool \<Rightarrow> ('a \<Rightarrow> bool) \<Rightarrow> ('a, parse_stop) result \<Rightarrow> bool" where
  "answers g F P r \<longleftrightarrow> (case r of Inl e \<Rightarrow> stop_ok (gr_input g) e \<and> (e = Fuel \<longrightarrow> F) | Inr x \<Rightarrow> P x)"

lemma answers_simps [simp]:
  "answers g F P (Inr x) \<longleftrightarrow> P x"
  "answers g F P (Inl e) \<longleftrightarrow> stop_ok (gr_input g) e \<and> (e = Fuel \<longrightarrow> F)"
  by (simp_all add: answers_def)

lemma answers_bind:
  assumes "answers g F P m" "\<And>x. P x \<Longrightarrow> answers g F' Q (f x)" "F \<Longrightarrow> F'"
  shows "answers g F' Q (and_then m f)"
  using assms by (cases m) auto

lemma answers_weaken:
  "answers g F P m \<Longrightarrow> (F \<Longrightarrow> F') \<Longrightarrow> (\<And>x. P x \<Longrightarrow> Q x) \<Longrightarrow> answers g F' Q m"
  by (cases m) auto

definition remaining :: "grammar \<Rightarrow> parser \<Rightarrow> nat" where
  "remaining g p = str_len (gr_input g) - place p"

lemma remaining_less: "parser_ok g p' \<Longrightarrow> place p < place p' \<Longrightarrow> remaining g p' < remaining g p"
  using place_le [of g p'] by (auto simp: remaining_def)

lemma take_token_ok:
  assumes "parser_ok g p"
  shows "answers g False (\<lambda>(t, p'). took g p t p') (take_token g p)"
proof (cases "pr_lookahead p")
  case (Some t)
  with assms show ?thesis by (simp add: take_token_def took_def parser_ok_def place_def)
next
  case None
  from assms have "scanner_ok (gr_input g) (pr_scanner p)" by (simp add: parser_ok_def)
  from next_token_ok [OF this, of "gr_alnum g"] None assms show ?thesis
    by (cases "next_token (gr_alnum g) (pr_scanner p)") (auto simp: take_token_def took_def parser_ok_def place_def)
qed

definition peeked :: "grammar \<Rightarrow> parser \<Rightarrow> token \<Rightarrow> parser \<Rightarrow> bool" where
  "peeked g p t p' \<longleftrightarrow> parser_ok g p' \<and> token_ok (gr_input g) t \<and> place p \<le> place p' \<and>
     place p' = bs_start (tk_span t) \<and> pr_nodes p' = pr_nodes p \<and> pr_lookahead p' = Some t"

lemma peek_token_ok:
  assumes "parser_ok g p"
  shows "answers g False (\<lambda>(t, p'). peeked g p t p') (peek_token g p)"
  using take_token_ok [OF assms]
  by (cases "take_token g p") (auto simp: peek_token_def took_def peeked_def parser_ok_def place_def)

lemma tookD:
  assumes "took g p t p'"
  shows "parser_ok g p'" "token_ok (gr_input g) t" "span_ok (gr_input g) (tk_span t)" "place p \<le> bs_start (tk_span t)"
    "place p' = bs_end (tk_span t)" "pr_nodes p' = pr_nodes p" "tk_kind t \<noteq> TEnd \<Longrightarrow> remaining g p' < remaining g p"
    "remaining g p' \<le> remaining g p"
proof -
  show "tk_kind t \<noteq> TEnd \<Longrightarrow> remaining g p' < remaining g p"
    using assms by (intro remaining_less) (auto simp: took_def token_ok_def)
qed (use assms in \<open>auto simp: took_def token_ok_def span_ok_def remaining_def\<close>)

lemma peekedD:
  assumes "peeked g p t p'"
  shows "parser_ok g p'" "span_ok (gr_input g) (tk_span t)" "place p \<le> place p'" "remaining g p' \<le> remaining g p"
  using assms by (auto simp: peeked_def token_ok_def remaining_def)

section \<open>Descents\<close>

definition parsed :: "grammar \<Rightarrow> nat \<Rightarrow> bool \<Rightarrow> parser \<Rightarrow> expr \<Rightarrow> parser \<Rightarrow> bool" where
  "parsed g depth scoped p e p' \<longleftrightarrow> parser_ok g p' \<and> expr_wf g depth scoped e \<and>
     place p \<le> bs_start (e_span e) \<and> bs_end (e_span e) \<le> place p' \<and>
     pr_nodes p' = pr_nodes p + expr_nodes e"

text \<open>A descent with fuel \<open>w\<close> answers where less than \<open>w\<close> bytes remain.\<close>

definition descent_ok :: "grammar \<Rightarrow> nat \<Rightarrow> descent \<Rightarrow> bool" where
  "descent_ok g w rec \<longleftrightarrow> (\<forall>depth scoped p. parser_ok g p \<longrightarrow>
     answers g (w \<le> remaining g p) (\<lambda>(e, p'). parsed g depth scoped p e p') (rec depth scoped p))"

lemma descent_okD:
  "descent_ok g w rec \<Longrightarrow> parser_ok g p \<Longrightarrow>
     answers g (w \<le> remaining g p) (\<lambda>(e, p'). parsed g depth scoped p e p') (rec depth scoped p)"
  by (simp add: descent_ok_def)

lemma parsed_progress: "parsed g depth scoped p e p' \<Longrightarrow> remaining g p' < remaining g p"
  using expr_wf_span [of g depth scoped e] by (intro remaining_less) (auto simp: parsed_def)

lemma node_ok:
  assumes "parser_ok g p" "span_ok (gr_input g) s"
  shows "answers g False (\<lambda>(x, p'). x = Expr s k \<and> parser_ok g p' \<and> place p' = place p \<and> pr_nodes p' = pr_nodes p + 1)
    (node k s p)"
  using assms by (auto simp: node_def parser_ok_def place_def split: option.splits)

lemma node_parsed:
  assumes "parser_ok g p" "expr_wf g depth scoped (Expr s k)" "place p0 \<le> bs_start s" "bs_end s \<le> place p"
    "pr_nodes p + 1 = pr_nodes p0 + expr_nodes (Expr s k)"
  shows "answers g False (\<lambda>(x, p'). parsed g depth scoped p0 x p') (node k s p)"
proof -
  have "span_ok (gr_input g) s" using expr_wf_span [OF assms(2)] by simp
  from node_ok [OF assms(1) this] show ?thesis
    by (rule answers_weaken) (use assms in \<open>auto simp: parsed_def\<close>)
qed

text \<open>The operands collected so far by a loop that started at \<open>p0\<close>.\<close>

definition collected :: "grammar \<Rightarrow> nat \<Rightarrow> bool \<Rightarrow> parser \<Rightarrow> expr list \<Rightarrow> parser \<Rightarrow> bool" where
  "collected g depth scoped p0 es p \<longleftrightarrow> parser_ok g p \<and> es \<noteq> [] \<and> (\<forall>e \<in> set es. expr_wf g depth scoped e) \<and>
     place p0 \<le> bs_start (e_span (hd es)) \<and> in_order (bs_start (e_span (hd es))) es (place p) \<and>
     pr_nodes p = pr_nodes p0 + sum_list (map expr_nodes es)"

lemma collected_one: "parsed g depth scoped p e p' \<Longrightarrow> collected g depth scoped p [e] p'"
  by (auto simp: parsed_def collected_def)

lemma collected_peek:
  "collected g depth scoped p0 es p \<Longrightarrow> peeked g p t p' \<Longrightarrow> collected g depth scoped p0 es p'"
  by (auto simp: collected_def peeked_def intro: in_order_upper)

lemma collected_take:
  assumes "collected g depth scoped p0 es p" "took g p t p'"
  shows "collected g depth scoped p0 es p'"
proof -
  from assms(2) have "place p \<le> place p'" by (auto simp: took_def token_ok_def span_ok_def)
  with assms show ?thesis by (auto simp: collected_def took_def intro: in_order_upper)
qed

lemma collected_snoc:
  assumes "collected g depth scoped p0 es p" "parsed g depth scoped p e p'"
  shows "collected g depth scoped p0 (es @ [e]) p'"
  using assms by (auto simp: collected_def parsed_def intro: in_order_snoc)

lemma collected_chain:
  assumes c: "collected g depth scoped p0 es p"
  shows "answers g False (\<lambda>(x, p'). parsed g depth scoped p0 x p')
    (chain es is_and (span (bs_start (e_span (hd es))) (bs_end (e_span (last es)))) p)"
proof -
  let ?s = "span (bs_start (e_span (hd es))) (bs_end (e_span (last es)))"
  have ne: "es \<noteq> []" and wf: "\<forall>e \<in> set es. expr_wf g depth scoped e" and p: "parser_ok g p"
    and ord: "in_order (bs_start (e_span (hd es))) es (place p)" using c by (auto simp: collected_def)
  obtain e es' where es: "es = e # es'" using ne by (cases es) auto
  have "in_order (bs_end (e_span e)) es' (bs_end (e_span (last es)))"
    using in_order_last [OF ord ne] es by simp
  from in_order_le [OF this, of g depth scoped] wf es expr_wf_span [of g depth scoped e]
  have lt: "bs_start (e_span (hd es)) < bs_end (e_span (last es))" by auto
  have sp: "span_ok (gr_input g) ?s"
    using wf ne lt expr_wf_span [of g depth scoped "hd es"] expr_wf_span [of g depth scoped "last es"]
    by (auto simp: span_ok_def)
  show ?thesis
  proof (cases "length es = 1")
    case True
    with es c show ?thesis by (auto simp: chain_def collected_def parsed_def)
  next
    case False
    with ne have two: "2 \<le> length es" by (cases es) (auto simp: Suc_le_eq)
    let ?k = "if is_and then EAnd es else EOr es"
    have ch: "chain_ok ?s es" using ne in_order_last [OF ord ne] by (simp add: chain_ok_def)
    have "answers g False (\<lambda>(x, p'). parsed g depth scoped p0 x p') (node ?k ?s p)"
      by (rule node_parsed [OF p])
        (use sp lt two ch wf c in_order_last_le [OF ord ne] in \<open>auto simp: collected_def\<close>)
    with False show ?thesis by (simp add: chain_def)
  qed
qed

lemma and_loop_ok:
  assumes "descent_ok g w rec" "collected g depth scoped p0 es p"
  shows "answers g (w \<le> remaining g p \<or> n \<le> remaining g p)
    (\<lambda>(es', p'). collected g depth scoped p0 es' p' \<and> hd es' = hd es) (and_loop rec g n depth scoped es p)"
  using assms(2)
proof (induction n arbitrary: es p)
  case (Suc n)
  have p: "parser_ok g p" and ne: "es \<noteq> []" using Suc.prems by (auto simp: collected_def)
  have more: "answers g (w \<le> remaining g p \<or> Suc n \<le> remaining g p)
      (\<lambda>(es', p'). collected g depth scoped p0 es' p' \<and> hd es' = hd es)
      (and_then (rec depth scoped q) (\<lambda>(e, p). and_loop rec g n depth scoped (es @ [e]) p))"
    if q: "collected g depth scoped p0 es q" "remaining g q \<le> remaining g p" for q
  proof (rule answers_bind [OF descent_okD [OF assms(1)]])
    show "parser_ok g q" using q(1) by (simp add: collected_def)
  next
    fix x
    assume "case x of (e, p') \<Rightarrow> parsed g depth scoped q e p'"
    then obtain e p' where x: "x = (e, p')" "parsed g depth scoped q e p'" by force
    have "answers g (w \<le> remaining g p' \<or> n \<le> remaining g p')
        (\<lambda>(es', p'). collected g depth scoped p0 es' p' \<and> hd es' = hd (es @ [e]))
        (and_loop rec g n depth scoped (es @ [e]) p')"
      by (rule Suc.IH [OF collected_snoc [OF q(1) x(2)]])
    then show "answers g (w \<le> remaining g p \<or> Suc n \<le> remaining g p)
        (\<lambda>(es', p'). collected g depth scoped p0 es' p' \<and> hd es' = hd es)
        (case x of (e, p) \<Rightarrow> and_loop rec g n depth scoped (es @ [e]) p)"
      unfolding x(1) prod.case
      by (rule answers_weaken) (use parsed_progress [OF x(2)] q(2) ne in auto)
  qed (use q(2) in auto)
  show ?case
    unfolding and_loop.simps
  proof (rule answers_bind [OF peek_token_ok [OF p]])
    fix x
    assume "case x of (t, p') \<Rightarrow> peeked g p t p'"
    then obtain t p1 where x: "x = (t, p1)" and pk: "peeked g p t p1" by force
    note c1 = collected_peek [OF Suc.prems pk] and d1 = peekedD [OF pk]
    have and_case: "answers g (w \<le> remaining g p \<or> Suc n \<le> remaining g p)
      (\<lambda>(es', p'). collected g depth scoped p0 es' p' \<and> hd es' = hd es)
      (and_then (take_token g p1) (\<lambda>(_, p).
         and_then (rec depth scoped p) (\<lambda>(e, p). and_loop rec g n depth scoped (es @ [e]) p)))"
    proof (rule answers_bind [OF take_token_ok [OF d1(1)]])
      fix y
      assume "case y of (t, p') \<Rightarrow> took g p1 t p'"
      then obtain u p2 where y: "y = (u, p2)" and tk: "took g p1 u p2" by force
      show "answers g (w \<le> remaining g p \<or> Suc n \<le> remaining g p)
        (\<lambda>(es', p'). collected g depth scoped p0 es' p' \<and> hd es' = hd es)
        (case y of (_, p) \<Rightarrow> and_then (rec depth scoped p) (\<lambda>(e, p). and_loop rec g n depth scoped (es @ [e]) p))"
        unfolding y prod.case
        by (rule more [OF collected_take [OF c1 tk]]) (use tookD(8) [OF tk] d1(4) in simp)
    qed simp
    show "answers g (w \<le> remaining g p \<or> Suc n \<le> remaining g p)
      (\<lambda>(es', p'). collected g depth scoped p0 es' p' \<and> hd es' = hd es)
      (case x of (t, p) \<Rightarrow>
       if tk_kind t = TAnd then
         and_then (take_token g p) (\<lambda>(_, p).
         and_then (rec depth scoped p) (\<lambda>(e, p). and_loop rec g n depth scoped (es @ [e]) p))
       else if starts_operand (tk_kind t) then
         if bs_start (tk_span t) = bs_end (e_span (last es)) then Err (error MissingSeparator (tk_span t))
         else and_then (rec depth scoped p) (\<lambda>(e, p). and_loop rec g n depth scoped (es @ [e]) p)
       else Ok (es, p))"
      unfolding x prod.case using and_case more [OF c1 d1(4)] c1 d1(2) by simp
  qed simp
qed simp

lemma answers_take:
  assumes "parser_ok g p" "\<And>t p'. took g p t p' \<Longrightarrow> answers g F Q (f (t, p'))"
  shows "answers g F Q (and_then (take_token g p) f)"
  by (rule answers_bind [OF take_token_ok [OF assms(1)]]) (use assms(2) in auto)

lemma answers_peek:
  assumes "parser_ok g p" "\<And>t p'. peeked g p t p' \<Longrightarrow> answers g F Q (f (t, p'))"
  shows "answers g F Q (and_then (peek_token g p) f)"
  by (rule answers_bind [OF peek_token_ok [OF assms(1)]]) (use assms(2) in auto)

lemma answers_rec:
  assumes "descent_ok g w rec" "parser_ok g p" "w \<le> remaining g p \<Longrightarrow> F"
    "\<And>e p'. parsed g depth scoped p e p' \<Longrightarrow> answers g F Q (f (e, p'))"
  shows "answers g F Q (and_then (rec depth scoped p) f)"
  by (rule answers_bind [OF descent_okD [OF assms(1,2)]]) (use assms(3,4) in auto)

lemma parse_and_ok:
  assumes "descent_ok g w rec" "w \<le> n"
  shows "descent_ok g w (parse_and rec g n)"
  unfolding descent_ok_def
proof (intro allI impI)
  fix depth scoped p
  assume p: "parser_ok g p"
  show "answers g (w \<le> remaining g p) (\<lambda>(e, p'). parsed g depth scoped p e p') (parse_and rec g n depth scoped p)"
    unfolding parse_and_def
  proof (rule answers_rec [OF assms(1) p])
    fix e p1
    assume e: "parsed g depth scoped p e p1"
    have "answers g (w \<le> remaining g p) (\<lambda>(e, p'). parsed g depth scoped p e p')
       (and_then (and_loop rec g n depth scoped [e] p1) (\<lambda>(es, p).
         chain es True (span (bs_start (e_span e)) (bs_end (e_span (last es)))) p))"
    proof (rule answers_bind [OF and_loop_ok [OF assms(1) collected_one [OF e]]])
      fix x
      assume "case x of (es', p') \<Rightarrow> collected g depth scoped p es' p' \<and> hd es' = hd [e]"
      then obtain es p2 where "x = (es, p2)" "collected g depth scoped p es p2" "hd es = e" by force
      with collected_chain [of g depth scoped p es p2 True]
      show "answers g (w \<le> remaining g p) (\<lambda>(e, p'). parsed g depth scoped p e p')
         (case x of (es, p) \<Rightarrow> chain es True (span (bs_start (e_span e)) (bs_end (e_span (last es)))) p)"
        by (auto intro: answers_weaken)
    qed (use parsed_progress [OF e] assms(2) in auto)
    then show "answers g (w \<le> remaining g p) (\<lambda>(e, p'). parsed g depth scoped p e p')
       (case (e, p1) of (first, p) \<Rightarrow> and_then (and_loop rec g n depth scoped [first] p) (\<lambda>(es, p).
         chain es True (span (bs_start (e_span first)) (bs_end (e_span (last es)))) p))" by simp
  qed
qed

lemma or_loop_ok:
  assumes "descent_ok g w rec" "w \<le> m" "collected g depth scoped p0 es p"
  shows "answers g (w \<le> remaining g p \<or> n \<le> remaining g p)
    (\<lambda>(es', p'). collected g depth scoped p0 es' p' \<and> hd es' = hd es) (or_loop rec g m n depth scoped es p)"
  using assms(3)
proof (induction n arbitrary: es p)
  case (Suc n)
  have p: "parser_ok g p" and ne: "es \<noteq> []" using Suc.prems by (auto simp: collected_def)
  show ?case
    unfolding or_loop.simps
  proof (rule answers_peek [OF p], unfold prod.case)
    fix t p1
    assume pk: "peeked g p t p1"
    note c1 = collected_peek [OF Suc.prems pk] and d1 = peekedD [OF pk]
    have "answers g (w \<le> remaining g p \<or> Suc n \<le> remaining g p)
      (\<lambda>(es', p'). collected g depth scoped p0 es' p' \<and> hd es' = hd es)
      (and_then (take_token g p1) (\<lambda>(_, p).
         and_then (parse_and rec g m depth scoped p) (\<lambda>(e, p). or_loop rec g m n depth scoped (es @ [e]) p)))"
    proof (rule answers_take [OF d1(1)], unfold prod.case)
      fix u p2
      assume tk: "took g p1 u p2"
      show "answers g (w \<le> remaining g p \<or> Suc n \<le> remaining g p)
        (\<lambda>(es', p'). collected g depth scoped p0 es' p' \<and> hd es' = hd es)
        (and_then (parse_and rec g m depth scoped p2) (\<lambda>(e, p). or_loop rec g m n depth scoped (es @ [e]) p))"
      proof (rule answers_rec [OF parse_and_ok [OF assms(1,2)] tookD(1) [OF tk]], unfold prod.case)
        fix e p3
        assume e: "parsed g depth scoped p2 e p3"
        have "hd (es @ [e]) = hd es" using ne by simp
        with Suc.IH [OF collected_snoc [OF collected_take [OF c1 tk] e]]
        show "answers g (w \<le> remaining g p \<or> Suc n \<le> remaining g p)
          (\<lambda>(es', p'). collected g depth scoped p0 es' p' \<and> hd es' = hd es)
          (or_loop rec g m n depth scoped (es @ [e]) p3)"
          by (elim answers_weaken) (use parsed_progress [OF e] tookD(8) [OF tk] d1(4) in auto)
      qed (use tookD(8) [OF tk] d1(4) in auto)
    qed
    with c1 show "answers g (w \<le> remaining g p \<or> Suc n \<le> remaining g p)
      (\<lambda>(es', p'). collected g depth scoped p0 es' p' \<and> hd es' = hd es)
      (if tk_kind t = TOr then and_then (take_token g p1) (\<lambda>(_, p).
         and_then (parse_and rec g m depth scoped p) (\<lambda>(e, p). or_loop rec g m n depth scoped (es @ [e]) p))
       else Ok (es, p1))" by simp
  qed
qed simp

lemma parse_or_ok:
  assumes "descent_ok g w rec" "w \<le> n"
  shows "descent_ok g w (parse_or rec g n)"
  unfolding descent_ok_def
proof (intro allI impI)
  fix depth scoped p
  assume p: "parser_ok g p"
  show "answers g (w \<le> remaining g p) (\<lambda>(e, p'). parsed g depth scoped p e p') (parse_or rec g n depth scoped p)"
    unfolding parse_or_def
  proof (rule answers_rec [OF parse_and_ok [OF assms] p], assumption, unfold prod.case)
    fix e p1
    assume e: "parsed g depth scoped p e p1"
    show "answers g (w \<le> remaining g p) (\<lambda>(e, p'). parsed g depth scoped p e p')
       (and_then (or_loop rec g n n depth scoped [e] p1) (\<lambda>(es, p).
         chain es False (span (bs_start (e_span e)) (bs_end (e_span (last es)))) p))"
    proof (rule answers_bind [OF or_loop_ok [OF assms collected_one [OF e]]])
      fix x
      assume "case x of (es', p') \<Rightarrow> collected g depth scoped p es' p' \<and> hd es' = hd [e]"
      then obtain es p2 where "x = (es, p2)" "collected g depth scoped p es p2" "hd es = e" by force
      with collected_chain [of g depth scoped p es p2 False]
      show "answers g (w \<le> remaining g p) (\<lambda>(e, p'). parsed g depth scoped p e p')
         (case x of (es, p) \<Rightarrow> chain es False (span (bs_start (e_span e)) (bs_end (e_span (last es)))) p)"
        by (auto intro: answers_weaken)
    qed (use parsed_progress [OF e] assms(2) in auto)
  qed
qed

section \<open>Operands\<close>

lemma span_slice: "span_ok input r \<Longrightarrow> \<exists>t. slice input (bs_start r) (bs_end r) = Some t"
proof -
  assume ok: "span_ok input r"
  obtain a b where ab: "input = a @ b" "str_len a = bs_start r"
    using ok unfolding span_ok_def char_boundary_iff by blast
  obtain c d where cd: "input = c @ d" "str_len c = bs_end r"
    using ok unfolding span_ok_def char_boundary_iff by blast
  have i: "input = a @ b" "str_len a = bs_start r" "input = c @ d" "str_len c = bs_end r" "bs_start r \<le> bs_end r"
    using ab cd ok by (auto simp: span_ok_def)
  from i(1,3) obtain us where "a = c @ us \<and> us @ b = d \<or> a @ us = c \<and> b = us @ d"
    by (metis append_eq_append_conv2)
  then have "\<exists>us. c = a @ us"
  proof (elim disjE conjE)
    assume "a = c @ us"
    with i(2,4,5) have "str_len us = 0" by (simp del: str_len_0)
    with \<open>a = c @ us\<close> show ?thesis by simp
  qed auto
  then obtain us where "input = a @ us @ d" "bs_start r + str_len us = bs_end r" using i by auto
  then show ?thesis unfolding slice_Some_iff using i(2) by blast
qed

lemma reject_shorthand_ok:
  "span_ok (gr_input g) r \<Longrightarrow> answers g False (\<lambda>_. True) (reject_shorthand g r)"
  using span_slice [of "gr_input g" r] by (auto simp: reject_shorthand_def split: option.splits)

lemma nested_ok:
  "span_ok (gr_input g) s \<Longrightarrow> answers g False (\<lambda>d. d = depth + 1 \<and> depth < MAX_QUERY_NESTING) (nested depth s)"
  by (simp add: nested_def)

lemma leaf_ok:
  assumes "took g p t p1" "tk_kind t \<noteq> TEnd" "k \<in> {ETerm v, EExact v, EPrefix v}"
  shows "answers g False (\<lambda>(e, p'). parsed g depth scoped p e p') (node k (tk_span t) p1)"
  by (rule node_parsed [OF tookD(1) [OF assms(1)]])
    (use assms tookD [OF assms(1)] in \<open>auto simp: token_ok_def\<close>)

lemma not_operand_ok:
  assumes "descent_ok g n rec" "took g p t p1" "tk_kind t \<noteq> TEnd"
  shows "answers g (Suc n \<le> remaining g p) (\<lambda>(e, p'). parsed g depth scoped p e p') (not_operand rec t depth scoped p1)"
  unfolding not_operand_def
proof (rule answers_bind [OF nested_ok [OF tookD(3) [OF assms(2)]]])
  fix d assume d: "d = depth + 1 \<and> depth < MAX_QUERY_NESTING"
  note tk = tookD [OF assms(2)]
  show "answers g (Suc n \<le> remaining g p) (\<lambda>(e, p'). parsed g depth scoped p e p')
    (and_then (rec d scoped p1) (\<lambda>(inner, p). node (ENot inner) (span (bs_start (tk_span t)) (bs_end (e_span inner))) p))"
  proof (rule answers_rec [OF assms(1) tk(1)], unfold prod.case)
    fix e p2
    assume e: "parsed g d scoped p1 e p2"
    have "answers g False (\<lambda>(e, p'). parsed g depth scoped p e p')
      (node (ENot e) (span (bs_start (tk_span t)) (bs_end (e_span e))) p2)"
    proof (rule node_parsed)
      show "expr_wf g depth scoped (Expr (span (bs_start (tk_span t)) (bs_end (e_span e))) (ENot e))"
        using e d tk(2,3,5) expr_wf_span [of g d scoped e] assms(3)
        by (auto simp: parsed_def inside_def span_ok_def token_ok_def)
    qed (use e tk in \<open>auto simp: parsed_def\<close>)
    then show "answers g (Suc n \<le> remaining g p) (\<lambda>(e, p'). parsed g depth scoped p e p')
      (node (ENot e) (span (bs_start (tk_span t)) (bs_end (e_span e))) p2)"
      by (rule answers_weaken) auto
  qed (use tk(7) [OF assms(3)] in auto)
qed simp

lemma field_operand_ok:
  assumes "descent_ok g n rec" "took g p t p1" "tk_kind t \<noteq> TEnd"
  shows "answers g (Suc n \<le> remaining g p) (\<lambda>(e, p'). parsed g depth scoped p e p')
    (field_operand rec g t name depth scoped p1)"
proof (cases "scoped \<or> name \<notin> set (gr_fields g)")
  case True
  then show ?thesis using tookD(3) [OF assms(2)] by (auto simp: field_operand_def)
next
  case False
  note tk = tookD [OF assms(2)]
  have "answers g (Suc n \<le> remaining g p) (\<lambda>(e, p'). parsed g depth scoped p e p')
    (and_then (nested depth (tk_span t)) (\<lambda>inner_depth.
        and_then (peek_token g p1) (\<lambda>(u, p).
          if bs_start (tk_span u) \<noteq> bs_end (tk_span t) \<or> \<not> starts_operand (tk_kind u)
          then Err (error InvalidFieldSyntax (tk_span u))
          else and_then (rec inner_depth True p) (\<lambda>(inner, p).
              node (EField name inner) (span (bs_start (tk_span t)) (bs_end (e_span inner))) p))))"
  proof (rule answers_bind [OF nested_ok [OF tk(3)]], rule answers_peek [OF tk(1)], unfold prod.case)
    fix d u p2
    assume d: "d = depth + 1 \<and> depth < MAX_QUERY_NESTING" and pk: "peeked g p1 u p2"
    note d2 = peekedD [OF pk]
    have "answers g (Suc n \<le> remaining g p) (\<lambda>(e, p'). parsed g depth scoped p e p')
      (and_then (rec d True p2) (\<lambda>(inner, p).
              node (EField name inner) (span (bs_start (tk_span t)) (bs_end (e_span inner))) p))"
    proof (rule answers_rec [OF assms(1) d2(1)], unfold prod.case)
      fix e p3
      assume e: "parsed g d True p2 e p3"
      have "answers g False (\<lambda>(e, p'). parsed g depth scoped p e p')
        (node (EField name e) (span (bs_start (tk_span t)) (bs_end (e_span e))) p3)"
      proof (rule node_parsed)
        show "expr_wf g depth scoped (Expr (span (bs_start (tk_span t)) (bs_end (e_span e))) (EField name e))"
          using e d tk(2,3,5) d2(3) expr_wf_span [of g d True e] assms(3) False
          by (auto simp: parsed_def inside_def span_ok_def token_ok_def)
        show "pr_nodes p3 + 1 = pr_nodes p + expr_nodes (Expr (span (bs_start (tk_span t)) (bs_end (e_span e))) (EField name e))"
          using e tk(6) pk by (simp add: parsed_def peeked_def)
      qed (use e tk in \<open>auto simp: parsed_def\<close>)
      then show "answers g (Suc n \<le> remaining g p) (\<lambda>(e, p'). parsed g depth scoped p e p')
        (node (EField name e) (span (bs_start (tk_span t)) (bs_end (e_span e))) p3)"
        by (rule answers_weaken) auto
    qed (use tk(7) [OF assms(3)] d2(4) in auto)
    with d2(2) show "answers g (Suc n \<le> remaining g p) (\<lambda>(e, p'). parsed g depth scoped p e p')
      (if bs_start (tk_span u) \<noteq> bs_end (tk_span t) \<or> \<not> starts_operand (tk_kind u)
       then Err (error InvalidFieldSyntax (tk_span u))
       else and_then (rec d True p2) (\<lambda>(inner, p).
              node (EField name inner) (span (bs_start (tk_span t)) (bs_end (e_span inner))) p))" by simp
  qed simp
  with False show ?thesis by (simp add: field_operand_def)
qed

lemma group_operand_ok:
  assumes "descent_ok g n rec" "took g p t p1" "tk_kind t \<noteq> TEnd"
  shows "answers g (Suc n \<le> remaining g p) (\<lambda>(e, p'). parsed g depth scoped p e p')
    (group_operand rec g n t depth scoped p1)"
  unfolding group_operand_def
proof (rule answers_bind [OF nested_ok [OF tookD(3) [OF assms(2)]]], rule answers_peek [OF tookD(1) [OF assms(2)]], unfold prod.case)
  fix d u p2
  assume d: "d = depth + 1 \<and> depth < MAX_QUERY_NESTING" and pk: "peeked g p1 u p2"
  note d2 = peekedD [OF pk] and tk = tookD [OF assms(2)]
  have sp: "span_ok (gr_input g) (span (bs_start (tk_span t)) (bs_end (tk_span c)))"
    if "took g q c q'" "place p1 \<le> place q" for c q q'
    using tk(3,5) tookD(3,4,5) [OF that(1)] that(2) by (auto simp: span_ok_def)
  have empty: "answers g (Suc n \<le> remaining g p) (\<lambda>(e, p'). parsed g depth scoped p e p')
      (and_then (take_token g p2) (\<lambda>(c, p). Err (error EmptyGroup (span (bs_start (tk_span t)) (bs_end (tk_span c))))))"
    by (rule answers_take [OF d2(1)]) (use sp d2(3) in auto)
  have inner: "answers g (Suc n \<le> remaining g p) (\<lambda>(e, p'). parsed g depth scoped p e p')
      (and_then (parse_or rec g n d scoped p2) (\<lambda>(inner, p). and_then (take_token g p) (\<lambda>(c, p).
         if tk_kind c \<noteq> TClose then Err (error UnclosedParenthesis (tk_span t))
         else node (EGroup Parentheses inner) (span (bs_start (tk_span t)) (bs_end (tk_span c))) p)))"
  proof (rule answers_rec [OF parse_or_ok [OF assms(1) order_refl] d2(1)], unfold prod.case)
    fix e p3
    assume e: "parsed g d scoped p2 e p3"
    show "answers g (Suc n \<le> remaining g p) (\<lambda>(e, p'). parsed g depth scoped p e p')
       (and_then (take_token g p3) (\<lambda>(c, p).
         if tk_kind c \<noteq> TClose then Err (error UnclosedParenthesis (tk_span t))
         else node (EGroup Parentheses e) (span (bs_start (tk_span t)) (bs_end (tk_span c))) p))"
    proof (rule answers_take, unfold prod.case)
      show "parser_ok g p3" using e by (simp add: parsed_def)
      fix c p4
      assume c: "took g p3 c p4"
      note ck = tookD [OF c]
      have le: "place p1 \<le> place p3" using e d2(3) expr_wf_span [of g d scoped e] by (simp add: parsed_def)
      have "answers g False (\<lambda>(e, p'). parsed g depth scoped p e p')
         (node (EGroup Parentheses e) (span (bs_start (tk_span t)) (bs_end (tk_span c))) p4)"
      proof (rule node_parsed [OF ck(1)])
        show "expr_wf g depth scoped (Expr (span (bs_start (tk_span t)) (bs_end (tk_span c))) (EGroup Parentheses e))"
          using e d sp [OF c le] tk(2,5) d2(3) ck(3,4) expr_wf_span [of g d scoped e] assms(3)
          by (auto simp: parsed_def inside_def token_ok_def span_ok_def)
        show "pr_nodes p4 + 1 = pr_nodes p +
            expr_nodes (Expr (span (bs_start (tk_span t)) (bs_end (tk_span c))) (EGroup Parentheses e))"
          using e tk(6) ck(6) pk by (simp add: parsed_def peeked_def)
      qed (use tk(4) ck(5) in auto)
      then have "answers g (Suc n \<le> remaining g p) (\<lambda>(e, p'). parsed g depth scoped p e p')
         (node (EGroup Parentheses e) (span (bs_start (tk_span t)) (bs_end (tk_span c))) p4)"
        by (rule answers_weaken) auto
      with tk(3) show "answers g (Suc n \<le> remaining g p) (\<lambda>(e, p'). parsed g depth scoped p e p')
         (if tk_kind c \<noteq> TClose then Err (error UnclosedParenthesis (tk_span t))
          else node (EGroup Parentheses e) (span (bs_start (tk_span t)) (bs_end (tk_span c))) p4)" by simp
    qed
  qed (use tk(7) [OF assms(3)] d2(4) in auto)
  show "answers g (Suc n \<le> remaining g p) (\<lambda>(e, p'). parsed g depth scoped p e p')
    (if tk_kind u = TClose
     then and_then (take_token g p2) (\<lambda>(c, p). Err (error EmptyGroup (span (bs_start (tk_span t)) (bs_end (tk_span c)))))
     else and_then (parse_or rec g n d scoped p2) (\<lambda>(inner, p). and_then (take_token g p) (\<lambda>(c, p).
         if tk_kind c \<noteq> TClose then Err (error UnclosedParenthesis (tk_span t))
         else node (EGroup Parentheses inner) (span (bs_start (tk_span t)) (bs_end (tk_span c))) p)))"
    using empty inner by simp
qed simp

definition word_exprs :: "(rstr \<times> byte_span) list \<Rightarrow> expr list" where
  "word_exprs ws = map (\<lambda>(v, r). Expr r (ETerm v)) ws"

lemma word_nodes_ok:
  assumes "words_ok (gr_input g) a ws b" "parser_ok g p"
  shows "answers g False (\<lambda>(es, p'). es = word_exprs ws \<and> parser_ok g p' \<and> place p' = place p \<and>
    pr_nodes p' = pr_nodes p + length ws) (word_nodes ws p)"
  using assms
proof (induction ws arbitrary: a p)
  case (Cons w ws)
  obtain v r where w: "w = (v, r)" by force
  show ?case unfolding w word_nodes.simps
  proof (rule answers_bind [OF node_ok [OF Cons.prems(2)]])
    show "span_ok (gr_input g) r" using Cons.prems(1) w by simp
  next
    fix x
    assume "case x of (x, p') \<Rightarrow> x = Expr r (ETerm v) \<and> parser_ok g p' \<and> place p' = place p \<and> pr_nodes p' = pr_nodes p + 1"
    then obtain p' where x: "x = (Expr r (ETerm v), p')" "parser_ok g p'" "place p' = place p" "pr_nodes p' = pr_nodes p + 1"
      by (cases x) auto
    have "words_ok (gr_input g) (bs_end r) ws b" using Cons.prems(1) w by simp
    from Cons.IH [OF this x(2)]
    show "answers g False (\<lambda>(es, p'). es = word_exprs ((v, r) # ws) \<and> parser_ok g p' \<and> place p' = place p \<and>
        pr_nodes p' = pr_nodes p + length ((v, r) # ws))
       (case x of (e, p) \<Rightarrow> and_then (word_nodes ws p) (\<lambda>(es, p). Ok (e # es, p)))"
      unfolding x(1) prod.case by (rule answers_bind) (use x in \<open>auto simp: word_exprs_def\<close>)
  qed simp
qed (simp add: word_exprs_def)

lemma words_in_order: "words_ok input a ws b \<Longrightarrow> in_order a (word_exprs ws) b"
  by (induction input a ws b rule: words_ok.induct) (auto simp: word_exprs_def)

lemma words_ok_each: "words_ok input a ws b \<Longrightarrow> (v, r) \<in> set ws \<Longrightarrow> span_ok input r \<and> bs_start r < bs_end r"
  by (induction input a ws b rule: words_ok.induct) auto

lemma words_wf: "words_ok (gr_input g) a ws b \<Longrightarrow> e \<in> set (word_exprs ws) \<Longrightarrow> expr_wf g depth scoped e"
  using words_ok_each by (fastforce simp: word_exprs_def)

lemma answers_and: "answers g F P m \<Longrightarrow> (\<And>x. m = Inr x \<Longrightarrow> Q x) \<Longrightarrow> answers g F (\<lambda>x. P x \<and> Q x) m"
  by (cases m) auto

lemma chain_place: "chain es is_and s p = Inr (x, p') \<Longrightarrow> place p' = place p"
  by (auto simp: chain_def node_def place_def split: if_splits option.splits)

lemma words_operand_ok:
  assumes "took g p t p1" "tk_kind t = TWords ws"
  shows "answers g False (\<lambda>(e, p'). parsed g depth scoped p e p')
    (and_then (nested depth (tk_span t)) (\<lambda>_. words_operand ws t p1))"
proof (rule answers_bind [OF nested_ok [OF tookD(3) [OF assms(1)]]])
  fix d assume d: "d = depth + 1 \<and> depth < MAX_QUERY_NESTING"
  note tk = tookD [OF assms(1)]
  have ws: "ws \<noteq> []" "words_ok (gr_input g) (bs_start (tk_span t)) ws (bs_end (tk_span t))" "bs_start (tk_span t) < bs_end (tk_span t)"
    using tk(2) assms(2) by (auto simp: token_ok_def)
  let ?es = "word_exprs ws"
  let ?i = "span (bs_start (e_span (hd ?es))) (bs_end (e_span (last ?es)))"
  have ends: "(if ws = [] then tk_span t else span (bs_start (snd (hd ws))) (bs_end (snd (last ws)))) = ?i"
    using ws(1) by (simp add: word_exprs_def hd_map last_map case_prod_unfold)
  show "answers g False (\<lambda>(e, p'). parsed g depth scoped p e p') (words_operand ws t p1)"
    unfolding words_operand_def ends Let_def
  proof (rule answers_bind [OF word_nodes_ok [OF ws(2) tk(1)]])
    fix x
    assume "case x of (es, p') \<Rightarrow> es = ?es \<and> parser_ok g p' \<and> place p' = place p1 \<and> pr_nodes p' = pr_nodes p1 + length ws"
    then obtain p2 where x: "x = (?es, p2)" "parser_ok g p2" "place p2 = place p1" "pr_nodes p2 = pr_nodes p1 + length ws"
      by (cases x) auto
    have nodes: "sum_list (map expr_nodes ?es) = length ws" by (induction ws) (auto simp: word_exprs_def)
    define q where "q = p1\<lparr>pr_lookahead := Some t\<rparr>"
    have q: "place q = bs_start (tk_span t)" "pr_nodes q = pr_nodes p" using tk(6) by (simp_all add: q_def place_def)
    have hd_le: "bs_start (tk_span t) \<le> bs_start (e_span (hd ?es))" and ne: "?es \<noteq> []"
      using ws(1,2) by (cases ws; auto simp: word_exprs_def)+
    have col: "collected g d scoped q ?es p2"
      unfolding collected_def
    proof (intro conjI)
      show "\<forall>e \<in> set ?es. expr_wf g d scoped e" using words_wf [OF ws(2)] by blast
      show "in_order (bs_start (e_span (hd ?es))) ?es (place p2)"
        using words_in_order [OF ws(2)] ne x(3) tk(5) by (cases ?es) auto
    qed (use x ne hd_le q tk(6) nodes in auto)
    show "answers g False (\<lambda>(e, p'). parsed g depth scoped p e p')
      (case x of (es, p) \<Rightarrow> and_then (chain es True ?i p) (\<lambda>(inner, p). node (EGroup SingleQuotes inner) (tk_span t) p))"
      unfolding x(1) prod.case
    proof (rule answers_bind [OF answers_and [OF collected_chain [OF col], where Q = "\<lambda>(_, p'). place p' = place p2"]])
      fix y
      assume "(case y of (x, p') \<Rightarrow> parsed g d scoped q x p') \<and> (case y of (_, p') \<Rightarrow> place p' = place p2)"
      then obtain e p3 where y: "y = (e, p3)" and e: "parsed g d scoped q e p3" "place p3 = place p2" by force
      have "answers g False (\<lambda>(e, p'). parsed g depth scoped p e p') (node (EGroup SingleQuotes e) (tk_span t) p3)"
        by (rule node_parsed) (use e d ws(3) tk x(3) q in \<open>auto simp: parsed_def inside_def\<close>)
      with y show "answers g False (\<lambda>(e, p'). parsed g depth scoped p e p')
        (case y of (inner, p) \<Rightarrow> node (EGroup SingleQuotes inner) (tk_span t) p)" by simp
    qed (auto dest: chain_place)
  qed simp
qed simp

lemma operand_step_ok:
  assumes "descent_ok g n rec"
  shows "descent_ok g (Suc n) (operand_step rec g n)"
  unfolding descent_ok_def
proof (intro allI impI)
  fix depth scoped p
  assume p: "parser_ok g p"
  let ?A = "answers g (Suc n \<le> remaining g p) (\<lambda>(e, p'). parsed g depth scoped p e p')"
  show "?A (operand_step rec g n depth scoped p)"
    unfolding operand_step_def
  proof (rule answers_take [OF p], unfold prod.case)
    fix t p1
    assume tk: "took g p t p1"
    note sp = tookD(3) [OF tk]
    have weak: "?A m" if "answers g False (\<lambda>(e, p'). parsed g depth scoped p e p') m" for m
      using that by (rule answers_weaken) auto
    have leaf: "?A (node k (tk_span t) p1)" if "tk_kind t \<noteq> TEnd" "k \<in> {ETerm v, EExact v, EPrefix v}" for k v
      by (rule weak [OF leaf_ok [OF tk that]])
    have short: "?A (and_then (reject_shorthand g (tk_span t)) (\<lambda>_. m))" if "?A m" for m
      by (rule answers_bind [OF reject_shorthand_ok [OF sp]]) (use that in auto)
    show "?A (case tk_kind t of
         TTerm val \<Rightarrow> and_then (reject_shorthand g (tk_span t)) (\<lambda>_. node (ETerm val) (tk_span t) p1)
       | TPrefix val \<Rightarrow> and_then (reject_shorthand g (tk_span t)) (\<lambda>_. node (EPrefix val) (tk_span t) p1)
       | TExact val \<Rightarrow> node (EExact val) (tk_span t) p1
       | TNot \<Rightarrow> not_operand rec t depth scoped p1
       | TMinus \<Rightarrow> not_operand rec t depth scoped p1
       | TField name \<Rightarrow> field_operand rec g t name depth scoped p1
       | TOpen \<Rightarrow> group_operand rec g n t depth scoped p1
       | TWords words \<Rightarrow> and_then (nested depth (tk_span t)) (\<lambda>_. words_operand words t p1)
       | _ \<Rightarrow> Err (error ExpectedOperand (tk_span t)))"
      using leaf short not_operand_ok [OF assms tk] field_operand_ok [OF assms tk] group_operand_ok [OF assms tk]
        weak [OF words_operand_ok [OF tk]] sp
      by (cases "tk_kind t") simp_all
  qed
qed

lemma operand_ok: "descent_ok g n (operand n g)"
proof (induction n)
  case 0
  show ?case by (simp add: descent_ok_def)
next
  case (Suc n)
  from operand_step_ok [OF Suc.IH] show ?case by simp
qed

end
