(* ===== verification/Search_Query_Properties.thy ===== *)
theory Search_Query_Properties
  imports Search_Query_Safety
begin

text \<open>
  The contract of \<open>SearchQueryProcessor::parse\<close> (\<open>crates/normalization/src/search_query.rs\<close>,
  \<open>docs/search-query.md\<close>): it always answers, accepted queries are well-formed expressions within
  the limits, rejected ones are reported with a proper byte range, blank input means everything,
  and escaping every character is an exact quotation.
\<close>

section \<open>The parser as a whole\<close>

definition query_grammar :: "(rchar \<Rightarrow> bool) \<Rightarrow> rstr list \<Rightarrow> rstr \<Rightarrow> grammar" where
  "query_grammar alnum known input = \<lparr>gr_alnum = alnum, gr_input = input, gr_fields = known\<rparr>"

definition parser_start :: "rstr \<Rightarrow> parser" where
  "parser_start input = \<lparr>pr_scanner = \<lparr>sc_done = [], sc_rest = input\<rparr>, pr_lookahead = None, pr_nodes = 0\<rparr>"

lemma parser_start_ok: "parser_ok (query_grammar alnum known input) (parser_start input)"
  by (simp add: parser_ok_def parser_start_def query_grammar_def scanner_ok_def)

lemma find_control_span:
  "find_control (str_len pre) rest = Some r \<Longrightarrow> span_ok (pre @ rest) r"
proof (induction rest arbitrary: pre)
  case (Cons ch rest)
  show ?case
  proof (cases "is_control ch")
    case True
    with Cons.prems boundary_pre [of pre "ch # rest"] boundary_pre [of "pre @ [ch]" rest] show ?thesis
      by (auto simp: span_ok_def)
  next
    case False
    with Cons.prems Cons.IH [of "pre @ [ch]"] show ?thesis by simp
  qed
qed simp

definition query_ok :: "(rchar \<Rightarrow> bool) \<Rightarrow> rstr list \<Rightarrow> rstr \<Rightarrow> expr \<Rightarrow> bool" where
  "query_ok alnum known input e \<longleftrightarrow>
     e = Expr (span 0 (str_len input)) EMatchAll \<or>
     (expr_wf (query_grammar alnum known input) 0 False e \<and> expr_nodes e \<le> MAX_QUERY_NODES)"

lemma parse_answer:
  "answers (query_grammar alnum known input) False (\<lambda>q. pq_source q = input \<and> query_ok alnum known input (pq_expression q))
     (parse alnum known input)"
proof -
  let ?g = "query_grammar alnum known input" and ?p = "parser_start input"
  have g: "gr_input ?g = input" by (simp add: query_grammar_def)
  have long: "span_ok input (span 0 (str_len input))" by (simp add: span_ok_def)
  have control: "span_ok input r" if "find_control 0 input = Some r" for r
    using find_control_span [of "[]" input r] that by simp
  have body: "answers ?g False (\<lambda>(e, p). query_ok alnum known input e)
     (if tk_kind t = TEnd then node EMatchAll (span 0 (str_len input)) p1
      else and_then (parse_or (operand (parse_fuel input) ?g) ?g (parse_fuel input) 0 False p1) (\<lambda>(e, p).
           and_then (peek_token ?g p) (\<lambda>(u, p).
             if tk_kind u \<noteq> TEnd then Err (error UnexpectedToken (tk_span u)) else Ok (e, p))))"
    if pk: "peeked ?g ?p t p1" for t p1
  proof (cases "tk_kind t = TEnd")
    case True
    have "span_ok (gr_input ?g) (span 0 (str_len input))" using long g by simp
    from node_ok [OF peekedD(1) [OF pk] this, of EMatchAll]
    have "answers ?g False (\<lambda>(e, p). query_ok alnum known input e) (node EMatchAll (span 0 (str_len input)) p1)"
      by (elim answers_weaken) (auto simp: query_ok_def)
    with True show ?thesis by simp
  next
    case False
    have "answers ?g False (\<lambda>(e, p). query_ok alnum known input e)
       (and_then (parse_or (operand (parse_fuel input) ?g) ?g (parse_fuel input) 0 False p1) (\<lambda>(e, p).
           and_then (peek_token ?g p) (\<lambda>(u, p).
             if tk_kind u \<noteq> TEnd then Err (error UnexpectedToken (tk_span u)) else Ok (e, p))))"
    proof (rule answers_rec [OF parse_or_ok [OF operand_ok order_refl] peekedD(1) [OF pk]], unfold prod.case)
      assume "parse_fuel input \<le> remaining ?g p1"
      then show False using g by (simp add: parse_fuel_def remaining_def)
    next
      fix e p2
      assume e: "parsed ?g 0 False p1 e p2"
      then have ok: "query_ok alnum known input e" "parser_ok ?g p2"
        by (auto simp: parsed_def query_ok_def parser_ok_def)
      show "answers ?g False (\<lambda>(e, p). query_ok alnum known input e)
         (and_then (peek_token ?g p2) (\<lambda>(u, p).
             if tk_kind u \<noteq> TEnd then Err (error UnexpectedToken (tk_span u)) else Ok (e, p)))"
        by (rule answers_peek [OF ok(2)]) (use ok(1) peekedD(2) in auto)
    qed
    with False show ?thesis by simp
  qed
  have all: "answers ?g False (\<lambda>q. pq_source q = input \<and> query_ok alnum known input (pq_expression q))
     (and_then (peek_token ?g ?p) (\<lambda>(t, p).
       and_then (if tk_kind t = TEnd then node EMatchAll (span 0 (str_len input)) p
         else and_then (parse_or (operand (parse_fuel input) ?g) ?g (parse_fuel input) 0 False p) (\<lambda>(e, p).
           and_then (peek_token ?g p) (\<lambda>(u, p).
             if tk_kind u \<noteq> TEnd then Err (error UnexpectedToken (tk_span u)) else Ok (e, p))))
       (\<lambda>(e, p). Ok \<lparr>pq_source = input, pq_expression = e\<rparr>)))"
    by (rule answers_peek [OF parser_start_ok], unfold prod.case, rule answers_bind [OF body]) auto
  then show ?thesis
    using long control g
    unfolding parse_def Let_def query_grammar_def [symmetric] parser_start_def [symmetric]
    by (simp split: option.splits)
qed

section \<open>Properties\<close>

text \<open>C19 Parsing terminates and never panics: for every classification of characters, vocabulary
  and input, the parser with the fuel \<open>parse_fuel\<close> answers with a query or with an error.\<close>

theorem parse_total:
  "(\<exists>q. parse alnum known input = Ok q) \<or> (\<exists>e. parse alnum known input = Err (Stop e))"
proof (cases "parse alnum known input")
  case (Inl e)
  with parse_answer [of alnum known input] show ?thesis by (cases e) auto
qed simp

text \<open>C4 An accepted query is well formed: its source is the input; blank input aside, every
  operand of the tree has a non-empty byte range of the query on character boundaries, inside its
  parent's and in source order, a chain has at least two operands and exactly their range, a field
  is one of the vocabulary and never inside another field, no path nests deeper than
  \<open>MAX_QUERY_NESTING\<close> and the tree has at most \<open>MAX_QUERY_NODES\<close> nodes.\<close>

theorem parse_well_formed:
  assumes "parse alnum known input = Ok q"
  shows "pq_source q = input \<and>
    (pq_expression q = Expr (span 0 (str_len input)) EMatchAll \<or>
     (expr_wf (query_grammar alnum known input) 0 False (pq_expression q) \<and>
      expr_nodes (pq_expression q) \<le> MAX_QUERY_NODES))"
  using parse_answer [of alnum known input] assms by (simp add: query_ok_def)

definition demo_query :: rstr where
  "demo_query = lit ''in:title:(license OR per*) -foo NOT a AND b''"

lemma demo_query_parses: "is_ok (parse is_ascii_alphanumeric [lit ''title'', lit ''body''] demo_query)"
  by code_simp

theorem parse_well_formed_witness:
  "\<exists>q. parse is_ascii_alphanumeric [lit ''title'', lit ''body''] demo_query = Ok q \<and>
     expr_wf (query_grammar is_ascii_alphanumeric [lit ''title'', lit ''body''] demo_query) 0 False (pq_expression q)"
proof -
  obtain q where q: "parse is_ascii_alphanumeric [lit ''title'', lit ''body''] demo_query = Ok q"
    using demo_query_parses by (auto simp: is_ok_iff)
  moreover have "case parse is_ascii_alphanumeric [lit ''title'', lit ''body''] demo_query of
      Inl _ \<Rightarrow> False | Inr q \<Rightarrow> e_kind (pq_expression q) \<noteq> EMatchAll" by code_simp
  ultimately show ?thesis using parse_well_formed [OF q] by auto
qed

text \<open>A rejected query is reported with a proper range: the error's byte span is a slice of the
  query on character boundaries, so quoting it cannot panic.\<close>

theorem parse_error_span:
  assumes "parse alnum known input = Err (Stop e)"
  shows "span_ok input (pe_span e)"
  using parse_answer [of alnum known input] assms by (simp add: query_grammar_def)

theorem parse_error_span_witness:
  "\<exists>e. parse is_ascii_alphanumeric [lit ''title''] (lit ''a title:x'') = Err (Stop e) \<and>
     span_ok (lit ''a title:x'') (pe_span e) \<and> pe_kind e = FieldShorthand"
proof -
  have e: "parse is_ascii_alphanumeric [lit ''title''] (lit ''a title:x'') =
      Err (Stop \<lparr>pe_kind = FieldShorthand, pe_span = span 2 9\<rparr>)"
    by code_simp
  from parse_error_span [OF e] e show ?thesis by auto
qed

section \<open>Blank queries\<close>

lemma expr_wf_not_all: "expr_wf g d sc e \<Longrightarrow> e_kind e \<noteq> EMatchAll"
  by (cases e) auto

lemma skip_all: "list_all is_whitespace rest \<Longrightarrow> skip_whitespace pre rest = (pre @ rest, [])"
  by (induction pre rest rule: skip_whitespace.induct) auto

lemma scan_kind_end: "scan_kind alnum s = Ok (TEnd, s') \<Longrightarrow> scanner_ok input s \<Longrightarrow>
    sc_rest s = [] \<or> is_whitespace (hd (sc_rest s))"
proof -
  assume k: "scan_kind alnum s = Ok (TEnd, s')" and s: "scanner_ok input s"
  show ?thesis
  proof (cases "sc_rest s")
    case (Cons ch rest)
    have "is_whitespace ch"
    proof (rule ccontr)
      assume "\<not> is_whitespace ch"
      from scan_kind_ok [OF s Cons this, of alnum] k show False by (simp add: scan_ok_def kind_ok_def)
    qed
    with Cons show ?thesis by simp
  qed simp
qed

lemma first_token_end:
  "tk_kind t = TEnd \<Longrightarrow> next_token alnum \<lparr>sc_done = [], sc_rest = input\<rparr> = Ok (t, s) \<Longrightarrow> list_all is_whitespace input"
proof -
  assume e: "tk_kind t = TEnd" and n: "next_token alnum \<lparr>sc_done = [], sc_rest = input\<rparr> = Ok (t, s)"
  obtain pre rest where sk: "skip_whitespace [] input = (pre, rest)" by force
  from skip_whitespace_append [OF this] have w: "input = pre @ rest" "list_all is_whitespace pre"
      "rest = [] \<or> \<not> is_whitespace (hd rest)" by auto
  from n sk e have "\<exists>s'. scan_kind alnum \<lparr>sc_done = pre, sc_rest = rest\<rparr> = Ok (TEnd, s')"
    by (auto simp: next_token_def result_simps Let_def)
  then have "rest = [] \<or> is_whitespace (hd rest)"
    using scan_kind_end [of alnum "\<lparr>sc_done = pre, sc_rest = rest\<rparr>" _ input] w(1) by (auto simp: scanner_ok_def)
  with w show ?thesis by auto
qed

text \<open>Within the size limit and without control characters, a query means everything exactly
  when it is blank.\<close>

theorem parse_match_all:
  assumes "str_len input \<le> MAX_QUERY_BYTES" "find_control 0 input = None"
  shows "(\<exists>q. parse alnum known input = Ok q \<and> e_kind (pq_expression q) = EMatchAll) \<longleftrightarrow> list_all is_whitespace input"
proof
  assume blank: "list_all is_whitespace input"
  show "\<exists>q. parse alnum known input = Ok q \<and> e_kind (pq_expression q) = EMatchAll"
    using assms skip_all [OF blank, of "[]"]
    by (simp add: parse_def peek_token_def take_token_def next_token_def scan_kind_def node_def Let_def MAX_QUERY_NODES_def)
next
  assume "\<exists>q. parse alnum known input = Ok q \<and> e_kind (pq_expression q) = EMatchAll"
  then obtain q where q: "parse alnum known input = Ok q" "e_kind (pq_expression q) = EMatchAll" by blast
  let ?g = "query_grammar alnum known input" and ?p = "parser_start input"
  from q(1) assms obtain t p1 where t: "peek_token ?g ?p = Ok (t, p1)" and
    b: "tk_kind t \<noteq> TEnd \<Longrightarrow> \<exists>p2. parse_or (operand (parse_fuel input) ?g) ?g (parse_fuel input) 0 False p1 = Ok (pq_expression q, p2)"
    unfolding parse_def Let_def query_grammar_def [symmetric] parser_start_def [symmetric]
    by (auto simp: result_simps split: if_splits)
  have "tk_kind t = TEnd"
  proof (rule ccontr)
    assume "tk_kind t \<noteq> TEnd"
    with b obtain p2 where r: "parse_or (operand (parse_fuel input) ?g) ?g (parse_fuel input) 0 False p1 = Ok (pq_expression q, p2)" by blast
    have "parser_ok ?g p1" using peek_token_ok [OF parser_start_ok [of alnum known input]] t by (auto simp: peeked_def)
    from descent_okD [OF parse_or_ok [OF operand_ok order_refl] this, of "parse_fuel input" 0 False] r
    have "expr_wf ?g 0 False (pq_expression q)" by (auto simp: parsed_def)
    with q(2) expr_wf_not_all show False by blast
  qed
  moreover from t obtain s where "next_token alnum \<lparr>sc_done = [], sc_rest = input\<rparr> = Ok (t, s)"
    by (auto simp: peek_token_def take_token_def parser_start_def query_grammar_def result_simps)
  ultimately show "list_all is_whitespace input" by (rule first_token_end)
qed

theorem parse_match_all_witness:
  "(\<exists>q. parse is_ascii_alphanumeric [] (lit ''   '') = Ok q \<and> e_kind (pq_expression q) = EMatchAll) \<and>
   \<not> (\<exists>q. parse is_ascii_alphanumeric [] (lit '' x '') = Ok q \<and> e_kind (pq_expression q) = EMatchAll)"
proof -
  have h: "str_len (lit ''   '') \<le> MAX_QUERY_BYTES" "find_control 0 (lit ''   '') = None" "list_all is_whitespace (lit ''   '')"
    "str_len (lit '' x '') \<le> MAX_QUERY_BYTES" "find_control 0 (lit '' x '') = None" "\<not> list_all is_whitespace (lit '' x '')"
    by code_simp+
  show ?thesis using parse_match_all [OF h(1,2)] parse_match_all [OF h(4,5)] h(3,6) by blast
qed

section \<open>Exact quotation\<close>

definition escape :: "rstr \<Rightarrow> rstr" where
  "escape v = concat (map (\<lambda>c. [92, c]) v)"

lemma escape_simps [simp]: "escape [] = []" "escape (c # v) = 92 # c # escape v"
  by (simp_all add: escape_def)

lemma word_loop_escape:
  "word_loop alnum pre (escape v) val esc stars =
     Ok (\<lparr>sc_done = pre @ escape v, sc_rest = []\<rparr>, val @ v, esc \<or> v \<noteq> [], stars)"
  by (induction v arbitrary: pre val esc) (auto simp: is_whitespace_def)

lemma next_token_escape:
  assumes "v \<noteq> []"
  shows "next_token alnum \<lparr>sc_done = [], sc_rest = escape v\<rparr> =
    Ok (\<lparr>tk_kind = TTerm v, tk_span = span 0 (str_len (escape v))\<rparr>, \<lparr>sc_done = escape v, sc_rest = []\<rparr>)"
proof -
  obtain c w where v: "v = c # w" using assms by (cases v) auto
  have skip: "skip_whitespace [] (escape v) = ([], escape v)" by (simp add: v is_whitespace_def)
  have "word alnum \<lparr>sc_done = [], sc_rest = escape v\<rparr> = Ok (TTerm v, \<lparr>sc_done = escape v, sc_rest = []\<rparr>)"
    using assms by (simp add: word_def word_loop_escape)
  moreover have "\<not> starts_with (escape v) (lit ''in:'')" by (simp add: v starts_with_def)
  ultimately have "scan_kind alnum \<lparr>sc_done = [], sc_rest = escape v\<rparr> = Ok (TTerm v, \<lparr>sc_done = escape v, sc_rest = []\<rparr>)"
    by (simp add: scan_kind_def v)
  then show ?thesis by (simp add: next_token_def skip sc_offset_def)
qed

lemma no_shorthand:
  assumes "list_all valid_field known" "v \<noteq> []"
  shows "reject_shorthand \<lparr>gr_alnum = alnum, gr_input = escape v, gr_fields = known\<rparr> (span 0 (str_len (escape v))) = Ok ()"
proof -
  have "slice (escape v) 0 (str_len (escape v)) = Some (escape v)" unfolding slice_Some_iff by auto
  moreover have "strip_prefix f (escape v) = None" if "f \<in> set known" for f
  proof -
    have "valid_field f" using assms(1) that by (simp add: list_all_iff)
    then obtain a f' where "f = a # f'" "a \<noteq> 92" by (cases f) (auto simp: valid_field_def is_ascii_lowercase_def)
    with assms(2) show ?thesis by (cases v) (auto simp: strip_prefix_def starts_with_def)
  qed
  ultimately show ?thesis by (auto simp: reject_shorthand_def list_ex_iff)
qed

lemma find_control_escape: "list_all (\<lambda>c. \<not> is_control c) v \<Longrightarrow> find_control off (escape v) = None"
  by (induction v arbitrary: off) (auto simp: is_control_def)

lemma end_token: "next_token alnum \<lparr>sc_done = x, sc_rest = []\<rparr> =
    Ok (\<lparr>tk_kind = TEnd, tk_span = span (str_len x) (str_len x)\<rparr>, \<lparr>sc_done = x, sc_rest = []\<rparr>)"
  by (simp add: next_token_def scan_kind_def sc_offset_def)

lemma collect_fields_valid:
  "collect_fields known names = Ok known' \<Longrightarrow> list_all valid_field known \<Longrightarrow> list_all valid_field known'"
  by (induction known names rule: collect_fields.induct) (auto split: if_splits)

lemma processor_fields: "search_query_processor_new allowed = Ok known \<Longrightarrow> list_all valid_field known"
  by (auto simp: search_query_processor_new_def dest: collect_fields_valid split: if_splits)

text \<open>Escaping is exact quotation, for every processor that was constructed: putting a backslash before every character of any non-empty
  text without control characters makes a query that means just that text as one term, whatever
  operators, quotes, wildcards or field names it contains.\<close>

theorem parse_escaped:
  assumes "v \<noteq> []" "list_all (\<lambda>c. \<not> is_control c) v" "str_len (escape v) \<le> MAX_QUERY_BYTES"
    and new: "search_query_processor_new allowed = Ok known"
  shows "parse alnum known (escape v) =
    Ok \<lparr>pq_source = escape v, pq_expression = Expr (span 0 (str_len (escape v))) (ETerm v)\<rparr>"
proof -
  let ?in = "escape v"
  let ?g = "\<lparr>gr_alnum = alnum, gr_input = ?in, gr_fields = known\<rparr>"
  let ?t = "\<lparr>tk_kind = TTerm v, tk_span = span 0 (str_len ?in)\<rparr>"
  let ?s = "\<lparr>sc_done = ?in, sc_rest = []\<rparr>"
  let ?u = "\<lparr>tk_kind = TEnd, tk_span = span (str_len ?in) (str_len ?in)\<rparr>"
  let ?e = "Expr (span 0 (str_len ?in)) (ETerm v)"
  let ?p = "\<lparr>pr_scanner = ?s, pr_lookahead = Some ?u, pr_nodes = Suc 0\<rparr>"
  obtain n where n: "parse_fuel ?in = Suc (Suc n)"
    using assms(1) by (cases "str_len ?in"; cases v) (auto simp: parse_fuel_def)
  have first: "peek_token ?g \<lparr>pr_scanner = \<lparr>sc_done = [], sc_rest = ?in\<rparr>, pr_lookahead = None, pr_nodes = 0\<rparr> =
      Ok (?t, \<lparr>pr_scanner = ?s, pr_lookahead = Some ?t, pr_nodes = 0\<rparr>)"
    by (simp add: peek_token_def take_token_def next_token_escape [OF assms(1)])
  have op: "operand (Suc (Suc n)) ?g 0 False \<lparr>pr_scanner = ?s, pr_lookahead = Some ?t, pr_nodes = 0\<rparr> =
      Ok (?e, \<lparr>pr_scanner = ?s, pr_lookahead = None, pr_nodes = Suc 0\<rparr>)"
    by (simp add: operand_step_def take_token_def no_shorthand [OF processor_fields [OF new] assms(1)] node_def MAX_QUERY_NODES_def)
  have pk: "peek_token ?g \<lparr>pr_scanner = ?s, pr_lookahead = None, pr_nodes = Suc 0\<rparr> = Ok (?u, ?p)"
    by (simp add: peek_token_def take_token_def end_token)
  have pk2: "peek_token ?g ?p = Ok (?u, ?p)" by (simp add: peek_token_def take_token_def)
  have and1: "parse_and (operand (Suc (Suc n)) ?g) ?g (Suc (Suc n)) 0 False
      \<lparr>pr_scanner = ?s, pr_lookahead = Some ?t, pr_nodes = 0\<rparr> = Ok (?e, ?p)"
    unfolding parse_and_def op by (simp add: pk chain_def)
  have "parse_or (operand (Suc (Suc n)) ?g) ?g (Suc (Suc n)) 0 False
      \<lparr>pr_scanner = ?s, pr_lookahead = Some ?t, pr_nodes = 0\<rparr> = Ok (?e, ?p)"
    unfolding parse_or_def and1 by (simp add: pk2 chain_def)
  then show ?thesis
    unfolding parse_def Let_def first n
    using assms(3) find_control_escape [OF assms(2)] by (simp add: first n pk2 del: operand.simps)
qed

theorem parse_escaped_witness:
  "parse is_ascii_alphanumeric [lit ''title''] (escape (lit ''title:(a* OR)'')) =
     Ok \<lparr>pq_source = escape (lit ''title:(a* OR)''),
         pq_expression = Expr (span 0 (str_len (escape (lit ''title:(a* OR)'')))) (ETerm (lit ''title:(a* OR)''))\<rparr>"
proof -
  have h: "lit ''title:(a* OR)'' \<noteq> []" "list_all (\<lambda>c. \<not> is_control c) (lit ''title:(a* OR)'')"
    "str_len (escape (lit ''title:(a* OR)'')) \<le> MAX_QUERY_BYTES"
    "search_query_processor_new [lit ''title''] = Ok [lit ''title'']"
    by code_simp+
  show ?thesis by (rule parse_escaped [OF h])
qed

end
