(* ===== verification/Payload_Processors.thy ===== *)
theory Payload_Processors
  imports Retrieval_Domain
begin

text \<open>
  The payload processors of \<open>crates/normalization/src/lib.rs\<close>: the work budget, the lexical scan
  that runs before any decoding, the two synthetic layouts and the checks that turn a decoded
  document into the answer of a query.

  A payload is a list of byte values.  \<open>serde_json\<close> is not part of the repository: the record
  \<open>serde_json\<close> holds what the processors call of it, one decoder per document type (absent when
  the bytes are not such a document) and the sequence of writes that serialising an answer makes.
  The budget is passed by \<open>&mut\<close>, so every operation returns the budget as it stands afterwards,
  also when it fails.

  The locale \<open>payload_processor\<close> is the trait \<open>PayloadProcessor\<close> with what its callers rely on;
  both layouts interpret it.
\<close>

section \<open>Limits and the work budget\<close>

definition MAX_PAYLOAD_BYTES :: nat where
  "MAX_PAYLOAD_BYTES = 1024 * 1024"

definition MAX_PROCESSED_BYTES :: nat where
  "MAX_PROCESSED_BYTES = 64 * 1024"

definition MAX_STRING_BYTES :: nat where
  "MAX_STRING_BYTES = 16 * 1024"

lemmas processor_limits [size_simps] =
  MAX_PAYLOAD_BYTES_def MAX_PROCESSED_BYTES_def MAX_STRING_BYTES_def

record work_budget =
  remaining :: nat

definition work_budget_default :: work_budget where
  "work_budget_default = \<lparr>remaining = 2 * MAX_PAYLOAD_BYTES\<rparr>"

definition spend :: "nat \<Rightarrow> work_budget \<Rightarrow> (unit, retrieval_error) result \<times> work_budget" where
  "spend amount b =
     (case checked_sub (remaining b) amount of
        None \<Rightarrow> (Err REResourceLimit, b)
      | Some n \<Rightarrow> (Ok (), b\<lparr>remaining := n\<rparr>))"

section \<open>Documents\<close>

record a_record =
  ar_id :: rstr
  ar_title :: rstr
  ar_body :: rstr

record a_search =
  as_kind :: rstr
  as_items :: "a_record list"
  as_page :: nat
  as_page_size :: nat
  as_total :: nat

record a_get =
  ag_kind :: rstr
  ag_item :: a_record

record b_record =
  br_key :: rstr
  br_label :: rstr
  br_text :: rstr

record pagination =
  pg_index :: nat
  pg_size :: nat
  pg_count :: nat

record b_search =
  bs_format :: rstr
  bs_results :: "b_record list"
  bs_pagination :: pagination

record b_get =
  bg_format :: rstr
  bg_document :: b_record

record serde_json =
  from_a_search :: "nat list \<Rightarrow> a_search option"
  from_a_get :: "nat list \<Rightarrow> a_get option"
  from_b_search :: "nat list \<Rightarrow> b_search option"
  from_b_get :: "nat list \<Rightarrow> b_get option"
  to_writes :: "retrieval_data \<Rightarrow> nat list list"

section \<open>Records and pages\<close>

definition checked_record ::
  "query \<Rightarrow> rstr \<Rightarrow> rstr \<Rightarrow> rstr \<Rightarrow> (law_record, retrieval_error) result" where
  "checked_record query i title body =
     (if \<not> valid_identifier i 128 \<or> title = [] \<or> 1024 < str_len title
         \<or> MAX_STRING_BYTES < str_len body
      then Err RENormalizationFailed
      else Ok \<lparr>r_source = q_source query, r_id = i, r_title = title, r_body = body,
               r_synthetic = True\<rparr>)"

text \<open>\<open>any(|r| !ids.insert(&r.id))\<close>: the set of identifiers seen so far is threaded along.\<close>

primrec any_repeated :: "rstr list \<Rightarrow> law_record list \<Rightarrow> bool" where
  "any_repeated ids [] = False"
| "any_repeated ids (r # rs) =
     (if r_id r \<in> set ids then True else any_repeated (r_id r # ids) rs)"

definition search_result ::
  "query \<Rightarrow> law_record list \<Rightarrow> nat \<Rightarrow> nat \<Rightarrow> nat \<Rightarrow> (retrieval_data, retrieval_error) result" where
  "search_result query records page page_size total_count =
     (case query of
        Get _ _ \<Rightarrow> Err RENormalizationFailed
      | Search _ _ requested_page requested_size \<Rightarrow>
          if page \<noteq> requested_page \<or> page_size \<noteq> requested_size
             \<or> page_size < length records \<or> 20000 < total_count
             \<or> length records \<noteq> min page_size (total_count - page * page_size)
          then Err RENormalizationFailed
          else if any_repeated [] records then Err RENormalizationFailed
          else Ok (RDSearch \<lparr>sp_records = records, sp_page = page, sp_page_size = page_size,
                             sp_total = total_count\<rparr>))"

text \<open>\<open>Counter::write\<close> and the sequence of writes that \<open>serde_json::to_writer\<close> makes on it.\<close>

definition counter_write :: "nat list \<Rightarrow> nat \<Rightarrow> (nat, retrieval_error) result" where
  "counter_write bytes left = ok_or (checked_sub left (length bytes)) REResourceLimit"

primrec counter_writes :: "nat list list \<Rightarrow> nat \<Rightarrow> (nat, retrieval_error) result" where
  "counter_writes [] left = Ok left"
| "counter_writes (w # ws) left = and_then (counter_write w left) (counter_writes ws)"

definition finish_answer ::
  "serde_json \<Rightarrow> query \<Rightarrow> retrieval_data \<Rightarrow> (retrieval_data, retrieval_error) result" where
  "finish_answer J query out =
     (if (case (query, out) of (Get _ i, RDGet r) \<Rightarrow> i \<noteq> r_id r | _ \<Rightarrow> False)
      then Err RENormalizationFailed
      else and_then (counter_writes (to_writes J out) MAX_PROCESSED_BYTES) (\<lambda>_. Ok out))"

section \<open>The lexical scan\<close>

text \<open>The locals of \<open>preflight\<close>; the head of \<open>lx_stack\<close> is the innermost open container.\<close>

record lexer =
  lx_stack :: "nat list"
  lx_in_string :: bool
  lx_escaped :: bool
  lx_length :: nat

definition lexer_start :: lexer where
  "lexer_start = \<lparr>lx_stack = [], lx_in_string = False, lx_escaped = False, lx_length = 0\<rparr>"

definition scan_string_byte :: "nat \<Rightarrow> lexer \<Rightarrow> (lexer, retrieval_error) result" where
  "scan_string_byte byte l =
     (let l = l\<lparr>lx_length := lx_length l + 1\<rparr> in
      if MAX_STRING_BYTES < lx_length l then Err REResourceLimit
      else if lx_escaped l then Ok (l\<lparr>lx_escaped := False\<rparr>)
      else if byte = 92 then Ok (l\<lparr>lx_escaped := True\<rparr>)
      else if byte = 34 then Ok (l\<lparr>lx_in_string := False\<rparr>)
      else Ok l)"

definition scan_plain_byte :: "nat \<Rightarrow> lexer \<Rightarrow> (lexer, retrieval_error) result" where
  "scan_plain_byte byte l =
     (if byte = 34 then Ok (l\<lparr>lx_in_string := True, lx_length := 0\<rparr>)
      else if byte = 123 \<or> byte = 91 then
        (if 32 \<le> length (lx_stack l) then Err REResourceLimit
         else Ok (l\<lparr>lx_stack := 1 # lx_stack l\<rparr>))
      else if byte = 125 \<or> byte = 93 then Ok (l\<lparr>lx_stack := tl (lx_stack l)\<rparr>)
      else if byte = 44 then
        (case lx_stack l of
           [] \<Rightarrow> Ok l
         | n # st \<Rightarrow>
             let n = n + 1 in
             if 1000 < n then Err REResourceLimit else Ok (l\<lparr>lx_stack := n # st\<rparr>))
      else Ok l)"

definition scan_byte :: "nat \<Rightarrow> lexer \<Rightarrow> (lexer, retrieval_error) result" where
  "scan_byte byte l = (if lx_in_string l then scan_string_byte byte l else scan_plain_byte byte l)"

primrec scan_bytes ::
  "nat list \<Rightarrow> lexer \<Rightarrow> work_budget \<Rightarrow> (unit, retrieval_error) result \<times> work_budget" where
  "scan_bytes [] l b = (Ok (), b)"
| "scan_bytes (byte # bytes) l b =
     (case spend 1 b of
        (Inl e, b) \<Rightarrow> (Err e, b)
      | (Inr _, b) \<Rightarrow>
          (case scan_byte byte l of
             Inl e \<Rightarrow> (Err e, b)
           | Inr l \<Rightarrow> scan_bytes bytes l b))"

definition preflight ::
  "nat list \<Rightarrow> work_budget \<Rightarrow> (unit, retrieval_error) result \<times> work_budget" where
  "preflight bytes b =
     (if MAX_PAYLOAD_BYTES < length bytes then (Err REResourceLimit, b)
      else scan_bytes bytes lexer_start b)"

section \<open>The two layouts\<close>

definition decode :: "(nat list \<Rightarrow> 'a option) \<Rightarrow> nat list \<Rightarrow> ('a, retrieval_error) result" where
  "decode from_slice bytes = ok_or (from_slice bytes) RENormalizationFailed"

primrec collect :: "('a, 'e) result list \<Rightarrow> ('a list, 'e) result" where
  "collect [] = Ok []"
| "collect (r # rs) = and_then r (\<lambda>x. and_then (collect rs) (\<lambda>xs. Ok (x # xs)))"

definition layout_a_answer ::
  "serde_json \<Rightarrow> nat list \<Rightarrow> query \<Rightarrow> (retrieval_data, retrieval_error) result" where
  "layout_a_answer J bytes query =
     and_then
       (case query of
          Search _ _ _ _ \<Rightarrow>
            and_then (decode (from_a_search J) bytes) (\<lambda>parsed.
              if as_kind parsed \<noteq> lit ''synthetic-layout-a'' then Err RENormalizationFailed
              else
                and_then
                  (collect (map (\<lambda>r. checked_record query (ar_id r) (ar_title r) (ar_body r))
                     (as_items parsed)))
                  (\<lambda>records. search_result query records (as_page parsed) (as_page_size parsed)
                     (as_total parsed)))
        | Get _ _ \<Rightarrow>
            and_then (decode (from_a_get J) bytes) (\<lambda>parsed.
              if ag_kind parsed \<noteq> lit ''synthetic-layout-a'' then Err RENormalizationFailed
              else
                let r = ag_item parsed in
                and_then (checked_record query (ar_id r) (ar_title r) (ar_body r))
                  (\<lambda>r. Ok (RDGet r))))
       (finish_answer J query)"

definition layout_b_answer ::
  "serde_json \<Rightarrow> nat list \<Rightarrow> query \<Rightarrow> (retrieval_data, retrieval_error) result" where
  "layout_b_answer J bytes query =
     and_then
       (case query of
          Search _ _ _ _ \<Rightarrow>
            and_then (decode (from_b_search J) bytes) (\<lambda>parsed.
              if bs_format parsed \<noteq> lit ''synthetic-layout-b'' then Err RENormalizationFailed
              else
                and_then
                  (collect (map (\<lambda>r. checked_record query (br_key r) (br_label r) (br_text r))
                     (bs_results parsed)))
                  (\<lambda>records. search_result query records (pg_index (bs_pagination parsed))
                     (pg_size (bs_pagination parsed)) (pg_count (bs_pagination parsed))))
        | Get _ _ \<Rightarrow>
            and_then (decode (from_b_get J) bytes) (\<lambda>parsed.
              if bg_format parsed \<noteq> lit ''synthetic-layout-b'' then Err RENormalizationFailed
              else
                let r = bg_document parsed in
                and_then (checked_record query (br_key r) (br_label r) (br_text r))
                  (\<lambda>r. Ok (RDGet r))))
       (finish_answer J query)"

text \<open>What both \<open>process\<close> methods do before they decode: admission, scan, and the second charge.\<close>

definition admit_payload ::
  "nat list \<Rightarrow> query \<Rightarrow> work_budget \<Rightarrow> (unit, retrieval_error) result \<times> work_budget" where
  "admit_payload bytes query b =
     (case query_validate query of
        Inl e \<Rightarrow> (Err e, b)
      | Inr _ \<Rightarrow>
          (case preflight bytes b of
             (Inl e, b) \<Rightarrow> (Err e, b)
           | (Inr _, b) \<Rightarrow> spend (length bytes) b))"

definition layout_a_process ::
  "serde_json \<Rightarrow> nat list \<Rightarrow> query \<Rightarrow> work_budget \<Rightarrow>
     (retrieval_data, retrieval_error) result \<times> work_budget" where
  "layout_a_process J bytes query b =
     (case admit_payload bytes query b of
        (Inl e, b) \<Rightarrow> (Err e, b)
      | (Inr _, b) \<Rightarrow> (layout_a_answer J bytes query, b))"

definition layout_b_process ::
  "serde_json \<Rightarrow> nat list \<Rightarrow> query \<Rightarrow> work_budget \<Rightarrow>
     (retrieval_data, retrieval_error) result \<times> work_budget" where
  "layout_b_process J bytes query b =
     (case admit_payload bytes query b of
        (Inl e, b) \<Rightarrow> (Err e, b)
      | (Inr _, b) \<Rightarrow> (layout_b_answer J bytes query, b))"

definition layout_a_version :: rstr where
  "layout_a_version = lit ''synthetic-layout-a-v1''"

definition layout_b_version :: rstr where
  "layout_b_version = lit ''synthetic-layout-b-v1''"

section \<open>What an answer has to be\<close>

definition record_ok :: "query \<Rightarrow> law_record \<Rightarrow> bool" where
  "record_ok query r \<longleftrightarrow>
     r_source r = q_source query \<and> r_synthetic r \<and> valid_identifier (r_id r) 128
     \<and> r_title r \<noteq> [] \<and> str_len (r_title r) \<le> 1024 \<and> str_len (r_body r) \<le> MAX_STRING_BYTES"

fun answers_query :: "query \<Rightarrow> retrieval_data \<Rightarrow> bool" where
  "answers_query (Search s t page per) (RDSearch p) \<longleftrightarrow>
     sp_page p = page \<and> sp_page_size p = per \<and> sp_total p \<le> 20000
     \<and> length (sp_records p) = min per (sp_total p - page * per)
     \<and> distinct (map r_id (sp_records p))
     \<and> list_all (record_ok (Search s t page per)) (sp_records p)"
| "answers_query (Get s i) (RDGet r) \<longleftrightarrow> record_ok (Get s i) r \<and> r_id r = i"
| "answers_query _ _ \<longleftrightarrow> False"

definition json_size :: "serde_json \<Rightarrow> retrieval_data \<Rightarrow> nat" where
  "json_size J d = sum_list (map length (to_writes J d))"

locale payload_processor =
  fixes process :: "nat list \<Rightarrow> query \<Rightarrow> work_budget \<Rightarrow>
      (retrieval_data, retrieval_error) result \<times> work_budget"
    and output_size :: "retrieval_data \<Rightarrow> nat"
  assumes admitted: "process bytes q b = (Inr d, b') \<Longrightarrow> query_validate q = Ok ()"
    and conforms: "process bytes q b = (Inr d, b') \<Longrightarrow> answers_query q d"
    and charged: "process bytes q b = (Inr d, b') \<Longrightarrow> remaining b = remaining b' + 2 * length bytes"
    and bounded: "process bytes q b = (Inr d, b') \<Longrightarrow> output_size d \<le> MAX_PROCESSED_BYTES"
    and failure: "process bytes q b = (Inl e, b') \<Longrightarrow>
      e = REInvalidInput \<or> e = REResourceLimit \<or> e = RENormalizationFailed"
begin

lemma search_answer:
  assumes "process bytes (Search s t page per) b = (Inr d, b')"
  obtains p where "d = RDSearch p" "sp_page p = page" "sp_page_size p = per"
    "length (sp_records p) = min per (sp_total p - page * per)"
    "distinct (map r_id (sp_records p))"
  using conforms [OF assms] by (cases d) auto

lemma search_size_pos:
  assumes "process bytes (Search s t page per) b = (Inr d, b')"
  shows "0 < per"
  using admitted [OF assms] by (auto split: if_splits)

text \<open>Reading the pages of a search one after the other misses and repeats no position.\<close>

lemma pages_collect:
  assumes "\<And>i. i < n \<Longrightarrow>
      process (payload i) (Search s t i per) (budget i) = (Inr (RDSearch (page i)), rest i)"
    and "\<And>i. i < n \<Longrightarrow> sp_total (page i) = hits"
  shows "length (concat (map (\<lambda>i. sp_records (page i)) [0..<n])) = min hits (n * per)"
  using assms
proof (induction n)
  case (Suc n)
  have "length (sp_records (page n)) = min per (hits - n * per)"
    using conforms [OF Suc.prems(1) [of n]] Suc.prems(2) [of n] by simp
  moreover have "length (concat (map (\<lambda>i. sp_records (page i)) [0..<n])) = min hits (n * per)"
    using Suc by simp
  ultimately have "length (concat (map (\<lambda>i. sp_records (page i)) [0..<Suc n]))
      = min hits (n * per) + min per (hits - n * per)" by simp
  also have "\<dots> = min hits (Suc n * per)" by (auto simp: min_def)
  finally show ?case .
qed simp

end

section \<open>Lemmas\<close>

lemma spend_simps:
  "spend n b = (if n \<le> remaining b then (Ok (), \<lparr>remaining = remaining b - n\<rparr>) else (Err REResourceLimit, b))"
  by (cases b) (auto simp: spend_def checked_sub_def)

lemma any_repeated_iff:
  "any_repeated ids rs \<longleftrightarrow> \<not> distinct (map r_id rs) \<or> set ids \<inter> set (map r_id rs) \<noteq> {}"
  by (induction rs arbitrary: ids) auto

lemma counter_writes_iff:
  "counter_writes ws left =
     (if sum_list (map length ws) \<le> left then Ok (left - sum_list (map length ws)) else Err REResourceLimit)"
  by (induction ws arbitrary: left) (auto simp: counter_write_def checked_sub_def)

lemma checked_record_Ok: "checked_record q i t b = Ok r \<Longrightarrow> record_ok q r \<and> r_id r = i"
  by (auto simp: checked_record_def record_ok_def split: if_splits)

lemma checked_record_Err: "checked_record q i t b = Err e \<Longrightarrow> e = RENormalizationFailed"
  by (auto simp: checked_record_def split: if_splits)

lemma collect_Ok: "collect rs = Ok xs \<longleftrightarrow> rs = map Inr xs"
proof (induction rs arbitrary: xs)
  case (Cons r rs)
  then show ?case by (cases xs) (auto simp: result_simps)
qed auto

lemma collect_Err: "collect rs = Err e \<Longrightarrow> Inl e \<in> set rs"
  by (induction rs) (auto simp: result_simps)

lemma collect_records:
  assumes "collect (map (\<lambda>r. checked_record q (f r) (g r) (h r)) xs) = Ok rs"
  shows "list_all (record_ok q) rs"
proof -
  have *: "map (\<lambda>r. checked_record q (f r) (g r) (h r)) xs = map Inr rs"
    using assms by (simp add: collect_Ok)
  have "record_ok q r" if r: "r \<in> set rs" for r
  proof -
    from r have "Inr r \<in> set (map (\<lambda>r. checked_record q (f r) (g r) (h r)) xs)"
      unfolding * by simp
    then show ?thesis using checked_record_Ok by fastforce
  qed
  then show ?thesis by (auto simp: list_all_iff)
qed

lemma collect_records_Err:
  "collect (map (\<lambda>r. checked_record q (f r) (g r) (h r)) xs) = Err e \<Longrightarrow> e = RENormalizationFailed"
  using checked_record_Err by (fastforce dest: collect_Err)

lemma search_result_Ok:
  assumes "search_result q rs page per n = Ok d" "list_all (record_ok q) rs"
  shows "answers_query q d"
  using assms by (cases q) (auto simp: search_result_def any_repeated_iff split: if_splits)

lemma search_result_Err: "search_result q rs page per n = Err e \<Longrightarrow> e = RENormalizationFailed"
  by (auto simp: search_result_def split: query.splits if_splits)

text \<open>Before \<open>finish\<close>, the answer to a \<open>Get\<close> may still carry another identifier.\<close>

fun drafted :: "query \<Rightarrow> retrieval_data \<Rightarrow> bool" where
  "drafted (Get s i) (RDGet r) \<longleftrightarrow> record_ok (Get s i) r"
| "drafted q d \<longleftrightarrow> answers_query q d"

lemma finish_answer_Ok:
  assumes "finish_answer J q d = Ok d'" "drafted q d"
  shows "answers_query q d' \<and> json_size J d' \<le> MAX_PROCESSED_BYTES"
  using assms
  by (cases q; cases d)
    (auto simp: finish_answer_def counter_writes_iff json_size_def result_simps split: if_splits)

lemma finish_answer_Err:
  "finish_answer J q d = Err e \<Longrightarrow> e = RENormalizationFailed \<or> e = REResourceLimit"
  by (auto simp: finish_answer_def counter_writes_iff result_simps split: if_splits)

lemma search_drafted: "is_Search q \<Longrightarrow> answers_query q d \<Longrightarrow> drafted q d"
  by (cases q; cases d) auto

lemma search_answer_Ok:
  assumes "collect (map (\<lambda>r. checked_record q (f r) (g r) (h r)) xs) = Ok rs"
    and "search_result q rs page per n = Ok d0" "finish_answer J q d0 = Ok d" "is_Search q"
  shows "answers_query q d \<and> json_size J d \<le> MAX_PROCESSED_BYTES"
  by (rule finish_answer_Ok [OF assms(3)], rule search_drafted [OF assms(4)],
      rule search_result_Ok [OF assms(2)], rule collect_records [OF assms(1)])

lemma get_answer_Ok:
  assumes "checked_record (Get s i) f g h = Ok r" "finish_answer J (Get s i) (RDGet r) = Ok d"
  shows "answers_query (Get s i) d \<and> json_size J d \<le> MAX_PROCESSED_BYTES"
  using finish_answer_Ok [OF assms(2)] checked_record_Ok [OF assms(1)] by simp

lemma layout_a_answer_Ok:
  assumes "layout_a_answer J bytes q = Ok d"
  shows "answers_query q d \<and> json_size J d \<le> MAX_PROCESSED_BYTES"
proof (cases q)
  case [simp]: (Search s t page per)
  obtain parsed :: a_search and records d0 where
    "collect (map (\<lambda>r. checked_record q (ar_id r) (ar_title r) (ar_body r)) (as_items parsed)) = Ok records"
    "search_result q records (as_page parsed) (as_page_size parsed) (as_total parsed) = Ok d0"
    "finish_answer J q d0 = Ok d"
    using assms by (auto simp: layout_a_answer_def result_simps)
  then show ?thesis by (rule search_answer_Ok) simp
next
  case [simp]: (Get s i)
  obtain r :: a_record and d0 where "checked_record q (ar_id r) (ar_title r) (ar_body r) = Ok d0"
    "finish_answer J q (RDGet d0) = Ok d"
    using assms by (auto simp: layout_a_answer_def result_simps Let_def)
  then show ?thesis unfolding Get by (rule get_answer_Ok)
qed

lemma layout_b_answer_Ok:
  assumes "layout_b_answer J bytes q = Ok d"
  shows "answers_query q d \<and> json_size J d \<le> MAX_PROCESSED_BYTES"
proof (cases q)
  case [simp]: (Search s t page per)
  obtain parsed :: b_search and records d0 where
    "collect (map (\<lambda>r. checked_record q (br_key r) (br_label r) (br_text r)) (bs_results parsed)) = Ok records"
    "search_result q records (pg_index (bs_pagination parsed)) (pg_size (bs_pagination parsed))
       (pg_count (bs_pagination parsed)) = Ok d0"
    "finish_answer J q d0 = Ok d"
    using assms by (auto simp: layout_b_answer_def result_simps)
  then show ?thesis by (rule search_answer_Ok) simp
next
  case [simp]: (Get s i)
  obtain r :: b_record and d0 where "checked_record q (br_key r) (br_label r) (br_text r) = Ok d0"
    "finish_answer J q (RDGet d0) = Ok d"
    using assms by (auto simp: layout_b_answer_def result_simps Let_def)
  then show ?thesis unfolding Get by (rule get_answer_Ok)
qed

lemmas answer_errors = checked_record_Err collect_records_Err search_result_Err

lemma layout_a_answer_Err:
  "layout_a_answer J bytes q = Err e \<Longrightarrow> e = RENormalizationFailed \<or> e = REResourceLimit"
  by (auto simp: layout_a_answer_def decode_def Let_def result_simps
      split: query.splits if_splits dest: answer_errors finish_answer_Err)

lemma layout_b_answer_Err:
  "layout_b_answer J bytes q = Err e \<Longrightarrow> e = RENormalizationFailed \<or> e = REResourceLimit"
  by (auto simp: layout_b_answer_def decode_def Let_def result_simps
      split: query.splits if_splits dest: answer_errors finish_answer_Err)

lemma query_validate_Err: "query_validate q = Err e \<Longrightarrow> e = REInvalidInput"
  by (cases q) (auto split: if_splits)

subsection \<open>The scan decides the limits of every prefix\<close>

text \<open>The same lexer without limits, and the limits as a predicate on its states.\<close>

definition lex_step :: "nat \<Rightarrow> lexer \<Rightarrow> lexer" where
  "lex_step byte l =
     (if lx_in_string l then
        (let l = l\<lparr>lx_length := lx_length l + 1\<rparr> in
         if lx_escaped l then l\<lparr>lx_escaped := False\<rparr>
         else if byte = 92 then l\<lparr>lx_escaped := True\<rparr>
         else if byte = 34 then l\<lparr>lx_in_string := False\<rparr>
         else l)
      else if byte = 34 then l\<lparr>lx_in_string := True, lx_length := 0\<rparr>
      else if byte = 123 \<or> byte = 91 then l\<lparr>lx_stack := 1 # lx_stack l\<rparr>
      else if byte = 125 \<or> byte = 93 then l\<lparr>lx_stack := tl (lx_stack l)\<rparr>
      else if byte = 44 then
        (case lx_stack l of [] \<Rightarrow> l | n # st \<Rightarrow> l\<lparr>lx_stack := (n + 1) # st\<rparr>)
      else l)"

definition lexed :: "nat list \<Rightarrow> lexer" where
  "lexed bytes = fold lex_step bytes lexer_start"

definition within_limits :: "lexer \<Rightarrow> bool" where
  "within_limits l \<longleftrightarrow>
     length (lx_stack l) \<le> 32 \<and> list_all (\<lambda>n. n \<le> 1000) (lx_stack l)
     \<and> lx_length l \<le> MAX_STRING_BYTES"

lemma scan_byte_iff:
  assumes "within_limits l"
  shows "scan_byte byte l =
    (if within_limits (lex_step byte l) then Ok (lex_step byte l) else Err REResourceLimit)"
proof (cases "lx_in_string l")
  case True
  then show ?thesis
    using assms
    by (auto simp: scan_byte_def scan_string_byte_def lex_step_def within_limits_def Let_def)
next
  case False
  have "list_all (\<lambda>n. n \<le> 1000) (tl (lx_stack l))"
    using assms by (cases "lx_stack l") (auto simp: within_limits_def)
  then show ?thesis
    using assms False
    by (auto simp: scan_byte_def scan_plain_byte_def lex_step_def within_limits_def Let_def
        split: list.splits)
qed

lemma prefixes_Cons:
  "(\<forall>n\<le>length (x # xs). P (fold f (take n (x # xs)) l)) \<longleftrightarrow>
     P l \<and> (\<forall>n\<le>length xs. P (fold f (take n xs) (f x l)))"
  (is "?L \<longleftrightarrow> ?R")
proof
  assume L: ?L
  have "P l" using L [rule_format, of 0] by simp
  moreover have "P (fold f (take n xs) (f x l))" if "n \<le> length xs" for n
    using L [rule_format, of "Suc n"] that by simp
  ultimately show ?R by blast
next
  assume R: ?R
  show ?L
  proof (intro allI impI)
    fix n assume "n \<le> length (x # xs)"
    then show "P (fold f (take n (x # xs)) l)" using R by (cases n) auto
  qed
qed

lemma scan_bytes_iff:
  assumes "within_limits l"
  shows "fst (scan_bytes bytes l b) =
      (if length bytes \<le> remaining b \<and> (\<forall>n\<le>length bytes. within_limits (fold lex_step (take n bytes) l))
       then Ok () else Err REResourceLimit)
    \<and> (fst (scan_bytes bytes l b) = Ok () \<longrightarrow>
         snd (scan_bytes bytes l b) = \<lparr>remaining = remaining b - length bytes\<rparr>)"
  using assms
proof (induction bytes arbitrary: l b)
  case Nil
  then show ?case by simp
next
  case (Cons byte bytes)
  show ?case
  proof (cases "1 \<le> remaining b \<and> within_limits (lex_step byte l)")
    case True
    then show ?thesis
      using Cons.IH [of "lex_step byte l" "\<lparr>remaining = remaining b - 1\<rparr>"] Cons.prems
      unfolding prefixes_Cons
      by (auto simp: spend_simps scan_byte_iff)
  next
    case False
    then show ?thesis
      using Cons.prems unfolding prefixes_Cons
      by (auto simp: spend_simps scan_byte_iff dest: spec [of _ 0])
  qed
qed

lemma lexer_start_within [simp]: "within_limits lexer_start"
  by (simp add: within_limits_def lexer_start_def)

lemma preflight_Ok:
  assumes "preflight bytes b = (Inr u, b')"
  shows "length bytes \<le> MAX_PAYLOAD_BYTES" "remaining b = remaining b' + length bytes"
  using assms scan_bytes_iff [of lexer_start bytes b]
  by (auto simp: preflight_def split: if_splits)

lemma preflight_Err: "preflight bytes b = (Inl e, b') \<Longrightarrow> e = REResourceLimit"
  using scan_bytes_iff [of lexer_start bytes b]
  by (auto simp: preflight_def split: if_splits)

lemma admit_payload_Ok:
  assumes "admit_payload bytes q b = (Inr u, b')"
  shows "query_validate q = Ok ()" "remaining b = remaining b' + 2 * length bytes"
  using assms
  by (auto simp: admit_payload_def spend_simps split: sum.splits prod.splits if_splits
      dest: preflight_Ok(2))

lemma admit_payload_Err:
  "admit_payload bytes q b = (Inl e, b') \<Longrightarrow> e = REInvalidInput \<or> e = REResourceLimit"
  by (auto simp: admit_payload_def spend_simps split: sum.splits prod.splits if_splits
      dest: preflight_Err query_validate_Err)

interpretation layout_a: payload_processor "layout_a_process J" "json_size J" for J
  by unfold_locales
    (auto simp: layout_a_process_def split: sum.splits prod.splits
      dest: admit_payload_Ok admit_payload_Err layout_a_answer_Ok layout_a_answer_Err)

interpretation layout_b: payload_processor "layout_b_process J" "json_size J" for J
  by unfold_locales
    (auto simp: layout_b_process_def split: sum.splits prod.splits
      dest: admit_payload_Ok admit_payload_Err layout_b_answer_Ok layout_b_answer_Err)

section \<open>Properties\<close>

text \<open>
  A decoder that knows one document per type, and writes an answer as the bytes of its titles;
  it instantiates the \<open>serde_json\<close> parameter in the witnesses.
\<close>

definition sample_serde :: serde_json where
  "sample_serde =
     \<lparr>from_a_search = (\<lambda>bytes. Some \<lparr>as_kind = lit ''synthetic-layout-a'',
        as_items = [\<lparr>ar_id = lit ''001'', ar_title = lit ''T'', ar_body = lit ''B''\<rparr>],
        as_page = 0, as_page_size = 5, as_total = 1\<rparr>),
      from_a_get = (\<lambda>bytes. Some \<lparr>ag_kind = lit ''synthetic-layout-a'',
        ag_item = \<lparr>ar_id = lit ''001'', ar_title = lit ''T'', ar_body = lit ''B''\<rparr>\<rparr>),
      from_b_search = (\<lambda>bytes. Some \<lparr>bs_format = lit ''synthetic-layout-b'',
        bs_results = [\<lparr>br_key = lit ''001'', br_label = lit ''T'', br_text = lit ''B''\<rparr>],
        bs_pagination = \<lparr>pg_index = 0, pg_size = 5, pg_count = 1\<rparr>\<rparr>),
      from_b_get = (\<lambda>bytes. Some \<lparr>bg_format = lit ''synthetic-layout-b'',
        bg_document = \<lparr>br_key = lit ''001'', br_label = lit ''T'', br_text = lit ''B''\<rparr>\<rparr>),
      to_writes = (\<lambda>d. case d of RDSearch p \<Rightarrow> map r_title (sp_records p) | RDGet r \<Rightarrow> [r_title r])\<rparr>"

definition sample_page :: search_page where
  "sample_page =
     \<lparr>sp_records = [\<lparr>r_source = lit ''layout_a'', r_id = lit ''001'', r_title = lit ''T'',
        r_body = lit ''B'', r_synthetic = True\<rparr>],
      sp_page = 0, sp_page_size = 5, sp_total = 1\<rparr>"

lemma sample_process:
  "layout_a_process sample_serde (lit ''{}'') (Search (lit ''layout_a'') [] 0 5) \<lparr>remaining = 9\<rparr>
     = (Ok (RDSearch sample_page), \<lparr>remaining = 5\<rparr>)"
  by code_simp

lemma sample_total: "sp_total sample_page = 1"
  by (simp add: sample_page_def)

text \<open>
  C20. Whatever bytes a layout processor accepts, its result answers the query it was given: a
  search result is the requested page, has exactly the number of records the reported total
  leaves for that page, with distinct valid identifiers and the source of the query; a fetched
  record has the requested identifier.  The answer serialises within 64 KiB, the query was
  admissible, and the budget was charged for both passes over the payload.
\<close>

theorem processor_answers_query:
  assumes "process = layout_a_process J \<or> process = layout_b_process J"
    and "process bytes q b = (Ok d, b')"
  shows "query_validate q = Ok () \<and> answers_query q d \<and> json_size J d \<le> MAX_PROCESSED_BYTES
    \<and> remaining b = remaining b' + 2 * length bytes"
  using assms layout_a.admitted layout_a.conforms layout_a.bounded layout_a.charged
    layout_b.admitted layout_b.conforms layout_b.bounded layout_b.charged
  by metis

theorem processor_answers_query_witness:
  "answers_query (Search (lit ''layout_a'') [] 0 5) (RDSearch sample_page)"
  using processor_answers_query [OF disjI1 [OF refl] sample_process] by blast

text \<open>
  The pages of a search fit together: when the pages 0 to n - 1 of one search are processed
  and report the same total, the records read number exactly that total or n full pages,
  whichever is less, so no position of the result is skipped or served twice.
\<close>

theorem processor_pages_complete:
  assumes "process = layout_a_process J \<or> process = layout_b_process J"
    and "\<And>i. i < n \<Longrightarrow>
      process (payload i) (Search s t i per) (budget i) = (Ok (RDSearch (page i)), rest i)"
    and "\<And>i. i < n \<Longrightarrow> sp_total (page i) = hits"
  shows "length (concat (map (\<lambda>i. sp_records (page i)) [0..<n])) = min hits (n * per)"
  using assms(1)
proof
  assume [simp]: "process = layout_a_process J"
  show ?thesis by (rule layout_a.pages_collect [OF assms(2) [simplified] assms(3)])
next
  assume [simp]: "process = layout_b_process J"
  show ?thesis by (rule layout_b.pages_collect [OF assms(2) [simplified] assms(3)])
qed

theorem processor_pages_complete_witness:
  "length (concat (map (\<lambda>i. sp_records sample_page) [0..<1])) = min 1 (1 * 5)"
  by (rule processor_pages_complete
      [where process = "layout_a_process sample_serde" and J = sample_serde
        and payload = "\<lambda>_. lit ''{}''" and s = "lit ''layout_a''" and t = "[]"
        and budget = "\<lambda>_. \<lparr>remaining = 9\<rparr>" and rest = "\<lambda>_. \<lparr>remaining = 5\<rparr>"])
    (simp_all add: sample_process sample_total del: lit_simps)

text \<open>
  C29. The lexical scan is the reference lexer with its limits checked at every prefix: a payload
  passes exactly when it is at most 1 MiB, the budget covers one unit per byte, and after every
  prefix at most 32 containers are open, none of them has more than 1000 elements, and no string
  is longer than 16 KiB.  Every other payload is refused with \<open>ResourceLimit\<close>; a payload that
  passes costs exactly its length.
\<close>

theorem preflight_decides:
  "fst (preflight bytes b) =
     (if length bytes \<le> MAX_PAYLOAD_BYTES \<and> length bytes \<le> remaining b
         \<and> (\<forall>n\<le>length bytes. within_limits (lexed (take n bytes)))
      then Ok () else Err REResourceLimit)
   \<and> (fst (preflight bytes b) = Ok () \<longrightarrow>
        remaining (snd (preflight bytes b)) = remaining b - length bytes)"
  using scan_bytes_iff [of lexer_start bytes b] by (auto simp: preflight_def lexed_def not_less)

theorem preflight_decides_witness:
  "fst (preflight (lit ''{}'') \<lparr>remaining = 1\<rparr>) = Err REResourceLimit
   \<and> remaining (snd (preflight (lit ''[1,2]'') \<lparr>remaining = 7\<rparr>)) = 2"
proof -
  have "fst (preflight (lit ''[1,2]'') \<lparr>remaining = 7\<rparr>) = Ok ()" by code_simp
  then show ?thesis
    using preflight_decides [of "lit ''{}''" "\<lparr>remaining = 1\<rparr>"]
      preflight_decides [of "lit ''[1,2]''" "\<lparr>remaining = 7\<rparr>"] by simp
qed

text \<open>The document of layout A that says what a document of layout B says.\<close>

definition a_of_b_record :: "b_record \<Rightarrow> a_record" where
  "a_of_b_record r = \<lparr>ar_id = br_key r, ar_title = br_label r, ar_body = br_text r\<rparr>"

definition a_of_b_kind :: "rstr \<Rightarrow> rstr" where
  "a_of_b_kind f = (if f = lit ''synthetic-layout-b'' then lit ''synthetic-layout-a'' else [])"

definition a_of_b_search :: "b_search \<Rightarrow> a_search" where
  "a_of_b_search s =
     \<lparr>as_kind = a_of_b_kind (bs_format s), as_items = map a_of_b_record (bs_results s),
      as_page = pg_index (bs_pagination s), as_page_size = pg_size (bs_pagination s),
      as_total = pg_count (bs_pagination s)\<rparr>"

definition a_of_b_get :: "b_get \<Rightarrow> a_get" where
  "a_of_b_get g =
     \<lparr>ag_kind = a_of_b_kind (bg_format g), ag_item = a_of_b_record (bg_document g)\<rparr>"

lemmas a_of_b_defs = a_of_b_search_def a_of_b_get_def a_of_b_record_def

lemma a_of_b_kind_iff: "a_of_b_kind f = lit ''synthetic-layout-a'' \<longleftrightarrow> f = lit ''synthetic-layout-b''"
  by (simp add: a_of_b_kind_def)

lemma answers_agree:
  assumes "from_a_search J x = map_option a_of_b_search (from_b_search J y)"
    and "from_a_get J x = map_option a_of_b_get (from_b_get J y)"
  shows "layout_a_answer J x q = layout_b_answer J y q"
proof (cases q)
  case (Search s t page per)
  then show ?thesis
    using assms(1)
    by (cases "from_b_search J y")
      (simp_all add: layout_a_answer_def layout_b_answer_def decode_def a_of_b_search_def
        a_of_b_record_def a_of_b_kind_iff comp_def del: lit_simps)
next
  case (Get s i)
  then show ?thesis
    using assms(2)
    by (cases "from_b_get J y")
      (simp_all add: layout_a_answer_def layout_b_answer_def decode_def a_of_b_get_def
        a_of_b_record_def a_of_b_kind_iff Let_def del: lit_simps)
qed

text \<open>
  The two layouts mean the same: a payload of layout A and a payload of layout B that decode
  to the same content, and that pass or fail admission alike, give the same answer or the same
  error to every query.
\<close>

theorem layouts_agree:
  assumes "from_a_search J x = map_option a_of_b_search (from_b_search J y)"
    and "from_a_get J x = map_option a_of_b_get (from_b_get J y)"
    and "fst (admit_payload x q b) = fst (admit_payload y q b)"
  shows "fst (layout_a_process J x q b) = fst (layout_b_process J y q b)"
  using assms(3) answers_agree [OF assms(1,2)]
  by (auto simp: layout_a_process_def layout_b_process_def split: sum.splits prod.splits)

theorem layouts_agree_witness:
  "fst (layout_a_process sample_serde (lit ''{}'') (Get (lit ''s'') (lit ''001'')) \<lparr>remaining = 9\<rparr>)
   = fst (layout_b_process sample_serde (lit ''[]'') (Get (lit ''s'') (lit ''001'')) \<lparr>remaining = 9\<rparr>)"
  by (rule layouts_agree) code_simp+

end
