(* ===== verification/Ascii_Text.thy ===== *)
theory Ascii_Text
  imports Rust_Text "HOL-Library.List_Lexorder"
begin

text \<open>
  The string operations the corpus contracts use beside those of \<open>Rust_Text\<close>: trimming, ASCII
  case mapping, words, and the byte order of strings.  UTF-8 keeps the order of code points, so
  Rust's comparison of strings is the lexicographic order of the lists of scalar values.
\<close>

definition is_ascii_alphabetic :: "rchar \<Rightarrow> bool" where
  "is_ascii_alphabetic c \<longleftrightarrow> is_ascii_lowercase c \<or> is_ascii_uppercase c"

definition to_ascii_lower :: "rchar \<Rightarrow> rchar" where
  "to_ascii_lower c = (if is_ascii_uppercase c then c + 32 else c)"

definition to_ascii_upper :: "rchar \<Rightarrow> rchar" where
  "to_ascii_upper c = (if is_ascii_lowercase c then c - 32 else c)"

definition to_ascii_lowercase :: "rstr \<Rightarrow> rstr" where
  "to_ascii_lowercase s = map to_ascii_lower s"

definition to_ascii_uppercase :: "rstr \<Rightarrow> rstr" where
  "to_ascii_uppercase s = map to_ascii_upper s"

definition eq_ignore_ascii_case :: "rstr \<Rightarrow> rstr \<Rightarrow> bool" where
  "eq_ignore_ascii_case s t \<longleftrightarrow> to_ascii_lowercase s = to_ascii_lowercase t"

definition trim :: "rstr \<Rightarrow> rstr" where
  "trim s = rev (dropWhile is_whitespace (rev (dropWhile is_whitespace s)))"

function split_whitespace :: "rstr \<Rightarrow> rstr list" where
  "split_whitespace [] = []"
| "split_whitespace (c # s) =
     (if is_whitespace c then split_whitespace s
      else (c # takeWhile (Not \<circ> is_whitespace) s)
        # split_whitespace (dropWhile (Not \<circ> is_whitespace) s))"
  by pat_completeness auto
termination
  by (relation "measure length") (auto simp: less_Suc_eq_le length_dropWhile_le)

lemma trim_none:
  assumes "s = [] \<or> (\<not> is_whitespace (hd s) \<and> \<not> is_whitespace (last s))"
  shows "trim s = s"
proof -
  have "dropWhile is_whitespace s = s" using assms by (cases s) auto
  moreover have "dropWhile is_whitespace (rev s) = rev s"
    using assms by (cases s rule: rev_cases) auto
  ultimately show ?thesis by (simp add: trim_def)
qed

lemma dropWhile_all_append: "list_all P a \<Longrightarrow> dropWhile P (a @ s) = dropWhile P s"
  by (induction a) auto

lemma trim_surrounded:
  assumes "list_all is_whitespace a" "list_all is_whitespace b" "s \<noteq> []" "list_all (Not \<circ> is_whitespace) s"
  shows "trim (a @ s @ b) = s"
proof -
  obtain c s' where s: "s = c # s'" using assms(3) by (cases s) auto
  have "dropWhile is_whitespace (a @ s @ b) = s @ b"
    using assms(1,4) s by (simp add: dropWhile_all_append)
  moreover have "dropWhile is_whitespace (rev (s @ b)) = rev s"
  proof -
    obtain d t where t: "s = t @ [d]" using assms(3) by (cases s rule: rev_cases) auto
    have "list_all is_whitespace (rev b)" using assms(2) by (simp add: list_all_iff)
    then show ?thesis using assms(4) t by (simp add: dropWhile_all_append)
  qed
  ultimately show ?thesis by (simp add: trim_def)
qed

lemma to_ascii_lower_idem [simp]: "to_ascii_lower (to_ascii_lower c) = to_ascii_lower c"
  by (auto simp: to_ascii_lower_def is_ascii_uppercase_def)

lemma alphabetic_lower [simp]: "is_ascii_alphabetic (to_ascii_lower c) \<longleftrightarrow> is_ascii_alphabetic c"
  by (auto simp: to_ascii_lower_def is_ascii_alphabetic_def is_ascii_uppercase_def
      is_ascii_lowercase_def)

lemma alphabetic_ascii: "is_ascii_alphabetic c \<Longrightarrow> c < 128 \<and> \<not> is_whitespace c"
  by (auto simp: is_ascii_alphabetic_def is_ascii_uppercase_def is_ascii_lowercase_def
      is_whitespace_def)

end
