(* ===== verification/Rights.thy ===== *)
theory Rights
  imports Ascii_Text Retrieval_Domain
begin

text \<open>
  The reuse conditions of original materials, \<open>crates/domain/src/rights.rs\<close>, and the legal systems
  with an implemented profile, \<open>crates/domain/src/jurisdiction.rs\<close>.

  URL parsing belongs to the \<open>url\<close> crate and JSON decoding to \<open>serde_json\<close>: \<open>parse_url\<close> and
  \<open>from_json\<close> are parameters, and the record \<open>url_parts\<close> holds the accessors the code calls.
\<close>

section \<open>Public source addresses\<close>

record url_parts =
  u_scheme :: rstr
  u_host_str :: "rstr option"
  u_username :: rstr
  u_password :: "rstr option"
  u_fragment :: "rstr option"
  u_query_pairs :: "(rstr \<times> rstr) list"

type_synonym url_parser = "rstr \<Rightarrow> url_parts option"

definition credential_keys :: "rstr list" where
  "credential_keys =
     [lit ''oc'', lit ''key'', lit ''apikey'', lit ''api_key'', lit ''token'', lit ''servicekey'',
      lit ''password'']"

definition credential_key :: "rstr \<Rightarrow> bool" where
  "credential_key k \<longleftrightarrow> to_ascii_lowercase k \<in> set credential_keys"

definition public_source_url :: "url_parser \<Rightarrow> rstr \<Rightarrow> bool" where
  "public_source_url parse_url text =
     (case parse_url text of
        None \<Rightarrow> False
      | Some url \<Rightarrow>
          u_scheme url = lit ''https'' \<and> u_host_str url \<noteq> None \<and> u_username url = []
          \<and> u_password url = None \<and> u_fragment url = None
          \<and> \<not> list_ex (\<lambda>(key, _). credential_key key) (u_query_pairs url))"

section \<open>Rights\<close>

record source_rights =
  sr_basis :: rstr
  sr_evidence_url :: rstr
  sr_attribution :: rstr
  sr_commercial_use :: "bool option"
  sr_derivatives :: "bool option"
  sr_redistribution :: "bool option"

definition source_rights_default :: source_rights where
  "source_rights_default =
     \<lparr>sr_basis = [], sr_evidence_url = [], sr_attribution = [], sr_commercial_use = None,
      sr_derivatives = None, sr_redistribution = None\<rparr>"

definition kogl :: "nat \<Rightarrow> rstr \<Rightarrow> rstr \<Rightarrow> source_rights" where
  "kogl kind evidence_url attribution =
     (if \<not> kind \<le> 4 then source_rights_default
      else \<lparr>sr_basis = lit ''KOGL-'' @ nat_str kind,
            sr_evidence_url = evidence_url,
            sr_attribution = attribution,
            sr_commercial_use = Some (kind = 0 \<or> kind = 1 \<or> kind = 3),
            sr_derivatives = Some (kind \<le> 2),
            sr_redistribution = Some True\<rparr>)"

definition legal_information :: source_rights where
  "legal_information =
     \<lparr>sr_basis = lit ''LAW OPEN DATA legal-information reuse policy'',
      sr_evidence_url = lit ''https://open.law.go.kr/LSO/information/guide.do'',
      sr_attribution = [48277, 51228, 52376, 32, 44397, 44032, 48277, 47161, 51221, 48372, 49468,
        53552, 32, 47, 32, 50896, 32, 51228, 44277, 44592, 44288],
      sr_commercial_use = Some True,
      sr_derivatives = Some True,
      sr_redistribution = Some True\<rparr>"

definition can_store :: "url_parser \<Rightarrow> source_rights \<Rightarrow> bool" where
  "can_store parse_url r \<longleftrightarrow>
     sr_redistribution r = Some True
     \<and> trim (sr_basis r) \<noteq> []
     \<and> trim (sr_attribution r) \<noteq> []
     \<and> public_source_url parse_url (sr_evidence_url r)
     \<and> sr_commercial_use r \<noteq> None
     \<and> sr_derivatives r \<noteq> None"

definition can_process :: "url_parser \<Rightarrow> source_rights \<Rightarrow> bool" where
  "can_process parse_url r \<longleftrightarrow> can_store parse_url r \<and> sr_derivatives r = Some True"

definition rights_warnings :: "url_parser \<Rightarrow> source_rights \<Rightarrow> rstr list" where
  "rights_warnings parse_url r =
     (if \<not> can_store parse_url r then [lit ''rights_unverified''] else [])
     @ (if sr_commercial_use r = Some False then [lit ''noncommercial_only''] else [])
     @ (if sr_derivatives r = Some False then [lit ''no_derivatives_original_only''] else [])"

record original_resource =
  or_ordinal :: nat
  or_title :: rstr
  or_media_type :: rstr
  or_source_url :: rstr
  or_retained :: bool
  or_rights :: source_rights

text \<open>\<open>BTreeMap<String, String>\<close> as its sorted list of entries.\<close>

type_synonym metadata = "(rstr \<times> rstr) list"

type_synonym resource_decoder = "rstr \<Rightarrow> original_resource list option"

definition resources :: "resource_decoder \<Rightarrow> metadata \<Rightarrow> original_resource list" where
  "resources from_json metadata =
     (case map_of metadata (lit ''original_resources'') of
        None \<Rightarrow> []
      | Some v \<Rightarrow> (case from_json v of None \<Rightarrow> [] | Some rs \<Rightarrow> rs))"

text \<open>The set of warnings is collected in a \<open>BTreeSet\<close> and listed in its order.\<close>

definition warnings :: "url_parser \<Rightarrow> resource_decoder \<Rightarrow> metadata \<Rightarrow> rstr list" where
  "warnings parse_url from_json metadata =
     sort (remdups
       (concat (map (\<lambda>r. rights_warnings parse_url (or_rights r)) (resources from_json metadata))))"

record original_evidence =
  oe_credentials_redacted :: bool
  oe_bytes :: "nat list"
  oe_media_type :: rstr
  oe_title :: rstr
  oe_rights :: source_rights

section \<open>Jurisdictions\<close>

datatype jurisdiction = Kor

datatype jurisdiction_error = Malformed | Unsupported

definition SUPPORTED :: "jurisdiction list" where
  "SUPPORTED = [Kor]"

definition DEFAULT_JURISDICTION :: jurisdiction where
  "DEFAULT_JURISDICTION = Kor"

primrec alpha3 :: "jurisdiction \<Rightarrow> rstr" where
  "alpha3 Kor = lit ''KOR''"

primrec corpus_code :: "jurisdiction \<Rightarrow> rstr" where
  "corpus_code Kor = lit ''kr''"

primrec default_timezone :: "jurisdiction \<Rightarrow> rstr" where
  "default_timezone Kor = lit ''Asia/Seoul''"

definition jurisdiction_parse :: "rstr \<Rightarrow> (jurisdiction, jurisdiction_error) result" where
  "jurisdiction_parse text =
     (let code = trim text in
      if str_len code \<noteq> 3 \<or> \<not> list_all is_ascii_alphabetic code then Err Malformed
      else ok_or (find (\<lambda>j. eq_ignore_ascii_case (alpha3 j) code) SUPPORTED) Unsupported)"

definition from_corpus_code :: "rstr \<Rightarrow> jurisdiction option" where
  "from_corpus_code code = find (\<lambda>j. corpus_code j = code) SUPPORTED"

definition supported_codes :: "rstr list" where
  "supported_codes = map alpha3 SUPPORTED"

section \<open>Lemmas\<close>

lemma can_process_storable: "can_process p r \<Longrightarrow> can_store p r"
  by (simp add: can_process_def)

lemma can_store_settled:
  "can_store p r \<Longrightarrow> \<exists>c d. sr_commercial_use r = Some c \<and> sr_derivatives r = Some d"
  by (auto simp: can_store_def)

lemma warnings_of_storable:
  "lit ''rights_unverified'' \<notin> set (rights_warnings p r) \<longleftrightarrow> can_store p r"
  by (auto simp: rights_warnings_def)

lemma no_warning_iff:
  "rights_warnings p r = [] \<longleftrightarrow> can_process p r \<and> sr_commercial_use r = Some True"
  by (auto simp: rights_warnings_def can_process_def dest: can_store_settled)

lemma default_never_authorises: "\<not> can_store p source_rights_default"
  by (simp add: can_store_def source_rights_default_def)

lemma trim_nat_str: "trim (lit ''KOGL-'' @ nat_str k) \<noteq> []"
proof -
  have "\<not> is_whitespace (last (nat_str k))"
    using nat_str_set [of "last (nat_str k)" k] by (auto simp: is_whitespace_def)
  moreover have "\<not> is_whitespace (of_char (CHR ''K''))" by (simp add: is_whitespace_def)
  ultimately show ?thesis by (subst trim_none) auto
qed

lemma kogl_can_store:
  assumes "trim attribution \<noteq> []" "public_source_url p evidence"
  shows "can_store p (kogl kind evidence attribution) \<longleftrightarrow> kind \<le> 4"
    and "can_process p (kogl kind evidence attribution) \<longleftrightarrow> kind \<le> 2"
proof -
  show *: "can_store p (kogl kind evidence attribution) \<longleftrightarrow> kind \<le> 4"
    using assms trim_nat_str [of kind]
    by (auto simp: can_store_def kogl_def source_rights_default_def)
  show "can_process p (kogl kind evidence attribution) \<longleftrightarrow> kind \<le> 2"
    unfolding can_process_def * by (auto simp: kogl_def)
qed

lemma resources_rights: "sorted (warnings p d m) \<and> distinct (warnings p d m)"
  by (simp add: warnings_def)

lemma warnings_set:
  "set (warnings p d m) = (\<Union>r \<in> set (resources d m). set (rights_warnings p (or_rights r)))"
  by (simp add: warnings_def)

lemma trim_code:
  assumes "list_all is_whitespace a" "list_all is_whitespace b"
    and "length code = 3" "list_all is_ascii_alphabetic code"
  shows "trim (a @ code @ b) = code" "str_len code = 3"
proof -
  have "list_all (Not \<circ> is_whitespace) code" "list_all (\<lambda>c. c < 128) code"
    using assms(4) by (auto simp: list_all_iff dest: alphabetic_ascii)
  then show "trim (a @ code @ b) = code" "str_len code = 3"
    using trim_surrounded [OF assms(1,2), of code] assms(3) by (fastforce simp: ascii_str_len)+
qed

lemma eq_ignore_case_code:
  assumes "eq_ignore_ascii_case (alpha3 j) code"
  shows "length code = 3 \<and> list_all is_ascii_alphabetic code"
proof -
  have *: "map to_ascii_lower code = to_ascii_lowercase (alpha3 j)"
    using assms by (simp add: eq_ignore_ascii_case_def to_ascii_lowercase_def)
  have "list_all is_ascii_alphabetic (map to_ascii_lower code)"
    unfolding * by (cases j) (simp, code_simp)
  moreover have "length (map to_ascii_lower code) = 3"
    unfolding * by (cases j) (simp add: to_ascii_lowercase_def)
  ultimately show ?thesis by (simp add: list_all_iff)
qed

lemma jurisdiction_parse_alpha3:
  assumes "eq_ignore_ascii_case (alpha3 j) code" "list_all is_whitespace a" "list_all is_whitespace b"
  shows "jurisdiction_parse (a @ code @ b) = Ok j"
proof -
  have c: "length code = 3" "list_all is_ascii_alphabetic code"
    using eq_ignore_case_code [OF assms(1)] by auto
  show ?thesis
    using assms(1) c trim_code [OF assms(2,3) c]
    by (cases j) (simp add: jurisdiction_parse_def SUPPORTED_def Let_def)
qed

lemma corpus_code_roundtrip: "from_corpus_code (corpus_code j) = Some j"
  by (cases j) (simp add: from_corpus_code_def SUPPORTED_def)

end
