(* ===== verification/Datasets.thy ===== *)
theory Datasets
  imports Rust_Text
begin

text \<open>
  The closed set of data families of \<open>crates/domain/src/legal.rs\<close> and their wire names.
\<close>

section \<open>Datasets\<close>

datatype (plugins only: code size) dataset =
    NationalStatute
  | AdministrativeRule
  | Ordinance
  | Treaty
  | Precedent
  | ConstitutionalDecision
  | LegalInterpretation
  | AdministrativeAppeal
  | EnglishStatute
  | SchoolRule
  | LocalPublicCorporationRule
  | PublicInstitutionRule
  | LegalTerm
  | PpcDecision
  | EiacDecision
  | FtcDecision
  | AcrDecision
  | FscDecision
  | NlrcDecision
  | KccDecision
  | IaciacDecision
  | OcltDecision
  | EccDecision
  | SfcDecision
  | NhrckDecision
  | MoelInterpretation
  | MolitInterpretation
  | MoefInterpretation
  | MofInterpretation
  | MoisInterpretation
  | MeInterpretation
  | KcsInterpretation
  | NtsInterpretation
  | MoeInterpretation
  | MsitInterpretation
  | MpvaInterpretation
  | MndInterpretation
  | MafraInterpretation
  | McstInterpretation
  | MojInterpretation
  | MohwInterpretation
  | MotieInterpretation
  | MogefInterpretation
  | MofaInterpretation
  | MssInterpretation
  | MouInterpretation
  | MolegInterpretation
  | MfdsInterpretation
  | MpmInterpretation
  | KmaInterpretation
  | KhsInterpretation
  | RdaInterpretation
  | NpaInterpretation
  | DapaInterpretation
  | MmaInterpretation
  | KfsInterpretation
  | NfaInterpretation
  | OkaInterpretation
  | PpsInterpretation
  | KdcaInterpretation
  | KostatInterpretation
  | KipoInterpretation
  | KcgInterpretation
  | NaaccInterpretation
  | TtSpecialAppeal
  | KmstSpecialAppeal
  | AcrSpecialAppeal
  | AdapSpecialAppeal
  | AuditConsultation

definition ALL_DATASETS :: "dataset list" where
  "ALL_DATASETS =
     [NationalStatute, AdministrativeRule, Ordinance, Treaty,
      Precedent, ConstitutionalDecision, LegalInterpretation, AdministrativeAppeal,
      EnglishStatute, SchoolRule, LocalPublicCorporationRule, PublicInstitutionRule,
      LegalTerm, PpcDecision, EiacDecision, FtcDecision,
      AcrDecision, FscDecision, NlrcDecision, KccDecision,
      IaciacDecision, OcltDecision, EccDecision, SfcDecision,
      NhrckDecision, MoelInterpretation, MolitInterpretation, MoefInterpretation,
      MofInterpretation, MoisInterpretation, MeInterpretation, KcsInterpretation,
      NtsInterpretation, MoeInterpretation, MsitInterpretation, MpvaInterpretation,
      MndInterpretation, MafraInterpretation, McstInterpretation, MojInterpretation,
      MohwInterpretation, MotieInterpretation, MogefInterpretation, MofaInterpretation,
      MssInterpretation, MouInterpretation, MolegInterpretation, MfdsInterpretation,
      MpmInterpretation, KmaInterpretation, KhsInterpretation, RdaInterpretation,
      NpaInterpretation, DapaInterpretation, MmaInterpretation, KfsInterpretation,
      NfaInterpretation, OkaInterpretation, PpsInterpretation, KdcaInterpretation,
      KostatInterpretation, KipoInterpretation, KcgInterpretation, NaaccInterpretation,
      TtSpecialAppeal, KmstSpecialAppeal, AcrSpecialAppeal, AdapSpecialAppeal,
      AuditConsultation]"

primrec as_str :: "dataset \<Rightarrow> rstr" where
  "as_str NationalStatute = lit ''national_statute''"
| "as_str AdministrativeRule = lit ''administrative_rule''"
| "as_str Ordinance = lit ''ordinance''"
| "as_str Treaty = lit ''treaty''"
| "as_str Precedent = lit ''precedent''"
| "as_str ConstitutionalDecision = lit ''constitutional_decision''"
| "as_str LegalInterpretation = lit ''legal_interpretation''"
| "as_str AdministrativeAppeal = lit ''administrative_appeal''"
| "as_str EnglishStatute = lit ''english_statute''"
| "as_str SchoolRule = lit ''school_rule''"
| "as_str LocalPublicCorporationRule = lit ''local_public_corporation_rule''"
| "as_str PublicInstitutionRule = lit ''public_institution_rule''"
| "as_str LegalTerm = lit ''legal_term''"
| "as_str PpcDecision = lit ''ppc_decision''"
| "as_str EiacDecision = lit ''eiac_decision''"
| "as_str FtcDecision = lit ''ftc_decision''"
| "as_str AcrDecision = lit ''acr_decision''"
| "as_str FscDecision = lit ''fsc_decision''"
| "as_str NlrcDecision = lit ''nlrc_decision''"
| "as_str KccDecision = lit ''kcc_decision''"
| "as_str IaciacDecision = lit ''iaciac_decision''"
| "as_str OcltDecision = lit ''oclt_decision''"
| "as_str EccDecision = lit ''ecc_decision''"
| "as_str SfcDecision = lit ''sfc_decision''"
| "as_str NhrckDecision = lit ''nhrck_decision''"
| "as_str MoelInterpretation = lit ''moel_interpretation''"
| "as_str MolitInterpretation = lit ''molit_interpretation''"
| "as_str MoefInterpretation = lit ''moef_interpretation''"
| "as_str MofInterpretation = lit ''mof_interpretation''"
| "as_str MoisInterpretation = lit ''mois_interpretation''"
| "as_str MeInterpretation = lit ''me_interpretation''"
| "as_str KcsInterpretation = lit ''kcs_interpretation''"
| "as_str NtsInterpretation = lit ''nts_interpretation''"
| "as_str MoeInterpretation = lit ''moe_interpretation''"
| "as_str MsitInterpretation = lit ''msit_interpretation''"
| "as_str MpvaInterpretation = lit ''mpva_interpretation''"
| "as_str MndInterpretation = lit ''mnd_interpretation''"
| "as_str MafraInterpretation = lit ''mafra_interpretation''"
| "as_str McstInterpretation = lit ''mcst_interpretation''"
| "as_str MojInterpretation = lit ''moj_interpretation''"
| "as_str MohwInterpretation = lit ''mohw_interpretation''"
| "as_str MotieInterpretation = lit ''motie_interpretation''"
| "as_str MogefInterpretation = lit ''mogef_interpretation''"
| "as_str MofaInterpretation = lit ''mofa_interpretation''"
| "as_str MssInterpretation = lit ''mss_interpretation''"
| "as_str MouInterpretation = lit ''mou_interpretation''"
| "as_str MolegInterpretation = lit ''moleg_interpretation''"
| "as_str MfdsInterpretation = lit ''mfds_interpretation''"
| "as_str MpmInterpretation = lit ''mpm_interpretation''"
| "as_str KmaInterpretation = lit ''kma_interpretation''"
| "as_str KhsInterpretation = lit ''khs_interpretation''"
| "as_str RdaInterpretation = lit ''rda_interpretation''"
| "as_str NpaInterpretation = lit ''npa_interpretation''"
| "as_str DapaInterpretation = lit ''dapa_interpretation''"
| "as_str MmaInterpretation = lit ''mma_interpretation''"
| "as_str KfsInterpretation = lit ''kfs_interpretation''"
| "as_str NfaInterpretation = lit ''nfa_interpretation''"
| "as_str OkaInterpretation = lit ''oka_interpretation''"
| "as_str PpsInterpretation = lit ''pps_interpretation''"
| "as_str KdcaInterpretation = lit ''kdca_interpretation''"
| "as_str KostatInterpretation = lit ''kostat_interpretation''"
| "as_str KipoInterpretation = lit ''kipo_interpretation''"
| "as_str KcgInterpretation = lit ''kcg_interpretation''"
| "as_str NaaccInterpretation = lit ''naacc_interpretation''"
| "as_str TtSpecialAppeal = lit ''tt_special_appeal''"
| "as_str KmstSpecialAppeal = lit ''kmst_special_appeal''"
| "as_str AcrSpecialAppeal = lit ''acr_special_appeal''"
| "as_str AdapSpecialAppeal = lit ''adap_special_appeal''"
| "as_str AuditConsultation = lit ''audit_consultation''"

definition from_name :: "rstr \<Rightarrow> dataset option" where
  "from_name name = find (\<lambda>d. as_str d = name) ALL_DATASETS"

definition has_provider_revisions :: "dataset \<Rightarrow> bool" where
  "has_provider_revisions d \<longleftrightarrow>
     d \<in> {NationalStatute, AdministrativeRule, Ordinance, EnglishStatute, SchoolRule,
          LocalPublicCorporationRule, PublicInstitutionRule}"


lemma ALL_DATASETS_complete: "d \<in> set ALL_DATASETS"
  by (cases d) (simp_all add: ALL_DATASETS_def)

lemma ALL_DATASETS_names: "distinct (map as_str ALL_DATASETS)"
  by code_simp

lemma as_str_inj:
  assumes "as_str d = as_str d'"
  shows "d = d'"
proof -
  have "inj_on as_str (set ALL_DATASETS)"
    using ALL_DATASETS_names unfolding distinct_map by (rule conjunct2)
  then show ?thesis by (rule inj_onD) (fact assms ALL_DATASETS_complete)+
qed

text \<open>Names and datasets determine each other; no other name reaches a dataset.\<close>

lemma from_name_sound: "from_name name = Some d \<Longrightarrow> as_str d = name"
  by (auto simp: from_name_def find_Some_iff)

lemma from_name_iff: "from_name name = Some d \<longleftrightarrow> as_str d = name"
proof
  assume d: "as_str d = name"
  have "from_name name \<noteq> None"
    using d ALL_DATASETS_complete [of d] by (auto simp: from_name_def find_None_iff)
  then obtain d' where d': "from_name name = Some d'" by blast
  have "d' = d" by (rule as_str_inj) (simp only: d from_name_sound [OF d'])
  then show "from_name name = Some d" using d' by (simp only:)
qed (rule from_name_sound)

end
