(* ===== verification/Legal_Domain.thy ===== *)
theory Legal_Domain
  imports Rights Datasets
begin

text \<open>
  The contracts of the legal corpus: \<open>crates/domain/src/legal.rs\<close> (object identities, revision
  selectors, dates, records and their validation, captures and freshness) and
  \<open>crates/domain/src/legal_search.rs\<close> (search requests).

  \<open>validate\<close> of a record calls the \<open>url\<close> crate and \<open>serde_json\<close>, which are the parameters
  \<open>parse_url\<close> and \<open>from_json\<close> of \<open>Rights\<close>.  Sums of lengths of strings held in memory do not
  reach the width of \<open>usize\<close>; the sums the source saturates are saturated here.
\<close>

section \<open>Errors\<close>

datatype (plugins only: code size) database_error =
    DESourceRejected | DESourceUnavailable | DESourceDataInvalid | DESourceDownloadFailed
  | DESourceUnauthorized | DESourceTransient | DEInvalidInput | DEInvalidFieldShorthand
  | DEInvalidRegex | DENotFound | DENotObserved | DECollectionIncomplete | DERevisionUnavailable
  | DEAmbiguousRevision | DEAmbiguousCollection | DESourceInventoryIncomplete
  | DEHistoryIncomplete | DEUnsupportedHistory | DEProcessingPending | DEFreshnessUnavailable
  | DEWithdrawn | DEStorageUnavailable | DEStorageContended | DEStorageCorrupt | DECapacity
  | DEBudgetExhausted | DEConflict | DECancelled | DESessionExpired | DESnapshotInvalidated

section \<open>Identities and selectors\<close>

record object_id =
  o_jurisdiction :: rstr
  o_provider :: rstr
  o_dataset :: dataset
  o_id :: rstr

definition default_jurisdiction :: rstr where
  "default_jurisdiction = lit ''kr''"

definition object_validate :: "object_id \<Rightarrow> (unit, database_error) result" where
  "object_validate ob =
     (if \<not> valid_identifier (o_jurisdiction ob) 32 \<or> \<not> valid_identifier (o_provider ob) 64
         \<or> \<not> valid_identifier (o_id ob) 128
      then Err DEInvalidInput else Ok ())"

datatype revision_selector =
    Head
  | Revision rstr
  | PublicationDate rstr
  | EffectiveDate rstr
  | CaptureId rstr

definition days_of_month :: "nat \<Rightarrow> nat \<Rightarrow> nat" where
  "days_of_month year month =
     (if month \<in> {1, 3, 5, 7, 8, 10, 12} then 31
      else if month \<in> {4, 6, 9, 11} then 30
      else if month = 2 \<and> year mod 4 = 0 \<and> (year mod 100 \<noteq> 0 \<or> year mod 400 = 0) then 29
      else if month = 2 then 28
      else 0)"

text \<open>
  All eight bytes are digits when the fields are cut out, so the cuts are character boundaries
  and the three conversions of at most four digits to \<open>u32\<close> cannot fail.
\<close>

definition valid_date :: "rstr \<Rightarrow> bool" where
  "valid_date s \<longleftrightarrow>
     str_len s = 8 \<and> list_all is_ascii_digit s
     \<and> (let year = digits_val (take 4 s); month = digits_val (take 2 (drop 4 s));
            day = digits_val (drop 6 s)
        in 0 < year \<and> 0 < day \<and> day \<le> days_of_month year month)"

fun selector_ok :: "revision_selector \<Rightarrow> bool" where
  "selector_ok Head = True"
| "selector_ok (Revision i) = (i \<noteq> [] \<and> str_len i \<le> 256 \<and> \<not> list_ex is_control i)"
| "selector_ok (CaptureId i) = valid_snapshot_id i"
| "selector_ok (PublicationDate d) = valid_date d"
| "selector_ok (EffectiveDate d) = valid_date d"

definition selector_validate :: "revision_selector \<Rightarrow> (unit, database_error) result" where
  "selector_validate s = (if selector_ok s then Ok () else Err DEInvalidInput)"

record get_request =
  gr_object :: object_id
  gr_selector :: revision_selector
  gr_fresh_only :: bool

section \<open>Records\<close>

datatype section_kind = ProviderText | Extracted | Ocr

record legal_section =
  ls_id :: rstr
  ls_title :: rstr
  ls_text :: rstr
  ls_kind :: section_kind
  ls_source_document_sha256 :: "rstr option"
  ls_page :: "nat option"

record legal_record =
  lr_object :: object_id
  lr_revision_id :: rstr
  lr_title :: rstr
  lr_body :: rstr
  lr_metadata :: metadata
  lr_publication_date :: "rstr option"
  lr_effective_date :: "rstr option"
  lr_source_url :: rstr
  lr_representation :: rstr
  lr_sections :: "legal_section list"

text \<open>
  The loop over the listed originals: an original that may not be processed leaves no text
  behind, the record's own (ordinal zero) neither body nor sections, an attachment no section.
\<close>

definition attachment_prefix :: "nat \<Rightarrow> rstr" where
  "attachment_prefix n = lit ''attachment:'' @ nat_str n @ lit '':''"

definition resource_admissible ::
  "url_parser \<Rightarrow> legal_record \<Rightarrow> original_resource \<Rightarrow> bool" where
  "resource_admissible parse_url r resource \<longleftrightarrow>
     \<not> (\<not> public_source_url parse_url (or_source_url resource)
        \<or> (sr_evidence_url (or_rights resource) \<noteq> []
           \<and> \<not> public_source_url parse_url (sr_evidence_url (or_rights resource))))
     \<and> (can_process parse_url (or_rights resource)
        \<or> (\<not> (or_ordinal resource = 0 \<and> (lr_body r \<noteq> [] \<or> lr_sections r \<noteq> []))
           \<and> \<not> (0 < or_ordinal resource
               \<and> list_ex (\<lambda>s. starts_with (ls_id s) (attachment_prefix (or_ordinal resource)))
                   (lr_sections r))))"

primrec check_resources ::
  "url_parser \<Rightarrow> legal_record \<Rightarrow> original_resource list \<Rightarrow> (unit, database_error) result" where
  "check_resources parse_url r [] = Ok ()"
| "check_resources parse_url r (x # xs) =
     (if \<not> resource_admissible parse_url r x then Err DEInvalidInput
      else check_resources parse_url r xs)"

definition check_original_resources ::
  "url_parser \<Rightarrow> resource_decoder \<Rightarrow> legal_record \<Rightarrow> (unit, database_error) result" where
  "check_original_resources parse_url from_json r =
     (case map_of (lr_metadata r) (lit ''original_resources'') of
        None \<Rightarrow> Ok ()
      | Some v \<Rightarrow>
          and_then (ok_or (from_json v) DEInvalidInput) (\<lambda>rs.
            if 65 < length rs \<or> length (remdups (map or_ordinal rs)) \<noteq> length rs
            then Err DEInvalidInput
            else check_resources parse_url r rs))"

definition metadata_bytes :: "metadata \<Rightarrow> nat" where
  "metadata_bytes entries = sum_list (map (\<lambda>(k, v). str_len k + str_len v) entries)"

definition record_bytes :: "legal_record \<Rightarrow> nat" where
  "record_bytes r =
     saturating_add
       (saturating_add (saturating_add (str_len (lr_title r)) (str_len (lr_body r)))
         (metadata_bytes (lr_metadata r)))
       (sum_list (map (\<lambda>s. str_len (ls_id s) + str_len (ls_title s) + str_len (ls_text s))
         (lr_sections r)))"

definition section_rejected :: "legal_section \<Rightarrow> bool" where
  "section_rejected s \<longleftrightarrow>
     ls_id s = lit ''body'' \<or> ls_id s = lit ''title''
     \<or> ls_id s = [] \<or> 256 < str_len (ls_id s)
     \<or> 16384 < str_len (ls_title s)
     \<or> 16 * 1024 * 1024 < str_len (ls_text s)
     \<or> (case ls_source_document_sha256 s of None \<Rightarrow> False | Some d \<Rightarrow> \<not> valid_snapshot_id d)"

definition check_source_and_sections ::
  "url_parser \<Rightarrow> legal_record \<Rightarrow> (unit, database_error) result" where
  "check_source_and_sections parse_url r =
     and_then (ok_or (parse_url (lr_source_url r)) DEInvalidInput) (\<lambda>url.
       if u_scheme url \<noteq> lit ''https'' \<or> u_host_str url = None \<or> u_username url \<noteq> []
          \<or> u_password url \<noteq> None
          \<or> list_ex (\<lambda>(k, _). credential_key k) (u_query_pairs url)
          \<or> length (remdups (map ls_id (lr_sections r))) \<noteq> length (lr_sections r)
          \<or> 10000 < length (lr_sections r)
          \<or> list_ex section_rejected (lr_sections r)
          \<or> 64 * 1024 * 1024 < sum_list (map (\<lambda>s. str_len (ls_text s)) (lr_sections r))
       then Err DEInvalidInput else Ok ())"

definition invalid_optional_date :: "rstr option \<Rightarrow> bool" where
  "invalid_optional_date d = (case d of None \<Rightarrow> False | Some t \<Rightarrow> \<not> valid_date t)"

definition check_record_fields :: "legal_record \<Rightarrow> (unit, database_error) result" where
  "check_record_fields r =
     (if 16384 < str_len (lr_title r)
         \<or> 16 * 1024 * 1024 < str_len (lr_body r)
         \<or> 2048 < str_len (lr_source_url r)
         \<or> \<not> starts_with (lr_source_url r) (lit ''https://'')
         \<or> lr_representation r = []
         \<or> 128 < str_len (lr_representation r)
         \<or> 128 < length (lr_metadata r)
         \<or> list_ex (\<lambda>(k, v). 128 < str_len k \<or> 65536 < str_len v) (lr_metadata r)
         \<or> 65536 < metadata_bytes (lr_metadata r)
         \<or> invalid_optional_date (lr_publication_date r)
         \<or> invalid_optional_date (lr_effective_date r)
      then Err DEInvalidInput else Ok ())"

definition record_validate ::
  "url_parser \<Rightarrow> resource_decoder \<Rightarrow> legal_record \<Rightarrow> (unit, database_error) result" where
  "record_validate parse_url from_json r =
     and_then (object_validate (lr_object r)) (\<lambda>_.
     and_then (selector_validate (Revision (lr_revision_id r))) (\<lambda>_.
     and_then (check_original_resources parse_url from_json r) (\<lambda>_.
       if 64 * 1024 * 1024 < record_bytes r then Err DEInvalidInput
       else
         and_then (check_source_and_sections parse_url r) (\<lambda>_. check_record_fields r))))"

section \<open>Captures\<close>

record capture =
  c_capture_id :: rstr
  c_sequence :: nat
  c_record :: legal_record
  c_retrieved_at :: nat
  c_captured_at :: nat
  c_validated_at :: nat
  c_processor_version :: rstr
  c_raw_sha256 :: rstr

record head_freshness =
  hf_state :: freshness_state
  hf_served_at :: nat
  hf_cached_at :: nat
  hf_age_seconds :: nat
  hf_fresh_ttl_seconds :: nat
  hf_fresh_remaining_seconds :: nat
  hf_stale_remaining_seconds :: nat
  hf_fresh_expires_at :: nat
  hf_stale_expires_at :: nat

record get_result =
  g_capture :: capture
  g_freshness :: "head_freshness option"

record collection_notice =
  cn_dataset :: dataset
  cn_scope :: rstr
  cn_code :: rstr
  cn_affected_count :: nat
  cn_last_seen_at :: nat
  cn_retry_at :: nat

record metadata_result =
  mr_object :: object_id
  mr_revision_id :: rstr
  mr_capture_id :: rstr
  mr_title :: rstr
  mr_metadata :: metadata
  mr_publication_date :: "rstr option"
  mr_effective_date :: "rstr option"
  mr_source_url :: rstr
  mr_retrieved_at :: nat
  mr_captured_at :: nat
  mr_validated_at :: nat
  mr_processor_version :: rstr
  mr_raw_sha256 :: rstr
  mr_freshness :: "head_freshness option"
  mr_collection_notices :: "collection_notice list"

definition metadata_of :: "get_result \<Rightarrow> metadata_result" where
  "metadata_of v =
     (let c = g_capture v; r = c_record c in
      \<lparr>mr_object = lr_object r, mr_revision_id = lr_revision_id r, mr_capture_id = c_capture_id c,
       mr_title = lr_title r, mr_metadata = lr_metadata r,
       mr_publication_date = lr_publication_date r, mr_effective_date = lr_effective_date r,
       mr_source_url = lr_source_url r, mr_retrieved_at = c_retrieved_at c,
       mr_captured_at = c_captured_at c, mr_validated_at = c_validated_at c,
       mr_processor_version = c_processor_version c, mr_raw_sha256 = c_raw_sha256 c,
       mr_freshness = g_freshness v, mr_collection_notices = []\<rparr>)"

section \<open>History\<close>

datatype history_kind = Revisions | Captures

record history_entry =
  he_revision_id :: rstr
  he_capture_id :: "rstr option"
  he_sequence :: nat
  he_captured_at :: "nat option"
  he_publication_date :: "rstr option"
  he_effective_date :: "rstr option"

record history_page =
  hp_entries :: "history_entry list"
  hp_next_cursor :: "rstr option"
  hp_inventory_complete :: bool

section \<open>Search requests\<close>

datatype date_kind = Publication | Effective | Judgment

record filters =
  f_datasets :: "dataset list"
  f_authority :: "rstr option"
  f_object_id :: "rstr option"
  f_document_type :: "rstr option"
  f_date_kind :: "date_kind option"
  f_date_from :: "rstr option"
  f_date_to :: "rstr option"

record query_search_request =
  qs_query :: rstr
  qs_filters :: filters
  qs_include_history :: bool
  qs_include_ocr :: bool
  qs_sections :: "rstr list"
  qs_limit :: nat
  qs_cursor :: "rstr option"
  qs_literal :: bool
  qs_ignore_case :: bool

record search_request =
  s_query :: rstr
  s_filters :: filters
  s_include_history :: bool
  s_include_ocr :: bool
  s_sections :: "rstr list"
  s_limit :: nat
  s_cursor :: "rstr option"
  s_literal :: bool
  s_ignore_case :: bool
  s_context_lines :: nat

definition search_request_of :: "query_search_request \<Rightarrow> search_request" where
  "search_request_of q =
     \<lparr>s_query = qs_query q, s_filters = qs_filters q, s_include_history = qs_include_history q,
      s_include_ocr = qs_include_ocr q, s_sections = qs_sections q, s_limit = qs_limit q,
      s_cursor = qs_cursor q, s_literal = qs_literal q, s_ignore_case = qs_ignore_case q,
      s_context_lines = 0\<rparr>"

definition default_limit :: nat where
  "default_limit = 20"

section \<open>Lemmas\<close>

lemma object_validate_Ok [simp]:
  "object_validate ob = Inr u \<longleftrightarrow>
     valid_identifier (o_jurisdiction ob) 32 \<and> valid_identifier (o_provider ob) 64
     \<and> valid_identifier (o_id ob) 128"
  by (auto simp: object_validate_def)

lemma object_validate_Err: "object_validate ob = Inl e \<Longrightarrow> e = DEInvalidInput"
  by (auto simp: object_validate_def split: if_splits)

lemma selector_validate_Ok [simp]: "selector_validate s = Inr u \<longleftrightarrow> selector_ok s"
  by (auto simp: selector_validate_def)

lemma selector_validate_Err: "selector_validate s = Inl e \<Longrightarrow> e = DEInvalidInput"
  by (auto simp: selector_validate_def split: if_splits)

lemma check_resources_Ok: "check_resources p r xs = Ok () \<longleftrightarrow> list_all (resource_admissible p r) xs"
  by (induction xs) auto

lemma remdups_length_distinct: "length (remdups xs) = length xs \<longleftrightarrow> distinct xs"
  by (metis distinct_remdups remdups_id_iff_distinct length_remdups_eq)

text \<open>Dates of equal length compare as strings the way they compare as numbers.\<close>

lemma digits_val_append: "digits_val (a @ b) = digits_val a * 10 ^ length b + digits_val b"
proof (induction b rule: rev_induct)
  case (snoc d b)
  then show ?case by (simp add: digits_val_def flip: append_assoc)
qed (simp add: digits_val_def)

lemma digits_val_Cons: "digits_val (d # s) = (d - 48) * 10 ^ length s + digits_val s"
  using digits_val_append [of "[d]" s] by (simp add: digits_val_def)

lemma digits_val_bound: "list_all is_ascii_digit s \<Longrightarrow> digits_val s < 10 ^ length s"
proof (induction s)
  case (Cons d s)
  have "d - 48 \<le> 9" using Cons.prems by (auto simp: is_ascii_digit_def)
  then have "(d - 48) * 10 ^ length s \<le> 9 * 10 ^ length s" by (rule mult_right_mono) simp
  moreover have "digits_val s < 10 ^ length s" using Cons by simp
  ultimately show ?case unfolding digits_val_Cons length_Cons power_Suc by linarith
qed (simp add: digits_val_def)

lemma digits_order:
  assumes "length a = length b" "list_all is_ascii_digit a" "list_all is_ascii_digit b"
  shows "a < b \<longleftrightarrow> digits_val a < digits_val b"
  using assms
proof (induction a b rule: list_induct2)
  case (Cons x xs y ys)
  define P :: nat where "P = 10 ^ length ys"
  have d: "48 \<le> x" "48 \<le> y" "x < y \<longleftrightarrow> x - 48 < y - 48"
    using Cons.prems by (auto simp: is_ascii_digit_def)
  have b: "digits_val xs < P" "digits_val ys < P"
    using Cons digits_val_bound [of xs] digits_val_bound [of ys] by (auto simp: P_def)
  have less: "u * P + a' < v * P + b'" if "u < v" "a' < P" for u v a' b' :: nat
  proof -
    have "u * P + P \<le> v * P" using that(1) by (metis Suc_leI add.commute mult_Suc mult_le_mono1)
    then show ?thesis using that(2) by linarith
  qed
  have v: "digits_val (x # xs) = (x - 48) * P + digits_val xs"
    "digits_val (y # ys) = (y - 48) * P + digits_val ys"
    using Cons.hyps by (simp_all add: digits_val_Cons P_def)
  consider "x < y" | "x = y" | "y < x" by linarith
  then show ?case
  proof cases
    case 1
    then show ?thesis unfolding v using d less [of "x - 48" "y - 48"] b by auto
  next
    case 2
    then show ?thesis unfolding v using Cons by simp
  next
    case 3
    then have "y - 48 < x - 48" using d by linarith
    then show ?thesis unfolding v using 3 less [of "y - 48" "x - 48" "digits_val ys" "digits_val xs"] b
      by auto
  qed
qed simp

text \<open>Year, month and day of a date, and their chronological order.\<close>

definition date_year :: "rstr \<Rightarrow> nat" where
  "date_year s = digits_val (take 4 s)"

definition date_month :: "rstr \<Rightarrow> nat" where
  "date_month s = digits_val (take 2 (drop 4 s))"

definition date_day :: "rstr \<Rightarrow> nat" where
  "date_day s = digits_val (drop 6 s)"

definition not_after :: "rstr \<Rightarrow> rstr \<Rightarrow> bool" where
  "not_after a b \<longleftrightarrow>
     date_year a < date_year b
     \<or> date_year a = date_year b
       \<and> (date_month a < date_month b
          \<or> date_month a = date_month b \<and> date_day a \<le> date_day b)"

lemma valid_date_parts:
  assumes "valid_date s"
  shows "length s = 8" "list_all is_ascii_digit s"
    "1 \<le> date_year s" "date_year s \<le> 9999" "1 \<le> date_month s" "date_month s \<le> 12"
    "1 \<le> date_day s" "date_day s \<le> days_of_month (date_year s) (date_month s)"
    "digits_val s = date_year s * 10000 + date_month s * 100 + date_day s"
proof -
  have s: "str_len s = 8" "list_all is_ascii_digit s"
    "0 < date_year s" "0 < date_day s" "date_day s \<le> days_of_month (date_year s) (date_month s)"
    using assms by (auto simp: valid_date_def Let_def date_year_def date_month_def date_day_def)
  have ascii: "list_all (\<lambda>c. c < 128) s"
    using s(2) by (auto simp: list_all_iff is_ascii_digit_def)
  show len: "length s = 8" using ascii_str_len [OF ascii] s(1) by simp
  show "list_all is_ascii_digit s" "1 \<le> date_year s" "1 \<le> date_day s"
    "date_day s \<le> days_of_month (date_year s) (date_month s)" using s by auto
  show "1 \<le> date_month s" "date_month s \<le> 12"
    using s(4,5) by (auto simp: days_of_month_def split: if_splits)
  have "list_all is_ascii_digit (take 4 s)" using s(2) by (auto simp: list_all_iff dest: in_set_takeD)
  then show "date_year s \<le> 9999" using digits_val_bound [of "take 4 s"] len by (simp add: date_year_def)
  have "s = take 4 s @ take 2 (drop 4 s) @ drop 6 s"
    using append_take_drop_id [of 4 s] append_take_drop_id [of 2 "drop 4 s"] by simp
  then have "digits_val s = digits_val (take 4 s @ take 2 (drop 4 s) @ drop 6 s)" by simp
  then show "digits_val s = date_year s * 10000 + date_month s * 100 + date_day s"
    using len by (simp add: digits_val_append date_year_def date_month_def date_day_def)
qed

lemma date_month_bounds:
  assumes "valid_date s"
  shows "date_month s < 100" "date_day s < 100"
proof -
  show "date_month s < 100" using valid_date_parts(6) [OF assms] by simp
  have "days_of_month (date_year s) (date_month s) \<le> 31" by (simp add: days_of_month_def)
  then show "date_day s < 100" using valid_date_parts(8) [OF assms] by linarith
qed

lemma valid_date_order:
  assumes "valid_date a" "valid_date b"
  shows "a \<le> b \<longleftrightarrow> not_after a b"
proof -
  have "\<not> b < a \<longleftrightarrow> \<not> digits_val b < digits_val a"
    using digits_order [of b a] valid_date_parts(1,2) [OF assms(1)] valid_date_parts(1,2) [OF assms(2)]
    by simp
  then show ?thesis
    using date_month_bounds [OF assms(1)] date_month_bounds [OF assms(2)]
    unfolding valid_date_parts(9) [OF assms(1)] valid_date_parts(9) [OF assms(2)] not_after_def
    by auto
qed

lemma check_original_resources_Ok:
  assumes "check_original_resources p d r = Ok ()"
  shows "list_all (resource_admissible p r) (resources d (lr_metadata r))"
    "distinct (map or_ordinal (resources d (lr_metadata r)))" "length (resources d (lr_metadata r)) \<le> 65"
  using assms
  by (auto simp: check_original_resources_def resources_def result_simps check_resources_Ok
      remdups_length_distinct [of "map _ _", simplified] split: option.splits if_splits)

lemma record_validate_OkD:
  assumes "record_validate p d r = Ok ()"
  shows "object_validate (lr_object r) = Ok ()" "selector_ok (Revision (lr_revision_id r))"
    "check_original_resources p d r = Ok ()" "record_bytes r \<le> 64 * 1024 * 1024"
    "check_source_and_sections p r = Ok ()" "check_record_fields r = Ok ()"
  using assms by (auto simp: record_validate_def result_simps split: if_splits)

lemma record_validate_sections:
  assumes "record_validate p d r = Ok ()"
  shows "distinct (map ls_id (lr_sections r))" "length (lr_sections r) \<le> 10000"
    "list_all (\<lambda>s. \<not> section_rejected s) (lr_sections r)"
    "sum_list (map (\<lambda>s. str_len (ls_text s)) (lr_sections r)) \<le> 64 * 1024 * 1024"
  using record_validate_OkD(5) [OF assms] remdups_length_distinct [of "map ls_id (lr_sections r)"]
  by (auto simp: check_source_and_sections_def result_simps list_all_iff list_ex_iff split: if_splits)

section \<open>Properties\<close>

text \<open>A URL parser for the witnesses: everything after \<open>https://\<close> is the host.\<close>

definition sample_url :: url_parser where
  "sample_url t =
     map_option (\<lambda>h. \<lparr>u_scheme = lit ''https'', u_host_str = Some h, u_username = [],
       u_password = None, u_fragment = None, u_query_pairs = []\<rparr>) (strip_prefix (lit ''https://'') t)"

definition sample_resources :: resource_decoder where
  "sample_resources t =
     Some [\<lparr>or_ordinal = 0, or_title = [], or_media_type = [], or_source_url = lit ''https://a'',
        or_retained = True, or_rights = legal_information\<rparr>,
       \<lparr>or_ordinal = 1, or_title = [], or_media_type = [], or_source_url = lit ''https://b'',
        or_retained = False, or_rights = source_rights_default\<rparr>]"

definition sample_record :: legal_record where
  "sample_record =
     \<lparr>lr_object = \<lparr>o_jurisdiction = lit ''kr'', o_provider = lit ''law_go_kr'',
        o_dataset = NationalStatute, o_id = lit ''001''\<rparr>,
      lr_revision_id = lit ''r1'', lr_title = lit ''Act'', lr_body = lit ''Text'',
      lr_metadata = [(lit ''original_resources'', lit ''[]'')], lr_publication_date = None,
      lr_effective_date = Some (lit ''20240229''), lr_source_url = lit ''https://a'',
      lr_representation = lit ''text_v1'',
      lr_sections = [\<lparr>ls_id = lit ''article:1'', ls_title = [], ls_text = lit ''t'',
        ls_kind = ProviderText, ls_source_document_sha256 = None, ls_page = None\<rparr>]\<rparr>"

lemma sample_record_valid: "record_validate sample_url sample_resources sample_record = Ok ()"
  by code_simp

text \<open>
  C7. A record that passes validation carries no text of an original it may not process: there are at
  most 65 listed originals, each with its own ordinal and a credential-free public address, also for
  its evidence; when its rights do not allow processing, the primary original leaves body and sections
  empty and an attachment has no section.  There are at most 10000 sections with distinct identifiers of
  1 to 256 bytes that name neither body nor title, titles of at most 16 KiB, texts of at most 16 MiB and
  valid digests; their texts, and all texts of the record together, have at most 64 MiB.
\<close>

theorem record_respects_rights:
  assumes "record_validate parse_url from_json r = Ok ()"
  shows "list_all (\<lambda>x. public_source_url parse_url (or_source_url x)
      \<and> (sr_evidence_url (or_rights x) = [] \<or> public_source_url parse_url (sr_evidence_url (or_rights x)))
      \<and> (can_process parse_url (or_rights x)
         \<or> (if or_ordinal x = 0 then lr_body r = [] \<and> lr_sections r = []
            else list_all (\<lambda>s. \<not> starts_with (ls_id s) (attachment_prefix (or_ordinal x))) (lr_sections r))))
      (resources from_json (lr_metadata r))
    \<and> length (resources from_json (lr_metadata r)) \<le> 65
    \<and> distinct (map or_ordinal (resources from_json (lr_metadata r)))
    \<and> length (lr_sections r) \<le> 10000 \<and> distinct (map ls_id (lr_sections r))
    \<and> list_all (\<lambda>s. 1 \<le> str_len (ls_id s) \<and> str_len (ls_id s) \<le> 256
        \<and> ls_id s \<noteq> lit ''body'' \<and> ls_id s \<noteq> lit ''title''
        \<and> str_len (ls_title s) \<le> 16384 \<and> str_len (ls_text s) \<le> 16 * 1024 * 1024
        \<and> (case ls_source_document_sha256 s of None \<Rightarrow> True | Some d \<Rightarrow> valid_snapshot_id d)) (lr_sections r)
    \<and> sum_list (map (\<lambda>s. str_len (ls_text s)) (lr_sections r)) \<le> 64 * 1024 * 1024
    \<and> str_len (lr_title r) + str_len (lr_body r) + metadata_bytes (lr_metadata r)
        + sum_list (map (\<lambda>s. str_len (ls_id s) + str_len (ls_title s) + str_len (ls_text s)) (lr_sections r))
      \<le> 64 * 1024 * 1024"
proof (intro conjI)
  note o = check_original_resources_Ok [OF record_validate_OkD(3) [OF assms]] and s = record_validate_sections [OF assms]
  show "list_all (\<lambda>x. public_source_url parse_url (or_source_url x)
      \<and> (sr_evidence_url (or_rights x) = [] \<or> public_source_url parse_url (sr_evidence_url (or_rights x)))
      \<and> (can_process parse_url (or_rights x)
         \<or> (if or_ordinal x = 0 then lr_body r = [] \<and> lr_sections r = []
            else list_all (\<lambda>s. \<not> starts_with (ls_id s) (attachment_prefix (or_ordinal x))) (lr_sections r))))
      (resources from_json (lr_metadata r))"
    using o(1) by (auto simp: resource_admissible_def list_all_iff list_ex_iff)
  show "length (resources from_json (lr_metadata r)) \<le> 65"
    "distinct (map or_ordinal (resources from_json (lr_metadata r)))" using o(2,3) by simp_all
  show "length (lr_sections r) \<le> 10000" "distinct (map ls_id (lr_sections r))"
    "sum_list (map (\<lambda>s. str_len (ls_text s)) (lr_sections r)) \<le> 64 * 1024 * 1024" by (fact s)+
  show "list_all (\<lambda>s. 1 \<le> str_len (ls_id s) \<and> str_len (ls_id s) \<le> 256
        \<and> ls_id s \<noteq> lit ''body'' \<and> ls_id s \<noteq> lit ''title''
        \<and> str_len (ls_title s) \<le> 16384 \<and> str_len (ls_text s) \<le> 16 * 1024 * 1024
        \<and> (case ls_source_document_sha256 s of None \<Rightarrow> True | Some d \<Rightarrow> valid_snapshot_id d)) (lr_sections r)"
    using s(3) by (auto simp: list_all_iff section_rejected_def not_less Suc_le_eq simp del: lit_simps split: option.splits)
  have "record_bytes r \<le> 64 * 1024 * 1024" by (rule record_validate_OkD(4) [OF assms])
  then show "str_len (lr_title r) + str_len (lr_body r) + metadata_bytes (lr_metadata r)
        + sum_list (map (\<lambda>s. str_len (ls_id s) + str_len (ls_title s) + str_len (ls_text s)) (lr_sections r))
      \<le> 64 * 1024 * 1024"
    unfolding record_bytes_def by (simp add: saturating_add_def usize_max_val min_def split: if_splits)
qed

theorem record_respects_rights_witness:
  "length (resources sample_resources (lr_metadata sample_record)) = 2 \<and> length (lr_sections sample_record) = 1
   \<and> list_all (\<lambda>x. public_source_url sample_url (or_source_url x)
       \<and> (can_process sample_url (or_rights x) \<or> or_ordinal x \<noteq> 0))
      (resources sample_resources (lr_metadata sample_record))
   \<and> list_all (\<lambda>s. 1 \<le> str_len (ls_id s) \<and> str_len (ls_id s) \<le> 256) (lr_sections sample_record)"
proof -
  have n: "length (resources sample_resources (lr_metadata sample_record)) = 2" "length (lr_sections sample_record) = 1"
    "lr_body sample_record \<noteq> []" by code_simp+
  note valid = record_respects_rights [OF sample_record_valid]
  have "list_all (\<lambda>x. public_source_url sample_url (or_source_url x)
       \<and> (can_process sample_url (or_rights x) \<or> or_ordinal x \<noteq> 0))
      (resources sample_resources (lr_metadata sample_record))"
    by (rule list.pred_mono_strong [OF conjunct1 [OF valid]]) (use n(3) in \<open>auto split: if_splits\<close>)
  moreover have "list_all (\<lambda>s. 1 \<le> str_len (ls_id s) \<and> str_len (ls_id s) \<le> 256) (lr_sections sample_record)"
    using valid unfolding list_all_iff by blast
  ultimately show ?thesis using n(1,2) by blast
qed

end
