(* ===== verification/Legal_Database.thy ===== *)
theory Legal_Database
  imports Legal_Domain
begin

text \<open>
  The corpus services of the application layer: \<open>DatabaseService\<close> (\<open>database.rs\<close>: current and
  historical reads, metadata, history, the two sides of a comparison), \<open>DatabaseReader\<close>
  (\<open>database_read.rs\<close>: ten-minute content sessions) and the admission of searches
  (\<open>search.rs\<close>), all under \<open>crates/application/src/\<close>.

  The stores behind the traits \<open>DatabaseStore\<close> and \<open>ReadRetention\<close> are parameters: functions and
  answers of the record types below.  A call that awaits the store reads the clock and the
  cancellation token before and after it; \<open>call_times\<close> holds these four observations.  The
  session table is behind a mutex that is held only in code that cannot panic, so it is never
  poisoned; the two critical sections of \<open>get\<close> are \<open>reader_register\<close> and \<open>reader_forget\<close>, and
  \<open>reader_run\<close> interleaves them freely.  Times are whole seconds.
\<close>

section \<open>The database service\<close>

definition FRESH_SECONDS :: nat where
  "FRESH_SECONDS = 3600"

definition MAX_STALE_SECONDS :: nat where
  "MAX_STALE_SECONDS = 86400"

record database_store =
  db_resolve :: "object_id \<Rightarrow> revision_selector \<Rightarrow> nat \<Rightarrow> (capture, database_error) result"
  db_resolve_metadata ::
    "object_id \<Rightarrow> revision_selector \<Rightarrow> nat \<Rightarrow> (metadata_result, database_error) result"
  db_original_evidence :: "rstr \<Rightarrow> nat \<Rightarrow> (original_evidence, database_error) result"
  db_history :: "object_id \<Rightarrow> history_kind \<Rightarrow> rstr option \<Rightarrow> nat \<Rightarrow> nat \<Rightarrow>
    (history_page, database_error) result"

text \<open>The methods a store inherits when it does not override them.\<close>

definition default_resolve_metadata ::
  "(object_id \<Rightarrow> revision_selector \<Rightarrow> nat \<Rightarrow> (capture, database_error) result) \<Rightarrow>
   object_id \<Rightarrow> revision_selector \<Rightarrow> nat \<Rightarrow> (metadata_result, database_error) result" where
  "default_resolve_metadata resolve ob selector now =
     and_then (resolve ob selector now)
       (\<lambda>c. Ok (metadata_of \<lparr>g_capture = c, g_freshness = None\<rparr>))"

definition default_original_evidence ::
  "rstr \<Rightarrow> nat \<Rightarrow> (original_evidence, database_error) result" where
  "default_original_evidence capture_id ordinal = Err DERevisionUnavailable"

record call_times =
  ct_cancelled :: bool
  ct_now :: nat
  ct_cancelled_after :: bool
  ct_now_after :: nat

definition head_freshness_of ::
  "bool \<Rightarrow> bool \<Rightarrow> nat \<Rightarrow> nat \<Rightarrow> nat \<Rightarrow> nat \<Rightarrow> (head_freshness option, database_error) result" where
  "head_freshness_of head fresh_only validated_at retrieved_at captured_at now =
     (if head then
        and_then (ok_or (checked_sub now validated_at) DEFreshnessUnavailable) (\<lambda>age.
          if now < retrieved_at \<or> now < captured_at \<or> MAX_STALE_SECONDS \<le> age
             \<or> (fresh_only \<and> FRESH_SECONDS \<le> age)
          then Err DEFreshnessUnavailable
          else Ok (Some
            \<lparr>hf_state = (if age < FRESH_SECONDS then Fresh else Stale),
             hf_served_at = now,
             hf_cached_at = captured_at,
             hf_age_seconds = age,
             hf_fresh_ttl_seconds = FRESH_SECONDS,
             hf_fresh_remaining_seconds = FRESH_SECONDS - age,
             hf_stale_remaining_seconds = MAX_STALE_SECONDS - age,
             hf_fresh_expires_at = saturating_add validated_at FRESH_SECONDS,
             hf_stale_expires_at = saturating_add validated_at MAX_STALE_SECONDS\<rparr>))
      else Ok None)"

definition database_original_evidence ::
  "database_store \<Rightarrow> bool \<Rightarrow> rstr \<Rightarrow> nat \<Rightarrow> (original_evidence, database_error) result" where
  "database_original_evidence store cancelled capture_id ordinal =
     (if \<not> valid_snapshot_id capture_id then Err DEInvalidInput
      else if cancelled then Err DECancelled
      else db_original_evidence store capture_id ordinal)"

definition database_get ::
  "database_store \<Rightarrow> call_times \<Rightarrow> get_request \<Rightarrow> (get_result, database_error) result" where
  "database_get store t request =
     and_then (object_validate (gr_object request)) (\<lambda>_.
     and_then (selector_validate (gr_selector request)) (\<lambda>_.
       if ct_cancelled t then Err DECancelled
       else
         let head = (gr_selector request = Head) in
         and_then (db_resolve store (gr_object request) (gr_selector request) (ct_now t)) (\<lambda>capture.
           if ct_cancelled_after t then Err DECancelled
           else
             and_then
               (head_freshness_of head (gr_fresh_only request) (c_validated_at capture)
                 (c_retrieved_at capture) (c_captured_at capture) (ct_now_after t))
               (\<lambda>f. Ok \<lparr>g_capture = capture, g_freshness = f\<rparr>))))"

definition database_get_metadata ::
  "database_store \<Rightarrow> call_times \<Rightarrow> get_request \<Rightarrow> (metadata_result, database_error) result" where
  "database_get_metadata store t request =
     and_then (object_validate (gr_object request)) (\<lambda>_.
     and_then (selector_validate (gr_selector request)) (\<lambda>_.
       if ct_cancelled t then Err DECancelled
       else
         let head = (gr_selector request = Head) in
         and_then (db_resolve_metadata store (gr_object request) (gr_selector request) (ct_now t))
           (\<lambda>m.
             if ct_cancelled_after t then Err DECancelled
             else
               and_then
                 (head_freshness_of head (gr_fresh_only request) (mr_validated_at m)
                   (mr_retrieved_at m) (mr_captured_at m) (ct_now_after t))
                 (\<lambda>f. Ok (m\<lparr>mr_freshness := f\<rparr>)))))"

definition database_history ::
  "database_store \<Rightarrow> nat \<Rightarrow> object_id \<Rightarrow> history_kind \<Rightarrow> rstr option \<Rightarrow> nat \<Rightarrow>
     (history_page, database_error) result" where
  "database_history store now ob kind cursor limit =
     and_then (object_validate ob) (\<lambda>_.
       if \<not> (1 \<le> limit \<and> limit \<le> 100)
          \<or> (case cursor of None \<Rightarrow> False | Some c \<Rightarrow> 512 < str_len c)
       then Err DEInvalidInput
       else if kind = Revisions \<and> \<not> has_provider_revisions (o_dataset ob)
       then Err DEUnsupportedHistory
       else db_history store ob kind cursor limit now)"

definition unprocessable_primary ::
  "url_parser \<Rightarrow> resource_decoder \<Rightarrow> get_result \<Rightarrow> bool" where
  "unprocessable_primary parse_url from_json g \<longleftrightarrow>
     list_ex (\<lambda>x. or_ordinal x = 0 \<and> \<not> can_process parse_url (or_rights x))
       (resources from_json (lr_metadata (c_record (g_capture g))))"

definition resolve_diff ::
  "url_parser \<Rightarrow> resource_decoder \<Rightarrow> database_store \<Rightarrow> call_times \<Rightarrow> call_times \<Rightarrow> object_id \<Rightarrow>
     revision_selector \<Rightarrow> revision_selector \<Rightarrow> (get_result \<times> get_result, database_error) result" where
  "resolve_diff parse_url from_json store t1 t2 ob before_sel after_sel =
     and_then (database_get store t1
         \<lparr>gr_object = ob, gr_selector = before_sel, gr_fresh_only = False\<rparr>) (\<lambda>a.
     and_then (database_get store t2
         \<lparr>gr_object = ob, gr_selector = after_sel, gr_fresh_only = False\<rparr>) (\<lambda>b.
       if lr_object (c_record (g_capture a)) \<noteq> lr_object (c_record (g_capture b))
          \<or> lr_representation (c_record (g_capture a)) \<noteq> lr_representation (c_record (g_capture b))
       then Err DEInvalidInput
       else if list_ex (unprocessable_primary parse_url from_json) [a, b]
       then Err DESourceDataInvalid
       else Ok (a, b)))"

section \<open>Content sessions\<close>

record session =
  rs_object :: object_id
  rs_capture :: rstr
  rs_expires :: nat

type_synonym sessions = "(rstr \<times> session) list"

definition MAX_SESSIONS :: nat where
  "MAX_SESSIONS = 64"

text \<open>What \<open>get\<close> checks of the session a caller presents.\<close>

definition reader_lookup ::
  "sessions \<Rightarrow> nat \<Rightarrow> rstr \<Rightarrow> get_request \<Rightarrow> (unit, database_error) result" where
  "reader_lookup sessions time i request =
     (if \<not> valid_snapshot_id i then Err DEInvalidInput
      else
        and_then (ok_or (map_of sessions i) DESessionExpired) (\<lambda>s.
          if rs_expires s \<le> time then Err DESessionExpired
          else if gr_object request \<noteq> rs_object s \<or> gr_selector request \<noteq> CaptureId (rs_capture s)
          then Err DEInvalidInput
          else Ok ()))"

definition reader_register ::
  "nat \<Rightarrow> rstr \<Rightarrow> get_result \<Rightarrow> sessions \<Rightarrow> (unit, database_error) result \<times> sessions" where
  "reader_register time i result sessions =
     (let sessions = filter (\<lambda>(_, s). time < rs_expires s) sessions in
      if MAX_SESSIONS \<le> length sessions then (Err DECapacity, sessions)
      else if map_of sessions i \<noteq> None then (Err DECapacity, sessions)
      else
        (Ok (),
         (i, \<lparr>rs_object = lr_object (c_record (g_capture result)),
              rs_capture = c_capture_id (g_capture result),
              rs_expires = saturating_add time 600\<rparr>) # sessions))"

definition reader_forget :: "rstr \<Rightarrow> sessions \<Rightarrow> sessions" where
  "reader_forget i sessions = filter (\<lambda>(k, _). k \<noteq> i) sessions"

text \<open>The retention answers of one call, in the order the call asks for them.\<close>

record reader_answers =
  ra_time :: nat
  ra_check_before :: "(unit, database_error) result"
  ra_database :: call_times
  ra_check_after :: "(unit, database_error) result"
  ra_new_id :: "(rstr, database_error) result"
  ra_pin :: "(unit, database_error) result"

definition reader_continue ::
  "database_store \<Rightarrow> reader_answers \<Rightarrow> get_request \<Rightarrow> rstr \<Rightarrow> sessions \<Rightarrow>
     (get_result \<times> rstr, database_error) result" where
  "reader_continue store a request i sessions =
     and_then (reader_lookup sessions (ra_time a) i request) (\<lambda>_.
     and_then (ra_check_before a) (\<lambda>_.
     and_then (database_get store (ra_database a) request) (\<lambda>result.
     and_then (ra_check_after a) (\<lambda>_. Ok (result, i)))))"

definition reader_open ::
  "database_store \<Rightarrow> reader_answers \<Rightarrow> get_request \<Rightarrow> sessions \<Rightarrow>
     (get_result \<times> rstr, database_error) result \<times> sessions" where
  "reader_open store a request sessions =
     (case and_then (database_get store (ra_database a) request)
         (\<lambda>result. and_then (ra_new_id a) (\<lambda>i. Ok (result, i))) of
        Inl e \<Rightarrow> (Err e, sessions)
      | Inr (result, i) \<Rightarrow>
          (case reader_register (ra_time a) i result sessions of
             (Inl e, sessions) \<Rightarrow> (Err e, sessions)
           | (Inr _, sessions) \<Rightarrow>
               (case ra_pin a of
                  Inl e \<Rightarrow> (Err e, reader_forget i sessions)
                | Inr _ \<Rightarrow>
                    (and_then (ra_check_after a) (\<lambda>_. Ok (result, i)), sessions))))"

definition reader_get ::
  "database_store \<Rightarrow> reader_answers \<Rightarrow> get_request \<Rightarrow> rstr option \<Rightarrow> sessions \<Rightarrow>
     (get_result \<times> rstr, database_error) result \<times> sessions" where
  "reader_get store a request presented sessions =
     (case and_then (object_validate (gr_object request))
         (\<lambda>_. selector_validate (gr_selector request)) of
        Inl e \<Rightarrow> (Err e, sessions)
      | Inr _ \<Rightarrow>
          (case presented of
             Some i \<Rightarrow> (reader_continue store a request i sessions, sessions)
           | None \<Rightarrow> reader_open store a request sessions))"

text \<open>
  Concurrent calls interleave at their critical sections.  A run of the table lists the
  identifiers that were registered, or tried, along it.
\<close>

inductive reader_run :: "rstr list \<Rightarrow> sessions \<Rightarrow> sessions \<Rightarrow> bool" where
  start: "reader_run [] ss ss"
| register: "reader_run ids ss ss' \<Longrightarrow> reader_run (i # ids) ss (snd (reader_register time i result ss'))"
| forget: "reader_run ids ss ss' \<Longrightarrow> reader_run ids ss (reader_forget i ss')"

section \<open>Search admission\<close>

datatype search_mode = QueryMode | Ripgrep

definition MAX_CITATION_SEARCH_RESULTS :: nat where
  "MAX_CITATION_SEARCH_RESULTS = 20"

definition bad_filter :: "rstr option \<Rightarrow> bool" where
  "bad_filter v = (case v of None \<Rightarrow> False | Some s \<Rightarrow> 256 < str_len s \<or> list_ex is_control s)"

definition bad_date :: "rstr option \<Rightarrow> bool" where
  "bad_date v = (case v of None \<Rightarrow> False | Some s \<Rightarrow> \<not> valid_date s)"

definition search_validate :: "search_request \<Rightarrow> (unit, database_error) result" where
  "search_validate r =
     (let f = s_filters r in
      if 4096 < str_len (s_query r)
         \<or> \<not> (1 \<le> s_limit r \<and> s_limit r \<le> 100)
         \<or> 3 < length (f_datasets f)
         \<or> 32 < length (s_sections r)
         \<or> list_ex (\<lambda>v. v = [] \<or> 256 < str_len v) (s_sections r)
         \<or> 3 < s_context_lines r
         \<or> (case s_cursor r of None \<Rightarrow> False | Some v \<Rightarrow> 1024 < str_len v)
         \<or> list_ex bad_filter [f_authority f, f_object_id f, f_document_type f]
      then Err DEInvalidInput
      else if (f_date_from f \<noteq> None \<or> f_date_to f \<noteq> None) \<and> f_date_kind f = None
      then Err DEInvalidInput
      else if list_ex bad_date [f_date_from f, f_date_to f] then Err DEInvalidInput
      else
        (case (f_date_from f, f_date_to f) of
           (Some a, Some b) \<Rightarrow> if b < a then Err DEInvalidInput else Ok ()
         | _ \<Rightarrow> Ok ()))"

text \<open>
  \<open>search_inner\<close> up to the backend call: the request is admitted when it is valid for its mode
  and one of the two slots is free; the slot belongs to the backend's budget from then on, which
  has 64 MiB and at most ten seconds.
\<close>

record search_budget =
  sb_bytes :: nat
  sb_deadline :: nat

definition search_slots :: nat where
  "search_slots = 2"

definition search_admit ::
  "search_mode \<Rightarrow> search_request \<Rightarrow> nat \<Rightarrow> nat \<Rightarrow> nat \<Rightarrow>
     (search_budget \<times> nat, database_error) result" where
  "search_admit mode request deadline now free =
     and_then (search_validate request) (\<lambda>_.
       if mode = QueryMode
          \<and> (s_context_lines request \<noteq> 0
             \<or> (s_ignore_case request \<and> \<not> s_literal request)
             \<or> (s_literal request \<and> list_ex is_control (s_query request)))
       then Err DEInvalidInput
       else
         and_then (ok_or (checked_sub free 1) DECapacity) (\<lambda>free.
           Ok (\<lparr>sb_bytes = 64 * 1024 * 1024, sb_deadline = min deadline (now + 10)\<rparr>, free)))"

text \<open>
  The race after admission: the first of cancellation, deadline and the backend's answer decides.
\<close>

datatype 'a search_event =
    SearchCancelled
  | DeadlineReached
  | BackendAnswered "('a, database_error) result"

primrec search_outcome :: "'a search_event \<Rightarrow> ('a, database_error) result" where
  "search_outcome SearchCancelled = Err DECancelled"
| "search_outcome DeadlineReached = Err DECapacity"
| "search_outcome (BackendAnswered result) = result"

definition search_citable_admit ::
  "search_request \<Rightarrow> nat \<Rightarrow> nat \<Rightarrow> nat \<Rightarrow> (search_budget \<times> nat, database_error) result" where
  "search_citable_admit request deadline now free =
     (if MAX_CITATION_SEARCH_RESULTS < s_limit request \<or> s_cursor request \<noteq> None
      then Err DEInvalidInput
      else search_admit QueryMode request deadline now free)"

section \<open>Lemmas\<close>

lemma head_freshness_Ok:
  "head_freshness_of True fresh_only v r c now = Ok f \<Longrightarrow>
     \<exists>h. f = Some h \<and> v \<le> now \<and> r \<le> now \<and> c \<le> now
       \<and> hf_served_at h = now \<and> hf_age_seconds h = now - v \<and> now < v + MAX_STALE_SECONDS
       \<and> (hf_state h = Fresh \<longleftrightarrow> now < v + FRESH_SECONDS)
       \<and> (fresh_only \<longrightarrow> hf_state h = Fresh)
       \<and> hf_fresh_remaining_seconds h = v + FRESH_SECONDS - now
       \<and> hf_stale_remaining_seconds h = v + MAX_STALE_SECONDS - now"
  by (auto simp: head_freshness_of_def result_simps split: if_splits)

lemma head_freshness_historical [simp]: "head_freshness_of False fresh_only v r c now = Ok None"
  by (simp add: head_freshness_of_def)

lemma database_get_OkD:
  assumes "database_get store t request = Ok g"
  shows "object_validate (gr_object request) = Ok ()" "selector_ok (gr_selector request)"
    "\<not> ct_cancelled t" "\<not> ct_cancelled_after t"
    "db_resolve store (gr_object request) (gr_selector request) (ct_now t) = Ok (g_capture g)"
    "head_freshness_of (gr_selector request = Head) (gr_fresh_only request)
       (c_validated_at (g_capture g)) (c_retrieved_at (g_capture g)) (c_captured_at (g_capture g))
       (ct_now_after t) = Ok (g_freshness g)"
  using assms by (auto simp: database_get_def result_simps Let_def split: if_splits)

text \<open>With the inherited \<open>resolve_metadata\<close>, metadata reads are reads without the text.\<close>

lemma database_get_metadata_default:
  assumes "db_resolve_metadata store = default_resolve_metadata (db_resolve store)"
  shows "database_get_metadata store t request =
    and_then (database_get store t request) (\<lambda>g. Ok (metadata_of g))"
  by (cases "object_validate (gr_object request)"; cases "selector_validate (gr_selector request)";
      cases "db_resolve store (gr_object request) (gr_selector request) (ct_now t)")
    (simp_all add: assms database_get_metadata_def database_get_def default_resolve_metadata_def
      metadata_of_def and_then_assoc Let_def del: object_validate_Ok selector_validate_Ok)

lemma resolve_diff_OkD:
  assumes "resolve_diff p d store t1 t2 ob s1 s2 = Ok (a, b)"
  shows "lr_object (c_record (g_capture a)) = lr_object (c_record (g_capture b))"
    "\<not> unprocessable_primary p d a" "\<not> unprocessable_primary p d b"
  using assms by (auto simp: resolve_diff_def result_simps split: if_splits)

subsection \<open>Sessions\<close>

definition sessions_inv :: "sessions \<Rightarrow> bool" where
  "sessions_inv ss \<longleftrightarrow> distinct (map fst ss) \<and> length ss \<le> MAX_SESSIONS"

lemma map_of_filter_same:
  "distinct (map fst ss) \<Longrightarrow>
    map_of (filter (\<lambda>(k, s). P k s) ss) i = None \<or> map_of (filter (\<lambda>(k, s). P k s) ss) i = map_of ss i"
proof (induction ss)
  case (Cons x ss)
  obtain k s where x: "x = (k, s)" by (cases x)
  show ?case
  proof (cases "k = i \<and> \<not> P k s")
    case True
    then have "i \<notin> fst ` set (filter (\<lambda>(k, s). P k s) ss)" using Cons.prems x by auto
    then show ?thesis using True x by (simp add: map_of_eq_None_iff)
  next
    case False
    then show ?thesis using Cons x by auto
  qed
qed simp

lemma distinct_filter_fst: "distinct (map fst ss) \<Longrightarrow> distinct (map fst (filter P ss))"
  by (simp add: distinct_map_filter)

lemma sessions_inv_filter: "sessions_inv ss \<Longrightarrow> sessions_inv (filter P ss)"
  using order_trans [OF length_filter_le [of P ss]] by (simp add: sessions_inv_def distinct_filter_fst)

lemma sessions_inv_register:
  "sessions_inv ss \<Longrightarrow> sessions_inv (snd (reader_register time i result ss))"
  using sessions_inv_filter [of ss "\<lambda>(_, s). time < rs_expires s"]
  by (auto simp: reader_register_def Let_def sessions_inv_def map_of_eq_None_iff)

lemma reader_run_inv: "reader_run ids ss ss' \<Longrightarrow> sessions_inv ss \<Longrightarrow> sessions_inv ss'"
  by (induction rule: reader_run.induct)
    (auto simp: sessions_inv_register sessions_inv_filter reader_forget_def)

lemma register_other:
  assumes "sessions_inv ss" "j \<noteq> i"
  shows "map_of (snd (reader_register time j result ss)) i \<in> {None, map_of ss i}"
  using assms map_of_filter_same [of ss "\<lambda>_ s. time < rs_expires s" i]
  by (auto simp: reader_register_def Let_def sessions_inv_def)

lemma forget_other:
  assumes "sessions_inv ss"
  shows "map_of (reader_forget j ss) i \<in> {None, map_of ss i}"
  using assms map_of_filter_same [of ss "\<lambda>k _. k \<noteq> j" i]
  by (auto simp: reader_forget_def sessions_inv_def)

text \<open>An entry never changes while its identifier is not registered anew.\<close>

lemma reader_run_entry:
  assumes "reader_run ids ss ss'" "sessions_inv ss" "i \<notin> set ids"
  shows "map_of ss' i \<in> {None, map_of ss i}"
  using assms
proof (induction rule: reader_run.induct)
  case (register ids ss ss' j time result)
  then show ?case
    using register_other [OF reader_run_inv [OF register.hyps], of j i time result] by auto
next
  case (forget ids ss ss' j)
  then show ?case using forget_other [OF reader_run_inv [OF forget.hyps], of j i] by auto
qed simp

lemma reader_open_OkD:
  assumes "reader_open store a request ss = (Ok (g, i), ss')"
  shows "database_get store (ra_database a) request = Ok g"
    "ss' = snd (reader_register (ra_time a) i g ss)"
    "map_of ss' i = Some \<lparr>rs_object = lr_object (c_record (g_capture g)),
       rs_capture = c_capture_id (g_capture g), rs_expires = saturating_add (ra_time a) 600\<rparr>"
  using assms
  by (auto simp: reader_open_def reader_register_def Let_def result_simps
      split: sum.splits prod.splits if_splits)

lemma reader_continue_OkD:
  assumes "reader_continue store a request i ss = Ok (g, j)"
  shows "j = i" "database_get store (ra_database a) request = Ok g"
    "\<exists>s. map_of ss i = Some s \<and> ra_time a < rs_expires s \<and> gr_object request = rs_object s
       \<and> gr_selector request = CaptureId (rs_capture s)"
  using assms by (auto simp: reader_continue_def reader_lookup_def result_simps split: if_splits)

subsection \<open>Searches\<close>

lemma search_validate_dates:
  assumes "search_validate r = Ok ()" "f_date_from (s_filters r) = Some a"
    "f_date_to (s_filters r) = Some b"
  shows "valid_date a" "valid_date b" "not_after a b"
proof -
  show v: "valid_date a" "valid_date b"
    using assms by (auto simp: search_validate_def Let_def bad_date_def split: if_splits)
  have "a \<le> b" using assms by (auto simp: search_validate_def Let_def split: if_splits)
  then show "not_after a b" using valid_date_order [OF v] by simp
qed

lemma search_admit_Ok:
  assumes "search_admit mode r deadline now free = Ok (b, free')"
  shows "search_validate r = Ok ()" "free = Suc free'" "sb_deadline b \<le> now + 10"
    "sb_deadline b \<le> deadline"
  using assms by (auto simp: search_admit_def result_simps split: if_splits)

section \<open>Properties\<close>

definition sample_capture :: "rstr \<Rightarrow> object_id \<Rightarrow> capture" where
  "sample_capture i ob =
     \<lparr>c_capture_id = i, c_sequence = 1, c_record = sample_record\<lparr>lr_object := ob\<rparr>,
      c_retrieved_at = 100, c_captured_at = 100, c_validated_at = 100,
      c_processor_version = lit ''v1'', c_raw_sha256 = replicate 64 98\<rparr>"

text \<open>A store with one capture per requested identifier; the current one is all \<open>a\<close>.\<close>

definition sample_store :: database_store where
  "sample_store =
     \<lparr>db_resolve = (\<lambda>ob s _. case s of CaptureId i \<Rightarrow> Ok (sample_capture i ob)
        | _ \<Rightarrow> Ok (sample_capture (replicate 64 97) ob)),
      db_resolve_metadata = (\<lambda>_ _ _. Err DENotFound),
      db_original_evidence = default_original_evidence,
      db_history = (\<lambda>_ _ _ _ _. Err DENotFound)\<rparr>"

definition sample_times :: "nat \<Rightarrow> call_times" where
  "sample_times now =
     \<lparr>ct_cancelled = False, ct_now = now, ct_cancelled_after = False, ct_now_after = now\<rparr>"

definition sample_answers :: "nat \<Rightarrow> reader_answers" where
  "sample_answers now =
     \<lparr>ra_time = now, ra_check_before = Ok (), ra_database = sample_times now,
      ra_check_after = Ok (), ra_new_id = Ok (replicate 64 99), ra_pin = Ok ()\<rparr>"

definition sample_object :: object_id where
  "sample_object = lr_object sample_record"

definition sample_get :: "revision_selector \<Rightarrow> get_request" where
  "sample_get s = \<lparr>gr_object = sample_object, gr_selector = s, gr_fresh_only = False\<rparr>"

text \<open>
  C36. A read is served from what the store resolved for exactly the requested object and
  selector, and never after a cancellation was seen.  A current version is served only with
  timestamps that are not in the future and less than a day after its validation, marked fresh
  exactly during the first hour, with the exact remaining times; a caller that insists on fresh
  data never gets a stale version.  Historical reads carry no freshness.
\<close>

theorem database_get_current:
  assumes "database_get store t request = Ok g"
  shows "object_validate (gr_object request) = Ok () \<and> selector_ok (gr_selector request)
    \<and> \<not> ct_cancelled t \<and> \<not> ct_cancelled_after t
    \<and> db_resolve store (gr_object request) (gr_selector request) (ct_now t) = Ok (g_capture g)
    \<and> (if gr_selector request = Head
       then (let c = g_capture g; now = ct_now_after t in
         \<exists>h. g_freshness g = Some h
           \<and> c_validated_at c \<le> now \<and> c_retrieved_at c \<le> now \<and> c_captured_at c \<le> now
           \<and> now < c_validated_at c + 86400
           \<and> (hf_state h = Fresh \<longleftrightarrow> now < c_validated_at c + 3600)
           \<and> (gr_fresh_only request \<longrightarrow> hf_state h = Fresh)
           \<and> hf_fresh_remaining_seconds h = c_validated_at c + 3600 - now
           \<and> hf_stale_remaining_seconds h = c_validated_at c + 86400 - now)
       else g_freshness g = None)"
proof (cases "gr_selector request = Head")
  case True
  then show ?thesis
    using database_get_OkD(1-5) [OF assms]
      head_freshness_Ok [OF database_get_OkD(6) [OF assms, unfolded True simp_thms]]
    by (auto simp: Let_def FRESH_SECONDS_def MAX_STALE_SECONDS_def)
next
  case False
  then show ?thesis using database_get_OkD [OF assms] by simp
qed

theorem database_get_current_witness:
  "\<exists>g. database_get sample_store (sample_times 3700) (sample_get Head) = Ok g
     \<and> (\<exists>h. g_freshness g = Some h \<and> hf_state h \<noteq> Fresh)"
proof -
  let ?g = "\<lparr>g_capture = sample_capture (replicate 64 97) sample_object,
    g_freshness = Some \<lparr>hf_state = Stale, hf_served_at = 3700, hf_cached_at = 100,
      hf_age_seconds = 3600, hf_fresh_ttl_seconds = 3600, hf_fresh_remaining_seconds = 0,
      hf_stale_remaining_seconds = 82800, hf_fresh_expires_at = 3700,
      hf_stale_expires_at = 86500\<rparr>\<rparr>"
  have g: "database_get sample_store (sample_times 3700) (sample_get Head) = Ok ?g"
    by code_simp
  show ?thesis
    using database_get_current [OF g] g
    by (intro exI [of _ ?g])
      (auto simp: sample_get_def sample_capture_def sample_times_def Let_def)
qed

text \<open>
  C8. A content session is immutable.  Open a session, let any other calls register and forget
  sessions, and come back with its identifier: a read that succeeds returns the capture the
  session was opened with, of the same object, as a historical read, within ten minutes of the
  opening; it neither changes the table nor the identifier, and the table never holds more than
  64 sessions.  The store is relied upon to return the capture a capture selector names, and
  identifiers are not drawn twice.
\<close>

theorem reader_session_immutable:
  assumes contract: "\<And>ob i now c. db_resolve store ob (CaptureId i) now = Ok c \<Longrightarrow>
      c_capture_id c = i \<and> lr_object (c_record c) = ob"
    and before_open: "reader_run ids [] ss0"
    and opened: "reader_get store a request None ss0 = (Ok (g, i), ss1)"
    and between: "reader_run ids' ss1 ss2" "i \<notin> set ids'"
    and again: "reader_get store b request' (Some i) ss2 = (Ok (g', j), ss3)"
  shows "j = i \<and> ss3 = ss2 \<and> length ss3 \<le> 64
    \<and> c_capture_id (g_capture g') = c_capture_id (g_capture g)
    \<and> lr_object (c_record (g_capture g')) = lr_object (c_record (g_capture g))
    \<and> g_freshness g' = None \<and> ra_time b < ra_time a + 600"
proof -
  have o: "reader_open store a request ss0 = (Ok (g, i), ss1)"
    using opened by (auto simp: reader_get_def split: sum.splits)
  have c: "reader_continue store b request' i ss2 = Ok (g', j)" and [simp]: "ss3 = ss2"
    using again by (auto simp: reader_get_def split: sum.splits)
  have "sessions_inv ss0" by (rule reader_run_inv [OF before_open]) (simp add: sessions_inv_def)
  then have inv1: "sessions_inv ss1" using reader_open_OkD(2) [OF o] sessions_inv_register by metis
  then have inv2: "sessions_inv ss2" by (rule reader_run_inv [OF between(1)])
  obtain s where s: "map_of ss2 i = Some s" "ra_time b < rs_expires s"
    "gr_object request' = rs_object s" "gr_selector request' = CaptureId (rs_capture s)"
    using reader_continue_OkD(3) [OF c] by blast
  have "map_of ss1 i = Some s" using reader_run_entry [OF between(1) inv1 between(2)] s(1) by auto
  then have s': "rs_object s = lr_object (c_record (g_capture g))"
    "rs_capture s = c_capture_id (g_capture g)" "rs_expires s = saturating_add (ra_time a) 600"
    using reader_open_OkD(3) [OF o] by auto
  have d: "database_get store (ra_database b) request' = Ok g'"
    by (rule reader_continue_OkD(2) [OF c])
  have "c_capture_id (g_capture g') = rs_capture s \<and> lr_object (c_record (g_capture g')) = rs_object s"
    using contract database_get_OkD(5) [OF d] s(3,4) by metis
  moreover have "g_freshness g' = None" using database_get_OkD(6) [OF d] s(4) by simp
  ultimately show ?thesis
    using s(2) s' reader_continue_OkD(1) [OF c] inv2
    by (auto simp: sessions_inv_def MAX_SESSIONS_def saturating_add_def)
qed

theorem reader_session_immutable_witness:
  "\<exists>g' ss. reader_get sample_store (sample_answers 200) (sample_get (CaptureId (replicate 64 97)))
       (Some (replicate 64 99)) ss = (Ok (g', replicate 64 99), ss)
     \<and> c_capture_id (g_capture g') = replicate 64 97"
proof -
  let ?g = "\<lparr>g_capture = sample_capture (replicate 64 97) sample_object, g_freshness = None\<rparr>"
  let ?ss = "[(replicate 64 99, \<lparr>rs_object = sample_object, rs_capture = replicate 64 97,
    rs_expires = 700\<rparr>)]"
  have contract: "c_capture_id c = i \<and> lr_object (c_record c) = ob"
    if "db_resolve sample_store ob (CaptureId i) now = Ok c" for ob i now c
    using that by (auto simp: sample_store_def sample_capture_def)
  have opened: "reader_get sample_store (sample_answers 100)
      (sample_get (CaptureId (replicate 64 97))) None [] = (Ok (?g, replicate 64 99), ?ss)"
    by code_simp
  have again: "reader_get sample_store (sample_answers 200)
      (sample_get (CaptureId (replicate 64 97))) (Some (replicate 64 99)) ?ss
      = (Ok (?g, replicate 64 99), ?ss)"
    by code_simp
  show ?thesis
    using again reader_session_immutable [OF contract reader_run.start opened reader_run.start _ again]
    by (intro exI [of _ ?g] exI [of _ ?ss]) (auto simp: sample_capture_def)
qed

end
