(* ===== verification/Demand_Collection.thy ===== *)
theory Demand_Collection
  imports Legal_Database "HOL-Library.List_Lexorder" "HOL-Library.Multiset"
begin

text \<open>
  Requests to collect public source material: \<open>crates/domain/src/collection.rs\<close> and the coordinator
  of \<open>crates/application/src/demand_collection.rs\<close>.

  The coordinator only records work.  Each operation returns its status together with the requests
  it handed to the \<open>DemandCollectionStore\<close>, which is a parameter.  \<open>char::is_alphanumeric\<close> and
  \<open>str::to_lowercase\<close> follow the Unicode tables of the standard library; the record \<open>unicode\<close> stands
  for them.  \<open>debug_name\<close> is the derived \<open>Debug\<close> text of a dataset and \<open>error_wire\<close> the derived wire name
  of an error.
\<close>

section \<open>Names\<close>

primrec debug_name :: "dataset \<Rightarrow> rstr" where
  "debug_name NationalStatute = lit ''NationalStatute''"
| "debug_name AdministrativeRule = lit ''AdministrativeRule''"
| "debug_name Ordinance = lit ''Ordinance''"
| "debug_name Treaty = lit ''Treaty''"
| "debug_name Precedent = lit ''Precedent''"
| "debug_name ConstitutionalDecision = lit ''ConstitutionalDecision''"
| "debug_name LegalInterpretation = lit ''LegalInterpretation''"
| "debug_name AdministrativeAppeal = lit ''AdministrativeAppeal''"
| "debug_name EnglishStatute = lit ''EnglishStatute''"
| "debug_name SchoolRule = lit ''SchoolRule''"
| "debug_name LocalPublicCorporationRule = lit ''LocalPublicCorporationRule''"
| "debug_name PublicInstitutionRule = lit ''PublicInstitutionRule''"
| "debug_name LegalTerm = lit ''LegalTerm''"
| "debug_name PpcDecision = lit ''PpcDecision''"
| "debug_name EiacDecision = lit ''EiacDecision''"
| "debug_name FtcDecision = lit ''FtcDecision''"
| "debug_name AcrDecision = lit ''AcrDecision''"
| "debug_name FscDecision = lit ''FscDecision''"
| "debug_name NlrcDecision = lit ''NlrcDecision''"
| "debug_name KccDecision = lit ''KccDecision''"
| "debug_name IaciacDecision = lit ''IaciacDecision''"
| "debug_name OcltDecision = lit ''OcltDecision''"
| "debug_name EccDecision = lit ''EccDecision''"
| "debug_name SfcDecision = lit ''SfcDecision''"
| "debug_name NhrckDecision = lit ''NhrckDecision''"
| "debug_name MoelInterpretation = lit ''MoelInterpretation''"
| "debug_name MolitInterpretation = lit ''MolitInterpretation''"
| "debug_name MoefInterpretation = lit ''MoefInterpretation''"
| "debug_name MofInterpretation = lit ''MofInterpretation''"
| "debug_name MoisInterpretation = lit ''MoisInterpretation''"
| "debug_name MeInterpretation = lit ''MeInterpretation''"
| "debug_name KcsInterpretation = lit ''KcsInterpretation''"
| "debug_name NtsInterpretation = lit ''NtsInterpretation''"
| "debug_name MoeInterpretation = lit ''MoeInterpretation''"
| "debug_name MsitInterpretation = lit ''MsitInterpretation''"
| "debug_name MpvaInterpretation = lit ''MpvaInterpretation''"
| "debug_name MndInterpretation = lit ''MndInterpretation''"
| "debug_name MafraInterpretation = lit ''MafraInterpretation''"
| "debug_name McstInterpretation = lit ''McstInterpretation''"
| "debug_name MojInterpretation = lit ''MojInterpretation''"
| "debug_name MohwInterpretation = lit ''MohwInterpretation''"
| "debug_name MotieInterpretation = lit ''MotieInterpretation''"
| "debug_name MogefInterpretation = lit ''MogefInterpretation''"
| "debug_name MofaInterpretation = lit ''MofaInterpretation''"
| "debug_name MssInterpretation = lit ''MssInterpretation''"
| "debug_name MouInterpretation = lit ''MouInterpretation''"
| "debug_name MolegInterpretation = lit ''MolegInterpretation''"
| "debug_name MfdsInterpretation = lit ''MfdsInterpretation''"
| "debug_name MpmInterpretation = lit ''MpmInterpretation''"
| "debug_name KmaInterpretation = lit ''KmaInterpretation''"
| "debug_name KhsInterpretation = lit ''KhsInterpretation''"
| "debug_name RdaInterpretation = lit ''RdaInterpretation''"
| "debug_name NpaInterpretation = lit ''NpaInterpretation''"
| "debug_name DapaInterpretation = lit ''DapaInterpretation''"
| "debug_name MmaInterpretation = lit ''MmaInterpretation''"
| "debug_name KfsInterpretation = lit ''KfsInterpretation''"
| "debug_name NfaInterpretation = lit ''NfaInterpretation''"
| "debug_name OkaInterpretation = lit ''OkaInterpretation''"
| "debug_name PpsInterpretation = lit ''PpsInterpretation''"
| "debug_name KdcaInterpretation = lit ''KdcaInterpretation''"
| "debug_name KostatInterpretation = lit ''KostatInterpretation''"
| "debug_name KipoInterpretation = lit ''KipoInterpretation''"
| "debug_name KcgInterpretation = lit ''KcgInterpretation''"
| "debug_name NaaccInterpretation = lit ''NaaccInterpretation''"
| "debug_name TtSpecialAppeal = lit ''TtSpecialAppeal''"
| "debug_name KmstSpecialAppeal = lit ''KmstSpecialAppeal''"
| "debug_name AcrSpecialAppeal = lit ''AcrSpecialAppeal''"
| "debug_name AdapSpecialAppeal = lit ''AdapSpecialAppeal''"
| "debug_name AuditConsultation = lit ''AuditConsultation''"

primrec error_wire :: "database_error \<Rightarrow> rstr" where
  "error_wire DESourceRejected = lit ''source_rejected''"
| "error_wire DESourceUnavailable = lit ''source_unavailable''"
| "error_wire DESourceDataInvalid = lit ''source_data_invalid''"
| "error_wire DESourceDownloadFailed = lit ''source_download_failed''"
| "error_wire DESourceUnauthorized = lit ''source_unauthorized''"
| "error_wire DESourceTransient = lit ''source_transient''"
| "error_wire DEInvalidInput = lit ''invalid_input''"
| "error_wire DEInvalidFieldShorthand = lit ''invalid_field_shorthand''"
| "error_wire DEInvalidRegex = lit ''invalid_regex''"
| "error_wire DENotFound = lit ''not_found''"
| "error_wire DENotObserved = lit ''not_observed''"
| "error_wire DECollectionIncomplete = lit ''collection_incomplete''"
| "error_wire DERevisionUnavailable = lit ''revision_unavailable''"
| "error_wire DEAmbiguousRevision = lit ''ambiguous_revision''"
| "error_wire DEAmbiguousCollection = lit ''ambiguous_collection''"
| "error_wire DESourceInventoryIncomplete = lit ''source_inventory_incomplete''"
| "error_wire DEHistoryIncomplete = lit ''history_incomplete''"
| "error_wire DEUnsupportedHistory = lit ''unsupported_history''"
| "error_wire DEProcessingPending = lit ''processing_pending''"
| "error_wire DEFreshnessUnavailable = lit ''freshness_unavailable''"
| "error_wire DEWithdrawn = lit ''withdrawn''"
| "error_wire DEStorageUnavailable = lit ''storage_unavailable''"
| "error_wire DEStorageContended = lit ''storage_contended''"
| "error_wire DEStorageCorrupt = lit ''storage_corrupt''"
| "error_wire DECapacity = lit ''capacity''"
| "error_wire DEBudgetExhausted = lit ''budget_exhausted''"
| "error_wire DEConflict = lit ''conflict''"
| "error_wire DECancelled = lit ''cancelled''"
| "error_wire DESessionExpired = lit ''session_expired''"
| "error_wire DESnapshotInvalidated = lit ''snapshot_invalidated''"

record unicode =
  uc_alphanumeric :: "rchar \<Rightarrow> bool"
  uc_lowercase :: "rstr \<Rightarrow> rstr"

section \<open>Requests\<close>

datatype collection_search_mode = CollectQuery | CollectLiteral

datatype collection_target =
    TargetObject object_id
  | TargetPrecedentCase rstr "rstr option"
  | TargetSearch collection_search_mode rstr "dataset list"

record collection_request =
  cr_target :: collection_target

definition object_rejected :: "object_id \<Rightarrow> bool" where
  "object_rejected ob \<longleftrightarrow>
     o_jurisdiction ob \<noteq> lit ''kr'' \<or> o_provider ob \<noteq> lit ''law_go_kr''
     \<or> o_dataset ob \<noteq> NationalStatute \<or> \<not> list_all is_ascii_digit (o_id ob)"

definition case_rejected :: "unicode \<Rightarrow> rstr \<Rightarrow> rstr option \<Rightarrow> bool" where
  "case_rejected U case_number expected_id \<longleftrightarrow>
     case_number = [] \<or> 64 < str_len case_number
     \<or> \<not> list_all (\<lambda>c. uc_alphanumeric U c \<or> c = 45) case_number
     \<or> (case expected_id of
          None \<Rightarrow> False
        | Some i \<Rightarrow> i = [] \<or> 128 < str_len i \<or> \<not> list_all is_ascii_digit i)"

definition boolean_word :: "rstr \<Rightarrow> bool" where
  "boolean_word word \<longleftrightarrow> to_ascii_uppercase word \<in> {lit ''AND'', lit ''OR'', lit ''NOT''}"

definition repeated_dataset :: "dataset list \<Rightarrow> bool" where
  "repeated_dataset ds = list_ex (\<lambda>i. ds ! i \<in> set (take i ds)) [0..<length ds]"

definition search_rejected :: "unicode \<Rightarrow> collection_search_mode \<Rightarrow> rstr \<Rightarrow> dataset list \<Rightarrow> bool" where
  "search_rejected U mode term datasets \<longleftrightarrow>
     trim term \<noteq> term \<or> term = [] \<or> 128 < str_len term
     \<or> list_ex (\<lambda>c. \<not> (uc_alphanumeric U c \<or> c = 32 \<or> c = 45)) term
     \<or> 8 < length datasets
     \<or> (mode = CollectQuery \<and> list_ex boolean_word (split_whitespace term))
     \<or> repeated_dataset datasets"

definition collection_validate :: "unicode \<Rightarrow> collection_request \<Rightarrow> (unit, database_error) result" where
  "collection_validate U r =
     (case cr_target r of
        TargetObject ob \<Rightarrow>
          and_then (object_validate ob) (\<lambda>_.
            if object_rejected ob then Err DEInvalidInput else Ok ())
      | TargetPrecedentCase case_number expected_id \<Rightarrow>
          if case_rejected U case_number expected_id then Err DEInvalidInput else Ok ()
      | TargetSearch mode term datasets \<Rightarrow>
          if search_rejected U mode term datasets then Err DEInvalidInput else Ok ())"

definition default_datasets :: "dataset list" where
  "default_datasets =
     [NationalStatute, AdministrativeRule, Ordinance, Treaty, Precedent, ConstitutionalDecision,
      LegalInterpretation, AdministrativeAppeal]"

definition collection_normalized :: "unicode \<Rightarrow> collection_request \<Rightarrow> collection_request" where
  "collection_normalized U r =
     (case cr_target r of
        TargetSearch mode term datasets \<Rightarrow>
          r\<lparr>cr_target := TargetSearch mode (uc_lowercase U term)
              (sort_key debug_name (if datasets = [] then default_datasets else datasets))\<rparr>
      | _ \<Rightarrow> r)"

section \<open>Status\<close>

record collection_receipt =
  cc_request_id :: rstr
  cc_status :: rstr
  cc_retry_after_seconds :: nat
  cc_reason :: "rstr option"

datatype demand_state = DemandDisabled | DemandFresh | DemandUnsupported | DemandPending | DemandUnavailable

record demand_status =
  dm_status :: demand_state
  dm_receipt :: "collection_receipt option"
  dm_reason :: "rstr option"

definition demand_status_new :: "demand_state \<Rightarrow> demand_status" where
  "demand_status_new st = \<lparr>dm_status = st, dm_receipt = None, dm_reason = None\<rparr>"

definition demand_status_reason :: "demand_state \<Rightarrow> rstr \<Rightarrow> demand_status" where
  "demand_status_reason st reason = \<lparr>dm_status = st, dm_receipt = None, dm_reason = Some reason\<rparr>"

definition demand_unavailable :: "database_error \<Rightarrow> demand_status" where
  "demand_unavailable e = demand_status_reason DemandUnavailable (error_wire e)"

section \<open>The coordinator\<close>

type_synonym demand_store = "collection_request \<Rightarrow> (demand_status, database_error) result"

definition demand_request ::
  "unicode \<Rightarrow> demand_store \<Rightarrow> bool \<Rightarrow> collection_request \<Rightarrow> demand_status \<times> collection_request list" where
  "demand_request U store cancelled r =
     (if cancelled then (demand_unavailable DECancelled, [])
      else
        let n = collection_normalized U r in
        ((case store n of Inr status \<Rightarrow> status | Inl e \<Rightarrow> demand_unavailable e), [n]))"

definition demand_head ::
  "unicode \<Rightarrow> demand_store \<Rightarrow> bool \<Rightarrow> bool \<Rightarrow> get_request \<Rightarrow> bool \<Rightarrow>
     demand_status \<times> collection_request list" where
  "demand_head U store enabled cancelled request needs_refresh =
     (if \<not> enabled then (demand_status_new DemandDisabled, [])
      else if gr_selector request \<noteq> Head
      then (demand_status_reason DemandUnsupported (lit ''historical_selector''), [])
      else
        let target = \<lparr>cr_target = TargetObject (gr_object request)\<rparr> in
        if collection_validate U target \<noteq> Ok ()
        then (demand_status_reason DemandUnsupported (lit ''unsupported_object''), [])
        else if \<not> needs_refresh then (demand_status_new DemandFresh, [])
        else demand_request U store cancelled target)"

definition search_target :: "rstr \<Rightarrow> dataset list \<Rightarrow> collection_search_mode \<Rightarrow> collection_request" where
  "search_target term datasets mode = \<lparr>cr_target = TargetSearch mode term datasets\<rparr>"

definition validate_collection_term ::
  "unicode \<Rightarrow> rstr option \<Rightarrow> dataset list \<Rightarrow> (unit, database_error) result" where
  "validate_collection_term U term datasets =
     (case term of
        None \<Rightarrow> Ok ()
      | Some t \<Rightarrow> collection_validate U (search_target t datasets CollectLiteral))"

text \<open>Searches whose semantics a provider search cannot express.\<close>

definition unsupported_search :: "search_request \<Rightarrow> search_mode \<Rightarrow> bool" where
  "unsupported_search request mode \<longleftrightarrow>
     s_include_history request \<or> s_include_ocr request \<or> s_sections request \<noteq> []
     \<or> f_authority (s_filters request) \<noteq> None \<or> f_object_id (s_filters request) \<noteq> None
     \<or> f_document_type (s_filters request) \<noteq> None \<or> f_date_kind (s_filters request) \<noteq> None
     \<or> f_date_from (s_filters request) \<noteq> None \<or> f_date_to (s_filters request) \<noteq> None
     \<or> (mode = Ripgrep \<and> \<not> s_literal request)"

definition demand_search ::
  "unicode \<Rightarrow> demand_store \<Rightarrow> bool \<Rightarrow> bool \<Rightarrow> search_request \<Rightarrow> search_mode \<Rightarrow> rstr option \<Rightarrow>
     (demand_status, database_error) result \<times> collection_request list" where
  "demand_search U store enabled cancelled request mode collection_term =
     (case validate_collection_term U collection_term (f_datasets (s_filters request)) of
        Inl e \<Rightarrow> (Err e, [])
      | Inr _ \<Rightarrow>
          if \<not> enabled then (Ok (demand_status_new DemandDisabled), [])
          else if s_cursor request \<noteq> None
          then (Ok (demand_status_reason DemandUnsupported (lit ''continuation'')), [])
          else
            let datasets = f_datasets (s_filters request);
                unsupported =
                  (Ok (demand_status_reason DemandUnsupported (lit ''unsupported_search'')), []);
                go = (\<lambda>target. case demand_request U store cancelled target of (st, calls) \<Rightarrow> (Ok st, calls)) in
            (case collection_term of
               Some term \<Rightarrow> go (search_target term datasets CollectLiteral)
             | None \<Rightarrow>
                 if unsupported_search request mode then unsupported
                 else
                   let target = search_target (s_query request) datasets
                         (if s_literal request then CollectLiteral else CollectQuery) in
                   if collection_validate U target \<noteq> Ok () then unsupported else go target))"

definition demand_term ::
  "unicode \<Rightarrow> demand_store \<Rightarrow> bool \<Rightarrow> bool \<Rightarrow> rstr \<Rightarrow> dataset list \<Rightarrow>
     demand_status \<times> collection_request list" where
  "demand_term U store enabled cancelled term datasets =
     (if \<not> enabled then (demand_status_new DemandDisabled, [])
      else
        let target = search_target term datasets CollectLiteral in
        if collection_validate U target \<noteq> Ok ()
        then (demand_status_reason DemandUnsupported (lit ''unsupported_term''), [])
        else demand_request U store cancelled target)"


section \<open>Lemmas\<close>

lemma repeated_dataset_iff: "repeated_dataset ds \<longleftrightarrow> \<not> distinct ds"
proof
  assume "repeated_dataset ds"
  then obtain i where i: "i < length ds" "ds ! i \<in> set (take i ds)" by (auto simp: repeated_dataset_def list_ex_iff)
  then obtain j where "j < i" "ds ! j = ds ! i" by (auto simp: in_set_conv_nth)
  then show "\<not> distinct ds" using i(1) nth_eq_iff_index_eq [of ds j i] by auto
next
  assume "\<not> distinct ds"
  then obtain i j where ij: "i < length ds" "j < length ds" "i \<noteq> j" "ds ! i = ds ! j"
    by (auto simp: distinct_conv_nth)
  have "ds ! max i j \<in> set (take (max i j) ds)"
    using ij by (auto simp: in_set_conv_nth max_def intro!: exI [of _ "min i j"])
  then show "repeated_dataset ds" using ij(1,2) by (auto simp: repeated_dataset_def list_ex_iff intro!: bexI [of _ "max i j"])
qed

lemma debug_names: "distinct (map debug_name ALL_DATASETS)"
  by code_simp

lemma debug_name_inj: "inj_on debug_name A"
proof (rule inj_on_subset)
  show "inj_on debug_name (set ALL_DATASETS)" using debug_names unfolding distinct_map by (rule conjunct2)
  show "A \<subseteq> set ALL_DATASETS" using ALL_DATASETS_complete by blast
qed

lemma dataset_order_canonical:
  assumes "distinct ds" "distinct es" "set ds = set es"
  shows "sort_key debug_name ds = sort_key debug_name es"
proof -
  have m: "mset ds = mset es" using assms by (simp add: set_eq_iff_mset_eq_distinct)
  show ?thesis
    by (rule sort_key_inj_key_eq [OF _ debug_name_inj sorted_sort_key]) (simp add: m)
qed

lemma collection_validate_Ok:
  "collection_validate U r = Ok () \<longleftrightarrow>
     (case cr_target r of
        TargetObject ob \<Rightarrow> object_validate ob = Ok () \<and> \<not> object_rejected ob
      | TargetPrecedentCase n i \<Rightarrow> \<not> case_rejected U n i
      | TargetSearch m t ds \<Rightarrow> \<not> search_rejected U m t ds)"
  by (cases "cr_target r") (auto simp: collection_validate_def result_simps)

text \<open>What \<open>request\<close> hands to the store, and when.\<close>

lemma demand_request_calls:
  "snd (demand_request U store cancelled r) = (if cancelled then [] else [collection_normalized U r])"
  by (simp add: demand_request_def Let_def)

lemma demand_request_status:
  "\<not> cancelled \<Longrightarrow> fst (demand_request U store cancelled r) =
     (case store (collection_normalized U r) of Inr status \<Rightarrow> status | Inl e \<Rightarrow> demand_unavailable e)"
  by (simp add: demand_request_def Let_def)

text \<open>What a provider search can express: a plain term, in at most eight different datasets.\<close>

definition plain_term :: "unicode \<Rightarrow> rstr \<Rightarrow> dataset list \<Rightarrow> bool" where
  "plain_term U t ds \<longleftrightarrow>
     t \<noteq> [] \<and> str_len t \<le> 128 \<and> trim t = t \<and> list_all (\<lambda>c. uc_alphanumeric U c \<or> c = 32 \<or> c = 45) t
     \<and> length ds \<le> 8 \<and> distinct ds"

text \<open>A first page whose only restrictions are its query and its datasets.\<close>

definition plain_search :: "search_request \<Rightarrow> bool" where
  "plain_search q \<longleftrightarrow>
     q = \<lparr>s_query = s_query q,
          s_filters = \<lparr>f_datasets = f_datasets (s_filters q), f_authority = None, f_object_id = None,
            f_document_type = None, f_date_kind = None, f_date_from = None, f_date_to = None\<rparr>,
          s_include_history = False, s_include_ocr = False, s_sections = [], s_limit = s_limit q,
          s_cursor = None, s_literal = s_literal q, s_ignore_case = s_ignore_case q,
          s_context_lines = s_context_lines q\<rparr>"

definition collectable :: "object_id \<Rightarrow> bool" where
  "collectable ob \<longleftrightarrow>
     object_validate ob = Ok () \<and> o_jurisdiction ob = lit ''kr'' \<and> o_provider ob = lit ''law_go_kr''
     \<and> o_dataset ob = NationalStatute \<and> list_all is_ascii_digit (o_id ob)"

text \<open>The work recorded for a term: in lower case, over the named or the default datasets, in a fixed order.\<close>

definition search_work :: "unicode \<Rightarrow> collection_search_mode \<Rightarrow> rstr \<Rightarrow> dataset list \<Rightarrow> collection_request" where
  "search_work U m t ds =
     \<lparr>cr_target = TargetSearch m (uc_lowercase U t) (sort_key debug_name (if ds = [] then default_datasets else ds))\<rparr>"

lemma search_target_valid:
  "collection_validate U (search_target t ds m) = Ok () \<longleftrightarrow>
     plain_term U t ds \<and> (m = CollectLiteral \<or> list_all (\<lambda>w. \<not> boolean_word w) (split_whitespace t))"
  by (cases m) (auto simp: collection_validate_Ok search_target_def search_rejected_def plain_term_def
      repeated_dataset_iff list_all_iff list_ex_iff)

lemma search_target_work: "collection_normalized U (search_target t ds m) = search_work U m t ds"
  by (simp add: collection_normalized_def search_target_def search_work_def)

lemma object_target_valid:
  "collection_validate U \<lparr>cr_target = TargetObject ob\<rparr> = Ok () \<longleftrightarrow> collectable ob"
  by (auto simp: collection_validate_Ok object_rejected_def collectable_def)

lemma plain_search_iff:
  "plain_search q \<and> (mode = QueryMode \<or> s_literal q) \<longleftrightarrow> s_cursor q = None \<and> \<not> unsupported_search q mode"
proof -
  obtain f where f: "s_filters q = f" by simp
  show ?thesis
    by (cases mode; cases q rule: search_request.cases; cases f rule: filters.cases)
      (use f in \<open>auto simp: plain_search_def unsupported_search_def\<close>)
qed

lemma explicit_term_cases:
  "validate_collection_term U (Some t) ds = (if plain_term U t ds then Ok () else Err DEInvalidInput)"
proof (cases "plain_term U t ds")
  case True
  then show ?thesis using search_target_valid [of U t ds CollectLiteral] by (simp add: validate_collection_term_def)
next
  case False
  then have "collection_validate U (search_target t ds CollectLiteral) \<noteq> Ok ()" by (simp add: search_target_valid)
  then show ?thesis using False by (auto simp: validate_collection_term_def collection_validate_def search_target_def split: if_splits)
qed

lemma demand_search_explicit:
  "snd (demand_search U store enabled cancelled request mode (Some t)) =
     (if enabled \<and> \<not> cancelled \<and> s_cursor request = None \<and> plain_term U t (f_datasets (s_filters request))
      then [search_work U CollectLiteral t (f_datasets (s_filters request))] else [])"
  by (auto simp: demand_search_def explicit_term_cases search_target_work demand_request_def Let_def)

section \<open>Properties\<close>

text \<open>
  C25. The coordinator records exactly the work it was asked for.  It calls the store at most once, only when
  collection is enabled and the caller has not cancelled: for a head read, when it needs a refresh and names a
  Korean national statute by digits, with that statute; for a named term with that term as a literal search; for a search
  with an explicit collection term with this term, which the caller chose in place of the query; for any
  other search with the query itself, and only when the request has no other restriction that a provider search
  would lose (history, OCR, sections, filters, continuation, a pattern or a boolean expression).  Terms are
  plain, at most 128 bytes long, and name at most eight different datasets; a search with a bad explicit
  term is refused.
\<close>

theorem demand_store_calls:
  "snd (demand_head U store enabled cancelled get needs_refresh) =
     (if enabled \<and> \<not> cancelled \<and> needs_refresh \<and> gr_selector get = Head \<and> collectable (gr_object get)
      then [\<lparr>cr_target = TargetObject (gr_object get)\<rparr>] else [])
   \<and> snd (demand_term U store enabled cancelled term datasets) =
     (if enabled \<and> \<not> cancelled \<and> plain_term U term datasets
      then [search_work U CollectLiteral term datasets] else [])
   \<and> snd (demand_search U store enabled cancelled request mode (Some term)) =
     (if enabled \<and> \<not> cancelled \<and> s_cursor request = None \<and> plain_term U term (f_datasets (s_filters request))
      then [search_work U CollectLiteral term (f_datasets (s_filters request))] else [])
   \<and> (plain_term U term (f_datasets (s_filters request))
      \<or> fst (demand_search U store enabled cancelled request mode (Some term)) = Err DEInvalidInput)
   \<and> snd (demand_search U store enabled cancelled request mode None) =
     (if enabled \<and> \<not> cancelled \<and> plain_search request \<and> (mode = QueryMode \<or> s_literal request)
         \<and> plain_term U (s_query request) (f_datasets (s_filters request))
         \<and> (s_literal request \<or> list_all (\<lambda>w. \<not> boolean_word w) (split_whitespace (s_query request)))
      then [search_work U (if s_literal request then CollectLiteral else CollectQuery)
              (s_query request) (f_datasets (s_filters request))]
      else [])"
proof (intro conjI)
  show "snd (demand_head U store enabled cancelled get needs_refresh) =
     (if enabled \<and> \<not> cancelled \<and> needs_refresh \<and> gr_selector get = Head \<and> collectable (gr_object get)
      then [\<lparr>cr_target = TargetObject (gr_object get)\<rparr>] else [])"
    by (simp add: demand_head_def demand_request_calls object_target_valid collection_normalized_def Let_def)
  show "snd (demand_term U store enabled cancelled term datasets) =
     (if enabled \<and> \<not> cancelled \<and> plain_term U term datasets
      then [search_work U CollectLiteral term datasets] else [])"
    by (simp add: demand_term_def demand_request_calls search_target_valid search_target_work Let_def)
  show "snd (demand_search U store enabled cancelled request mode (Some term)) =
     (if enabled \<and> \<not> cancelled \<and> s_cursor request = None \<and> plain_term U term (f_datasets (s_filters request))
      then [search_work U CollectLiteral term (f_datasets (s_filters request))] else [])"
    unfolding demand_search_explicit by simp
  show "plain_term U term (f_datasets (s_filters request))
      \<or> fst (demand_search U store enabled cancelled request mode (Some term)) = Err DEInvalidInput"
    by (auto simp: demand_search_def explicit_term_cases)
  have "plain_search request \<and> (mode = QueryMode \<or> s_literal request) \<longleftrightarrow>
      s_cursor request = None \<and> \<not> unsupported_search request mode" by (rule plain_search_iff)
  then show "snd (demand_search U store enabled cancelled request mode None) =
     (if enabled \<and> \<not> cancelled \<and> plain_search request \<and> (mode = QueryMode \<or> s_literal request)
         \<and> plain_term U (s_query request) (f_datasets (s_filters request))
         \<and> (s_literal request \<or> list_all (\<lambda>w. \<not> boolean_word w) (split_whitespace (s_query request)))
      then [search_work U (if s_literal request then CollectLiteral else CollectQuery)
              (s_query request) (f_datasets (s_filters request))]
      else [])"
    by (auto simp: demand_search_def validate_collection_term_def search_target_valid search_target_work
        demand_request_def Let_def)
qed

text \<open>The tables restricted to ASCII, for concrete requests.\<close>

definition ascii_unicode :: unicode where
  "ascii_unicode = \<lparr>uc_alphanumeric = is_ascii_alphanumeric, uc_lowercase = to_ascii_lowercase\<rparr>"

definition sample_search :: search_request where
  "sample_search =
     \<lparr>s_query = lit ''in:title:Act'',
      s_filters = \<lparr>f_datasets = [Treaty, NationalStatute], f_authority = None, f_object_id = None,
        f_document_type = None, f_date_kind = None, f_date_from = None, f_date_to = None\<rparr>,
      s_include_history = True, s_include_ocr = False, s_sections = [], s_limit = 20, s_cursor = None,
      s_literal = False, s_ignore_case = False, s_context_lines = 0\<rparr>"

definition pending_store :: demand_store where
  "pending_store r = Ok (demand_status_new DemandPending)"

definition sample_demand :: collection_request where
  "sample_demand = \<lparr>cr_target = TargetSearch CollectLiteral (lit ''act'') [NationalStatute, Treaty]\<rparr>"

definition plain_sample :: search_request where
  "plain_sample = sample_search\<lparr>s_query := lit ''Labour Act'', s_include_history := False\<rparr>"

text \<open>The explicit term replaces a query that could not be collected; a plain query is collected itself, but not
  with OCR text or as a boolean expression.\<close>

theorem demand_store_calls_witness:
  "snd (demand_search ascii_unicode pending_store True False sample_search QueryMode (Some (lit ''Act''))) = [sample_demand]
   \<and> snd (demand_search ascii_unicode pending_store True False sample_search QueryMode None) = []
   \<and> snd (demand_search ascii_unicode pending_store True False plain_sample QueryMode None) =
       [\<lparr>cr_target = TargetSearch CollectQuery (lit ''labour act'') [NationalStatute, Treaty]\<rparr>]
   \<and> snd (demand_search ascii_unicode pending_store True False (plain_sample\<lparr>s_include_ocr := True\<rparr>) QueryMode None) = []
   \<and> snd (demand_search ascii_unicode pending_store True False (plain_sample\<lparr>s_query := lit ''a or b''\<rparr>) QueryMode None) = []"
proof (intro conjI)
  note calls = demand_store_calls [where U = ascii_unicode and store = pending_store and enabled = True and cancelled = False
      and mode = QueryMode, THEN conjunct2, THEN conjunct2]
  note explicit = calls [THEN conjunct1] and implicit = calls [THEN conjunct2, THEN conjunct2]
  show "snd (demand_search ascii_unicode pending_store True False sample_search QueryMode (Some (lit ''Act''))) = [sample_demand]"
    unfolding explicit by code_simp
  show "snd (demand_search ascii_unicode pending_store True False sample_search QueryMode None) = []"
    unfolding implicit by code_simp
  show "snd (demand_search ascii_unicode pending_store True False plain_sample QueryMode None) =
       [\<lparr>cr_target = TargetSearch CollectQuery (lit ''labour act'') [NationalStatute, Treaty]\<rparr>]"
    unfolding implicit by code_simp
  show "snd (demand_search ascii_unicode pending_store True False (plain_sample\<lparr>s_include_ocr := True\<rparr>) QueryMode None) = []"
    unfolding implicit by code_simp
  show "snd (demand_search ascii_unicode pending_store True False (plain_sample\<lparr>s_query := lit ''a or b''\<rparr>) QueryMode None) = []"
    unfolding implicit by code_simp
qed

text \<open>
  Searches that ask for the same work have the same normal form: validated searches of one mode
  whose terms agree after lower-casing and whose datasets agree as sets, with the eight default
  datasets for none, normalise to the same request, whose datasets are distinct, in a fixed order
  and between one and eight.
\<close>

theorem normalized_canonical:
  assumes "collection_validate U (search_target t ds m) = Ok ()" "collection_validate U (search_target t' es m) = Ok ()"
    and "uc_lowercase U t = uc_lowercase U t'"
    and "set (if ds = [] then default_datasets else ds) = set (if es = [] then default_datasets else es)"
  shows "collection_normalized U (search_target t ds m) = collection_normalized U (search_target t' es m)
    \<and> (\<exists>order. cr_target (collection_normalized U (search_target t ds m)) = TargetSearch m (uc_lowercase U t) order
         \<and> distinct order \<and> sorted (map debug_name order) \<and> 1 \<le> length order \<and> length order \<le> 8
         \<and> set order = set (if ds = [] then default_datasets else ds))"
proof -
  let ?d = "if ds = [] then default_datasets else ds" and ?e = "if es = [] then default_datasets else es"
  have default: "distinct default_datasets" "length default_datasets = 8" by code_simp+
  have D: "distinct ?d" "distinct ?e" "1 \<le> length ?d" "length ?d \<le> 8"
    using assms(1,2) default
    by (auto simp: collection_validate_Ok search_target_def search_rejected_def repeated_dataset_iff Suc_le_eq)
  have "sort_key debug_name ?d = sort_key debug_name ?e"
    by (rule dataset_order_canonical [OF D(1,2) assms(4)])
  then have "collection_normalized U (search_target t ds m) = collection_normalized U (search_target t' es m)"
    using assms(3) by (simp only: collection_normalized_def search_target_def collection_request.simps
        collection_target.simps)
  moreover have "cr_target (collection_normalized U (search_target t ds m))
      = TargetSearch m (uc_lowercase U t) (sort_key debug_name ?d)"
    by (simp add: collection_normalized_def search_target_def)
  moreover have "distinct (sort_key debug_name ?d)" "sorted (map debug_name (sort_key debug_name ?d))"
    "1 \<le> length (sort_key debug_name ?d)" "length (sort_key debug_name ?d) \<le> 8"
    "set (sort_key debug_name ?d) = set ?d"
    using D by (simp_all only: distinct_sort sorted_sort_key length_sort set_sort)
  ultimately show ?thesis by blast
qed

theorem normalized_canonical_witness:
  "collection_normalized ascii_unicode (search_target (lit ''Act'') [Treaty, NationalStatute] CollectLiteral)
   = collection_normalized ascii_unicode (search_target (lit ''ACT'') [NationalStatute, Treaty] CollectLiteral)"
proof -
  have "collection_validate ascii_unicode (search_target (lit ''Act'') [Treaty, NationalStatute] CollectLiteral) = Ok ()"
    "collection_validate ascii_unicode (search_target (lit ''ACT'') [NationalStatute, Treaty] CollectLiteral) = Ok ()"
    "uc_lowercase ascii_unicode (lit ''Act'') = uc_lowercase ascii_unicode (lit ''ACT'')"
    "set (if [Treaty, NationalStatute] = [] then default_datasets else [Treaty, NationalStatute])
     = set (if [NationalStatute, Treaty] = [] then default_datasets else [NationalStatute, Treaty])"
    by code_simp+
  from normalized_canonical [OF this] show ?thesis by blast
qed

text \<open>
  Normalising is not closed under validation: the capital I with a dot above lower-cases to a small i
  and a combining dot, which is not alphanumeric, so the store's own validation rejects the normal
  form of a term the coordinator accepted.
\<close>

lemma normalized_may_be_rejected:
  assumes "uc_alphanumeric U 0x130" "\<not> uc_alphanumeric U 0x307" "uc_lowercase U [0x130] = [0x69, 0x307]"
  shows "collection_validate U (search_target [0x130] [] CollectLiteral) = Ok ()"
    "collection_validate U (collection_normalized U (search_target [0x130] [] CollectLiteral)) = Err DEInvalidInput"
proof -
  have t: "trim [0x130] = [0x130]" by (rule trim_none) (simp add: is_whitespace_def)
  show "collection_validate U (search_target [0x130] [] CollectLiteral) = Ok ()"
    using assms(1) t
    by (simp add: collection_validate_Ok search_target_def search_rejected_def repeated_dataset_def len_utf8_def)
  show "collection_validate U (collection_normalized U (search_target [0x130] [] CollectLiteral)) = Err DEInvalidInput"
    using assms(2,3)
    by (simp add: collection_validate_def collection_normalized_def search_target_def search_rejected_def)
qed

end
