(* ===== verification/Memory_Cache.thy ===== *)
theory Memory_Cache
  imports Retrieval_Domain
begin

text \<open>
  The in-memory cache of retrieval results: \<open>CacheKey\<close>, \<open>StoredPayload\<close> and the trait \<open>CacheStore\<close>
  of \<open>crates/application/src/service.rs\<close>, the limits of \<open>crates/application/src/lib.rs\<close>, and
  \<open>MemoryCache\<close> of \<open>crates/adapters/src/cache.rs\<close>.

  The hash map of entries is an association list in some iteration order; \<open>min_by_key\<close> takes the
  first least recently touched entry of that order.  The access counter wraps at 64 bits.

  The locale \<open>cache_store\<close> is what the retrieval service relies on of a \<open>CacheStore\<close>: a lookup
  view of the stored values, which reads do not change, publications extend and evictions only
  shrink.  \<open>MemoryCache\<close> interprets it.
\<close>

section \<open>Keys and payloads\<close>

definition MAX_CACHE_ENTRIES :: nat where
  "MAX_CACHE_ENTRIES = 256"

definition MAX_CACHE_BYTES :: nat where
  "MAX_CACHE_BYTES = 32 * 1024 * 1024"

record source =
  src_id :: rstr
  src_provider :: rstr
  src_dataset :: rstr
  src_processor_version :: rstr

record cache_key =
  ck_provider :: rstr
  ck_dataset :: rstr
  ck_processor_version :: rstr
  ck_schema_version :: nat
  ck_query :: query

definition for_source :: "source \<Rightarrow> query \<Rightarrow> (cache_key, retrieval_error) result" where
  "for_source source query =
     and_then (query_validate query) (\<lambda>_.
       if q_source query \<noteq> src_id source then Err REInvalidInput
       else Ok \<lparr>ck_provider = src_provider source, ck_dataset = src_dataset source,
                ck_processor_version = src_processor_version source, ck_schema_version = 1,
                ck_query = query\<rparr>)"

record stored_payload =
  sd_data :: retrieval_data
  sd_provenance :: provenance
  sd_raw :: "nat list"
  sd_bytes :: nat
  sd_snapshot :: "snapshot_reference option"

section \<open>The memory cache\<close>

record entry =
  en_value :: stored_payload
  en_touched :: nat

record memory_cache =
  mc_entries :: "(cache_key \<times> entry) list"
  mc_bytes :: nat
  mc_access :: nat

definition cache_new :: memory_cache where
  "cache_new = \<lparr>mc_entries = [], mc_bytes = 0, mc_access = 0\<rparr>"

definition wrapping_succ :: "nat \<Rightarrow> nat" where
  "wrapping_succ n = (n + 1) mod 2 ^ 64"

definition cache_get :: "cache_key \<Rightarrow> memory_cache \<Rightarrow> stored_payload option \<times> memory_cache" where
  "cache_get key c =
     (let access = wrapping_succ (mc_access c) in
      (map_option en_value (map_of (mc_entries c) key),
       c\<lparr>mc_access := access,
         mc_entries :=
           map (\<lambda>(k, e). (k, if k = key then e\<lparr>en_touched := access\<rparr> else e)) (mc_entries c)\<rparr>))"

text \<open>\<open>entries.remove(key)\<close> with the accounting that follows it.\<close>

definition cache_remove :: "cache_key \<Rightarrow> memory_cache \<Rightarrow> memory_cache" where
  "cache_remove key c =
     (case map_of (mc_entries c) key of
        None \<Rightarrow> c
      | Some e \<Rightarrow>
          c\<lparr>mc_entries := filter (\<lambda>(k, _). k \<noteq> key) (mc_entries c),
            mc_bytes := mc_bytes c - sd_bytes (en_value e)\<rparr>)"

fun oldest :: "(cache_key \<times> entry) list \<Rightarrow> cache_key option" where
  "oldest [] = None"
| "oldest ((k, e) # es) =
     (if list_all (\<lambda>(_, f). en_touched e \<le> en_touched f) es then Some k else oldest es)"

lemma oldest_mem: "oldest es = Some k \<Longrightarrow> k \<in> fst ` set es"
  by (induction es rule: oldest.induct) (auto split: if_splits)

lemma cache_remove_shrinks:
  "k \<in> fst ` set (mc_entries c) \<Longrightarrow> length (mc_entries (cache_remove k c)) < length (mc_entries c)"
  by (auto simp: cache_remove_def map_of_eq_None_iff image_iff split: option.splits
      intro!: length_filter_less)

function make_room :: "nat \<Rightarrow> memory_cache \<Rightarrow> memory_cache" where
  "make_room needed c =
     (if MAX_CACHE_ENTRIES \<le> length (mc_entries c) \<or> MAX_CACHE_BYTES < mc_bytes c + needed then
        (case oldest (mc_entries c) of
           None \<Rightarrow> c
         | Some k \<Rightarrow> make_room needed (cache_remove k c))
      else c)"
  by pat_completeness auto
termination
  by (relation "measure (\<lambda>(_, c). length (mc_entries c))")
    (auto dest: oldest_mem intro: cache_remove_shrinks)

declare make_room.simps [simp del]

definition cache_publish :: "cache_key \<Rightarrow> stored_payload \<Rightarrow> memory_cache \<Rightarrow> memory_cache" where
  "cache_publish key v c =
     (if MAX_CACHE_BYTES < sd_bytes v then c
      else
        let c = make_room (sd_bytes v) (cache_remove key c);
            access = wrapping_succ (mc_access c) in
        c\<lparr>mc_access := access,
          mc_bytes := mc_bytes c + sd_bytes v,
          mc_entries := (key, \<lparr>en_value = v, en_touched = access\<rparr>) # mc_entries c\<rparr>)"

definition cache_expired :: "nat \<Rightarrow> cache_key \<times> entry \<Rightarrow> bool" where
  "cache_expired validated_before x \<longleftrightarrow>
     pv_validated_at (sd_provenance (en_value (snd x))) < validated_before"

definition cache_expire_before :: "nat \<Rightarrow> memory_cache \<Rightarrow> memory_cache" where
  "cache_expire_before validated_before c =
     c\<lparr>mc_bytes :=
         fold (\<lambda>x bytes. bytes - sd_bytes (en_value (snd x)))
           (filter (cache_expired validated_before) (mc_entries c)) (mc_bytes c),
       mc_entries := filter (\<lambda>x. \<not> cache_expired validated_before x) (mc_entries c)\<rparr>"

definition cache_clear :: "memory_cache \<Rightarrow> memory_cache" where
  "cache_clear c = c\<lparr>mc_entries := [], mc_bytes := 0\<rparr>"

definition cache_stats :: "memory_cache \<Rightarrow> nat \<times> nat" where
  "cache_stats c = (length (mc_entries c), mc_bytes c)"

section \<open>The store contract\<close>

text \<open>One operation of a client on the store.\<close>

datatype store_op =
    StoreGet cache_key
  | StorePublish cache_key stored_payload
  | StoreExpire nat
  | StoreClear

locale cache_store =
  fixes get :: "cache_key \<Rightarrow> 'c \<Rightarrow> stored_payload option \<times> 'c"
    and publish :: "cache_key \<Rightarrow> stored_payload \<Rightarrow> 'c \<Rightarrow> 'c"
    and expire_before :: "nat \<Rightarrow> 'c \<Rightarrow> 'c"
    and clear :: "'c \<Rightarrow> 'c"
    and fresh :: 'c
    and lookup :: "'c \<Rightarrow> cache_key \<Rightarrow> stored_payload option"
    and inv :: "'c \<Rightarrow> bool"
  assumes fresh_inv: "inv fresh" and fresh_lookup: "lookup fresh k = None"
    and get_inv: "inv c \<Longrightarrow> inv (snd (get k c))"
    and get_value: "fst (get k c) = lookup c k"
    and get_lookup: "lookup (snd (get k c)) k' = lookup c k'"
    and publish_inv: "inv c \<Longrightarrow> inv (publish k v c)"
    and publish_lookup: "inv c \<Longrightarrow> lookup (publish k v c) k' = Some w \<Longrightarrow>
      (k' = k \<and> w = v) \<or> lookup c k' = Some w"
    and expire_inv: "inv c \<Longrightarrow> inv (expire_before t c)"
    and expire_lookup: "inv c \<Longrightarrow> lookup (expire_before t c) k = Some w \<longleftrightarrow>
      lookup c k = Some w \<and> t \<le> pv_validated_at (sd_provenance w)"
    and clear_inv: "inv (clear c)"
    and clear_lookup: "lookup (clear c) k = None"
begin

primrec do_op :: "store_op \<Rightarrow> 'c \<Rightarrow> 'c" where
  "do_op (StoreGet k) c = snd (get k c)"
| "do_op (StorePublish k v) c = publish k v c"
| "do_op (StoreExpire t) c = expire_before t c"
| "do_op StoreClear c = clear c"

lemma do_op_inv: "inv c \<Longrightarrow> inv (do_op p c)"
  by (cases p) (auto intro: get_inv publish_inv expire_inv clear_inv)

lemma fold_inv: "inv c \<Longrightarrow> inv (fold do_op ps c)"
  by (induction ps arbitrary: c) (auto intro: do_op_inv)

lemma do_op_lookup:
  "inv c \<Longrightarrow> lookup (do_op p c) k = Some v \<Longrightarrow> p = StorePublish k v \<or> lookup c k = Some v"
  by (cases p) (auto simp: get_lookup expire_lookup clear_lookup dest: publish_lookup)

text \<open>Whatever is found was published under that key.\<close>

lemma lookup_published:
  assumes "lookup (fold do_op ps c) k = Some v" "inv c"
  shows "StorePublish k v \<in> set ps \<or> lookup c k = Some v"
  using assms
proof (induction ps arbitrary: c)
  case (Cons p ps)
  then show ?case using do_op_inv [of c p] do_op_lookup [of c p k v] by auto
qed simp

text \<open>A property of all published values holds of all stored values.\<close>

lemma lookup_all:
  assumes "\<And>k v. StorePublish k v \<in> set ps \<Longrightarrow> P k v"
    and "lookup (fold do_op ps fresh) k = Some v"
  shows "P k v"
  using lookup_published [OF assms(2) fresh_inv] assms(1) by (auto simp: fresh_lookup)

end

section \<open>The memory cache keeps the contract\<close>

definition cache_lookup :: "memory_cache \<Rightarrow> cache_key \<Rightarrow> stored_payload option" where
  "cache_lookup c k = map_option en_value (map_of (mc_entries c) k)"

definition held_bytes :: "(cache_key \<times> entry) list \<Rightarrow> nat" where
  "held_bytes es = sum_list (map (\<lambda>x. sd_bytes (en_value (snd x))) es)"

definition cache_inv :: "memory_cache \<Rightarrow> bool" where
  "cache_inv c \<longleftrightarrow>
     distinct (map fst (mc_entries c)) \<and> mc_bytes c = held_bytes (mc_entries c)
     \<and> length (mc_entries c) \<le> MAX_CACHE_ENTRIES \<and> mc_bytes c \<le> MAX_CACHE_BYTES"

lemma held_bytes_simps [simp]:
  "held_bytes [] = 0"
  "held_bytes (x # es) = sd_bytes (en_value (snd x)) + held_bytes es"
  by (simp_all add: held_bytes_def)

lemma held_bytes_filter: "held_bytes (filter P es) + held_bytes (filter (\<lambda>x. \<not> P x) es) = held_bytes es"
  by (induction es) auto

lemma held_bytes_remove:
  "distinct (map fst es) \<Longrightarrow> map_of es k = Some e \<Longrightarrow>
     held_bytes (filter (\<lambda>(k', _). k' \<noteq> k) es) = held_bytes es - sd_bytes (en_value e)
     \<and> sd_bytes (en_value e) \<le> held_bytes es"
proof (induction es)
  case (Cons x es)
  obtain k' f where x: "x = (k', f)" by (cases x)
  show ?case
  proof (cases "k' = k")
    case True
    then have "filter (\<lambda>(k', _). k' \<noteq> k) es = es"
      using Cons.prems(1) x by (force simp: filter_id_conv)
    then show ?thesis using True Cons.prems x by simp
  next
    case False
    then show ?thesis using Cons x by auto
  qed
qed simp

lemma map_of_remove_key: "map_of (filter (\<lambda>(k', _). k' \<noteq> k) es) k'' = (if k'' = k then None else map_of es k'')"
  by (induction es) auto

text \<open>The bookkeeping part of the invariant, which also holds in the middle of a publication.\<close>

definition cache_books :: "memory_cache \<Rightarrow> bool" where
  "cache_books c \<longleftrightarrow>
     distinct (map fst (mc_entries c)) \<and> mc_bytes c = held_bytes (mc_entries c)"

lemma remove_books: "cache_books c \<Longrightarrow> cache_books (cache_remove k c)"
  using held_bytes_remove [of "mc_entries c" k]
  by (auto simp: cache_books_def cache_remove_def distinct_map_filter split: option.splits)

lemma remove_lookup: "cache_lookup (cache_remove k c) k' = (if k' = k then None else cache_lookup c k')"
  by (auto simp: cache_lookup_def cache_remove_def map_of_remove_key split: option.splits)

lemma remove_bounds:
  "length (mc_entries (cache_remove k c)) \<le> length (mc_entries c)"
  "mc_bytes (cache_remove k c) \<le> mc_bytes c"
  by (auto simp: cache_remove_def split: option.splits)

lemma make_room_books: "cache_books c \<Longrightarrow> cache_books (make_room n c)"
proof (induction n c rule: make_room.induct)
  case (1 n c)
  then show ?case by (subst make_room.simps) (auto split: option.splits intro: remove_books)
qed

lemma make_room_lookup: "cache_lookup (make_room n c) k = Some v \<Longrightarrow> cache_lookup c k = Some v"
proof (induction n c rule: make_room.induct)
  case (1 n c)
  show ?case
  proof (cases "oldest (mc_entries c)")
    case None
    then show ?thesis using "1.prems" by (simp add: make_room.simps split: if_splits)
  next
    case (Some j)
    then show ?thesis
      using "1.prems" "1.IH" [of j]
      by (subst (asm) make_room.simps) (auto simp: remove_lookup split: if_splits)
  qed
qed

lemma oldest_None [simp]: "oldest es = None \<longleftrightarrow> es = []"
  by (induction es rule: oldest.induct) auto

lemma make_room_room:
  "cache_books c \<Longrightarrow> n \<le> MAX_CACHE_BYTES \<Longrightarrow>
     length (mc_entries (make_room n c)) < MAX_CACHE_ENTRIES
     \<and> mc_bytes (make_room n c) + n \<le> MAX_CACHE_BYTES"
proof (induction n c rule: make_room.induct)
  case (1 n c)
  show ?case
  proof (cases "MAX_CACHE_ENTRIES \<le> length (mc_entries c) \<or> MAX_CACHE_BYTES < mc_bytes c + n")
    case True
    show ?thesis
    proof (cases "oldest (mc_entries c)")
      case None
      then have "mc_entries c = []" "mc_bytes c = 0" using "1.prems" by (auto simp: cache_books_def)
      then have False using True "1.prems" by (auto simp: MAX_CACHE_ENTRIES_def)
      then show ?thesis ..
    next
      case (Some k)
      then have "make_room n c = make_room n (cache_remove k c)"
        using True by (subst make_room.simps) simp
      then show ?thesis using "1.IH" [OF True Some remove_books] "1.prems" by simp
    qed
  next
    case False
    then have "make_room n c = c" by (subst make_room.simps) auto
    then show ?thesis using False by auto
  qed
qed

lemma cache_inv_books: "cache_inv c \<longleftrightarrow> cache_books c \<and> length (mc_entries c) \<le> MAX_CACHE_ENTRIES
    \<and> mc_bytes c \<le> MAX_CACHE_BYTES"
  by (auto simp: cache_inv_def cache_books_def)

lemma get_map_of:
  "map_of (map (\<lambda>(k, e). (k, if k = key then f e else e)) es) k =
     map_option (\<lambda>e. if k = key then f e else e) (map_of es k)"
  by (induction es) auto

lemma get_bytes:
  "held_bytes (map (\<lambda>(k, e). (k, if k = key then e\<lparr>en_touched := t\<rparr> else e)) es) = held_bytes es"
  by (induction es) auto

lemma cache_get_inv: "cache_inv c \<Longrightarrow> cache_inv (snd (cache_get k c))"
  by (auto simp: cache_inv_def cache_get_def Let_def get_bytes comp_def case_prod_beta)

lemma cache_get_lookup: "cache_lookup (snd (cache_get k c)) k' = cache_lookup c k'"
  by (cases "map_of (mc_entries c) k'")
    (auto simp: cache_lookup_def cache_get_def Let_def get_map_of)

lemma cache_get_value: "fst (cache_get k c) = cache_lookup c k"
  by (simp add: cache_get_def cache_lookup_def Let_def)

lemma keys_lookup: "k \<in> fst ` set (mc_entries c) \<longleftrightarrow> cache_lookup c k \<noteq> None"
  by (simp add: cache_lookup_def map_of_eq_None_iff)

lemma make_room_keys: "fst ` set (mc_entries (make_room n c)) \<subseteq> fst ` set (mc_entries c)"
proof
  fix k
  assume "k \<in> fst ` set (mc_entries (make_room n c))"
  then show "k \<in> fst ` set (mc_entries c)"
    using make_room_lookup [of n c k] unfolding keys_lookup by auto
qed

lemma cache_publish_inv:
  assumes "cache_inv c"
  shows "cache_inv (cache_publish k v c)"
proof (cases "MAX_CACHE_BYTES < sd_bytes v")
  case False
  let ?c = "make_room (sd_bytes v) (cache_remove k c)"
  have b: "cache_books ?c" using assms by (simp add: cache_inv_books remove_books make_room_books)
  have "k \<notin> fst ` set (mc_entries ?c)"
  proof
    assume "k \<in> fst ` set (mc_entries ?c)"
    then have "k \<in> fst ` set (mc_entries (cache_remove k c))" using make_room_keys by blast
    then show False
      using remove_lookup [of k c k] by (auto simp: cache_lookup_def map_of_eq_None_iff)
  qed
  then show ?thesis
    using False b make_room_room [OF remove_books, of c "sd_bytes v" k] assms
    by (auto simp: cache_publish_def Let_def cache_inv_books cache_books_def)
qed (use assms in \<open>simp add: cache_publish_def\<close>)

lemma cache_publish_stored:
  "sd_bytes v \<le> MAX_CACHE_BYTES \<Longrightarrow> cache_lookup (cache_publish k v c) k = Some v"
  by (simp add: cache_publish_def cache_lookup_def Let_def)

lemma cache_publish_lookup:
  "cache_lookup (cache_publish k v c) k' = Some w \<Longrightarrow> (k' = k \<and> w = v) \<or> cache_lookup c k' = Some w"
  using make_room_lookup [of "sd_bytes v" "cache_remove k c" k' w]
  by (auto simp: cache_publish_def Let_def cache_lookup_def remove_lookup [unfolded cache_lookup_def]
      split: if_splits)

lemma fold_minus: "fold (\<lambda>x b. b - f x) xs b = b - sum_list (map f xs)" for b :: nat
  by (induction xs arbitrary: b) auto

lemma cache_expire_inv: "cache_inv c \<Longrightarrow> cache_inv (cache_expire_before t c)"
  using held_bytes_filter [of "cache_expired t" "mc_entries c"]
    order_trans [OF length_filter_le [of "\<lambda>x. \<not> cache_expired t x" "mc_entries c"]]
  by (auto simp: cache_inv_def cache_expire_before_def fold_minus held_bytes_def
      distinct_map_filter)

lemma map_of_filter_distinct:
  "distinct (map fst es) \<Longrightarrow>
     map_of (filter P es) k = Some e \<longleftrightarrow> map_of es k = Some e \<and> P (k, e)"
  by (simp add: distinct_map_filter)

lemma cache_expire_lookup:
  "cache_inv c \<Longrightarrow> cache_lookup (cache_expire_before t c) k = Some w \<longleftrightarrow>
     cache_lookup c k = Some w \<and> t \<le> pv_validated_at (sd_provenance w)"
  by (auto simp: cache_lookup_def cache_expire_before_def cache_inv_def map_of_filter_distinct
      cache_expired_def)

interpretation memory: cache_store cache_get cache_publish cache_expire_before cache_clear cache_new
  cache_lookup cache_inv
  by unfold_locales
    (auto simp: cache_get_inv cache_get_value cache_get_lookup cache_publish_inv cache_expire_inv
      cache_expire_lookup dest: cache_publish_lookup,
     simp_all add: cache_inv_def cache_clear_def cache_lookup_def cache_new_def)

section \<open>Least recently used\<close>

lemma oldest_least:
  assumes "oldest es = Some k" "distinct (map fst es)"
  shows "\<exists>e. map_of es k = Some e \<and> (\<forall>(_, f) \<in> set es. en_touched e \<le> en_touched f)"
  using assms
proof (induction es rule: oldest.induct)
  case (2 j e es)
  show ?case
  proof (cases "list_all (\<lambda>(_, f). en_touched e \<le> en_touched f) es")
    case True
    then show ?thesis using 2 by (auto simp: list_all_iff)
  next
    case False
    then obtain g where g: "map_of es k = Some g" "\<forall>(_, f) \<in> set es. en_touched g \<le> en_touched f"
      using 2 by auto
    have "en_touched g \<le> en_touched e"
      using False g(2) by (fastforce simp: list_all_iff)
    moreover have "k \<noteq> j" using g(1) "2.prems"(2) by (auto dest: map_of_SomeD intro: rev_image_eqI)
    ultimately show ?thesis using g by auto
  qed
qed simp

lemma remove_map_of:
  "map_of (mc_entries (cache_remove k c)) j = (if j = k then None else map_of (mc_entries c) j)"
  by (auto simp: cache_remove_def map_of_remove_key split: option.splits)

lemma make_room_map_of:
  "map_of (mc_entries (make_room n c)) k = Some e \<Longrightarrow> map_of (mc_entries c) k = Some e"
proof (induction n c rule: make_room.induct)
  case (1 n c)
  then show ?case
    by (cases "oldest (mc_entries c)")
      (auto simp: make_room.simps [of n c] remove_map_of split: if_splits)
qed

text \<open>Making room evicts in the order of the last accesses.\<close>

lemma make_room_lru:
  "cache_books c \<Longrightarrow> map_of (mc_entries c) a = Some e \<Longrightarrow> map_of (mc_entries (make_room n c)) a = None \<Longrightarrow>
     map_of (mc_entries (make_room n c)) b = Some f \<Longrightarrow> en_touched e \<le> en_touched f"
proof (induction n c rule: make_room.induct)
  case (1 n c)
  show ?case
  proof (cases "(MAX_CACHE_ENTRIES \<le> length (mc_entries c) \<or> MAX_CACHE_BYTES < mc_bytes c + n)
      \<and> oldest (mc_entries c) \<noteq> None")
    case True
    then obtain k where k: "oldest (mc_entries c) = Some k" by blast
    have room: "make_room n c = make_room n (cache_remove k c)"
      using True k by (subst make_room.simps) simp
    have f: "map_of (mc_entries (cache_remove k c)) b = Some f"
      by (rule make_room_map_of [of n]) (use "1.prems"(4) in \<open>simp only: room\<close>)
    show ?thesis
    proof (cases "a = k")
      case True
      have "distinct (map fst (mc_entries c))" using "1.prems"(1) by (simp add: cache_books_def)
      from oldest_least [OF k this] obtain g where g: "map_of (mc_entries c) k = Some g"
        "\<forall>(_, f) \<in> set (mc_entries c). en_touched g \<le> en_touched f" by blast
      have "(b, f) \<in> set (mc_entries c)"
        using f by (auto simp: remove_map_of split: if_splits dest: map_of_SomeD)
      then show ?thesis using g True "1.prems"(2) by auto
    next
      case False
      show ?thesis
      proof (rule "1.IH" [of k])
        show "map_of (mc_entries (cache_remove k c)) a = Some e"
          using False "1.prems"(2) by (simp add: remove_map_of)
      qed (use True k "1.prems"(3,4) remove_books [OF "1.prems"(1)] in \<open>simp_all only: room simp_thms\<close>)
    qed
  next
    case False
    then have "make_room n c = c" by (subst make_room.simps) (auto split: option.splits)
    then show ?thesis using "1.prems" by simp
  qed
qed

lemma make_room_fits:
  "length (mc_entries c) < MAX_CACHE_ENTRIES \<Longrightarrow> mc_bytes c + n \<le> MAX_CACHE_BYTES \<Longrightarrow> make_room n c = c"
  by (subst make_room.simps) auto

text \<open>
  C23. Publishing into the memory cache stores the value, keeps the cache within 256 entries and
  32 MiB with exact accounting, and evicts by recency: every entry that disappears was last
  touched no later than every entry that stays, and when the new value fits beside the other
  entries none of them disappears or changes.
\<close>

theorem cache_publish_lru:
  assumes "cache_inv c" "sd_bytes v \<le> MAX_CACHE_BYTES"
  shows "cache_inv (cache_publish k v c) \<and> cache_lookup (cache_publish k v c) k = Some v
    \<and> (\<forall>a b e f. a \<noteq> k \<and> b \<noteq> k \<and> map_of (mc_entries c) a = Some e
         \<and> map_of (mc_entries (cache_publish k v c)) a = None
         \<and> map_of (mc_entries (cache_publish k v c)) b = Some f \<longrightarrow> en_touched e \<le> en_touched f)
    \<and> (length (mc_entries c) < MAX_CACHE_ENTRIES \<and> mc_bytes c + sd_bytes v \<le> MAX_CACHE_BYTES
       \<longrightarrow> (\<forall>a. a \<noteq> k \<longrightarrow>
             map_of (mc_entries (cache_publish k v c)) a = map_of (mc_entries c) a))"
proof (intro conjI allI impI)
  let ?r = "cache_remove k c"
  have p: "map_of (mc_entries (cache_publish k v c)) a = map_of (mc_entries (make_room (sd_bytes v) ?r)) a"
    if "a \<noteq> k" for a
    using assms(2) that by (simp add: cache_publish_def Let_def)
  show "cache_inv (cache_publish k v c)" by (rule cache_publish_inv [OF assms(1)])
  show "cache_lookup (cache_publish k v c) k = Some v" by (rule cache_publish_stored [OF assms(2)])
  have books: "cache_books ?r" using assms(1) by (simp add: cache_inv_books remove_books)
  fix a b e f
  assume *: "a \<noteq> k \<and> b \<noteq> k \<and> map_of (mc_entries c) a = Some e
         \<and> map_of (mc_entries (cache_publish k v c)) a = None
         \<and> map_of (mc_entries (cache_publish k v c)) b = Some f"
  show "en_touched e \<le> en_touched f"
    by (rule make_room_lru [OF books, of a e "sd_bytes v" b f]) (use * p in \<open>auto simp: remove_map_of\<close>)
next
  fix a
  assume fit: "length (mc_entries c) < MAX_CACHE_ENTRIES \<and> mc_bytes c + sd_bytes v \<le> MAX_CACHE_BYTES"
    and a: "a \<noteq> k"
  have "make_room (sd_bytes v) (cache_remove k c) = cache_remove k c"
    using fit remove_bounds [of k c] by (intro make_room_fits) auto
  then show "map_of (mc_entries (cache_publish k v c)) a = map_of (mc_entries c) a"
    using a assms(2) by (simp add: cache_publish_def Let_def remove_map_of)
qed

definition sample_payload :: stored_payload where
  "sample_payload =
     \<lparr>sd_data = RDGet \<lparr>r_source = lit ''s'', r_id = lit ''1'', r_title = lit ''T'', r_body = [],
        r_synthetic = True\<rparr>,
      sd_provenance = \<lparr>pv_provider = lit ''p'', pv_dataset = lit ''d'', pv_source_reference = lit ''r'',
        pv_payload_sha256 = [], pv_processor_version = lit ''v1'', pv_retrieved_at = 100,
        pv_validated_at = 100\<rparr>,
      sd_raw = [], sd_bytes = 2048, sd_snapshot = None\<rparr>"

definition sample_key :: cache_key where
  "sample_key =
     \<lparr>ck_provider = lit ''p'', ck_dataset = lit ''d'', ck_processor_version = lit ''v1'',
      ck_schema_version = 1, ck_query = Get (lit ''s'') (lit ''1'')\<rparr>"

theorem cache_publish_lru_witness:
  "cache_lookup (cache_publish sample_key sample_payload cache_new) sample_key = Some sample_payload"
proof -
  have "cache_inv cache_new" "sd_bytes sample_payload \<le> MAX_CACHE_BYTES"
    by (rule memory.fresh_inv) (simp add: sample_payload_def MAX_CACHE_BYTES_def)
  from cache_publish_lru [OF this, of sample_key] show ?thesis by blast
qed

end
