(* ===== verification/Upstream_Policy.thy ===== *)
theory Upstream_Policy
  imports Retrieval_Domain
begin

text \<open>
  Operator limits: request limits and the demo request policy
  (\<open>crates/application/src/upstream_policy.rs\<close>), the retention policy and storage status
  (\<open>crates/application/src/persistence.rs\<close>), the daily reservation and the retry delay of
  \<open>RetrievalService\<close> (\<open>crates/application/src/service.rs\<close>).

  A configuration value reaches \<open>RequestLimit\<close> as a number or a text (\<open>serde\<close>'s untagged
  choice); \<open>limit_input\<close> is that value.
\<close>

section \<open>Request limits\<close>

datatype request_limit = Limited nat | Unlimited

datatype limit_input = LimitNumber nat | LimitText rstr

definition limit_deserialize :: "limit_input \<Rightarrow> request_limit option" where
  "limit_deserialize v =
     (case v of
        LimitNumber n \<Rightarrow> if 1 \<le> n \<and> n \<le> 1000000 then Some (Limited n) else None
      | LimitText t \<Rightarrow> if t = lit ''unlimited'' then Some Unlimited else None)"

primrec limit_serialize :: "request_limit \<Rightarrow> limit_input" where
  "limit_serialize (Limited n) = LimitNumber n"
| "limit_serialize Unlimited = LimitText (lit ''unlimited'')"

definition limit_validate :: "request_limit \<Rightarrow> (unit, retrieval_error) result" where
  "limit_validate l =
     (case l of
        Limited n \<Rightarrow> if \<not> (1 \<le> n \<and> n \<le> 1000000) then Err REInvalidInput else Ok ()
      | Unlimited \<Rightarrow> Ok ())"

primrec limit_as_option :: "request_limit \<Rightarrow> nat option" where
  "limit_as_option (Limited n) = Some n"
| "limit_as_option Unlimited = None"

definition limit_allows :: "request_limit \<Rightarrow> nat \<Rightarrow> bool" where
  "limit_allows l used = (case limit_as_option l of None \<Rightarrow> True | Some limit \<Rightarrow> used < limit)"

record request_policy =
  rp_daily_limit :: request_limit
  rp_requests_per_second :: nat
  rp_max_attempts :: nat
  rp_attempt_timeout_secs :: nat
  rp_refresh_timeout_secs :: nat

definition request_policy_default :: request_policy where
  "request_policy_default =
     \<lparr>rp_daily_limit = Unlimited, rp_requests_per_second = 2, rp_max_attempts = 2,
      rp_attempt_timeout_secs = 5, rp_refresh_timeout_secs = 10\<rparr>"

definition request_policy_validate :: "request_policy \<Rightarrow> (unit, retrieval_error) result" where
  "request_policy_validate p =
     and_then (limit_validate (rp_daily_limit p)) (\<lambda>_.
       if \<not> (1 \<le> rp_requests_per_second p \<and> rp_requests_per_second p \<le> 1000)
          \<or> \<not> (1 \<le> rp_max_attempts p \<and> rp_max_attempts p \<le> 10)
          \<or> \<not> (1 \<le> rp_attempt_timeout_secs p \<and> rp_attempt_timeout_secs p \<le> 60)
          \<or> \<not> (1 \<le> rp_refresh_timeout_secs p \<and> rp_refresh_timeout_secs p \<le> 300)
          \<or> rp_refresh_timeout_secs p < rp_attempt_timeout_secs p
       then Err REInvalidInput else Ok ())"

section \<open>Retention and storage status\<close>

record retention_policy =
  rt_retention_days :: nat
  rt_max_blob_bytes :: nat
  rt_max_snapshots_per_query :: nat
  rt_max_snapshots :: nat
  rt_max_queries :: nat

definition retention_policy_default :: retention_policy where
  "retention_policy_default =
     \<lparr>rt_retention_days = 30, rt_max_blob_bytes = 1024 * 1024 * 1024,
      rt_max_snapshots_per_query = 100, rt_max_snapshots = 10000, rt_max_queries = 4096\<rparr>"

definition retention_policy_validate :: "retention_policy \<Rightarrow> (unit, retrieval_error) result" where
  "retention_policy_validate p =
     (if \<not> (1 \<le> rt_retention_days p \<and> rt_retention_days p \<le> 3650)
         \<or> \<not> (16 * 1024 * 1024 \<le> rt_max_blob_bytes p \<and> rt_max_blob_bytes p \<le> 64 * 1024 * 1024 * 1024)
         \<or> \<not> (1 \<le> rt_max_snapshots_per_query p \<and> rt_max_snapshots_per_query p \<le> 1000)
         \<or> \<not> (1 \<le> rt_max_snapshots p \<and> rt_max_snapshots p \<le> 1000000)
         \<or> \<not> (1 \<le> rt_max_queries p \<and> rt_max_queries p \<le> 1000000)
         \<or> rt_max_snapshots p < rt_max_snapshots_per_query p
      then Err REInvalidInput else Ok ())"

definition retains :: "retention_policy \<Rightarrow> nat \<Rightarrow> nat \<Rightarrow> bool" where
  "retains p captured now =
     (case checked_sub now captured of
        None \<Rightarrow> True
      | Some age \<Rightarrow> age < min (rt_retention_days p * 86400) usize_max)"

datatype storage_status =
    StorageReady
  | StorageRecovering
  | StorageCommitUncertain
  | StorageIntegrityBlocked
  | StorageMaintaining
  | StorageClosed

primrec status_error :: "storage_status \<Rightarrow> retrieval_error option" where
  "status_error StorageReady = None"
| "status_error StorageMaintaining = Some REBusy"
| "status_error StorageIntegrityBlocked = Some REStorageCorrupt"
| "status_error StorageRecovering = Some REStorageUnavailable"
| "status_error StorageCommitUncertain = Some REStorageUnavailable"
| "status_error StorageClosed = Some REStorageUnavailable"

definition default_status :: "bool \<Rightarrow> storage_status" where
  "default_status healthy = (if healthy then StorageReady else StorageRecovering)"

section \<open>Daily reservations\<close>

text \<open>
  \<open>Provider::daily\<close>: the day the count belongs to and the attempts counted on it.  \<open>durable\<close> is the answer
  of the \<open>DailyBudgetStore\<close>, when the service has one.
\<close>

definition daily_start :: "nat \<Rightarrow> nat \<times> nat" where
  "daily_start now = (now div 86400, 0)"

definition reserve_daily ::
  "(unit, retrieval_error) result option \<Rightarrow> request_limit \<Rightarrow> bool \<Rightarrow> nat \<Rightarrow> nat \<times> nat \<Rightarrow>
     (unit, retrieval_error) result \<times> (nat \<times> nat)" where
  "reserve_daily durable limit cancelled now usage =
     (if cancelled then (Err RECancelled, usage)
      else
        (case durable of
           Some answer \<Rightarrow> (answer, usage)
         | None \<Rightarrow>
             let day = now div 86400;
                 usage = (if fst usage \<noteq> day then (day, 0) else usage) in
             if \<not> limit_allows limit (snd usage) then (Err REBusy, usage)
             else
               (case checked_add (snd usage) 1 of
                  None \<Rightarrow> (Err REBusy, usage)
                | Some n \<Rightarrow> (Ok (), (fst usage, n)))))"

section \<open>Retry delays\<close>

text \<open>
  Delays in milliseconds.  The seconds a provider asks for are a \<open>u64\<close>; adding the jitter to a
  \<open>Duration\<close> saturates far above any \<open>u64\<close> of seconds, so the sums below are exact.
\<close>

definition attempt_seconds :: "nat \<Rightarrow> nat" where
  "attempt_seconds attempt = min (2 ^ attempt) 30"

definition retry_jitter :: "nat \<Rightarrow> nat" where
  "retry_jitter generation = 100 + (generation * 73 mod 2 ^ 64) mod 151"

definition retry_delay :: "nat \<Rightarrow> nat \<Rightarrow> retrieval_error \<Rightarrow> nat" where
  "retry_delay attempt generation error =
     (let jitter = retry_jitter generation;
          backoff = min (attempt_seconds attempt * 1000 + jitter) 30000 in
      case error of
        REThrottled (Some seconds) \<Rightarrow>
          max (max seconds (attempt_seconds attempt) * 1000 + jitter) backoff
      | _ \<Rightarrow> backoff)"

text \<open>The provider's cooldown and pause; \<open>last_instant\<close> is the largest representable instant.\<close>

record cooldown =
  cd_until :: "nat option"
  cd_paused :: "retrieval_error option"

definition note_failure ::
  "nat \<Rightarrow> nat \<Rightarrow> nat \<Rightarrow> nat \<Rightarrow> retrieval_error \<Rightarrow> cooldown \<Rightarrow> bool \<times> cooldown" where
  "note_failure last_instant now attempt generation error c =
     (let until = now + retry_delay attempt generation error in
      if last_instant < until then (False, c\<lparr>cd_paused := Some error\<rparr>)
      else
        (True,
         c\<lparr>cd_until := Some (case cd_until c of None \<Rightarrow> until | Some e \<Rightarrow> max e until)\<rparr>))"

section \<open>Lemmas\<close>

lemma limit_roundtrip: "limit_validate l = Ok () \<Longrightarrow> limit_deserialize (limit_serialize l) = Some l"
  by (cases l) (auto simp: limit_validate_def limit_deserialize_def split: if_splits)

lemma limit_deserialize_valid: "limit_deserialize v = Some l \<Longrightarrow> limit_validate l = Ok ()"
  by (cases v) (auto simp: limit_validate_def limit_deserialize_def split: if_splits)

lemma request_policy_default_valid: "request_policy_validate request_policy_default = Ok ()"
  by code_simp

lemma retention_policy_default_valid: "retention_policy_validate retention_policy_default = Ok ()"
  by code_simp

text \<open>A run of reservations on one day: never more than the limit of them succeed.\<close>

primrec reserve_run :: "request_limit \<Rightarrow> (bool \<times> nat) list \<Rightarrow> nat \<times> nat \<Rightarrow> nat" where
  "reserve_run limit [] usage = 0"
| "reserve_run limit (c # cs) usage =
     (let (r, usage) = reserve_daily None limit (fst c) (snd c) usage in
      (if is_ok r then 1 else 0) + reserve_run limit cs usage)"

lemma reserve_run_bound:
  assumes "list_all (\<lambda>c. snd c div 86400 = day) cs" "fst usage = day" "snd usage \<le> n"
  shows "snd usage + reserve_run (Limited n) cs usage \<le> n"
  using assms
proof (induction cs arbitrary: usage)
  case (Cons c cs)
  obtain r u where r: "reserve_daily None (Limited n) (fst c) (snd c) usage = (r, u)"
    by (cases "reserve_daily None (Limited n) (fst c) (snd c) usage")
  have u: "fst u = day" "snd u \<le> n" "snd u = snd usage + (if is_ok r then 1 else 0)"
    using r Cons.prems
    by (auto simp: reserve_daily_def limit_allows_def Let_def checked_add_def
        split: if_splits option.splits)
  show ?case using Cons.IH [of u] Cons.prems u r by simp
qed simp

lemma retry_jitter_bounds: "100 \<le> retry_jitter g" "retry_jitter g \<le> 250"
  using mod_less_divisor [of 151 "g * 73 mod 2 ^ 64"]
  by (simp_all add: retry_jitter_def del: mod_less_divisor)

lemma retry_delay_floor:
  "retry_delay attempt generation (REThrottled (Some seconds)) \<ge> seconds * 1000 + 100"
  using retry_jitter_bounds(1) [of generation] by (auto simp: retry_delay_def Let_def)

lemma retry_delay_backoff:
  "retry_delay attempt generation e \<ge> min (attempt_seconds attempt * 1000 + 100) 30000"
  using retry_jitter_bounds(1) [of generation]
  by (auto simp: retry_delay_def Let_def split: retrieval_error.splits option.splits)

lemma note_failure_later:
  assumes "note_failure m now attempt generation e c = (True, c')" "cd_until c = Some t"
  shows "\<exists>t'. cd_until c' = Some t' \<and> t \<le> t' \<and> now + retry_delay attempt generation e \<le> t'"
  using assms by (auto simp: note_failure_def Let_def split: if_splits)

end
