(* ===== verification/Retrieval_Service.thy ===== *)
theory Retrieval_Service
  imports Memory_Cache Upstream_Policy Payload_Processors
begin

text \<open>
  \<open>RetrievalService\<close> of \<open>crates/application/src/service.rs\<close> and \<open>service/persistent.rs\<close>: one
  cache, one refresh per key shared by all callers, bounded waiting, freshness and shutdown.

  The shared state is behind one mutex; every definition on \<open>retrieval_state\<close> is one critical
  section, together with the atomics and tokens it touches.  The mutex is held only in code that
  does not panic, so the branches for a poisoned lock are left out.  Clock readings, cancellation
  flags, reaped jobs and the answers of the upstream and of the durable store are arguments of the
  sections that observe them.  \<open>rv_outcomes\<close> is what the watch channels of finished flights hold,
  by generation; \<open>rv_guards\<close> lists the callers that hold a \<open>Waiter\<close> guard and \<open>rv_jobs\<close> the
  refresh tasks, with the permit of the provider they own.

  Presence of the durable store is fixed per service; \<open>persistence\<close> is \<open>None\<close> for a memory-only
  service and otherwise the answers of the store's status methods at that moment.
\<close>

section \<open>Limits\<close>

definition RETRIEVAL_FRESH_SECONDS :: nat where
  "RETRIEVAL_FRESH_SECONDS = 60"

definition RETENTION_SECONDS :: nat where
  "RETENTION_SECONDS = 300"

definition MAX_RAW_BYTES :: nat where
  "MAX_RAW_BYTES = 1024 * 1024"

definition SERVICE_PROCESSED_BYTES :: nat where
  "SERVICE_PROCESSED_BYTES = 64 * 1024"

definition MAX_IN_FLIGHT :: nat where
  "MAX_IN_FLIGHT = 32"

definition MAX_WAITERS_PER_KEY :: nat where
  "MAX_WAITERS_PER_KEY = 16"

definition MAX_WAITERS :: nat where
  "MAX_WAITERS = 64"

lemmas retrieval_limits [size_simps] =
  RETRIEVAL_FRESH_SECONDS_def RETENTION_SECONDS_def MAX_RAW_BYTES_def SERVICE_PROCESSED_BYTES_def
  MAX_IN_FLIGHT_def MAX_WAITERS_PER_KEY_def MAX_WAITERS_def

section \<open>Registration\<close>

primrec sources_admissible :: "rstr list \<Rightarrow> source list \<Rightarrow> bool" where
  "sources_admissible registered [] = True"
| "sources_admissible registered (s # ss) =
     (\<not> (\<not> valid_identifier (src_id s) 64 \<or> \<not> valid_identifier (src_provider s) 64
         \<or> \<not> valid_identifier (src_dataset s) 64 \<or> src_processor_version s = []
         \<or> 128 < str_len (src_processor_version s) \<or> src_id s \<in> set registered)
      \<and> sources_admissible (src_id s # registered) ss)"

primrec policies_admissible ::
  "source list \<Rightarrow> (rstr \<times> request_policy) list \<Rightarrow> (unit, retrieval_error) result" where
  "policies_admissible sources [] = Ok ()"
| "policies_admissible sources (p # ps) =
     and_then (request_policy_validate (snd p)) (\<lambda>_.
       if \<not> list_ex (\<lambda>s. src_provider s = fst p) sources then Err REInvalidInput
       else policies_admissible sources ps)"

definition validate_policies ::
  "source list \<Rightarrow> (rstr \<times> request_policy) list \<Rightarrow> (unit, retrieval_error) result" where
  "validate_policies sources policies =
     (if sources = [] \<or> 32 < length sources then Err REInvalidInput
      else if \<not> sources_admissible [] sources then Err REInvalidInput
      else policies_admissible sources policies)"

section \<open>Checking an upstream answer\<close>

record fetched_payload =
  fp_raw :: "nat list"
  fp_data :: retrieval_data
  fp_source_reference :: rstr

definition valid_record :: "law_record \<Rightarrow> query \<Rightarrow> bool" where
  "valid_record r query \<longleftrightarrow>
     r_synthetic r \<and> r_source r = q_source query \<and> valid_identifier (r_id r) 128
     \<and> r_title r \<noteq> [] \<and> str_len (r_title r) \<le> 1024 \<and> str_len (r_body r) \<le> 16 * 1024"

text \<open>\<open>all(|record| valid_record(record) && ids.insert(&record.id))\<close>\<close>

primrec records_valid :: "rstr list \<Rightarrow> query \<Rightarrow> law_record list \<Rightarrow> bool" where
  "records_valid ids query [] = True"
| "records_valid ids query (r # rs) =
     (valid_record r query \<and> r_id r \<notin> set ids \<and> records_valid (r_id r # ids) query rs)"

fun payload_matches :: "retrieval_data \<Rightarrow> query \<Rightarrow> bool" where
  "payload_matches (RDGet r) (Get s i) = (valid_record r (Get s i) \<and> r_id r = i)"
| "payload_matches (RDSearch p) (Search s t requested per) =
     (sp_page p = requested \<and> sp_page_size p = per \<and> length (sp_records p) \<le> per
      \<and> sp_total p \<le> 20000
      \<and> length (sp_records p) = min (sp_page_size p) (sp_total p - sp_page p * sp_page_size p)
      \<and> records_valid [] (Search s t requested per) (sp_records p))"
| "payload_matches _ _ = False"

text \<open>\<open>bounded_size\<close>: the counter refuses the write that would pass the limit.\<close>

primrec bounded_writes :: "nat \<Rightarrow> nat list list \<Rightarrow> nat \<Rightarrow> (nat, retrieval_error) result" where
  "bounded_writes limit [] used = Ok used"
| "bounded_writes limit (w # ws) used =
     (if limit - used < length w then Err REResourceLimit
      else bounded_writes limit ws (used + length w))"

definition bounded_size ::
  "serde_json \<Rightarrow> retrieval_data \<Rightarrow> nat \<Rightarrow> (nat, retrieval_error) result" where
  "bounded_size J v limit = bounded_writes limit (to_writes J v) 0"

definition service_validate ::
  "serde_json \<Rightarrow> (nat list \<Rightarrow> rstr) \<Rightarrow> nat \<Rightarrow> source \<Rightarrow> query \<Rightarrow> fetched_payload \<Rightarrow>
     (stored_payload, retrieval_error) result" where
  "service_validate J sha256 now source query payload =
     (if MAX_RAW_BYTES < length (fp_raw payload) \<or> fp_source_reference payload = []
         \<or> 2048 < str_len (fp_source_reference payload)
      then Err REResourceLimit
      else if list_ex is_control (fp_source_reference payload)
         \<or> list_ex (\<lambda>c. c = 63 \<or> c = 35 \<or> c = 64) (fp_source_reference payload)
      then Err REInvalidPayload
      else if \<not> payload_matches (fp_data payload) query then Err REInvalidPayload
      else
        and_then (bounded_size J (fp_data payload) SERVICE_PROCESSED_BYTES) (\<lambda>encoded.
          Ok \<lparr>sd_data = fp_data payload,
              sd_provenance =
                \<lparr>pv_provider = src_provider source, pv_dataset = src_dataset source,
                 pv_source_reference = fp_source_reference payload,
                 pv_payload_sha256 = sha256 (fp_raw payload),
                 pv_processor_version = src_processor_version source,
                 pv_retrieved_at = now, pv_validated_at = now\<rparr>,
              sd_raw = fp_raw payload,
              sd_bytes = length (fp_raw payload) + encoded
                + str_len (fp_source_reference payload) + 1024,
              sd_snapshot = None\<rparr>))"

section \<open>State\<close>

type_synonym published_outcome = "(stored_payload \<times> nat option, retrieval_error) result"

record flight =
  fl_generation :: nat
  fl_waiters :: nat
  fl_cancelled :: bool
  fl_stage :: progress_stage

record refresh_job =
  jb_key :: cache_key
  jb_generation :: nat
  jb_provider :: rstr
  jb_permit :: bool

text \<open>The counters the critical sections touch; those of upstream requests, retries and throttles are not kept.\<close>

record counters =
  ct_hits :: nat
  ct_misses :: nat
  ct_coalesced :: nat
  ct_failures :: nat
  ct_stale :: nat
  ct_saturated :: nat

record retrieval_state =
  rv_cache :: memory_cache
  rv_flights :: "(cache_key \<times> flight) list"
  rv_waiters :: nat
  rv_generation :: nat
  rv_stopping :: bool
  rv_storage_epoch :: nat
  rv_recovery_epoch :: nat
  rv_shutdown :: bool
  rv_failed :: bool
  rv_counters :: counters
  rv_outcomes :: "(nat \<times> published_outcome) list"
  rv_guards :: "(cache_key \<times> nat) list"
  rv_jobs :: "refresh_job list"

record storage_view =
  sw_epoch :: nat
  sw_recovery_epoch :: nat
  sw_healthy :: bool
  sw_status :: storage_status
  sw_policy :: retention_policy

type_synonym persistence = "storage_view option"

definition counters_zero :: counters where
  "counters_zero =
     \<lparr>ct_hits = 0, ct_misses = 0, ct_coalesced = 0, ct_failures = 0, ct_stale = 0,
      ct_saturated = 0\<rparr>"

definition retrieval_new :: "persistence \<Rightarrow> retrieval_state" where
  "retrieval_new p =
     \<lparr>rv_cache = cache_new, rv_flights = [], rv_waiters = 0, rv_generation = 0,
      rv_stopping = False,
      rv_storage_epoch = (case p of None \<Rightarrow> 0 | Some w \<Rightarrow> sw_epoch w),
      rv_recovery_epoch = (case p of None \<Rightarrow> 0 | Some w \<Rightarrow> sw_recovery_epoch w),
      rv_shutdown = False, rv_failed = False, rv_counters = counters_zero, rv_outcomes = [],
      rv_guards = [], rv_jobs = []\<rparr>"

text \<open>A flight's token is a child of the shutdown token.\<close>

definition flight_cancelled :: "retrieval_state \<Rightarrow> flight \<Rightarrow> bool" where
  "flight_cancelled s f \<longleftrightarrow> fl_cancelled f \<or> rv_shutdown s"

definition permits_used :: "rstr \<Rightarrow> retrieval_state \<Rightarrow> nat" where
  "permits_used provider s =
     length (filter (\<lambda>j. jb_permit j \<and> jb_provider j = provider) (rv_jobs s))"

text \<open>Counters are 64-bit atomics that wrap.\<close>

definition bump :: "((nat \<Rightarrow> nat) \<Rightarrow> counters \<Rightarrow> counters) \<Rightarrow> retrieval_state \<Rightarrow> retrieval_state" where
  "bump upd s = s\<lparr>rv_counters := upd wrapping_succ (rv_counters s)\<rparr>"

section \<open>Storage view\<close>

definition storage_error :: "persistence \<Rightarrow> retrieval_error option" where
  "storage_error p =
     (case p of
        None \<Rightarrow> None
      | Some w \<Rightarrow>
          (case status_error (sw_status w) of
             Some e \<Rightarrow> Some e
           | None \<Rightarrow> if \<not> sw_healthy w then Some REStorageUnavailable else None))"

definition cancel_all :: "retrieval_state \<Rightarrow> retrieval_state" where
  "cancel_all s = s\<lparr>rv_flights := map (\<lambda>(k, f). (k, f\<lparr>fl_cancelled := True\<rparr>)) (rv_flights s)\<rparr>"

definition clear_cache :: "retrieval_state \<Rightarrow> retrieval_state" where
  "clear_cache s = s\<lparr>rv_cache := cache_clear (rv_cache s)\<rparr>"

definition sync_epoch :: "persistence \<Rightarrow> retrieval_state \<Rightarrow> retrieval_state" where
  "sync_epoch p s =
     (case p of
        None \<Rightarrow> s
      | Some w \<Rightarrow>
          let s = (if sw_recovery_epoch w \<noteq> rv_recovery_epoch s
                   then cancel_all (clear_cache (s\<lparr>rv_recovery_epoch := sw_recovery_epoch w\<rparr>))
                   else s);
              s = (if rv_storage_epoch s \<noteq> sw_epoch w
                   then (clear_cache s)\<lparr>rv_storage_epoch := sw_epoch w\<rparr> else s) in
          if \<not> sw_healthy w \<or> sw_status w \<noteq> StorageReady
          then (let s = clear_cache s in
                if sw_status w \<noteq> StorageMaintaining then cancel_all s else s)
          else s)"

definition usable_age :: "persistence \<Rightarrow> nat \<Rightarrow> stored_payload \<Rightarrow> nat option" where
  "usable_age p now v =
     (if now < pv_retrieved_at (sd_provenance v) then None
      else
        (case p of
           None \<Rightarrow> checked_sub now (pv_validated_at (sd_provenance v))
         | Some w \<Rightarrow>
             (case sd_snapshot v of
                None \<Rightarrow> None
              | Some sn \<Rightarrow>
                  if now < sn_captured_at sn \<or> \<not> retains (sw_policy w) (sn_captured_at sn) now
                  then None
                  else checked_sub now (pv_validated_at (sd_provenance v)))))"

definition younger :: "nat option \<Rightarrow> nat \<Rightarrow> bool" where
  "younger age limit = (case age of None \<Rightarrow> False | Some a \<Rightarrow> a < limit)"

definition expire_cache :: "nat \<Rightarrow> retrieval_state \<Rightarrow> retrieval_state" where
  "expire_cache now s = s\<lparr>rv_cache := cache_expire_before (now - RETENTION_SECONDS) (rv_cache s)\<rparr>"

record envelope =
  ev_data :: retrieval_data
  ev_provenance :: provenance
  ev_freshness :: freshness
  ev_synthetic :: bool
  ev_snapshot :: "snapshot_reference option"

definition envelope_of :: "nat \<Rightarrow> stored_payload \<Rightarrow> freshness_state \<Rightarrow> envelope" where
  "envelope_of now v st =
     \<lparr>ev_data = sd_data v, ev_provenance = sd_provenance v,
      ev_freshness = \<lparr>fs_state = st, fs_age_seconds = now - pv_validated_at (sd_provenance v)\<rparr>,
      ev_synthetic = True, ev_snapshot = sd_snapshot v\<rparr>"

section \<open>Admission\<close>

definition retrieve_key ::
  "source list \<Rightarrow> bool \<Rightarrow> query \<Rightarrow> (source \<times> cache_key, retrieval_error) result" where
  "retrieve_key sources cancelled query =
     and_then (query_validate query) (\<lambda>_.
       if cancelled then Err RECancelled
       else
         and_then (ok_or (find (\<lambda>s. src_id s = q_source query) sources) REUnknownSource)
           (\<lambda>source. and_then (for_source source query) (\<lambda>key. Ok (source, key))))"

datatype admission =
    Served envelope
  | Waiting cache_key nat
  | Refused retrieval_error

definition busy :: "retrieval_state \<Rightarrow> admission \<times> retrieval_state" where
  "busy s = (Refused REBusy, bump ct_saturated_update s)"

definition set_flight :: "cache_key \<Rightarrow> flight \<Rightarrow> retrieval_state \<Rightarrow> retrieval_state" where
  "set_flight key f s =
     s\<lparr>rv_flights := map (\<lambda>(k, g). (k, if k = key then f else g)) (rv_flights s)\<rparr>"

definition remove_flight :: "cache_key \<Rightarrow> retrieval_state \<Rightarrow> retrieval_state" where
  "remove_flight key s = s\<lparr>rv_flights := filter (\<lambda>(k, _). k \<noteq> key) (rv_flights s)\<rparr>"

definition join_flight ::
  "cache_key \<Rightarrow> flight \<Rightarrow> retrieval_state \<Rightarrow> admission \<times> retrieval_state" where
  "join_flight key f s =
     (if flight_cancelled s f then busy s
      else if MAX_WAITERS_PER_KEY \<le> fl_waiters f then busy s
      else
        (Waiting key (fl_generation f),
         (bump ct_coalesced_update (set_flight key (f\<lparr>fl_waiters := fl_waiters f + 1\<rparr>) s))
           \<lparr>rv_waiters := rv_waiters s + 1, rv_guards := (key, fl_generation f) # rv_guards s\<rparr>))"

definition start_flight ::
  "persistence \<Rightarrow> bool \<Rightarrow> source \<Rightarrow> cache_key \<Rightarrow> retrieval_state \<Rightarrow> admission \<times> retrieval_state" where
  "start_flight p reaped_ok source key s =
     (if MAX_IN_FLIGHT \<le> length (rv_flights s) then busy s
      else if p = None \<and> 2 \<le> permits_used (src_provider source) s then busy s
      else
        let generation = wrapping_succ (rv_generation s);
            stage = (if p \<noteq> None then Accepted else Refreshing);
            s = s\<lparr>rv_generation := generation,
                  rv_flights :=
                    (key, \<lparr>fl_generation = generation, fl_waiters = 1, fl_cancelled = False,
                           fl_stage = stage\<rparr>) # rv_flights s\<rparr> in
        if \<not> reaped_ok
        then (Refused REInternal, s\<lparr>rv_failed := True, rv_shutdown := True, rv_stopping := True\<rparr>)
        else
          (Waiting key generation,
           s\<lparr>rv_jobs := \<lparr>jb_key = key, jb_generation = generation,
                          jb_provider = src_provider source, jb_permit = (p = None)\<rparr> # rv_jobs s,
             rv_waiters := rv_waiters s + 1,
             rv_guards := (key, generation) # rv_guards s\<rparr>))"

definition retrieve_miss ::
  "persistence \<Rightarrow> bool \<Rightarrow> source \<Rightarrow> cache_key \<Rightarrow> retrieval_state \<Rightarrow> admission \<times> retrieval_state" where
  "retrieve_miss p reaped_ok source key s =
     (let s = bump ct_misses_update s in
      if MAX_WAITERS \<le> rv_waiters s then busy s
      else
        (case map_of (rv_flights s) key of
           Some f \<Rightarrow> join_flight key f s
         | None \<Rightarrow> start_flight p reaped_ok source key s))"

text \<open>The critical section of \<open>retrieve\<close>; \<open>t1\<close>, \<open>t2\<close> and \<open>t3\<close> are its clock readings.\<close>

definition retrieve_admit ::
  "persistence \<Rightarrow> nat \<Rightarrow> nat \<Rightarrow> nat \<Rightarrow> bool \<Rightarrow> source \<Rightarrow> cache_key \<Rightarrow> retrieval_state \<Rightarrow>
     admission \<times> retrieval_state" where
  "retrieve_admit p t1 t2 t3 reaped_ok source key s =
     (if rv_stopping s \<or> rv_shutdown s then (Refused REShutdown, s)
      else
        let s = sync_epoch p s in
        (case storage_error p of
           Some e \<Rightarrow> (Refused e, s)
         | None \<Rightarrow>
             let s = expire_cache t1 s;
                 (cached, cache) = cache_get key (rv_cache s);
                 s = s\<lparr>rv_cache := cache\<rparr>;
                 hit = (case cached of
                          None \<Rightarrow> None
                        | Some v \<Rightarrow>
                            if younger (usable_age p t2 v) RETRIEVAL_FRESH_SECONDS then Some v
                            else None) in
             (case hit of
                Some v \<Rightarrow> (Served (envelope_of t3 v Fresh), bump ct_hits_update s)
              | None \<Rightarrow> retrieve_miss p reaped_ok source key s)))"

section \<open>Waiting\<close>

definition wait_poll ::
  "bool \<Rightarrow> nat \<Rightarrow> retrieval_state \<Rightarrow> published_outcome option" where
  "wait_poll cancelled generation s =
     (if cancelled then Some (Err RECancelled)
      else if rv_shutdown s then Some (Err REShutdown)
      else
        (case map_of (rv_outcomes s) generation of
           Some r \<Rightarrow> Some r
         | None \<Rightarrow>
             if list_ex (\<lambda>(_, f). fl_generation f = generation) (rv_flights s) then None
             else Some (Err REInternal)))"

text \<open>
  What \<open>retrieve\<close> makes of the outcome; \<open>p1\<close> and \<open>p2\<close> are the store's answers before and in the
  second critical section.
\<close>

definition finish_fresh ::
  "persistence \<Rightarrow> nat \<Rightarrow> nat \<Rightarrow> stored_payload \<Rightarrow> nat option \<Rightarrow> retrieval_state \<Rightarrow>
     (envelope, retrieval_error) result \<times> retrieval_state" where
  "finish_fresh p2 t1 t2 v epoch s =
     (let s = (if epoch \<noteq> None then sync_epoch p2 s else s) in
      if (case epoch of
            None \<Rightarrow> False
          | Some expected \<Rightarrow> rv_storage_epoch s \<noteq> expected \<or> storage_error p2 \<noteq> None)
      then (Err REStorageUnavailable, s)
      else if \<not> younger (usable_age p2 t1 v) RETRIEVAL_FRESH_SECONDS
      then (Err REFreshnessUnavailable, s)
      else (Ok (envelope_of t2 v Fresh), s))"

definition finish_stale ::
  "persistence \<Rightarrow> nat \<Rightarrow> nat \<Rightarrow> nat \<Rightarrow> nat \<Rightarrow> cache_key \<Rightarrow> retrieval_error \<Rightarrow> retrieval_state \<Rightarrow>
     (envelope, retrieval_error) result \<times> retrieval_state" where
  "finish_stale p2 t1 t2 t3 t4 key error s =
     (let s = sync_epoch p2 s in
      (case storage_error p2 of
         Some e \<Rightarrow> (Err e, s)
       | None \<Rightarrow>
           let s = expire_cache t1 s;
               (stale, cache) = cache_get key (rv_cache s);
               s = s\<lparr>rv_cache := cache\<rparr> in
           (case stale of
              None \<Rightarrow> (Err error, s)
            | Some v \<Rightarrow>
                if \<not> younger (usable_age p2 t2 v) (RETENTION_SECONDS + 1) then (Err error, s)
                else if t3 - pv_validated_at (sd_provenance v) < RETRIEVAL_FRESH_SECONDS
                then (Ok (envelope_of t4 v Fresh), s)
                else (Ok (envelope_of t4 v Stale), bump ct_stale_update s))))"

definition retrieve_finish ::
  "persistence \<Rightarrow> persistence \<Rightarrow> nat \<Rightarrow> nat \<Rightarrow> nat \<Rightarrow> nat \<Rightarrow> freshness_requirement \<Rightarrow> cache_key \<Rightarrow>
     published_outcome \<Rightarrow> retrieval_state \<Rightarrow> (envelope, retrieval_error) result \<times> retrieval_state" where
  "retrieve_finish p1 p2 t1 t2 t3 t4 requirement key outcome s =
     (case storage_error p1 of
        Some e \<Rightarrow> (Err e, s)
      | None \<Rightarrow>
          (case outcome of
             Inr (v, epoch) \<Rightarrow> finish_fresh p2 t1 t2 v epoch s
           | Inl e \<Rightarrow>
               if is_transient e \<and> requirement = AllowStale
               then finish_stale p2 t1 t2 t3 t4 key e s
               else if is_transient e \<and> requirement = FreshOnly
               then (Err REFreshnessUnavailable, s)
               else (Err e, s)))"

text \<open>Dropping the \<open>Waiter\<close> guard.\<close>

definition waiter_drop :: "persistence \<Rightarrow> cache_key \<Rightarrow> nat \<Rightarrow> retrieval_state \<Rightarrow> retrieval_state" where
  "waiter_drop p key generation s =
     (let s' = s\<lparr>rv_guards := remove1 (key, generation) (rv_guards s)\<rparr> in
      case map_of (rv_flights s) key of
        None \<Rightarrow> s'
      | Some f \<Rightarrow>
          if fl_generation f \<noteq> generation then s'
          else
            let f = f\<lparr>fl_waiters := fl_waiters f - 1\<rparr>;
                s' = (set_flight key f s')\<lparr>rv_waiters := rv_waiters s - 1\<rparr> in
            if fl_waiters f = 0
            then (if p \<noteq> None then set_flight key (f\<lparr>fl_cancelled := True\<rparr>) s'
                  else remove_flight key s')
            else s')"

section \<open>Publication\<close>

definition send_outcome :: "nat \<Rightarrow> published_outcome \<Rightarrow> retrieval_state \<Rightarrow> retrieval_state" where
  "send_outcome generation r s = s\<lparr>rv_outcomes := (generation, r) # rv_outcomes s\<rparr>"

text \<open>Removing a flight, settling its waiters and sending them its outcome.\<close>

definition settle ::
  "cache_key \<Rightarrow> flight \<Rightarrow> published_outcome \<Rightarrow> retrieval_state \<Rightarrow> retrieval_state" where
  "settle key f r s =
     send_outcome (fl_generation f) r
       ((remove_flight key s)\<lparr>rv_waiters := rv_waiters s - fl_waiters f\<rparr>)"

definition storage_failure :: "retrieval_error \<Rightarrow> bool" where
  "storage_failure e \<longleftrightarrow> e = REStorageUnavailable \<or> e = REStorageCorrupt \<or> e = REStorageCapacity"

definition cancelled_error :: "persistence \<Rightarrow> published_outcome \<Rightarrow> retrieval_error" where
  "cancelled_error p outcome =
     (let default_error = (case storage_error p of None \<Rightarrow> RECancelled | Some e \<Rightarrow> e) in
      case outcome of
        Inl e \<Rightarrow> if storage_failure e then e else default_error
      | Inr _ \<Rightarrow> default_error)"

definition service_publish ::
  "persistence \<Rightarrow> nat \<Rightarrow> cache_key \<Rightarrow> nat \<Rightarrow> published_outcome \<Rightarrow> retrieval_state \<Rightarrow>
     retrieval_state" where
  "service_publish p now key generation outcome s =
     (let s = sync_epoch p s in
      case map_of (rv_flights s) key of
        None \<Rightarrow> s
      | Some f \<Rightarrow>
          if fl_generation f \<noteq> generation then s
          else if flight_cancelled s f \<or> rv_stopping s
          then settle key f (Err (cancelled_error p outcome)) s
          else
            let outcome =
                  (case outcome of
                     Inr (v, Some epoch) \<Rightarrow>
                       if epoch \<noteq> rv_storage_epoch s \<or> storage_error p \<noteq> None
                       then Err REStorageUnavailable else outcome
                   | _ \<Rightarrow> outcome);
                s = (case outcome of
                       Inr (v, _) \<Rightarrow>
                         (let s = expire_cache now s in
                          s\<lparr>rv_cache := cache_publish key v (rv_cache s)\<rparr>)
                     | Inl _ \<Rightarrow> bump ct_failures_update s) in
            settle key f outcome s)"

text \<open>The end of a refresh task: its outcome is published and its permit returned.\<close>

definition job_finish ::
  "persistence \<Rightarrow> nat \<Rightarrow> refresh_job \<Rightarrow> published_outcome \<Rightarrow> retrieval_state \<Rightarrow> retrieval_state" where
  "job_finish p now j outcome s =
     (let s = service_publish p now (jb_key j) (jb_generation j) outcome s in
      s\<lparr>rv_jobs := remove1 j (rv_jobs s)\<rparr>)"

definition set_stage :: "query \<Rightarrow> nat \<Rightarrow> progress_stage \<Rightarrow> retrieval_state \<Rightarrow> retrieval_state" where
  "set_stage query generation stage s =
     s\<lparr>rv_flights := map (\<lambda>(k, f).
         (k, if ck_query k = query \<and> fl_generation f = generation then f\<lparr>fl_stage := stage\<rparr> else f))
       (rv_flights s)\<rparr>"

section \<open>Supervision\<close>

definition shutdown_begin :: "retrieval_state \<Rightarrow> retrieval_state" where
  "shutdown_begin s =
     s\<lparr>rv_stopping := True, rv_shutdown := True,
       rv_outcomes := map (\<lambda>(_, f). (fl_generation f, Err REShutdown)) (rv_flights s) @ rv_outcomes s,
       rv_flights := [], rv_waiters := 0, rv_cache := cache_clear (rv_cache s)\<rparr>"

definition shutdown_end :: "bool \<Rightarrow> bool \<Rightarrow> retrieval_state \<Rightarrow> (unit, retrieval_error) result" where
  "shutdown_end close_failed join_failed s =
     (if close_failed \<or> join_failed \<or> rv_failed s then Err REInternal else Ok ())"

definition note_panic :: "retrieval_state \<Rightarrow> retrieval_state" where
  "note_panic s = s\<lparr>rv_failed := True, rv_shutdown := True\<rparr>"

definition service_tick :: "persistence \<Rightarrow> nat \<Rightarrow> bool \<Rightarrow> retrieval_state \<Rightarrow> retrieval_state" where
  "service_tick p now joined_ok s =
     (let s = expire_cache now (sync_epoch p s) in if joined_ok then s else note_panic s)"

definition health_tick :: "persistence \<Rightarrow> retrieval_state \<Rightarrow> retrieval_state" where
  "health_tick p s =
     (case p of
        None \<Rightarrow> s
      | Some w \<Rightarrow>
          sync_epoch p (if sw_status w = StorageCommitUncertain then note_panic s else s))"

section \<open>Refreshing\<close>

text \<open>
  What one attempt of \<open>refresh\<close> observes: the reservation, the rate limiter (a floating-point
  bucket, kept as its answer), the token before and after the call, the answer of the upstream
  (a timeout answers \<open>Unavailable\<close>), and the instant and the clock after it.
\<close>

record attempt =
  at_reserved :: "(unit, retrieval_error) result"
  at_rate :: "(unit, retrieval_error) result"
  at_cancelled :: bool
  at_fetched :: "(fetched_payload, retrieval_error) result"
  at_cancelled_after :: bool
  at_instant :: nat
  at_now :: nat

text \<open>The loop over the attempts: the result and the provider's cooldown afterwards.\<close>

fun refresh_loop ::
  "serde_json \<Rightarrow> (nat list \<Rightarrow> rstr) \<Rightarrow> nat \<Rightarrow> nat \<Rightarrow> nat \<Rightarrow> source \<Rightarrow> query \<Rightarrow> nat \<Rightarrow>
     attempt list \<Rightarrow> cooldown \<Rightarrow> (stored_payload, retrieval_error) result \<times> cooldown" where
  "refresh_loop J sha256 last_instant max_attempts generation source query attempt_no [] c =
     (Err REUnavailable, c)"
| "refresh_loop J sha256 last_instant max_attempts generation source query attempt_no (a # as) c =
     (case and_then (at_reserved a) (\<lambda>_. at_rate a) of
        Inl e \<Rightarrow> (Err e, c)
      | Inr _ \<Rightarrow>
          if at_cancelled a then (Err RECancelled, c)
          else
            (case at_fetched a of
               Inr payload \<Rightarrow>
                 if at_cancelled_after a then (Err RECancelled, c)
                 else (service_validate J sha256 (at_now a) source query payload, c)
             | Inl e \<Rightarrow>
                 if \<not> is_transient e then (Err e, c)
                 else
                   let (representable, c) =
                         note_failure last_instant (at_instant a) attempt_no generation e c in
                   if \<not> representable then (Err e, c)
                   else if attempt_no + 1 = max_attempts then (Err e, c)
                   else refresh_loop J sha256 last_instant max_attempts generation source query
                     (attempt_no + 1) as c))"

definition refresh ::
  "serde_json \<Rightarrow> (nat list \<Rightarrow> rstr) \<Rightarrow> nat \<Rightarrow> request_policy \<Rightarrow> nat \<Rightarrow> source \<Rightarrow> query \<Rightarrow>
     attempt list \<Rightarrow> cooldown \<Rightarrow> (stored_payload, retrieval_error) result \<times> cooldown" where
  "refresh J sha256 last_instant policy generation source query attempts c =
     refresh_loop J sha256 last_instant (rp_max_attempts policy) generation source query 0
       (take (rp_max_attempts policy) attempts) c"

text \<open>A memory-only task: cancellation and the refresh timeout win over the result.\<close>

definition memory_outcome ::
  "bool \<Rightarrow> bool \<Rightarrow> (stored_payload, retrieval_error) result \<Rightarrow> published_outcome" where
  "memory_outcome cancelled timed_out r =
     (if cancelled then Err RECancelled
      else if timed_out then Err REUnavailable
      else and_then r (\<lambda>v. Ok (v, None)))"

section \<open>Persistent resolution\<close>

text \<open>The flight a task works for is still wanted.\<close>

definition flight_wanted :: "cache_key \<Rightarrow> nat \<Rightarrow> retrieval_state \<Rightarrow> bool" where
  "flight_wanted key generation s =
     (case map_of (rv_flights s) key of
        None \<Rightarrow> False
      | Some f \<Rightarrow>
          fl_generation f = generation \<and> 0 < fl_waiters f \<and> \<not> flight_cancelled s f)"

definition promote_persistent ::
  "persistence \<Rightarrow> cache_key \<Rightarrow> nat \<Rightarrow> stored_payload \<Rightarrow> nat \<Rightarrow> retrieval_state \<Rightarrow>
     (unit, retrieval_error) result \<times> retrieval_state" where
  "promote_persistent p key generation v epoch s =
     (let s = sync_epoch p s in
      if storage_error p \<noteq> None \<or> rv_storage_epoch s \<noteq> epoch then (Err REStorageUnavailable, s)
      else if rv_stopping s \<or> \<not> flight_wanted key generation s then (Err RECancelled, s)
      else (Ok (), s\<lparr>rv_cache := cache_publish key v (rv_cache s)\<rparr>))"

definition persistent_after_lookup ::
  "persistence \<Rightarrow> nat \<Rightarrow> bool \<Rightarrow> cache_key \<Rightarrow> nat \<Rightarrow> (stored_payload \<times> nat) option \<Rightarrow>
     retrieval_state \<Rightarrow> published_outcome option \<times> retrieval_state" where
  "persistent_after_lookup p now cancelled key generation found s =
     (case found of
        None \<Rightarrow> (None, s)
      | Some (v, epoch) \<Rightarrow>
          if cancelled then (Some (Err RECancelled), s)
          else
            let age = usable_age p now v in
            if younger age (RETENTION_SECONDS + 1) then
              (case promote_persistent p key generation v epoch s of
                 (Inl e, s) \<Rightarrow> (Some (Err e), s)
               | (Inr _, s) \<Rightarrow>
                   if younger age RETRIEVAL_FRESH_SECONDS
                   then (Some (Ok (v, Some epoch)), bump ct_hits_update s)
                   else (None, s))
            else (None, s))"

definition persistent_acquire ::
  "persistence \<Rightarrow> bool \<Rightarrow> refresh_job \<Rightarrow> query \<Rightarrow> retrieval_state \<Rightarrow>
     (unit, retrieval_error) result \<times> retrieval_state" where
  "persistent_acquire p cancelled j query s =
     (if cancelled then (Err RECancelled, s)
      else
        (case storage_error p of
           Some e \<Rightarrow> (Err e, s)
         | None \<Rightarrow>
             if 2 \<le> permits_used (jb_provider j) s
             then (Err REBusy, bump ct_saturated_update s)
             else
               (Ok (),
                set_stage query (jb_generation j) Refreshing
                  (s\<lparr>rv_jobs := j\<lparr>jb_permit := True\<rparr> # remove1 j (rv_jobs s)\<rparr>))))"

definition persistent_release :: "refresh_job \<Rightarrow> retrieval_state \<Rightarrow> retrieval_state" where
  "persistent_release j s = s\<lparr>rv_jobs := j\<lparr>jb_permit := False\<rparr> # remove1 j (rv_jobs s)\<rparr>"

text \<open>The deadline of a resolution: the task cancels the token of its own flight, callers may still wait.\<close>

definition persistent_timeout :: "cache_key \<Rightarrow> nat \<Rightarrow> retrieval_state \<Rightarrow> retrieval_state" where
  "persistent_timeout key generation s =
     s\<lparr>rv_flights := map (\<lambda>(k, f).
         (k, if k = key \<and> fl_generation f = generation then f\<lparr>fl_cancelled := True\<rparr> else f))
       (rv_flights s)\<rparr>"

text \<open>The store asks this before it commits a candidate.\<close>

definition authorize :: "persistence \<Rightarrow> nat \<Rightarrow> cache_key \<Rightarrow> nat \<Rightarrow> retrieval_state \<Rightarrow> bool" where
  "authorize p recovery_epoch key generation s =
     (\<not> rv_stopping s \<and> \<not> rv_shutdown s
      \<and> (case p of
           None \<Rightarrow> False
         | Some w \<Rightarrow>
             sw_recovery_epoch w = recovery_epoch
             \<and> (sw_status w = StorageReady \<or> sw_status w = StorageMaintaining))
      \<and> flight_wanted key generation s)"

datatype publication_outcome = PubAccepted "stored_payload \<times> nat" | PubConflict

text \<open>From the store's answer to the publication to the outcome of the task.\<close>

definition persistent_commit ::
  "persistence \<Rightarrow> nat \<Rightarrow> nat \<Rightarrow> bool \<Rightarrow> bool \<Rightarrow> (publication_outcome, retrieval_error) result \<Rightarrow>
     ((stored_payload \<times> nat) option, retrieval_error) result \<Rightarrow> published_outcome" where
  "persistent_commit p recovery_epoch now cancelled cancelled_after published again =
     and_then published (\<lambda>r.
     and_then
       (case r of
          PubAccepted committed \<Rightarrow> Ok committed
        | PubConflict \<Rightarrow>
            if cancelled then Err RECancelled
            else and_then again (\<lambda>found. ok_or found REBusy)) (\<lambda>(v, epoch).
       if cancelled_after then Err RECancelled
       else if (case p of None \<Rightarrow> True | Some w \<Rightarrow> sw_recovery_epoch w \<noteq> recovery_epoch)
       then Err REStorageUnavailable
       else if \<not> younger (usable_age p now v) RETRIEVAL_FRESH_SECONDS
       then Err REFreshnessUnavailable
       else Ok (v, Some epoch)))"

definition persistent_outcome ::
  "bool \<Rightarrow> bool \<Rightarrow> published_outcome \<Rightarrow> published_outcome" where
  "persistent_outcome cancelled timed_out r =
     (if cancelled then Err RECancelled
      else if timed_out then Err REStorageUnavailable
      else r)"

section \<open>Interleavings\<close>

text \<open>
  \<open>retrieval_step Q p\<close> relates two states of a service whose store currently answers \<open>p\<close> and whose
  tasks bring payloads that satisfy \<open>Q\<close> for their key.  A task that panics disappears without
  publishing.  Fewer than \<open>2 ^ 64\<close> flights are started.
\<close>

inductive retrieval_step ::
  "(cache_key \<Rightarrow> stored_payload \<Rightarrow> bool) \<Rightarrow> persistence \<Rightarrow> retrieval_state \<Rightarrow> retrieval_state \<Rightarrow> bool"
  for Q where
  step_admit: "rv_generation s + 1 < 2 ^ 64 \<Longrightarrow>
    retrieval_step Q p s (snd (retrieve_admit p t1 t2 t3 reaped_ok source key s))"
| step_finish: "retrieval_step Q p s (snd (retrieve_finish p1 p t1 t2 t3 t4 requirement key outcome s))"
| step_drop: "(key, generation) \<in> set (rv_guards s) \<Longrightarrow>
    retrieval_step Q p s (waiter_drop p key generation s)"
| step_publish: "j \<in> set (rv_jobs s) \<Longrightarrow> (\<And>v e. outcome = Ok (v, e) \<Longrightarrow> Q (jb_key j) v) \<Longrightarrow>
    retrieval_step Q p s (job_finish p now j outcome s)"
| step_panic: "j \<in> set (rv_jobs s) \<Longrightarrow> retrieval_step Q p s (s\<lparr>rv_jobs := remove1 j (rv_jobs s)\<rparr>)"
| step_stage: "retrieval_step Q p s (set_stage query generation stage s)"
| step_lookup: "j \<in> set (rv_jobs s) \<Longrightarrow> p \<noteq> None \<Longrightarrow> (\<And>v e. found = Some (v, e) \<Longrightarrow> Q (jb_key j) v) \<Longrightarrow>
    retrieval_step Q p s
      (snd (persistent_after_lookup p now cancelled (jb_key j) (jb_generation j) found s))"
| step_acquire: "j \<in> set (rv_jobs s) \<Longrightarrow> p \<noteq> None \<Longrightarrow> \<not> jb_permit j \<Longrightarrow>
    retrieval_step Q p s (snd (persistent_acquire p cancelled j query s))"
| step_release: "j \<in> set (rv_jobs s) \<Longrightarrow> p \<noteq> None \<Longrightarrow> jb_permit j \<Longrightarrow>
    retrieval_step Q p s (persistent_release j s)"
| step_timeout: "j \<in> set (rv_jobs s) \<Longrightarrow> p \<noteq> None \<Longrightarrow>
    retrieval_step Q p s (persistent_timeout (jb_key j) (jb_generation j) s)"
| step_tick: "retrieval_step Q p s (service_tick p now joined_ok s)"
| step_health: "retrieval_step Q p s (health_tick p s)"
| step_shutdown: "retrieval_step Q p s (shutdown_begin s)"

text \<open>
  Reachable states of a service with (\<open>durable\<close>) or without a durable store; the store's answers
  change freely between the steps.
\<close>

inductive retrieval_reachable ::
  "(cache_key \<Rightarrow> stored_payload \<Rightarrow> bool) \<Rightarrow> bool \<Rightarrow> retrieval_state \<Rightarrow> bool"
  for Q durable where
  reach_new: "(p \<noteq> None) = durable \<Longrightarrow> retrieval_reachable Q durable (retrieval_new p)"
| reach_step: "retrieval_reachable Q durable s \<Longrightarrow> (p \<noteq> None) = durable \<Longrightarrow> retrieval_step Q p s s' \<Longrightarrow>
    retrieval_reachable Q durable s'"

end
