(* ===== verification/Retrieval_Safety.thy ===== *)
theory Retrieval_Safety
  imports Retrieval_Service
begin

text \<open>
  Invariants of the retrieval service over all interleavings of \<open>retrieval_step\<close>.

  \<open>ledger\<close> is the bookkeeping of flights, waiting callers and tasks over a view of the flights
  (key, generation, waiters).  Most critical sections leave that view alone, so one frame lemma
  covers them; one lemma per section that changes it shows the rest.
\<close>

section \<open>The ledger\<close>

type_synonym flight_view = "(cache_key \<times> nat \<times> nat) list"

definition fview :: "(cache_key \<times> flight) list \<Rightarrow> flight_view" where
  "fview fs = map (\<lambda>(k, f). (k, fl_generation f, fl_waiters f)) fs"

definition guard_sum :: "(cache_key \<times> nat) list \<Rightarrow> flight_view \<Rightarrow> nat" where
  "guard_sum gs vs = sum_list (map (\<lambda>(k, g, n). count_list gs (k, g)) vs)"

text \<open>
  The callers a flight counts are the guards of its generation; only a flight that was left
  behind by an aborted start counts one that does not exist, and no task works for it.
\<close>

definition counted :: "(cache_key \<times> nat) list \<Rightarrow> bool \<Rightarrow> nat list \<Rightarrow> cache_key \<times> nat \<times> nat \<Rightarrow> bool" where
  "counted gs stopping js v =
     (case v of (k, g, n) \<Rightarrow>
        n = count_list gs (k, g) \<or> stopping \<and> count_list gs (k, g) = 0 \<and> g \<notin> set js)"

definition ledger ::
  "flight_view \<Rightarrow> (cache_key \<times> nat) list \<Rightarrow> nat \<Rightarrow> nat \<Rightarrow> bool \<Rightarrow> nat list \<Rightarrow> bool" where
  "ledger vs gs w top_gen stopping js \<longleftrightarrow>
     distinct (map fst vs) \<and> length vs \<le> MAX_IN_FLIGHT
     \<and> list_all (\<lambda>(k, g, n). g \<le> top_gen \<and> n \<le> MAX_WAITERS_PER_KEY) vs
     \<and> list_all (counted gs stopping js) vs
     \<and> list_all (\<lambda>(k, g). g \<le> top_gen) gs \<and> list_all (\<lambda>g. g \<le> top_gen) js
     \<and> w = guard_sum gs vs \<and> w \<le> MAX_WAITERS"

definition state_ledger :: "retrieval_state \<Rightarrow> bool" where
  "state_ledger s \<longleftrightarrow>
     ledger (fview (rv_flights s)) (rv_guards s) (rv_waiters s) (rv_generation s) (rv_stopping s)
       (map jb_generation (rv_jobs s))"

lemma guard_sum_simps [simp]:
  "guard_sum gs [] = 0"
  "guard_sum gs ((k, g, n) # vs) = count_list gs (k, g) + guard_sum gs vs"
  by (simp_all add: guard_sum_def)

lemma guard_sum_other:
  "k \<notin> fst ` set vs \<Longrightarrow> guard_sum ((k, g) # gs) vs = guard_sum gs vs"
  by (induction vs) auto

lemma guard_sum_older:
  "list_all (\<lambda>(k, g, n). g < h) vs \<Longrightarrow> guard_sum ((k, h) # gs) vs = guard_sum gs vs"
  by (induction vs) auto

lemma guard_sum_member:
  "distinct (map fst vs) \<Longrightarrow> (k, g, n) \<in> set vs \<Longrightarrow>
     guard_sum ((k, g) # gs) vs = Suc (guard_sum gs vs)"
proof (induction vs)
  case (Cons v vs)
  obtain k' g' n' where v: "v = (k', g', n')" by (cases v)
  show ?case
  proof (cases "v = (k, g, n)")
    case True
    then have "k \<notin> fst ` set vs" using Cons.prems(1) by auto
    then show ?thesis using True by (simp add: guard_sum_other)
  next
    case False
    then have "(k, g, n) \<in> set vs" using Cons.prems(2) by auto
    moreover have "k' \<noteq> k" using Cons.prems(1) v calculation by (auto intro: rev_image_eqI)
    ultimately show ?thesis using Cons v by auto
  qed
qed simp

lemma guard_sum_missing:
  "\<forall>n. (k, g, n) \<notin> set vs \<Longrightarrow> guard_sum ((k, g) # gs) vs = guard_sum gs vs"
  by (induction vs) auto

lemma guard_sum_alt: "guard_sum gs vs = sum_list (map (count_list gs) (map (\<lambda>(k, g, n). (k, g)) vs))"
  by (induction vs) auto

lemma count_list_remove1:
  "x \<in> set gs \<Longrightarrow> count_list (x # remove1 x gs) y = count_list gs y"
  by (induction gs) auto

lemma guard_sum_remove1:
  "x \<in> set gs \<Longrightarrow> guard_sum (x # remove1 x gs) vs = guard_sum gs vs"
  unfolding guard_sum_alt by (simp only: count_list_remove1 [THEN ext])

lemma guard_sum_filter:
  "distinct (map fst vs) \<Longrightarrow> (k, g, n) \<in> set vs \<Longrightarrow>
     guard_sum gs vs = count_list gs (k, g) + guard_sum gs (filter (\<lambda>v. fst v \<noteq> k) vs)"
proof (induction vs)
  case (Cons v vs)
  obtain k' g' n' where v: "v = (k', g', n')" by (cases v)
  show ?case
  proof (cases "v = (k, g, n)")
    case True
    then have "k \<notin> fst ` set vs" using Cons.prems(1) by auto
    then have "filter (\<lambda>v. fst v \<noteq> k) vs = vs" by (auto simp: filter_id_conv)
    then show ?thesis using True by simp
  next
    case False
    then have "(k, g, n) \<in> set vs" using Cons.prems(2) by auto
    moreover have "k' \<noteq> k" using Cons.prems(1) v calculation by (auto intro: rev_image_eqI)
    ultimately show ?thesis using Cons v by auto
  qed
qed simp

subsection \<open>Changes of the ledger\<close>

text \<open>The view after the waiters of one key changed.\<close>

definition set_waiters :: "cache_key \<Rightarrow> nat \<Rightarrow> flight_view \<Rightarrow> flight_view" where
  "set_waiters key m vs = map (\<lambda>(k, g, n). (k, g, if k = key then m else n)) vs"

lemma set_waiters_fst [simp]: "map fst (set_waiters key m vs) = map fst vs"
  by (auto simp: set_waiters_def)

lemma set_waiters_length [simp]: "length (set_waiters key m vs) = length vs"
  by (simp add: set_waiters_def)

lemma set_waiters_mem:
  "(k, g, n) \<in> set (set_waiters key m vs) \<Longrightarrow> \<exists>n'. (k, g, n') \<in> set vs \<and> (n = m \<or> n = n')"
  by (auto simp: set_waiters_def)

lemma guard_sum_set_waiters [simp]: "guard_sum gs (set_waiters key m vs) = guard_sum gs vs"
  by (simp add: guard_sum_alt set_waiters_def comp_def case_prod_beta)

lemma view_unique:
  "distinct (map fst vs) \<Longrightarrow> (k, g, n) \<in> set vs \<Longrightarrow> (k, g', n') \<in> set vs \<Longrightarrow> g' = g \<and> n' = n"
  by (metis Pair_inject eq_key_imp_eq_value)

lemma counted_other:
  "fst v \<noteq> k \<or> fst (snd v) \<noteq> g \<Longrightarrow> counted ((k, g) # gs) st js v = counted gs st js v"
  by (cases v) (auto simp: counted_def)

lemma counted_jobs: "counted gs st js v \<Longrightarrow> fst (snd v) \<noteq> g \<Longrightarrow> counted gs st (g # js) v"
  by (cases v) (auto simp: counted_def)

lemma counted_stop: "counted gs st js v \<Longrightarrow> set js' \<subseteq> set js \<Longrightarrow> (st \<Longrightarrow> st') \<Longrightarrow> counted gs st' js' v"
  by (cases v) (auto simp: counted_def)

lemma ledgerD:
  assumes "ledger vs gs w h st js"
  shows "distinct (map fst vs)" "length vs \<le> MAX_IN_FLIGHT" "w = guard_sum gs vs" "w \<le> MAX_WAITERS"
    "\<And>k g n. (k, g, n) \<in> set vs \<Longrightarrow> g \<le> h \<and> n \<le> MAX_WAITERS_PER_KEY"
    "\<And>v. v \<in> set vs \<Longrightarrow> counted gs st js v"
    "\<And>k g. (k, g) \<in> set gs \<Longrightarrow> g \<le> h" "\<And>g. g \<in> set js \<Longrightarrow> g \<le> h"
  using assms by (auto simp: ledger_def list_all_iff)

lemma ledgerI:
  assumes "distinct (map fst vs)" "length vs \<le> MAX_IN_FLIGHT" "w = guard_sum gs vs" "w \<le> MAX_WAITERS"
    "\<And>k g n. (k, g, n) \<in> set vs \<Longrightarrow> g \<le> h \<and> n \<le> MAX_WAITERS_PER_KEY"
    "\<And>v. v \<in> set vs \<Longrightarrow> counted gs st js v"
    "\<And>k g. (k, g) \<in> set gs \<Longrightarrow> g \<le> h" "\<And>g. g \<in> set js \<Longrightarrow> g \<le> h"
  shows "ledger vs gs w h st js"
  using assms by (auto simp: ledger_def list_all_iff)

lemma ledger_frame:
  assumes "ledger vs gs w h st js" "set js' \<subseteq> set js" "st \<Longrightarrow> st'"
  shows "ledger vs gs w h st' js'"
proof (rule ledgerI)
  fix v
  assume "v \<in> set vs"
  then show "counted gs st' js' v"
    by (rule counted_stop [OF ledgerD(6) [OF assms(1)]]) (use assms(2,3) in auto)
qed (use ledgerD [OF assms(1)] assms(2) in auto)

lemma ledger_fresh:
  assumes "ledger vs gs w h st js"
  shows "count_list gs (key, h + 1) = 0" "h + 1 \<notin> set js" "list_all (\<lambda>(k, g, n). g < h + 1) vs"
  using ledgerD(5,7,8) [OF assms] by (fastforce simp: count_list_0_iff list_all_iff)+

lemma ledger_start:
  assumes L: "ledger vs gs w h st js" and key: "key \<notin> fst ` set vs"
    and "length vs < MAX_IN_FLIGHT" "w < MAX_WAITERS"
  shows "ledger ((key, h + 1, 1) # vs) ((key, h + 1) # gs) (w + 1) (h + 1) st ((h + 1) # js)"
proof (rule ledgerI)
  fix v
  assume "v \<in> set ((key, h + 1, 1) # vs)"
  then consider "v = (key, h + 1, 1)" | "v \<in> set vs" by auto
  then show "counted ((key, h + 1) # gs) st ((h + 1) # js) v"
  proof cases
    case 1
    then show ?thesis using ledger_fresh(1) [OF L] by (simp add: counted_def)
  next
    case 2
    then have "fst (snd v) \<noteq> h + 1" using ledger_fresh(3) [OF L] by (auto simp: list_all_iff)
    then show ?thesis using ledgerD(6) [OF L 2] by (simp add: counted_other counted_jobs)
  qed
next
  show "w + 1 = guard_sum ((key, h + 1) # gs) ((key, h + 1, 1) # vs)"
    using ledgerD(3) [OF L] ledger_fresh(1) [OF L] guard_sum_older [OF ledger_fresh(3) [OF L]] by simp
qed (use ledgerD [OF L] assms(3,4) key in \<open>auto simp: size_simps intro: le_SucI\<close>)

lemma ledger_orphan:
  assumes L: "ledger vs gs w h st js" and key: "key \<notin> fst ` set vs" and "length vs < MAX_IN_FLIGHT"
  shows "ledger ((key, h + 1, 1) # vs) gs w (h + 1) True js"
proof (rule ledgerI)
  fix v
  assume "v \<in> set ((key, h + 1, 1) # vs)"
  then show "counted gs True js v"
    using ledger_fresh(1,2) [OF L] ledgerD(6) [OF L] counted_stop by (auto simp: counted_def)
qed (use ledgerD [OF L] ledger_fresh(1) [OF L] assms(3) key in \<open>auto simp: size_simps intro: le_SucI\<close>)

lemma ledger_join:
  assumes L: "ledger vs gs w h st js" and v: "(key, g, n) \<in> set vs" and "n < MAX_WAITERS_PER_KEY"
    and "w < MAX_WAITERS" "\<not> st"
  shows "ledger (set_waiters key (n + 1) vs) ((key, g) # gs) (w + 1) h st js"
proof (rule ledgerI)
  fix v'
  assume "v' \<in> set (set_waiters key (n + 1) vs)"
  then obtain k g' n' where v': "(k, g', n') \<in> set vs" "v' = (k, g', if k = key then n + 1 else n')"
    by (auto simp: set_waiters_def)
  show "counted ((key, g) # gs) st js v'"
  proof (cases "k = key")
    case True
    then have "g' = g" "n' = n" using view_unique [OF ledgerD(1) [OF L] v] v'(1) by auto
    then show ?thesis using True v'(2) ledgerD(6) [OF L v] \<open>\<not> st\<close> by (simp add: counted_def)
  next
    case False
    then show ?thesis using v' ledgerD(6) [OF L v'(1)] by (simp add: counted_other)
  qed
next
  show "w + 1 = guard_sum ((key, g) # gs) (set_waiters key (n + 1) vs)"
    using ledgerD(3) [OF L] guard_sum_member [OF ledgerD(1) [OF L] v] by simp
qed (use ledgerD [OF L] assms(3,4) v in \<open>auto dest!: set_waiters_mem\<close>)

lemma ledger_settle:
  assumes L: "ledger vs gs w h st js" and v: "(key, g, n) \<in> set vs" and n: "n = count_list gs (key, g)"
  shows "ledger (filter (\<lambda>v. fst v \<noteq> key) vs) gs (w - n) h st js" "n \<le> w"
proof -
  have w: "w = n + guard_sum gs (filter (\<lambda>v. fst v \<noteq> key) vs)"
    using guard_sum_filter [OF ledgerD(1) [OF L] v] ledgerD(3) [OF L] n by simp
  then show "n \<le> w" by simp
  show "ledger (filter (\<lambda>v. fst v \<noteq> key) vs) gs (w - n) h st js"
  proof (rule ledgerI)
    show "length (filter (\<lambda>v. fst v \<noteq> key) vs) \<le> MAX_IN_FLIGHT"
      using ledgerD(2) [OF L] length_filter_le order_trans by blast
    show "distinct (map fst (filter (\<lambda>v. fst v \<noteq> key) vs))"
      by (rule distinct_map_filter [OF ledgerD(1) [OF L]])
  qed (use ledgerD(4-8) [OF L] w in auto)
qed

lemma counted_task: "counted gs st js (k, g, n) \<Longrightarrow> g \<in> set js \<or> (k, g) \<in> set gs \<Longrightarrow> n = count_list gs (k, g)"
  by (auto simp: counted_def count_list_0_iff)

lemma ledger_drop_gone:
  assumes L: "ledger vs gs w h st js" and x: "(key, g) \<in> set gs" and "\<forall>n. (key, g, n) \<notin> set vs"
  shows "ledger vs (remove1 (key, g) gs) w h st js"
proof (rule ledgerI)
  show "w = guard_sum (remove1 (key, g) gs) vs"
    using guard_sum_remove1 [OF x, of vs] guard_sum_missing [OF assms(3)] ledgerD(3) [OF L] by simp
  fix v
  assume v: "v \<in> set vs"
  then have "fst v \<noteq> key \<or> fst (snd v) \<noteq> g" using assms(3) by (metis prod.collapse)
  then have "counted (remove1 (key, g) gs) st js v = counted ((key, g) # remove1 (key, g) gs) st js v"
    by (simp add: counted_other)
  also have "\<dots> = counted gs st js v"
    using count_list_remove1 [OF x] by (simp only: counted_def)
  finally show "counted (remove1 (key, g) gs) st js v" using ledgerD(6) [OF L v] by simp
qed (use ledgerD [OF L] in \<open>auto dest: notin_set_remove1 [rotated] set_remove1_subset [THEN subsetD]\<close>)

lemma ledger_drop:
  assumes L: "ledger vs gs w h st js" and x: "(key, g) \<in> set gs" and v: "(key, g, n) \<in> set vs"
  shows "ledger (set_waiters key (n - 1) vs) (remove1 (key, g) gs) (w - 1) h st js"
    "1 \<le> n" "1 \<le> w" "count_list (remove1 (key, g) gs) (key, g) = n - 1"
proof -
  let ?hs = "remove1 (key, g) gs"
  note c = count_list_remove1 [OF x]
  have n: "n = count_list gs (key, g)" using counted_task [OF ledgerD(6) [OF L v]] x by blast
  then show n1: "1 \<le> n" "count_list ?hs (key, g) = n - 1" using c [of "(key, g)"] by auto
  have w: "w = Suc (guard_sum ?hs vs)"
    using guard_sum_remove1 [OF x, of vs] guard_sum_member [OF ledgerD(1) [OF L] v] ledgerD(3) [OF L]
    by simp
  then show "1 \<le> w" by simp
  show "ledger (set_waiters key (n - 1) vs) ?hs (w - 1) h st js"
  proof (rule ledgerI)
    show "w - 1 = guard_sum ?hs (set_waiters key (n - 1) vs)" using w by simp
    fix v'
    assume "v' \<in> set (set_waiters key (n - 1) vs)"
    then obtain k g' n' where v': "(k, g', n') \<in> set vs" "v' = (k, g', if k = key then n - 1 else n')"
      by (auto simp: set_waiters_def)
    show "counted ?hs st js v'"
    proof (cases "k = key")
      case True
      then have "g' = g" using view_unique [OF ledgerD(1) [OF L] v] v'(1) by auto
      then show ?thesis using True v'(2) n1(2) by (simp add: counted_def)
    next
      case False
      then have "count_list ?hs (k, g') = count_list gs (k, g')" using c [of "(k, g')"] by simp
      then show ?thesis using False v'(2) ledgerD(6) [OF L v'(1)] by (simp add: counted_def)
    qed
  qed (use ledgerD [OF L] v in
      \<open>auto dest!: set_waiters_mem dest: set_remove1_subset [THEN subsetD] intro: order_trans [OF diff_le_self]\<close>)
qed

lemma ledger_shut: "ledger vs gs w h st js \<Longrightarrow> ledger [] gs 0 h True js"
  by (rule ledgerI) (auto dest: ledgerD(7,8))

section \<open>The service keeps the ledger\<close>

lemma fview_fst [simp]: "map fst (fview fs) = map fst fs"
  by (auto simp: fview_def)

lemma fview_length [simp]: "length (fview fs) = length fs"
  by (simp add: fview_def)

lemma fview_Cons [simp]: "fview ((k, f) # fs) = (k, fl_generation f, fl_waiters f) # fview fs"
  by (simp add: fview_def)

lemma fview_mem: "map_of fs key = Some f \<Longrightarrow> (key, fl_generation f, fl_waiters f) \<in> set (fview fs)"
  by (auto simp: fview_def dest!: map_of_SomeD intro: rev_image_eqI)

lemma fview_missing:
  "distinct (map fst fs) \<Longrightarrow> map_of fs key = Some f \<Longrightarrow> fl_generation f \<noteq> g \<Longrightarrow> (key, g, n) \<notin> set (fview fs)"
  by (auto simp: fview_def dest!: map_of_SomeD dest: eq_key_imp_eq_value)

lemma fview_absent: "map_of fs key = None \<Longrightarrow> (key, g, n) \<notin> set (fview fs)"
  by (auto simp: fview_def map_of_eq_None_iff intro: rev_image_eqI)

lemma fst_set_fview: "fst ` set (fview fs) = fst ` set fs"
  by (force simp: fview_def)

lemma fview_map:
  "(\<And>k f. fl_generation (h k f) = fl_generation f \<and> fl_waiters (h k f) = fl_waiters f) \<Longrightarrow>
     fview (map (\<lambda>(k, f). (k, h k f)) fs) = fview fs"
  by (auto simp: fview_def)

lemma fview_set_flight:
  assumes "distinct (map fst (rv_flights s))" "map_of (rv_flights s) key = Some f"
  shows "fview (rv_flights (set_flight key (f\<lparr>fl_waiters := m\<rparr>) s)) = set_waiters key m (fview (rv_flights s))"
  using assms
  by (auto simp: set_flight_def fview_def set_waiters_def dest!: map_of_SomeD
      dest: eq_key_imp_eq_value [of _ key f])

lemma fview_remove_flight:
  "fview (rv_flights (remove_flight key s)) = filter (\<lambda>v. fst v \<noteq> key) (fview (rv_flights s))"
  by (simp add: remove_flight_def fview_def filter_map comp_def case_prod_unfold)

text \<open>Everything the ledger and the permits depend on.\<close>

definition same_books :: "retrieval_state \<Rightarrow> retrieval_state \<Rightarrow> bool" where
  "same_books s s' \<longleftrightarrow>
     fview (rv_flights s') = fview (rv_flights s) \<and> rv_guards s' = rv_guards s
     \<and> rv_waiters s' = rv_waiters s \<and> rv_generation s' = rv_generation s
     \<and> rv_stopping s' = rv_stopping s \<and> rv_jobs s' = rv_jobs s"

lemma same_books_refl [simp]: "same_books s s"
  by (simp add: same_books_def)

lemma same_books_trans: "same_books s s' \<Longrightarrow> same_books s' s'' \<Longrightarrow> same_books s s''"
  by (simp add: same_books_def)

lemma same_books_ledger: "same_books s s' \<Longrightarrow> state_ledger s' \<longleftrightarrow> state_ledger s"
  by (simp add: same_books_def state_ledger_def)

lemma same_books_permits: "same_books s s' \<Longrightarrow> permits_used p s' = permits_used p s"
  by (simp add: same_books_def permits_used_def)

lemma same_books_cache [simp]: "same_books s (s\<lparr>rv_cache := c\<rparr>)"
  by (simp add: same_books_def)

lemma same_books_bump [simp]: "same_books s (bump u s)"
  by (simp add: same_books_def bump_def)

lemma same_books_expire [simp]: "same_books s (expire_cache now s)"
  by (simp add: expire_cache_def)

lemma same_books_clear [simp]: "same_books s (clear_cache s)"
  by (simp add: clear_cache_def)

lemma same_books_cancel [simp]: "same_books s (cancel_all s)"
  by (simp add: same_books_def cancel_all_def fview_map)

lemma same_books_stage [simp]: "same_books s (set_stage q g st s)"
  by (simp add: same_books_def set_stage_def fview_map)

lemma same_books_timeout [simp]: "same_books s (persistent_timeout k g s)"
  by (simp add: same_books_def persistent_timeout_def fview_map)

lemma same_books_panic [simp]: "same_books s (note_panic s)"
  by (simp add: same_books_def note_panic_def)

lemma same_books_epoch [simp]:
  "same_books s (s\<lparr>rv_recovery_epoch := n\<rparr>)" "same_books s (s\<lparr>rv_storage_epoch := n\<rparr>)"
  by (simp_all add: same_books_def)

lemma same_books_sync [simp]: "same_books s (sync_epoch p s)"
proof (cases p)
  case (Some w)
  let ?a = "if sw_recovery_epoch w \<noteq> rv_recovery_epoch s
    then cancel_all (clear_cache (s\<lparr>rv_recovery_epoch := sw_recovery_epoch w\<rparr>)) else s"
  let ?b = "if rv_storage_epoch ?a \<noteq> sw_epoch w
    then (clear_cache ?a)\<lparr>rv_storage_epoch := sw_epoch w\<rparr> else ?a"
  have "same_books s ?a"
    using same_books_trans [OF same_books_epoch(1) same_books_trans [OF same_books_clear same_books_cancel]]
    by simp
  moreover have "same_books ?a ?b"
    using same_books_trans [OF same_books_clear same_books_epoch(2)] by simp
  moreover have "same_books ?b (sync_epoch p s)"
    unfolding Some sync_epoch_def Let_def option.case
    using same_books_trans [OF same_books_clear same_books_cancel] by simp
  ultimately show ?thesis using same_books_trans by blast
qed (simp add: sync_epoch_def)

lemma sync_epoch_flags [simp]:
  "rv_shutdown (sync_epoch p s) = rv_shutdown s" "rv_failed (sync_epoch p s) = rv_failed s"
  "rv_outcomes (sync_epoch p s) = rv_outcomes s"
  by (auto simp: sync_epoch_def cancel_all_def clear_cache_def Let_def split: option.splits)

lemma sync_epoch_cache: "cache_inv (rv_cache s) \<Longrightarrow> cache_inv (rv_cache (sync_epoch p s))"
  by (auto simp: sync_epoch_def cancel_all_def clear_cache_def Let_def memory.clear_inv split: option.splits)

lemma expire_cache_inv: "cache_inv (rv_cache s) \<Longrightarrow> cache_inv (rv_cache (expire_cache now s))"
  by (simp add: expire_cache_def cache_expire_inv)

definition retrieval_inv :: "retrieval_state \<Rightarrow> bool" where
  "retrieval_inv s \<longleftrightarrow>
     state_ledger s \<and> cache_inv (rv_cache s) \<and> (\<forall>provider. permits_used provider s \<le> 2)"

lemma same_books_inv:
  "retrieval_inv s \<Longrightarrow> same_books s s' \<Longrightarrow> cache_inv (rv_cache s') \<Longrightarrow> retrieval_inv s'"
  by (simp add: retrieval_inv_def same_books_ledger same_books_permits)

lemma bump_cache [simp]: "rv_cache (bump u s) = rv_cache s"
  by (simp add: bump_def)

lemma state_ledgerD:
  "state_ledger s \<Longrightarrow>
     ledger (fview (rv_flights s)) (rv_guards s) (rv_waiters s) (rv_generation s) (rv_stopping s)
       (map jb_generation (rv_jobs s))"
  by (simp add: state_ledger_def)

lemma flights_distinct: "state_ledger s \<Longrightarrow> distinct (map fst (rv_flights s))"
  using ledgerD(1) [OF state_ledgerD] by simp

lemma busy_inv: "retrieval_inv s \<Longrightarrow> retrieval_inv (snd (busy s))"
  by (rule same_books_inv) (auto simp: busy_def retrieval_inv_def)

lemma wrapping_succ_small: "n + 1 < 2 ^ 64 \<Longrightarrow> wrapping_succ n = n + 1"
  by (simp add: wrapping_succ_def)

lemma start_flight_inv:
  assumes inv: "retrieval_inv s" and "map_of (rv_flights s) key = None" "rv_waiters s < MAX_WAITERS"
    and gen: "rv_generation s + 1 < 2 ^ 64"
  shows "retrieval_inv (snd (start_flight p reaped_ok source key s))"
proof -
  let ?h = "rv_generation s"
  have L: "ledger (fview (rv_flights s)) (rv_guards s) (rv_waiters s) ?h (rv_stopping s)
      (map jb_generation (rv_jobs s))"
    using inv by (simp add: retrieval_inv_def state_ledger_def)
  have key: "key \<notin> fst ` set (fview (rv_flights s))"
    using assms(2) by (simp add: fst_set_fview map_of_eq_None_iff)
  show ?thesis
  proof (cases "MAX_IN_FLIGHT \<le> length (rv_flights s) \<or> p = None \<and> 2 \<le> permits_used (src_provider source) s")
    case True
    then show ?thesis using busy_inv [OF inv] by (auto simp: start_flight_def)
  next
    case False
    then have room: "length (fview (rv_flights s)) < MAX_IN_FLIGHT" by auto
    show ?thesis
      using False inv ledger_start [OF L key room assms(3)] ledger_orphan [OF L key room]
      by (auto simp: start_flight_def Let_def wrapping_succ_small [OF gen] retrieval_inv_def
          state_ledger_def permits_used_def)
  qed
qed

lemma join_flight_inv:
  assumes inv: "retrieval_inv s" and f: "map_of (rv_flights s) key = Some f"
    and "rv_waiters s < MAX_WAITERS" "\<not> rv_stopping s"
  shows "retrieval_inv (snd (join_flight key f s))"
proof (cases "flight_cancelled s f \<or> MAX_WAITERS_PER_KEY \<le> fl_waiters f")
  case True
  then show ?thesis using busy_inv [OF inv] by (auto simp: join_flight_def)
next
  case False
  have L: "state_ledger s" using inv by (simp add: retrieval_inv_def)
  have "ledger (set_waiters key (fl_waiters f + 1) (fview (rv_flights s)))
      ((key, fl_generation f) # rv_guards s) (rv_waiters s + 1) (rv_generation s) (rv_stopping s)
      (map jb_generation (rv_jobs s))"
    by (rule ledger_join [OF state_ledgerD [OF L] fview_mem [OF f]]) (use False assms in auto)
  then show ?thesis
    using False inv fview_set_flight [OF flights_distinct [OF L] f, of "fl_waiters f + 1"]
    by (auto simp: join_flight_def retrieval_inv_def state_ledger_def permits_used_def bump_def
        set_flight_def)
qed

lemma retrieve_miss_inv:
  assumes "retrieval_inv s" "rv_generation s + 1 < 2 ^ 64" "\<not> rv_stopping s"
  shows "retrieval_inv (snd (retrieve_miss p reaped_ok source key s))"
proof -
  let ?b = "bump ct_misses_update s"
  have b: "retrieval_inv ?b"
    by (rule same_books_inv [OF assms(1)]) (use assms(1) in \<open>auto simp: retrieval_inv_def\<close>)
  have "rv_generation ?b + 1 < 2 ^ 64" "\<not> rv_stopping ?b" using assms by (auto simp: bump_def)
  then show ?thesis
    using busy_inv [OF b] join_flight_inv [OF b] start_flight_inv [OF b]
    by (auto simp: retrieve_miss_def Let_def split: option.splits)
qed

text \<open>Reading the cache after expiry: what \<open>retrieve\<close> does at both ends.\<close>

lemma cache_read_inv:
  assumes inv: "retrieval_inv s" and "cache_get key (rv_cache (expire_cache t (sync_epoch p s))) = (cached, c)"
  defines "b \<equiv> (expire_cache t (sync_epoch p s))\<lparr>rv_cache := c\<rparr>"
  shows "retrieval_inv b" "same_books s b"
proof -
  show sab: "same_books s b" unfolding b_def
    using same_books_trans [OF same_books_sync same_books_trans [OF same_books_expire same_books_cache]] .
  have "cache_inv (rv_cache (expire_cache t (sync_epoch p s)))"
    using inv by (simp add: retrieval_inv_def expire_cache_inv sync_epoch_cache)
  then have "cache_inv c" using cache_get_inv [of _ key] assms(2) by (metis snd_conv)
  then show "retrieval_inv b" by (intro same_books_inv [OF inv sab]) (simp add: b_def)
qed

lemma sync_epoch_inv: "retrieval_inv s \<Longrightarrow> retrieval_inv (sync_epoch p s)"
  by (rule same_books_inv) (auto simp: retrieval_inv_def sync_epoch_cache)

lemma bump_inv: "retrieval_inv s \<Longrightarrow> retrieval_inv (bump u s)"
  by (rule same_books_inv) (auto simp: retrieval_inv_def)

lemma retrieve_admit_inv:
  assumes inv: "retrieval_inv s" and gen: "rv_generation s + 1 < 2 ^ 64"
  shows "retrieval_inv (snd (retrieve_admit p t1 t2 t3 reaped_ok source key s))"
proof (cases "rv_stopping s \<or> rv_shutdown s \<or> storage_error p \<noteq> None")
  case True
  then show ?thesis
    using inv sync_epoch_inv [OF inv] by (auto simp: retrieve_admit_def Let_def split: option.splits)
next
  case False
  let ?x = "expire_cache t1 (sync_epoch p s)"
  obtain cached c where g: "cache_get key (rv_cache ?x) = (cached, c)" by (cases "cache_get key (rv_cache ?x)")
  have b: "retrieval_inv (?x\<lparr>rv_cache := c\<rparr>)" "same_books s (?x\<lparr>rv_cache := c\<rparr>)"
    using cache_read_inv [OF inv g] by auto
  have "retrieval_inv (snd (retrieve_miss p reaped_ok source key (?x\<lparr>rv_cache := c\<rparr>)))"
    by (rule retrieve_miss_inv [OF b(1)]) (use b(2) gen False in \<open>auto simp: same_books_def\<close>)
  then show ?thesis
    using False b(1) bump_inv [OF b(1)] by (auto simp: retrieve_admit_def Let_def g split: option.splits)
qed

lemma finish_stale_inv:
  assumes inv: "retrieval_inv s"
  shows "retrieval_inv (snd (finish_stale p t1 t2 t3 t4 key e s))"
proof (cases "storage_error p")
  case None
  let ?x = "expire_cache t1 (sync_epoch p s)"
  obtain cached c where g: "cache_get key (rv_cache ?x) = (cached, c)" by (cases "cache_get key (rv_cache ?x)")
  have "retrieval_inv (?x\<lparr>rv_cache := c\<rparr>)" by (rule cache_read_inv(1) [OF inv g])
  then show ?thesis
    using None bump_inv by (auto simp: finish_stale_def Let_def g split: option.splits)
qed (use sync_epoch_inv [OF inv] in \<open>simp add: finish_stale_def Let_def\<close>)

lemma retrieve_finish_inv:
  "retrieval_inv s \<Longrightarrow> retrieval_inv (snd (retrieve_finish p1 p t1 t2 t3 t4 req key outcome s))"
  using finish_stale_inv sync_epoch_inv
  by (auto simp: retrieve_finish_def finish_fresh_def Let_def split: option.splits sum.splits)

lemma waiter_drop_inv:
  assumes inv: "retrieval_inv s" and x: "(key, g) \<in> set (rv_guards s)"
  shows "retrieval_inv (waiter_drop p key g s)"
proof -
  let ?s = "s\<lparr>rv_guards := remove1 (key, g) (rv_guards s)\<rparr>"
  have S: "state_ledger s" using inv by (simp add: retrieval_inv_def)
  note L = state_ledgerD [OF S] and D = flights_distinct [OF S]
  show ?thesis
  proof (cases "\<exists>f. map_of (rv_flights s) key = Some f \<and> fl_generation f = g")
    case False
    then have "\<forall>n. (key, g, n) \<notin> set (fview (rv_flights s))"
      using fview_missing [OF D] fview_absent by (metis option.exhaust)
    note gone = ledger_drop_gone [OF L x this]
    have "waiter_drop p key g s = ?s"
      using False by (auto simp: waiter_drop_def Let_def split: option.splits)
    then show ?thesis
      using gone inv by (simp add: retrieval_inv_def state_ledger_def permits_used_def)
  next
    case True
    then obtain f where f: "map_of (rv_flights s) key = Some f" and [simp]: "fl_generation f = g" by blast
    let ?n = "fl_waiters f - 1"
    let ?t = "(set_flight key (f\<lparr>fl_waiters := ?n\<rparr>) ?s)\<lparr>rv_waiters := rv_waiters s - 1\<rparr>"
    have v: "(key, g, fl_waiters f) \<in> set (fview (rv_flights s))" using fview_mem [OF f] by simp
    note d = ledger_drop [OF L x v]
    have view: "fview (rv_flights ?t) = set_waiters key ?n (fview (rv_flights s))"
      using fview_set_flight [of ?s key f ?n] D f by (simp add: set_flight_def)
    have fields: "rv_guards ?t = remove1 (key, g) (rv_guards s)" "rv_jobs ?t = rv_jobs s"
      "rv_generation ?t = rv_generation s" "rv_stopping ?t = rv_stopping s" "rv_cache ?t = rv_cache s"
      by (simp_all add: set_flight_def)
    have t: "retrieval_inv ?t"
      using d(1) inv view fields by (simp add: retrieval_inv_def state_ledger_def permits_used_def)
    show ?thesis
    proof (cases "?n = 0")
      case True
      have m: "(key, g, ?n) \<in> set (set_waiters key ?n (fview (rv_flights s)))"
        using v by (force simp: set_waiters_def)
      have "ledger (filter (\<lambda>v. fst v \<noteq> key) (set_waiters key ?n (fview (rv_flights s))))
          (remove1 (key, g) (rv_guards s)) (rv_waiters s - 1 - ?n) (rv_generation s) (rv_stopping s)
          (map jb_generation (rv_jobs s))"
        by (rule ledger_settle(1) [OF d(1) m d(4) [symmetric]])
      then have "retrieval_inv (remove_flight key ?t)"
        using t True view fields fview_remove_flight [of key ?t]
        by (simp add: retrieval_inv_def state_ledger_def permits_used_def remove_flight_def)
      moreover have "same_books ?t (set_flight key (f\<lparr>fl_waiters := ?n, fl_cancelled := True\<rparr>) ?t)"
        by (auto simp: same_books_def set_flight_def fview_def)
      then have "retrieval_inv (set_flight key (f\<lparr>fl_waiters := ?n, fl_cancelled := True\<rparr>) ?t)"
        by (rule same_books_inv [OF t]) (use inv in \<open>simp add: set_flight_def retrieval_inv_def\<close>)
      ultimately show ?thesis using True f by (simp add: waiter_drop_def Let_def)
    next
      case False
      then show ?thesis using t f by (simp add: waiter_drop_def Let_def)
    qed
  qed
qed

lemma settle_inv:
  assumes inv: "retrieval_inv s" and f: "map_of (rv_flights s) key = Some f"
    and "fl_generation f \<in> jb_generation ` set (rv_jobs s)"
  shows "retrieval_inv (settle key f r s)" "fl_waiters f \<le> rv_waiters s"
proof -
  have L: "ledger (fview (rv_flights s)) (rv_guards s) (rv_waiters s) (rv_generation s) (rv_stopping s)
      (map jb_generation (rv_jobs s))"
    using inv by (simp add: retrieval_inv_def state_ledger_def)
  have n: "fl_waiters f = count_list (rv_guards s) (key, fl_generation f)"
    by (rule counted_task [OF ledgerD(6) [OF L fview_mem [OF f]]]) (use assms(3) in auto)
  note l = ledger_settle [OF L fview_mem [OF f] n]
  show "fl_waiters f \<le> rv_waiters s" by (rule l(2))
  show "retrieval_inv (settle key f r s)"
    using l(1) inv fview_remove_flight [of key s]
    by (simp add: settle_def send_outcome_def remove_flight_def retrieval_inv_def state_ledger_def
        permits_used_def)
qed

lemma cache_step_inv:
  "retrieval_inv s \<Longrightarrow> retrieval_inv ((expire_cache now s)\<lparr>rv_cache := cache_publish key v (rv_cache (expire_cache now s))\<rparr>)"
  by (rule same_books_inv [OF _ same_books_trans [OF same_books_expire same_books_cache]])
    (auto simp: retrieval_inv_def expire_cache_inv cache_publish_inv)

lemma publish_cache_inv: "retrieval_inv s \<Longrightarrow> retrieval_inv (s\<lparr>rv_cache := cache_publish key v (rv_cache s)\<rparr>)"
  by (rule same_books_inv) (auto simp: retrieval_inv_def cache_publish_inv)

lemma expire_flights [simp]:
  "rv_flights (expire_cache now s) = rv_flights s" "rv_flights (bump u s) = rv_flights s"
  "rv_jobs (expire_cache now s) = rv_jobs s" "rv_jobs (bump u s) = rv_jobs s"
  by (simp_all add: expire_cache_def bump_def)

lemma sync_jobs [simp]: "rv_jobs (sync_epoch p s) = rv_jobs s"
  using same_books_sync [of s p] by (simp add: same_books_def)

lemma service_publish_inv:
  assumes inv: "retrieval_inv s" and j: "g \<in> jb_generation ` set (rv_jobs s)"
  shows "retrieval_inv (service_publish p now key g outcome s)"
proof -
  let ?a = "sync_epoch p s"
  have a: "retrieval_inv ?a" by (rule sync_epoch_inv [OF inv])
  show ?thesis
  proof (cases "\<exists>f. map_of (rv_flights ?a) key = Some f \<and> fl_generation f = g")
    case True
    then obtain f where f: "map_of (rv_flights ?a) key = Some f" "fl_generation f = g" by blast
    have e: "retrieval_inv (settle key f r ?a)" for r using settle_inv(1) [OF a f(1)] f(2) j by simp
    have o: "retrieval_inv (settle key f r ((expire_cache now ?a)
        \<lparr>rv_cache := cache_publish key v (rv_cache (expire_cache now ?a))\<rparr>))" for r v
      by (rule settle_inv(1) [OF cache_step_inv [OF a]]) (use f j in auto)
    have b: "retrieval_inv (settle key f r (bump u ?a))" for r u
      by (rule settle_inv(1) [OF bump_inv [OF a]]) (use f j in auto)
    show ?thesis
      using f e o b by (auto simp: service_publish_def Let_def split: option.splits sum.splits)
  next
    case False
    then have "service_publish p now key g outcome s = ?a"
      by (auto simp: service_publish_def Let_def split: option.splits)
    then show ?thesis using a by simp
  qed
qed

lemma permits_filter_le:
  "length (filter P (remove1 j js)) \<le> length (filter P js)"
  by (induction js) auto

lemma remove_job_inv: "retrieval_inv s \<Longrightarrow> retrieval_inv (s\<lparr>rv_jobs := remove1 j (rv_jobs s)\<rparr>)"
proof -
  assume inv: "retrieval_inv s"
  have "set (map jb_generation (remove1 j (rv_jobs s))) \<subseteq> set (map jb_generation (rv_jobs s))"
    using set_remove1_subset [of j "rv_jobs s"] by auto
  then have "state_ledger (s\<lparr>rv_jobs := remove1 j (rv_jobs s)\<rparr>)"
    using inv ledger_frame [OF state_ledgerD] by (simp add: retrieval_inv_def state_ledger_def)
  moreover have "permits_used q (s\<lparr>rv_jobs := remove1 j (rv_jobs s)\<rparr>) \<le> permits_used q s" for q
    by (simp add: permits_used_def permits_filter_le)
  ultimately show ?thesis using inv order_trans unfolding retrieval_inv_def by simp blast
qed

lemma service_publish_jobs [simp]: "rv_jobs (service_publish p now key g outcome s) = rv_jobs s"
  by (auto simp: service_publish_def Let_def settle_def send_outcome_def remove_flight_def
      split: option.splits sum.splits)

lemma job_finish_inv:
  assumes "retrieval_inv s" "j \<in> set (rv_jobs s)"
  shows "retrieval_inv (job_finish p now j outcome s)"
  using remove_job_inv [OF service_publish_inv [OF assms(1), of "jb_generation j"]] assms(2)
  by (simp add: job_finish_def Let_def)

text \<open>Replacing a task by itself with another permit.\<close>

lemma swap_job_inv:
  assumes inv: "retrieval_inv s" and j: "j \<in> set (rv_jobs s)"
    and "jb_generation j' = jb_generation j"
    and "jb_permit j' \<Longrightarrow> permits_used (jb_provider j') s < 2"
  shows "retrieval_inv (s\<lparr>rv_jobs := j' # remove1 j (rv_jobs s)\<rparr>)" (is "retrieval_inv ?s")
proof -
  have "set (map jb_generation (rv_jobs ?s)) \<subseteq> set (map jb_generation (rv_jobs s))"
    using set_remove1_subset [of j "rv_jobs s"] j assms(3) by auto
  then have "state_ledger ?s"
    using inv ledger_frame [OF state_ledgerD] by (simp add: retrieval_inv_def state_ledger_def)
  moreover have "permits_used q ?s \<le> 2" for q
  proof -
    have "permits_used q s \<le> 2" using inv by (simp add: retrieval_inv_def)
    then show ?thesis
      using assms(4) permits_filter_le [of "\<lambda>j. jb_permit j \<and> jb_provider j = q" j "rv_jobs s"]
      by (auto simp: permits_used_def)
  qed
  ultimately show ?thesis using inv by (simp add: retrieval_inv_def)
qed

lemma set_stage_inv: "retrieval_inv s \<Longrightarrow> retrieval_inv (set_stage q g st s)"
  by (rule same_books_inv [OF _ same_books_stage]) (auto simp: retrieval_inv_def set_stage_def)

lemma persistent_timeout_inv: "retrieval_inv s \<Longrightarrow> retrieval_inv (persistent_timeout k g s)"
  by (rule same_books_inv [OF _ same_books_timeout]) (auto simp: retrieval_inv_def persistent_timeout_def)

lemma persistent_acquire_inv:
  "retrieval_inv s \<Longrightarrow> j \<in> set (rv_jobs s) \<Longrightarrow> retrieval_inv (snd (persistent_acquire p cancelled j query s))"
  using bump_inv set_stage_inv swap_job_inv [of s j "j\<lparr>jb_permit := True\<rparr>"]
  by (auto simp: persistent_acquire_def split: option.splits)

lemma persistent_release_inv:
  "retrieval_inv s \<Longrightarrow> j \<in> set (rv_jobs s) \<Longrightarrow> retrieval_inv (persistent_release j s)"
  using swap_job_inv [of s j "j\<lparr>jb_permit := False\<rparr>"] by (simp add: persistent_release_def)

lemma promote_persistent_inv:
  "retrieval_inv s \<Longrightarrow> retrieval_inv (snd (promote_persistent p key g v epoch s))"
  using sync_epoch_inv publish_cache_inv [OF sync_epoch_inv]
  by (auto simp: promote_persistent_def Let_def)

lemma persistent_after_lookup_inv:
  assumes inv: "retrieval_inv s"
  shows "retrieval_inv (snd (persistent_after_lookup p now cancelled key g found s))"
proof (cases found)
  case (Some x)
  obtain v epoch where x: "x = (v, epoch)" by (cases x)
  obtain r t where r: "promote_persistent p key g v epoch s = (r, t)"
    by (cases "promote_persistent p key g v epoch s")
  have "retrieval_inv t" using promote_persistent_inv [OF inv, of p key g v epoch] r by simp
  then show ?thesis
    using inv bump_inv by (cases r) (auto simp: persistent_after_lookup_def Let_def Some x r)
qed (use inv in \<open>simp add: persistent_after_lookup_def\<close>)

lemma note_panic_inv: "retrieval_inv s \<Longrightarrow> retrieval_inv (note_panic s)"
  by (rule same_books_inv [OF _ same_books_panic]) (auto simp: retrieval_inv_def note_panic_def)

lemma expire_inv: "retrieval_inv s \<Longrightarrow> retrieval_inv (expire_cache now s)"
  by (rule same_books_inv) (auto simp: retrieval_inv_def expire_cache_inv)

lemma service_tick_inv: "retrieval_inv s \<Longrightarrow> retrieval_inv (service_tick p now joined_ok s)"
  by (simp add: service_tick_def Let_def note_panic_inv expire_inv sync_epoch_inv)

lemma health_tick_inv: "retrieval_inv s \<Longrightarrow> retrieval_inv (health_tick p s)"
  by (auto simp: health_tick_def note_panic_inv sync_epoch_inv split: option.splits)

lemma shutdown_begin_inv: "retrieval_inv s \<Longrightarrow> retrieval_inv (shutdown_begin s)"
  using ledger_shut
  by (fastforce simp: shutdown_begin_def retrieval_inv_def state_ledger_def permits_used_def
      memory.clear_inv fview_def)

lemma retrieval_new_inv: "retrieval_inv (retrieval_new p)"
  by (simp add: retrieval_new_def retrieval_inv_def state_ledger_def ledger_def fview_def
      permits_used_def memory.fresh_inv)

lemma retrieval_step_inv: "retrieval_step Q p s s' \<Longrightarrow> retrieval_inv s \<Longrightarrow> retrieval_inv s'"
  by (induction rule: retrieval_step.induct)
    (simp_all add: retrieve_admit_inv retrieve_finish_inv waiter_drop_inv job_finish_inv remove_job_inv
      set_stage_inv persistent_after_lookup_inv persistent_acquire_inv persistent_release_inv
      persistent_timeout_inv service_tick_inv health_tick_inv shutdown_begin_inv)

lemma retrieval_reachable_inv: "retrieval_reachable Q durable s \<Longrightarrow> retrieval_inv s"
  by (induction rule: retrieval_reachable.induct) (auto intro: retrieval_new_inv retrieval_step_inv)

end
