(* ===== verification/Retrieval_Properties.thy ===== *)
theory Retrieval_Properties
  imports Retrieval_Safety
begin

text \<open>
  Properties of the retrieval service: the bounds and the bookkeeping of shared refreshes in
  every reachable state, and the truth of what callers receive.  \<open>owned\<close> adds to the ledger which
  key every generation belongs to and that cached and delivered payloads satisfy the predicate
  \<open>Q\<close> that the tasks establish for their key.
\<close>

section \<open>Payloads belong to their keys\<close>

definition owned ::
  "(cache_key \<Rightarrow> stored_payload \<Rightarrow> bool) \<Rightarrow> (nat \<Rightarrow> cache_key) \<Rightarrow> retrieval_state \<Rightarrow> bool" where
  "owned Q own s \<longleftrightarrow>
     (\<forall>(k, f) \<in> set (rv_flights s). own (fl_generation f) = k)
     \<and> (\<forall>(k, g) \<in> set (rv_guards s). own g = k)
     \<and> (\<forall>j \<in> set (rv_jobs s). own (jb_generation j) = jb_key j)
     \<and> (\<forall>(g, r) \<in> set (rv_outcomes s). g \<le> rv_generation s \<and> (\<forall>v e. r = Ok (v, e) \<longrightarrow> Q (own g) v))
     \<and> (\<forall>k v. cache_lookup (rv_cache s) k = Some v \<longrightarrow> Q k v)"

text \<open>The two parts of \<open>owned\<close>: the owners of generations and the contents of the cache.\<close>

definition owners ::
  "(nat \<Rightarrow> cache_key) \<Rightarrow> flight_view \<Rightarrow> (cache_key \<times> nat) list \<Rightarrow> refresh_job list \<Rightarrow> bool" where
  "owners own vs gs js \<longleftrightarrow>
     (\<forall>(k, g, n) \<in> set vs. own g = k) \<and> (\<forall>(k, g) \<in> set gs. own g = k)
     \<and> (\<forall>j \<in> set js. own (jb_generation j) = jb_key j)"

definition delivered ::
  "(cache_key \<Rightarrow> stored_payload \<Rightarrow> bool) \<Rightarrow> (nat \<Rightarrow> cache_key) \<Rightarrow> nat \<Rightarrow>
     (nat \<times> published_outcome) list \<Rightarrow> bool" where
  "delivered Q own top_gen rs \<longleftrightarrow>
     (\<forall>(g, r) \<in> set rs. g \<le> top_gen \<and> (\<forall>v e. r = Ok (v, e) \<longrightarrow> Q (own g) v))"

definition contents :: "(cache_key \<Rightarrow> stored_payload \<Rightarrow> bool) \<Rightarrow> memory_cache \<Rightarrow> bool" where
  "contents Q c \<longleftrightarrow> (\<forall>k v. cache_lookup c k = Some v \<longrightarrow> Q k v)"

lemma owned_iff:
  "owned Q own s \<longleftrightarrow>
     owners own (fview (rv_flights s)) (rv_guards s) (rv_jobs s)
     \<and> delivered Q own (rv_generation s) (rv_outcomes s) \<and> contents Q (rv_cache s)"
  by (auto simp: owned_def owners_def delivered_def contents_def fview_def)

lemma contents_get: "contents Q c \<Longrightarrow> contents Q (snd (cache_get k c))"
  by (simp add: contents_def cache_get_lookup)

lemma contents_publish: "contents Q c \<Longrightarrow> Q k v \<Longrightarrow> contents Q (cache_publish k v c)"
  by (auto simp: contents_def dest: cache_publish_lookup)

lemma contents_expire: "contents Q c \<Longrightarrow> cache_inv c \<Longrightarrow> contents Q (cache_expire_before t c)"
  by (simp add: contents_def cache_expire_lookup)

lemma contents_clear: "contents Q (cache_clear c)"
  by (simp add: contents_def memory.clear_lookup)

lemma contents_sync: "contents Q (rv_cache s) \<Longrightarrow> contents Q (rv_cache (sync_epoch p s))"
  by (auto simp: sync_epoch_def cancel_all_def clear_cache_def Let_def contents_clear split: option.splits)

text \<open>Critical sections that only touch the cache, the counters and the flags.\<close>

lemma owned_frame:
  assumes "owned Q own s" "same_books s s'" "rv_outcomes s' = rv_outcomes s" "contents Q (rv_cache s')"
  shows "owned Q own s'"
  using assms by (simp add: owned_iff same_books_def)

lemma owned_sync: "owned Q own s \<Longrightarrow> owned Q own (sync_epoch p s)"
  by (rule owned_frame) (auto simp: owned_iff contents_sync)

lemma outcomes_simps [simp]:
  "rv_outcomes (expire_cache t s) = rv_outcomes s" "rv_outcomes (bump u s) = rv_outcomes s"
  "rv_outcomes (note_panic s) = rv_outcomes s" "rv_outcomes (set_stage q g st s) = rv_outcomes s"
  "rv_outcomes (persistent_timeout k g s) = rv_outcomes s"
  by (simp_all add: expire_cache_def bump_def note_panic_def set_stage_def persistent_timeout_def)

lemma cache_simps [simp]:
  "rv_cache (note_panic s) = rv_cache s" "rv_cache (set_stage q g st s) = rv_cache s"
  "rv_cache (persistent_timeout k g s) = rv_cache s"
  by (simp_all add: note_panic_def set_stage_def persistent_timeout_def)

lemma owned_bump: "owned Q own s \<Longrightarrow> owned Q own (bump u s)"
  by (rule owned_frame) (auto simp: owned_iff)

lemma owned_expire: "owned Q own s \<Longrightarrow> cache_inv (rv_cache s) \<Longrightarrow> owned Q own (expire_cache t s)"
  by (rule owned_frame) (auto simp: owned_iff expire_cache_def contents_expire)

lemma owned_read:
  assumes "owned Q own s" "cache_inv (rv_cache s)"
    and g: "cache_get key (rv_cache (expire_cache t (sync_epoch p s))) = (cached, c)"
  shows "owned Q own ((expire_cache t (sync_epoch p s))\<lparr>rv_cache := c\<rparr>)"
    "cached = Some v \<Longrightarrow> Q key v"
proof -
  let ?x = "expire_cache t (sync_epoch p s)"
  have x: "owned Q own ?x" by (rule owned_expire [OF owned_sync [OF assms(1)] sync_epoch_cache [OF assms(2)]])
  have c: "c = snd (cache_get key (rv_cache ?x))" "cached = fst (cache_get key (rv_cache ?x))"
    using g by auto
  show "owned Q own (?x\<lparr>rv_cache := c\<rparr>)"
    by (rule owned_frame [OF x]) (use x c(1) in \<open>auto simp: owned_iff contents_get\<close>)
  show "cached = Some v \<Longrightarrow> Q key v"
    using x c(2) by (auto simp: owned_iff contents_def cache_get_value)
qed

section \<open>Every step keeps the owners\<close>

lemma owners_mono:
  assumes "owners own vs gs js" "set gs' \<subseteq> set gs" "set js' \<subseteq> set js"
    and "\<And>k g n. (k, g, n) \<in> set vs' \<Longrightarrow> \<exists>m. (k, g, m) \<in> set vs"
  shows "owners own vs' gs' js'"
  using assms unfolding owners_def by fast

lemma owners_fresh:
  assumes "owners own vs gs js" "ledger vs gs w h st (map jb_generation js)"
  shows "owners (own(h + 1 := key)) vs gs js"
proof -
  have "h + 1 \<noteq> g" if "(k, g, n) \<in> set vs" for k g n using ledgerD(5) [OF assms(2) that] by simp
  moreover have "h + 1 \<noteq> g" if "(k, g) \<in> set gs" for k g using ledgerD(7) [OF assms(2) that] by simp
  moreover have "h + 1 \<noteq> jb_generation j" if "j \<in> set js" for j
    using ledgerD(8) [OF assms(2), of "jb_generation j"] that by simp
  ultimately show ?thesis using assms(1) by (fastforce simp: owners_def)
qed

lemma delivered_fresh:
  "delivered Q own h rs \<Longrightarrow> delivered Q (own(h + 1 := key)) (h + 1) rs"
  by (fastforce simp: delivered_def)

lemma owned_busy: "owned Q own s \<Longrightarrow> owned Q own (snd (busy s))"
  by (simp add: busy_def owned_bump)

lemma owned_start:
  assumes "owned Q own s" "retrieval_inv s" "rv_generation s + 1 < 2 ^ 64"
  shows "\<exists>own'. owned Q own' (snd (start_flight p reaped_ok source key s))"
proof -
  let ?h = "rv_generation s"
  have o': "owners (own(?h + 1 := key)) (fview (rv_flights s)) (rv_guards s) (rv_jobs s)"
    by (rule owners_fresh [OF _ state_ledgerD]) (use assms in \<open>auto simp: owned_iff retrieval_inv_def\<close>)
  have "owned Q (own(?h + 1 := key)) (snd (start_flight p reaped_ok source key s))"
    if "\<not> (MAX_IN_FLIGHT \<le> length (rv_flights s) \<or> p = None \<and> 2 \<le> permits_used (src_provider source) s)"
    using that o' delivered_fresh [of Q own ?h "rv_outcomes s" key] assms(1)
    by (auto simp: start_flight_def Let_def wrapping_succ_small [OF assms(3)] owned_iff owners_def)
  moreover have "owned Q own (snd (start_flight p reaped_ok source key s))"
    if "MAX_IN_FLIGHT \<le> length (rv_flights s) \<or> p = None \<and> 2 \<le> permits_used (src_provider source) s"
    using that owned_busy [OF assms(1)] by (auto simp: start_flight_def)
  ultimately show ?thesis by blast
qed

lemma owned_join:
  assumes "owned Q own s" "retrieval_inv s" "map_of (rv_flights s) key = Some f"
  shows "owned Q own (snd (join_flight key f s))"
proof (cases "flight_cancelled s f \<or> MAX_WAITERS_PER_KEY \<le> fl_waiters f")
  case True
  then show ?thesis using owned_busy [OF assms(1)] by (auto simp: join_flight_def)
next
  case False
  have D: "distinct (map fst (rv_flights s))"
    using assms(2) flights_distinct by (simp add: retrieval_inv_def)
  have own: "own (fl_generation f) = key"
    using assms(1) map_of_SomeD [OF assms(3)] by (auto simp: owned_def)
  have "owners own (set_waiters key (fl_waiters f + 1) (fview (rv_flights s))) (rv_guards s) (rv_jobs s)"
    by (rule owners_mono [where vs = "fview (rv_flights s)"])
      (use assms(1) in \<open>auto simp: owned_iff dest!: set_waiters_mem\<close>)
  then show ?thesis
    using False assms(1) own fview_set_flight [OF D assms(3), of "fl_waiters f + 1"]
    by (auto simp: join_flight_def owned_iff bump_def set_flight_def owners_def)
qed

lemma owned_miss:
  assumes "owned Q own s" "retrieval_inv s" "rv_generation s + 1 < 2 ^ 64"
  shows "\<exists>own'. owned Q own' (snd (retrieve_miss p reaped_ok source key s))"
proof -
  let ?b = "bump ct_misses_update s"
  have b: "owned Q own ?b" "retrieval_inv ?b" "rv_generation ?b + 1 < 2 ^ 64"
    using owned_bump [OF assms(1)] bump_inv [OF assms(2)] assms(3) by (auto simp: bump_def)
  show ?thesis
    using owned_busy [OF b(1)] owned_join [OF b(1,2), of key] owned_start [OF b, of p reaped_ok source key]
    by (auto simp: retrieve_miss_def Let_def split: option.splits)
qed

lemma owned_admit:
  assumes "owned Q own s" "retrieval_inv s" "rv_generation s + 1 < 2 ^ 64"
  shows "\<exists>own'. owned Q own' (snd (retrieve_admit p t1 t2 t3 reaped_ok source key s))"
proof (cases "rv_stopping s \<or> rv_shutdown s \<or> storage_error p \<noteq> None")
  case True
  then show ?thesis
    using assms(1) owned_sync [OF assms(1)] by (auto simp: retrieve_admit_def Let_def split: option.splits)
next
  case False
  let ?x = "expire_cache t1 (sync_epoch p s)"
  obtain cached c where g: "cache_get key (rv_cache ?x) = (cached, c)" by (cases "cache_get key (rv_cache ?x)")
  let ?b = "?x\<lparr>rv_cache := c\<rparr>"
  have c: "cache_inv (rv_cache s)" using assms(2) by (simp add: retrieval_inv_def)
  have b: "owned Q own ?b" by (rule owned_read(1) [OF assms(1) c g])
  have i: "retrieval_inv ?b" "same_books s ?b" using cache_read_inv [OF assms(2) g] by auto
  have "\<exists>own'. owned Q own' (snd (retrieve_miss p reaped_ok source key ?b))"
    by (rule owned_miss [OF b i(1)]) (use i(2) assms(3) in \<open>simp add: same_books_def\<close>)
  then show ?thesis
    using False owned_bump [OF b] by (auto simp: retrieve_admit_def Let_def g split: option.splits)
qed

lemma owned_finish:
  assumes "owned Q own s" "retrieval_inv s"
  shows "owned Q own (snd (retrieve_finish p1 p t1 t2 t3 t4 req key outcome s))"
proof -
  let ?x = "expire_cache t1 (sync_epoch p s)"
  obtain cached c where g: "cache_get key (rv_cache ?x) = (cached, c)" by (cases "cache_get key (rv_cache ?x)")
  have "cache_inv (rv_cache s)" using assms(2) by (simp add: retrieval_inv_def)
  from owned_read(1) [OF assms(1) this g] have b: "owned Q own (?x\<lparr>rv_cache := c\<rparr>)" .
  have "owned Q own (snd (finish_stale p t1 t2 t3 t4 key e s))" for e
    using b owned_bump [OF b] owned_sync [OF assms(1)]
    by (auto simp: finish_stale_def Let_def g split: option.splits)
  then show ?thesis
    using assms(1) owned_sync [OF assms(1)]
    by (auto simp: retrieve_finish_def finish_fresh_def Let_def split: option.splits sum.splits)
qed

lemma owned_less:
  assumes "owned Q own s" "set (rv_guards s') \<subseteq> set (rv_guards s)" "rv_jobs s' = rv_jobs s"
    and "\<And>k f. (k, f) \<in> set (rv_flights s') \<Longrightarrow> \<exists>f'. (k, f') \<in> set (rv_flights s) \<and> fl_generation f' = fl_generation f"
    and "rv_outcomes s' = rv_outcomes s" "rv_cache s' = rv_cache s" "rv_generation s' = rv_generation s"
  shows "owned Q own s'"
proof -
  have "own (fl_generation f) = k" if kf: "(k, f) \<in> set (rv_flights s')" for k f
  proof -
    obtain f' where "(k, f') \<in> set (rv_flights s)" "fl_generation f' = fl_generation f"
      using assms(4) [OF kf] by blast
    then show ?thesis using assms(1) by (auto simp: owned_def)
  qed
  then show ?thesis using assms(1,2,3,5,6,7) unfolding owned_def by auto
qed

lemma owned_drop:
  assumes "owned Q own s"
  shows "owned Q own (waiter_drop p key g s)"
proof (rule owned_less [OF assms])
  have "set (remove1 (key, g) (rv_guards s)) \<subseteq> set (rv_guards s)" by (rule set_remove1_subset)
  then show "set (rv_guards (waiter_drop p key g s)) \<subseteq> set (rv_guards s)"
    by (auto simp: waiter_drop_def set_flight_def remove_flight_def Let_def split: option.splits)
  fix k f
  assume f: "(k, f) \<in> set (rv_flights (waiter_drop p key g s))"
  show "\<exists>f'. (k, f') \<in> set (rv_flights s) \<and> fl_generation f' = fl_generation f"
  proof (cases "map_of (rv_flights s) key")
    case None
    then show ?thesis using f by (auto simp: waiter_drop_def Let_def)
  next
    case (Some h)
    then show ?thesis
      using f map_of_SomeD [OF Some]
      by (auto simp: waiter_drop_def set_flight_def remove_flight_def Let_def split: if_splits)
  qed
qed (auto simp: waiter_drop_def set_flight_def remove_flight_def Let_def split: option.splits)

lemma owned_settle:
  assumes "owned Q own s" "retrieval_inv s" "map_of (rv_flights s) key = Some f"
    and "\<And>v e. r = Ok (v, e) \<Longrightarrow> Q key v"
  shows "owned Q own (settle key f r s)"
proof -
  have own: "own (fl_generation f) = key" "fl_generation f \<le> rv_generation s"
    using assms(1) map_of_SomeD [OF assms(3)] ledgerD(5) [OF state_ledgerD fview_mem [OF assms(3)]] assms(2)
    by (auto simp: owned_def retrieval_inv_def)
  have "owned Q own (remove_flight key s)"
    by (rule owned_less [OF assms(1)]) (auto simp: remove_flight_def)
  then show ?thesis
    using own assms(4) by (auto simp: settle_def send_outcome_def owned_def remove_flight_def)
qed

lemma owned_publish_cache: "owned Q own s \<Longrightarrow> Q key v \<Longrightarrow> owned Q own (s\<lparr>rv_cache := cache_publish key v (rv_cache s)\<rparr>)"
  by (rule owned_frame [OF _ same_books_cache]) (auto simp: owned_iff contents_publish)

lemma owned_service_publish:
  assumes o: "owned Q own s" and i: "retrieval_inv s" and Q: "\<And>v e. outcome = Ok (v, e) \<Longrightarrow> Q key v"
  shows "owned Q own (service_publish p now key g outcome s)"
proof -
  let ?a = "sync_epoch p s"
  have a: "owned Q own ?a" "retrieval_inv ?a" using owned_sync [OF o] sync_epoch_inv [OF i] by auto
  show ?thesis
  proof (cases "\<exists>f. map_of (rv_flights ?a) key = Some f \<and> fl_generation f = g")
    case True
    then obtain f where f: "map_of (rv_flights ?a) key = Some f" "fl_generation f = g" by blast
    have e: "owned Q own (settle key f (Inl e) ?a)" for e by (rule owned_settle [OF a f(1)]) simp
    have b: "owned Q own (settle key f (Inl e) (bump u ?a))" for e u
      by (rule owned_settle [OF owned_bump [OF a(1)] bump_inv [OF a(2)]]) (use f in auto)
    have c: "cache_inv (rv_cache ?a)" using a(2) by (simp add: retrieval_inv_def)
    have k: "owned Q own (settle key f (Inr (v, x)) ((expire_cache now ?a)
        \<lparr>rv_cache := cache_publish key v (rv_cache (expire_cache now ?a))\<rparr>))" if "Q key v" for v x
      by (rule owned_settle [OF owned_publish_cache [OF owned_expire [OF a(1) c]] cache_step_inv [OF a(2)]])
        (use f that in auto)
    show ?thesis
      using f e b k Q by (auto simp: service_publish_def Let_def split: option.splits sum.splits)
  next
    case False
    then have "service_publish p now key g outcome s = ?a"
      by (auto simp: service_publish_def Let_def split: option.splits)
    then show ?thesis using a by simp
  qed
qed

text \<open>Steps that drop tasks or replace one by itself with another permit.\<close>

lemma owned_jobs:
  assumes "owned Q own s" "\<And>j. j \<in> set js \<Longrightarrow> \<exists>i \<in> set (rv_jobs s). jb_generation i = jb_generation j \<and> jb_key i = jb_key j"
  shows "owned Q own (s\<lparr>rv_jobs := js\<rparr>)"
proof -
  have "own (jb_generation j) = jb_key j" if "j \<in> set js" for j
  proof -
    from assms(2) [OF that] obtain i where i: "i \<in> set (rv_jobs s)" "jb_generation i = jb_generation j" "jb_key i = jb_key j"
      by blast
    have "own (jb_generation i) = jb_key i" using assms(1) i(1) by (auto simp: owned_def)
    then show ?thesis by (simp only: i(2,3))
  qed
  then show ?thesis using assms(1) by (simp add: owned_def)
qed

lemma owned_remove_job: "owned Q own s \<Longrightarrow> owned Q own (s\<lparr>rv_jobs := remove1 j (rv_jobs s)\<rparr>)"
  by (rule owned_jobs) (use set_remove1_subset [of j "rv_jobs s"] in auto)

lemma owned_swap_job:
  assumes "owned Q own s" "j \<in> set (rv_jobs s)" "jb_generation j' = jb_generation j" "jb_key j' = jb_key j"
  shows "owned Q own (s\<lparr>rv_jobs := j' # remove1 j (rv_jobs s)\<rparr>)"
proof (rule owned_jobs [OF assms(1)])
  fix i
  assume "i \<in> set (j' # remove1 j (rv_jobs s))"
  then have "i = j' \<or> i \<in> set (rv_jobs s)" using set_remove1_subset [of j "rv_jobs s"] by auto
  then show "\<exists>i' \<in> set (rv_jobs s). jb_generation i' = jb_generation i \<and> jb_key i' = jb_key i"
    using assms(2-4) by metis
qed

lemma owned_job_finish:
  assumes "owned Q own s" "retrieval_inv s" "\<And>v e. outcome = Ok (v, e) \<Longrightarrow> Q (jb_key j) v"
  shows "owned Q own (job_finish p now j outcome s)"
  using owned_remove_job [OF owned_service_publish [OF assms]] by (simp add: job_finish_def Let_def)

lemma owned_stage: "owned Q own s \<Longrightarrow> owned Q own (set_stage q g st s)"
  by (rule owned_frame [OF _ same_books_stage]) (auto simp: owned_iff)

lemma owned_timeout: "owned Q own s \<Longrightarrow> owned Q own (persistent_timeout k g s)"
  by (rule owned_frame [OF _ same_books_timeout]) (auto simp: owned_iff)

lemma owned_panic: "owned Q own s \<Longrightarrow> owned Q own (note_panic s)"
  by (rule owned_frame [OF _ same_books_panic]) (auto simp: owned_iff)

lemma owned_acquire:
  "owned Q own s \<Longrightarrow> j \<in> set (rv_jobs s) \<Longrightarrow> owned Q own (snd (persistent_acquire p cancelled j query s))"
  using owned_bump owned_stage owned_swap_job [of Q own s j "j\<lparr>jb_permit := True\<rparr>"]
  by (auto simp: persistent_acquire_def split: option.splits)

lemma owned_release: "owned Q own s \<Longrightarrow> j \<in> set (rv_jobs s) \<Longrightarrow> owned Q own (persistent_release j s)"
  using owned_swap_job [of Q own s j "j\<lparr>jb_permit := False\<rparr>"] by (simp add: persistent_release_def)

lemma owned_lookup:
  assumes "owned Q own s" "\<And>v e. found = Some (v, e) \<Longrightarrow> Q key v"
  shows "owned Q own (snd (persistent_after_lookup p now cancelled key g found s))"
proof (cases found)
  case (Some x)
  obtain v epoch where x: "x = (v, epoch)" by (cases x)
  obtain r t where r: "promote_persistent p key g v epoch s = (r, t)"
    by (cases "promote_persistent p key g v epoch s")
  have "owned Q own (snd (promote_persistent p key g v epoch s))"
    using owned_sync [OF assms(1)] owned_publish_cache [OF owned_sync [OF assms(1)]] assms(2) Some x
    by (auto simp: promote_persistent_def Let_def)
  then have "owned Q own t" using r by simp
  then show ?thesis
    using assms(1) owned_bump by (cases r) (auto simp: persistent_after_lookup_def Let_def Some x r)
qed (use assms in \<open>simp add: persistent_after_lookup_def\<close>)

lemma owned_tick:
  "owned Q own s \<Longrightarrow> retrieval_inv s \<Longrightarrow> owned Q own (service_tick p now joined_ok s)"
  by (simp add: service_tick_def Let_def owned_panic owned_expire owned_sync sync_epoch_cache retrieval_inv_def)

lemma owned_health: "owned Q own s \<Longrightarrow> owned Q own (health_tick p s)"
  by (auto simp: health_tick_def owned_panic owned_sync split: option.splits)

lemma owned_shutdown:
  assumes "owned Q own s" "retrieval_inv s"
  shows "owned Q own (shutdown_begin s)"
proof -
  have "fl_generation f \<le> rv_generation s" if "(k, f) \<in> set (rv_flights s)" for k f
  proof -
    have "(k, fl_generation f, fl_waiters f) \<in> set (fview (rv_flights s))"
      using that by (force simp: fview_def)
    then show ?thesis using ledgerD(5) [OF state_ledgerD] assms(2) by (simp add: retrieval_inv_def)
  qed
  then show ?thesis
    using assms(1) contents_clear [of Q "rv_cache s"]
    by (auto simp: shutdown_begin_def owned_def contents_def)
qed

lemma owned_new: "owned Q own (retrieval_new p)"
  by (simp add: retrieval_new_def owned_def cache_lookup_def cache_new_def)

lemma owned_step:
  "retrieval_step Q p s s' \<Longrightarrow> retrieval_inv s \<Longrightarrow> owned Q own s \<Longrightarrow> \<exists>own'. owned Q own' s'"
proof (induction rule: retrieval_step.induct)
  case step_admit
  then show ?case using owned_admit by blast
qed (blast intro: owned_finish owned_drop owned_job_finish owned_remove_job owned_stage owned_lookup
    owned_acquire owned_release owned_timeout owned_tick owned_health owned_shutdown)+

lemma retrieval_reachable_owned: "retrieval_reachable Q durable s \<Longrightarrow> \<exists>own. owned Q own s"
  by (induction rule: retrieval_reachable.induct) (use owned_new owned_step retrieval_reachable_inv in blast)+

section \<open>One task per generation\<close>

definition single_tasks :: "retrieval_state \<Rightarrow> bool" where
  "single_tasks s \<longleftrightarrow> distinct (map jb_generation (rv_jobs s))"

lemma admit_jobs:
  assumes "rv_generation s + 1 < 2 ^ 64"
  shows "rv_jobs (snd (retrieve_admit p t1 t2 t3 reaped_ok source key s)) = rv_jobs s
    \<or> (\<exists>j. rv_jobs (snd (retrieve_admit p t1 t2 t3 reaped_ok source key s)) = j # rv_jobs s
         \<and> jb_generation j = rv_generation s + 1)"
proof -
  let ?x = "expire_cache t1 (sync_epoch p s)"
  obtain cached c where g: "cache_get key (rv_cache ?x) = (cached, c)" by (cases "cache_get key (rv_cache ?x)")
  have x: "rv_jobs ?x = rv_jobs s" "rv_generation ?x = rv_generation s"
    using same_books_trans [OF same_books_sync same_books_expire] by (auto simp: same_books_def)
  have m: "rv_jobs (snd (retrieve_miss p reaped_ok source key u)) = rv_jobs u
    \<or> (\<exists>j. rv_jobs (snd (retrieve_miss p reaped_ok source key u)) = j # rv_jobs u
         \<and> jb_generation j = rv_generation u + 1)" if "rv_generation u = rv_generation s" for u
    using assms that
    by (auto simp: retrieve_miss_def join_flight_def start_flight_def busy_def set_flight_def bump_def
        Let_def wrapping_succ_def split: option.splits)
  show ?thesis
    using m [of "?x\<lparr>rv_cache := c\<rparr>"] x
    by (auto simp: retrieve_admit_def Let_def g split: option.splits)
qed

lemma finish_jobs: "rv_jobs (snd (retrieve_finish p1 p t1 t2 t3 t4 req key outcome s)) = rv_jobs s"
proof -
  let ?x = "expire_cache t1 (sync_epoch p s)"
  obtain cached c where g: "cache_get key (rv_cache ?x) = (cached, c)" by (cases "cache_get key (rv_cache ?x)")
  show ?thesis
    by (auto simp: retrieve_finish_def finish_fresh_def finish_stale_def Let_def g
        split: option.splits sum.splits)
qed

lemma lookup_jobs: "rv_jobs (snd (persistent_after_lookup p now cancelled key g found s)) = rv_jobs s"
  by (auto simp: persistent_after_lookup_def promote_persistent_def Let_def split: option.splits prod.splits sum.splits
      if_splits)

lemma other_jobs:
  "rv_jobs (waiter_drop p key g s) = rv_jobs s" "rv_jobs (set_stage q g st s) = rv_jobs s"
  "rv_jobs (service_tick p now joined_ok s) = rv_jobs s" "rv_jobs (health_tick p s) = rv_jobs s"
  "rv_jobs (shutdown_begin s) = rv_jobs s" "rv_jobs (persistent_timeout k g s) = rv_jobs s"
  by (auto simp: persistent_timeout_def waiter_drop_def set_flight_def remove_flight_def set_stage_def service_tick_def health_tick_def
      note_panic_def shutdown_begin_def Let_def split: option.splits)

lemma distinct_remove1_gen: "distinct (map jb_generation js) \<Longrightarrow> distinct (map jb_generation (remove1 j js))"
  by (induction js) (use notin_set_remove1 in fastforce)+

lemma distinct_swap_gen:
  "distinct (map jb_generation js) \<Longrightarrow> j \<in> set js \<Longrightarrow> jb_generation j' = jb_generation j \<Longrightarrow>
     distinct (map jb_generation (j' # remove1 j js))"
proof (induction js)
  case (Cons i js)
  then show ?case by (cases "i = j") (auto dest: set_remove1_subset [THEN subsetD] intro: rev_image_eqI)
qed simp

lemma acquire_jobs:
  "rv_jobs (snd (persistent_acquire p cancelled j query s)) = rv_jobs s
     \<or> rv_jobs (snd (persistent_acquire p cancelled j query s)) = j\<lparr>jb_permit := True\<rparr> # remove1 j (rv_jobs s)"
  by (auto simp: persistent_acquire_def other_jobs split: option.splits)

lemma admit_single:
  assumes "retrieval_inv s" "single_tasks s" "rv_generation s + 1 < 2 ^ 64"
  shows "single_tasks (snd (retrieve_admit p t1 t2 t3 reaped_ok source key s))"
proof -
  have "rv_generation s + 1 \<notin> jb_generation ` set (rv_jobs s)"
    using ledgerD(8) [OF state_ledgerD] assms(1) by (fastforce simp: retrieval_inv_def)
  then show ?thesis
    using admit_jobs [OF assms(3), of p t1 t2 t3 reaped_ok source key] assms(2)
    by (auto simp: single_tasks_def)
qed

lemma step_single: "retrieval_step Q p s s' \<Longrightarrow> retrieval_inv s \<Longrightarrow> single_tasks s \<Longrightarrow> single_tasks s'"
proof (induction rule: retrieval_step.induct)
  case (step_acquire j s p cancelled query)
  then show ?case
    using acquire_jobs [of p cancelled j query s] distinct_swap_gen [of "rv_jobs s" j "j\<lparr>jb_permit := True\<rparr>"]
    by (auto simp: single_tasks_def)
next
  case (step_release j s p)
  then show ?case
    using distinct_swap_gen [of "rv_jobs s" j "j\<lparr>jb_permit := False\<rparr>"]
    by (simp add: single_tasks_def persistent_release_def)
qed (simp_all add: admit_single, simp_all add: single_tasks_def finish_jobs other_jobs lookup_jobs
    job_finish_def Let_def distinct_remove1_gen)

lemma reachable_single: "retrieval_reachable Q durable s \<Longrightarrow> single_tasks s"
proof (induction rule: retrieval_reachable.induct)
  case (reach_step s p s')
  then show ?case using step_single retrieval_reachable_inv by blast
qed (simp add: single_tasks_def retrieval_new_def)

section \<open>What a validated payload says\<close>

text \<open>The payload answers the query of the key and carries the origin the key names.\<close>

definition payload_for :: "cache_key \<Rightarrow> stored_payload \<Rightarrow> bool" where
  "payload_for key v \<longleftrightarrow>
     answers_query (ck_query key) (sd_data v)
     \<and> pv_provider (sd_provenance v) = ck_provider key
     \<and> pv_dataset (sd_provenance v) = ck_dataset key
     \<and> pv_processor_version (sd_provenance v) = ck_processor_version key"

lemma valid_record_ok: "valid_record r q \<longleftrightarrow> record_ok q r"
  by (auto simp: valid_record_def record_ok_def MAX_STRING_BYTES_def)

lemma records_valid_iff:
  "records_valid ids q rs \<longleftrightarrow>
     list_all (record_ok q) rs \<and> distinct (map r_id rs) \<and> set (map r_id rs) \<inter> set ids = {}"
  by (induction rs arbitrary: ids) (auto simp: valid_record_ok)

lemma payload_matches_answers: "payload_matches d q \<Longrightarrow> answers_query q d"
  by (cases d; cases q) (auto simp: valid_record_ok records_valid_iff)

lemma bounded_writes_Ok:
  "bounded_writes limit ws used = Ok n \<Longrightarrow> used \<le> limit \<Longrightarrow> n = used + sum_list (map length ws) \<and> n \<le> limit"
  by (induction ws arbitrary: used) (fastforce split: if_splits)+

lemma for_source_Ok:
  "for_source source query = Ok key \<longleftrightarrow>
     query_validate query = Ok () \<and> q_source query = src_id source
     \<and> key = \<lparr>ck_provider = src_provider source, ck_dataset = src_dataset source,
                ck_processor_version = src_processor_version source, ck_schema_version = 1,
                ck_query = query\<rparr>"
  by (auto simp: for_source_def result_simps)

lemma service_validate_Ok:
  assumes "service_validate J sha256 now source query payload = Ok v"
  shows "payload_matches (fp_data payload) query" "sd_data v = fp_data payload" "sd_raw v = fp_raw payload"
    "sd_provenance v =
       \<lparr>pv_provider = src_provider source, pv_dataset = src_dataset source,
        pv_source_reference = fp_source_reference payload, pv_payload_sha256 = sha256 (fp_raw payload),
        pv_processor_version = src_processor_version source, pv_retrieved_at = now, pv_validated_at = now\<rparr>"
    "sd_bytes v = length (sd_raw v) + json_size J (sd_data v) + str_len (fp_source_reference payload) + 1024"
    "sd_bytes v \<le> MAX_CACHE_BYTES"
  using assms
  by (auto simp: service_validate_def bounded_size_def json_size_def result_simps MAX_CACHE_BYTES_def
      MAX_RAW_BYTES_def SERVICE_PROCESSED_BYTES_def split: if_splits dest!: bounded_writes_Ok)

lemma refresh_loop_Ok:
  assumes "fst (refresh_loop J sha256 last_instant m generation source query n as c) = Ok v"
  shows "\<exists>a \<in> set as. \<exists>payload. at_reserved a = Ok () \<and> at_rate a = Ok () \<and> \<not> at_cancelled a
    \<and> at_fetched a = Ok payload \<and> \<not> at_cancelled_after a
    \<and> service_validate J sha256 (at_now a) source query payload = Ok v"
  using assms
proof (induction as arbitrary: n c)
  case (Cons a as)
  show ?case
  proof (cases "at_reserved a = Ok () \<and> at_rate a = Ok () \<and> \<not> at_cancelled a \<and> (\<exists>p. at_fetched a = Ok p)")
    case True
    then show ?thesis using Cons.prems by (auto simp: result_simps split: if_splits)
  next
    case False
    then have "\<exists>n' c'. fst (refresh_loop J sha256 last_instant m generation source query n' as c') = Ok v"
      using Cons.prems
      by (auto simp: and_then_def Let_def split: sum.splits if_splits prod.splits)
    then show ?thesis using Cons.IH by auto
  qed
qed simp

section \<open>What callers receive\<close>

lemma usable_age_younger:
  "younger (usable_age p now v) n \<Longrightarrow>
     pv_validated_at (sd_provenance v) \<le> now \<and> now < pv_validated_at (sd_provenance v) + n"
  by (auto simp: younger_def usable_age_def checked_sub_def split: option.splits if_splits)

definition envelope_for :: "source list \<Rightarrow> query \<Rightarrow> envelope \<Rightarrow> bool" where
  "envelope_for sources query env \<longleftrightarrow>
     answers_query query (ev_data env)
     \<and> (\<exists>source \<in> set sources. src_id source = q_source query
          \<and> pv_provider (ev_provenance env) = src_provider source
          \<and> pv_dataset (ev_provenance env) = src_dataset source
          \<and> pv_processor_version (ev_provenance env) = src_processor_version source)"

abbreviation ev_validated :: "envelope \<Rightarrow> nat" where
  "ev_validated env \<equiv> pv_validated_at (ev_provenance env)"

lemma envelope_for_payload:
  assumes "retrieve_key sources cancelled query = Ok (source, key)" "payload_for key v"
  shows "envelope_for sources query (envelope_of t v st)"
proof -
  from assms(1) have "find (\<lambda>s. src_id s = q_source query) sources = Some source"
    and k: "for_source source query = Ok key"
    by (auto simp: retrieve_key_def result_simps split: if_splits)
  then have "source \<in> set sources" "src_id source = q_source query" by (auto simp: find_Some_iff)
  then show ?thesis
    using assms(2) k by (auto simp: envelope_for_def envelope_of_def payload_for_def for_source_Ok)
qed

lemma admit_served:
  assumes o: "owned Q own s" and i: "retrieval_inv s"
    and a: "retrieve_admit p t1 t2 t3 reaped_ok source key s = (Served env, s')"
  shows "\<exists>v. Q key v \<and> env = envelope_of t3 v Fresh \<and> younger (usable_age p t2 v) RETRIEVAL_FRESH_SECONDS"
proof -
  let ?x = "expire_cache t1 (sync_epoch p s)"
  obtain cached c where g: "cache_get key (rv_cache ?x) = (cached, c)" by (cases "cache_get key (rv_cache ?x)")
  have "cache_inv (rv_cache s)" using i by (simp add: retrieval_inv_def)
  note q = owned_read(2) [OF o this g]
  have m: "fst (retrieve_miss p reaped_ok source key u) \<noteq> Served env" for u
    by (auto simp: retrieve_miss_def join_flight_def start_flight_def busy_def Let_def split: option.splits)
  have "\<exists>v. cached = Some v \<and> env = envelope_of t3 v Fresh
      \<and> younger (usable_age p t2 v) RETRIEVAL_FRESH_SECONDS"
    using a m [of "?x\<lparr>rv_cache := c\<rparr>"]
    by (auto simp: retrieve_admit_def Let_def g split: option.splits if_splits)
  then show ?thesis using q by blast
qed

lemma finish_served:
  assumes o: "owned Q own s" and i: "retrieval_inv s"
    and r: "\<And>v e. outcome = Ok (v, e) \<Longrightarrow> Q key v"
    and f: "retrieve_finish p1 p t1 t2 t3 t4 req key outcome s = (Ok env, s')"
  shows "\<exists>v. Q key v \<and> (case outcome of
      Inr _ \<Rightarrow> env = envelope_of t2 v Fresh \<and> younger (usable_age p t1 v) RETRIEVAL_FRESH_SECONDS
    | Inl e \<Rightarrow> is_transient e \<and> req = AllowStale \<and> younger (usable_age p t2 v) (RETENTION_SECONDS + 1)
        \<and> env = envelope_of t4 v
            (if t3 - pv_validated_at (sd_provenance v) < RETRIEVAL_FRESH_SECONDS then Fresh else Stale))"
proof (cases outcome)
  case (Inr x)
  obtain v e where x: "x = (v, e)" by (cases x)
  then show ?thesis
    using f r Inr
    by (auto simp: retrieve_finish_def finish_fresh_def Let_def split: option.splits if_splits)
next
  case (Inl e)
  let ?x = "expire_cache t1 (sync_epoch p s)"
  obtain cached c where g: "cache_get key (rv_cache ?x) = (cached, c)" by (cases "cache_get key (rv_cache ?x)")
  have "cache_inv (rv_cache s)" using i by (simp add: retrieval_inv_def)
  note q = owned_read(2) [OF o this g]
  have s: "finish_stale p t1 t2 t3 t4 key e s = (Ok env, s')" "is_transient e" "req = AllowStale"
    using f Inl by (auto simp: retrieve_finish_def split: option.splits if_splits)
  then have "\<exists>v. cached = Some v \<and> younger (usable_age p t2 v) (RETENTION_SECONDS + 1)
      \<and> env = envelope_of t4 v
            (if t3 - pv_validated_at (sd_provenance v) < RETRIEVAL_FRESH_SECONDS then Fresh else Stale)"
    by (auto simp: finish_stale_def Let_def g split: option.splits if_splits)
  then show ?thesis using q s Inl by auto
qed

lemma polled_owned:
  assumes "owned Q own s" "(key, g) \<in> set (rv_guards s)" "wait_poll c g s = Some (Ok (v, e))"
  shows "Q key v"
proof -
  have "(g, Ok (v, e)) \<in> set (rv_outcomes s)"
    using assms(3) by (auto simp: wait_poll_def split: option.splits if_splits dest: map_of_SomeD)
  then have "Q (own g) v" using assms(1) by (fastforce simp: owned_def)
  moreover have "own g = key" using assms(1,2) by (auto simp: owned_def)
  ultimately show ?thesis by simp
qed

section \<open>Properties\<close>

lemma flights_counted:
  assumes "retrieval_inv s" "\<not> rv_stopping s" "(k, f) \<in> set (rv_flights s)"
  shows "fl_waiters f = count_list (rv_guards s) (k, fl_generation f)"
proof -
  have "(k, fl_generation f, fl_waiters f) \<in> set (fview (rv_flights s))"
    using assms(3) by (force simp: fview_def)
  then have "counted (rv_guards s) (rv_stopping s) (map jb_generation (rv_jobs s)) (k, fl_generation f, fl_waiters f)"
    using ledgerD(6) [OF state_ledgerD] assms(1) by (simp add: retrieval_inv_def)
  then show ?thesis using assms(2) by (simp add: counted_def)
qed

lemma waiters_total:
  assumes "retrieval_inv s" "\<not> rv_stopping s"
  shows "rv_waiters s = sum_list (map (\<lambda>(k, f). fl_waiters f) (rv_flights s))"
proof -
  have "rv_waiters s = guard_sum (rv_guards s) (fview (rv_flights s))"
    using ledgerD(3) [OF state_ledgerD] assms(1) by (simp add: retrieval_inv_def)
  also have "\<dots> = sum_list (map (\<lambda>(k, f). count_list (rv_guards s) (k, fl_generation f)) (rv_flights s))"
    by (simp add: guard_sum_def fview_def comp_def case_prod_unfold)
  also have "\<dots> = sum_list (map (\<lambda>(k, f). fl_waiters f) (rv_flights s))"
    by (rule arg_cong [where f = sum_list], rule map_cong) (use flights_counted [OF assms] in auto)
  finally show ?thesis .
qed

text \<open>
  C5. In every reachable state of the retrieval service, under any interleaving of callers, tasks,
  timers and shutdown: there is at most one flight per key and at most one task per generation,
  at most 32 flights, 64 waiting callers and 16 per flight; the counters of waiting callers are
  exact until the service stops; the subtractions in \<open>Waiter::drop\<close> and in \<open>publish\<close> never underflow;
  the cache stays within its limits, and no provider has more than two permits in use.
\<close>

theorem retrieval_single_flight:
  assumes "retrieval_reachable Q durable s"
  shows "distinct (map fst (rv_flights s)) \<and> distinct (map jb_generation (rv_jobs s))
    \<and> length (rv_flights s) \<le> 32 \<and> rv_waiters s \<le> 64
    \<and> (\<forall>(k, f) \<in> set (rv_flights s). fl_waiters f \<le> 16)
    \<and> (\<not> rv_stopping s \<longrightarrow>
         rv_waiters s = sum_list (map (\<lambda>(k, f). fl_waiters f) (rv_flights s))
         \<and> (\<forall>(k, f) \<in> set (rv_flights s). fl_waiters f = count_list (rv_guards s) (k, fl_generation f)))
    \<and> (\<forall>k g f. (k, g) \<in> set (rv_guards s) \<and> map_of (rv_flights s) k = Some f \<and> fl_generation f = g \<longrightarrow>
         1 \<le> fl_waiters f \<and> 1 \<le> rv_waiters s)
    \<and> (\<forall>j f. j \<in> set (rv_jobs s) \<and> map_of (rv_flights s) (jb_key j) = Some f
         \<and> fl_generation f = jb_generation j \<longrightarrow> fl_waiters f \<le> rv_waiters s)
    \<and> cache_inv (rv_cache s) \<and> (\<forall>provider. permits_used provider s \<le> 2)"
proof -
  have i: "retrieval_inv s" by (rule retrieval_reachable_inv [OF assms])
  note L = state_ledgerD [OF i [unfolded retrieval_inv_def, THEN conjunct1]]
  have "fl_waiters f \<le> 16" if "(k, f) \<in> set (rv_flights s)" for k f
    using ledgerD(5) [OF L, of k "fl_generation f" "fl_waiters f"] that
    by (force simp: fview_def MAX_WAITERS_PER_KEY_def)
  moreover have "length (rv_flights s) \<le> 32" "rv_waiters s \<le> 64" "distinct (map fst (rv_flights s))"
    using ledgerD(1,2,4) [OF L] by (auto simp: MAX_IN_FLIGHT_def MAX_WAITERS_def)
  moreover have "1 \<le> fl_waiters f \<and> 1 \<le> rv_waiters s"
    if "(k, fl_generation f) \<in> set (rv_guards s)" "map_of (rv_flights s) k = Some f" for k f
    using ledger_drop(2,3) [OF L that(1) fview_mem [OF that(2)]] by simp
  moreover have "fl_waiters f \<le> rv_waiters s"
    if "j \<in> set (rv_jobs s)" "map_of (rv_flights s) (jb_key j) = Some f" "fl_generation f = jb_generation j" for j f
    using settle_inv(2) [OF i that(2)] that by simp
  ultimately show ?thesis
    using i reachable_single [OF assms] waiters_total [OF i] flights_counted [OF i]
    by (auto simp: retrieval_inv_def single_tasks_def)
qed

text \<open>The source and the states of a memory-only service that answers one query twice.\<close>

definition sample_source :: source where
  "sample_source =
     \<lparr>src_id = lit ''s'', src_provider = lit ''p'', src_dataset = lit ''d'', src_processor_version = lit ''v1''\<rparr>"

definition sample_waiting :: retrieval_state where
  "sample_waiting = snd (retrieve_admit None 100 100 100 True sample_source sample_key (retrieval_new None))"

definition sample_job :: refresh_job where
  "sample_job = \<lparr>jb_key = sample_key, jb_generation = 1, jb_provider = lit ''p'', jb_permit = True\<rparr>"

definition sample_published :: "stored_payload \<Rightarrow> retrieval_state" where
  "sample_published v = job_finish None 110 sample_job (Ok (v, None)) sample_waiting"

lemma sample_waiting_reachable: "retrieval_reachable Q False sample_waiting"
proof -
  have "retrieval_reachable Q False (retrieval_new None)" by (rule reach_new) simp
  then show ?thesis unfolding sample_waiting_def
    by (rule reach_step) (simp, rule step_admit, simp add: retrieval_new_def)
qed

lemma sample_published_reachable:
  assumes "Q sample_key v"
  shows "retrieval_reachable Q False (sample_published v)"
proof -
  have j: "sample_job \<in> set (rv_jobs sample_waiting)" by code_simp
  have "retrieval_step Q None sample_waiting (sample_published v)"
    unfolding sample_published_def
    by (rule step_publish [OF j]) (use assms in \<open>auto simp: sample_job_def\<close>)
  then show ?thesis using reach_step [OF sample_waiting_reachable] by fastforce
qed

theorem retrieval_single_flight_witness:
  "length (rv_flights sample_waiting) = 1 \<and> rv_waiters sample_waiting = 1
   \<and> rv_waiters sample_waiting = sum_list (map (\<lambda>(k, f). fl_waiters f) (rv_flights sample_waiting))"
proof -
  have "\<not> rv_stopping sample_waiting" "length (rv_flights sample_waiting) = 1" "rv_waiters sample_waiting = 1"
    by code_simp+
  then show ?thesis using retrieval_single_flight [OF sample_waiting_reachable] by blast
qed

text \<open>
  What callers of \<open>retrieve\<close> receive, when the payloads of the tasks satisfy \<open>Q\<close> and \<open>Q\<close> makes them fit
  their key.
\<close>

lemma served_envelopes:
  assumes s: "retrieval_reachable Q durable s" and s2: "retrieval_reachable Q durable s2"
    and Q: "\<And>key v. Q key v \<Longrightarrow> payload_for key v"
    and k: "retrieve_key sources cancelled query = Ok (source, key)"
  shows "(\<forall>env s'. retrieve_admit p t1 t2 t3 reaped_ok source key s = (Served env, s') \<longrightarrow>
           envelope_for sources query env \<and> fs_state (ev_freshness env) = Fresh
           \<and> ev_validated env \<le> t2 \<and> t2 < ev_validated env + 60)
    \<and> (\<forall>g r env s'. (key, g) \<in> set (rv_guards s) \<and> wait_poll c g s = Some r
           \<and> retrieve_finish p1 p2 t1 t2 t3 t4 requirement key r s2 = (Ok env, s') \<longrightarrow>
         envelope_for sources query env
         \<and> (case r of
              Inr _ \<Rightarrow> fs_state (ev_freshness env) = Fresh
                \<and> ev_validated env \<le> t1 \<and> t1 < ev_validated env + 60
            | Inl e \<Rightarrow> is_transient e \<and> requirement = AllowStale
                \<and> ev_validated env \<le> t2 \<and> t2 \<le> ev_validated env + 300
                \<and> (fs_state (ev_freshness env) = Fresh \<longleftrightarrow> t3 < ev_validated env + 60)))"
    (is "?admit \<and> ?finish")
proof
  obtain own where o: "owned Q own s" using retrieval_reachable_owned [OF s] by blast
  obtain own2 where o2: "owned Q own2 s2" using retrieval_reachable_owned [OF s2] by blast
  note i = retrieval_reachable_inv [OF s] and i2 = retrieval_reachable_inv [OF s2]
  note e = envelope_for_payload [OF k Q] and y = usable_age_younger
  show ?admit
  proof (intro allI impI)
    fix env s'
    assume "retrieve_admit p t1 t2 t3 reaped_ok source key s = (Served env, s')"
    from admit_served [OF o i this] obtain v where v: "Q key v" "env = envelope_of t3 v Fresh"
      "younger (usable_age p t2 v) RETRIEVAL_FRESH_SECONDS" by blast
    show "envelope_for sources query env \<and> fs_state (ev_freshness env) = Fresh
           \<and> ev_validated env \<le> t2 \<and> t2 < ev_validated env + 60"
      using e [OF v(1)] y [OF v(3)] by (simp add: v(2) envelope_of_def RETRIEVAL_FRESH_SECONDS_def)
  qed
  show ?finish
  proof (intro allI impI)
    fix g r env s'
    assume a: "(key, g) \<in> set (rv_guards s) \<and> wait_poll c g s = Some r
           \<and> retrieve_finish p1 p2 t1 t2 t3 t4 requirement key r s2 = (Ok env, s')"
    have q: "Q key v" if "r = Ok (v, x)" for v x
      using polled_owned [OF o, of key g c v x] a that by simp
    obtain v where v: "Q key v" and c: "case r of
        Inr _ \<Rightarrow> env = envelope_of t2 v Fresh \<and> younger (usable_age p2 t1 v) RETRIEVAL_FRESH_SECONDS
      | Inl e \<Rightarrow> is_transient e \<and> requirement = AllowStale
          \<and> younger (usable_age p2 t2 v) (RETENTION_SECONDS + 1)
          \<and> env = envelope_of t4 v
              (if t3 - pv_validated_at (sd_provenance v) < RETRIEVAL_FRESH_SECONDS then Fresh else Stale)"
      using finish_served [OF o2 i2, of r key p1 p2 t1 t2 t3 t4 requirement env s'] q a by blast
    have "envelope_for sources query env" using c e [OF v] by (cases r) auto
    moreover have "case r of
              Inr _ \<Rightarrow> fs_state (ev_freshness env) = Fresh
                \<and> ev_validated env \<le> t1 \<and> t1 < ev_validated env + 60
            | Inl e \<Rightarrow> is_transient e \<and> requirement = AllowStale
                \<and> ev_validated env \<le> t2 \<and> t2 \<le> ev_validated env + 300
                \<and> (fs_state (ev_freshness env) = Fresh \<longleftrightarrow> t3 < ev_validated env + 60)"
      using c y by (cases r) (auto simp: envelope_of_def RETRIEVAL_FRESH_SECONDS_def RETENTION_SECONDS_def dest!: y)
    ultimately show "envelope_for sources query env \<and> (case r of
              Inr _ \<Rightarrow> fs_state (ev_freshness env) = Fresh
                \<and> ev_validated env \<le> t1 \<and> t1 < ev_validated env + 60
            | Inl e \<Rightarrow> is_transient e \<and> requirement = AllowStale
                \<and> ev_validated env \<le> t2 \<and> t2 \<le> ev_validated env + 300
                \<and> (fs_state (ev_freshness env) = Fresh \<longleftrightarrow> t3 < ev_validated env + 60))" ..
  qed
qed

lemma refresh_fetched:
  assumes "fst (refresh J sha256 last_instant policy generation source query attempts c) = Ok v"
  obtains a payload where "a \<in> set (take (rp_max_attempts policy) attempts)"
    "at_reserved a = Ok ()" "at_rate a = Ok ()" "\<not> at_cancelled a" "at_fetched a = Ok payload"
    "\<not> at_cancelled_after a" "service_validate J sha256 (at_now a) source query payload = Ok v"
  using refresh_loop_Ok [OF assms [unfolded refresh_def]] by blast

lemma service_validate_fits:
  assumes "service_validate J sha256 now source query payload = Ok v" "for_source source query = Ok key"
  shows "payload_for key v"
  using service_validate_Ok(2,4) [OF assms(1)] payload_matches_answers [OF service_validate_Ok(1) [OF assms(1)]] assms(2)
  by (auto simp: payload_for_def for_source_Ok)

text \<open>
  C24. A payload that \<open>refresh\<close> returns was fetched in one of the attempts the policy allows, after
  the daily reservation and the rate limiter admitted the attempt and with no cancellation around
  the call.  It fits the cache key of the query, its provenance holds the digest of the raw bytes
  and one timestamp, its accounted size is exact and within what the cache accepts.
\<close>

theorem refresh_validated:
  assumes "fst (refresh J sha256 last_instant policy generation source query attempts c) = Ok v"
    and "for_source source query = Ok key"
  shows "payload_for key v
    \<and> (\<exists>a \<in> set (take (rp_max_attempts policy) attempts). \<exists>payload.
         at_reserved a = Ok () \<and> at_rate a = Ok () \<and> \<not> at_cancelled a \<and> \<not> at_cancelled_after a
         \<and> at_fetched a = Ok payload \<and> sd_raw v = fp_raw payload \<and> sd_data v = fp_data payload
         \<and> pv_payload_sha256 (sd_provenance v) = sha256 (sd_raw v)
         \<and> pv_retrieved_at (sd_provenance v) = at_now a \<and> pv_validated_at (sd_provenance v) = at_now a
         \<and> sd_bytes v = length (sd_raw v) + json_size J (sd_data v)
             + str_len (pv_source_reference (sd_provenance v)) + 1024
         \<and> sd_bytes v \<le> MAX_CACHE_BYTES)"
proof -
  obtain a payload where a: "a \<in> set (take (rp_max_attempts policy) attempts)"
    "at_reserved a = Ok ()" "at_rate a = Ok ()" "\<not> at_cancelled a" "at_fetched a = Ok payload"
    "\<not> at_cancelled_after a" and v: "service_validate J sha256 (at_now a) source query payload = Ok v"
    by (rule refresh_fetched [OF assms(1)])
  note d = service_validate_Ok [OF v]
  have "payload_for key v" by (rule service_validate_fits [OF v assms(2)])
  moreover have "pv_payload_sha256 (sd_provenance v) = sha256 (sd_raw v)
      \<and> pv_retrieved_at (sd_provenance v) = at_now a \<and> pv_validated_at (sd_provenance v) = at_now a
      \<and> sd_bytes v = length (sd_raw v) + json_size J (sd_data v)
          + str_len (pv_source_reference (sd_provenance v)) + 1024"
    using d by simp
  ultimately show ?thesis using a d(2,3,6) by blast
qed

text \<open>A first attempt that times out and a second one that brings the record.\<close>

definition sample_attempts :: "attempt list" where
  "sample_attempts =
     [\<lparr>at_reserved = Ok (), at_rate = Ok (), at_cancelled = False, at_fetched = Err REUnavailable,
       at_cancelled_after = False, at_instant = 10, at_now = 100\<rparr>,
      \<lparr>at_reserved = Ok (), at_rate = Ok (), at_cancelled = False,
       at_fetched = Ok \<lparr>fp_raw = [1, 2, 3], fp_data = sd_data sample_payload,
         fp_source_reference = lit ''r''\<rparr>,
       at_cancelled_after = False, at_instant = 12, at_now = 101\<rparr>]"

definition sample_refresh :: "(stored_payload, retrieval_error) result" where
  "sample_refresh =
     fst (refresh sample_serde (\<lambda>bytes. lit ''digest'') 1000000 request_policy_default 7 sample_source
       (Get (lit ''s'') (lit ''1'')) sample_attempts \<lparr>cd_until = None, cd_paused = None\<rparr>)"

theorem refresh_validated_witness:
  "\<exists>v. sample_refresh = Ok v \<and> payload_for sample_key v \<and> pv_validated_at (sd_provenance v) = 101"
proof -
  obtain v where v: "sample_refresh = Ok v" "pv_validated_at (sd_provenance v) = 101"
  proof -
    have "(case sample_refresh of Inl _ \<Rightarrow> False | Inr v \<Rightarrow> pv_validated_at (sd_provenance v) = 101)"
      by code_simp
    then show ?thesis using that by (auto split: sum.splits)
  qed
  have "for_source sample_source (Get (lit ''s'') (lit ''1'')) = Ok sample_key" by code_simp
  from refresh_validated [OF v(1) [unfolded sample_refresh_def] this] v show ?thesis by blast
qed

end
