(* ===== verification/Utf8.thy ===== *)
theory Utf8
  imports Rust_Text
begin

text \<open>
  The UTF-8 bytes of a string: \<open>utf8\<close> is \<open>str::as_bytes\<close>, \<open>utf8_decode\<close> reads well-formed bytes back.
\<close>

section \<open>Encoding\<close>

definition utf8_char :: "rchar \<Rightarrow> nat list" where
  "utf8_char c =
     (if c < 0x80 then [c]
      else if c < 0x800 then [0xC0 + c div 64, 0x80 + c mod 64]
      else if c < 0x10000 then [0xE0 + c div 64 div 64, 0x80 + c div 64 mod 64, 0x80 + c mod 64]
      else [0xF0 + c div 64 div 64 div 64, 0x80 + c div 64 div 64 mod 64, 0x80 + c div 64 mod 64,
            0x80 + c mod 64])"

definition utf8 :: "rstr \<Rightarrow> nat list" where
  "utf8 s = concat (map utf8_char s)"

text \<open>Continuation bytes carry six bits; the lead byte tells how many follow.\<close>

fun utf8_decode :: "nat list \<Rightarrow> rstr option" where
  "utf8_decode [] = Some []"
| "utf8_decode (a # bs) =
     (if a < 0x80 then map_option (Cons a) (utf8_decode bs)
      else if a < 0xE0 then
        (case bs of
           b # cs \<Rightarrow> map_option (Cons ((a - 0xC0) * 64 + (b - 0x80))) (utf8_decode cs)
         | _ \<Rightarrow> None)
      else if a < 0xF0 then
        (case bs of
           b # c # cs \<Rightarrow>
             map_option (Cons (((a - 0xE0) * 64 + (b - 0x80)) * 64 + (c - 0x80))) (utf8_decode cs)
         | _ \<Rightarrow> None)
      else
        (case bs of
           b # c # d # cs \<Rightarrow>
             map_option (Cons ((((a - 0xF0) * 64 + (b - 0x80)) * 64 + (c - 0x80)) * 64 + (d - 0x80)))
               (utf8_decode cs)
         | _ \<Rightarrow> None))"

section \<open>Lemmas\<close>

lemma base64_inj: "c div 64 = d div 64 \<Longrightarrow> c mod 64 = d mod 64 \<Longrightarrow> c = d" for c d :: nat
  by (metis div_mult_mod_eq)

lemma utf8_char_length: "length (utf8_char c) = len_utf8 c"
  by (simp add: utf8_char_def len_utf8_def)

lemma utf8_char_lead:
  assumes "c < 0x110000"
  shows "len_utf8 c = (let b = hd (utf8_char c) in
    if b < 0x80 then 1 else if b < 0xE0 then 2 else if b < 0xF0 then 3 else 4)"
proof -
  have "c div 64 < 0x20" if "c < 0x800" using that by (simp add: less_mult_imp_div_less)
  moreover have "c div 64 div 64 < 0x10" if "c < 0x10000" using that by (simp add: less_mult_imp_div_less)
  ultimately show ?thesis by (auto simp: utf8_char_def len_utf8_def Let_def)
qed

lemma utf8_char_append:
  assumes "utf8_char c @ x = utf8_char d @ y" "c < 0x110000" "d < 0x110000"
  shows "c = d \<and> x = y"
proof -
  have "utf8_char c \<noteq> []" "utf8_char d \<noteq> []" by (auto simp: utf8_char_def)
  then have "hd (utf8_char c) = hd (utf8_char d)" using assms(1) by (metis hd_append2)
  then have l: "len_utf8 c = len_utf8 d" using utf8_char_lead assms(2,3) by presburger
  then have e: "utf8_char c = utf8_char d" "x = y"
    using assms(1) by (simp_all add: utf8_char_length append_eq_append_conv)
  have "c = d"
    using e(1) l by (auto simp: utf8_char_def len_utf8_def split: if_splits intro: base64_inj)
  then show ?thesis using e(2) by simp
qed

lemma utf8_length: "length (utf8 s) = str_len s"
  by (induction s) (auto simp: utf8_def utf8_char_length)

lemma scalar_bound: "scalar c \<Longrightarrow> c < 0x110000"
  by (auto simp: scalar_def)

lemma utf8_inj: "utf8 s = utf8 t \<Longrightarrow> list_all scalar s \<Longrightarrow> list_all scalar t \<Longrightarrow> s = t"
proof (induction s arbitrary: t)
  case Nil
  then show ?case by (cases t) (auto simp: utf8_def utf8_char_def split: if_splits)
next
  case (Cons c s)
  then obtain d t' where t: "t = d # t'" by (cases t) (auto simp: utf8_def utf8_char_def split: if_splits)
  have "utf8_char c @ utf8 s = utf8_char d @ utf8 t'" using Cons.prems(1) t by (simp add: utf8_def)
  then have "c = d \<and> utf8 s = utf8 t'"
    by (rule utf8_char_append) (use Cons.prems t scalar_bound in auto)
  then show ?case using Cons.IH [of t'] Cons.prems t by simp
qed

text \<open>Strings as the sources have them: Unicode scalar values, of a length a \<open>usize\<close> holds.\<close>

definition rust_string :: "rstr \<Rightarrow> bool" where
  "rust_string s \<longleftrightarrow> list_all scalar s \<and> str_len s < 2 ^ 64"

lemma utf8_decode_char:
  assumes "c < 0x110000"
  shows "utf8_decode (utf8_char c @ bs) = map_option (Cons c) (utf8_decode bs)"
proof -
  have d: "n div 64 * 64 + n mod 64 = n" for n :: nat by simp
  have e: "4096 * (c div 64 div 64) + c div 64 mod 64 * 64 + c mod 64 = c"
    using d [of c] d [of "c div 64"] by linarith
  have "c div 64 < 0x20" if "c < 0x800" using that by (simp add: less_mult_imp_div_less)
  moreover have "c div 64 div 64 < 0x10" if "c < 0x10000" using that by (simp add: less_mult_imp_div_less)
  ultimately show ?thesis by (auto simp: utf8_char_def d e)
qed

lemma utf8_decode_utf8: "list_all scalar s \<Longrightarrow> utf8_decode (utf8 s) = Some s"
proof (induction s)
  case (Cons c s)
  then have "c < 0x110000" using scalar_bound by simp
  then show ?case using Cons utf8_decode_char [of c "utf8 s"] by (simp add: utf8_def)
qed (simp add: utf8_def)

end
