(* ===== verification/Payload_Identity.thy ===== *)
theory Payload_Identity
  imports Retrieval_Properties Utf8
begin

text \<open>
  Durable identities: \<open>HistoryKey\<close> and \<open>PersistentKey\<close> of \<open>crates/application/src/persistence.rs\<close>, the
  versioned encodings and the revalidation of \<open>persistence/identity.rs\<close>, and the snapshot reads of
  \<open>service/persistent.rs\<close>.

  \<open>be_bytes\<close> is \<open>to_be_bytes\<close>.  \<open>sha256\<close> is a parameter; the bytes that
  \<open>serde_json\<close> writes are the parameter \<open>serde_json\<close> of the payload processors.  The length-delimited
  fields make the encodings injective, so two identities have the same encoding only when they are
  the same identity.
\<close>

section \<open>Bytes\<close>

primrec be_bytes :: "nat \<Rightarrow> nat \<Rightarrow> nat list" where
  "be_bytes 0 n = []"
| "be_bytes (Suc w) n = be_bytes w (n div 256) @ [n mod 256]"

section \<open>Identities\<close>

record history_key =
  hk_namespace :: rstr
  hk_provider :: rstr
  hk_dataset :: rstr
  hk_query :: query

record persistent_key =
  pk_history :: history_key
  pk_processor_version :: rstr
  pk_schema_version :: nat

definition id_field :: "rstr \<Rightarrow> nat list" where
  "id_field text = be_bytes 8 (str_len text) @ utf8 text"

definition query_identity :: "query \<Rightarrow> nat list" where
  "query_identity query =
     (case query of
        Get _ i \<Rightarrow> 0 # id_field i
      | Search _ text page page_size \<Rightarrow>
          1 # id_field text @ be_bytes 4 page @ be_bytes 4 page_size)"

definition canonical_identity :: "history_key \<Rightarrow> (nat list, retrieval_error) result" where
  "canonical_identity key =
     and_then (query_validate (hk_query key)) (\<lambda>_.
       if \<not> valid_identifier (hk_namespace key) 128 \<or> \<not> valid_identifier (hk_provider key) 64
          \<or> \<not> valid_identifier (hk_dataset key) 64
       then Err REInvalidInput
       else
         Ok (lit ''openlegal-query-identity-v1'' @ [0] @ id_field (hk_namespace key)
             @ id_field (hk_provider key) @ id_field (hk_dataset key)
             @ id_field (q_source (hk_query key)) @ query_identity (hk_query key)))"

definition identity_digest ::
  "(nat list \<Rightarrow> nat list) \<Rightarrow> history_key \<Rightarrow> (nat list, retrieval_error) result" where
  "identity_digest sha256 key = and_then (canonical_identity key) (\<lambda>bytes. Ok (sha256 bytes))"

definition digest_hex :: "(nat list \<Rightarrow> nat list) \<Rightarrow> nat list \<Rightarrow> rstr" where
  "digest_hex sha256 bytes = hex_string (sha256 bytes)"

text \<open>\<open>Bounded\<close>: the buffer refuses the write that would pass the limit.\<close>

primrec processed_writes :: "nat list list \<Rightarrow> nat list \<Rightarrow> (nat list, retrieval_error) result" where
  "processed_writes [] buffer = Ok buffer"
| "processed_writes (w # ws) buffer =
     (if SERVICE_PROCESSED_BYTES - length buffer < length w then Err REResourceLimit
      else processed_writes ws (buffer @ w))"

definition processed_bytes :: "serde_json \<Rightarrow> retrieval_data \<Rightarrow> (nat list, retrieval_error) result" where
  "processed_bytes J d = processed_writes (to_writes J d) []"

definition processed_digest ::
  "serde_json \<Rightarrow> (nat list \<Rightarrow> nat list) \<Rightarrow> retrieval_data \<Rightarrow> (nat list, retrieval_error) result" where
  "processed_digest J sha256 d = and_then (processed_bytes J d) (\<lambda>bytes. Ok (sha256 bytes))"

section \<open>Revalidation\<close>

definition retained_record :: "persistent_key \<Rightarrow> law_record \<Rightarrow> bool" where
  "retained_record key r \<longleftrightarrow>
     r_source r = q_source (hk_query (pk_history key)) \<and> valid_identifier (r_id r) 128
     \<and> r_synthetic r \<and> r_title r \<noteq> [] \<and> str_len (r_title r) \<le> 1024 \<and> str_len (r_body r) \<le> 16 * 1024"

primrec retained_records :: "persistent_key \<Rightarrow> rstr list \<Rightarrow> law_record list \<Rightarrow> bool" where
  "retained_records key ids [] = True"
| "retained_records key ids (r # rs) =
     (retained_record key r \<and> r_id r \<notin> set ids \<and> retained_records key (r_id r # ids) rs)"

definition retained_data :: "persistent_key \<Rightarrow> retrieval_data \<Rightarrow> bool" where
  "retained_data key d =
     (case (hk_query (pk_history key), d) of
        (Get _ i, RDGet r) \<Rightarrow> r_id r = i \<and> retained_record key r
      | (Search _ _ page page_size, RDSearch p) \<Rightarrow>
          sp_page p = page \<and> sp_page_size p = page_size \<and> sp_total p \<le> 20000
          \<and> length (sp_records p) = min page_size (sp_total p - page * page_size)
          \<and> retained_records key [] (sp_records p)
      | _ \<Rightarrow> False)"

definition retained_evidence ::
  "(nat list \<Rightarrow> nat list) \<Rightarrow> persistent_key \<Rightarrow> stored_payload \<Rightarrow> bool" where
  "retained_evidence sha256 key v \<longleftrightarrow>
     (let pv = sd_provenance v in
      \<not> (pk_schema_version key \<noteq> 1 \<or> pk_processor_version key = []
         \<or> 128 < str_len (pk_processor_version key)
         \<or> pv_provider pv \<noteq> hk_provider (pk_history key)
         \<or> pv_dataset pv \<noteq> hk_dataset (pk_history key)
         \<or> pv_processor_version pv \<noteq> pk_processor_version key
         \<or> MAX_RAW_BYTES < length (sd_raw v)
         \<or> pv_payload_sha256 pv \<noteq> digest_hex sha256 (sd_raw v)
         \<or> pv_source_reference pv = [] \<or> 2048 < str_len (pv_source_reference pv)
         \<or> list_ex (\<lambda>c. c = 63 \<or> c = 35 \<or> c = 64) (pv_source_reference pv)
         \<or> list_ex is_control (pv_source_reference pv)
         \<or> (case sd_snapshot v of None \<Rightarrow> False | Some sn \<Rightarrow> \<not> valid_snapshot_id (sn_snapshot_id sn))))"

definition validate_payload ::
  "serde_json \<Rightarrow> (nat list \<Rightarrow> nat list) \<Rightarrow> persistent_key \<Rightarrow> stored_payload \<Rightarrow>
     (unit, retrieval_error) result" where
  "validate_payload J sha256 key v =
     (case canonical_identity (pk_history key) of
        Inl _ \<Rightarrow> Err REStorageCorrupt
      | Inr _ \<Rightarrow>
          if \<not> retained_evidence sha256 key v then Err REStorageCorrupt
          else if \<not> retained_data key (sd_data v) then Err REStorageCorrupt
          else
            (case processed_bytes J (sd_data v) of
               Inl _ \<Rightarrow> Err REStorageCorrupt
             | Inr _ \<Rightarrow> Ok ()))"

text \<open>The bytes behind \<open>immutable_payload_digest\<close>.\<close>

definition capture_bytes ::
  "(nat list \<Rightarrow> nat list) \<Rightarrow> nat list \<Rightarrow> nat list \<Rightarrow> persistent_key \<Rightarrow> stored_payload \<Rightarrow> nat list" where
  "capture_bytes sha256 identity processed key v =
     lit ''openlegal-capture-integrity-v1'' @ [0] @ identity @ id_field (pk_processor_version key)
     @ be_bytes 4 (pk_schema_version key) @ processed @ sha256 (sd_raw v)
     @ be_bytes 8 (length (sd_raw v)) @ id_field (pv_source_reference (sd_provenance v))
     @ be_bytes 8 (pv_retrieved_at (sd_provenance v)) @ be_bytes 8 (pv_validated_at (sd_provenance v))
     @ (case sd_snapshot v of
          Some sn \<Rightarrow> 1 # id_field (sn_snapshot_id sn) @ be_bytes 8 (sn_captured_at sn)
        | None \<Rightarrow> [0])"

definition immutable_payload_digest ::
  "serde_json \<Rightarrow> (nat list \<Rightarrow> nat list) \<Rightarrow> persistent_key \<Rightarrow> stored_payload \<Rightarrow>
     (nat list, retrieval_error) result" where
  "immutable_payload_digest J sha256 key v =
     and_then (validate_payload J sha256 key v) (\<lambda>_.
     and_then (canonical_identity (pk_history key)) (\<lambda>identity.
     and_then (processed_digest J sha256 (sd_data v)) (\<lambda>processed.
       Ok (sha256 (capture_bytes sha256 identity processed key v)))))"

section \<open>Snapshot reads\<close>

record snapshot_page =
  sg_snapshots :: "snapshot_summary list"
  sg_next_cursor :: "rstr option"
  sg_synthetic :: bool

definition persistent_key_of :: "rstr \<Rightarrow> cache_key \<Rightarrow> persistent_key" where
  "persistent_key_of namespace key =
     \<lparr>pk_history =
        \<lparr>hk_namespace = namespace, hk_provider = ck_provider key, hk_dataset = ck_dataset key,
         hk_query = ck_query key\<rparr>,
      pk_processor_version = ck_processor_version key, pk_schema_version = ck_schema_version key\<rparr>"

definition history_key_of ::
  "source list \<Rightarrow> rstr \<Rightarrow> bool \<Rightarrow> persistence \<Rightarrow> query \<Rightarrow> (history_key, retrieval_error) result" where
  "history_key_of sources namespace shut p query =
     and_then (query_validate query) (\<lambda>_.
       if shut then Err REShutdown
       else
         (case storage_error p of
            Some e \<Rightarrow> Err e
          | None \<Rightarrow>
              and_then (ok_or (find (\<lambda>s. src_id s = q_source query) sources) REUnknownSource) (\<lambda>source.
              and_then (for_source source query) (\<lambda>key.
                Ok (pk_history (persistent_key_of namespace key))))))"

text \<open>
  What a snapshot read observes of the world: the store's status before the call, when it is made
  and after it (absent without a durable store), the caller's token and the clock.
\<close>

record read_context =
  rc_shutdown :: bool
  rc_views :: "(storage_view \<times> storage_view \<times> storage_view) option"
  rc_cancelled :: bool
  rc_cancelled_after :: bool
  rc_called_at :: nat
  rc_now :: nat

definition rc_before :: "read_context \<Rightarrow> persistence" where
  "rc_before x = map_option fst (rc_views x)"

text \<open>From the answer of the store to the answer of the service, common to both reads.\<close>

definition read_settled ::
  "read_context \<Rightarrow> storage_view \<Rightarrow> storage_view \<Rightarrow> ('a, retrieval_error) result \<Rightarrow>
     ('a, retrieval_error) result" where
  "read_settled x w w' r =
     (case storage_error (Some w') of
        Some e \<Rightarrow> Err e
      | None \<Rightarrow>
          if sw_epoch w' \<noteq> sw_epoch w then Err REBusy
          else if rc_cancelled_after x then Err RECancelled
          else r)"

definition list_snapshots ::
  "source list \<Rightarrow> rstr \<Rightarrow>
     (history_key \<Rightarrow> rstr option \<Rightarrow> nat \<Rightarrow> nat \<Rightarrow> (snapshot_page, retrieval_error) result) \<Rightarrow>
     read_context \<Rightarrow> query \<Rightarrow> rstr option \<Rightarrow> nat \<Rightarrow> (snapshot_page, retrieval_error) result" where
  "list_snapshots sources namespace store_list x query cursor limit =
     (if \<not> (1 \<le> limit \<and> limit \<le> 20) \<or> (case cursor of None \<Rightarrow> False | Some c \<Rightarrow> 256 < str_len c)
      then Err REInvalidInput
      else
        and_then (history_key_of sources namespace (rc_shutdown x) (rc_before x) query) (\<lambda>key.
          (case rc_views x of
             None \<Rightarrow> Err RESnapshotUnavailable
           | Some (_, w, w') \<Rightarrow>
               if rc_cancelled x then Err RECancelled
               else
                 and_then (read_settled x w w' (store_list key cursor limit (rc_called_at x))) (\<lambda>page.
                   if list_ex (\<lambda>s. \<not> retains (sw_policy w') (ss_captured_at s) (rc_now x))
                        (sg_snapshots page)
                   then Err REBusy else Ok page))))"

definition get_snapshot ::
  "source list \<Rightarrow> rstr \<Rightarrow>
     (history_key \<Rightarrow> rstr \<Rightarrow> nat \<Rightarrow> (snapshot_envelope, retrieval_error) result) \<Rightarrow>
     read_context \<Rightarrow> query \<Rightarrow> rstr \<Rightarrow> (snapshot_envelope, retrieval_error) result" where
  "get_snapshot sources namespace store_get x query i =
     (if \<not> valid_snapshot_id i then Err REInvalidInput
      else
        and_then (history_key_of sources namespace (rc_shutdown x) (rc_before x) query) (\<lambda>key.
          (case rc_views x of
             None \<Rightarrow> Err RESnapshotUnavailable
           | Some (_, w, w') \<Rightarrow>
               if rc_cancelled x then Err RECancelled
               else
                 and_then (read_settled x w w' (store_get key i (rc_called_at x))) (\<lambda>snapshot.
                   if \<not> retains (sw_policy w') (ss_captured_at (se_snapshot snapshot)) (rc_now x)
                   then Err RESnapshotUnavailable
                   else
                     Ok (snapshot\<lparr>se_clock_anomaly :=
                           se_clock_anomaly snapshot \<or> rc_now x < ss_captured_at (se_snapshot snapshot)
                           \<or> rc_now x < pv_retrieved_at (se_provenance snapshot)
                           \<or> rc_now x < pv_validated_at (se_provenance snapshot)\<rparr>)))))"

section \<open>Encodings are injective\<close>

lemma be_bytes_length [simp]: "length (be_bytes w n) = w"
  by (induction w arbitrary: n) auto

lemma be_bytes_inj: "be_bytes w m = be_bytes w n \<Longrightarrow> m < 256 ^ w \<Longrightarrow> n < 256 ^ w \<Longrightarrow> m = n"
proof (induction w arbitrary: m n)
  case (Suc w)
  have "m div 256 = n div 256"
    by (rule Suc.IH) (use Suc.prems in \<open>auto simp: less_mult_imp_div_less mult.commute\<close>)
  moreover have "m mod 256 = n mod 256" using Suc.prems by simp
  ultimately show ?case by (metis div_mult_mod_eq)
qed simp

lemma be_bytes_append:
  assumes "be_bytes w m @ x = be_bytes w n @ y" "m < 256 ^ w" "n < 256 ^ w"
  shows "m = n \<and> x = y"
  using assms be_bytes_inj [of w m n] by simp

lemma id_field_append:
  assumes "id_field s @ x = id_field t @ y" "rust_string s" "rust_string t"
  shows "s = t \<and> x = y"
proof -
  have "be_bytes 8 (str_len s) @ utf8 s @ x = be_bytes 8 (str_len t) @ utf8 t @ y"
    using assms(1) by (simp add: id_field_def)
  then have l: "str_len s = str_len t \<and> utf8 s @ x = utf8 t @ y"
    by (rule be_bytes_append) (use assms(2,3) in \<open>auto simp: rust_string_def\<close>)
  then have "utf8 s = utf8 t \<and> x = y"
    using append_eq_append_conv [of "utf8 s" "utf8 t" x y] by (simp add: utf8_length)
  then show ?thesis using utf8_inj assms(2,3) by (simp add: rust_string_def)
qed

lemma identifier_rust_string: "valid_identifier s n \<Longrightarrow> n < 2 ^ 64 \<Longrightarrow> rust_string s"
  using identifier_ascii by (fastforce simp: valid_identifier_def rust_string_def list_all_iff scalar_def)

text \<open>The text of a search is a Rust string; every other text of an identity is an identifier.\<close>

definition rust_query :: "query \<Rightarrow> bool" where
  "rust_query q = (case q of Search _ text _ _ \<Rightarrow> list_all scalar text | Get _ _ \<Rightarrow> True)"

lemma query_identity_append:
  assumes "query_identity q @ x = query_identity r @ y" "q_source q = q_source r"
    and "query_validate q = Ok ()" "query_validate r = Ok ()" "rust_query q" "rust_query r"
  shows "q = r \<and> x = y"
proof (cases q)
  case q: (Search s t page per)
  then obtain s' t' page' per' where r: "r = Search s' t' page' per'"
    using assms(1) by (cases r) (auto simp: query_identity_def)
  have h: "rust_string t" "rust_string t'" "page < 256 ^ 4" "per < 256 ^ 4" "page' < 256 ^ 4" "per' < 256 ^ 4"
    using assms(3-6) q r by (auto simp: rust_query_def rust_string_def result_simps split: if_splits)
  have "id_field t @ be_bytes 4 page @ be_bytes 4 per @ x = id_field t' @ be_bytes 4 page' @ be_bytes 4 per' @ y"
    using assms(1) q r by (simp add: query_identity_def)
  from id_field_append [OF this h(1,2)] have a: "t = t'"
    "be_bytes 4 page @ be_bytes 4 per @ x = be_bytes 4 page' @ be_bytes 4 per' @ y" by auto
  from be_bytes_append [OF a(2) h(3,5)] have b: "page = page'" "be_bytes 4 per @ x = be_bytes 4 per' @ y" by auto
  from be_bytes_append [OF b(2) h(4,6)] show ?thesis using a b q r assms(2) by simp
next
  case q: (Get s i)
  then obtain s' i' where r: "r = Get s' i'" using assms(1) by (cases r) (auto simp: query_identity_def)
  have "rust_string i" "rust_string i'"
    using assms(3,4) q r identifier_rust_string by (auto simp: result_simps split: if_splits)
  then show ?thesis
    using assms(1,2) q r id_field_append [of i x i' y] by (simp add: query_identity_def)
qed

lemma query_source_valid: "query_validate q = Ok () \<Longrightarrow> valid_identifier (q_source q) 64"
  by (cases q) (auto split: if_splits)

definition rust_key :: "history_key \<Rightarrow> bool" where
  "rust_key k = rust_query (hk_query k)"

lemma canonical_identity_Ok:
  "canonical_identity k = Ok b \<longleftrightarrow>
     query_validate (hk_query k) = Ok () \<and> valid_identifier (hk_namespace k) 128
     \<and> valid_identifier (hk_provider k) 64 \<and> valid_identifier (hk_dataset k) 64
     \<and> b = lit ''openlegal-query-identity-v1'' @ [0] @ id_field (hk_namespace k)
         @ id_field (hk_provider k) @ id_field (hk_dataset k)
         @ id_field (q_source (hk_query k)) @ query_identity (hk_query k)"
  by (auto simp: canonical_identity_def result_simps simp del: lit_simps)

lemma canonical_identity_append:
  assumes "canonical_identity k = Ok b" "canonical_identity l = Ok c" "b @ x = c @ y"
    and "rust_key k" "rust_key l"
  shows "k = l \<and> x = y"
proof -
  have k: "query_validate (hk_query k) = Ok ()" "rust_string (hk_namespace k)" "rust_string (hk_provider k)"
      "rust_string (hk_dataset k)" "rust_string (q_source (hk_query k))"
    and l: "query_validate (hk_query l) = Ok ()" "rust_string (hk_namespace l)" "rust_string (hk_provider l)"
      "rust_string (hk_dataset l)" "rust_string (q_source (hk_query l))"
    using assms(1,2) identifier_rust_string [of _ 128] identifier_rust_string [of _ 64] query_source_valid
    unfolding canonical_identity_Ok by simp_all
  have "id_field (hk_namespace k) @ id_field (hk_provider k) @ id_field (hk_dataset k)
      @ id_field (q_source (hk_query k)) @ query_identity (hk_query k) @ x
    = id_field (hk_namespace l) @ id_field (hk_provider l) @ id_field (hk_dataset l)
      @ id_field (q_source (hk_query l)) @ query_identity (hk_query l) @ y"
    using assms(1,2,3) unfolding canonical_identity_Ok by simp
  from id_field_append [OF this k(2) l(2)] have a: "hk_namespace k = hk_namespace l"
    "id_field (hk_provider k) @ id_field (hk_dataset k)
      @ id_field (q_source (hk_query k)) @ query_identity (hk_query k) @ x
    = id_field (hk_provider l) @ id_field (hk_dataset l)
      @ id_field (q_source (hk_query l)) @ query_identity (hk_query l) @ y" by auto
  from id_field_append [OF a(2) k(3) l(3)] have b: "hk_provider k = hk_provider l"
    "id_field (hk_dataset k) @ id_field (q_source (hk_query k)) @ query_identity (hk_query k) @ x
    = id_field (hk_dataset l) @ id_field (q_source (hk_query l)) @ query_identity (hk_query l) @ y" by auto
  from id_field_append [OF b(2) k(4) l(4)] have c: "hk_dataset k = hk_dataset l"
    "id_field (q_source (hk_query k)) @ query_identity (hk_query k) @ x
    = id_field (q_source (hk_query l)) @ query_identity (hk_query l) @ y" by auto
  from id_field_append [OF c(2) k(5) l(5)] have d: "q_source (hk_query k) = q_source (hk_query l)"
    "query_identity (hk_query k) @ x = query_identity (hk_query l) @ y" by auto
  from query_identity_append [OF d(2,1) k(1) l(1)] assms(4,5)
  have "hk_query k = hk_query l" "x = y" by (auto simp: rust_key_def)
  then show ?thesis using a b c by simp
qed

section \<open>Revalidation and payloads\<close>

lemma retained_record_ok: "retained_record key r \<longleftrightarrow> record_ok (hk_query (pk_history key)) r"
  by (auto simp: retained_record_def record_ok_def MAX_STRING_BYTES_def)

lemma retained_records_iff:
  "retained_records key ids rs \<longleftrightarrow>
     list_all (record_ok (hk_query (pk_history key))) rs \<and> distinct (map r_id rs)
     \<and> set (map r_id rs) \<inter> set ids = {}"
  by (induction rs arbitrary: ids) (auto simp: retained_record_ok)

lemma retained_data_iff: "retained_data key d \<longleftrightarrow> answers_query (hk_query (pk_history key)) d"
proof (cases "hk_query (pk_history key)")
  case (Search s t page per)
  then show ?thesis by (cases d) (auto simp: retained_data_def retained_records_iff)
next
  case (Get s i)
  then show ?thesis by (cases d) (auto simp: retained_data_def retained_record_ok)
qed

lemma processed_writes_Ok:
  "length buffer \<le> SERVICE_PROCESSED_BYTES \<Longrightarrow>
     processed_writes ws buffer = Ok b \<longleftrightarrow>
       b = buffer @ concat ws \<and> length buffer + sum_list (map length ws) \<le> SERVICE_PROCESSED_BYTES"
  by (induction ws arbitrary: buffer) auto

lemma processed_bytes_Ok:
  "processed_bytes J d = Ok b \<longleftrightarrow> b = concat (to_writes J d) \<and> json_size J d \<le> SERVICE_PROCESSED_BYTES"
  by (simp add: processed_bytes_def processed_writes_Ok json_size_def)

lemma validate_payload_Ok:
  "validate_payload J sha256 key v = Ok () \<longleftrightarrow>
     (\<exists>b. canonical_identity (pk_history key) = Ok b) \<and> retained_evidence sha256 key v
     \<and> answers_query (hk_query (pk_history key)) (sd_data v) \<and> json_size J (sd_data v) \<le> SERVICE_PROCESSED_BYTES"
proof -
  have "(\<exists>b. processed_bytes J (sd_data v) = Ok b) \<longleftrightarrow> json_size J (sd_data v) \<le> SERVICE_PROCESSED_BYTES"
    by (simp add: processed_bytes_Ok)
  then show ?thesis by (auto simp: validate_payload_def retained_data_iff split: sum.splits)
qed

lemma service_validate_evidence:
  assumes "service_validate J (digest_hex sha256) now source query payload = Ok v"
    and "for_source source query = Ok key"
    and "src_processor_version source \<noteq> []" "str_len (src_processor_version source) \<le> 128"
  shows "retained_evidence sha256 (persistent_key_of namespace key) v"
    "json_size J (sd_data v) \<le> SERVICE_PROCESSED_BYTES"
proof -
  have k: "key = \<lparr>ck_provider = src_provider source, ck_dataset = src_dataset source,
      ck_processor_version = src_processor_version source, ck_schema_version = 1, ck_query = query\<rparr>"
    using assms(2) by (simp add: for_source_Ok)
  show "retained_evidence sha256 (persistent_key_of namespace key) v"
    using assms(1,3,4) k
    by (auto simp: retained_evidence_def persistent_key_of_def service_validate_def Let_def result_simps
        list_ex_iff split: if_splits)
  show "json_size J (sd_data v) \<le> SERVICE_PROCESSED_BYTES"
    using assms(1)
    by (auto simp: service_validate_def bounded_size_def json_size_def result_simps
        split: if_splits dest!: bounded_writes_Ok)
qed

lemma sources_admissible_member:
  "sources_admissible ids sources \<Longrightarrow> source \<in> set sources \<Longrightarrow>
     valid_identifier (src_provider source) 64 \<and> valid_identifier (src_dataset source) 64
     \<and> src_processor_version source \<noteq> [] \<and> str_len (src_processor_version source) \<le> 128"
  by (induction sources arbitrary: ids) auto

lemma revalidated_fits:
  "validate_payload J sha256 (persistent_key_of namespace key) v = Ok () \<Longrightarrow> payload_for key v"
  unfolding validate_payload_Ok
  by (auto simp: payload_for_def persistent_key_of_def retained_evidence_def Let_def)

section \<open>Properties\<close>

text \<open>
  C22. The durable store and the service agree on payloads.  Every payload the store revalidates for
  the durable form of a cache key fits that key, and every payload the service validated for a
  registered source passes the store's revalidation under any valid namespace.
\<close>

theorem payload_revalidation:
  shows "(validate_payload J sha256 (persistent_key_of namespace key) v = Ok () \<longrightarrow> payload_for key v)
    \<and> (sources_admissible [] sources \<and> source \<in> set sources \<and> valid_identifier namespace 128
       \<and> for_source source query = Ok key
       \<and> service_validate J (digest_hex sha256) now source query payload = Ok v \<longrightarrow>
       validate_payload J sha256 (persistent_key_of namespace key) v = Ok ())"
proof (intro conjI impI)
  assume "validate_payload J sha256 (persistent_key_of namespace key) v = Ok ()"
  then show "payload_for key v" by (rule revalidated_fits)
next
  assume a: "sources_admissible [] sources \<and> source \<in> set sources \<and> valid_identifier namespace 128
    \<and> for_source source query = Ok key
    \<and> service_validate J (digest_hex sha256) now source query payload = Ok v"
  then have s: "valid_identifier (src_provider source) 64" "valid_identifier (src_dataset source) 64"
    "src_processor_version source \<noteq> []" "str_len (src_processor_version source) \<le> 128"
    using sources_admissible_member by blast+
  note v = service_validate_evidence(1) [of J sha256 now source query payload v key namespace]
    service_validate_evidence(2) [of J sha256 now source query payload v key]
  have "\<exists>b. canonical_identity (pk_history (persistent_key_of namespace key)) = Ok b"
    unfolding canonical_identity_Ok using a s by (simp add: persistent_key_of_def for_source_Ok)
  moreover have "answers_query query (sd_data v)"
    using a service_validate_Ok(1,2) payload_matches_answers by metis
  ultimately show "validate_payload J sha256 (persistent_key_of namespace key) v = Ok ()"
    unfolding validate_payload_Ok using a s v by (simp add: persistent_key_of_def for_source_Ok)
qed

definition sample_digest :: "nat list \<Rightarrow> nat list" where
  "sample_digest bytes = replicate 31 0 @ [sum_list bytes mod 256]"

definition sample_fetched :: fetched_payload where
  "sample_fetched =
     \<lparr>fp_raw = [1, 2, 3], fp_data = sd_data sample_payload, fp_source_reference = lit ''r''\<rparr>"

theorem payload_revalidation_witness:
  "\<exists>v. service_validate sample_serde (digest_hex sample_digest) 100 sample_source
        (Get (lit ''s'') (lit ''1'')) sample_fetched = Ok v
     \<and> validate_payload sample_serde sample_digest (persistent_key_of (lit ''ns'') sample_key) v = Ok ()
     \<and> payload_for sample_key v"
proof -
  obtain v where v: "service_validate sample_serde (digest_hex sample_digest) 100 sample_source
      (Get (lit ''s'') (lit ''1'')) sample_fetched = Ok v"
  proof -
    have "isl (service_validate sample_serde (digest_hex sample_digest) 100 sample_source
        (Get (lit ''s'') (lit ''1'')) sample_fetched) = False" by code_simp
    then show ?thesis using that
      by (cases "service_validate sample_serde (digest_hex sample_digest) 100 sample_source
        (Get (lit ''s'') (lit ''1'')) sample_fetched") auto
  qed
  have "sources_admissible [] [sample_source]" "sample_source \<in> set [sample_source]"
    "valid_identifier (lit ''ns'') 128"
    "for_source sample_source (Get (lit ''s'') (lit ''1'')) = Ok sample_key"
    by code_simp+
  then show ?thesis using v payload_revalidation by blast
qed

text \<open>
  C21. Two history keys have the same canonical identity only when they are equal, for queries whose
  text is a Rust string, so no two queries of any namespace, provider and dataset share a durable
  history row unless \<open>sha256\<close> collides.
\<close>

theorem canonical_identity_injective:
  assumes "canonical_identity k = Ok b" "canonical_identity l = Ok c" "rust_key k" "rust_key l"
  shows "b = c \<longleftrightarrow> k = l"
  using canonical_identity_append [OF assms(1,2) _ assms(3,4), of "[]" "[]"] assms(1,2) by auto

definition sample_history :: "nat \<Rightarrow> history_key" where
  "sample_history page =
     \<lparr>hk_namespace = lit ''ns'', hk_provider = lit ''p'', hk_dataset = lit ''d'',
      hk_query = Search (lit ''s'') [0xBBFC, 0xBC95] page 20\<rparr>"

theorem canonical_identity_injective_witness:
  "canonical_identity (sample_history 1) \<noteq> canonical_identity (sample_history 2)"
proof -
  obtain b c where bc: "canonical_identity (sample_history 1) = Ok b" "canonical_identity (sample_history 2) = Ok c"
  proof -
    have "isl (canonical_identity (sample_history 1)) = False" "isl (canonical_identity (sample_history 2)) = False"
      by code_simp+
    then show ?thesis using that
      by (cases "canonical_identity (sample_history 1)"; cases "canonical_identity (sample_history 2)") auto
  qed
  have "rust_key (sample_history 1)" "rust_key (sample_history 2)" by code_simp+
  from canonical_identity_injective [OF bc this] bc show ?thesis by (auto simp: sample_history_def)
qed

text \<open>The texts of a capture are Rust strings and its timestamps fit 64 bits.\<close>

definition rust_capture :: "persistent_key \<Rightarrow> stored_payload \<Rightarrow> bool" where
  "rust_capture key v \<longleftrightarrow>
     rust_key (pk_history key) \<and> rust_string (pk_processor_version key)
     \<and> rust_string (pv_source_reference (sd_provenance v))
     \<and> pv_retrieved_at (sd_provenance v) < 2 ^ 64 \<and> pv_validated_at (sd_provenance v) < 2 ^ 64
     \<and> (case sd_snapshot v of None \<Rightarrow> True | Some sn \<Rightarrow> rust_string (sn_snapshot_id sn) \<and> sn_captured_at sn < 2 ^ 64)"

lemma be8_append:
  "be_bytes 8 m @ x = be_bytes 8 n @ y \<Longrightarrow> m < 2 ^ 64 \<Longrightarrow> n < 2 ^ 64 \<Longrightarrow> m = n \<and> x = y"
  by (rule be_bytes_append) auto

text \<open>The snapshot part at the end of a capture.\<close>

lemma snapshot_bytes_inj:
  assumes "(case a of Some sn \<Rightarrow> 1 # id_field (sn_snapshot_id sn) @ be_bytes 8 (sn_captured_at sn) | None \<Rightarrow> [0])
      = (case b of Some sn \<Rightarrow> 1 # id_field (sn_snapshot_id sn) @ be_bytes 8 (sn_captured_at sn) | None \<Rightarrow> [0 :: nat])"
    and "case a of None \<Rightarrow> True | Some sn \<Rightarrow> rust_string (sn_snapshot_id sn) \<and> sn_captured_at sn < 2 ^ 64"
    and "case b of None \<Rightarrow> True | Some sn \<Rightarrow> rust_string (sn_snapshot_id sn) \<and> sn_captured_at sn < 2 ^ 64"
  shows "a = (b :: snapshot_reference option)"
proof (cases a)
  case None
  then show ?thesis using assms(1) by (cases b) auto
next
  case (Some m)
  then obtain n where b: "b = Some n" using assms(1) by (cases b) auto
  have e: "id_field (sn_snapshot_id m) @ be_bytes 8 (sn_captured_at m) @ []
      = id_field (sn_snapshot_id n) @ be_bytes 8 (sn_captured_at n) @ []"
    using assms(1) Some b by simp
  have r: "rust_string (sn_snapshot_id m)" "rust_string (sn_snapshot_id n)" "sn_captured_at m < 2 ^ 64"
    "sn_captured_at n < 2 ^ 64" using assms(2,3) Some b by auto
  from id_field_append [OF e r(1,2)] be8_append [OF _ r(3,4), of "[]" "[]"] show ?thesis
    using Some b by simp
qed

text \<open>
  The bytes behind the integrity digest of a capture determine it: equal bytes of two validated
  captures mean the same durable key, processor and schema version, digests of the processed and of
  the raw evidence, raw length, source reference, timestamps and snapshot identity.
\<close>

theorem capture_bytes_injective:
  assumes sha: "\<And>x. length (sha256 x) = 32"
    and v: "validate_payload J sha256 k v = Ok ()" "canonical_identity (pk_history k) = Ok b" "rust_capture k v"
    and w: "validate_payload J sha256 l w = Ok ()" "canonical_identity (pk_history l) = Ok c" "rust_capture l w"
    and p: "processed_digest J sha256 (sd_data v) = Ok d" "processed_digest J sha256 (sd_data w) = Ok e"
    and eq: "capture_bytes sha256 b d k v = capture_bytes sha256 c e l w"
  shows "k = l \<and> d = e \<and> sha256 (sd_raw v) = sha256 (sd_raw w) \<and> length (sd_raw v) = length (sd_raw w)
    \<and> pv_source_reference (sd_provenance v) = pv_source_reference (sd_provenance w)
    \<and> pv_retrieved_at (sd_provenance v) = pv_retrieved_at (sd_provenance w)
    \<and> pv_validated_at (sd_provenance v) = pv_validated_at (sd_provenance w)
    \<and> sd_snapshot v = sd_snapshot w"
proof -
  let ?P = "sd_provenance"
  note rv = v(3) [unfolded rust_capture_def] and rw = w(3) [unfolded rust_capture_def]
  have len: "length d = 32" "length e = 32" using p sha by (auto simp: processed_digest_def result_simps)
  have ver: "pk_schema_version k < 256 ^ 4" "pk_schema_version l < 256 ^ 4"
    "length (sd_raw v) < 2 ^ 64" "length (sd_raw w) < 2 ^ 64"
    using v(1) w(1) unfolding validate_payload_Ok
    by (auto simp: retained_evidence_def Let_def MAX_RAW_BYTES_def)
  from eq have "b @ id_field (pk_processor_version k) @ be_bytes 4 (pk_schema_version k) @ d @ sha256 (sd_raw v)
      @ be_bytes 8 (length (sd_raw v)) @ id_field (pv_source_reference (?P v)) @ be_bytes 8 (pv_retrieved_at (?P v))
      @ be_bytes 8 (pv_validated_at (?P v))
      @ (case sd_snapshot v of Some sn \<Rightarrow> 1 # id_field (sn_snapshot_id sn) @ be_bytes 8 (sn_captured_at sn) | None \<Rightarrow> [0])
    = c @ id_field (pk_processor_version l) @ be_bytes 4 (pk_schema_version l) @ e @ sha256 (sd_raw w)
      @ be_bytes 8 (length (sd_raw w)) @ id_field (pv_source_reference (?P w)) @ be_bytes 8 (pv_retrieved_at (?P w))
      @ be_bytes 8 (pv_validated_at (?P w))
      @ (case sd_snapshot w of Some sn \<Rightarrow> 1 # id_field (sn_snapshot_id sn) @ be_bytes 8 (sn_captured_at sn) | None \<Rightarrow> [0])"
    by (simp only: capture_bytes_def same_append_eq)
  note s1 = canonical_identity_append [OF v(2) w(2) this]
  note s2 = id_field_append [OF conjunct2 [OF s1]]
  note s3 = be_bytes_append [OF conjunct2 [OF s2] ver(1,2)]
  have s4: "d = e \<and> sha256 (sd_raw v) = sha256 (sd_raw w)
    \<and> be_bytes 8 (length (sd_raw v)) @ id_field (pv_source_reference (?P v)) @ be_bytes 8 (pv_retrieved_at (?P v))
      @ be_bytes 8 (pv_validated_at (?P v))
      @ (case sd_snapshot v of Some sn \<Rightarrow> 1 # id_field (sn_snapshot_id sn) @ be_bytes 8 (sn_captured_at sn) | None \<Rightarrow> [0])
    = be_bytes 8 (length (sd_raw w)) @ id_field (pv_source_reference (?P w)) @ be_bytes 8 (pv_retrieved_at (?P w))
      @ be_bytes 8 (pv_validated_at (?P w))
      @ (case sd_snapshot w of Some sn \<Rightarrow> 1 # id_field (sn_snapshot_id sn) @ be_bytes 8 (sn_captured_at sn) | None \<Rightarrow> [0])"
    using conjunct2 [OF s3] rv rw len sha by (simp add: append_eq_append_conv)
  note s5 = be8_append [OF s4 [THEN conjunct2, THEN conjunct2] ver(3,4)]
  note s6 = id_field_append [OF conjunct2 [OF s5]]
  note s7 = be8_append [OF conjunct2 [OF s6]]
  note s8 = be8_append [OF conjunct2 [OF s7]]
  have "sd_snapshot v = sd_snapshot w"
    by (rule snapshot_bytes_inj [OF conjunct2 [OF s8]]) (use rv rw in auto)
  then show ?thesis using s1 s2 s3 s4 s5 s6 s7 s8 rv rw by simp
qed

lemma history_key_of_running:
  "history_key_of sources namespace shut p query = Ok key \<Longrightarrow>
     history_key_of sources namespace False p query = Ok key \<and> \<not> shut"
  by (auto simp: history_key_of_def result_simps split: if_splits)

lemma read_settled_Ok:
  "read_settled x w w' r = Ok y \<longleftrightarrow>
     storage_error (Some w') = None \<and> sw_epoch w' = sw_epoch w \<and> \<not> rc_cancelled_after x \<and> r = Ok y"
  by (auto simp: read_settled_def split: option.splits)

text \<open>Two captures whose raw evidence has the same \<open>sample_digest\<close>.\<close>

definition sample_capture :: "nat list \<Rightarrow> stored_payload" where
  "sample_capture raw =
     sample_payload\<lparr>sd_raw := raw,
       sd_provenance := (sd_provenance sample_payload)\<lparr>pv_payload_sha256 := digest_hex sample_digest raw\<rparr>\<rparr>"

definition sample_identity :: "nat list" where
  "sample_identity =
     (case canonical_identity (pk_history (persistent_key_of (lit ''ns'') sample_key)) of Inr b \<Rightarrow> b | Inl _ \<Rightarrow> [])"

definition sample_processed :: "nat list" where
  "sample_processed =
     (case processed_digest sample_serde sample_digest (sd_data sample_payload) of Inr b \<Rightarrow> b | Inl _ \<Rightarrow> [])"

theorem capture_bytes_injective_witness:
  "capture_bytes sample_digest sample_identity sample_processed (persistent_key_of (lit ''ns'') sample_key)
      (sample_capture [1, 2, 3])
    = capture_bytes sample_digest sample_identity sample_processed (persistent_key_of (lit ''ns'') sample_key)
      (sample_capture [3, 2, 1])
   \<and> length (sd_raw (sample_capture [1, 2, 3])) = length (sd_raw (sample_capture [3, 2, 1]))"
proof -
  let ?k = "persistent_key_of (lit ''ns'') sample_key"
  have sha: "length (sample_digest x) = 32" for x by (simp add: sample_digest_def)
  have v: "validate_payload sample_serde sample_digest ?k (sample_capture [1, 2, 3]) = Ok ()"
    "canonical_identity (pk_history ?k) = Ok sample_identity" "rust_capture ?k (sample_capture [1, 2, 3])"
    by code_simp+
  have w: "validate_payload sample_serde sample_digest ?k (sample_capture [3, 2, 1]) = Ok ()"
    "rust_capture ?k (sample_capture [3, 2, 1])" by code_simp+
  have p: "processed_digest sample_serde sample_digest (sd_data (sample_capture [1, 2, 3])) = Ok sample_processed"
    "processed_digest sample_serde sample_digest (sd_data (sample_capture [3, 2, 1])) = Ok sample_processed"
    by code_simp+
  have e: "capture_bytes sample_digest sample_identity sample_processed ?k (sample_capture [1, 2, 3])
    = capture_bytes sample_digest sample_identity sample_processed ?k (sample_capture [3, 2, 1])" by code_simp
  from capture_bytes_injective [OF sha v w(1) v(2) w(2) p e] e show ?thesis by blast
qed

text \<open>
  A snapshot read returns only what the store answered for the history of the caller's query,
  when the store was ready before and after the call and its epoch did not change, and only
  snapshots the retention policy keeps at the time of the answer; reading one snapshot also reports
  timestamps in the future as a clock anomaly.
\<close>

theorem snapshot_reads_retained:
  shows "(list_snapshots sources namespace store_list x query cursor limit = Ok page \<longrightarrow>
      (\<exists>key w0 w w'. rc_views x = Some (w0, w, w')
         \<and> history_key_of sources namespace False (Some w0) query = Ok key
         \<and> store_list key cursor limit (rc_called_at x) = Ok page \<and> 1 \<le> limit \<and> limit \<le> 20
         \<and> storage_error (Some w') = None \<and> sw_epoch w' = sw_epoch w
         \<and> \<not> rc_cancelled x \<and> \<not> rc_cancelled_after x
         \<and> list_all (\<lambda>s. retains (sw_policy w') (ss_captured_at s) (rc_now x)) (sg_snapshots page)))
    \<and> (get_snapshot sources namespace store_get x query i = Ok snapshot \<longrightarrow>
      (\<exists>key w0 w w' stored. rc_views x = Some (w0, w, w')
         \<and> history_key_of sources namespace False (Some w0) query = Ok key
         \<and> store_get key i (rc_called_at x) = Ok stored \<and> valid_snapshot_id i
         \<and> storage_error (Some w') = None \<and> sw_epoch w' = sw_epoch w
         \<and> \<not> rc_cancelled x \<and> \<not> rc_cancelled_after x
         \<and> retains (sw_policy w') (ss_captured_at (se_snapshot snapshot)) (rc_now x)
         \<and> snapshot = stored\<lparr>se_clock_anomaly := se_clock_anomaly snapshot\<rparr>
         \<and> (se_clock_anomaly snapshot \<longleftrightarrow> se_clock_anomaly stored
              \<or> rc_now x < ss_captured_at (se_snapshot stored)
              \<or> rc_now x < pv_retrieved_at (se_provenance stored)
              \<or> rc_now x < pv_validated_at (se_provenance stored))))"
proof (intro conjI impI)
  assume a: "list_snapshots sources namespace store_list x query cursor limit = Ok page"
  then obtain key where k0: "history_key_of sources namespace (rc_shutdown x) (rc_before x) query = Ok key"
    by (auto simp: list_snapshots_def result_simps split: if_splits)
  then have k: "history_key_of sources namespace False (rc_before x) query = Ok key"
    using history_key_of_running by blast
  obtain w0 w w' where w: "rc_views x = Some (w0, w, w')"
    using a by (auto simp: list_snapshots_def result_simps split: if_splits option.splits)
  have "history_key_of sources namespace (rc_shutdown x) (Some w0) query = Ok key"
    using k0 w by (simp add: rc_before_def)
  then show "\<exists>key w0 w w'. rc_views x = Some (w0, w, w')
         \<and> history_key_of sources namespace False (Some w0) query = Ok key
         \<and> store_list key cursor limit (rc_called_at x) = Ok page \<and> 1 \<le> limit \<and> limit \<le> 20
         \<and> storage_error (Some w') = None \<and> sw_epoch w' = sw_epoch w
         \<and> \<not> rc_cancelled x \<and> \<not> rc_cancelled_after x
         \<and> list_all (\<lambda>s. retains (sw_policy w') (ss_captured_at s) (rc_now x)) (sg_snapshots page)"
    using a k w
    by (simp add: list_snapshots_def rc_before_def result_simps read_settled_Ok list_ex_iff list_all_iff
        split: if_splits)
next
  assume a: "get_snapshot sources namespace store_get x query i = Ok snapshot"
  then obtain key where k0: "history_key_of sources namespace (rc_shutdown x) (rc_before x) query = Ok key"
    by (auto simp: get_snapshot_def result_simps split: if_splits)
  then have k: "history_key_of sources namespace False (rc_before x) query = Ok key"
    using history_key_of_running by blast
  obtain w0 w w' where w: "rc_views x = Some (w0, w, w')"
    using a by (auto simp: get_snapshot_def result_simps split: if_splits option.splits)
  have "history_key_of sources namespace (rc_shutdown x) (Some w0) query = Ok key"
    using k0 w by (simp add: rc_before_def)
  then obtain stored where "store_get key i (rc_called_at x) = Ok stored" "valid_snapshot_id i"
    "storage_error (Some w') = None" "sw_epoch w' = sw_epoch w" "\<not> rc_cancelled x" "\<not> rc_cancelled_after x"
    "retains (sw_policy w') (ss_captured_at (se_snapshot stored)) (rc_now x)"
    "snapshot = stored\<lparr>se_clock_anomaly := se_clock_anomaly stored
       \<or> rc_now x < ss_captured_at (se_snapshot stored) \<or> rc_now x < pv_retrieved_at (se_provenance stored)
       \<or> rc_now x < pv_validated_at (se_provenance stored)\<rparr>"
    using a w
    by (auto simp: get_snapshot_def rc_before_def result_simps read_settled_Ok split: if_splits)
  then show "\<exists>key w0 w w' stored. rc_views x = Some (w0, w, w')
         \<and> history_key_of sources namespace False (Some w0) query = Ok key
         \<and> store_get key i (rc_called_at x) = Ok stored \<and> valid_snapshot_id i
         \<and> storage_error (Some w') = None \<and> sw_epoch w' = sw_epoch w
         \<and> \<not> rc_cancelled x \<and> \<not> rc_cancelled_after x
         \<and> retains (sw_policy w') (ss_captured_at (se_snapshot snapshot)) (rc_now x)
         \<and> snapshot = stored\<lparr>se_clock_anomaly := se_clock_anomaly snapshot\<rparr>
         \<and> (se_clock_anomaly snapshot \<longleftrightarrow> se_clock_anomaly stored
              \<or> rc_now x < ss_captured_at (se_snapshot stored)
              \<or> rc_now x < pv_retrieved_at (se_provenance stored)
              \<or> rc_now x < pv_validated_at (se_provenance stored))"
    using k w by (auto simp: rc_before_def)
qed

text \<open>A ready store that holds one snapshot, captured in the future of the reader's clock.\<close>

definition sample_view :: storage_view where
  "sample_view =
     \<lparr>sw_epoch = 3, sw_recovery_epoch = 1, sw_healthy = True, sw_status = StorageReady,
      sw_policy = retention_policy_default\<rparr>"

definition sample_context :: read_context where
  "sample_context =
     \<lparr>rc_shutdown = False, rc_views = Some (sample_view, sample_view, sample_view), rc_cancelled = False,
      rc_cancelled_after = False, rc_called_at = 90, rc_now = 95\<rparr>"

definition sample_summary :: snapshot_summary where
  "sample_summary =
     \<lparr>ss_snapshot_id = replicate 64 48, ss_sequence = 1, ss_captured_at = 100,
      ss_processor_version = lit ''v1'', ss_schema_version = 1, ss_payload_sha256 = replicate 64 48\<rparr>"

definition sample_snapshot :: snapshot_envelope where
  "sample_snapshot =
     \<lparr>se_schema_version = 1, se_snapshot = sample_summary, se_query = Get (lit ''s'') (lit ''1''),
      se_data = sd_data sample_payload, se_provenance = sd_provenance sample_payload,
      se_historical = True, se_synthetic = True, se_clock_anomaly = False\<rparr>"

definition sample_page :: snapshot_page where
  "sample_page = \<lparr>sg_snapshots = [sample_summary], sg_next_cursor = None, sg_synthetic = True\<rparr>"

theorem snapshot_reads_retained_witness:
  "list_snapshots [sample_source] (lit ''ns'') (\<lambda>key cursor limit now. Ok sample_page) sample_context
     (Get (lit ''s'') (lit ''1'')) None 5 = Ok sample_page
   \<and> list_all (\<lambda>s. retains retention_policy_default (ss_captured_at s) 95) (sg_snapshots sample_page)
   \<and> get_snapshot [sample_source] (lit ''ns'') (\<lambda>key i now. Ok sample_snapshot) sample_context
     (Get (lit ''s'') (lit ''1'')) (replicate 64 48) = Ok (sample_snapshot\<lparr>se_clock_anomaly := True\<rparr>)"
proof -
  have l: "list_snapshots [sample_source] (lit ''ns'') (\<lambda>key cursor limit now. Ok sample_page) sample_context
     (Get (lit ''s'') (lit ''1'')) None 5 = Ok sample_page" by code_simp
  have g: "get_snapshot [sample_source] (lit ''ns'') (\<lambda>key i now. Ok sample_snapshot) sample_context
     (Get (lit ''s'') (lit ''1'')) (replicate 64 48) = Ok (sample_snapshot\<lparr>se_clock_anomaly := True\<rparr>)" by code_simp
  from snapshot_reads_retained [THEN conjunct1, rule_format, OF l]
  show ?thesis using l g by (auto simp: sample_context_def sample_view_def)
qed

end
