(* ===== verification/Text_Slices.thy ===== *)
theory Text_Slices
  imports Rust_Text
begin

text \<open>Slices of texts between character boundaries: existence, joining and nesting; and the
  lengths of decimal numbers.\<close>

text \<open>\<open>str::contains\<close>.\<close>

definition contains :: "rstr \<Rightarrow> rstr \<Rightarrow> bool" where
  "contains s p \<longleftrightarrow> split_once p s \<noteq> None"

section \<open>Slices between character boundaries\<close>

lemma prefix_by_len:
  assumes "a @ b = c @ d" "str_len a \<le> str_len c"
  obtains e where "c = a @ e" "b = e @ d"
proof -
  from assms(1) obtain us where "a = c @ us \<and> us @ b = d \<or> a @ us = c \<and> b = us @ d"
    by (auto simp: append_eq_append_conv2)
  then show thesis
  proof (elim disjE conjE)
    assume "a = c @ us" "us @ b = d"
    with assms(2) have "us = []" by simp
    with \<open>a = c @ us\<close> \<open>us @ b = d\<close> show thesis using that [of "[]"] by simp
  qed (use that in blast)
qed

lemma slice_exists:
  assumes "is_char_boundary t a" "is_char_boundary t b" "a \<le> b"
  obtains u where "slice t a b = Some u" "str_len u = b - a"
proof -
  obtain x y x' y' where t: "t = x @ y" "str_len x = a" "t = x' @ y'" "str_len x' = b"
    using assms(1,2) unfolding char_boundary_iff by metis
  obtain e where "x' = x @ e" "y = e @ y'"
    using prefix_by_len [of x y x' y'] t assms(3) by metis
  with t have "slice t a b = Some e" "str_len e = b - a" by (force simp: slice_Some_iff)+
  then show thesis by (rule that)
qed

lemma slice_boundaries:
  assumes "slice t a b = Some u"
  shows "is_char_boundary t a" "is_char_boundary t b" "a \<le> b" "str_len u = b - a" "b \<le> str_len t"
proof -
  obtain x y where t: "t = x @ u @ y" "str_len x = a" "a + str_len u = b"
    using assms slice_Some_iff by blast
  then have "t = (x @ u) @ y" "str_len (x @ u) = b" by simp_all
  with t show "is_char_boundary t a" "is_char_boundary t b" unfolding char_boundary_iff by blast+
  then show "b \<le> str_len t" by (simp add: char_boundary_le)
qed (use assms slice_Some_iff in fastforce)+

lemma slice_inside:
  assumes "slice t i j = Some v" "slice t a b = Some u" "a \<le> i" "j \<le> b"
  shows "\<exists>x y. u = x @ v @ y"
proof -
  obtain p q where pq: "t = p @ u @ q" "str_len p = a" "a + str_len u = b"
    using assms(2) slice_Some_iff by blast
  obtain p' q' where pq': "t = p' @ v @ q'" "str_len p' = i" "i + str_len v = j"
    using assms(1) slice_Some_iff by blast
  obtain e where e: "p' = p @ e" "u @ q = e @ v @ q'"
    using prefix_by_len [of p "u @ q" p' "v @ q'"] pq pq' assms(3) by metis
  have "str_len (e @ v) \<le> str_len u" using pq pq' e(1) assms(3,4) by simp
  then obtain f where "u = (e @ v) @ f"
    using prefix_by_len [of "e @ v" q' u q] e(2) by (metis append.assoc)
  then show ?thesis by auto
qed

lemma slice_join:
  assumes "slice t a b = Some u" "slice t b c = Some v"
  shows "slice t a c = Some (u @ v)"
proof -
  obtain x y where xy: "t = x @ u @ y" "str_len x = a" "a + str_len u = b"
    using assms(1) slice_Some_iff by blast
  obtain p q where pq: "t = p @ v @ q" "str_len p = b" "b + str_len v = c"
    using assms(2) slice_Some_iff by blast
  have "(x @ u) @ y = p @ v @ q" "str_len (x @ u) = str_len p" using xy pq by simp_all
  then have "y = v @ q" using append_eq_by_len by blast
  with xy pq show ?thesis by (auto simp: slice_Some_iff)
qed

lemma slice_all: "slice t 0 (str_len t) = Some t"
  by (auto simp: slice_Some_iff)

lemma slice_shift:
  assumes "slice t a b = Some u"
  shows "slice (x @ t @ y) (str_len x + a) (str_len x + b) = Some u"
proof -
  obtain p q where "t = p @ u @ q" "str_len p = a" "a + str_len u = b"
    using assms slice_Some_iff by blast
  then have "x @ t @ y = (x @ p) @ u @ (q @ y)" "str_len (x @ p) = str_len x + a"
      "str_len x + a + str_len u = str_len x + b" by simp_all
  then show ?thesis unfolding slice_Some_iff by blast
qed

section \<open>Lengths of decimal numbers\<close>

lemma nat_str_length: "n < 10 ^ k \<Longrightarrow> 0 < k \<Longrightarrow> length (nat_str n) \<le> k"
proof (induction n arbitrary: k rule: nat_str.induct)
  case (1 n)
  show ?case
  proof (cases "n < 10")
    case False
    then obtain j where k: "k = Suc j" "0 < j"
      using "1.prems" by (cases k; cases "k - 1") auto
    have "n div 10 < 10 ^ j" using "1.prems"(1) k(1) by (simp add: less_mult_imp_div_less mult.commute)
    then have "length (nat_str (n div 10)) \<le> j" using "1.IH" [OF False] k(2) by simp
    then show ?thesis using False k(1) by (subst nat_str.simps) simp
  qed (use "1.prems" in \<open>subst nat_str.simps, simp\<close>)
qed

end
