(* ===== verification/Citation_Identity.thy ===== *)
theory Citation_Identity
  imports Legal_Domain Utf8 Text_Slices
begin

text \<open>
  Citation identities: \<open>crates/domain/src/citation.rs\<close>.

  The \<open>url\<close> crate is not part of the repository.  Its form encoding is the pair \<open>serialize\<close>
  (\<open>byte_serialize\<close>, collected) and \<open>parse_value\<close> (the value of the first pair of
  \<open>form_urlencoded::parse\<close>); the locale \<open>form_codec\<close> states what the citations rely on of it, and the
  algorithm of the URL standard interprets it.  Parsing and building URLs are the parameters
  \<open>parse_url\<close>, \<open>set_path\<close> and \<open>query_url\<close>.
\<close>

section \<open>Identities\<close>

definition MAX_CITATION_TEXT_BYTES :: nat where
  "MAX_CITATION_TEXT_BYTES = 8192"

datatype citation_projection =
    ProjDocument
  | ProjSection rstr
  | ProjPassage rstr nat nat
  | ProjMetadata

record citation_id =
  ci_object :: object_id
  ci_capture_id :: rstr
  ci_projection :: citation_projection

definition section_locator_ok :: "rstr \<Rightarrow> bool" where
  "section_locator_ok s \<longleftrightarrow> \<not> (s = [] \<or> 256 < str_len s \<or> list_ex is_control s)"

definition citation_validate :: "citation_id \<Rightarrow> (unit, database_error) result" where
  "citation_validate i =
     and_then (object_validate (ci_object i)) (\<lambda>_.
       if \<not> valid_snapshot_id (ci_capture_id i) then Err DEInvalidInput
       else
         and_then
           (case ci_projection i of
              ProjDocument \<Rightarrow> Ok None
            | ProjMetadata \<Rightarrow> Ok None
            | ProjSection s \<Rightarrow> Ok (Some s)
            | ProjPassage s start stop \<Rightarrow>
                if stop \<le> start \<or> MAX_CITATION_TEXT_BYTES < stop - start \<or> 64 * 1024 * 1024 < stop
                then Err DEInvalidInput else Ok (Some s))
           (\<lambda>locator.
              (case locator of
                 None \<Rightarrow> Ok ()
               | Some s \<Rightarrow> if section_locator_ok s then Ok () else Err DEInvalidInput)))"

section \<open>Escaping\<close>

definition replace_plus :: "rstr \<Rightarrow> rstr" where
  "replace_plus s = concat (map (\<lambda>c. if c = 43 then lit ''%20'' else [c]) s)"

definition escape :: "(rstr \<Rightarrow> rstr) \<Rightarrow> rstr \<Rightarrow> rstr" where
  "escape serialize s = replace_plus (serialize s)"

definition unescape ::
  "(rstr \<Rightarrow> rstr) \<Rightarrow> (rstr \<Rightarrow> rstr option) \<Rightarrow> rstr \<Rightarrow> (rstr, database_error) result" where
  "unescape serialize parse_value s =
     and_then (ok_or (parse_value (lit ''v='' @ s)) DEInvalidInput) (\<lambda>r.
       if escape serialize r \<noteq> s then Err DEInvalidInput else Ok r)"

section \<open>Paths\<close>

text \<open>\<open>str::split\<close> at a character.\<close>

fun split_on :: "rchar \<Rightarrow> rstr \<Rightarrow> rstr list" where
  "split_on c [] = [[]]"
| "split_on c (d # s) =
     (if d = c then [] # split_on c s
      else (case split_on c s of [] \<Rightarrow> [[d]] | w # ws \<Rightarrow> (d # w) # ws))"

definition projection_path :: "(rstr \<Rightarrow> rstr) \<Rightarrow> citation_projection \<Rightarrow> rstr" where
  "projection_path serialize p =
     (case p of
        ProjDocument \<Rightarrow> lit ''/doc''
      | ProjMetadata \<Rightarrow> lit ''/metadata''
      | ProjSection s \<Rightarrow> lit ''/section/s-'' @ escape serialize s
      | ProjPassage s start stop \<Rightarrow>
          lit ''/passage/s-'' @ escape serialize s @ lit ''/'' @ nat_str start @ lit ''/'' @ nat_str stop)"

definition citation_encode ::
  "(rstr \<Rightarrow> rstr) \<Rightarrow> citation_id \<Rightarrow> (rstr, database_error) result" where
  "citation_encode serialize i =
     and_then (citation_validate i) (\<lambda>_.
       Ok (lit ''v1/'' @ escape serialize (o_jurisdiction (ci_object i)) @ lit ''/''
           @ escape serialize (o_provider (ci_object i)) @ lit ''/''
           @ as_str (o_dataset (ci_object i)) @ lit ''/''
           @ escape serialize (o_id (ci_object i)) @ lit ''/'' @ ci_capture_id i
           @ projection_path serialize (ci_projection i)))"

definition parse_section ::
  "(rstr \<Rightarrow> rstr) \<Rightarrow> (rstr \<Rightarrow> rstr option) \<Rightarrow> rstr \<Rightarrow> (rstr, database_error) result" where
  "parse_section serialize parse_value s =
     and_then (ok_or (strip_prefix (lit ''s-'') s) DEInvalidInput) (unescape serialize parse_value)"

definition parse_projection ::
  "(rstr \<Rightarrow> rstr) \<Rightarrow> (rstr \<Rightarrow> rstr option) \<Rightarrow> rstr list \<Rightarrow>
     (citation_projection, database_error) result" where
  "parse_projection serialize parse_value parts =
     (let kind = parts ! 6; n = length parts in
      if kind = lit ''doc'' \<and> n = 7 then Ok ProjDocument
      else if kind = lit ''metadata'' \<and> n = 7 then Ok ProjMetadata
      else if kind = lit ''section'' \<and> n = 8 then
        and_then (parse_section serialize parse_value (parts ! 7)) (\<lambda>s. Ok (ProjSection s))
      else if kind = lit ''passage'' \<and> n = 10 then
        and_then (parse_section serialize parse_value (parts ! 7)) (\<lambda>s.
        and_then (ok_or (parse_usize (parts ! 8)) DEInvalidInput) (\<lambda>start.
        and_then (ok_or (parse_usize (parts ! 9)) DEInvalidInput) (\<lambda>stop.
          Ok (ProjPassage s start stop))))
      else Err DEInvalidInput)"

definition parse_dataset :: "rstr \<Rightarrow> (dataset, database_error) result" where
  "parse_dataset s = ok_or (from_name s) DEInvalidInput"

definition citation_decode ::
  "(rstr \<Rightarrow> rstr) \<Rightarrow> (rstr \<Rightarrow> rstr option) \<Rightarrow> rstr \<Rightarrow> (citation_id, database_error) result" where
  "citation_decode serialize parse_value i =
     (if 2048 < str_len i then Err DEInvalidInput
      else
        let parts = split_on 47 i in
        if length parts < 7 \<or> parts ! 0 \<noteq> lit ''v1'' then Err DEInvalidInput
        else
          and_then (unescape serialize parse_value (parts ! 1)) (\<lambda>jurisdiction.
          and_then (unescape serialize parse_value (parts ! 2)) (\<lambda>provider.
          and_then (parse_dataset (parts ! 3)) (\<lambda>d.
          and_then (unescape serialize parse_value (parts ! 4)) (\<lambda>object.
          and_then (parse_projection serialize parse_value parts) (\<lambda>projection.
            let result =
                  \<lparr>ci_object = \<lparr>o_jurisdiction = jurisdiction, o_provider = provider, o_dataset = d,
                                o_id = object\<rparr>,
                   ci_capture_id = parts ! 5, ci_projection = projection\<rparr> in
            and_then (citation_encode serialize result) (\<lambda>e.
              if e \<noteq> i then Err DEInvalidInput else Ok result)))))))"

definition resource_uri :: "(rstr \<Rightarrow> rstr) \<Rightarrow> citation_id \<Rightarrow> (rstr, database_error) result" where
  "resource_uri serialize i =
     and_then (citation_encode serialize i) (\<lambda>e. Ok (lit ''openlegal://source/'' @ e))"

record base_url_parts = url_parts +
  u_query :: "rstr option"
  u_path :: rstr

definition reference_base ::
  "(rstr \<Rightarrow> base_url_parts option) \<Rightarrow> rstr \<Rightarrow> (base_url_parts, database_error) result" where
  "reference_base parse_url s =
     and_then (ok_or (parse_url s) DEInvalidInput) (\<lambda>url.
       if u_scheme url \<noteq> lit ''https'' \<or> u_host_str url = None \<or> u_username url \<noteq> []
          \<or> u_password url \<noteq> None \<or> u_query url \<noteq> None \<or> u_fragment url \<noteq> None
          \<or> u_path url \<noteq> lit ''/''
       then Err DEInvalidInput else Ok url)"

definition reference_url ::
  "(rstr \<Rightarrow> rstr) \<Rightarrow> (rstr \<Rightarrow> base_url_parts option) \<Rightarrow> (base_url_parts \<Rightarrow> rstr \<Rightarrow> rstr) \<Rightarrow>
     citation_id \<Rightarrow> rstr \<Rightarrow> (rstr, database_error) result" where
  "reference_url serialize parse_url set_path i base =
     and_then (reference_base parse_url base) (\<lambda>url.
     and_then (citation_encode serialize i) (\<lambda>e.
       Ok (set_path url (lit ''/source/'' @ e))))"

section \<open>Official links\<close>

definition serial_ok :: "rstr \<Rightarrow> bool" where
  "serial_ok s \<longleftrightarrow>
     \<not> (s = [] \<or> 64 < str_len s \<or> \<not> list_all is_ascii_digit s \<or> list_all (\<lambda>c. c = 48) s)"

definition official_route :: "dataset \<Rightarrow> (rstr \<times> rstr) option" where
  "official_route d =
     (if d = NationalStatute then Some (lit ''lsInfoP.do'', lit ''lsiSeq'')
      else if d = AdministrativeRule then Some (lit ''admRulInfoP.do'', lit ''admRulSeq'')
      else if d = Treaty then Some (lit ''trtyInfoP.do'', lit ''trtySeq'')
      else if d = Precedent then Some (lit ''precInfoP.do'', lit ''precSeq'')
      else if d = ConstitutionalDecision then Some (lit ''detcInfoP.do'', lit ''detcSeq'')
      else if d = LegalInterpretation then Some (lit ''expcInfoP.do'', lit ''expcSeq'')
      else if d = AdministrativeAppeal then Some (lit ''deccInfoP.do'', lit ''deccSeq'')
      else None)"

definition route_pairs :: "metadata_result \<Rightarrow> rstr \<Rightarrow> (rstr \<times> rstr) list option" where
  "route_pairs m serial =
     (let d = o_dataset (mr_object m) in
      if d = NationalStatute then
        (case mr_effective_date m of
           None \<Rightarrow> None
         | Some date \<Rightarrow>
             if \<not> valid_date date \<or> mr_revision_id m \<noteq> serial @ lit '':'' @ date then None
             else
               Some [(lit ''efYd'', date), (lit ''urlMode'', lit ''lsInfoP''),
                     (lit ''chrClsCd'', lit ''010201'')])
      else if d = AdministrativeRule then Some [(lit ''chrClsCd'', lit ''010201'')]
      else if d = Treaty then Some [(lit ''chrClsCd'', lit ''010202''), (lit ''mode'', lit ''4'')]
      else Some [])"

text \<open>\<open>query_url base pairs\<close> parses the base and appends the pairs to its query.\<close>

definition official_browser_url ::
  "(rstr \<Rightarrow> (rstr \<times> rstr) list \<Rightarrow> rstr option) \<Rightarrow> metadata_result \<Rightarrow> rstr option" where
  "official_browser_url query_url m =
     (if o_provider (mr_object m) \<noteq> lit ''law_go_kr'' \<or> o_jurisdiction (mr_object m) \<noteq> lit ''kr''
      then None
      else
        (case map_of (mr_metadata m) (lit ''provider_record_number'') of
           None \<Rightarrow> None
         | Some serial \<Rightarrow>
             if \<not> serial_ok serial then None
             else
               (case official_route (o_dataset (mr_object m)) of
                  None \<Rightarrow> None
                | Some (path, key) \<Rightarrow>
                    (case route_pairs m serial of
                       None \<Rightarrow> None
                     | Some pairs \<Rightarrow>
                         query_url (lit ''https://www.law.go.kr/LSW/'' @ path) ((key, serial) # pairs)))))"

section \<open>What the codec promises\<close>

definition form_char :: "rchar \<Rightarrow> bool" where
  "form_char c \<longleftrightarrow> is_ascii_alphanumeric c \<or> c \<in> {37, 42, 43, 45, 46, 95}"

locale form_codec =
  fixes serialize :: "rstr \<Rightarrow> rstr" and parse_value :: "rstr \<Rightarrow> rstr option"
  assumes serialize_chars: "list_all scalar s \<Longrightarrow> list_all form_char (serialize s)"
    and serialize_size: "list_all scalar s \<Longrightarrow>
      length (serialize s) + 2 * count_list (serialize s) 43 \<le> 3 * str_len s"
    and parse_serialize: "list_all scalar s \<Longrightarrow>
      parse_value (lit ''v='' @ replace_plus (serialize s)) = Some s"
begin

lemma escape_chars:
  assumes "list_all scalar s" "c \<in> set (escape serialize s)"
  shows "c < 128 \<and> c \<noteq> 47"
proof -
  have "form_char d" if "d \<in> set (serialize s)" for d
    using serialize_chars [OF assms(1)] that by (simp add: list_all_iff)
  then show ?thesis
    using assms(2)
    by (fastforce simp: escape_def replace_plus_def form_char_def is_ascii_alphanumeric_def is_ascii_digit_def
        is_ascii_lowercase_def is_ascii_uppercase_def split: if_splits)
qed

lemma escape_length:
  assumes "list_all scalar s"
  shows "str_len (escape serialize s) \<le> 3 * str_len s"
proof -
  have l: "length (replace_plus t) = length t + 2 * count_list t 43" for t
    by (induction t) (auto simp: replace_plus_def)
  have "str_len (escape serialize s) = length (escape serialize s)"
    by (rule ascii_str_len) (use escape_chars [OF assms] in \<open>auto simp: list_all_iff\<close>)
  then show ?thesis using l [of "serialize s"] serialize_size [OF assms] by (simp add: escape_def)
qed

lemma unescape_escape:
  "list_all scalar s \<Longrightarrow> unescape serialize parse_value (escape serialize s) = Ok s"
  using parse_serialize [of s] by (simp add: unescape_def escape_def)

end

section \<open>Splitting paths\<close>

lemma split_on_single: "c \<notin> set a \<Longrightarrow> split_on c a = [a]"
  by (induction a) auto

lemma split_on_nonempty: "split_on c s \<noteq> []"
  by (induction s) (auto split: list.splits)

lemma split_on_append: "c \<notin> set a \<Longrightarrow> split_on c (a @ c # s) = a # split_on c s"
  by (induction a) auto

lemma nat_str_no_slash: "47 \<notin> set (nat_str n)"
  using nat_str_set [of 47 n] by auto

lemma as_str_simple: "list_all (\<lambda>c. is_ascii_lowercase c \<or> c = 95) (as_str d) \<and> length (as_str d) \<le> 64"
proof -
  have "list_all (\<lambda>d. list_all (\<lambda>c. is_ascii_lowercase c \<or> c = 95) (as_str d) \<and> length (as_str d) \<le> 64) ALL_DATASETS"
    by code_simp
  then show ?thesis using ALL_DATASETS_complete [of d] unfolding list_all_iff by blast
qed

lemma as_str_no_slash: "47 \<notin> set (as_str d)"
  using as_str_simple [of d] by (auto simp: list_all_iff is_ascii_lowercase_def)

lemma snapshot_id_ascii: "valid_snapshot_id s \<Longrightarrow> 47 \<notin> set s"
  by (auto simp: valid_snapshot_id_def list_all_iff lower_hex_def is_ascii_digit_def)

lemma identifier_scalar: "valid_identifier s n \<Longrightarrow> list_all scalar s \<and> str_len s \<le> n"
  using identifier_ascii by (fastforce simp: valid_identifier_def list_all_iff scalar_def)

text \<open>The locator of a citation is a Rust string; every other text of it is ASCII.\<close>

definition rust_citation :: "citation_id \<Rightarrow> bool" where
  "rust_citation i =
     (case ci_projection i of
        ProjSection s \<Rightarrow> list_all scalar s
      | ProjPassage s _ _ \<Rightarrow> list_all scalar s
      | _ \<Rightarrow> True)"

lemma citation_validate_Ok:
  "citation_validate i = Ok () \<longleftrightarrow>
     object_validate (ci_object i) = Ok () \<and> valid_snapshot_id (ci_capture_id i)
     \<and> (case ci_projection i of
          ProjDocument \<Rightarrow> True
        | ProjMetadata \<Rightarrow> True
        | ProjSection s \<Rightarrow> section_locator_ok s
        | ProjPassage s start stop \<Rightarrow>
            start < stop \<and> stop - start \<le> MAX_CITATION_TEXT_BYTES \<and> stop \<le> 64 * 1024 * 1024
            \<and> section_locator_ok s)"
  by (cases "ci_projection i") (auto simp: citation_validate_def result_simps)

lemma citation_encode_Ok:
  "citation_encode serialize i = Ok e \<longleftrightarrow>
     citation_validate i = Ok ()
     \<and> e = lit ''v1'' @ 47 # escape serialize (o_jurisdiction (ci_object i))
         @ 47 # escape serialize (o_provider (ci_object i)) @ 47 # as_str (o_dataset (ci_object i))
         @ 47 # escape serialize (o_id (ci_object i)) @ 47 # ci_capture_id i
         @ projection_path serialize (ci_projection i)"
  by (auto simp: citation_encode_def result_simps)

context form_codec
begin

definition projection_parts :: "citation_projection \<Rightarrow> rstr list" where
  "projection_parts p =
     (case p of
        ProjDocument \<Rightarrow> [lit ''doc'']
      | ProjMetadata \<Rightarrow> [lit ''metadata'']
      | ProjSection s \<Rightarrow> [lit ''section'', lit ''s-'' @ escape serialize s]
      | ProjPassage s start stop \<Rightarrow>
          [lit ''passage'', lit ''s-'' @ escape serialize s, nat_str start, nat_str stop])"

lemma projection_split:
  assumes "47 \<notin> set a" "rust_citation i"
  shows "split_on 47 (a @ projection_path serialize (ci_projection i)) = a # projection_parts (ci_projection i)"
proof (cases "ci_projection i")
  case (ProjSection s)
  then have "47 \<notin> set (lit ''s-'' @ escape serialize s)"
    using escape_chars [of s 47] assms(2) by (auto simp: rust_citation_def)
  then show ?thesis
    using assms(1) ProjSection split_on_append [of 47 "lit ''section''" "lit ''s-'' @ escape serialize s"]
    by (simp add: projection_path_def projection_parts_def split_on_append split_on_single)
next
  case (ProjPassage s start stop)
  then have e: "47 \<notin> set (lit ''s-'' @ escape serialize s)"
    using escape_chars [of s 47] assms(2) by (auto simp: rust_citation_def)
  have "split_on 47 ((lit ''s-'' @ escape serialize s) @ 47 # nat_str start @ 47 # nat_str stop)
      = [lit ''s-'' @ escape serialize s, nat_str start, nat_str stop]"
    using split_on_append [OF e] split_on_append [OF nat_str_no_slash] split_on_single [OF nat_str_no_slash] by simp
  then show ?thesis
    using assms(1) ProjPassage
      split_on_append [of 47 "lit ''passage''" "(lit ''s-'' @ escape serialize s) @ 47 # nat_str start @ 47 # nat_str stop"]
    by (simp add: projection_path_def projection_parts_def split_on_append)
qed (use assms split_on_append [of 47 a "lit ''doc''"] split_on_append [of 47 a "lit ''metadata''"] in
    \<open>simp_all add: projection_path_def projection_parts_def\<close>)

lemma citation_parts:
  assumes "citation_encode serialize i = Ok e" "rust_citation i"
  shows "split_on 47 e =
    [lit ''v1'', escape serialize (o_jurisdiction (ci_object i)), escape serialize (o_provider (ci_object i)),
     as_str (o_dataset (ci_object i)), escape serialize (o_id (ci_object i)), ci_capture_id i]
    @ projection_parts (ci_projection i)"
proof -
  have v: "citation_validate i = Ok ()" using assms(1) citation_encode_Ok by blast
  have o: "47 \<notin> set (escape serialize (o_jurisdiction (ci_object i)))"
    "47 \<notin> set (escape serialize (o_provider (ci_object i)))" "47 \<notin> set (escape serialize (o_id (ci_object i)))"
    using v escape_chars [of _ 47] identifier_scalar by (auto simp: citation_validate_Ok object_validate_Ok)
  have c: "47 \<notin> set (ci_capture_id i)" using v snapshot_id_ascii by (simp add: citation_validate_Ok)
  have t: "47 \<notin> set (lit ''v1'')" by simp
  have "e = lit ''v1'' @ 47 # escape serialize (o_jurisdiction (ci_object i))
         @ 47 # escape serialize (o_provider (ci_object i)) @ 47 # as_str (o_dataset (ci_object i))
         @ 47 # escape serialize (o_id (ci_object i)) @ 47 # ci_capture_id i
         @ projection_path serialize (ci_projection i)"
    using assms(1) citation_encode_Ok by blast
  then show ?thesis
    by (simp only: split_on_append [OF t] split_on_append [OF o(1)] split_on_append [OF o(2)]
        split_on_append [OF o(3)] split_on_append [OF as_str_no_slash] projection_split [OF c assms(2)] append.simps)
qed

end

context form_codec
begin

lemma locator_length:
  "list_all scalar s \<Longrightarrow> section_locator_ok s \<Longrightarrow> str_len (escape serialize s) \<le> 768"
  using escape_length [of s] by (simp add: section_locator_ok_def)

lemma identifier_length: "valid_identifier s n \<Longrightarrow> str_len (escape serialize s) \<le> 3 * n"
  using escape_length [of s] identifier_scalar [of s n] by simp

lemma offset_length: "n \<le> 64 * 1024 * 1024 \<Longrightarrow> str_len (nat_str n) \<le> 8"
  using nat_str_length [of n 8] by (simp add: str_len_nat_str)

lemma projection_length:
  assumes "citation_validate i = Ok ()" "rust_citation i"
  shows "str_len (projection_path serialize (ci_projection i)) \<le> 800"
proof (cases "ci_projection i")
  case (ProjSection s)
  then have "str_len (escape serialize s) \<le> 768"
    using locator_length assms by (simp add: citation_validate_Ok rust_citation_def)
  then show ?thesis using ProjSection by (simp add: projection_path_def len_utf8_def)
next
  case (ProjPassage s start stop)
  then have "str_len (escape serialize s) \<le> 768" "str_len (nat_str start) \<le> 8" "str_len (nat_str stop) \<le> 8"
    using locator_length offset_length [of start] offset_length [of stop] assms
    by (auto simp: citation_validate_Ok rust_citation_def)
  then show ?thesis using ProjPassage by (simp add: projection_path_def len_utf8_def)
qed (simp_all add: projection_path_def len_utf8_def)

lemma encode_length:
  assumes "citation_encode serialize i = Ok e" "rust_citation i"
  shows "str_len e \<le> 2048"
proof -
  have v: "citation_validate i = Ok ()" using assms(1) citation_encode_Ok by blast
  have o: "valid_identifier (o_jurisdiction (ci_object i)) 32" "valid_identifier (o_provider (ci_object i)) 64"
    "valid_identifier (o_id (ci_object i)) 128" "valid_snapshot_id (ci_capture_id i)"
    using v by (auto simp: citation_validate_Ok object_validate_Ok)
  have l: "str_len (escape serialize (o_jurisdiction (ci_object i))) \<le> 96"
    "str_len (escape serialize (o_provider (ci_object i))) \<le> 192"
    "str_len (escape serialize (o_id (ci_object i))) \<le> 384"
    using identifier_length [OF o(1)] identifier_length [OF o(2)] identifier_length [OF o(3)] by simp_all
  have "str_len (as_str (o_dataset (ci_object i))) = length (as_str (o_dataset (ci_object i)))"
    by (rule ascii_str_len)
      (use as_str_simple [of "o_dataset (ci_object i)"] in \<open>auto simp: list_all_iff is_ascii_lowercase_def\<close>)
  then have d: "str_len (as_str (o_dataset (ci_object i))) \<le> 64" using as_str_simple by simp
  have c: "str_len (ci_capture_id i) = 64" using o(4) by (simp add: valid_snapshot_id_def)
  have "e = lit ''v1'' @ 47 # escape serialize (o_jurisdiction (ci_object i))
         @ 47 # escape serialize (o_provider (ci_object i)) @ 47 # as_str (o_dataset (ci_object i))
         @ 47 # escape serialize (o_id (ci_object i)) @ 47 # ci_capture_id i
         @ projection_path serialize (ci_projection i)"
    using assms(1) citation_encode_Ok by blast
  then have "str_len e = 7 + str_len (escape serialize (o_jurisdiction (ci_object i)))
      + str_len (escape serialize (o_provider (ci_object i))) + str_len (as_str (o_dataset (ci_object i)))
      + str_len (escape serialize (o_id (ci_object i))) + str_len (ci_capture_id i)
      + str_len (projection_path serialize (ci_projection i))"
    by (simp add: len_utf8_def)
  then show ?thesis using l d c projection_length [OF v assms(2)] by linarith
qed

lemma parse_section_escape:
  "list_all scalar s \<Longrightarrow> parse_section serialize parse_value (lit ''s-'' @ escape serialize s) = Ok s"
  unfolding parse_section_def strip_prefix_append by (simp add: unescape_escape)

lemma offset_parse: "n \<le> 64 * 1024 * 1024 \<Longrightarrow> parse_usize (nat_str n) = Some n"
  by (rule parse_nat_str) (simp add: usize_max_val)

lemma parse_projection_parts:
  assumes "citation_validate i = Ok ()" "rust_citation i" "length xs = 6"
  shows "parse_projection serialize parse_value (xs @ projection_parts (ci_projection i)) = Ok (ci_projection i)"
proof -
  have nth: "(xs @ ys) ! 6 = ys ! 0" "(xs @ ys) ! 7 = ys ! 1" "(xs @ ys) ! 8 = ys ! 2" "(xs @ ys) ! 9 = ys ! 3" for ys
    using assms(3) by (simp_all add: nth_append)
  show ?thesis
  proof (cases "ci_projection i")
    case (ProjSection s)
    then have "parse_section serialize parse_value (lit ''s-'' @ escape serialize s) = Ok s"
      using assms(2) by (intro parse_section_escape) (simp add: rust_citation_def)
    then show ?thesis
      using ProjSection assms(3) by (simp add: parse_projection_def projection_parts_def nth)
  next
    case (ProjPassage s start stop)
    then have "parse_section serialize parse_value (lit ''s-'' @ escape serialize s) = Ok s"
      "parse_usize (nat_str start) = Some start" "parse_usize (nat_str stop) = Some stop"
      using assms(1,2) parse_section_escape offset_parse by (auto simp: rust_citation_def citation_validate_Ok)
    then show ?thesis
      using ProjPassage assms(3) by (simp add: parse_projection_def projection_parts_def nth)
  qed (use assms(3) in \<open>simp_all add: parse_projection_def projection_parts_def nth\<close>)
qed

lemma decode_encode:
  assumes "citation_encode serialize i = Ok e" "rust_citation i"
  shows "citation_decode serialize parse_value e = Ok i"
proof -
  have v: "citation_validate i = Ok ()" using assms(1) citation_encode_Ok by blast
  let ?o = "ci_object i"
  let ?xs = "[lit ''v1'', escape serialize (o_jurisdiction ?o), escape serialize (o_provider ?o),
     as_str (o_dataset ?o), escape serialize (o_id ?o), ci_capture_id i]"
  have u: "unescape serialize parse_value (escape serialize (o_jurisdiction ?o)) = Ok (o_jurisdiction ?o)"
    "unescape serialize parse_value (escape serialize (o_provider ?o)) = Ok (o_provider ?o)"
    "unescape serialize parse_value (escape serialize (o_id ?o)) = Ok (o_id ?o)"
    using v unescape_escape identifier_scalar by (auto simp: citation_validate_Ok object_validate_Ok)
  have parts: "split_on 47 e = ?xs @ projection_parts (ci_projection i)" by (rule citation_parts [OF assms])
  have n: "projection_parts (ci_projection i) \<noteq> []"
    by (cases "ci_projection i") (simp_all add: projection_parts_def)
  have d: "parse_dataset (as_str (o_dataset ?o)) = Ok (o_dataset ?o)"
    using from_name_iff [of "as_str (o_dataset ?o)" "o_dataset ?o"] by (simp add: parse_dataset_def)
  have p: "parse_projection serialize parse_value (?xs @ projection_parts (ci_projection i)) = Ok (ci_projection i)"
    by (rule parse_projection_parts [OF v assms(2)]) simp
  have r: "\<lparr>ci_object = \<lparr>o_jurisdiction = o_jurisdiction ?o, o_provider = o_provider ?o,
      o_dataset = o_dataset ?o, o_id = o_id ?o\<rparr>, ci_capture_id = ci_capture_id i,
      ci_projection = ci_projection i\<rparr> = i" by simp
  have l: "\<not> 2048 < str_len e" using encode_length [OF assms] by simp
  have nth: "(?xs @ ys) ! 0 = lit ''v1''" "(?xs @ ys) ! 1 = escape serialize (o_jurisdiction ?o)"
    "(?xs @ ys) ! 2 = escape serialize (o_provider ?o)" "(?xs @ ys) ! 3 = as_str (o_dataset ?o)"
    "(?xs @ ys) ! 4 = escape serialize (o_id ?o)" "(?xs @ ys) ! 5 = ci_capture_id i" for ys
    by (simp_all only: nth_append) simp_all
  show ?thesis
    unfolding citation_decode_def Let_def parts nth p u d
    using l n assms(1) by (simp only: and_then_simps r if_False not_less simp_thms if_cancel) simp
qed

end

text \<open>Whatever decodes is the encoding of what it decodes to.\<close>

lemma decode_canonical:
  "citation_decode serialize parse_value e = Ok i \<Longrightarrow> citation_encode serialize i = Ok e"
  by (auto simp: citation_decode_def Let_def result_simps split: if_splits)

section \<open>The codec of the URL standard\<close>

definition upper_hex :: "nat \<Rightarrow> rchar" where
  "upper_hex n = (if n < 10 then 48 + n else 55 + n)"

definition hex_value :: "rchar \<Rightarrow> nat option" where
  "hex_value c =
     (if is_ascii_digit c then Some (c - 48)
      else if 65 \<le> c \<and> c \<le> 70 then Some (c - 55)
      else if 97 \<le> c \<and> c \<le> 102 then Some (c - 87)
      else None)"

definition form_byte :: "nat \<Rightarrow> rstr" where
  "form_byte b =
     (if is_ascii_alphanumeric b \<or> b \<in> {42, 45, 46, 95} then [b]
      else if b = 32 then [43]
      else [37, upper_hex (b div 16), upper_hex (b mod 16)])"

definition form_serialize :: "rstr \<Rightarrow> rstr" where
  "form_serialize s = concat (map form_byte (utf8 s))"

fun percent_decode :: "nat list \<Rightarrow> nat list" where
  "percent_decode [] = []"
| "percent_decode (c # s) =
     (if c = 43 then 32 # percent_decode s
      else if c = 37 then
        (case s of
           a # b # t \<Rightarrow>
             (case (hex_value a, hex_value b) of
                (Some x, Some y) \<Rightarrow> (16 * x + y) # percent_decode t
              | _ \<Rightarrow> c # percent_decode s)
         | _ \<Rightarrow> c # percent_decode s)
      else c # percent_decode s)"

definition form_parse_value :: "rstr \<Rightarrow> rstr option" where
  "form_parse_value s =
     (let pair = takeWhile (\<lambda>c. c \<noteq> 38) s in
      utf8_decode (percent_decode (utf8 (tl (dropWhile (\<lambda>c. c \<noteq> 61) pair)))))"

lemma utf8_bytes:
  assumes "list_all scalar s" "b \<in> set (utf8 s)"
  shows "b < 256"
proof -
  obtain c where c: "c \<in> set s" "b \<in> set (utf8_char c)" using assms(2) by (auto simp: utf8_def)
  have "c < 0x110000" using assms(1) c(1) scalar_bound by (simp add: list_all_iff)
  then have "c div 64 div 64 div 64 < 5" by (simp add: less_mult_imp_div_less)
  moreover have "c div 64 < 0x20" if "c < 0x800" using that by (simp add: less_mult_imp_div_less)
  moreover have "c div 64 div 64 < 0x10" if "c < 0x10000" using that by (simp add: less_mult_imp_div_less)
  moreover have "n mod 64 < 64" for n :: nat by simp
  ultimately show ?thesis using c(2) by (force simp: utf8_char_def split: if_splits)
qed

lemma utf8_ascii: "list_all (\<lambda>c. c < 128) s \<Longrightarrow> utf8 s = s"
  by (induction s) (auto simp: utf8_def utf8_char_def)

lemma upper_hex_value: "n < 16 \<Longrightarrow> hex_value (upper_hex n) = Some n"
  by (simp add: hex_value_def upper_hex_def is_ascii_digit_def)

lemma upper_hex_char: "n < 16 \<Longrightarrow> is_ascii_alphanumeric (upper_hex n)"
  by (auto simp: upper_hex_def is_ascii_alphanumeric_def is_ascii_digit_def is_ascii_uppercase_def)

lemma form_byte_chars:
  assumes "b < 256" "c \<in> set (form_byte b)"
  shows "form_char c"
proof -
  have "b div 16 < 16" "b mod 16 < 16" using assms(1) by auto
  then have "is_ascii_alphanumeric (upper_hex (b div 16))" "is_ascii_alphanumeric (upper_hex (b mod 16))"
    using upper_hex_char by blast+
  then show ?thesis using assms(2) by (auto simp: form_byte_def form_char_def split: if_splits)
qed

lemma alphanumeric_bounds: "is_ascii_alphanumeric c \<Longrightarrow> 48 \<le> c \<and> c < 128 \<and> c \<noteq> 61"
  by (auto simp: is_ascii_alphanumeric_def is_ascii_digit_def is_ascii_lowercase_def is_ascii_uppercase_def)

lemma percent_decode_byte:
  assumes "b < 256"
  shows "percent_decode (replace_plus (form_byte b) @ s) = b # percent_decode s"
proof -
  have h: "b div 16 < 16" "b mod 16 < 16" "16 * (b div 16) + b mod 16 = b" using assms by auto
  have u: "upper_hex (b div 16) \<noteq> 43" "upper_hex (b mod 16) \<noteq> 43"
    using upper_hex_char [OF h(1)] upper_hex_char [OF h(2)] alphanumeric_bounds by fastforce+
  have "b \<noteq> 43 \<and> b \<noteq> 37" if "is_ascii_alphanumeric b \<or> b \<in> {42, 45, 46, 95}"
    using that alphanumeric_bounds by fastforce
  then show ?thesis
    using h u by (auto simp: form_byte_def replace_plus_def upper_hex_value hex_value_def [of 50] hex_value_def [of 48]
        is_ascii_digit_def)
qed

lemma replace_plus_append: "replace_plus (s @ t) = replace_plus s @ replace_plus t"
  by (simp add: replace_plus_def)

lemma percent_decode_serialize:
  "list_all (\<lambda>b. b < 256) bs \<Longrightarrow> percent_decode (replace_plus (concat (map form_byte bs))) = bs"
  by (induction bs) (auto simp: replace_plus_append percent_decode_byte replace_plus_def [of "[]"])

lemma form_serialize_chars:
  assumes "list_all scalar s"
  shows "list_all form_char (form_serialize s)"
  using utf8_bytes [OF assms] form_byte_chars by (fastforce simp: form_serialize_def list_all_iff)

lemma replace_plus_chars:
  assumes "list_all form_char t" "c \<in> set (replace_plus t)"
  shows "c < 128 \<and> c \<noteq> 38 \<and> c \<noteq> 61"
  using assms alphanumeric_bounds
  by (fastforce simp: replace_plus_def form_char_def list_all_iff split: if_splits)

lemma form_byte_size: "length (form_byte b) + 2 * count_list (form_byte b) 43 \<le> 3"
proof -
  have "n < 16 \<Longrightarrow> upper_hex n \<noteq> 43" for n using upper_hex_char alphanumeric_bounds by fastforce
  moreover have "upper_hex n \<noteq> 43" for n by (simp add: upper_hex_def)
  ultimately show ?thesis by (auto simp: form_byte_def)
qed

lemma form_bytes_size:
  "length (concat (map form_byte bs)) + 2 * count_list (concat (map form_byte bs)) 43 \<le> 3 * length bs"
proof (induction bs)
  case (Cons b bs)
  then show ?case using form_byte_size [of b] by simp
qed simp

interpretation url_standard: form_codec form_serialize form_parse_value
proof
  fix s :: rstr
  assume s: "list_all scalar s"
  show "list_all form_char (form_serialize s)" by (rule form_serialize_chars [OF s])
  show "length (form_serialize s) + 2 * count_list (form_serialize s) 43 \<le> 3 * str_len s"
    using form_bytes_size [of "utf8 s"] by (simp add: form_serialize_def utf8_length)
  let ?r = "replace_plus (form_serialize s)"
  have c: "c < 128 \<and> c \<noteq> 38 \<and> c \<noteq> 61" if "c \<in> set ?r" for c
    by (rule replace_plus_chars [OF form_serialize_chars [OF s] that])
  have "takeWhile (\<lambda>c. c \<noteq> 38) ?r = ?r"
    by (rule takeWhile_eq_all_conv [THEN iffD2]) (use c in auto)
  moreover have "utf8 ?r = ?r" by (rule utf8_ascii) (use c in \<open>auto simp: list_all_iff\<close>)
  moreover have "percent_decode ?r = utf8 s"
    unfolding form_serialize_def
    by (rule percent_decode_serialize) (use utf8_bytes [OF s] in \<open>auto simp: list_all_iff\<close>)
  ultimately show "form_parse_value (lit ''v='' @ ?r) = Some s"
    using utf8_decode_utf8 [OF s] by (simp add: form_parse_value_def del: takeWhile_eq_all_conv)
qed

section \<open>Properties\<close>

text \<open>
  C11. Citation identities round-trip: every valid identity has an encoding, which decodes to exactly
  that identity, and whatever decodes is the one encoding of what it decodes to.  So two identities
  never share an encoding and no identity has a second one.
\<close>

theorem citation_roundtrip:
  assumes "form_codec serialize parse_value" "citation_validate i = Ok ()" "rust_citation i"
  shows "\<exists>e. citation_encode serialize i = Ok e \<and> citation_decode serialize parse_value e = Ok i
    \<and> str_len e \<le> 2048
    \<and> (\<forall>e'. citation_decode serialize parse_value e' = Ok i \<longrightarrow> e' = e)"
proof -
  obtain e where e: "citation_encode serialize i = Ok e" using assms(2) by (auto simp: citation_encode_def)
  have "e' = e" if "citation_decode serialize parse_value e' = Ok i" for e'
    using decode_canonical [OF that] e by simp
  then show ?thesis
    using e form_codec.decode_encode [OF assms(1) e assms(3)] form_codec.encode_length [OF assms(1) e assms(3)]
    by blast
qed

text \<open>A locator with path, query, space, plus and percent characters and a Korean syllable.\<close>

definition sample_citation :: citation_id where
  "sample_citation =
     \<lparr>ci_object = \<lparr>o_jurisdiction = lit ''kr'', o_provider = lit ''fictional'', o_dataset = Precedent,
        o_id = lit ''0001''\<rparr>,
      ci_capture_id = replicate 64 97, ci_projection = ProjSection (lit ''../ /?#+%'' @ [0xC870])\<rparr>"

theorem citation_roundtrip_witness:
  "\<exists>e. citation_encode form_serialize sample_citation = Ok e
     \<and> citation_decode form_serialize form_parse_value e = Ok sample_citation"
proof -
  have "citation_validate sample_citation = Ok ()" "rust_citation sample_citation" by code_simp+
  from citation_roundtrip [OF url_standard.form_codec_axioms this] show ?thesis by blast
qed

end
