(* ===== verification/Citation_Service.thy ===== *)
theory Citation_Service
  imports Citation_Identity Legal_Database
begin

text \<open>
  The citation service: \<open>crates/application/src/citation.rs\<close>, with the hits and pages of
  \<open>crates/domain/src/legal_search.rs\<close>.

  The search backend, the lease store and the corpus store are behind traits: they are the fields
  of \<open>citation_service\<close>.  The functions of the \<open>url\<close> crate are the fields of \<open>url_library\<close>.  What
  the environment decides during one asynchronous call (cancellation, the clock, the first event of
  a race) is an argument of the operation.  \<open>Panicked\<close> is the outcome of stepping past the end of a
  text while looking for a character boundary.
\<close>

section \<open>Texts and ordered maps\<close>

text \<open>The loop that moves an offset up to the next character boundary.\<close>

definition ceil_boundary :: "rstr \<Rightarrow> nat \<Rightarrow> (nat, database_error fault) result" where
  "ceil_boundary s n =
     (case find (is_char_boundary s) [n..<Suc (str_len s)] of
        None \<Rightarrow> Err Panicked
      | Some m \<Rightarrow> Ok m)"

text \<open>\<open>BTreeMap::insert\<close> on the sorted list of entries.\<close>

fun btree_insert :: "'k::linorder \<Rightarrow> 'v \<Rightarrow> ('k \<times> 'v) list \<Rightarrow> ('k \<times> 'v) list" where
  "btree_insert k v [] = [(k, v)]"
| "btree_insert k v ((k', v') # m) =
     (if k = k' then (k, v) # m
      else if k < k' then (k, v) # (k', v') # m
      else (k', v') # btree_insert k v m)"

definition btree_insert_some :: "'k::linorder \<Rightarrow> 'v option \<Rightarrow> ('k \<times> 'v) list \<Rightarrow> ('k \<times> 'v) list" where
  "btree_insert_some k v m = (case v of None \<Rightarrow> m | Some x \<Rightarrow> btree_insert k x m)"

definition bool_str :: "bool \<Rightarrow> rstr" where
  "bool_str b = (if b then lit ''true'' else lit ''false'')"

section \<open>Hits and pages\<close>

record search_hit =
  sh_match_scope :: rstr
  sh_excerpt_section :: rstr
  sh_includes_ocr :: bool
  sh_object :: object_id
  sh_revision_id :: rstr
  sh_capture_id :: rstr
  sh_title :: rstr
  sh_section :: rstr
  sh_line :: nat
  sh_text :: rstr
  sh_byte_start :: nat
  sh_byte_end :: nat
  sh_derived_ocr :: bool

record corpus_search_page =
  sp_schema_version :: nat
  sp_hits :: "search_hit list"
  sp_next_cursor :: "rstr option"
  sp_generation :: nat
  sp_corpus_complete :: bool
  sp_scanned_bytes :: nat
  sp_analyzer_version :: rstr
  sp_index_lag :: nat
  sp_collection_notices :: "collection_notice list"

section \<open>What the service answers\<close>

record citation_search_result =
  csr_id :: rstr
  csr_title :: rstr
  csr_url :: rstr

record citation_search =
  csx_results :: "citation_search_result list"
  csx_partial :: bool
  csx_warnings :: "rstr list"

record citation_document =
  cd_id :: rstr
  cd_title :: rstr
  cd_text :: rstr
  cd_url :: rstr
  cd_metadata :: metadata

record citation_descriptor =
  cx_id :: rstr
  cx_uri :: rstr
  cx_url :: rstr
  cx_title :: rstr
  cx_body_available :: "bool option"
  cx_official_url :: "rstr option"

record citation_source =
  co_descriptor :: citation_descriptor
  co_metadata :: metadata_result
  co_document :: "citation_document option"
  co_previous :: "citation_descriptor option"
  co_next :: "citation_descriptor option"
  co_unavailable :: bool

section \<open>Projecting a capture\<close>

definition exact_request :: "object_id \<Rightarrow> rstr \<Rightarrow> get_request" where
  "exact_request ob capture =
     \<lparr>gr_object = ob, gr_selector = CaptureId capture, gr_fresh_only = False\<rparr>"

definition projection_title :: "rstr \<Rightarrow> citation_projection \<Rightarrow> rstr" where
  "projection_title title p =
     (case p of
        ProjDocument \<Rightarrow> title
      | ProjMetadata \<Rightarrow> title
      | ProjSection s \<Rightarrow> title @ lit '' ['' @ s @ lit '']''
      | ProjPassage s start stop \<Rightarrow>
          title @ lit '' ['' @ s @ lit '', bytes '' @ nat_str start @ [0x2013] @ nat_str stop @ lit '']'')"

definition section_text :: "capture \<Rightarrow> rstr \<Rightarrow> (rstr, database_error) result" where
  "section_text c s =
     (let r = c_record c in
      if s = lit ''body'' then Ok (lr_body r)
      else if s = lit ''title'' then Ok (lr_title r)
      else if s = lit ''case_number'' then
        ok_or (map_of (lr_metadata r) (lit ''case_number'')) DENotFound
      else
        ok_or (map_option ls_text (find (\<lambda>x. ls_id x = s) (lr_sections r))) DENotFound)"

definition project_text :: "capture \<Rightarrow> citation_id \<Rightarrow> (rstr, database_error) result" where
  "project_text c i =
     and_then (citation_validate i) (\<lambda>_.
       if lr_object (c_record c) \<noteq> ci_object i \<or> c_capture_id c \<noteq> ci_capture_id i
       then Err DERevisionUnavailable
       else
         and_then
           (case ci_projection i of
              ProjDocument \<Rightarrow> Ok (lr_body (c_record c))
            | ProjMetadata \<Rightarrow> Err DERevisionUnavailable
            | ProjSection s \<Rightarrow> section_text c s
            | ProjPassage s start stop \<Rightarrow>
                and_then (section_text c s) (\<lambda>t. ok_or (slice t start stop) DEInvalidInput))
           (\<lambda>t. if MAX_CITATION_TEXT_BYTES < str_len t then Err DECapacity else Ok t))"

section \<open>Citing a hit\<close>

text \<open>
  The article that supports a hit: its text occurs once in the body (\<open>match_indices\<close> yields disjoint
  occurrences) and covers the whole excerpt.
\<close>

definition article_candidate :: "legal_section \<Rightarrow> bool" where
  "article_candidate s \<longleftrightarrow>
     ls_kind s = ProviderText \<and> starts_with (ls_id s) (lit ''article:'')
     \<and> ls_text s \<noteq> [] \<and> str_len (ls_text s) \<le> MAX_CITATION_TEXT_BYTES"

definition article_covers :: "rstr \<Rightarrow> search_hit \<Rightarrow> legal_section \<Rightarrow> bool" where
  "article_covers body hit s =
     (case split_once (ls_text s) body of
        None \<Rightarrow> False
      | Some (a, b) \<Rightarrow>
          split_once (ls_text s) b = None
          \<and> str_len a \<le> sh_byte_start hit
          \<and> sh_byte_end hit \<le> str_len a + str_len (ls_text s))"

definition supporting_article :: "capture \<Rightarrow> rstr \<Rightarrow> search_hit \<Rightarrow> legal_section option" where
  "supporting_article c t hit =
     (if sh_excerpt_section hit = lit ''body''
      then find (article_covers t hit) (filter article_candidate (lr_sections (c_record c)))
      else None)"

text \<open>The bounded passage around an excerpt.\<close>

definition passage_around ::
  "rstr \<Rightarrow> search_hit \<Rightarrow> (citation_projection, database_error fault) result" where
  "passage_around t hit =
     (let excerpt_bytes = sh_byte_end hit - sh_byte_start hit in
      if MAX_CITATION_TEXT_BYTES < excerpt_bytes then Err (Raised DECapacity)
      else
        let leading_context = (MAX_CITATION_TEXT_BYTES - excerpt_bytes) div 2 in
        and_then (ceil_boundary t (sh_byte_start hit - leading_context)) (\<lambda>start.
          Ok (ProjPassage (sh_excerpt_section hit) start
               (floor_boundary t
                  (min (saturating_add start MAX_CITATION_TEXT_BYTES) (str_len t))))))"

definition hit_projection ::
  "capture \<Rightarrow> rstr \<Rightarrow> search_hit \<Rightarrow> (citation_projection, database_error fault) result" where
  "hit_projection c t hit =
     (if str_len (lr_body (c_record c)) \<le> MAX_CITATION_TEXT_BYTES \<and> \<not> sh_includes_ocr hit
         \<and> sh_excerpt_section hit = lit ''body''
      then Ok ProjDocument
      else if str_len t \<le> MAX_CITATION_TEXT_BYTES then Ok (ProjSection (sh_excerpt_section hit))
      else
        (case supporting_article c t hit of
           Some article \<Rightarrow> Ok (ProjSection (ls_id article))
         | None \<Rightarrow> passage_around t hit))"

definition projection_for_hit ::
  "capture \<Rightarrow> search_hit \<Rightarrow> (citation_id, database_error fault) result" where
  "projection_for_hit c hit =
     (if lr_object (c_record c) \<noteq> sh_object hit \<or> c_capture_id c \<noteq> sh_capture_id hit
         \<or> lr_revision_id (c_record c) \<noteq> sh_revision_id hit
      then Err (Raised DERevisionUnavailable)
      else
        and_then (raising (section_text c (sh_excerpt_section hit))) (\<lambda>t.
          if sh_byte_end hit \<le> sh_byte_start hit
             \<or> slice t (sh_byte_start hit) (sh_byte_end hit) \<noteq> Some (sh_text hit)
          then Err (Raised DEInvalidInput)
          else
            and_then (hit_projection c t hit) (\<lambda>projection.
              let i = \<lparr>ci_object = sh_object hit, ci_capture_id = sh_capture_id hit,
                       ci_projection = projection\<rparr> in
              and_then (raising (citation_validate i)) (\<lambda>_. Ok i))))"

section \<open>Passages\<close>

lemma floor_boundary_gap: "n \<le> str_len s \<Longrightarrow> n < floor_boundary s n + 4"
proof (induction s arbitrary: n)
  case (Cons c s)
  have c: "len_utf8 c \<le> 4" by (simp add: len_utf8_def)
  show ?case
  proof (cases "n < len_utf8 c")
    case False
    then have "n - len_utf8 c \<le> str_len s" using Cons.prems by simp
    then have ih: "n - len_utf8 c < floor_boundary s (n - len_utf8 c) + 4" by (rule Cons.IH)
    let ?f = "floor_boundary s (n - len_utf8 c)"
    obtain a b where "s = a @ b" "str_len a = ?f" using floor_boundary_ok char_boundary_iff by metis
    then have "is_char_boundary (c # s) (len_utf8 c + ?f)"
      by (auto simp: char_boundary_iff intro: exI [of _ "c # a"])
    moreover have "len_utf8 c + ?f \<le> n" using False floor_boundary_le [of s "n - len_utf8 c"] by simp
    ultimately have "len_utf8 c + ?f \<le> floor_boundary (c # s) n" by (rule floor_boundary_greatest)
    then show ?thesis using ih False by simp
  qed (use c in simp)
qed simp

lemma floor_boundary_same [simp]: "is_char_boundary s n \<Longrightarrow> floor_boundary s n = n"
  by (cases n) auto

definition passage_end :: "rstr \<Rightarrow> nat \<Rightarrow> nat" where
  "passage_end t start = floor_boundary t (min (start + MAX_CITATION_TEXT_BYTES) (str_len t))"

lemma passage_end_progress: "start < str_len t \<Longrightarrow> start < passage_end t start"
  using floor_boundary_gap [of "min (start + MAX_CITATION_TEXT_BYTES) (str_len t)" t]
  by (auto simp: passage_end_def MAX_CITATION_TEXT_BYTES_def min_def split: if_splits)

text \<open>The loop, from the byte \<open>start\<close> of the slice on.\<close>

function passages_from ::
  "object_id \<Rightarrow> rstr \<Rightarrow> rstr \<Rightarrow> rstr \<Rightarrow> nat \<Rightarrow> nat \<Rightarrow> (citation_id list, database_error) result" where
  "passages_from ob capture s t offset start =
     (if start < str_len t then
        let stop = passage_end t start in
        and_then (ok_or (checked_add offset start) DEInvalidInput) (\<lambda>a.
        and_then (ok_or (checked_add offset stop) DEInvalidInput) (\<lambda>b.
          let i = \<lparr>ci_object = ob, ci_capture_id = capture, ci_projection = ProjPassage s a b\<rparr> in
          and_then (citation_validate i) (\<lambda>_.
          and_then (passages_from ob capture s t offset stop) (\<lambda>rest. Ok (i # rest)))))
      else Ok [])"
  by pat_completeness auto

termination
  by (relation "measure (\<lambda>(ob, capture, s, t, offset, start). str_len t - start)")
    (auto simp: diff_less_mono2 passage_end_progress)

declare passages_from.simps [simp del]

definition passage_ids ::
  "object_id \<Rightarrow> rstr \<Rightarrow> rstr \<Rightarrow> rstr \<Rightarrow> nat \<Rightarrow> (citation_id list, database_error) result" where
  "passage_ids ob capture s t offset = passages_from ob capture s t offset 0"

definition adjacent_ids ::
  "capture \<Rightarrow> citation_id \<Rightarrow> (citation_id option \<times> citation_id option, database_error fault) result" where
  "adjacent_ids c i =
     (case ci_projection i of
        ProjPassage s start stop \<Rightarrow>
          and_then (raising (section_text c s)) (\<lambda>t.
          and_then
            (if 0 < start then
               and_then (ceil_boundary t (start - MAX_CITATION_TEXT_BYTES)) (\<lambda>before.
                 Ok (Some (i\<lparr>ci_projection := ProjPassage s before start\<rparr>)))
             else Ok None) (\<lambda>previous.
          Ok (previous,
            if stop < str_len t
            then Some (i\<lparr>ci_projection := ProjPassage s stop
              (floor_boundary t (min (saturating_add stop MAX_CITATION_TEXT_BYTES) (str_len t)))\<rparr>)
            else None)))
      | _ \<Rightarrow> Ok (None, None))"

section \<open>The service\<close>

record url_library =
  ul_serialize :: "rstr \<Rightarrow> rstr"
  ul_parse_value :: "rstr \<Rightarrow> rstr option"
  ul_parse_base :: "rstr \<Rightarrow> base_url_parts option"
  ul_as_str :: "base_url_parts \<Rightarrow> rstr"
  ul_set_path :: "base_url_parts \<Rightarrow> rstr \<Rightarrow> rstr"
  ul_query_url :: "rstr \<Rightarrow> (rstr \<times> rstr) list \<Rightarrow> rstr option"

record citation_service =
  cs_store :: database_store
  cs_search :: "search_request \<Rightarrow> search_budget \<Rightarrow> corpus_search_page search_event"
  cs_renew :: "(object_id \<times> rstr) list \<Rightarrow> nat \<Rightarrow> (unit, database_error) result"
  cs_base_url :: rstr

definition CITATION_LEASE_SECONDS :: nat where
  "CITATION_LEASE_SECONDS = 600"

definition MAX_CITATION_LEASES :: nat where
  "MAX_CITATION_LEASES = 2048"

definition trim_end_matches :: "rchar \<Rightarrow> rstr \<Rightarrow> rstr" where
  "trim_end_matches c s = rev (dropWhile (\<lambda>d. d = c) (rev s))"

definition citation_service_new ::
  "url_library \<Rightarrow> database_store \<Rightarrow> (search_request \<Rightarrow> search_budget \<Rightarrow> corpus_search_page search_event) \<Rightarrow>
   ((object_id \<times> rstr) list \<Rightarrow> nat \<Rightarrow> (unit, database_error) result) \<Rightarrow> rstr \<Rightarrow>
   (citation_service, database_error) result" where
  "citation_service_new U store search renew base =
     and_then (reference_base (ul_parse_base U) base) (\<lambda>url.
       Ok \<lparr>cs_store = store, cs_search = search, cs_renew = renew,
           cs_base_url = trim_end_matches 47 (ul_as_str U url)\<rparr>)"

definition original_url :: "citation_service \<Rightarrow> rstr \<Rightarrow> nat \<Rightarrow> (rstr, database_error) result" where
  "original_url S capture_id ordinal =
     (if \<not> valid_snapshot_id capture_id then Err DEInvalidInput
      else
        Ok (cs_base_url S @ lit ''/source-file/'' @ capture_id @ lit ''/'' @ nat_str ordinal))"

definition service_original_evidence ::
  "citation_service \<Rightarrow> bool \<Rightarrow> rstr \<Rightarrow> nat \<Rightarrow> (original_evidence, database_error) result" where
  "service_original_evidence S cancelled capture_id ordinal =
     database_original_evidence (cs_store S) cancelled capture_id ordinal"

definition service_reference_url ::
  "url_library \<Rightarrow> citation_service \<Rightarrow> citation_id \<Rightarrow> (rstr, database_error) result" where
  "service_reference_url U S i =
     reference_url (ul_serialize U) (ul_parse_base U) (ul_set_path U) i (cs_base_url S)"

definition descriptor ::
  "url_library \<Rightarrow> citation_service \<Rightarrow> citation_id \<Rightarrow> rstr \<Rightarrow> bool option \<Rightarrow> rstr option \<Rightarrow>
     (citation_descriptor, database_error) result" where
  "descriptor U S i title body_available official =
     and_then (citation_encode (ul_serialize U) i) (\<lambda>e.
     and_then (resource_uri (ul_serialize U) i) (\<lambda>uri.
     and_then (service_reference_url U S i) (\<lambda>url.
       Ok \<lparr>cx_id = e, cx_uri = uri, cx_url = url, cx_title = title,
           cx_body_available = body_available, cx_official_url = official\<rparr>)))"

section \<open>Documents\<close>

text \<open>The entries every document has.\<close>

definition provenance_entries :: "citation_id \<Rightarrow> capture \<Rightarrow> (rstr \<times> rstr) list" where
  "provenance_entries i c =
     [(lit ''jurisdiction'', o_jurisdiction (ci_object i)),
      (lit ''provider'', o_provider (ci_object i)),
      (lit ''dataset'', as_str (o_dataset (ci_object i))),
      (lit ''object_id'', o_id (ci_object i)),
      (lit ''revision_id'', lr_revision_id (c_record c)),
      (lit ''capture_id'', c_capture_id c),
      (lit ''retrieved_at'', nat_str (c_retrieved_at c)),
      (lit ''captured_at'', nat_str (c_captured_at c)),
      (lit ''validated_at'', nat_str (c_validated_at c)),
      (lit ''processor_version'', c_processor_version c),
      (lit ''raw_sha256'', c_raw_sha256 c),
      (lit ''representation'', lr_representation (c_record c)),
      (lit ''source_reference'', lr_source_url (c_record c))]"

text \<open>Entries copied from the record, in the order the code inserts them.\<close>

definition record_entries :: "capture \<Rightarrow> (rstr \<times> rstr option) list" where
  "record_entries c =
     (let r = c_record c; get = map_of (lr_metadata r);
          bounded = (\<lambda>k. case get k of None \<Rightarrow> None
                         | Some v \<Rightarrow> if str_len v \<le> 1024 then Some v else None) in
      [(lit ''publication_date'', lr_publication_date r), (lit ''effective_date'', lr_effective_date r)]
      @ map (\<lambda>k. (k, get k)) [lit ''original_resources'', lit ''source_rights'', lit ''rights_warnings'']
      @ map (\<lambda>k. (k, bounded k))
          [lit ''case_number'', lit ''authority'', lit ''court'', lit ''judgment_date'',
           lit ''attachment_status'', lit ''transport_credentials_redacted'',
           lit ''section_locator_semantics''])"

definition projection_section :: "citation_projection \<Rightarrow> rstr option" where
  "projection_section p =
     (case p of ProjSection s \<Rightarrow> Some s | ProjPassage s _ _ \<Rightarrow> Some s | _ \<Rightarrow> None)"

primrec kind_str :: "section_kind \<Rightarrow> rstr" where
  "kind_str ProviderText = lit ''provider_text''"
| "kind_str Extracted = lit ''extracted''"
| "kind_str Ocr = lit ''ocr''"

definition section_entries :: "capture \<Rightarrow> rstr \<Rightarrow> (rstr \<times> rstr option) list" where
  "section_entries c s =
     (lit ''section'', Some s) #
     (case find (\<lambda>x. ls_id x = s) (lr_sections (c_record c)) of
        Some unit \<Rightarrow>
          [(lit ''section_kind'', Some (kind_str (ls_kind unit))),
           (lit ''derived_ocr'', Some (bool_str (ls_kind unit = Ocr))),
           (lit ''source_document_sha256'', ls_source_document_sha256 unit),
           (lit ''page'', map_option nat_str (ls_page unit))]
      | None \<Rightarrow>
          if s \<noteq> lit ''body'' then [(lit ''section_kind'', Some (lit ''provider_projection''))] else [])"

definition mixed_qualification :: rstr where
  "mixed_qualification = lit ''This normalized body unit contains text also retained in extracted or OCR sections; it must not be represented as wholly original provider text.''"

definition projection_qualification :: rstr where
  "projection_qualification = lit ''This body unit is a normalized projection. Its representation and capture sections retain technical provenance; absence of a matching complete derived section does not establish wholly original provider text.''"

definition body_entries :: "capture \<Rightarrow> rstr \<Rightarrow> (rstr \<times> rstr option) list" where
  "body_entries c t =
     (let held = filter (\<lambda>x. ls_text x \<noteq> [] \<and> contains t (ls_text x)) (lr_sections (c_record c));
          extracted = list_ex (\<lambda>x. ls_kind x = Extracted) held;
          ocr = list_ex (\<lambda>x. ls_kind x = Ocr) held in
      [(lit ''section_kind'',
          Some (if extracted \<or> ocr then lit ''mixed'' else lit ''provider_projection'')),
       (lit ''derived_ocr'', Some (bool_str ocr)),
       (lit ''includes_extracted'', Some (bool_str extracted)),
       (lit ''text_qualification'',
          Some (if extracted \<or> ocr then mixed_qualification else projection_qualification))])"

definition offset_entries :: "citation_projection \<Rightarrow> (rstr \<times> rstr option) list" where
  "offset_entries p =
     (case p of
        ProjPassage _ start stop \<Rightarrow>
          [(lit ''byte_start'', Some (nat_str start)), (lit ''byte_end'', Some (nat_str stop))]
      | _ \<Rightarrow> [])"

definition document_metadata ::
  "url_library \<Rightarrow> citation_id \<Rightarrow> capture \<Rightarrow> rstr \<Rightarrow> metadata" where
  "document_metadata U i c t =
     (let section = projection_section (ci_projection i) in
      fold (\<lambda>(k, v). btree_insert_some k v)
        (map (\<lambda>(k, v). (k, Some v)) (provenance_entries i c)
         @ [(lit ''official_browser_url'',
              official_browser_url (ul_query_url U) (metadata_of \<lparr>g_capture = c, g_freshness = None\<rparr>))]
         @ record_entries c
         @ (case section of None \<Rightarrow> [] | Some s \<Rightarrow> section_entries c s)
         @ (if section = None \<or> section = Some (lit ''body'') then body_entries c t else [])
         @ offset_entries (ci_projection i))
        [])"

definition document ::
  "url_library \<Rightarrow> citation_service \<Rightarrow> citation_id \<Rightarrow> capture \<Rightarrow> (citation_document, database_error) result" where
  "document U S i c =
     and_then (project_text c i) (\<lambda>t.
     and_then (citation_encode (ul_serialize U) i) (\<lambda>e.
     and_then (service_reference_url U S i) (\<lambda>url.
       Ok \<lparr>cd_id = e, cd_title = projection_title (lr_title (c_record c)) (ci_projection i),
           cd_text = t, cd_url = url, cd_metadata = document_metadata U i c t\<rparr>)))"

section \<open>Reading citations\<close>

text \<open>What the environment answers while a citation is read.\<close>

record citation_times =
  cit_metadata :: call_times
  cit_cancelled :: bool
  cit_now :: nat
  cit_get :: call_times

definition citation_resolve ::
  "citation_service \<Rightarrow> citation_times \<Rightarrow> citation_id \<Rightarrow> (get_result, database_error) result" where
  "citation_resolve S T i =
     and_then (citation_validate i) (\<lambda>_.
       if cit_cancelled T then Err DECancelled
       else
         and_then (cs_renew S [(ci_object i, ci_capture_id i)] (cit_now T)) (\<lambda>_.
           database_get (cs_store S) (cit_get T) (exact_request (ci_object i) (ci_capture_id i))))"

definition citation_fetch ::
  "url_library \<Rightarrow> citation_service \<Rightarrow> citation_times \<Rightarrow> rstr \<Rightarrow> (citation_document, database_error) result" where
  "citation_fetch U S T encoded =
     and_then (citation_decode (ul_serialize U) (ul_parse_value U) encoded) (\<lambda>i.
       if ci_projection i = ProjMetadata then Err DERevisionUnavailable
       else and_then (citation_resolve S T i) (\<lambda>result. document U S i (g_capture result)))"

definition citation_metadata ::
  "citation_service \<Rightarrow> citation_times \<Rightarrow> citation_id \<Rightarrow> (metadata_result, database_error) result" where
  "citation_metadata S T i =
     database_get_metadata (cs_store S) (cit_metadata T) (exact_request (ci_object i) (ci_capture_id i))"

definition citation_describe ::
  "url_library \<Rightarrow> citation_service \<Rightarrow> citation_times \<Rightarrow> rstr \<Rightarrow> (citation_descriptor, database_error) result" where
  "citation_describe U S T encoded =
     and_then (citation_decode (ul_serialize U) (ul_parse_value U) encoded) (\<lambda>i.
     and_then (citation_metadata S T i) (\<lambda>m.
       descriptor U S i (projection_title (mr_title m) (ci_projection i)) None
         (official_browser_url (ul_query_url U) m)))"

text \<open>The answers without text: a metadata citation, and one whose text is no longer retained.\<close>

definition textless_source ::
  "url_library \<Rightarrow> citation_service \<Rightarrow> citation_id \<Rightarrow> metadata_result \<Rightarrow> bool option \<Rightarrow> bool \<Rightarrow>
     (citation_source, database_error fault) result" where
  "textless_source U S i m body_available unavailable =
     and_then
       (raising (descriptor U S i (mr_title m) body_available
          (official_browser_url (ul_query_url U) m))) (\<lambda>d.
       Ok \<lparr>co_descriptor = d, co_metadata = m, co_document = None, co_previous = None,
           co_next = None, co_unavailable = unavailable\<rparr>)"

definition describe_neighbour ::
  "url_library \<Rightarrow> citation_service \<Rightarrow> metadata_result \<Rightarrow> citation_id option \<Rightarrow>
     (citation_descriptor option, database_error fault) result" where
  "describe_neighbour U S m other =
     (case other of
        None \<Rightarrow> Ok None
      | Some i \<Rightarrow>
          and_then
            (raising (descriptor U S i (projection_title (mr_title m) (ci_projection i)) (Some True)
               (official_browser_url (ul_query_url U) m))) (\<lambda>d. Ok (Some d)))"

definition citation_source_of ::
  "url_library \<Rightarrow> citation_service \<Rightarrow> citation_times \<Rightarrow> rstr \<Rightarrow>
     (citation_source, database_error fault) result" where
  "citation_source_of U S T encoded =
     and_then (raising (citation_decode (ul_serialize U) (ul_parse_value U) encoded)) (\<lambda>i.
     and_then (raising (citation_metadata S T i)) (\<lambda>m.
       if ci_projection i = ProjMetadata then textless_source U S i m None False
       else
         (case citation_resolve S T i of
            Inl DERevisionUnavailable \<Rightarrow> textless_source U S i m (Some False) True
          | Inl error \<Rightarrow> Err (Raised error)
          | Inr resolved \<Rightarrow>
              and_then (raising (document U S i (g_capture resolved))) (\<lambda>doc.
              and_then
                (raising (descriptor U S i (cd_title doc) (Some True)
                   (official_browser_url (ul_query_url U) m))) (\<lambda>d.
              and_then (adjacent_ids (g_capture resolved) i) (\<lambda>(previous, following).
              and_then (describe_neighbour U S m previous) (\<lambda>p.
              and_then (describe_neighbour U S m following) (\<lambda>n.
                Ok \<lparr>co_descriptor = d, co_metadata = m, co_document = Some doc, co_previous = p,
                    co_next = n, co_unavailable = False\<rparr>))))))))"

text \<open>The unit a browser page opens.\<close>

definition first_unit :: "rstr \<Rightarrow> citation_projection" where
  "first_unit body =
     (if str_len body \<le> MAX_CITATION_TEXT_BYTES then ProjDocument
      else ProjPassage (lit ''body'') 0 (floor_boundary body MAX_CITATION_TEXT_BYTES))"

definition citation_page ::
  "url_library \<Rightarrow> citation_service \<Rightarrow> citation_times \<Rightarrow> rstr \<Rightarrow>
     (citation_source, database_error fault) result" where
  "citation_page U S T encoded =
     and_then (raising (citation_decode (ul_serialize U) (ul_parse_value U) encoded)) (\<lambda>i.
       if \<not> (ci_projection i = ProjMetadata \<or> ci_projection i = ProjDocument)
       then citation_source_of U S T encoded
       else
         and_then (raising (citation_metadata S T i)) (\<lambda>m.
           (case citation_resolve S T i of
              Inl DERevisionUnavailable \<Rightarrow> textless_source U S i m (Some False) True
            | Inl error \<Rightarrow> Err (Raised error)
            | Inr resolved \<Rightarrow>
                let unit = i\<lparr>ci_projection := first_unit (lr_body (c_record (g_capture resolved)))\<rparr> in
                and_then (raising (document U S unit (g_capture resolved))) (\<lambda>doc.
                and_then
                  (raising (descriptor U S i (mr_title m) (Some True)
                     (official_browser_url (ul_query_url U) m))) (\<lambda>d.
                and_then (adjacent_ids (g_capture resolved) unit) (\<lambda>(_, following).
                and_then (describe_neighbour U S m following) (\<lambda>n.
                  Ok \<lparr>co_descriptor = d, co_metadata = m, co_document = Some doc, co_previous = None,
                      co_next = n, co_unavailable = False\<rparr>)))))))"

section \<open>Searching for citations\<close>

definition citation_request :: "rstr \<Rightarrow> search_request" where
  "citation_request query =
     \<lparr>s_query = query,
      s_filters = \<lparr>f_datasets = [], f_authority = None, f_object_id = None, f_document_type = None,
                   f_date_kind = None, f_date_from = None, f_date_to = None\<rparr>,
      s_include_history = False, s_include_ocr = False, s_sections = [],
      s_limit = MAX_CITATION_SEARCH_RESULTS, s_cursor = None, s_literal = False,
      s_ignore_case = False, s_context_lines = 0\<rparr>"

text \<open>The loop over the hits; the k-th read sees \<open>clock k\<close>.\<close>

definition cite_hit ::
  "url_parser \<Rightarrow> resource_decoder \<Rightarrow> url_library \<Rightarrow> citation_service \<Rightarrow> call_times \<Rightarrow> search_hit \<Rightarrow>
     (rstr list \<times> citation_search_result, database_error fault) result" where
  "cite_hit parse_url from_json U S t hit =
     and_then
       (raising (database_get (cs_store S) t (exact_request (sh_object hit) (sh_capture_id hit))))
       (\<lambda>result.
     and_then (projection_for_hit (g_capture result) hit) (\<lambda>i.
     and_then (raising (project_text (g_capture result) i)) (\<lambda>txt.
       if MAX_CITATION_TEXT_BYTES < str_len txt then Err (Raised DECapacity)
       else
         and_then (raising (citation_encode (ul_serialize U) i)) (\<lambda>e.
         and_then (raising (service_reference_url U S i)) (\<lambda>url.
           Ok (warnings parse_url from_json (lr_metadata (c_record (g_capture result))),
               \<lparr>csr_id = e,
                csr_title = projection_title (lr_title (c_record (g_capture result))) (ci_projection i),
                csr_url = url\<rparr>))))))"

primrec cite_hits ::
  "url_parser \<Rightarrow> resource_decoder \<Rightarrow> url_library \<Rightarrow> citation_service \<Rightarrow> (nat \<Rightarrow> call_times) \<Rightarrow> nat \<Rightarrow>
     search_hit list \<Rightarrow> (rstr list \<times> citation_search_result list, database_error fault) result" where
  "cite_hits parse_url from_json U S clock k [] = Ok ([], [])"
| "cite_hits parse_url from_json U S clock k (hit # hits) =
     and_then (cite_hit parse_url from_json U S (clock k) hit) (\<lambda>(w, r).
     and_then (cite_hits parse_url from_json U S clock (Suc k) hits) (\<lambda>(ws, rs).
       Ok (w @ ws, r # rs)))"

definition page_warnings :: "corpus_search_page \<Rightarrow> rstr list" where
  "page_warnings page =
     (if \<not> sp_corpus_complete page
      then [lit ''The retained corpus is incomplete; absence of a match does not establish absence of law or decisions.'']
      else [])
     @ (if sp_next_cursor page \<noteq> None
        then [lit ''The bounded search stopped before scanning every candidate; refine the query to find additional matches.'']
        else [])
     @ (if 0 < sp_index_lag page
        then [lit ''The search index has not yet processed every retained corpus update.'']
        else [])
     @ (if sp_collection_notices page \<noteq> []
        then [lit ''Some source collection or processing is incomplete.'']
        else [])"

definition rights_warning :: "rstr \<Rightarrow> rstr" where
  "rights_warning w =
     lit ''Source reuse condition: '' @ w @ lit ''. Consult the source rights and attribution.''"

definition citation_search_inner ::
  "url_parser \<Rightarrow> resource_decoder \<Rightarrow> url_library \<Rightarrow> citation_service \<Rightarrow> (nat \<Rightarrow> call_times) \<Rightarrow>
     rstr \<Rightarrow> nat \<Rightarrow> nat \<Rightarrow> nat \<Rightarrow> (citation_search, database_error fault) result" where
  "citation_search_inner parse_url from_json U S clock query deadline now free =
     (let request = citation_request query in
      and_then (raising (search_citable_admit request deadline now free)) (\<lambda>(budget, _).
      and_then (raising (search_outcome (cs_search S request budget))) (\<lambda>page.
        if MAX_CITATION_SEARCH_RESULTS < length (sp_hits page) then Err (Raised DEStorageCorrupt)
        else
          and_then (cite_hits parse_url from_json U S clock 0 (sp_hits page)) (\<lambda>(ws, rs).
            Ok \<lparr>csx_results = rs, csx_partial = (page_warnings page \<noteq> []),
                csx_warnings = page_warnings page @ map rights_warning (sort (remdups ws))\<rparr>))))"

text \<open>The race of the whole search with its caller and with ten seconds.\<close>

datatype citation_race =
    RaceCancelled
  | RaceDeadline
  | RaceFinished

definition citation_search_of ::
  "url_parser \<Rightarrow> resource_decoder \<Rightarrow> url_library \<Rightarrow> citation_service \<Rightarrow> (nat \<Rightarrow> call_times) \<Rightarrow>
     citation_race \<Rightarrow> rstr \<Rightarrow> nat \<Rightarrow> nat \<Rightarrow> nat \<Rightarrow> (citation_search, database_error fault) result" where
  "citation_search_of parse_url from_json U S clock race query deadline now free =
     (case race of
        RaceCancelled \<Rightarrow> Err (Raised DECancelled)
      | RaceDeadline \<Rightarrow> Err (Raised DECapacity)
      | RaceFinished \<Rightarrow>
          citation_search_inner parse_url from_json U S clock query (min deadline (now + 10)) now free)"

end
