(* ===== verification/Citation_Properties.thy ===== *)
theory Citation_Properties
  imports Citation_Service
begin

text \<open>
  What citations promise: the identity made for a hit projects to a bounded text that holds the whole
  excerpt, passages tile their text and know their neighbours, and a fetch returns exactly the cited
  text of the cited capture under a renewed lease.
\<close>

section \<open>Character boundaries\<close>

lemma ceil_boundary_below:
  assumes "is_char_boundary s m" "n \<le> m"
  obtains k where "ceil_boundary s n = Ok k" "n \<le> k" "k \<le> m" "is_char_boundary s k"
proof -
  let ?xs = "[n..<Suc (str_len s)]"
  have m: "m \<in> set ?xs" using assms char_boundary_le by force
  then obtain k where k: "find (is_char_boundary s) ?xs = Some k"
    using assms(1) by (cases "find (is_char_boundary s) ?xs") (auto simp: find_None_iff)
  then obtain j where j: "j < length ?xs" "k = ?xs ! j" "is_char_boundary s k"
      "\<forall>j'<j. \<not> is_char_boundary s (?xs ! j')"
    unfolding find_Some_iff by auto
  have "\<not> m < k"
  proof
    assume "m < k"
    then have "m - n < j" "?xs ! (m - n) = m" using j(1,2) assms(2) by (auto simp del: upt_Suc)
    with j(4) assms(1) show False by metis
  qed
  moreover have "n \<le> k" using j(1,2) by (simp del: upt_Suc)
  ultimately show thesis using that k j(3) by (simp add: ceil_boundary_def)
qed

section \<open>The identity of a hit\<close>

lemma find_distinct: "distinct (map f xs) \<Longrightarrow> x \<in> set xs \<Longrightarrow> find (\<lambda>y. f y = f x) xs = Some x"
  by (induction xs) force+

lemma section_text_article:
  assumes "distinct (map ls_id (lr_sections (c_record c)))" "x \<in> set (lr_sections (c_record c))"
    "starts_with (ls_id x) (lit ''article:'')"
  shows "section_text c (ls_id x) = Ok (ls_text x)"
proof -
  have "ls_id x \<noteq> lit ''body''" "ls_id x \<noteq> lit ''title''" "ls_id x \<noteq> lit ''case_number''"
    using assms(3) by (auto simp: starts_with_iff)
  then show ?thesis
    using find_distinct [OF assms(1,2)] by (simp add: section_text_def del: lit_simps)
qed

text \<open>A projection supports an excerpt when it selects a bounded text around it.\<close>

definition selected_text :: "capture \<Rightarrow> citation_projection \<Rightarrow> (rstr, database_error) result" where
  "selected_text c p =
     (case p of
        ProjDocument \<Rightarrow> Ok (lr_body (c_record c))
      | ProjMetadata \<Rightarrow> Err DERevisionUnavailable
      | ProjSection s \<Rightarrow> section_text c s
      | ProjPassage s start stop \<Rightarrow>
          and_then (section_text c s) (\<lambda>t. ok_or (slice t start stop) DEInvalidInput))"

lemma project_text_Ok:
  "project_text c i = Ok t \<longleftrightarrow>
     citation_validate i = Ok () \<and> lr_object (c_record c) = ci_object i
     \<and> c_capture_id c = ci_capture_id i \<and> selected_text c (ci_projection i) = Ok t
     \<and> str_len t \<le> MAX_CITATION_TEXT_BYTES"
  by (auto simp: project_text_def selected_text_def result_simps simp del: citation_validate_Ok)

lemma article_supports:
  assumes "distinct (map ls_id (lr_sections (c_record c)))"
    "supporting_article c t hit = Some x" "slice t (sh_byte_start hit) (sh_byte_end hit) = Some e"
  shows "section_text c (ls_id x) = Ok (ls_text x) \<and> str_len (ls_text x) \<le> MAX_CITATION_TEXT_BYTES
    \<and> (\<exists>a b. ls_text x = a @ e @ b)"
proof -
  have f: "find (article_covers t hit) (filter article_candidate (lr_sections (c_record c))) = Some x"
    using assms(2) by (simp add: supporting_article_def split: if_splits)
  then have x: "x \<in> set (lr_sections (c_record c))" "article_candidate x" "article_covers t hit x"
    by (auto simp: find_Some_iff dest!: nth_mem)
  then obtain a b where ab: "split_once (ls_text x) t = Some (a, b)" "str_len a \<le> sh_byte_start hit"
      "sh_byte_end hit \<le> str_len a + str_len (ls_text x)"
    by (auto simp: article_covers_def split: option.splits)
  then have "slice t (str_len a) (str_len a + str_len (ls_text x)) = Some (ls_text x)"
    using split_once_SomeD [OF ab(1)] by (auto simp: slice_Some_iff)
  then have "\<exists>u v. ls_text x = u @ e @ v" using slice_inside [OF assms(3) _ ab(2,3)] by blast
  then show ?thesis
    using x section_text_article [OF assms(1) x(1)] by (simp add: article_candidate_def)
qed

lemma saturating_min: "n \<le> usize_max \<Longrightarrow> min (saturating_add a b) n = min (a + b) n"
  by (simp add: saturating_add_def min.assoc min.absorb2)

lemma passage_around_supports:
  assumes "slice t (sh_byte_start hit) (sh_byte_end hit) = Some e"
    "str_len t \<le> usize_max" "sh_byte_end hit - sh_byte_start hit \<le> MAX_CITATION_TEXT_BYTES"
  obtains start stop u where
    "passage_around t hit = Ok (ProjPassage (sh_excerpt_section hit) start stop)"
    "slice t start stop = Some u" "str_len u \<le> MAX_CITATION_TEXT_BYTES" "\<exists>a b. u = a @ e @ b"
proof -
  note b = slice_boundaries [OF assms(1)]
  let ?x = "sh_byte_end hit - sh_byte_start hit"
  let ?n = "sh_byte_start hit - (MAX_CITATION_TEXT_BYTES - ?x) div 2"
  obtain start where s: "ceil_boundary t ?n = Ok start" "?n \<le> start" "start \<le> sh_byte_start hit"
      "is_char_boundary t start"
    using ceil_boundary_below [OF b(1), of ?n] by auto
  let ?m = "min (start + MAX_CITATION_TEXT_BYTES) (str_len t)"
  have "sh_byte_end hit \<le> ?m" using s(2) b(3,5) assms(3) by (auto simp: min_def)
  then have stop: "sh_byte_end hit \<le> floor_boundary t ?m" using floor_boundary_greatest [OF b(2)] by blast
  have le: "start \<le> floor_boundary t ?m" using stop s(3) b(3) by linarith
  have "floor_boundary t ?m \<le> start + MAX_CITATION_TEXT_BYTES"
    using floor_boundary_le [of t ?m] by simp
  moreover obtain u where u: "slice t start (floor_boundary t ?m) = Some u"
      "str_len u = floor_boundary t ?m - start"
    by (rule slice_exists [OF s(4) floor_boundary_ok le])
  ultimately have "str_len u \<le> MAX_CITATION_TEXT_BYTES" by simp
  moreover have "passage_around t hit = Ok (ProjPassage (sh_excerpt_section hit) start (floor_boundary t ?m))"
    using s(1) assms(2,3) by (simp add: passage_around_def saturating_min Let_def)
  ultimately show thesis
    using that [OF _ u(1)] slice_inside [OF assms(1) u(1) s(3) stop] by blast
qed

lemma record_validate_texts:
  assumes "record_validate parse_url from_json r = Ok ()"
  shows "distinct (map ls_id (lr_sections r))" "str_len (lr_body r) \<le> 16777216"
    "str_len (lr_title r) \<le> 16777216"
    "x \<in> set (lr_sections r) \<Longrightarrow> str_len (ls_text x) \<le> 16777216"
    "map_of (lr_metadata r) k = Some v \<Longrightarrow> str_len v \<le> 16777216"
proof -
  have c: "check_source_and_sections parse_url r = Ok ()" "check_record_fields r = Ok ()"
    using assms by (auto simp: record_validate_def result_simps)
  from c(1) have "length (remdups (map ls_id (lr_sections r))) = length (map ls_id (lr_sections r))"
    and s: "\<not> list_ex section_rejected (lr_sections r)"
    by (auto simp: check_source_and_sections_def result_simps)
  then show "distinct (map ls_id (lr_sections r))" by (metis distinct_remdups remdups_id_iff_distinct length_remdups_eq)
  show "x \<in> set (lr_sections r) \<Longrightarrow> str_len (ls_text x) \<le> 16777216"
    using s by (auto simp: list_ex_iff section_rejected_def)
  show "str_len (lr_body r) \<le> 16777216" "str_len (lr_title r) \<le> 16777216"
    using c(2) by (simp_all add: check_record_fields_def result_simps)
  show "map_of (lr_metadata r) k = Some v \<Longrightarrow> str_len v \<le> 16777216"
    using c(2) by (auto simp: check_record_fields_def result_simps list_ex_iff dest!: map_of_SomeD)
qed

lemma section_text_size:
  assumes "record_validate parse_url from_json (c_record c) = Ok ()" "section_text c s = Ok t"
  shows "str_len t \<le> 16777216"
  using assms(2) record_validate_texts [OF assms(1)]
  by (auto simp: section_text_def result_simps Let_def find_Some_iff split: if_splits dest!: nth_mem)

lemma projection_for_hit_OkD:
  assumes "projection_for_hit c hit = Ok i"
  obtains t where "section_text c (sh_excerpt_section hit) = Ok t"
    "slice t (sh_byte_start hit) (sh_byte_end hit) = Some (sh_text hit)"
    "hit_projection c t hit = Ok (ci_projection i)" "citation_validate i = Ok ()"
    "lr_object (c_record c) = ci_object i" "c_capture_id c = ci_capture_id i"
  using assms that by (auto simp: projection_for_hit_def result_simps Let_def split: if_splits)

lemma hit_projection_supports:
  assumes r: "record_validate parse_url from_json (c_record c) = Ok ()"
    and t: "section_text c (sh_excerpt_section hit) = Ok t"
    and e: "slice t (sh_byte_start hit) (sh_byte_end hit) = Some (sh_text hit)"
    and p: "hit_projection c t hit = Ok p"
  shows "\<exists>u. selected_text c p = Ok u \<and> str_len u \<le> MAX_CITATION_TEXT_BYTES \<and> (\<exists>a b. u = a @ sh_text hit @ b)"
proof (cases "supporting_article c t hit")
  case (Some x)
  then show ?thesis
    using p e t article_supports [OF record_validate_texts(1) [OF r] Some e]
    by (fastforce simp: hit_projection_def selected_text_def section_text_def slice_Some_iff split: if_splits)
next
  case None
  show ?thesis
  proof (cases "\<exists>q. hit_projection c t hit = Ok q \<and> (q = ProjDocument \<or> q = ProjSection (sh_excerpt_section hit))")
    case True
    then show ?thesis
      using p e t None
      by (fastforce simp: hit_projection_def selected_text_def section_text_def slice_Some_iff
          passage_around_def result_simps Let_def split: if_splits)
  next
    case False
    then have h: "hit_projection c t hit = passage_around t hit"
      using None by (auto simp: hit_projection_def split: if_splits)
    then have "sh_byte_end hit - sh_byte_start hit \<le> MAX_CITATION_TEXT_BYTES"
      using p by (auto simp: passage_around_def Let_def split: if_splits)
    moreover have "str_len t \<le> usize_max" using section_text_size [OF r t] by (simp add: usize_max_val)
    ultimately obtain start stop u a b where "passage_around t hit = Ok (ProjPassage (sh_excerpt_section hit) start stop)"
        "slice t start stop = Some u" "str_len u \<le> MAX_CITATION_TEXT_BYTES" "u = a @ sh_text hit @ b"
      by (auto elim!: passage_around_supports [OF e])
    moreover have "p = ProjPassage (sh_excerpt_section hit) start stop" using calculation(1) p h by simp
    ultimately have "selected_text c p = Ok u \<and> str_len u \<le> MAX_CITATION_TEXT_BYTES \<and> u = a @ sh_text hit @ b"
      using t by (simp add: selected_text_def)
    then show ?thesis by blast
  qed
qed

text \<open>Looking for boundaries never runs past the text.\<close>

lemma projection_for_hit_no_panic: "projection_for_hit c hit \<noteq> Err Panicked"
proof
  assume panic: "projection_for_hit c hit = Err Panicked"
  obtain t where t: "slice t (sh_byte_start hit) (sh_byte_end hit) = Some (sh_text hit)"
      "passage_around t hit = Err Panicked"
    using panic
    by (auto simp: projection_for_hit_def hit_projection_def result_simps Let_def
        split: if_splits option.splits)
  let ?n = "sh_byte_start hit - (MAX_CITATION_TEXT_BYTES - (sh_byte_end hit - sh_byte_start hit)) div 2"
  obtain k where "ceil_boundary t ?n = Ok k"
    using ceil_boundary_below [OF slice_boundaries(1) [OF t(1)], of ?n] by auto
  with t(2) show False by (auto simp: passage_around_def result_simps Let_def split: if_splits)
qed

section \<open>Passages\<close>

lemma passages_from_chain:
  assumes "is_char_boundary t start" "start \<le> str_len t"
    "passages_from ob capture s t offset start = Ok ids"
  shows "\<exists>us. list_all2 (\<lambda>i u. \<exists>a b. i = \<lparr>ci_object = ob, ci_capture_id = capture,
        ci_projection = ProjPassage s (offset + a) (offset + b)\<rparr>
        \<and> citation_validate i = Ok () \<and> slice t a b = Some u) ids us
      \<and> slice t start (str_len t) = Some (concat us)"
  using assms
proof (induction ob capture s t offset start arbitrary: ids rule: passages_from.induct)
  case (1 ob capture s t offset start)
  show ?case
  proof (cases "start < str_len t")
    case True
    let ?stop = "passage_end t start"
    let ?i = "\<lparr>ci_object = ob, ci_capture_id = capture,
      ci_projection = ProjPassage s (offset + start) (offset + ?stop)\<rparr>"
    obtain rest where rest: "ids = ?i # rest" "citation_validate ?i = Ok ()"
        "passages_from ob capture s t offset ?stop = Ok rest"
        "ok_or (checked_add offset start) DEInvalidInput = Ok (offset + start)"
        "ok_or (checked_add offset ?stop) DEInvalidInput = Ok (offset + ?stop)"
      using "1.prems"(3) True
      by (subst (asm) passages_from.simps) (auto simp: result_simps Let_def checked_add_Some)
    have stop: "is_char_boundary t ?stop" "?stop \<le> str_len t" "start \<le> ?stop"
      using passage_end_progress [OF True] floor_boundary_ok char_boundary_le
      by (auto simp: passage_end_def intro: floor_boundary_ok char_boundary_le)
    obtain u where u: "slice t start ?stop = Some u"
      using slice_exists [OF "1.prems"(1) stop(1,3)] by metis
    obtain us where us: "list_all2 (\<lambda>i u. \<exists>a b. i = \<lparr>ci_object = ob, ci_capture_id = capture,
        ci_projection = ProjPassage s (offset + a) (offset + b)\<rparr>
        \<and> citation_validate i = Ok () \<and> slice t a b = Some u) rest us"
        "slice t ?stop (str_len t) = Some (concat us)"
      using "1.IH" [OF True refl rest(4,5) refl rest(2) stop(1,2) rest(3)] by blast
    show ?thesis
      using rest(1,2) u us slice_join [OF u us(2)] by (intro exI [of _ "u # us"]) auto
  next
    case False
    with "1.prems" have e: "ids = []" "start = str_len t" by (simp_all add: passages_from.simps)
    have "slice t (str_len t) (str_len t) = Some []" by (auto simp: slice_Some_iff)
    with e show ?thesis by (intro exI [of _ "[]"]) simp
  qed
qed

text \<open>Every passage of a small enough slice of a valid section is a valid identity.\<close>

lemma passages_from_total:
  assumes "object_validate ob = Ok ()" "valid_snapshot_id capture" "section_locator_ok s"
    "offset + str_len t \<le> 64 * 1024 * 1024"
  shows "\<exists>ids. passages_from ob capture s t offset start = Ok ids"
  using assms
proof (induction ob capture s t offset start rule: passages_from.induct)
  case (1 ob capture s t offset start)
  show ?case
  proof (cases "start < str_len t")
    case True
    let ?stop = "passage_end t start"
    have stop: "start < ?stop" "?stop \<le> start + MAX_CITATION_TEXT_BYTES" "?stop \<le> str_len t"
      using passage_end_progress [OF True] floor_boundary_le [of t "min (start + MAX_CITATION_TEXT_BYTES) (str_len t)"]
      by (auto simp: passage_end_def)
    let ?i = "\<lparr>ci_object = ob, ci_capture_id = capture,
      ci_projection = ProjPassage s (offset + start) (offset + ?stop)\<rparr>"
    have a: "ok_or (checked_add offset start) DEInvalidInput = Ok (offset + start)"
        "ok_or (checked_add offset ?stop) DEInvalidInput = Ok (offset + ?stop)"
      using stop "1.prems"(4) True by (auto simp: checked_add_def usize_max_val)
    have v: "citation_validate ?i = Ok ()"
      using stop "1.prems" by (simp add: citation_validate_Ok)
    show ?thesis
      using "1.IH" [OF True refl a refl v "1.prems"] a v
      by (subst passages_from.simps) (auto simp: Let_def)
  qed (subst passages_from.simps, simp)
qed

lemma adjacent_before:
  assumes "is_char_boundary t start" "0 < start"
  obtains before v where "ceil_boundary t (start - MAX_CITATION_TEXT_BYTES) = Ok before"
    "before < start" "start - before \<le> MAX_CITATION_TEXT_BYTES" "slice t before start = Some v"
proof -
  let ?n = "start - MAX_CITATION_TEXT_BYTES"
  let ?m = "if start \<le> MAX_CITATION_TEXT_BYTES then 0 else floor_boundary t (?n + 3)"
  have "?n < floor_boundary t (?n + 3) + 1" "floor_boundary t (?n + 3) < start" if "\<not> start \<le> MAX_CITATION_TEXT_BYTES"
    using floor_boundary_gap [of "?n + 3" t] floor_boundary_le [of t "?n + 3"] char_boundary_le [OF assms(1)] that
    by (simp_all add: MAX_CITATION_TEXT_BYTES_def)
  then have m: "is_char_boundary t ?m" "?n \<le> ?m" "?m < start" using assms(2) by auto
  obtain before where b: "ceil_boundary t ?n = Ok before" "?n \<le> before" "before \<le> ?m" "is_char_boundary t before"
    using ceil_boundary_below [OF m(1,2)] by metis
  moreover have "before < start" using b(3) m(3) by simp
  moreover obtain v where "slice t before start = Some v"
    using slice_exists [OF b(4) assms(1)] \<open>before < start\<close> by (metis less_imp_le)
  ultimately show thesis using that by simp
qed

lemma adjacent_after:
  assumes "is_char_boundary t stop" "stop < str_len t"
  obtains w where "stop < passage_end t stop" "passage_end t stop - stop \<le> MAX_CITATION_TEXT_BYTES"
    "slice t stop (passage_end t stop) = Some w" "passage_end t stop \<le> str_len t"
proof -
  have p: "stop < passage_end t stop" by (rule passage_end_progress [OF assms(2)])
  moreover have "passage_end t stop \<le> stop + MAX_CITATION_TEXT_BYTES" "passage_end t stop \<le> str_len t"
    using floor_boundary_le [of t "min (stop + MAX_CITATION_TEXT_BYTES) (str_len t)"]
    by (auto simp: passage_end_def)
  moreover obtain w where "slice t stop (passage_end t stop) = Some w"
    using slice_exists [OF assms(1), of "passage_end t stop"] p by (metis floor_boundary_ok less_imp_le passage_end_def)
  ultimately show thesis using that by simp
qed

section \<open>Document metadata\<close>

lemma map_of_btree_insert [simp]: "map_of (btree_insert k v m) = (map_of m)(k \<mapsto> v)"
  by (induction k v m rule: btree_insert.induct) auto

lemma keys_btree_insert [simp]: "fst ` set (btree_insert k v m) = insert k (fst ` set m)"
  by (induction k v m rule: btree_insert.induct) auto

lemma sorted_btree_insert: "sorted_wrt (<) (map fst m) \<Longrightarrow> sorted_wrt (<) (map fst (btree_insert k v m))"
proof (induction k v m rule: btree_insert.induct)
  case (2 k v k' v' m)
  then show ?case
    using keys_btree_insert [of k v m] by (force simp flip: set_map)
qed simp

lemma sorted_inserts:
  "sorted_wrt (<) (map fst m) \<Longrightarrow>
     sorted_wrt (<) (map fst (fold (\<lambda>(k, v). btree_insert_some k v) xs m))"
  by (induction xs arbitrary: m) (auto simp: btree_insert_some_def sorted_btree_insert split: option.splits)

lemma map_of_inserts_absent:
  "k \<notin> fst ` set xs \<Longrightarrow> map_of (fold (\<lambda>(k, v). btree_insert_some k v) xs m) k = map_of m k"
  by (induction xs arbitrary: m) (auto simp: btree_insert_some_def split: option.splits)

lemma map_of_inserts_present:
  assumes "(k, Some v) \<in> set xs" "distinct (map fst xs)" "k \<notin> fst ` set ys"
  shows "map_of (fold (\<lambda>(k, v). btree_insert_some k v) (xs @ ys) m) k = Some v"
proof -
  obtain us vs where xs: "xs = us @ (k, Some v) # vs" using assms(1) by (metis split_list)
  with assms(2,3) have "k \<notin> fst ` set (vs @ ys)" by auto
  then show ?thesis
    using map_of_inserts_absent [of k "vs @ ys"] xs by (simp add: btree_insert_some_def)
qed

definition provenance_keys :: "rstr list" where
  "provenance_keys = map lit
     [''jurisdiction'', ''provider'', ''dataset'', ''object_id'', ''revision_id'', ''capture_id'',
      ''retrieved_at'', ''captured_at'', ''validated_at'', ''processor_version'', ''raw_sha256'',
      ''representation'', ''source_reference'']"

definition further_keys :: "rstr list" where
  "further_keys = map lit
     [''official_browser_url'', ''publication_date'', ''effective_date'', ''original_resources'',
      ''source_rights'', ''rights_warnings'', ''case_number'', ''authority'', ''court'',
      ''judgment_date'', ''attachment_status'', ''transport_credentials_redacted'',
      ''section_locator_semantics'', ''section'', ''section_kind'', ''derived_ocr'',
      ''source_document_sha256'', ''page'', ''includes_extracted'', ''text_qualification'',
      ''byte_start'', ''byte_end'']"

lemma provenance_keys_distinct: "distinct provenance_keys" and
  further_keys_other: "list_all (\<lambda>k. k \<notin> set provenance_keys) further_keys"
  by code_simp+

lemma entry_keys:
  "map fst (provenance_entries i c) = provenance_keys"
  "fst ` set (record_entries c) \<subseteq> set further_keys"
  "fst ` set (section_entries c s) \<subseteq> set further_keys"
  "fst ` set (body_entries c t) \<subseteq> set further_keys"
  "fst ` set (offset_entries p) \<subseteq> set further_keys"
  by (auto simp: provenance_entries_def provenance_keys_def record_entries_def section_entries_def
      body_entries_def offset_entries_def further_keys_def Let_def simp del: lit_simps
      split: option.splits citation_projection.splits)

lemma document_provenance:
  assumes "(k, v) \<in> set (provenance_entries i c)"
  shows "map_of (document_metadata U i c t) k = Some v"
proof -
  let ?xs = "map (\<lambda>(k, v). (k, Some v)) (provenance_entries i c)"
  have k: "k \<in> set provenance_keys" using assms entry_keys(1) by (metis fst_conv image_eqI set_map)
  have "map fst ?xs = provenance_keys" using entry_keys(1) by (simp add: comp_def case_prod_beta)
  then have "distinct (map fst ?xs)" "(k, Some v) \<in> set ?xs"
    using provenance_keys_distinct assms by force+
  moreover have "k' \<notin> set further_keys \<Longrightarrow> k' \<noteq> lit ''official_browser_url''" for k'
    by (auto simp: further_keys_def)
  moreover have "k \<notin> set further_keys" using k further_keys_other by (auto simp: list_all_iff)
  ultimately show ?thesis
    unfolding document_metadata_def Let_def
    by (intro map_of_inserts_present)
      (use entry_keys(2-5) in \<open>fastforce split: option.splits\<close>)+
qed

lemma document_sorted: "sorted_wrt (<) (map fst (document_metadata U i c t))"
  unfolding document_metadata_def Let_def by (rule sorted_inserts) simp

section \<open>Fetching\<close>

lemma document_Ok:
  "document U S i c = Ok d \<longleftrightarrow>
     (\<exists>t e url. project_text c i = Ok t \<and> citation_encode (ul_serialize U) i = Ok e
       \<and> service_reference_url U S i = Ok url
       \<and> d = \<lparr>cd_id = e, cd_title = projection_title (lr_title (c_record c)) (ci_projection i),
           cd_text = t, cd_url = url, cd_metadata = document_metadata U i c t\<rparr>)"
  by (auto simp: document_def result_simps)

lemma citation_fetch_OkD:
  assumes "citation_fetch U S T encoded = Ok d"
  obtains i g where "citation_decode (ul_serialize U) (ul_parse_value U) encoded = Ok i"
    "ci_projection i \<noteq> ProjMetadata" "\<not> cit_cancelled T"
    "cs_renew S [(ci_object i, ci_capture_id i)] (cit_now T) = Ok ()"
    "database_get (cs_store S) (cit_get T) (exact_request (ci_object i) (ci_capture_id i)) = Ok g"
    "document U S i (g_capture g) = Ok d"
  using assms that
  by (auto simp: citation_fetch_def citation_resolve_def result_simps split: if_splits)

text \<open>The hit's locator is the name of a section of the capture, so it is a Rust string.\<close>

lemma section_text_locator:
  assumes "section_text c s = Ok t" "list_all (\<lambda>x. list_all scalar (ls_id x)) (lr_sections (c_record c))"
  shows "list_all scalar s"
proof (cases "s \<in> {lit ''body'', lit ''title'', lit ''case_number''}")
  case True
  moreover have "list_all scalar (lit ''body'')" "list_all scalar (lit ''title'')" "list_all scalar (lit ''case_number'')"
    by code_simp+
  ultimately show ?thesis by blast
next
  case False
  then obtain x where "find (\<lambda>y. ls_id y = s) (lr_sections (c_record c)) = Some x"
    using assms(1) by (auto simp: section_text_def result_simps Let_def simp del: lit_simps)
  then show ?thesis using assms(2) by (auto simp: find_Some_iff list_all_length)
qed

lemma hit_rust_citation:
  assumes "projection_for_hit c hit = Ok i"
    "list_all (\<lambda>x. list_all scalar (ls_id x)) (lr_sections (c_record c))"
  shows "rust_citation i"
proof -
  obtain t where t: "section_text c (sh_excerpt_section hit) = Ok t" "hit_projection c t hit = Ok (ci_projection i)"
    by (rule projection_for_hit_OkD [OF assms(1)])
  have a: "list_all scalar (ls_id x)" if "supporting_article c t hit = Some x" for x
    using that assms(2)
    by (auto simp: supporting_article_def find_Some_iff list_all_iff split: if_splits dest!: nth_mem)
  show ?thesis
    using t(2) section_text_locator [OF t(1) assms(2)] a
    by (cases "ci_projection i")
      (auto simp: hit_projection_def passage_around_def rust_citation_def result_simps Let_def
        split: if_splits option.splits)
qed

text \<open>A citation that a hit produced can be fetched while its capture is retained.\<close>

lemma fetch_cited:
  assumes codec: "form_codec (ul_serialize U) (ul_parse_value U)"
    and e: "citation_encode (ul_serialize U) i = Ok e" "rust_citation i" "ci_projection i \<noteq> ProjMetadata"
    and t: "project_text c i = Ok t" and url: "service_reference_url U S i = Ok url"
    and T: "\<not> cit_cancelled T" "cs_renew S [(ci_object i, ci_capture_id i)] (cit_now T) = Ok ()"
      "database_get (cs_store S) (cit_get T) (exact_request (ci_object i) (ci_capture_id i)) = Ok g"
      "g_capture g = c"
  shows "citation_fetch U S T e =
    Ok \<lparr>cd_id = e, cd_title = projection_title (lr_title (c_record c)) (ci_projection i), cd_text = t,
        cd_url = url, cd_metadata = document_metadata U i c t\<rparr>"
proof -
  have "citation_validate i = Ok ()" using e(1) citation_encode_Ok by blast
  then show ?thesis
    using form_codec.decode_encode [OF codec e(1,2)] e t url T
    by (simp add: citation_fetch_def citation_resolve_def document_def)
qed

lemma hit_not_metadata: "projection_for_hit c hit = Ok i \<Longrightarrow> ci_projection i \<noteq> ProjMetadata"
  by (auto simp: projection_for_hit_def hit_projection_def passage_around_def result_simps Let_def
      split: if_splits option.splits)

lemma cite_hit_OkD:
  assumes "cite_hit parse_url from_json U S t hit = Ok (w, r)"
  obtains g i body where
    "database_get (cs_store S) t (exact_request (sh_object hit) (sh_capture_id hit)) = Ok g"
    "projection_for_hit (g_capture g) hit = Ok i" "project_text (g_capture g) i = Ok body"
    "citation_encode (ul_serialize U) i = Ok (csr_id r)" "service_reference_url U S i = Ok (csr_url r)"
    "csr_title r = projection_title (lr_title (c_record (g_capture g))) (ci_projection i)"
  using assms that by (auto simp: cite_hit_def result_simps split: if_splits)

lemma cite_hits_OkD:
  "cite_hits parse_url from_json U S clock k hits = Ok (ws, rs) \<Longrightarrow>
     length rs = length hits
     \<and> (\<forall>j < length hits. \<exists>w. cite_hit parse_url from_json U S (clock (k + j)) (hits ! j) = Ok (w, rs ! j))"
proof (induction hits arbitrary: k ws rs)
  case (Cons hit hits)
  then obtain w r ws' rs' where h: "cite_hit parse_url from_json U S (clock k) hit = Ok (w, r)"
      "cite_hits parse_url from_json U S clock (Suc k) hits = Ok (ws', rs')" "rs = r # rs'"
    by (auto simp: result_simps)
  show ?case using Cons.IH [OF h(2)] h(1,3) by (auto simp: nth_Cons split: nat.splits)
qed simp

lemma hit_identity:
  "projection_for_hit c hit = Ok i \<Longrightarrow> ci_object i = sh_object hit \<and> ci_capture_id i = sh_capture_id hit"
  by (auto simp: projection_for_hit_def result_simps Let_def split: if_splits)

lemma projected_hit:
  assumes "record_validate parse_url from_json (c_record c) = Ok ()" "projection_for_hit c hit = Ok i"
  shows "\<exists>a b. project_text c i = Ok (a @ sh_text hit @ b) \<and> str_len (a @ sh_text hit @ b) \<le> 8192"
proof -
  obtain t where t: "section_text c (sh_excerpt_section hit) = Ok t"
      "slice t (sh_byte_start hit) (sh_byte_end hit) = Some (sh_text hit)"
      "hit_projection c t hit = Ok (ci_projection i)" "citation_validate i = Ok ()"
      "lr_object (c_record c) = ci_object i" "c_capture_id c = ci_capture_id i"
    by (rule projection_for_hit_OkD [OF assms(2)])
  show ?thesis
    using hit_projection_supports [OF assms(1) t(1-3)] t(4-6)
    unfolding project_text_Ok MAX_CITATION_TEXT_BYTES_def by blast
qed

lemma cited_hit_fetch:
  assumes codec: "form_codec (ul_serialize U) (ul_parse_value U)"
    and cite: "cite_hit parse_url from_json U S t hit = Ok (w, r)"
    and g: "database_get (cs_store S) t (exact_request (sh_object hit) (sh_capture_id hit)) = Ok g"
    and valid: "record_validate parse_url from_json (c_record (g_capture g)) = Ok ()"
      "list_all (\<lambda>x. list_all scalar (ls_id x)) (lr_sections (c_record (g_capture g)))"
    and T: "\<not> cit_cancelled T" "cs_renew S [(sh_object hit, sh_capture_id hit)] (cit_now T) = Ok ()"
      "database_get (cs_store S) (cit_get T) (exact_request (sh_object hit) (sh_capture_id hit)) = Ok g'"
      "g_capture g' = g_capture g"
  shows "\<exists>d a b. citation_fetch U S T (csr_id r) = Ok d \<and> cd_id d = csr_id r \<and> cd_title d = csr_title r
    \<and> cd_url d = csr_url r \<and> cd_text d = a @ sh_text hit @ b"
proof -
  obtain i body where i: "projection_for_hit (g_capture g) hit = Ok i" "project_text (g_capture g) i = Ok body"
      "citation_encode (ul_serialize U) i = Ok (csr_id r)" "service_reference_url U S i = Ok (csr_url r)"
      "csr_title r = projection_title (lr_title (c_record (g_capture g))) (ci_projection i)"
    using cite_hit_OkD [OF cite] g by (metis Inr_inject)
  note p = hit_identity [OF i(1)]
  obtain a b where "body = a @ sh_text hit @ b" using projected_hit [OF valid(1) i(1)] i(2) by auto
  then show ?thesis
    using fetch_cited [OF codec i(3) hit_rust_citation [OF i(1) valid(2)] hit_not_metadata [OF i(1)] i(2,4) T(1)]
      T(2-4) p i(5) by auto
qed

lemma search_of_OkD:
  assumes "citation_search_of parse_url from_json U S clock race query deadline now free = Ok found"
  obtains (page) page :: corpus_search_page and budget left ws
  where "race = RaceFinished"
    "search_citable_admit (citation_request query) (min deadline (now + 10)) now free = Ok (budget, left)"
    "cs_search S (citation_request query) budget = BackendAnswered (Ok page)" "length (sp_hits page) \<le> 20"
    "cite_hits parse_url from_json U S clock 0 (sp_hits page) = Ok (ws, csx_results found)"
proof -
  obtain budget left page ws where "race = RaceFinished"
    "search_citable_admit (citation_request query) (min deadline (now + 10)) now free = Ok (budget, left)"
    and answer: "search_outcome (cs_search S (citation_request query) budget) = Ok page" and
    "length (sp_hits page) \<le> 20"
    "cite_hits parse_url from_json U S clock 0 (sp_hits page) = Ok (ws, csx_results found)"
    using assms
    by (auto simp: citation_search_of_def citation_search_inner_def result_simps Let_def
        MAX_CITATION_SEARCH_RESULTS_def not_less split: citation_race.splits if_splits)
  moreover from answer have "cs_search S (citation_request query) budget = BackendAnswered (Ok page)"
    by (cases "cs_search S (citation_request query) budget") auto
  ultimately show thesis by (intro page)
qed

section \<open>Properties\<close>

text \<open>
  C10. The citation made for a search hit supports it: it names the hit's object and capture, and the text
  it selects from that capture is at most 8192 bytes long and contains the whole excerpt of the hit,
  whether it cites the document, a section, a complete article or a passage; and citing never panics.
\<close>

theorem hit_citation_supports:
  assumes "record_validate parse_url from_json (c_record c) = Ok ()"
  shows "projection_for_hit c hit \<noteq> Err Panicked
    \<and> (\<forall>i. projection_for_hit c hit = Ok i \<longrightarrow>
         ci_object i = sh_object hit \<and> ci_capture_id i = sh_capture_id hit
         \<and> (\<exists>a b. project_text c i = Ok (a @ sh_text hit @ b) \<and> str_len (a @ sh_text hit @ b) \<le> 8192))"
  using projection_for_hit_no_panic hit_identity projected_hit [OF assms] by blast

text \<open>A capture whose body of 9000 bytes is longer than a citation.\<close>

definition long_capture :: capture where
  "long_capture =
     \<lparr>c_capture_id = replicate 64 97, c_sequence = 1,
      c_record = sample_record\<lparr>lr_body := replicate 9000 97, lr_metadata := [], lr_sections := []\<rparr>,
      c_retrieved_at = 100, c_captured_at = 100, c_validated_at = 100,
      c_processor_version = lit ''v1'', c_raw_sha256 = replicate 64 98\<rparr>"

definition sample_hit :: search_hit where
  "sample_hit =
     \<lparr>sh_match_scope = lit ''object'', sh_excerpt_section = lit ''body'', sh_includes_ocr = False,
      sh_object = sample_object, sh_revision_id = lit ''r1'', sh_capture_id = replicate 64 97,
      sh_title = lit ''Act'', sh_section = lit ''body'', sh_line = 1, sh_text = replicate 2 97,
      sh_byte_start = 4999, sh_byte_end = 5001, sh_derived_ocr = False\<rparr>"

definition long_citation :: "nat \<Rightarrow> nat \<Rightarrow> citation_id" where
  "long_citation start stop =
     \<lparr>ci_object = sample_object, ci_capture_id = replicate 64 97,
      ci_projection = ProjPassage (lit ''body'') start stop\<rparr>"

lemma ascii_run:
  "str_len (replicate k 97) = k"
  "is_char_boundary (replicate k 97) n \<longleftrightarrow> n \<le> k"
  "a \<le> b \<Longrightarrow> b \<le> k \<Longrightarrow> slice (replicate k 97) a b = Some (replicate (b - a) 97)"
  "n \<le> k \<Longrightarrow> ceil_boundary (replicate k 97) n = Ok n"
proof -
  show len: "str_len (replicate k 97) = k" for k
    by (induction k) (auto simp: len_utf8_def)
  have run: "replicate k 97 = replicate a 97 @ replicate b 97 @ replicate c 97" if "k = a + b + c" for a b c :: nat
    using that by (simp add: replicate_add)
  show boundary: "is_char_boundary (replicate k 97) n \<longleftrightarrow> n \<le> k" for n
  proof
    assume "n \<le> k"
    then have "replicate k 97 = replicate n 97 @ replicate (k - n) 97" using run [of n 0 "k - n"] by simp
    then show "is_char_boundary (replicate k 97) n" using len char_boundary_iff by metis
  qed (use char_boundary_le [of "replicate k 97" n] len in simp)
  show "slice (replicate k 97) a b = Some (replicate (b - a) 97)" if "a \<le> b" "b \<le> k"
  proof -
    have "replicate k 97 = replicate a 97 @ replicate (b - a) 97 @ replicate (k - b) 97"
      by (rule run) (use that in simp)
    then show ?thesis using len that unfolding slice_Some_iff by fastforce
  qed
  show "ceil_boundary (replicate k 97) n = Ok n" if "n \<le> k"
    using ceil_boundary_below [of "replicate k 97" n n] boundary that by (metis le_antisym le_refl)
qed

lemma sample_fields:
  "object_validate (lr_object sample_record) = Ok ()"
  "selector_validate (Revision (lr_revision_id sample_record)) = Ok ()"
  "str_len (lr_title sample_record) = 3" "str_len (lr_source_url sample_record) = 9"
  "starts_with (lr_source_url sample_record) (lit ''https://'')"
  "lr_representation sample_record \<noteq> []" "str_len (lr_representation sample_record) = 7"
  "\<not> invalid_optional_date (lr_publication_date sample_record)"
  "\<not> invalid_optional_date (lr_effective_date sample_record)"
  "check_source_and_sections sample_url (sample_record\<lparr>lr_metadata := [], lr_sections := []\<rparr>) = Ok ()"
  by code_simp+

lemma long_capture_valid: "record_validate sample_url sample_resources (c_record long_capture) = Ok ()"
proof -
  have "check_source_and_sections sample_url (sample_record\<lparr>lr_body := b, lr_metadata := [], lr_sections := []\<rparr>)
      = check_source_and_sections sample_url (sample_record\<lparr>lr_metadata := [], lr_sections := []\<rparr>)" for b
    by (simp add: check_source_and_sections_def)
  then show ?thesis
    using sample_fields
    by (simp add: record_validate_def long_capture_def check_original_resources_def record_bytes_def
        metadata_bytes_def saturating_add_def check_record_fields_def ascii_run usize_max_val del: lit_simps object_validate_Ok selector_validate_Ok)
qed

lemma long_citation_valid:
  "start < stop \<Longrightarrow> stop - start \<le> 8192 \<Longrightarrow> stop \<le> 9000 \<Longrightarrow> citation_validate (long_citation start stop) = Ok ()"
proof -
  have "object_validate sample_object = Ok ()" "valid_snapshot_id (replicate 64 97)" "section_locator_ok (lit ''body'')"
    by code_simp+
  then show "start < stop \<Longrightarrow> stop - start \<le> 8192 \<Longrightarrow> stop \<le> 9000 \<Longrightarrow> ?thesis"
    by (simp add: citation_validate_Ok long_citation_def MAX_CITATION_TEXT_BYTES_def del: lit_simps)
qed

lemma long_section: "section_text long_capture (lit ''body'') = Ok (replicate 9000 97)"
  by (simp add: section_text_def long_capture_def)

lemma long_hit: "projection_for_hit long_capture sample_hit = Ok (long_citation 904 9000)"
proof -
  have o: "lr_object (c_record long_capture) = sh_object sample_hit" "c_capture_id long_capture = sh_capture_id sample_hit"
      "lr_revision_id (c_record long_capture) = sh_revision_id sample_hit"
      "sh_excerpt_section sample_hit = lit ''body''" "lr_body (c_record long_capture) = replicate 9000 97"
      "supporting_article long_capture t sample_hit = None" "sh_byte_start sample_hit = 4999"
      "sh_byte_end sample_hit = 5001" "sh_text sample_hit = replicate 2 97" for t
    by (simp_all add: long_capture_def sample_hit_def sample_object_def sample_record_def supporting_article_def)
  have "hit_projection long_capture (replicate 9000 97) sample_hit = Ok (ProjPassage (lit ''body'') 904 9000)"
    by (simp add: hit_projection_def passage_around_def o MAX_CITATION_TEXT_BYTES_def ascii_run Let_def
        saturating_add_def usize_max_val del: lit_simps)
  moreover have "\<lparr>ci_object = sh_object sample_hit, ci_capture_id = sh_capture_id sample_hit,
      ci_projection = ProjPassage (lit ''body'') 904 9000\<rparr> = long_citation 904 9000"
    by (simp add: long_citation_def sample_hit_def)
  ultimately show ?thesis
    using long_section o long_citation_valid [of 904 9000]
    by (simp add: projection_for_hit_def ascii_run Let_def del: lit_simps)
qed

theorem hit_citation_supports_witness:
  "\<exists>a b. project_text long_capture (long_citation 904 9000) = Ok (a @ sh_text sample_hit @ b)"
  using hit_citation_supports [OF long_capture_valid, of sample_hit] long_hit by auto

text \<open>
  C37. Splitting a slice of a section into passages always succeeds on a valid capture, and the passages
  tile the slice: each is a valid identity that projects to a nonempty text, and the projected texts
  concatenated in order are the slice, with the section's own offsets.
\<close>

theorem passages_tile:
  assumes "record_validate parse_url from_json (c_record c) = Ok ()"
    and "valid_snapshot_id (c_capture_id c)" "section_locator_ok s"
    and "section_text c s = Ok (x @ t @ y)"
  shows "\<exists>ids us. passage_ids (lr_object (c_record c)) (c_capture_id c) s t (str_len x) = Ok ids
    \<and> list_all2 (\<lambda>i u. project_text c i = Ok u \<and> u \<noteq> []) ids us \<and> concat us = t"
proof -
  have ob: "object_validate (lr_object (c_record c)) = Ok ()"
    using assms(1) by (auto simp: record_validate_def result_simps)
  have "str_len x + str_len t \<le> 64 * 1024 * 1024" using section_text_size [OF assms(1,4)] by simp
  then obtain ids where ids: "passages_from (lr_object (c_record c)) (c_capture_id c) s t (str_len x) 0 = Ok ids"
    using passages_from_total [OF ob assms(2,3)] by blast
  let ?made = "\<lambda>i u. \<exists>a b. i = \<lparr>ci_object = lr_object (c_record c), ci_capture_id = c_capture_id c,
        ci_projection = ProjPassage s (str_len x + a) (str_len x + b)\<rparr>
        \<and> citation_validate i = Ok () \<and> slice t a b = Some u"
  obtain us where us: "list_all2 ?made ids us" "slice t 0 (str_len t) = Some (concat us)"
    using passages_from_chain [OF _ _ ids] by auto
  have step: "project_text c i = Ok u \<and> u \<noteq> []" if made: "?made i u" for i u
  proof -
    obtain a b where i: "i = \<lparr>ci_object = lr_object (c_record c), ci_capture_id = c_capture_id c,
        ci_projection = ProjPassage s (str_len x + a) (str_len x + b)\<rparr>"
      and v: "citation_validate i = Ok ()" and u: "slice t a b = Some u" using made by blast
    have "a < b" "b - a \<le> MAX_CITATION_TEXT_BYTES" using v i by (auto simp: citation_validate_Ok)
    moreover have "str_len u = b - a" by (rule slice_boundaries(4) [OF u])
    ultimately show ?thesis
      using v i slice_shift [OF u, of x y] assms(4) unfolding project_text_Ok
      by (auto simp: selected_text_def)
  qed
  have "list_all2 (\<lambda>i u. project_text c i = Ok u \<and> u \<noteq> []) ids us"
    by (rule list_all2_mono [OF us(1)]) (rule step)
  moreover have "concat us = t" using us(2) slice_all [of t] by simp
  ultimately show ?thesis using ids unfolding passage_ids_def by blast
qed

theorem passages_tile_witness:
  "\<exists>ids us. passage_ids sample_object (replicate 64 97) (lit ''body'') (replicate 9000 97) 0 = Ok ids
    \<and> list_all2 (\<lambda>i u. project_text long_capture i = Ok u \<and> u \<noteq> []) ids us \<and> concat us = replicate 9000 97"
proof -
  have "valid_snapshot_id (c_capture_id long_capture)" "section_locator_ok (lit ''body'')"
    by (simp add: long_capture_def, code_simp, code_simp)
  moreover have "lr_object (c_record long_capture) = sample_object" "c_capture_id long_capture = replicate 64 97"
    by (simp_all add: long_capture_def sample_object_def)
  ultimately show ?thesis
    using passages_tile [OF long_capture_valid, of "lit ''body''" "[]" "replicate 9000 97" "[]"] long_section
    by (simp del: lit_simps)
qed

text \<open>Moving a readable passage to another valid range of its section keeps it readable.\<close>

lemma passage_projects:
  assumes "project_text c i = Ok u" "ci_projection i = ProjPassage s start stop"
    "section_text c s = Ok t" "str_len t \<le> 16777216"
    "m < n" "n - m \<le> MAX_CITATION_TEXT_BYTES" "slice t m n = Some v"
  shows "project_text c (i\<lparr>ci_projection := ProjPassage s m n\<rparr>) = Ok v"
  using assms slice_boundaries [OF assms(7)]
  by (auto simp: project_text_Ok selected_text_def citation_validate_Ok)

lemma previous_passage:
  assumes i: "project_text c i = Ok u" "ci_projection i = ProjPassage s start stop"
      "section_text c s = Ok t" "str_len t \<le> 16777216" "slice t start stop = Some u"
    and "0 < start"
  obtains before v where "ceil_boundary t (start - MAX_CITATION_TEXT_BYTES) = Ok before"
    "project_text c (i\<lparr>ci_projection := ProjPassage s before start\<rparr>) = Ok v"
    "slice t before stop = Some (v @ u)"
proof -
  obtain before v where b: "ceil_boundary t (start - MAX_CITATION_TEXT_BYTES) = Ok before"
      "before < start" "start - before \<le> MAX_CITATION_TEXT_BYTES" "slice t before start = Some v"
    by (rule adjacent_before [OF slice_boundaries(1) [OF i(5)] assms(6)])
  show thesis by (rule that [OF b(1) passage_projects [OF i(1-4) b(2-4)] slice_join [OF b(4) i(5)]])
qed

lemma following_passage:
  assumes i: "project_text c i = Ok u" "ci_projection i = ProjPassage s start stop"
      "section_text c s = Ok t" "str_len t \<le> 16777216" "slice t start stop = Some u"
    and "stop < str_len t"
  obtains w where
    "project_text c (i\<lparr>ci_projection := ProjPassage s stop (passage_end t stop)\<rparr>) = Ok w"
    "slice t start (passage_end t stop) = Some (u @ w)"
proof -
  obtain w where b: "stop < passage_end t stop" "passage_end t stop - stop \<le> MAX_CITATION_TEXT_BYTES"
      "slice t stop (passage_end t stop) = Some w"
    by (rule adjacent_after [OF slice_boundaries(2) [OF i(5)] assms(6)])
  show thesis by (rule that [OF passage_projects [OF i(1-4) b(1-3)] slice_join [OF i(5) b(3)]])
qed

text \<open>
  C38. A passage that can be read knows its neighbours.  Looking for them never fails; there is a previous
  passage exactly when the passage does not start the section and a next one exactly when it does not
  end it; both are valid, can be read from the same capture, and join the passage without gap or overlap.
\<close>

theorem adjacent_passages:
  assumes r: "record_validate parse_url from_json (c_record c) = Ok ()"
    and p: "ci_projection i = ProjPassage s start stop" and u: "project_text c i = Ok u"
  shows "\<exists>t previous following.
    section_text c s = Ok t \<and> adjacent_ids c i = Ok (previous, following)
    \<and> (previous = None \<longleftrightarrow> start = 0) \<and> (following = None \<longleftrightarrow> stop = str_len t)
    \<and> (case previous of None \<Rightarrow> True
       | Some j \<Rightarrow> \<exists>a v. ci_projection j = ProjPassage s a start \<and> project_text c j = Ok v
           \<and> slice t a stop = Some (v @ u))
    \<and> (case following of None \<Rightarrow> True
       | Some j \<Rightarrow> \<exists>b w. ci_projection j = ProjPassage s stop b \<and> project_text c j = Ok w
           \<and> slice t start b = Some (u @ w))"
proof -
  obtain t where t: "section_text c s = Ok t" "slice t start stop = Some u"
    using u p unfolding project_text_Ok by (auto simp: selected_text_def result_simps)
  note len = section_text_size [OF r t(1)]
  note i = u p t(1) len t(2)
  have stop: "floor_boundary t (min (saturating_add stop MAX_CITATION_TEXT_BYTES) (str_len t)) = passage_end t stop"
    using len by (simp add: passage_end_def saturating_min usize_max_val)
  define following where "following = (if stop < str_len t
    then Some (i\<lparr>ci_projection := ProjPassage s stop (passage_end t stop)\<rparr>) else None)"
  obtain previous where prev: "(if 0 < start then
        and_then (ceil_boundary t (start - MAX_CITATION_TEXT_BYTES)) (\<lambda>before.
          Ok (Some (i\<lparr>ci_projection := ProjPassage s before start\<rparr>)))
      else Ok None) = Ok previous"
    and "case previous of None \<Rightarrow> start = 0
       | Some j \<Rightarrow> start \<noteq> 0 \<and> (\<exists>a v. ci_projection j = ProjPassage s a start \<and> project_text c j = Ok v
           \<and> slice t a stop = Some (v @ u))"
  proof (cases "0 < start")
    case True
    show thesis by (rule previous_passage [OF i True]) (use True in \<open>auto intro!: that\<close>)
  qed (use that in auto)
  moreover have "case following of None \<Rightarrow> stop = str_len t
       | Some j \<Rightarrow> stop \<noteq> str_len t \<and> (\<exists>b w. ci_projection j = ProjPassage s stop b \<and> project_text c j = Ok w
           \<and> slice t start b = Some (u @ w))"
    using slice_boundaries(5) [OF t(2)] by (auto simp: following_def elim: following_passage [OF i])
  moreover have "adjacent_ids c i = Ok (previous, following)"
    using p t(1) prev stop by (simp add: adjacent_ids_def following_def)
  ultimately show ?thesis
    using t(1) by (intro exI [of _ t] exI [of _ previous] exI [of _ following]) (auto split: option.splits)
qed

theorem adjacent_passages_witness:
  "\<exists>j. adjacent_ids long_capture (long_citation 904 9000) = Ok (Some j, None)
     \<and> is_ok (project_text long_capture j)"
proof -
  have sel: "selected_text long_capture (ProjPassage (lit ''body'') 904 9000) = Ok (replicate 8096 97)"
    using long_section by (simp add: selected_text_def ascii_run del: lit_simps)
  have "project_text long_capture (long_citation 904 9000) = Ok (replicate 8096 97)"
    unfolding project_text_Ok
    using sel long_citation_valid [of 904 9000]
    by (simp add: ascii_run MAX_CITATION_TEXT_BYTES_def)
      (simp add: long_citation_def long_capture_def sample_object_def)
  from adjacent_passages [OF long_capture_valid _ this, of "lit ''body''" 904 9000] show ?thesis
    using long_section
    by (auto simp: long_citation_def ascii_run is_ok_def simp del: lit_simps split: option.splits)
qed

text \<open>
  C12. A fetched document is the cited evidence: the lease of exactly the cited capture was renewed first,
  the text is what the citation selects from the capture the store resolved for it and is at most 8192
  bytes, the document carries the identifier that was asked for, and its metadata, in key order, reports
  the object, capture, times, processor and digest of that capture, overwritten by nothing else.
\<close>

theorem fetch_exact:
  assumes "citation_fetch U S T encoded = Ok d"
  shows "\<exists>i c. citation_decode (ul_serialize U) (ul_parse_value U) encoded = Ok i
    \<and> \<not> cit_cancelled T \<and> cs_renew S [(ci_object i, ci_capture_id i)] (cit_now T) = Ok ()
    \<and> db_resolve (cs_store S) (ci_object i) (CaptureId (ci_capture_id i)) (ct_now (cit_get T)) = Ok c
    \<and> lr_object (c_record c) = ci_object i \<and> c_capture_id c = ci_capture_id i
    \<and> project_text c i = Ok (cd_text d) \<and> str_len (cd_text d) \<le> 8192 \<and> cd_id d = encoded
    \<and> sorted_wrt (<) (map fst (cd_metadata d))
    \<and> list_all (\<lambda>(k, v). map_of (cd_metadata d) k = Some v) (provenance_entries i c)"
proof -
  obtain i g where f: "citation_decode (ul_serialize U) (ul_parse_value U) encoded = Ok i"
      "ci_projection i \<noteq> ProjMetadata" "\<not> cit_cancelled T"
      "cs_renew S [(ci_object i, ci_capture_id i)] (cit_now T) = Ok ()"
      "database_get (cs_store S) (cit_get T) (exact_request (ci_object i) (ci_capture_id i)) = Ok g"
      "document U S i (g_capture g) = Ok d"
    by (rule citation_fetch_OkD [OF assms])
  have resolved: "db_resolve (cs_store S) (ci_object i) (CaptureId (ci_capture_id i)) (ct_now (cit_get T))
      = Ok (g_capture g)"
    using database_get_OkD(5) [OF f(5)] by (simp add: exact_request_def)
  have d: "project_text (g_capture g) i = Ok (cd_text d)" "citation_encode (ul_serialize U) i = Ok (cd_id d)"
      "cd_metadata d = document_metadata U i (g_capture g) (cd_text d)"
    using f(6) by (auto simp: document_Ok)
  have "cd_id d = encoded" using decode_canonical [OF f(1)] d(2) by simp
  moreover note d(1) [unfolded project_text_Ok MAX_CITATION_TEXT_BYTES_def]
  ultimately show ?thesis
    using f(1,3,4) resolved d document_sorted [of U i "g_capture g" "cd_text d"]
      document_provenance [of _ _ i "g_capture g" U "cd_text d"]
    by (intro exI [of _ i] exI [of _ "g_capture g"]) (auto simp: list_all_iff)
qed

text \<open>A service over the sample store with the form codec of the URL standard and one hit.\<close>

definition sample_library :: url_library where
  "sample_library =
     \<lparr>ul_serialize = form_serialize, ul_parse_value = form_parse_value,
      ul_parse_base = (\<lambda>s. Some \<lparr>u_scheme = lit ''https'', u_host_str = Some (lit ''example.test''),
        u_username = [], u_password = None, u_fragment = None, u_query_pairs = [], u_query = None,
        u_path = lit ''/''\<rparr>),
      ul_as_str = (\<lambda>_. lit ''https://example.test/''),
      ul_set_path = (\<lambda>_ p. lit ''https://example.test'' @ p),
      ul_query_url = (\<lambda>b _. Some b)\<rparr>"

definition short_hit :: search_hit where
  "short_hit = sample_hit\<lparr>sh_text := lit ''ex'', sh_byte_start := 1, sh_byte_end := 3\<rparr>"

definition sample_citations :: citation_service where
  "sample_citations =
     \<lparr>cs_store = sample_store,
      cs_search = (\<lambda>_ _. BackendAnswered (Ok
        \<lparr>sp_schema_version = 1, sp_hits = [short_hit], sp_next_cursor = None, sp_generation = 1,
         sp_corpus_complete = True, sp_scanned_bytes = 4, sp_analyzer_version = lit ''1'',
         sp_index_lag = 0, sp_collection_notices = []\<rparr>)),
      cs_renew = (\<lambda>_ _. Ok ()), cs_base_url = lit ''https://example.test''\<rparr>"

definition sample_citation_times :: citation_times where
  "sample_citation_times =
     \<lparr>cit_metadata = sample_times 200, cit_cancelled = False, cit_now = 200, cit_get = sample_times 200\<rparr>"

definition sample_encoded :: rstr where
  "sample_encoded =
     lit ''v1/kr/law_go_kr/national_statute/001/'' @ replicate 64 97 @ lit ''/doc''"

theorem fetch_exact_witness:
  "\<exists>d. citation_fetch sample_library sample_citations sample_citation_times sample_encoded = Ok d
     \<and> cd_id d = sample_encoded \<and> str_len (cd_text d) \<le> 8192"
proof -
  let ?i = "long_citation 0 1\<lparr>ci_projection := ProjDocument\<rparr>"
  have i: "citation_encode (ul_serialize sample_library) ?i = Ok sample_encoded" "rust_citation ?i"
      "ci_projection ?i \<noteq> ProjMetadata" "project_text (sample_capture (replicate 64 97) sample_object) ?i = Ok (lit ''Text'')"
      "is_ok (service_reference_url sample_library sample_citations ?i)" "\<not> cit_cancelled sample_citation_times"
      "cs_renew sample_citations [(ci_object ?i, ci_capture_id ?i)] (cit_now sample_citation_times) = Ok ()"
      "database_get (cs_store sample_citations) (cit_get sample_citation_times)
         (exact_request (ci_object ?i) (ci_capture_id ?i))
       = Ok \<lparr>g_capture = sample_capture (replicate 64 97) sample_object, g_freshness = None\<rparr>"
    by code_simp+
  have "form_codec (ul_serialize sample_library) (ul_parse_value sample_library)"
    by (simp add: sample_library_def url_standard.form_codec_axioms)
  then have "is_ok (citation_fetch sample_library sample_citations sample_citation_times sample_encoded)"
    using fetch_cited [OF _ i(1-4) _ i(6-8)] i(5) unfolding is_ok_iff by force
  then obtain d where d: "citation_fetch sample_library sample_citations sample_citation_times sample_encoded = Ok d"
    unfolding is_ok_iff by blast
  with fetch_exact [OF d] show ?thesis by blast
qed

text \<open>
  The result \<open>r\<close> serves the hit: the hit's capture was resolved at the time \<open>t\<close>, and whenever the store still
  resolves it and the lease is renewed, fetching \<open>r\<close> gives a document as announced with the hit's excerpt.
\<close>

definition serves_hit ::
  "url_parser \<Rightarrow> resource_decoder \<Rightarrow> url_library \<Rightarrow> citation_service \<Rightarrow> call_times \<Rightarrow> search_hit \<Rightarrow>
     citation_search_result \<Rightarrow> bool" where
  "serves_hit parse_url from_json U S t hit r \<longleftrightarrow>
     (\<exists>g. database_get (cs_store S) t (exact_request (sh_object hit) (sh_capture_id hit)) = Ok g
        \<and> (\<forall>T g'. record_validate parse_url from_json (c_record (g_capture g)) = Ok ()
              \<and> list_all (\<lambda>x. list_all scalar (ls_id x)) (lr_sections (c_record (g_capture g)))
              \<and> \<not> cit_cancelled T \<and> cs_renew S [(sh_object hit, sh_capture_id hit)] (cit_now T) = Ok ()
              \<and> database_get (cs_store S) (cit_get T) (exact_request (sh_object hit) (sh_capture_id hit)) = Ok g'
              \<and> g_capture g' = g_capture g
            \<longrightarrow> (\<exists>d a b. citation_fetch U S T (csr_id r) = Ok d \<and> cd_id d = csr_id r
                  \<and> cd_title d = csr_title r \<and> cd_url d = csr_url r \<and> cd_text d = a @ sh_text hit @ b)))"

text \<open>
  C9. What a search for citations returns can be fetched.  The results belong, one to one and in order, to
  the at most twenty hits of the page the search backend answered to this query.  The capture of each hit
  was resolved; as long as the store still resolves it and the lease is renewed, fetching the identifier
  of the hit's result returns a document with the result's identifier, title and address whose text
  contains the excerpt of this very hit.
\<close>

theorem search_results_fetchable:
  assumes codec: "form_codec (ul_serialize U) (ul_parse_value U)"
    and found: "citation_search_of parse_url from_json U S clock race query deadline now free = Ok found"
  shows "\<exists>(page :: corpus_search_page) budget left. race = RaceFinished
    \<and> search_citable_admit (citation_request query) (min deadline (now + 10)) now free = Ok (budget, left)
    \<and> cs_search S (citation_request query) budget = BackendAnswered (Ok page)
    \<and> length (sp_hits page) \<le> 20 \<and> length (csx_results found) = length (sp_hits page)
    \<and> (\<forall>j < length (sp_hits page).
        serves_hit parse_url from_json U S (clock j) (sp_hits page ! j) (csx_results found ! j))"
proof -
  obtain page :: corpus_search_page and budget left ws where page: "race = RaceFinished"
    "search_citable_admit (citation_request query) (min deadline (now + 10)) now free = Ok (budget, left)"
    "cs_search S (citation_request query) budget = BackendAnswered (Ok page)" "length (sp_hits page) \<le> 20"
    "cite_hits parse_url from_json U S clock 0 (sp_hits page) = Ok (ws, csx_results found)"
    by (rule search_of_OkD [OF found])
  note made = cite_hits_OkD [OF page(5)]
  have "serves_hit parse_url from_json U S (clock j) (sp_hits page ! j) (csx_results found ! j)"
    if j: "j < length (sp_hits page)" for j
  proof -
    obtain w where cite: "cite_hit parse_url from_json U S (clock j) (sp_hits page ! j) = Ok (w, csx_results found ! j)"
      using made j by auto
    from cite obtain g where g: "database_get (cs_store S) (clock j)
        (exact_request (sh_object (sp_hits page ! j)) (sh_capture_id (sp_hits page ! j))) = Ok g"
      by (rule cite_hit_OkD)
    show ?thesis unfolding serves_hit_def using g cited_hit_fetch [OF codec cite g] by blast
  qed
  with page(1-4) made show ?thesis by blast
qed

lemma sample_search_answer:
  assumes "cs_search sample_citations r b = BackendAnswered (Ok page)"
  shows "sp_hits page = [short_hit]"
  using assms by (auto simp: sample_citations_def)

lemma sample_hit_fetched:
  assumes "serves_hit sample_url sample_resources sample_library sample_citations (sample_times 200) short_hit r"
  shows "\<exists>d a b. citation_fetch sample_library sample_citations sample_citation_times (csr_id r) = Ok d
    \<and> cd_text d = a @ lit ''ex'' @ b"
proof -
  let ?g = "\<lparr>g_capture = sample_capture (sh_capture_id short_hit) (sh_object short_hit), g_freshness = None\<rparr>"
  have reads: "database_get (cs_store sample_citations) (sample_times 200)
        (exact_request (sh_object short_hit) (sh_capture_id short_hit)) = Ok ?g"
      "database_get (cs_store sample_citations) (cit_get sample_citation_times)
        (exact_request (sh_object short_hit) (sh_capture_id short_hit)) = Ok ?g"
      "record_validate sample_url sample_resources (c_record (g_capture ?g)) = Ok ()"
      "list_all (\<lambda>x. list_all scalar (ls_id x)) (lr_sections (c_record (g_capture ?g)))"
      "\<not> cit_cancelled sample_citation_times" "sh_text short_hit = lit ''ex''"
      "cs_renew sample_citations [(sh_object short_hit, sh_capture_id short_hit)] (cit_now sample_citation_times) = Ok ()"
    by code_simp+
  from assms [unfolded serves_hit_def reads(1)] reads(2-5,7) show ?thesis unfolding reads(6) by fastforce
qed

theorem search_results_fetchable_witness:
  "\<exists>found d a b. citation_search_of sample_url sample_resources sample_library sample_citations
      (\<lambda>_. sample_times 200) RaceFinished (lit ''Te'') 5 0 1 = Ok found
    \<and> length (csx_results found) = 1
    \<and> citation_fetch sample_library sample_citations sample_citation_times (csr_id (csx_results found ! 0)) = Ok d
    \<and> cd_text d = a @ lit ''ex'' @ b"
proof -
  have "is_ok (citation_search_of sample_url sample_resources sample_library sample_citations
      (\<lambda>_. sample_times 200) RaceFinished (lit ''Te'') 5 0 1)"
    by code_simp
  then obtain found where f: "citation_search_of sample_url sample_resources sample_library sample_citations
      (\<lambda>_. sample_times 200) RaceFinished (lit ''Te'') 5 0 1 = Ok found"
    unfolding is_ok_iff by blast
  have "form_codec (ul_serialize sample_library) (ul_parse_value sample_library)"
    by (simp add: sample_library_def url_standard.form_codec_axioms)
  from search_results_fetchable [OF this f] obtain page :: corpus_search_page and budget where
    page: "cs_search sample_citations (citation_request (lit ''Te'')) budget = BackendAnswered (Ok page)"
      "length (csx_results found) = length (sp_hits page)"
      "\<forall>j < length (sp_hits page). serves_hit sample_url sample_resources sample_library sample_citations
        (sample_times 200) (sp_hits page ! j) (csx_results found ! j)"
    by blast
  note hits = sample_search_answer [OF page(1)]
  then have "length (csx_results found) = 1" "serves_hit sample_url sample_resources sample_library sample_citations
      (sample_times 200) short_hit (csx_results found ! 0)"
    using page(2,3) by simp_all
  with f sample_hit_fetched show ?thesis by blast
qed

end
