(* ===== verification/Reference_Lookup.thy ===== *)
theory Reference_Lookup
  imports Citation_Service
begin

text \<open>
  Corpus lookups and date-based selection for legal references:
  \<open>crates/application/src/legal_reference.rs\<close>, with the selections of
  \<open>crates/domain/src/legal_reference.rs\<close>.

  The search and corpus services are called one page at a time; \<open>search k\<close> and \<open>history k\<close> stand for
  the k-th call, whatever the services answer to it.  Dates are compared as strings.
\<close>

section \<open>Selections\<close>

record revision_choice =
  rc_revision_id :: rstr
  rc_capture_id :: "rstr option"
  rc_effective_date :: "rstr option"
  rc_publication_date :: "rstr option"

datatype in_force_status = Determined | Provisional | NotYetEffective | Undetermined

record in_force_selection =
  if_date :: rstr
  if_status :: in_force_status
  if_selected :: "revision_choice option"
  if_same_effective_date :: "revision_choice list"
  if_next_change :: "revision_choice option"
  if_later_provision_dates :: "rstr list"
  if_warnings :: "rstr list"

definition choice :: "history_entry \<Rightarrow> revision_choice" where
  "choice e =
     \<lparr>rc_revision_id = he_revision_id e, rc_capture_id = he_capture_id e,
      rc_effective_date = he_effective_date e, rc_publication_date = he_publication_date e\<rparr>"

definition unwrap_or_default :: "rstr option \<Rightarrow> rstr" where
  "unwrap_or_default v = (case v of None \<Rightarrow> [] | Some s \<Rightarrow> s)"

definition effective :: "history_entry \<Rightarrow> rstr" where
  "effective e = unwrap_or_default (he_effective_date e)"

text \<open>The sort key, a tuple of three strings, as a list of three strings.\<close>

definition revision_order :: "history_entry \<Rightarrow> rstr list" where
  "revision_order e =
     [effective e, unwrap_or_default (he_publication_date e), he_revision_id e]"

definition dated :: "history_entry \<Rightarrow> bool" where
  "dated e = (case he_effective_date e of None \<Rightarrow> False | Some d \<Rightarrow> valid_date d)"

text \<open>\<open>Iterator::max\<close> and \<open>min\<close>, and \<open>max_by_key\<close>, which returns the last of the largest elements.\<close>

definition list_max :: "'a::linorder list \<Rightarrow> 'a option" where
  "list_max xs = (if xs = [] then None else Some (Max (set xs)))"

definition list_min :: "'a::linorder list \<Rightarrow> 'a option" where
  "list_min xs = (if xs = [] then None else Some (Min (set xs)))"

fun max_by_key :: "('a \<Rightarrow> 'k::linorder) \<Rightarrow> 'a list \<Rightarrow> 'a option" where
  "max_by_key f [] = None"
| "max_by_key f (x # xs) =
     (case max_by_key f xs of
        None \<Rightarrow> Some x
      | Some y \<Rightarrow> Some (if f y < f x then x else y))"

definition select_in_force :: "history_entry list \<Rightarrow> bool \<Rightarrow> rstr \<Rightarrow> in_force_selection" where
  "select_in_force entries inventory_complete date =
     (let ds = filter dated entries;
          warned = (if length ds < length entries then [lit ''undated_revisions_ignored''] else [])
                   @ (if \<not> inventory_complete then [lit ''inventory_incomplete''] else []);
          best = list_max (filter (\<lambda>d. d \<le> date) (map effective ds));
          next_date = list_min (filter (\<lambda>d. date < d) (map effective ds));
          next_change =
            (case next_date of
               None \<Rightarrow> None
             | Some n \<Rightarrow> map_option choice (max_by_key revision_order (filter (\<lambda>e. effective e = n) ds))) in
      (case best of
         None \<Rightarrow>
           \<lparr>if_date = date, if_status = (if ds = [] then Undetermined else NotYetEffective),
            if_selected = None, if_same_effective_date = [], if_next_change = next_change,
            if_later_provision_dates = [], if_warnings = warned\<rparr>
       | Some b \<Rightarrow>
           let sorted_group = sort_key revision_order (filter (\<lambda>e. effective e = b) ds);
               selected = (if sorted_group = [] then None else Some (choice (last sorted_group)));
               others = butlast sorted_group in
           \<lparr>if_date = date, if_status = (if inventory_complete then Determined else Provisional),
            if_selected = selected, if_same_effective_date = map choice (rev others),
            if_next_change = next_change, if_later_provision_dates = [],
            if_warnings = warned @ (if others \<noteq> [] then [lit ''multiple_revisions_same_effective_date''] else [])\<rparr>))"

text \<open>The maximal runs of ASCII digits of a text.\<close>

function digit_runs :: "rstr \<Rightarrow> rstr list" where
  "digit_runs [] = []"
| "digit_runs (c # s) =
     (if is_ascii_digit c
      then takeWhile is_ascii_digit (c # s) # digit_runs (dropWhile is_ascii_digit (c # s))
      else digit_runs s)"
  by pat_completeness auto

termination
  by (relation "measure length") (auto simp: le_imp_less_Suc length_dropWhile_le)

declare digit_runs.simps(2) [simp del]

definition later_dates :: "rstr \<Rightarrow> rstr \<Rightarrow> rstr list" where
  "later_dates s date =
     sort (remdups (filter (\<lambda>run. str_len run = 8 \<and> valid_date run \<and> date < run) (digit_runs s)))"

section \<open>Anchored queries\<close>

definition MAX_QUERY_BYTES :: nat where
  "MAX_QUERY_BYTES = 4000"

text \<open>The loop over the alternatives, with the queries made so far and the one being built.\<close>

fun anchored_loop ::
  "rstr list \<Rightarrow> rstr \<Rightarrow> rstr list \<Rightarrow> (rstr list, database_error) result" where
  "anchored_loop queries current [] =
     Ok (if current = [] then queries else queries @ [current @ lit '')$''])"
| "anchored_loop queries current (a # alternatives) =
     (if a = [] \<or> MAX_QUERY_BYTES < str_len a + 8 then Err DEInvalidInput
      else
        let flush = (current \<noteq> [] \<and> MAX_QUERY_BYTES < str_len current + str_len a + 4);
            queries = (if flush then queries @ [current @ lit '')$''] else queries);
            current = (if flush then [] else current) in
        anchored_loop queries (current @ (if current = [] then lit ''^(?:'' else lit ''|'') @ a) alternatives)"

definition anchored_queries :: "rstr list \<Rightarrow> (rstr list, database_error) result" where
  "anchored_queries alternatives = anchored_loop [] [] alternatives"

section \<open>Line lookups\<close>

definition MAX_LINE_HITS :: nat where
  "MAX_LINE_HITS = 500"

definition MAX_PAGES :: nat where
  "MAX_PAGES = 20"

definition PAGE_LIMIT :: nat where
  "PAGE_LIMIT = 100"

definition MAX_REVISION_PAGES :: nat where
  "MAX_REVISION_PAGES = 20"

record line_lookup =
  ll_hits :: "search_hit list"
  ll_corpus_complete :: bool
  ll_collection_notices :: "collection_notice list"
  ll_truncated :: bool

definition line_request ::
  "rstr \<Rightarrow> dataset list \<Rightarrow> rstr option \<Rightarrow> bool \<Rightarrow> rstr \<Rightarrow> rstr option \<Rightarrow> search_request" where
  "line_request section_name datasets object_id include_history query cursor =
     \<lparr>s_query = query,
      s_filters = \<lparr>f_datasets = datasets, f_authority = None, f_object_id = object_id,
                   f_document_type = None, f_date_kind = None, f_date_from = None, f_date_to = None\<rparr>,
      s_include_history = include_history, s_include_ocr = False, s_sections = [section_name],
      s_limit = PAGE_LIMIT, s_cursor = cursor, s_literal = False, s_ignore_case = False,
      s_context_lines = 0\<rparr>"

fun push_hits :: "line_lookup \<Rightarrow> search_hit list \<Rightarrow> line_lookup" where
  "push_hits r [] = r"
| "push_hits r (hit # hits) =
     (if length (ll_hits r) = MAX_LINE_HITS then r\<lparr>ll_truncated := True\<rparr>
      else push_hits (r\<lparr>ll_hits := ll_hits r @ [hit]\<rparr>) hits)"

definition add_page :: "line_lookup \<Rightarrow> corpus_search_page \<Rightarrow> line_lookup" where
  "add_page r page =
     push_hits
       (r\<lparr>ll_corpus_complete := (ll_corpus_complete r \<and> sp_corpus_complete page),
          ll_collection_notices := sp_collection_notices page\<rparr>)
       (sp_hits page)"

text \<open>The pages of one query; the second component of the answer counts the calls.\<close>

function query_pages ::
  "(nat \<Rightarrow> search_request \<Rightarrow> (corpus_search_page, database_error) result) \<Rightarrow>
   (rstr option \<Rightarrow> search_request) \<Rightarrow> nat \<Rightarrow> nat \<Rightarrow> rstr option \<Rightarrow> line_lookup \<Rightarrow>
     (line_lookup \<times> nat, database_error) result" where
  "query_pages search request k pages cursor r =
     and_then (search k (request cursor)) (\<lambda>page.
       let pages = Suc pages; r = add_page r page in
       (case sp_next_cursor page of
          None \<Rightarrow> Ok (r, Suc k)
        | Some n \<Rightarrow>
            if pages < MAX_PAGES \<and> \<not> ll_truncated r
            then query_pages search request (Suc k) pages (Some n) r
            else Ok (r\<lparr>ll_truncated := True\<rparr>, Suc k)))"
  by pat_completeness auto

termination
  by (relation "measure (\<lambda>(_, _, _, pages, _, _). MAX_PAGES - pages)") auto

declare query_pages.simps [simp del]

primrec query_loop ::
  "(nat \<Rightarrow> search_request \<Rightarrow> (corpus_search_page, database_error) result) \<Rightarrow>
   (rstr \<Rightarrow> rstr option \<Rightarrow> search_request) \<Rightarrow> nat \<Rightarrow> rstr list \<Rightarrow> line_lookup \<Rightarrow>
     (line_lookup, database_error) result" where
  "query_loop search request k [] r = Ok r"
| "query_loop search request k (query # queries) r =
     and_then (query_pages search (request query) k 0 None r) (\<lambda>(r, k).
       query_loop search request k queries r)"

definition find_lines ::
  "(nat \<Rightarrow> search_request \<Rightarrow> (corpus_search_page, database_error) result) \<Rightarrow> rstr \<Rightarrow> dataset list \<Rightarrow>
   rstr list \<Rightarrow> rstr option \<Rightarrow> bool \<Rightarrow> (line_lookup, database_error) result" where
  "find_lines search section_name datasets alternatives object_id include_history =
     and_then (anchored_queries alternatives) (\<lambda>queries.
     and_then
       (query_loop search (line_request section_name datasets object_id include_history) 0 queries
          \<lparr>ll_hits = [], ll_corpus_complete = True, ll_collection_notices = [], ll_truncated = False\<rparr>)
       (\<lambda>r. Ok (if ll_truncated r then r\<lparr>ll_corpus_complete := False\<rparr> else r)))"

section \<open>The revision catalog\<close>

record revision_inventory =
  ri_entries :: "history_entry list"
  ri_complete :: bool

text \<open>\<open>history k cursor\<close> is the k-th call of \<open>DatabaseService::history\<close> for the object.\<close>

function revision_pages ::
  "(nat \<Rightarrow> rstr option \<Rightarrow> (history_page, database_error) result) \<Rightarrow> nat \<Rightarrow> rstr option \<Rightarrow>
     history_entry list \<Rightarrow> bool \<Rightarrow> (revision_inventory, database_error) result" where
  "revision_pages history page_number cursor entries complete =
     (if page_number < MAX_REVISION_PAGES then
        and_then (history page_number cursor) (\<lambda>page.
          let complete = (complete \<and> hp_inventory_complete page);
              entries = entries @ hp_entries page in
          (case hp_next_cursor page of
             None \<Rightarrow> Ok \<lparr>ri_entries = entries, ri_complete = complete\<rparr>
           | Some n \<Rightarrow>
               if page_number + 1 < MAX_REVISION_PAGES
               then revision_pages history (Suc page_number) (Some n) entries complete
               else revision_pages history (Suc page_number) None entries False))
      else Ok \<lparr>ri_entries = entries, ri_complete = complete\<rparr>)"
  by pat_completeness auto

termination
  by (relation "measure (\<lambda>(_, page_number, _, _, _). MAX_REVISION_PAGES - page_number)") auto

declare revision_pages.simps [simp del]

definition revisions ::
  "database_store \<Rightarrow> (nat \<Rightarrow> nat) \<Rightarrow> object_id \<Rightarrow> (revision_inventory, database_error) result" where
  "revisions store clock ob =
     revision_pages (\<lambda>k cursor. database_history store (clock k) ob Revisions cursor PAGE_LIMIT) 0 None [] True"

section \<open>What a query matches\<close>

definition joined :: "rstr list \<Rightarrow> rstr" where
  "joined g = (case g of [] \<Rightarrow> [] | a # as \<Rightarrow> lit ''^(?:'' @ a @ concat (map (\<lambda>b. lit ''|'' @ b) as))"

lemma joined_simps [simp]:
  "joined [] = []"
  "joined [a] = lit ''^(?:'' @ a"
  "g \<noteq> [] \<Longrightarrow> joined (g @ [a]) = joined g @ lit ''|'' @ a"
  by (cases g; simp add: joined_def)+

lemma joined_eq_Nil [simp]: "joined g = [] \<longleftrightarrow> g = []"
  by (cases g) (auto simp: joined_def)

definition alternative_ok :: "rstr \<Rightarrow> bool" where
  "alternative_ok a \<longleftrightarrow> a \<noteq> [] \<and> str_len a + 8 \<le> MAX_QUERY_BYTES"

lemma anchored_loop_groups:
  assumes "list_all alternative_ok alternatives" "g = [] \<or> str_len (joined g) + 2 \<le> MAX_QUERY_BYTES"
  shows "\<exists>gs. anchored_loop queries (joined g) alternatives = Ok (queries @ map (\<lambda>g. joined g @ lit '')$'') gs)
    \<and> concat gs = g @ alternatives
    \<and> list_all (\<lambda>g. g \<noteq> [] \<and> str_len (joined g @ lit '')$'') \<le> MAX_QUERY_BYTES) gs"
  using assms
proof (induction alternatives arbitrary: g queries)
  case Nil
  then show ?case
    by (intro exI [of _ "if g = [] then [] else [g]"]) (auto simp: len_utf8_def)
next
  case (Cons a alternatives)
  let ?flush = "g \<noteq> [] \<and> MAX_QUERY_BYTES < str_len (joined g) + str_len a + 4"
  have a: "\<not> (a = [] \<or> MAX_QUERY_BYTES < str_len a + 8)" "list_all alternative_ok alternatives"
    using Cons.prems(1) alternative_ok_def [of a] by auto
  let ?g = "if ?flush then [a] else g @ [a]"
  let ?q = "if ?flush then queries @ [joined g @ lit '')$''] else queries"
  have size: "str_len (joined ?g) + 2 \<le> MAX_QUERY_BYTES"
    using a(1) by (cases "g = []") (auto simp: len_utf8_def)
  have step: "anchored_loop queries (joined g) (a # alternatives) = anchored_loop ?q (joined ?g) alternatives"
    using a(1) by (cases "g = []") (auto simp: Let_def)
  obtain gs where gs: "anchored_loop ?q (joined ?g) alternatives = Ok (?q @ map (\<lambda>g. joined g @ lit '')$'') gs)"
      "concat gs = ?g @ alternatives"
      "list_all (\<lambda>g. g \<noteq> [] \<and> str_len (joined g @ lit '')$'') \<le> MAX_QUERY_BYTES) gs"
    using Cons.IH [OF a(2)] size by blast
  show ?case
  proof (intro exI conjI)
    let ?gs = "if ?flush then g # gs else gs"
    show "anchored_loop queries (joined g) (a # alternatives) = Ok (queries @ map (\<lambda>g. joined g @ lit '')$'') ?gs)"
      unfolding step gs(1) by simp
    show "concat ?gs = g @ a # alternatives" using gs(2) by simp
    show "list_all (\<lambda>g. g \<noteq> [] \<and> str_len (joined g @ lit '')$'') \<le> MAX_QUERY_BYTES) ?gs"
      using gs(3) Cons.prems(2) by (auto simp: len_utf8_def)
  qed
qed

lemma anchored_loop_Err:
  "\<not> list_all alternative_ok alternatives \<Longrightarrow> anchored_loop queries current alternatives = Err DEInvalidInput"
  by (induction queries current alternatives rule: anchored_loop.induct)
    (auto simp: alternative_ok_def Let_def)

section \<open>Pages\<close>

text \<open>The pages a caller gets by following the cursors from the k-th call on, until there is none.\<close>

inductive page_chain ::
  "(nat \<Rightarrow> search_request \<Rightarrow> (corpus_search_page, database_error) result) \<Rightarrow>
   (rstr option \<Rightarrow> search_request) \<Rightarrow> nat \<Rightarrow> rstr option \<Rightarrow> corpus_search_page list \<Rightarrow> bool"
  for search request where
  last_page: "search k (request cursor) = Ok page \<Longrightarrow> sp_next_cursor page = None \<Longrightarrow>
     page_chain search request k cursor [page]"
| next_page: "search k (request cursor) = Ok page \<Longrightarrow> sp_next_cursor page = Some n \<Longrightarrow>
     page_chain search request (Suc k) (Some n) pages \<Longrightarrow>
     page_chain search request k cursor (page # pages)"

lemma push_hits_all:
  "length (ll_hits r) \<le> MAX_LINE_HITS \<Longrightarrow>
    (let r' = push_hits r hits in
     length (ll_hits r') \<le> MAX_LINE_HITS \<and> ll_corpus_complete r' = ll_corpus_complete r
     \<and> (ll_truncated r' \<longrightarrow> ll_truncated r \<or> MAX_LINE_HITS < length (ll_hits r) + length hits)
     \<and> (ll_truncated r \<longrightarrow> ll_truncated r')
     \<and> (\<not> ll_truncated r' \<longrightarrow> ll_hits r' = ll_hits r @ hits))"
  by (induction r hits rule: push_hits.induct) (auto simp: Let_def)

lemma add_page_all:
  assumes "length (ll_hits r) \<le> MAX_LINE_HITS"
  shows "length (ll_hits (add_page r page)) \<le> MAX_LINE_HITS"
    "ll_corpus_complete (add_page r page) \<longleftrightarrow> ll_corpus_complete r \<and> sp_corpus_complete page"
    "ll_truncated r \<Longrightarrow> ll_truncated (add_page r page)"
    "\<not> ll_truncated (add_page r page) \<Longrightarrow> ll_hits (add_page r page) = ll_hits r @ sp_hits page"
  using assms
    push_hits_all [of "r\<lparr>ll_corpus_complete := (ll_corpus_complete r \<and> sp_corpus_complete page),
      ll_collection_notices := sp_collection_notices page\<rparr>" "sp_hits page"]
  by (auto simp: add_page_def Let_def)

lemma query_pages_chain:
  assumes "query_pages search request k pages cursor r = Ok (r', k')"
    "length (ll_hits r) \<le> MAX_LINE_HITS" "pages < MAX_PAGES"
  shows "length (ll_hits r') \<le> MAX_LINE_HITS \<and> k' + pages \<le> k + MAX_PAGES
    \<and> (ll_truncated r \<longrightarrow> ll_truncated r')
    \<and> (\<not> ll_truncated r' \<longrightarrow> (\<exists>ps. page_chain search request k cursor ps \<and> k' = k + length ps
         \<and> ll_hits r' = ll_hits r @ concat (map sp_hits ps)
         \<and> ll_corpus_complete r' = (ll_corpus_complete r \<and> list_all sp_corpus_complete ps)))"
  using assms
proof (induction search request k pages cursor r arbitrary: r' k' rule: query_pages.induct)
  case (1 search request k pages cursor r)
  obtain page where page: "search k (request cursor) = Ok page"
    using "1.prems"(1) by (auto simp: query_pages.simps [of search] result_simps)
  note add = add_page_all [OF "1.prems"(2), of page]
  show ?case
  proof (cases "sp_next_cursor page")
    case None
    then have "r' = add_page r page" "k' = Suc k"
      using "1.prems"(1) page by (simp_all add: query_pages.simps [of search])
    then show ?thesis
      using add "1.prems"(3) last_page [of search k request cursor page] page None
      by (auto intro!: exI [of _ "[page]"])
  next
    case (Some n)
    show ?thesis
    proof (cases "Suc pages < MAX_PAGES \<and> \<not> ll_truncated (add_page r page)")
      case True
      then have rec: "query_pages search request (Suc k) (Suc pages) (Some n) (add_page r page) = Ok (r', k')"
        using "1.prems"(1) page Some by (simp add: query_pages.simps [of search _ k])
      note ih = "1.IH" [OF page refl refl Some True rec add(1)]
      show ?thesis
      proof (intro conjI impI)
        show "ll_truncated r \<Longrightarrow> ll_truncated r'" using add(3) True by blast
        assume "\<not> ll_truncated r'"
        then obtain ps where ps: "page_chain search request (Suc k) (Some n) ps" "k' = Suc k + length ps"
            "ll_hits r' = ll_hits (add_page r page) @ concat (map sp_hits ps)"
            "ll_corpus_complete r' = (ll_corpus_complete (add_page r page) \<and> list_all sp_corpus_complete ps)"
          using ih True by blast
        then show "\<exists>ps. page_chain search request k cursor ps \<and> k' = k + length ps
            \<and> ll_hits r' = ll_hits r @ concat (map sp_hits ps)
            \<and> ll_corpus_complete r' = (ll_corpus_complete r \<and> list_all sp_corpus_complete ps)"
          using next_page [of search k request cursor page n ps] page Some add(2,4) True
          by (intro exI [of _ "page # ps"]) auto
      qed (use ih True in auto)
    next
      case False
      then show ?thesis
        using "1.prems" page Some add by (auto simp: query_pages.simps [of search _ k])
    qed
  qed
qed

text \<open>The queries one after the other: each is followed to its end.\<close>

inductive query_chain ::
  "(nat \<Rightarrow> search_request \<Rightarrow> (corpus_search_page, database_error) result) \<Rightarrow>
   (rstr \<Rightarrow> rstr option \<Rightarrow> search_request) \<Rightarrow> nat \<Rightarrow> rstr list \<Rightarrow> corpus_search_page list \<Rightarrow> bool"
  for search request where
  no_query: "query_chain search request k [] []"
| one_query: "page_chain search (request q) k None ps \<Longrightarrow>
     query_chain search request (k + length ps) qs rest \<Longrightarrow>
     query_chain search request k (q # qs) (ps @ rest)"

lemma query_loop_chain:
  assumes "query_loop search request k qs r = Ok r'" "length (ll_hits r) \<le> MAX_LINE_HITS"
  shows "length (ll_hits r') \<le> MAX_LINE_HITS \<and> (ll_truncated r \<longrightarrow> ll_truncated r')
    \<and> (\<not> ll_truncated r' \<longrightarrow> (\<exists>ps. query_chain search request k qs ps
         \<and> ll_hits r' = ll_hits r @ concat (map sp_hits ps)
         \<and> ll_corpus_complete r' = (ll_corpus_complete r \<and> list_all sp_corpus_complete ps)))"
  using assms
proof (induction qs arbitrary: k r)
  case Nil
  then show ?case by (auto intro!: exI [of _ "[]"] no_query)
next
  case (Cons q qs)
  obtain r1 k1 where one: "query_pages search (request q) k 0 None r = Ok (r1, k1)"
      "query_loop search request k1 qs r1 = Ok r'"
    using Cons.prems(1) by (auto simp: result_simps)
  have "0 < MAX_PAGES" by (simp add: MAX_PAGES_def)
  note chain = query_pages_chain [OF one(1) Cons.prems(2) this]
  note ih = Cons.IH [OF one(2)]
  show ?case
  proof (intro conjI impI)
    assume t: "\<not> ll_truncated r'"
    then obtain ps where ps: "page_chain search (request q) k None ps" "k1 = k + length ps"
        "ll_hits r1 = ll_hits r @ concat (map sp_hits ps)"
        "ll_corpus_complete r1 = (ll_corpus_complete r \<and> list_all sp_corpus_complete ps)"
      using chain ih by blast
    obtain rest where rest: "query_chain search request k1 qs rest"
        "ll_hits r' = ll_hits r1 @ concat (map sp_hits rest)"
        "ll_corpus_complete r' = (ll_corpus_complete r1 \<and> list_all sp_corpus_complete rest)"
      using chain ih t by blast
    show "\<exists>ps. query_chain search request k (q # qs) ps \<and> ll_hits r' = ll_hits r @ concat (map sp_hits ps)
        \<and> ll_corpus_complete r' = (ll_corpus_complete r \<and> list_all sp_corpus_complete ps)"
      using one_query [OF ps(1) rest(1) [unfolded ps(2)]] ps rest by (intro exI [of _ "ps @ rest"]) auto
  qed (use chain ih in auto)
qed

section \<open>Greatest and least entries\<close>

lemma max_by_key_None [simp]: "max_by_key f xs = None \<longleftrightarrow> xs = []"
  by (cases xs) (auto split: option.splits)

lemma max_by_key_Some:
  "max_by_key f xs = Some x \<Longrightarrow> x \<in> set xs \<and> (\<forall>y\<in>set xs. f y \<le> f x)"
proof (induction xs arbitrary: x)
  case (Cons a xs)
  then show ?case by (cases "max_by_key f xs") (force split: if_splits)+
qed simp

lemma list_max_Some: "list_max xs = Some x \<longleftrightarrow> x \<in> set xs \<and> (\<forall>y\<in>set xs. y \<le> x)"
  by (auto simp: list_max_def Max_eq_iff)

lemma list_min_Some: "list_min xs = Some x \<longleftrightarrow> x \<in> set xs \<and> (\<forall>y\<in>set xs. x \<le> y)"
  by (auto simp: list_min_def Min_eq_iff)

lemma list_max_None [simp]: "list_max xs = None \<longleftrightarrow> xs = []" and
  list_min_None [simp]: "list_min xs = None \<longleftrightarrow> xs = []"
  by (simp_all add: list_max_def list_min_def)

lemma last_sort_key:
  assumes "xs \<noteq> []"
  shows "last (sort_key f xs) \<in> set xs \<and> (\<forall>y\<in>set xs. f y \<le> f (last (sort_key f xs)))"
proof -
  let ?s = "sort_key f xs"
  have ne: "?s \<noteq> []" using assms by (metis length_0_conv length_sort)
  have "last ?s \<in> set xs" using last_in_set [OF ne] by simp
  moreover have "f y \<le> f (last ?s)" if "y \<in> set xs" for y
  proof -
    obtain i where i: "i < length ?s" "?s ! i = y" using \<open>y \<in> set xs\<close> by (metis in_set_conv_nth set_sort)
    have "map f ?s ! i \<le> map f ?s ! (length ?s - 1)"
      by (rule sorted_nth_mono) (use i in auto)
    then show ?thesis using i ne by (simp add: last_conv_nth)
  qed
  ultimately show ?thesis by blast
qed

lemma revision_order_le:
  "effective f < effective e \<Longrightarrow> revision_order f \<le> revision_order e"
  by (simp add: revision_order_def less_imp_le)

text \<open>The entries before the given date, in the order in which they are preferred.\<close>

definition applicable :: "history_entry list \<Rightarrow> rstr \<Rightarrow> history_entry list" where
  "applicable entries date = filter (\<lambda>e. dated e \<and> effective e \<le> date) entries"

lemma selected_entry:
  assumes "list_max (filter (\<lambda>d. d \<le> date) (map effective (filter dated entries))) = Some b"
  defines "g \<equiv> sort_key revision_order (filter (\<lambda>e. effective e = b) (filter dated entries))"
  shows "g \<noteq> []" "last g \<in> set (applicable entries date)" "effective (last g) = b"
    "f \<in> set (applicable entries date) \<Longrightarrow> revision_order f \<le> revision_order (last g)"
proof -
  have b: "b \<in> effective ` set (filter dated entries)" "b \<le> date"
      "\<And>f. f \<in> set (applicable entries date) \<Longrightarrow> effective f \<le> b"
    using assms(1) by (auto simp: list_max_Some applicable_def)
  let ?xs = "filter (\<lambda>e. effective e = b) (filter dated entries)"
  have ne: "?xs \<noteq> []" using b(1) by (auto simp: filter_empty_conv)
  then show "g \<noteq> []" by (metis g_def length_0_conv length_sort)
  note l = last_sort_key [OF ne, of revision_order, folded g_def]
  show "last g \<in> set (applicable entries date)" and eff: "effective (last g) = b"
    using l b(2) by (auto simp: applicable_def)
  show "revision_order f \<le> revision_order (last g)" if "f \<in> set (applicable entries date)"
    using l b(3) [OF that] that eff revision_order_le [of f "last g"]
    by (cases "effective f = b") (auto simp: applicable_def)
qed

lemma select_next_change:
  "if_next_change (select_in_force entries complete date) =
     (case list_min (filter (\<lambda>d. date < d) (map effective (filter dated entries))) of
        None \<Rightarrow> None
      | Some n \<Rightarrow> map_option choice (max_by_key revision_order
          (filter (\<lambda>e. effective e = n) (filter dated entries))))"
  unfolding select_in_force_def Let_def
  by (cases "list_max (filter (\<lambda>d. d \<le> date) (map effective (filter dated entries)))")
    (simp_all only: option.case in_force_selection.select_convs)

lemma next_change_least:
  assumes "after = filter (\<lambda>e. dated e \<and> date < effective e) entries" "after \<noteq> []"
  shows "\<exists>e \<in> set after. if_next_change (select_in_force entries complete date) = Some (choice e)
    \<and> list_all (\<lambda>f. effective e \<le> effective f) after"
proof -
  let ?ds = "filter dated entries"
  have "filter (\<lambda>d. date < d) (map effective ?ds) \<noteq> []" using assms by (auto simp: filter_empty_conv)
  then obtain n where n: "list_min (filter (\<lambda>d. date < d) (map effective ?ds)) = Some n"
    using list_min_None by blast
  note least = n [unfolded list_min_Some]
  let ?xs = "filter (\<lambda>e. effective e = n) ?ds"
  have "?xs \<noteq> []" using least by (auto simp: filter_empty_conv)
  then obtain e where e: "max_by_key revision_order ?xs = Some e" using max_by_key_None by blast
  have "e \<in> set ?xs" using max_by_key_Some [OF e] by blast
  then show ?thesis
    using n e least assms(1) by (intro bexI [of _ e]) (auto simp: select_next_change list_all_iff)
qed

lemma select_none:
  assumes "applicable entries date = []"
  shows "if_selected (select_in_force entries complete date) = None"
    "if_same_effective_date (select_in_force entries complete date) = []"
    "if_status (select_in_force entries complete date) = (if filter dated entries = [] then Undetermined else NotYetEffective)"
proof -
  have "filter (\<lambda>d. d \<le> date) (map effective (filter dated entries)) = []"
    using assms by (auto simp: applicable_def filter_empty_conv)
  then have best: "list_max (filter (\<lambda>d. d \<le> date) (map effective (filter dated entries))) = None"
    unfolding list_max_None .
  show "if_selected (select_in_force entries complete date) = None"
    "if_same_effective_date (select_in_force entries complete date) = []"
    "if_status (select_in_force entries complete date) = (if filter dated entries = [] then Undetermined else NotYetEffective)"
    unfolding select_in_force_def Let_def best option.case by (simp_all del: lit_simps)
qed

lemma map_butlast_last: "xs \<noteq> [] \<Longrightarrow> map f xs = map f (butlast xs) @ [f (last xs)]"
  by (cases xs rule: rev_cases) auto

lemma select_some:
  assumes "applicable entries date \<noteq> []"
  shows "if_status (select_in_force entries complete date) = (if complete then Determined else Provisional)
    \<and> (\<exists>e \<in> set (applicable entries date). if_selected (select_in_force entries complete date) = Some (choice e)
        \<and> list_all (\<lambda>f. revision_order f \<le> revision_order e) (applicable entries date)
        \<and> rev (if_same_effective_date (select_in_force entries complete date)) @ [choice e] =
            map choice (sort_key revision_order (filter (\<lambda>f. effective f = effective e) (applicable entries date))))"
proof -
  let ?ds = "filter dated entries"
  have "filter (\<lambda>d. d \<le> date) (map effective ?ds) \<noteq> []"
    using assms by (auto simp: applicable_def filter_empty_conv)
  then obtain b where b: "list_max (filter (\<lambda>d. d \<le> date) (map effective ?ds)) = Some b"
    using list_max_None by blast
  define g where "g = sort_key revision_order (filter (\<lambda>e. effective e = b) ?ds)"
  note sel = selected_entry [OF b, folded g_def]
  have "b \<le> date" using b by (auto simp: list_max_Some)
  then have "filter (\<lambda>e. effective e = b) ?ds = filter (\<lambda>f. effective f = effective (last g)) (applicable entries date)"
    unfolding sel(3) applicable_def by (auto intro: filter_cong)
  then have g: "g = sort_key revision_order (filter (\<lambda>f. effective f = effective (last g)) (applicable entries date))"
    unfolding g_def by simp
  have fields: "if_selected (select_in_force entries complete date) = Some (choice (last g))"
      "if_same_effective_date (select_in_force entries complete date) = map choice (rev (butlast g))"
      "if_status (select_in_force entries complete date) = (if complete then Determined else Provisional)"
    unfolding select_in_force_def Let_def b option.case g_def [symmetric] using sel(1) by (simp_all del: lit_simps)
  have "rev (map choice (rev (butlast g))) @ [choice (last g)] = map choice g"
    using sel(1) by (simp add: rev_map map_butlast_last)
  with fields sel(2,4) show ?thesis
    by (intro conjI bexI [of _ "last g"]) (auto simp: list_all_iff simp flip: g)
qed

text \<open>The tie-break of the selection, spelled out.\<close>

definition published :: "history_entry \<Rightarrow> rstr" where
  "published e = (case he_publication_date e of None \<Rightarrow> [] | Some d \<Rightarrow> d)"

lemma revision_order_spelled:
  "revision_order f \<le> revision_order e \<longleftrightarrow> effective f < effective e \<or> effective f = effective e
     \<and> (published f < published e \<or> published f = published e \<and> he_revision_id f \<le> he_revision_id e)"
  by (simp add: revision_order_def published_def unwrap_or_default_def le_less [of "he_revision_id f"])

lemma revision_order_key: "revision_order = (\<lambda>f. [effective f, published f, he_revision_id f])"
  by (simp add: revision_order_def published_def unwrap_or_default_def fun_eq_iff)

section \<open>Properties\<close>

text \<open>
  C15. The revision selected for a date is the right one: with a dated revision in force on or before the
  date, the selected one is greatest among those by effective date, then publication date, then
  identifier, and together with the reported others it is exactly the revisions of that effective date
  in that order; the status is determined exactly when the inventory was also complete.  Without one,
  nothing is selected.  The next change is an earliest revision after the date.
\<close>

theorem select_in_force_correct:
  "(let s = select_in_force entries complete date; before = applicable entries date;
        after = filter (\<lambda>e. dated e \<and> date < effective e) entries in
    (if before = []
     then if_selected s = None \<and> if_same_effective_date s = []
       \<and> if_status s = (if after = [] then Undetermined else NotYetEffective)
     else if_status s = (if complete then Determined else Provisional)
       \<and> (\<exists>e \<in> set before. if_selected s = Some (choice e)
           \<and> list_all (\<lambda>f. effective f < effective e \<or> effective f = effective e
               \<and> (published f < published e \<or> published f = published e \<and> he_revision_id f \<le> he_revision_id e)) before
           \<and> rev (if_same_effective_date s) @ [choice e] =
               map choice (sort_key (\<lambda>f. [effective f, published f, he_revision_id f])
                 (filter (\<lambda>f. effective f = effective e) before))))
    \<and> (if after = [] then if_next_change s = None
       else \<exists>e \<in> set after. if_next_change s = Some (choice e)
         \<and> list_all (\<lambda>f. effective e \<le> effective f) after))"
proof -
  let ?after = "filter (\<lambda>e. dated e \<and> date < effective e) entries"
  have "if_next_change (select_in_force entries complete date) = None" if "?after = []"
  proof -
    have "filter (\<lambda>d. date < d) (map effective (filter dated entries)) = []"
      using that by (auto simp: filter_empty_conv)
    then show ?thesis by (simp add: select_next_change list_min_def)
  qed
  moreover have "?after = [] \<longleftrightarrow> filter dated entries = []" if "applicable entries date = []"
    using that by (auto simp: applicable_def filter_empty_conv not_le)
  ultimately show ?thesis
    using select_none [of entries date complete]
      select_some [of entries date complete, unfolded revision_order_spelled, unfolded revision_order_key]
      next_change_least [OF refl, of date entries complete]
    by (simp add: Let_def)
qed

text \<open>
  The queries of a lookup cover its alternatives: they fail exactly when an alternative is empty or
  too long, and otherwise split the alternatives, in order, into nonempty groups; each query anchors one
  group and has at most 4000 bytes.
\<close>

lemma anchored_queries_cover:
  "(if list_all alternative_ok alternatives
    then \<exists>gs. anchored_queries alternatives = Ok (map (\<lambda>g. joined g @ lit '')$'') gs)
      \<and> concat gs = alternatives \<and> list_all (\<lambda>g. g \<noteq> [] \<and> str_len (joined g @ lit '')$'') \<le> 4000) gs
    else anchored_queries alternatives = Err DEInvalidInput)"
  using anchored_loop_groups [of alternatives "[]" "[]"] anchored_loop_Err [of alternatives "[]" "[]"]
  by (simp add: anchored_queries_def MAX_QUERY_BYTES_def)

text \<open>
  C40. A lookup that reports a complete corpus has seen everything: no bound cut it short, every page of
  every query was followed to its last cursor and was itself complete, and the lines are the lines of all
  these pages in order.  In any case there are at most 500 of them.
\<close>

theorem find_lines_complete:
  assumes "find_lines search section_name datasets alternatives object history = Ok r"
  shows "length (ll_hits r) \<le> 500
    \<and> (ll_corpus_complete r \<longrightarrow> \<not> ll_truncated r
        \<and> (\<exists>qs ps. anchored_queries alternatives = Ok qs
            \<and> query_chain search (line_request section_name datasets object history) 0 qs ps
            \<and> list_all sp_corpus_complete ps \<and> ll_hits r = concat (map sp_hits ps)))"
proof -
  obtain qs r0 where q: "anchored_queries alternatives = Ok qs"
    and loop: "query_loop search (line_request section_name datasets object history) 0 qs
      \<lparr>ll_hits = [], ll_corpus_complete = True, ll_collection_notices = [], ll_truncated = False\<rparr> = Ok r0"
    and r: "r = (if ll_truncated r0 then r0\<lparr>ll_corpus_complete := False\<rparr> else r0)"
    using assms by (auto simp: find_lines_def result_simps)
  show ?thesis using query_loop_chain [OF loop] q r by (auto simp: MAX_LINE_HITS_def)
qed

definition sample_lines :: "nat \<Rightarrow> search_request \<Rightarrow> (corpus_search_page, database_error) result" where
  "sample_lines k request =
     Ok \<lparr>sp_schema_version = 1, sp_hits = [], sp_next_cursor = (if k = 0 then Some (lit ''c'') else None),
         sp_generation = 1, sp_corpus_complete = True, sp_scanned_bytes = 4, sp_analyzer_version = lit ''1'',
         sp_index_lag = 0, sp_collection_notices = []\<rparr>"

theorem find_lines_complete_witness:
  "\<exists>r. find_lines sample_lines (lit ''title'') [] [lit ''a'', lit ''b''] None False = Ok r \<and> length (ll_hits r) \<le> 500"
proof -
  have "is_ok (find_lines sample_lines (lit ''title'') [] [lit ''a'', lit ''b''] None False)" by code_simp
  then obtain r where "find_lines sample_lines (lit ''title'') [] [lit ''a'', lit ''b''] None False = Ok r"
    unfolding is_ok_iff by blast
  with find_lines_complete [OF this] show ?thesis by blast
qed

text \<open>The pages of the revision catalog, followed from the k-th call on until there is no cursor.\<close>

inductive history_chain ::
  "(nat \<Rightarrow> rstr option \<Rightarrow> (history_page, database_error) result) \<Rightarrow> nat \<Rightarrow> rstr option \<Rightarrow>
     history_page list \<Rightarrow> bool"
  for history where
  last_history: "history k cursor = Ok page \<Longrightarrow> hp_next_cursor page = None \<Longrightarrow>
     history_chain history k cursor [page]"
| next_history: "history k cursor = Ok page \<Longrightarrow> hp_next_cursor page = Some n \<Longrightarrow>
     history_chain history (Suc k) (Some n) pages \<Longrightarrow> history_chain history k cursor (page # pages)"

lemma revision_pages_chain:
  assumes "revision_pages history k cursor entries complete = Ok r" "ri_complete r" "k < MAX_REVISION_PAGES"
  shows "complete \<and> (\<exists>ps. history_chain history k cursor ps \<and> k + length ps \<le> MAX_REVISION_PAGES
    \<and> list_all hp_inventory_complete ps \<and> ri_entries r = entries @ concat (map hp_entries ps))"
  using assms
proof (induction history k cursor entries complete arbitrary: r rule: revision_pages.induct)
  case (1 history k cursor entries complete)
  obtain page where page: "history k cursor = Ok page"
    using "1.prems" by (auto simp: revision_pages.simps [of history k] result_simps)
  show ?case
  proof (cases "hp_next_cursor page")
    case None
    then show ?thesis
      using "1.prems" page last_history [of history k cursor page]
      by (auto simp: revision_pages.simps [of history k] intro!: exI [of _ "[page]"])
  next
    case (Some n)
    show ?thesis
    proof (cases "k + 1 < MAX_REVISION_PAGES")
      case True
      then have rec: "revision_pages history (Suc k) (Some n) (entries @ hp_entries page)
          (complete \<and> hp_inventory_complete page) = Ok r"
        using "1.prems" page Some by (simp add: revision_pages.simps [of history k])
      from True have "Suc k < MAX_REVISION_PAGES" by simp
      from "1.IH"(1) [OF "1.prems"(3) page refl refl Some True rec "1.prems"(2) this]
      obtain ps where ps: "complete \<and> hp_inventory_complete page" "history_chain history (Suc k) (Some n) ps"
          "Suc k + length ps \<le> MAX_REVISION_PAGES" "list_all hp_inventory_complete ps"
          "ri_entries r = (entries @ hp_entries page) @ concat (map hp_entries ps)"
        by blast
      then show ?thesis
        using next_history [OF page Some ps(2)] by (intro conjI exI [of _ "page # ps"]) auto
    next
      case False
      then have "revision_pages history (Suc k) None (entries @ hp_entries page) False = Ok r"
        using "1.prems" page Some by (simp add: revision_pages.simps [of history k])
      then show ?thesis using False "1.prems"(2) by (auto simp: revision_pages.simps [of history "Suc k"])
    qed
  qed
qed

text \<open>
  A revision catalog reported as complete is the whole catalog: at most twenty pages were read, the
  last one had no cursor, every page was complete, and the entries are the entries of these pages.
\<close>

lemma revisions_complete:
  assumes "revisions store clock ob = Ok r" "ri_complete r"
  shows "\<exists>ps. history_chain (\<lambda>k cursor. database_history store (clock k) ob Revisions cursor PAGE_LIMIT) 0 None ps
    \<and> length ps \<le> 20 \<and> list_all hp_inventory_complete ps \<and> ri_entries r = concat (map hp_entries ps)"
  using revision_pages_chain [OF assms(1) [unfolded revisions_def] assms(2)]
  by (auto simp: MAX_REVISION_PAGES_def)

lemma later_dates_sorted: "sorted_wrt (<) (later_dates s date)"
  unfolding later_dates_def strict_sorted_iff by simp

lemma later_dates_after: "d \<in> set (later_dates s date) \<Longrightarrow> valid_date d \<and> date < d"
  by (simp add: later_dates_def)

end
