(* ===== verification/Korean_Reference.thy ===== *)
theory Korean_Reference
  imports Legal_Domain Text_Slices
begin

text \<open>
  The Korean reference profile: \<open>crates/normalization/src/kr_legal_reference.rs\<close>, with the citation model
  of \<open>crates/normalization/src/legal_reference.rs\<close> and the locators of
  \<open>crates/domain/src/legal_reference.rs\<close>.

  Texts are lists of Unicode scalar values; Korean words are written by their code points and the
  common markers have names.  Positions are byte offsets as in the code.  Indexing a string by a byte
  range panics unless both ends are character boundaries: \<open>Panicked\<close> is that outcome, and functions that
  index have a result of the type \<open>comp\<close>.  \<open>get(at..)\<close> does not panic.  \<open>char::is_alphanumeric\<close> is a table
  of Unicode and the parameter \<open>alnum\<close>.
\<close>

section \<open>Indexing\<close>

type_synonym 'a comp = "('a, unit fault) result"

definition index_from :: "rstr \<Rightarrow> nat \<Rightarrow> rstr comp" where
  "index_from t n = (case split_bytes t n of None \<Rightarrow> Err Panicked | Some (_, b) \<Rightarrow> Ok b)"

definition index_to :: "rstr \<Rightarrow> nat \<Rightarrow> rstr comp" where
  "index_to t n = (case split_bytes t n of None \<Rightarrow> Err Panicked | Some (a, _) \<Rightarrow> Ok a)"

definition index_range :: "rstr \<Rightarrow> nat \<Rightarrow> nat \<Rightarrow> rstr comp" where
  "index_range t a b = (case slice t a b of None \<Rightarrow> Err Panicked | Some s \<Rightarrow> Ok s)"

primrec char_indices_from :: "nat \<Rightarrow> rstr \<Rightarrow> (nat \<times> rchar) list" where
  "char_indices_from n [] = []"
| "char_indices_from n (c # s) = (n, c) # char_indices_from (n + len_utf8 c) s"

definition char_indices :: "rstr \<Rightarrow> (nat \<times> rchar) list" where
  "char_indices s = char_indices_from 0 s"

definition trim_start :: "rstr \<Rightarrow> rstr" where
  "trim_start s = dropWhile is_whitespace s"

definition trim_end_by :: "(rchar \<Rightarrow> bool) \<Rightarrow> rstr \<Rightarrow> rstr" where
  "trim_end_by P s = rev (dropWhile P (rev s))"

definition trim_end :: "rstr \<Rightarrow> rstr" where
  "trim_end s = trim_end_by is_whitespace s"

definition strip_suffix_str :: "rstr \<Rightarrow> rstr \<Rightarrow> rstr option" where
  "strip_suffix_str p s =
     (let n = length s - length p in
      if length p \<le> length s \<and> drop n s = p then Some (take n s) else None)"

text \<open>\<open>str::lines\<close>: without the line feed, and without a carriage return before it.\<close>

definition str_lines :: "rstr \<Rightarrow> rstr list" where
  "str_lines s =
     map (\<lambda>l. case strip_suffix NL l of
            None \<Rightarrow> l
          | Some l' \<Rightarrow> (case strip_suffix CR l' of None \<Rightarrow> l' | Some l'' \<Rightarrow> l''))
       (split_inclusive s)"

abbreviation (input) JE :: rchar where "JE \<equiv> 0xC81C"
abbreviation (input) JE_HAN :: rchar where "JE_HAN \<equiv> 0x7B2C"
abbreviation (input) JO :: rchar where "JO \<equiv> 0xC870"
abbreviation (input) JO_HAN :: rchar where "JO_HAN \<equiv> 0x689D"
abbreviation (input) UI :: rchar where "UI \<equiv> 0xC758"
abbreviation (input) HANG :: rchar where "HANG \<equiv> 0xD56D"
abbreviation (input) HO :: rchar where "HO \<equiv> 0xD638"

definition hangul :: "rchar \<Rightarrow> bool" where
  "hangul c \<longleftrightarrow> 0xAC00 \<le> c \<and> c \<le> 0xD7A3"

section \<open>Article numbers\<close>

record article_number =
  an_number :: nat
  an_part :: "nat option"
  an_branch :: "nat option"

definition format_article :: "article_number \<Rightarrow> rstr" where
  "format_article a =
     [JE] @ nat_str (an_number a)
     @ (case an_part a of None \<Rightarrow> [] | Some p \<Rightarrow> [45] @ nat_str p)
     @ [JO] @ (case an_branch a of None \<Rightarrow> [] | Some b \<Rightarrow> [UI] @ nat_str b)"

text \<open>The derived order: by number, then part, then branch, with an absent one first.\<close>

definition option_le :: "nat option \<Rightarrow> nat option \<Rightarrow> bool" where
  "option_le x y = (case x of None \<Rightarrow> True | Some a \<Rightarrow> (case y of None \<Rightarrow> False | Some b \<Rightarrow> a \<le> b))"

definition article_le :: "article_number \<Rightarrow> article_number \<Rightarrow> bool" where
  "article_le a b \<longleftrightarrow>
     an_number a < an_number b
     \<or> an_number a = an_number b
       \<and> (an_part a \<noteq> an_part b \<and> option_le (an_part a) (an_part b)
          \<or> an_part a = an_part b \<and> option_le (an_branch a) (an_branch b))"

section \<open>Law names\<close>

record law_name_resolution =
  lnr_input :: rstr
  lnr_normalized :: rstr
  lnr_resolved :: rstr
  lnr_matched_alias :: "rstr option"

definition MAX_LAW_NAME_BYTES :: nat where
  "MAX_LAW_NAME_BYTES = 512"

definition MAX_NAME_WORDS :: nat where
  "MAX_NAME_WORDS = 8"

definition MIDDLE_DOTS :: "rchar list" where
  "MIDDLE_DOTS = [0xB7, 0x318D, 0x2027, 0x2022, 0x30FB, 0xFF65, 0x2219]"

definition OFFICIAL_DOT :: rchar where
  "OFFICIAL_DOT = 0x318D"

text \<open>The words for an enforcement rule and an enforcement decree.\<close>

definition SUFFIXES :: "rstr list" where
  "SUFFIXES = [[0xC2DC, 0xD589, 0xADDC, 0xCE59], [0xC2DC, 0xD589, 0xB839]]"

definition LAW_ALIASES :: "(rstr \<times> rstr list) list" where
  "LAW_ALIASES =
     [([0xB300, 0xD55C, 0xBBFC, 0xAD6D, 0xD5CC, 0xBC95],
       [[0xD5CC, 0xBC95]]),
      ([0xBBFC, 0xC0AC, 0xC18C, 0xC1A1, 0xBC95],
       [[0xBBFC, 0xC18C, 0xBC95]]),
      ([0xD615, 0xC0AC, 0xC18C, 0xC1A1, 0xBC95],
       [[0xD615, 0xC18C, 0xBC95]]),
      ([0xBBFC, 0xC0AC, 0xC9D1, 0xD589, 0xBC95],
       [[0xBBFC, 0xC9D1, 0xBC95]]),
      ([0xD589, 0xC815, 0xC18C, 0xC1A1, 0xBC95],
       [[0xD589, 0xC18C, 0xBC95]]),
      ([0xCC44, 0xBB34, 0xC790, 32, 0xD68C, 0xC0DD, 32, 0xBC0F, 32, 0xD30C, 0xC0B0, 0xC5D0, 32, 0xAD00, 0xD55C, 32, 0xBC95, 0xB960],
       [[0xCC44, 0xBB34, 0xC790, 0xD68C, 0xC0DD, 0xBC95],
        [0xD1B5, 0xD569, 0xB3C4, 0xC0B0, 0xBC95]]),
      ([0xADFC, 0xB85C, 0xAE30, 0xC900, 0xBC95],
       [[0xADFC, 0xAE30, 0xBC95]]),
      ([0xC0B0, 0xC5C5, 0xC548, 0xC804, 0xBCF4, 0xAC74, 0xBC95],
       [[0xC0B0, 0xC548, 0xBC95]]),
      ([0xC0B0, 0xC5C5, 0xC548, 0xC804, 0xBCF4, 0xAC74, 0xAE30, 0xC900, 0xC5D0, 32, 0xAD00, 0xD55C, 32, 0xADDC, 0xCE59],
       [[0xC0B0, 0xC548, 0xAE30, 0xC900, 0xADDC, 0xCE59],
        [0xC548, 0xC804, 0xBCF4, 0xAC74, 0xADDC, 0xCE59],
        [0xC0B0, 0xC5C5, 0xC548, 0xC804, 0xBCF4, 0xAC74, 0xAE30, 0xC900, 0xADDC, 0xCE59]]),
      ([0xC911, 0xB300, 0xC7AC, 0xD574, 32, 0xCC98, 0xBC8C, 32, 0xB4F1, 0xC5D0, 32, 0xAD00, 0xD55C, 32, 0xBC95, 0xB960],
       [[0xC911, 0xB300, 0xC7AC, 0xD574, 0xCC98, 0xBC8C, 0xBC95],
        [0xC911, 0xCC98, 0xBC95],
        [0xC911, 0xB300, 0xC7AC, 0xD574, 0xBC95]]),
      ([0xC0B0, 0xC5C5, 0xC7AC, 0xD574, 0xBCF4, 0xC0C1, 0xBCF4, 0xD5D8, 0xBC95],
       [[0xC0B0, 0xC7AC, 0xBCF4, 0xD5D8, 0xBC95],
        [0xC0B0, 0xC7AC, 0xBC95]]),
      ([0xACE0, 0xC6A9, 0xBCF4, 0xD5D8, 0xBC95],
       [[0xACE0, 0xBCF4, 0xBC95]]),
      ([0xADFC, 0xB85C, 0xC790, 0xD1F4, 0xC9C1, 0xAE09, 0xC5EC, 32, 0xBCF4, 0xC7A5, 0xBC95],
       [[0xD1F4, 0xC9C1, 0xAE09, 0xC5EC, 0xBC95],
        [0xADFC, 0xD1F4, 0xBC95]]),
      ([0xB178, 0xB3D9, 0xC870, 0xD569, 32, 0xBC0F, 32, 0xB178, 0xB3D9, 0xAD00, 0xACC4, 0xC870, 0xC815, 0xBC95],
       [[0xB178, 0xB3D9, 0xC870, 0xD569, 0xBC95],
        [0xB178, 0xC870, 0xBC95],
        [0xB178, 0xC870, 0xBC95]]),
      ([0xD30C, 0xACAC, 0xADFC, 0xB85C, 0xC790, 32, 0xBCF4, 0xD638, 32, 0xB4F1, 0xC5D0, 32, 0xAD00, 0xD55C, 32, 0xBC95, 0xB960],
       [[0xD30C, 0xACAC, 0xBC95],
        [0xD30C, 0xACAC, 0xADFC, 0xB85C, 0xC790, 0xBC95]]),
      ([0xAE30, 0xAC04, 0xC81C, 32, 0xBC0F, 32, 0xB2E8, 0xC2DC, 0xAC04, 0xADFC, 0xB85C, 0xC790, 32, 0xBCF4, 0xD638, 32, 0xB4F1, 0xC5D0, 32, 0xAD00, 0xD55C, 32, 0xBC95, 0xB960],
       [[0xAE30, 0xAC04, 0xC81C, 0xBC95]]),
      ([0xB0A8, 0xB140, 0xACE0, 0xC6A9, 0xD3C9, 0xB4F1, 0xACFC, 32, 0xC77C, 0x318D, 0xAC00, 0xC815, 32, 0xC591, 0xB9BD, 32, 0xC9C0, 0xC6D0, 0xC5D0, 32, 0xAD00, 0xD55C, 32, 0xBC95, 0xB960],
       [[0xB0A8, 0xB140, 0xACE0, 0xC6A9, 0xD3C9, 0xB4F1, 0xBC95],
        [0xACE0, 0xD3C9, 0xBC95]]),
      ([0xAC1C, 0xC778, 0xC815, 0xBCF4, 32, 0xBCF4, 0xD638, 0xBC95],
       [[0xAC1C, 0xC778, 0xC815, 0xBCF4, 0xBCF4, 0xD638, 0xBC95],
        [0xAC1C, 0xBCF4, 0xBC95],
        [0xAC1C, 0xC778, 0xC815, 0xBCF4, 0xBC95]]),
      ([0xC815, 0xBCF4, 0xD1B5, 0xC2E0, 0xB9DD, 32, 0xC774, 0xC6A9, 0xCD09, 0xC9C4, 32, 0xBC0F, 32, 0xC815, 0xBCF4, 0xBCF4, 0xD638, 32, 0xB4F1, 0xC5D0, 32, 0xAD00, 0xD55C, 32, 0xBC95, 0xB960],
       [[0xC815, 0xBCF4, 0xD1B5, 0xC2E0, 0xB9DD, 0xBC95],
        [0xC815, 0xD1B5, 0xB9DD, 0xBC95]]),
      ([0xC2E0, 0xC6A9, 0xC815, 0xBCF4, 0xC758, 32, 0xC774, 0xC6A9, 32, 0xBC0F, 32, 0xBCF4, 0xD638, 0xC5D0, 32, 0xAD00, 0xD55C, 32, 0xBC95, 0xB960],
       [[0xC2E0, 0xC6A9, 0xC815, 0xBCF4, 0xBC95],
        [0xC2E0, 0xC815, 0xBC95]]),
      ([0xC704, 0xCE58, 0xC815, 0xBCF4, 0xC758, 32, 0xBCF4, 0xD638, 32, 0xBC0F, 32, 0xC774, 0xC6A9, 32, 0xB4F1, 0xC5D0, 32, 0xAD00, 0xD55C, 32, 0xBC95, 0xB960],
       [[0xC704, 0xCE58, 0xC815, 0xBCF4, 0xBC95]]),
      ([0xC778, 0xACF5, 0xC9C0, 0xB2A5, 32, 0xBC1C, 0xC804, 0xACFC, 32, 0xC2E0, 0xB8B0, 32, 0xAE30, 0xBC18, 32, 0xC870, 0xC131, 32, 0xB4F1, 0xC5D0, 32, 0xAD00, 0xD55C, 32, 0xAE30, 0xBCF8, 0xBC95],
       [[0xC778, 0xACF5, 0xC9C0, 0xB2A5, 0xAE30, 0xBCF8, 0xBC95],
        [65, 73, 0xAE30, 0xBCF8, 0xBC95]]),
      ([0xACF5, 0xACF5, 0xAE30, 0xAD00, 0xC758, 32, 0xC815, 0xBCF4, 0xACF5, 0xAC1C, 0xC5D0, 32, 0xAD00, 0xD55C, 32, 0xBC95, 0xB960],
       [[0xC815, 0xBCF4, 0xACF5, 0xAC1C, 0xBC95]]),
      ([0xBD80, 0xC815, 0xCCAD, 0xD0C1, 32, 0xBC0F, 32, 0xAE08, 0xD488, 0xB4F1, 32, 0xC218, 0xC218, 0xC758, 32, 0xAE08, 0xC9C0, 0xC5D0, 32, 0xAD00, 0xD55C, 32, 0xBC95, 0xB960],
       [[0xCCAD, 0xD0C1, 0xAE08, 0xC9C0, 0xBC95],
        [0xAE40, 0xC601, 0xB780, 0xBC95]]),
      ([0xACF5, 0xC9C1, 0xC790, 0xC758, 32, 0xC774, 0xD574, 0xCDA9, 0xB3CC, 32, 0xBC29, 0xC9C0, 0xBC95],
       [[0xC774, 0xD574, 0xCDA9, 0xB3CC, 0xBC29, 0xC9C0, 0xBC95]]),
      ([0xAD6D, 0xAC00, 0xB97C, 32, 0xB2F9, 0xC0AC, 0xC790, 0xB85C, 32, 0xD558, 0xB294, 32, 0xACC4, 0xC57D, 0xC5D0, 32, 0xAD00, 0xD55C, 32, 0xBC95, 0xB960],
       [[0xAD6D, 0xAC00, 0xACC4, 0xC57D, 0xBC95]]),
      ([0xC9C0, 0xBC29, 0xC790, 0xCE58, 0xB2E8, 0xCCB4, 0xB97C, 32, 0xB2F9, 0xC0AC, 0xC790, 0xB85C, 32, 0xD558, 0xB294, 32, 0xACC4, 0xC57D, 0xC5D0, 32, 0xAD00, 0xD55C, 32, 0xBC95, 0xB960],
       [[0xC9C0, 0xBC29, 0xACC4, 0xC57D, 0xBC95]]),
      ([0xACF5, 0xACF5, 0xAE30, 0xAD00, 0xC758, 32, 0xC6B4, 0xC601, 0xC5D0, 32, 0xAD00, 0xD55C, 32, 0xBC95, 0xB960],
       [[0xACF5, 0xACF5, 0xAE30, 0xAD00, 0xC6B4, 0xC601, 0xBC95]]),
      ([0xB3C5, 0xC810, 0xADDC, 0xC81C, 32, 0xBC0F, 32, 0xACF5, 0xC815, 0xAC70, 0xB798, 0xC5D0, 32, 0xAD00, 0xD55C, 32, 0xBC95, 0xB960],
       [[0xACF5, 0xC815, 0xAC70, 0xB798, 0xBC95]]),
      ([0xD558, 0xB3C4, 0xAE09, 0xAC70, 0xB798, 32, 0xACF5, 0xC815, 0xD654, 0xC5D0, 32, 0xAD00, 0xD55C, 32, 0xBC95, 0xB960],
       [[0xD558, 0xB3C4, 0xAE09, 0xBC95]]),
      ([0xC57D, 0xAD00, 0xC758, 32, 0xADDC, 0xC81C, 0xC5D0, 32, 0xAD00, 0xD55C, 32, 0xBC95, 0xB960],
       [[0xC57D, 0xAD00, 0xBC95],
        [0xC57D, 0xAD00, 0xADDC, 0xC81C, 0xBC95]]),
      ([0xD45C, 0xC2DC, 0x318D, 0xAD11, 0xACE0, 0xC758, 32, 0xACF5, 0xC815, 0xD654, 0xC5D0, 32, 0xAD00, 0xD55C, 32, 0xBC95, 0xB960],
       [[0xD45C, 0xC2DC, 0xAD11, 0xACE0, 0xBC95]]),
      ([0xAC00, 0xB9F9, 0xC0AC, 0xC5C5, 0xAC70, 0xB798, 0xC758, 32, 0xACF5, 0xC815, 0xD654, 0xC5D0, 32, 0xAD00, 0xD55C, 32, 0xBC95, 0xB960],
       [[0xAC00, 0xB9F9, 0xC0AC, 0xC5C5, 0xBC95]]),
      ([0xC804, 0xC790, 0xC0C1, 0xAC70, 0xB798, 32, 0xB4F1, 0xC5D0, 0xC11C, 0xC758, 32, 0xC18C, 0xBE44, 0xC790, 0xBCF4, 0xD638, 0xC5D0, 32, 0xAD00, 0xD55C, 32, 0xBC95, 0xB960],
       [[0xC804, 0xC790, 0xC0C1, 0xAC70, 0xB798, 0xBC95]]),
      ([0xBD80, 0xC815, 0xACBD, 0xC7C1, 0xBC29, 0xC9C0, 32, 0xBC0F, 32, 0xC601, 0xC5C5, 0xBE44, 0xBC00, 0xBCF4, 0xD638, 0xC5D0, 32, 0xAD00, 0xD55C, 32, 0xBC95, 0xB960],
       [[0xBD80, 0xC815, 0xACBD, 0xC7C1, 0xBC29, 0xC9C0, 0xBC95]]),
      ([0xC790, 0xBCF8, 0xC2DC, 0xC7A5, 0xACFC, 32, 0xAE08, 0xC735, 0xD22C, 0xC790, 0xC5C5, 0xC5D0, 32, 0xAD00, 0xD55C, 32, 0xBC95, 0xB960],
       [[0xC790, 0xBCF8, 0xC2DC, 0xC7A5, 0xBC95]]),
      ([0xAE08, 0xC735, 0xC18C, 0xBE44, 0xC790, 32, 0xBCF4, 0xD638, 0xC5D0, 32, 0xAD00, 0xD55C, 32, 0xBC95, 0xB960],
       [[0xAE08, 0xC735, 0xC18C, 0xBE44, 0xC790, 0xBCF4, 0xD638, 0xBC95],
        [0xAE08, 0xC18C, 0xBC95]]),
      ([0xD2B9, 0xC815, 32, 0xAE08, 0xC735, 0xAC70, 0xB798, 0xC815, 0xBCF4, 0xC758, 32, 0xBCF4, 0xACE0, 32, 0xBC0F, 32, 0xC774, 0xC6A9, 32, 0xB4F1, 0xC5D0, 32, 0xAD00, 0xD55C, 32, 0xBC95, 0xB960],
       [[0xD2B9, 0xC815, 0xAE08, 0xC735, 0xC815, 0xBCF4, 0xBC95],
        [0xD2B9, 0xAE08, 0xBC95]]),
      ([0xC804, 0xC790, 0xAE08, 0xC735, 0xAC70, 0xB798, 0xBC95],
       [[0xC804, 0xAE08, 0xBC95]]),
      ([0xC8FC, 0xD0DD, 0xC784, 0xB300, 0xCC28, 0xBCF4, 0xD638, 0xBC95],
       [[0xC8FC, 0xC784, 0xBC95]]),
      ([0xC0C1, 0xAC00, 0xAC74, 0xBB3C, 32, 0xC784, 0xB300, 0xCC28, 0xBCF4, 0xD638, 0xBC95],
       [[0xC0C1, 0xAC00, 0xC784, 0xB300, 0xCC28, 0xBC95],
        [0xC0C1, 0xC784, 0xBC95]]),
      ([0xC9D1, 0xD569, 0xAC74, 0xBB3C, 0xC758, 32, 0xC18C, 0xC720, 32, 0xBC0F, 32, 0xAD00, 0xB9AC, 0xC5D0, 32, 0xAD00, 0xD55C, 32, 0xBC95, 0xB960],
       [[0xC9D1, 0xD569, 0xAC74, 0xBB3C, 0xBC95]]),
      ([0xBD80, 0xB3D9, 0xC0B0, 32, 0xAC70, 0xB798, 0xC2E0, 0xACE0, 32, 0xB4F1, 0xC5D0, 32, 0xAD00, 0xD55C, 32, 0xBC95, 0xB960],
       [[0xBD80, 0xB3D9, 0xC0B0, 0xAC70, 0xB798, 0xC2E0, 0xACE0, 0xBC95]]),
      ([0xAD6D, 0xD1A0, 0xC758, 32, 0xACC4, 0xD68D, 32, 0xBC0F, 32, 0xC774, 0xC6A9, 0xC5D0, 32, 0xAD00, 0xD55C, 32, 0xBC95, 0xB960],
       [[0xAD6D, 0xD1A0, 0xACC4, 0xD68D, 0xBC95]]),
      ([0xB3C4, 0xC2DC, 32, 0xBC0F, 32, 0xC8FC, 0xAC70, 0xD658, 0xACBD, 0xC815, 0xBE44, 0xBC95],
       [[0xB3C4, 0xC2DC, 0xC815, 0xBE44, 0xBC95],
        [0xB3C4, 0xC815, 0xBC95]]),
      ([0xACF5, 0xC775, 0xC0AC, 0xC5C5, 0xC744, 32, 0xC704, 0xD55C, 32, 0xD1A0, 0xC9C0, 32, 0xB4F1, 0xC758, 32, 0xCDE8, 0xB4DD, 32, 0xBC0F, 32, 0xBCF4, 0xC0C1, 0xC5D0, 32, 0xAD00, 0xD55C, 32, 0xBC95, 0xB960],
       [[0xD1A0, 0xC9C0, 0xBCF4, 0xC0C1, 0xBC95]]),
      ([0xAC74, 0xC124, 0xC0B0, 0xC5C5, 0xAE30, 0xBCF8, 0xBC95],
       [[0xAC74, 0xC0B0, 0xBC95]]),
      ([0xC18C, 0xBC29, 0xC2DC, 0xC124, 32, 0xC124, 0xCE58, 32, 0xBC0F, 32, 0xAD00, 0xB9AC, 0xC5D0, 32, 0xAD00, 0xD55C, 32, 0xBC95, 0xB960],
       [[0xC18C, 0xBC29, 0xC2DC, 0xC124, 0xBC95]]),
      ([0xD654, 0xD559, 0xBB3C, 0xC9C8, 0xAD00, 0xB9AC, 0xBC95],
       [[0xD654, 0xAD00, 0xBC95]]),
      ([0xD654, 0xD559, 0xBB3C, 0xC9C8, 0xC758, 32, 0xB4F1, 0xB85D, 32, 0xBC0F, 32, 0xD3C9, 0xAC00, 32, 0xB4F1, 0xC5D0, 32, 0xAD00, 0xD55C, 32, 0xBC95, 0xB960],
       [[0xD654, 0xD3C9, 0xBC95]]),
      ([0xAC10, 0xC5FC, 0xBCD1, 0xC758, 32, 0xC608, 0xBC29, 32, 0xBC0F, 32, 0xAD00, 0xB9AC, 0xC5D0, 32, 0xAD00, 0xD55C, 32, 0xBC95, 0xB960],
       [[0xAC10, 0xC5FC, 0xBCD1, 0xC608, 0xBC29, 0xBC95]]),
      ([0xB9C8, 0xC57D, 0xB958, 32, 0xAD00, 0xB9AC, 0xC5D0, 32, 0xAD00, 0xD55C, 32, 0xBC95, 0xB960],
       [[0xB9C8, 0xC57D, 0xB958, 0xAD00, 0xB9AC, 0xBC95]]),
      ([0xAD6D, 0xBBFC, 0xAC74, 0xAC15, 0xBCF4, 0xD5D8, 0xBC95],
       [[0xAC74, 0xBCF4, 0xBC95]]),
      ([0xAD6D, 0xBBFC, 0xAE30, 0xCD08, 0xC0DD, 0xD65C, 32, 0xBCF4, 0xC7A5, 0xBC95],
       [[0xAE30, 0xCD08, 0xC0DD, 0xD65C, 0xBCF4, 0xC7A5, 0xBC95]]),
      ([0xC7A5, 0xC560, 0xC778, 0xCC28, 0xBCC4, 0xAE08, 0xC9C0, 32, 0xBC0F, 32, 0xAD8C, 0xB9AC, 0xAD6C, 0xC81C, 32, 0xB4F1, 0xC5D0, 32, 0xAD00, 0xD55C, 32, 0xBC95, 0xB960],
       [[0xC7A5, 0xC560, 0xC778, 0xCC28, 0xBCC4, 0xAE08, 0xC9C0, 0xBC95]]),
      ([0xAD6D, 0xC138, 0xAE30, 0xBCF8, 0xBC95],
       [[0xAD6D, 0xAE30, 0xBC95]]),
      ([0xBD80, 0xAC00, 0xAC00, 0xCE58, 0xC138, 0xBC95],
       [[0xBD80, 0xAC00, 0xC138, 0xBC95]]),
      ([0xC870, 0xC138, 0xD2B9, 0xB840, 0xC81C, 0xD55C, 0xBC95],
       [[0xC870, 0xD2B9, 0xBC95]]),
      ([0xC9C0, 0xBC29, 0xC138, 0xD2B9, 0xB840, 0xC81C, 0xD55C, 0xBC95],
       [[0xC9C0, 0xD2B9, 0xBC95]]),
      ([0xC790, 0xC720, 0xBB34, 0xC5ED, 0xD611, 0xC815, 0xC758, 32, 0xC774, 0xD589, 0xC744, 32, 0xC704, 0xD55C, 32, 0xAD00, 0xC138, 0xBC95, 0xC758, 32, 0xD2B9, 0xB840, 0xC5D0, 32, 0xAD00, 0xD55C, 32, 0xBC95, 0xB960],
       [[70, 84, 65, 0xAD00, 0xC138, 0xD2B9, 0xB840, 0xBC95],
        [70, 84, 65, 0xD2B9, 0xB840, 0xBC95]]),
      ([0xB3C4, 0xB85C, 0xAD50, 0xD1B5, 0xBC95],
       [[0xB3C4, 0xAD50, 0xBC95]]),
      ([0xAD50, 0xD1B5, 0xC0AC, 0xACE0, 0xCC98, 0xB9AC, 32, 0xD2B9, 0xB840, 0xBC95],
       [[0xAD50, 0xD2B9, 0xBC95]]),
      ([0xC790, 0xB3D9, 0xCC28, 0xC190, 0xD574, 0xBC30, 0xC0C1, 32, 0xBCF4, 0xC7A5, 0xBC95],
       [[0xC790, 0xBC30, 0xBC95]]),
      ([0xC5EC, 0xAC1D, 0xC790, 0xB3D9, 0xCC28, 32, 0xC6B4, 0xC218, 0xC0AC, 0xC5C5, 0xBC95],
       [[0xC5EC, 0xAC1D, 0xC790, 0xB3D9, 0xCC28, 0xBC95]]),
      ([0xD654, 0xBB3C, 0xC790, 0xB3D9, 0xCC28, 32, 0xC6B4, 0xC218, 0xC0AC, 0xC5C5, 0xBC95],
       [[0xD654, 0xBB3C, 0xC790, 0xB3D9, 0xCC28, 0xBC95]]),
      ([0xD2B9, 0xC815, 0xBC94, 0xC8C4, 32, 0xAC00, 0xC911, 0xCC98, 0xBC8C, 32, 0xB4F1, 0xC5D0, 32, 0xAD00, 0xD55C, 32, 0xBC95, 0xB960],
       [[0xD2B9, 0xC815, 0xBC94, 0xC8C4, 0xAC00, 0xC911, 0xBC95],
        [0xD2B9, 0xAC00, 0xBC95]]),
      ([0xD2B9, 0xC815, 0xACBD, 0xC81C, 0xBC94, 0xC8C4, 32, 0xAC00, 0xC911, 0xCC98, 0xBC8C, 32, 0xB4F1, 0xC5D0, 32, 0xAD00, 0xD55C, 32, 0xBC95, 0xB960],
       [[0xD2B9, 0xC815, 0xACBD, 0xC81C, 0xBC94, 0xC8C4, 0xBC95],
        [0xD2B9, 0xACBD, 0xBC95]]),
      ([0xC131, 0xD3ED, 0xB825, 0xBC94, 0xC8C4, 0xC758, 32, 0xCC98, 0xBC8C, 32, 0xB4F1, 0xC5D0, 32, 0xAD00, 0xD55C, 32, 0xD2B9, 0xB840, 0xBC95],
       [[0xC131, 0xD3ED, 0xB825, 0xCC98, 0xBC8C, 0xBC95]]),
      ([0xC544, 0xB3D9, 0x318D, 0xCCAD, 0xC18C, 0xB144, 0xC758, 32, 0xC131, 0xBCF4, 0xD638, 0xC5D0, 32, 0xAD00, 0xD55C, 32, 0xBC95, 0xB960],
       [[0xCCAD, 0xC18C, 0xB144, 0xC131, 0xBCF4, 0xD638, 0xBC95],
        [0xC544, 0xCCAD, 0xBC95]]),
      ([0xC544, 0xB3D9, 0xD559, 0xB300, 0xBC94, 0xC8C4, 0xC758, 32, 0xCC98, 0xBC8C, 32, 0xB4F1, 0xC5D0, 32, 0xAD00, 0xD55C, 32, 0xD2B9, 0xB840, 0xBC95],
       [[0xC544, 0xB3D9, 0xD559, 0xB300, 0xCC98, 0xBC8C, 0xBC95]]),
      ([0xAC00, 0xC815, 0xD3ED, 0xB825, 0xBC94, 0xC8C4, 0xC758, 32, 0xCC98, 0xBC8C, 32, 0xB4F1, 0xC5D0, 32, 0xAD00, 0xD55C, 32, 0xD2B9, 0xB840, 0xBC95],
       [[0xAC00, 0xC815, 0xD3ED, 0xB825, 0xCC98, 0xBC8C, 0xBC95]]),
      ([0xC2A4, 0xD1A0, 0xD0B9, 0xBC94, 0xC8C4, 0xC758, 32, 0xCC98, 0xBC8C, 32, 0xB4F1, 0xC5D0, 32, 0xAD00, 0xD55C, 32, 0xBC95, 0xB960],
       [[0xC2A4, 0xD1A0, 0xD0B9, 0xCC98, 0xBC8C, 0xBC95]]),
      ([0xC131, 0xB9E4, 0xB9E4, 0xC54C, 0xC120, 32, 0xB4F1, 32, 0xD589, 0xC704, 0xC758, 32, 0xCC98, 0xBC8C, 0xC5D0, 32, 0xAD00, 0xD55C, 32, 0xBC95, 0xB960],
       [[0xC131, 0xB9E4, 0xB9E4, 0xCC98, 0xBC8C, 0xBC95]]),
      ([0xD3ED, 0xB825, 0xD589, 0xC704, 32, 0xB4F1, 32, 0xCC98, 0xBC8C, 0xC5D0, 32, 0xAD00, 0xD55C, 32, 0xBC95, 0xB960],
       [[0xD3ED, 0xB825, 0xD589, 0xC704, 0xCC98, 0xBC8C, 0xBC95],
        [0xD3ED, 0xCC98, 0xBC95]]),
      ([0xD559, 0xAD50, 0xD3ED, 0xB825, 0xC608, 0xBC29, 32, 0xBC0F, 32, 0xB300, 0xCC45, 0xC5D0, 32, 0xAD00, 0xD55C, 32, 0xBC95, 0xB960],
       [[0xD559, 0xAD50, 0xD3ED, 0xB825, 0xC608, 0xBC29, 0xBC95],
        [0xD559, 0xD3ED, 0xBC95]]),
      ([0xBC94, 0xC8C4, 0xC218, 0xC775, 0xC740, 0xB2C9, 0xC758, 32, 0xADDC, 0xC81C, 32, 0xBC0F, 32, 0xCC98, 0xBC8C, 32, 0xB4F1, 0xC5D0, 32, 0xAD00, 0xD55C, 32, 0xBC95, 0xB960],
       [[0xBC94, 0xC8C4, 0xC218, 0xC775, 0xC740, 0xB2C9, 0xADDC, 0xC81C, 0xBC95]]),
      ([0xD615, 0xC758, 32, 0xC9D1, 0xD589, 32, 0xBC0F, 32, 0xC218, 0xC6A9, 0xC790, 0xC758, 32, 0xCC98, 0xC6B0, 0xC5D0, 32, 0xAD00, 0xD55C, 32, 0xBC95, 0xB960],
       [[0xD615, 0xC9D1, 0xD589, 0xBC95]]),
      ([0xAC00, 0xC871, 0xAD00, 0xACC4, 0xC758, 32, 0xB4F1, 0xB85D, 32, 0xB4F1, 0xC5D0, 32, 0xAD00, 0xD55C, 32, 0xBC95, 0xB960],
       [[0xAC00, 0xC871, 0xAD00, 0xACC4, 0xB4F1, 0xB85D, 0xBC95]])]"

definition name_quote :: "rchar \<Rightarrow> bool" where
  "name_quote c \<longleftrightarrow> c \<in> set ([34, 39] @ [0x300C, 0x300D, 0x300E, 0x300F, 0x201C, 0x201D, 0x2018, 0x2019])"

definition trim_matches :: "(rchar \<Rightarrow> bool) \<Rightarrow> rstr \<Rightarrow> rstr" where
  "trim_matches P s = rev (dropWhile P (rev (dropWhile P s)))"

fun normalize_loop :: "rstr \<Rightarrow> bool \<Rightarrow> rstr \<Rightarrow> rstr" where
  "normalize_loop out space [] = out"
| "normalize_loop out space (c # s) =
     (if is_whitespace c then normalize_loop out (out \<noteq> []) s
      else
        normalize_loop
          (out @ (if space then [32] else [])
           @ [if c \<in> set MIDDLE_DOTS then OFFICIAL_DOT else c]) False s)"

definition normalize_law_name :: "rstr \<Rightarrow> rstr" where
  "normalize_law_name s = normalize_loop [] False (trim (trim_matches name_quote (trim s)))"

definition name_key :: "rstr \<Rightarrow> rstr" where
  "name_key s = map to_ascii_lower (filter (\<lambda>c. \<not> is_whitespace c \<and> c \<notin> set MIDDLE_DOTS) s)"

fun alias_row :: "(rstr \<times> rstr list) list \<Rightarrow> rstr \<Rightarrow> (rstr \<times> rstr option) option" where
  "alias_row [] key = None"
| "alias_row ((title, aliases) # rows) key =
     (if name_key title = key then Some (title, None)
      else
        (case find (\<lambda>a. name_key a = key) aliases of
           Some a \<Rightarrow> Some (title, Some a)
         | None \<Rightarrow> alias_row rows key))"

definition alias_title :: "rstr \<Rightarrow> (rstr \<times> rstr option) option" where
  "alias_title key = alias_row LAW_ALIASES key"

text \<open>\<open>find_map\<close> over the two suffixes.\<close>

primrec suffixed_title :: "rstr \<Rightarrow> rstr list \<Rightarrow> (rstr \<times> rstr option) option" where
  "suffixed_title key [] = None"
| "suffixed_title key (suffix # rest) =
     (case strip_suffix_str suffix key of
        None \<Rightarrow> suffixed_title key rest
      | Some base \<Rightarrow>
          if base = [] then suffixed_title key rest
          else
            (case alias_title base of
               None \<Rightarrow> suffixed_title key rest
             | Some (title, alias) \<Rightarrow> Some (title @ [32] @ suffix, alias)))"

definition resolve_law_name :: "rstr \<Rightarrow> law_name_resolution" where
  "resolve_law_name input =
     (let normalized = normalize_law_name input;
          key = name_key normalized;
          expanded =
            (case alias_title key of Some x \<Rightarrow> Some x | None \<Rightarrow> suffixed_title key SUFFIXES) in
      (case expanded of
         Some (resolved, alias) \<Rightarrow>
           \<lparr>lnr_input = input, lnr_normalized = normalized, lnr_resolved = resolved,
            lnr_matched_alias = alias\<rparr>
       | None \<Rightarrow>
           \<lparr>lnr_input = input, lnr_normalized = normalized, lnr_resolved = normalized,
            lnr_matched_alias = None\<rparr>))"

definition push_escaped :: "rstr \<Rightarrow> rchar \<Rightarrow> rstr" where
  "push_escaped out c =
     out @ (if c \<in> {92, 46, 43, 42, 63, 40, 41, 124, 91, 93, 123, 125, 94, 36, 35, 38, 45, 126}
            then [92] else []) @ [c]"

fun pattern_loop :: "rstr \<Rightarrow> rstr \<Rightarrow> rstr" where
  "pattern_loop out [] = out"
| "pattern_loop out (c # s) =
     (let out = (if out \<noteq> [] then out @ [32, 63] else out) in
      pattern_loop
        (if c \<in> set MIDDLE_DOTS then out @ [91] @ MIDDLE_DOTS @ [93] else push_escaped out c) s)"

definition title_pattern :: "rstr \<Rightarrow> rstr" where
  "title_pattern name = pattern_loop [] (filter (\<lambda>c. \<not> is_whitespace c) name)"

primrec base_name :: "rstr \<Rightarrow> rstr list \<Rightarrow> rstr" where
  "base_name name [] = name"
| "base_name name (suffix # rest) =
     (case strip_suffix_str suffix name of
        None \<Rightarrow> base_name name rest
      | Some base \<Rightarrow> if trim_end base \<noteq> [] then trim_end base else base_name name rest)"

definition base_law_name :: "rstr \<Rightarrow> rstr" where
  "base_law_name name = base_name name SUFFIXES"

section \<open>Locators\<close>

text \<open>
  A run of at most \<open>most\<close> digits that no digit follows.  Bytes of other characters are no digits, so
  the slice that is parsed consists of whole characters, and it fits 32 bits.
\<close>

definition digits :: "rstr \<Rightarrow> nat \<Rightarrow> nat \<Rightarrow> (nat \<times> nat) option" where
  "digits t at most =
     (case split_bytes t at of
        None \<Rightarrow> None
      | Some (_, s) \<Rightarrow>
          let run = takeWhile is_ascii_digit (take most s); rest = drop (length run) s in
          if run = [] \<or> (rest \<noteq> [] \<and> is_ascii_digit (hd rest)) then None
          else Some (digits_val run, at + length run))"

definition skip_spaces :: "rstr \<Rightarrow> nat \<Rightarrow> nat \<Rightarrow> nat" where
  "skip_spaces t at most =
     (case split_bytes t at of
        None \<Rightarrow> at
      | Some (_, s) \<Rightarrow> at + length (takeWhile (\<lambda>c. c = 32) (take most s)))"

definition locator_prefix :: "rstr \<Rightarrow> rchar option" where
  "locator_prefix s = (case s of [] \<Rightarrow> None | c # _ \<Rightarrow> if c = JE \<or> c = JE_HAN then Some c else None)"

definition unit_number :: "rstr \<Rightarrow> nat \<Rightarrow> rchar \<Rightarrow> (nat \<times> nat) option comp" where
  "unit_number t at unit =
     (case split_bytes t at of
        None \<Rightarrow> Ok None
      | Some (_, rest) \<Rightarrow>
          (case locator_prefix rest of
             None \<Rightarrow> Ok None
           | Some prefix \<Rightarrow>
               (case digits t (skip_spaces t (at + len_utf8 prefix) 1) 5 of
                  None \<Rightarrow> Ok None
                | Some (n, e) \<Rightarrow>
                    let e = skip_spaces t e 1 in
                    if n = 0 then Ok None
                    else
                      and_then (index_from t e) (\<lambda>s.
                        Ok (if starts_with s [unit] then Some (n, e + len_utf8 unit) else None)))))"

text \<open>A marker followed by a positive number, or nothing.\<close>

definition optional_number ::
  "rstr \<Rightarrow> rstr \<Rightarrow> nat \<Rightarrow> rchar \<Rightarrow> nat option \<times> nat" where
  "optional_number t s at marker =
     (if starts_with s [marker] then
        (case digits t (at + len_utf8 marker) 3 of
           Some (n, after) \<Rightarrow> if 0 < n then (Some n, after) else (None, at)
         | None \<Rightarrow> (None, at))
      else (None, at))"

text \<open>The unit marker after the number, with the branch that may follow.\<close>

definition article_unit ::
  "rstr \<Rightarrow> nat \<Rightarrow> nat option \<Rightarrow> nat \<Rightarrow> (article_number \<times> nat) option comp" where
  "article_unit t number part e =
     and_then (index_from t e) (\<lambda>s.
       (case s of
          [] \<Rightarrow> Ok None
        | unit # _ \<Rightarrow>
            if number = 0 \<or> \<not> (unit = JO \<or> unit = JO_HAN) then Ok None
            else
              let e = e + len_utf8 unit in
              and_then (index_from t e) (\<lambda>s.
                let (branch, e) = optional_number t s e UI in
                Ok (Some (\<lparr>an_number = number, an_part = part, an_branch = branch\<rparr>, e)))))"

definition article_at :: "rstr \<Rightarrow> nat \<Rightarrow> (article_number \<times> nat) option comp" where
  "article_at t at =
     (case split_bytes t at of
        None \<Rightarrow> Ok None
      | Some (_, rest) \<Rightarrow>
          (case locator_prefix rest of
             None \<Rightarrow> Ok None
           | Some prefix \<Rightarrow>
               (case digits t (skip_spaces t (at + len_utf8 prefix) 1) 5 of
                  None \<Rightarrow> Ok None
                | Some (number, e) \<Rightarrow>
                    and_then (index_from t e) (\<lambda>s.
                      let (part, e) = optional_number t s e 45 in
                      article_unit t number part (skip_spaces t e 1)))))"

text \<open>The mentions found so far end at \<open>previous\<close>.\<close>

primrec mentions_loop ::
  "rstr \<Rightarrow> nat option \<Rightarrow> nat list \<Rightarrow> (article_number \<times> nat \<times> nat) list comp" where
  "mentions_loop t previous [] = Ok []"
| "mentions_loop t previous (at # rest) =
     (if (case previous of None \<Rightarrow> False | Some e \<Rightarrow> at < e) then mentions_loop t previous rest
      else
        and_then (index_to t at) (\<lambda>before.
          if before \<noteq> [] \<and> hangul (last before) then mentions_loop t previous rest
          else
            and_then (article_at t at) (\<lambda>found.
              (case found of
                 None \<Rightarrow> mentions_loop t previous rest
               | Some (number, e) \<Rightarrow>
                   and_then (mentions_loop t (Some e) rest) (\<lambda>more. Ok ((number, at, e) # more))))))"

definition article_mentions :: "rstr \<Rightarrow> (article_number \<times> nat \<times> nat) list comp" where
  "article_mentions t =
     mentions_loop t None (map fst (filter (\<lambda>(_, c). c = JE \<or> c = JE_HAN) (char_indices t)))"

definition strip_char :: "rchar \<Rightarrow> rchar \<Rightarrow> rstr \<Rightarrow> rstr" where
  "strip_char a b s = (case s of [] \<Rightarrow> [] | c # s' \<Rightarrow> if c = a \<or> c = b then s' else s)"

text \<open>The end of an article number: nothing, or the branch marker and a positive number.\<close>

definition parse_branch :: "rstr \<Rightarrow> nat option option comp" where
  "parse_branch s =
     (case s of
        [] \<Rightarrow> Ok (Some None)
      | c # tail \<Rightarrow>
          if c \<noteq> UI then Ok None
          else
            (case digits tail 0 3 of
               None \<Rightarrow> Ok None
             | Some (m, e) \<Rightarrow> Ok (if e \<noteq> str_len tail \<or> m = 0 then None else Some (Some m))))"

definition parse_article_number :: "rstr \<Rightarrow> article_number option comp" where
  "parse_article_number s =
     (let compact = filter (\<lambda>c. \<not> is_whitespace c) s; body = strip_char JE JE_HAN compact in
      (case digits body 0 5 of
         None \<Rightarrow> Ok None
       | Some (number, e) \<Rightarrow>
           and_then (index_from body e) (\<lambda>rest.
             (case (case rest of
                      c # tail \<Rightarrow>
                        if c = 45 then
                          (case digits tail 0 3 of
                             None \<Rightarrow> None
                           | Some (p, e) \<Rightarrow>
                               if p = 0 then None else Some (Some p, Some (tail, e)))
                        else Some (None, None)
                    | [] \<Rightarrow> Some (None, None)) of
                None \<Rightarrow> Ok None
              | Some (part, after) \<Rightarrow>
                  and_then (case after of None \<Rightarrow> Ok rest | Some (tail, e) \<Rightarrow> index_from tail e) (\<lambda>rest.
                  and_then (parse_branch (strip_char JO JO_HAN rest)) (\<lambda>branch.
                    Ok (case branch of
                          None \<Rightarrow> None
                        | Some b \<Rightarrow>
                            if 0 < number
                            then Some \<lparr>an_number = number, an_part = part, an_branch = b\<rparr>
                            else None)))))))"

definition circled_number :: "rchar \<Rightarrow> nat option" where
  "circled_number c =
     (if 0x2460 \<le> c \<and> c \<le> 0x2473 then Some (c - 0x2460 + 1)
      else if 0x3251 \<le> c \<and> c \<le> 0x325F then Some (c - 0x3251 + 21)
      else if 0x32B1 \<le> c \<and> c \<le> 0x32BF then Some (c - 0x32B1 + 36)
      else None)"

definition parenthetical :: "rstr \<Rightarrow> nat \<Rightarrow> (rstr \<times> nat) option comp" where
  "parenthetical t at =
     (case split_bytes t at of
        None \<Rightarrow> Ok None
      | Some (_, rest) \<Rightarrow>
          (case rest of
             [] \<Rightarrow> Ok None
           | opening # _ \<Rightarrow>
               if \<not> (opening = 40 \<or> opening = 0xFF08) then Ok None
               else
                 let inner_start = at + len_utf8 opening in
                 and_then (index_from t inner_start) (\<lambda>window.
                   (case find (\<lambda>(_, c). c = 41 \<or> c = 0xFF09)
                           (takeWhile (\<lambda>(i, c). i < 200 \<and> c \<noteq> NL) (char_indices window)) of
                      None \<Rightarrow> Ok None
                    | Some (i, c) \<Rightarrow>
                        and_then (index_to window i) (\<lambda>inner.
                          Ok (Some (inner, inner_start + i + len_utf8 c)))))))"

section \<open>Articles of a capture\<close>

record located_article =
  la_section_id :: rstr
  la_number :: article_number
  la_title :: rstr
  la_text :: rstr
  la_deleted :: bool
  la_paragraphs :: "nat list"

datatype article_lookup =
    Found located_article
  | NotFound "article_number option" "article_number option"

text \<open>The word for a deleted provision.\<close>

definition DELETED :: rstr where
  "DELETED = [0xC0AD, 0xC81C]"

definition leading_paragraph :: "rstr \<Rightarrow> nat option" where
  "leading_paragraph line =
     (case trim_start line of [] \<Rightarrow> None | c # _ \<Rightarrow> circled_number c)"

definition build_article :: "rstr \<Rightarrow> rstr \<Rightarrow> rstr \<Rightarrow> located_article option comp" where
  "build_article section_id title_hint body =
     (let t = trim body in
      and_then (article_at t 0) (\<lambda>found.
        (case found of
           None \<Rightarrow> Ok None
         | Some (number, e) \<Rightarrow>
             and_then (parenthetical t e) (\<lambda>paren.
               let hint = trim title_hint;
                   (title, e) =
                     (case paren of
                        None \<Rightarrow> (hint, e)
                      | Some (inner, after) \<Rightarrow> (if hint = [] then trim inner else hint, after)) in
               and_then (index_from t e) (\<lambda>rest.
                 let inline = (case str_lines rest of [] \<Rightarrow> None | l # _ \<Rightarrow> leading_paragraph l) in
                 Ok (Some
                   \<lparr>la_section_id = section_id, la_number = number, la_title = title, la_text = t,
                    la_deleted = starts_with (trim_start rest) DELETED,
                    la_paragraphs =
                      (case inline of None \<Rightarrow> [] | Some n \<Rightarrow> [n])
                      @ List.map_filter leading_paragraph (tl (str_lines t))\<rparr>))))))"

text \<open>The four heading levels, outermost first.\<close>

abbreviation (input) PART :: rchar where "PART \<equiv> 0xD3B8"
abbreviation (input) CHAPTER :: rchar where "CHAPTER \<equiv> 0xC7A5"
abbreviation (input) SECTION :: rchar where "SECTION \<equiv> 0xC808"
abbreviation (input) SUBSECTION :: rchar where "SUBSECTION \<equiv> 0xAD00"

definition heading_rank :: "rchar \<Rightarrow> nat" where
  "heading_rank c = (if c = PART then 0 else if c = CHAPTER then 1 else if c = SECTION then 2 else 3)"

definition heading_level :: "rchar \<Rightarrow> rchar option" where
  "heading_level c =
     (if c = PART \<or> c = 0x7DE8 then Some PART
      else if c = CHAPTER \<or> c = 0x7AE0 then Some CHAPTER
      else if c = SECTION \<or> c = 0x7BC0 then Some SECTION
      else if c = SUBSECTION \<or> c = 0x6B3E then Some SUBSECTION
      else None)"

definition heading_at :: "rstr \<Rightarrow> (rchar \<times> nat) option comp" where
  "heading_at s =
     (case trim_start s of
        [] \<Rightarrow> Ok None
      | prefix # rest \<Rightarrow>
          if \<not> (prefix = JE \<or> prefix = JE_HAN) then Ok None
          else
            (case digits rest 0 4 of
               None \<Rightarrow> Ok None
             | Some (n, e) \<Rightarrow>
                 and_then (index_from rest e) (\<lambda>tail.
                   (case tail of
                      [] \<Rightarrow> Ok None
                    | level # _ \<Rightarrow>
                        (case heading_level level of
                           None \<Rightarrow> Ok None
                         | Some normalized \<Rightarrow>
                             if n = 0 then Ok None
                             else
                               and_then (index_from rest (e + len_utf8 level)) (\<lambda>after.
                               and_then
                                 (case after of
                                    [] \<Rightarrow> Ok after
                                  | c # u \<Rightarrow>
                                      if c \<noteq> UI then Ok after
                                      else
                                        (case digits u 0 3 of
                                           None \<Rightarrow> Ok after
                                         | Some (_, e) \<Rightarrow> index_from u e))
                                 (\<lambda>after.
                                   Ok (if after = [] \<or> is_whitespace (hd after) \<or> hd after = 60 \<or> hd after = 40
                                       then Some (normalized, n) else None))))))))"

definition starts_article :: "rstr \<Rightarrow> bool comp" where
  "starts_article line =
     and_then (article_at line 0) (\<lambda>found.
       (case found of
          None \<Rightarrow> Ok False
        | Some (_, e) \<Rightarrow>
            and_then (index_from line e) (\<lambda>rest.
              Ok (starts_with rest [40] \<or> starts_with rest [0xFF08] \<or> trim rest = []
                  \<or> starts_with (trim_start rest) DELETED))))"

datatype outline_unit =
    Heading rchar nat rstr
  | Article located_article

text \<open>Titles of sections that hold several articles in one block.\<close>

definition BLOCK_SECTIONS :: "rstr list" where
  "BLOCK_SECTIONS = [[0xC870, 0xBB38, 0xB0B4, 0xC6A9], [0xC870, 0xB0B4, 0xC6A9], [0xC804, 0xBB38]]"

definition close_block ::
  "rstr \<Rightarrow> rstr \<Rightarrow> nat option \<Rightarrow> nat \<Rightarrow> outline_unit list \<Rightarrow> outline_unit list comp" where
  "close_block section_id t opened stop units =
     (case opened of
        None \<Rightarrow> Ok units
      | Some start \<Rightarrow>
          and_then (index_range t start stop) (\<lambda>block.
          and_then (build_article section_id [] block) (\<lambda>article.
            Ok (case article of None \<Rightarrow> units | Some a \<Rightarrow> units @ [Article a]))))"

primrec block_loop ::
  "rstr \<Rightarrow> rstr \<Rightarrow> nat option \<Rightarrow> nat \<Rightarrow> outline_unit list \<Rightarrow> rstr list \<Rightarrow> outline_unit list comp" where
  "block_loop section_id t opened offset units [] = close_block section_id t opened (str_len t) units"
| "block_loop section_id t opened offset units (line # lines) =
     (let trimmed = trim line in
      and_then (heading_at trimmed) (\<lambda>heading.
        (case heading of
           Some (level, number) \<Rightarrow>
             and_then (close_block section_id t opened offset units) (\<lambda>units.
               block_loop section_id t None (offset + str_len line)
                 (units @ [Heading level number trimmed]) lines)
         | None \<Rightarrow>
             and_then (starts_article trimmed) (\<lambda>new.
               if new then
                 and_then (close_block section_id t opened offset units) (\<lambda>units.
                   block_loop section_id t
                     (Some (offset + (str_len line - str_len (trim_start line))))
                     (offset + str_len line) units lines)
               else block_loop section_id t opened (offset + str_len line) units lines))))"

definition section_outline ::
  "legal_section \<Rightarrow> outline_unit list \<Rightarrow> outline_unit list comp" where
  "section_outline x units =
     (if ls_kind x \<noteq> ProviderText then Ok units
      else if starts_with (ls_id x) (lit ''article:'') then
        let t = trim (ls_text x) in
        and_then (heading_at t) (\<lambda>heading.
          (case heading of
             Some (level, number) \<Rightarrow> Ok (units @ [Heading level number t])
           | None \<Rightarrow>
               and_then (build_article (ls_id x) (ls_title x) t) (\<lambda>article.
                 Ok (case article of None \<Rightarrow> units | Some a \<Rightarrow> units @ [Article a]))))
      else if ls_title x \<notin> set BLOCK_SECTIONS then Ok units
      else block_loop (ls_id x) (ls_text x) None 0 units (split_inclusive (ls_text x)))"

primrec outline_loop ::
  "outline_unit list \<Rightarrow> legal_section list \<Rightarrow> outline_unit list comp" where
  "outline_loop units [] = Ok units"
| "outline_loop units (x # sections) =
     and_then (section_outline x units) (\<lambda>units. outline_loop units sections)"

definition outline :: "legal_section list \<Rightarrow> outline_unit list comp" where
  "outline sections = outline_loop [] sections"

definition least_article :: "article_number option \<Rightarrow> article_number \<Rightarrow> article_number option" where
  "least_article first a =
     (case first of None \<Rightarrow> Some a | Some b \<Rightarrow> Some (if article_le b a then b else a))"

definition greatest_article :: "article_number option \<Rightarrow> article_number \<Rightarrow> article_number option" where
  "greatest_article last_one a =
     (case last_one of None \<Rightarrow> Some a | Some b \<Rightarrow> Some (if article_le b a then a else b))"

fun locate_loop ::
  "article_number \<Rightarrow> article_number option \<Rightarrow> article_number option \<Rightarrow> located_article option \<Rightarrow>
     outline_unit list \<Rightarrow> article_lookup" where
  "locate_loop wanted first last_one fallback [] =
     (case fallback of Some a \<Rightarrow> Found a | None \<Rightarrow> NotFound first last_one)"
| "locate_loop wanted first last_one fallback (Heading _ _ _ # units) =
     locate_loop wanted first last_one fallback units"
| "locate_loop wanted first last_one fallback (Article a # units) =
     (if la_number a = wanted then Found a
      else
        let alternate = map_option (\<lambda>p. \<lparr>an_number = an_number wanted, an_part = None, an_branch = Some p\<rparr>)
              (an_part wanted);
            fallback =
              (if an_branch wanted = None \<and> Some (la_number a) = alternate \<and> fallback = None
               then Some a else fallback) in
        locate_loop wanted (least_article first (la_number a)) (greatest_article last_one (la_number a))
          fallback units)"

definition locate_article :: "legal_section list \<Rightarrow> article_number \<Rightarrow> article_lookup comp" where
  "locate_article sections wanted =
     and_then (outline sections) (\<lambda>units. Ok (locate_loop wanted None None None units))"

primrec subparagraph_loop :: "nat option \<Rightarrow> nat \<Rightarrow> bool \<Rightarrow> rstr list \<Rightarrow> bool comp" where
  "subparagraph_loop paragraph wanted inside [] = Ok False"
| "subparagraph_loop paragraph wanted inside (raw # lines) =
     (let line = trim_start raw in
      (case leading_paragraph line of
         Some n \<Rightarrow>
           subparagraph_loop paragraph wanted (case paragraph of None \<Rightarrow> True | Some p \<Rightarrow> p = n) lines
       | None \<Rightarrow>
           (case digits line 0 3 of
              Some (n, e) \<Rightarrow>
                if inside \<and> n = wanted then
                  and_then (index_from line e) (\<lambda>rest.
                    if starts_with rest [46] then Ok True
                    else subparagraph_loop paragraph wanted inside lines)
                else subparagraph_loop paragraph wanted inside lines
            | None \<Rightarrow> subparagraph_loop paragraph wanted inside lines)))"

definition has_subparagraph :: "located_article \<Rightarrow> nat option \<Rightarrow> nat \<Rightarrow> bool comp" where
  "has_subparagraph a paragraph wanted =
     (let inline =
            (case str_lines (la_text a) of
               [] \<Rightarrow> None
             | l # _ \<Rightarrow> (case List.map_filter circled_number l of [] \<Rightarrow> None | n # _ \<Rightarrow> Some n));
          inside = (paragraph = None \<or> la_paragraphs a = [] \<or> (inline \<noteq> None \<and> inline = paragraph)) in
      subparagraph_loop paragraph wanted inside (tl (str_lines (la_text a))))"

definition bigrams :: "rstr \<Rightarrow> (rchar \<times> rchar) list" where
  "bigrams v = remdups (zip v (tl v))"

definition title_similarity :: "(rchar \<Rightarrow> bool) \<Rightarrow> rstr \<Rightarrow> rstr \<Rightarrow> nat option" where
  "title_similarity alnum cited retained =
     (let a = filter alnum cited; b = filter alnum retained in
      if a = [] \<or> b = [] then None
      else if contains a b \<or> contains b a then Some 100
      else
        let ga = bigrams a; gb = bigrams b; union = length (remdups (ga @ gb)) in
        if union = 0 then Some 0
        else
          let shared = length (filter (\<lambda>g. g \<in> set gb) ga) in
          Some (((shared * 100 + union div 2) div union) mod 256))"

section \<open>Words before a locator\<close>

definition is_boundary :: "rchar \<Rightarrow> bool" where
  "is_boundary c \<longleftrightarrow>
     c = NL \<or> c \<in> set (lit ''.,;:!?()[]{}'' @ [34, 39] @ [0x201C, 0x201D, 0x2018, 0x2019, 60, 62, 0x300A, 0x300B, 0x3008, 0x3009, 0x300C, 0x300D, 0x300E, 0x300F, 0xFF08, 0xFF09, 0x3001, 0x3002])"

definition ends_with_str :: "rstr \<Rightarrow> rstr \<Rightarrow> bool" where
  "ends_with_str s p \<longleftrightarrow> strip_suffix_str p s \<noteq> None"

definition ends_like_law_name :: "rstr \<Rightarrow> bool" where
  "ends_like_law_name word \<longleftrightarrow>
     list_ex (ends_with_str word)
       [[0xBC95], [0xBC95, 0xB960], [0xB839], [0xADDC, 0xCE59], [0xADDC, 0xC815], [0xD5CC, 0xBC95], [0xD2B9, 0xB840, 0xBC95], [0xAE30, 0xBCF8, 0xBC95]]"

definition generic_law_word :: "rstr \<Rightarrow> bool" where
  "generic_law_word word \<longleftrightarrow>
     word \<in> set [[0xBC95], [0xBC95, 0xB960], [0xC601], [0xB839], [0xADDC, 0xCE59], [0xADDC, 0xC815], [0xC2DC, 0xD589, 0xB839], [0xC2DC, 0xD589, 0xADDC, 0xCE59]]"

text \<open>Up to \<open>n\<close> words that end at the byte \<open>stop\<close>, in order.\<close>

fun words_before :: "rstr \<Rightarrow> nat \<Rightarrow> nat \<Rightarrow> (nat \<times> rstr) list comp" where
  "words_before prefix n stop =
     (if n = 0 \<or> stop = 0 then Ok []
      else
        and_then (index_to prefix stop) (\<lambda>head.
          let start =
                (case find (\<lambda>(_, c). is_whitespace c \<or> is_boundary c) (rev (char_indices head)) of
                   None \<Rightarrow> 0
                 | Some (i, c) \<Rightarrow> i + len_utf8 c) in
          if start = stop then Ok []
          else
            and_then (index_range prefix start stop) (\<lambda>word.
            and_then (index_to prefix start) (\<lambda>before.
              let trimmed = trim_end_by (\<lambda>c. is_whitespace c \<and> c \<noteq> NL) before in
              if str_len trimmed = str_len before then Ok [(start, word)]
              else
                and_then (words_before prefix (n - 1) (str_len trimmed)) (\<lambda>words.
                  Ok (words @ [(start, word)]))))))"

declare words_before.simps [simp del]

definition word_tail :: "rstr \<Rightarrow> nat \<Rightarrow> (nat \<times> rstr) list comp" where
  "word_tail prefix n = words_before prefix n (str_len (trim_end prefix))"

text \<open>Ways to say ``the same law'', with the subordinate instrument named.\<close>

definition SAME_LAW_FORMS :: "(rstr \<times> rstr option) list" where
  "SAME_LAW_FORMS =
     [([0xAC19, 0xC740, 0xBC95, 0xC2DC, 0xD589, 0xADDC, 0xCE59], Some [0xC2DC, 0xD589, 0xADDC, 0xCE59]),
      ([0xAC19, 0xC740, 0xBC95, 0xC2DC, 0xD589, 0xB839], Some [0xC2DC, 0xD589, 0xB839]),
      ([0xB3D9, 0xBC95, 0xC2DC, 0xD589, 0xADDC, 0xCE59], Some [0xC2DC, 0xD589, 0xADDC, 0xCE59]),
      ([0xB3D9, 0xBC95, 0xC2DC, 0xD589, 0xB839], Some [0xC2DC, 0xD589, 0xB839]),
      ([0xAC19, 0xC740, 0xBC95], None), ([0xB3D9, 0xBC95], None), ([0xAC19, 0xC740, 0xC601], None), ([0xAC19, 0xC740, 0xADDC, 0xCE59], None), ([0xB3D9, 0xB839], None)]"

fun same_law_loop :: "(nat \<times> rstr) list \<Rightarrow> (rstr option \<times> nat) option" where
  "same_law_loop [] = None"
| "same_law_loop ((start, word) # words) =
     (case map_of SAME_LAW_FORMS (concat (word # map snd words)) of
        Some suffix \<Rightarrow> Some (suffix, start)
      | None \<Rightarrow> same_law_loop words)"

definition same_law_reference :: "rstr \<Rightarrow> (rstr option \<times> nat) option comp" where
  "same_law_reference prefix = and_then (word_tail prefix 3) (\<lambda>words. Ok (same_law_loop words))"

primrec bracket_suffix :: "rstr \<Rightarrow> rstr list \<Rightarrow> (rstr \<times> rstr) option" where
  "bracket_suffix trimmed [] = None"
| "bracket_suffix trimmed (s # rest) =
     (case strip_suffix_str s trimmed of
        None \<Rightarrow> bracket_suffix trimmed rest
      | Some b \<Rightarrow>
          let b = trim_end b in
          if ends_with 0x300D b \<or> ends_with 0x300F b then Some (b, s) else bracket_suffix trimmed rest)"

definition opening_bracket :: "rchar \<Rightarrow> rchar option" where
  "opening_bracket closing =
     (if closing = 0x300D then Some 0x300C else if closing = 0x300F then Some 0x300E else None)"

text \<open>What stands between the closing bracket that ends the text and the last one that opens it.\<close>

definition bracketed_inner :: "rstr \<Rightarrow> (rstr \<times> nat) option comp" where
  "bracketed_inner body =
     (if body = [] then Ok None
      else
        (case opening_bracket (last body) of
           None \<Rightarrow> Ok None
         | Some c \<Rightarrow>
             (case find (\<lambda>(_, d). d = c) (rev (char_indices body)) of
                None \<Rightarrow> Ok None
              | Some (start, _) \<Rightarrow>
                  and_then (index_range body (start + len_utf8 c) (str_len body - len_utf8 (last body)))
                    (\<lambda>inner. Ok (Some (inner, start))))))"

definition bracketed_name :: "rstr \<Rightarrow> (rstr \<times> nat) option comp" where
  "bracketed_name prefix =
     (let trimmed = trim_end prefix;
          (body, suffix) =
            (case bracket_suffix trimmed SUFFIXES of
               Some (b, s) \<Rightarrow> (b, Some s)
             | None \<Rightarrow> (trimmed, None)) in
      and_then (bracketed_inner body) (\<lambda>found.
        Ok (case found of
              None \<Rightarrow> None
            | Some (inner, start) \<Rightarrow>
                if inner = [] \<or> MAX_LAW_NAME_BYTES < str_len inner \<or> NL \<in> set inner then None
                else
                  Some
                    (case suffix of
                       Some s \<Rightarrow> normalize_law_name inner @ [32] @ s
                     | None \<Rightarrow> normalize_law_name inner,
                     start))))"

text \<open>\<open>str::replace\<close> of a nonempty pattern by nothing.\<close>

function remove_all :: "rstr \<Rightarrow> rstr \<Rightarrow> rstr" where
  "remove_all p s =
     (if p = [] then s
      else
        (case split_once p s of
           None \<Rightarrow> s
         | Some (a, b) \<Rightarrow> a @ remove_all p b))"
  by pat_completeness auto

termination
  by (relation "measure (\<lambda>(_, s). length s)") (auto dest: split_once_SomeD)

declare remove_all.simps [simp del]

definition connector_only :: "rstr \<Rightarrow> bool" where
  "connector_only gap \<longleftrightarrow>
     (let rest = fold remove_all [[0xB610, 0xB294], [0xB0B4, 0xC9C0], [0xBD80, 0xD130], [0xAE4C, 0xC9C0]] gap in
      str_len gap \<le> 24
      \<and> list_all (\<lambda>c. is_whitespace c \<or> c \<in> set [44, 0xB7, 0x318D, 0x3001, 126, 0xBC0F, 0xC640, 0xACFC]) rest)"

section \<open>Citations\<close>

datatype law_reference =
    Named "(rstr \<times> nat) list" bool
  | SameLaw "rstr option" nat
  | Continued

record extracted_statute =
  es_law :: law_reference
  es_article :: article_number
  es_article_start :: nat
  es_byte_end :: nat
  es_paragraph :: "nat option"
  es_subparagraph :: "nat option"
  es_cited_title :: "rstr option"

record extracted_case =
  ec_byte_start :: nat
  ec_byte_end :: nat
  ec_case_number :: rstr

record extraction =
  ex_statutes :: "extracted_statute list"
  ex_cases :: "extracted_case list"
  ex_truncated :: bool

primrec join_words :: "rstr list \<Rightarrow> rstr" where
  "join_words [] = []"
| "join_words (w # ws) = (if ws = [] then w else w @ [32] @ join_words ws)"

text \<open>The names that end before the locator, longest first.\<close>

fun name_candidates :: "(nat \<times> rstr) list \<Rightarrow> (rstr \<times> nat) list" where
  "name_candidates [] = []"
| "name_candidates ((start, word) # words) =
     (let name = join_words (word # map snd words) in
      (if str_len name \<le> MAX_LAW_NAME_BYTES then [(normalize_law_name name, start)] else [])
      @ name_candidates words)"

definition law_reference_at :: "rstr \<Rightarrow> nat \<Rightarrow> nat option \<Rightarrow> law_reference option comp" where
  "law_reference_at t start previous_end =
     and_then (index_to t start) (\<lambda>prefix.
     and_then (bracketed_name prefix) (\<lambda>bracketed.
       (case bracketed of
          Some (name, at) \<Rightarrow> Ok (Some (Named [(name, at)] False))
        | None \<Rightarrow>
            and_then (same_law_reference prefix) (\<lambda>same.
              (case same of
                 Some (suffix, at) \<Rightarrow> Ok (Some (SameLaw suffix at))
               | None \<Rightarrow>
                   and_then (word_tail prefix MAX_NAME_WORDS) (\<lambda>words.
                     if words \<noteq> [] \<and> ends_like_law_name (snd (last words))
                     then Ok (Some (Named (name_candidates words) (generic_law_word (snd (last words)))))
                     else
                       (case previous_end of
                          None \<Rightarrow> Ok None
                        | Some e \<Rightarrow>
                            if e \<le> start then
                              and_then (index_range t e start) (\<lambda>gap.
                                Ok (if connector_only gap then Some Continued else None))
                            else Ok None)))))))"

definition SKIPPED_TITLES :: "rstr list" where
  "SKIPPED_TITLES =
     [[0xC774, 0xD558], [0xAD6C, 32], [0xAC1C, 0xC815], [0xC2E0, 0xC124], [0xC0AD, 0xC81C], [0xD604, 0xD589], [0xC885, 0xC804], [0xB2E8, 0xC11C], [0xBCF8, 0xBB38]]"

definition usable_title :: "rstr \<Rightarrow> rstr option" where
  "usable_title s =
     (let inner = trim s in
      if inner = [] \<or> contains inner [0xB77C, 32, 0xD55C, 0xB2E4]
         \<or> list_all (\<lambda>c. is_ascii_digit c \<or> is_whitespace c \<or> c = 46) inner
         \<or> list_ex (starts_with inner) SKIPPED_TITLES
      then None else Some inner)"

text \<open>A locator with the title cited after it, its paragraph and its subparagraph.\<close>

definition statute_locator ::
  "rstr \<Rightarrow> nat \<Rightarrow>
     ((article_number \<times> rstr option \<times> nat option \<times> nat option) \<times> nat) option comp" where
  "statute_locator t at =
     and_then (article_at t at) (\<lambda>found.
       (case found of
          None \<Rightarrow> Ok None
        | Some (article, e) \<Rightarrow>
            and_then (parenthetical t e) (\<lambda>paren.
              let (cited_title, e) =
                    (case paren of
                       None \<Rightarrow> (None, e)
                     | Some (inner, after) \<Rightarrow>
                         (case usable_title inner of None \<Rightarrow> (None, e) | Some x \<Rightarrow> (Some x, after))) in
              and_then (unit_number t (skip_spaces t e 1) HANG) (\<lambda>p.
                let (paragraph, e) = (case p of None \<Rightarrow> (None, e) | Some (n, after) \<Rightarrow> (Some n, after)) in
                and_then (unit_number t (skip_spaces t e 1) HO) (\<lambda>s.
                  let (subparagraph, e) = (case s of None \<Rightarrow> (None, e) | Some (n, after) \<Rightarrow> (Some n, after)) in
                  Ok (Some ((article, cited_title, paragraph, subparagraph), e)))))))"

text \<open>The answer \<open>Inl stop\<close> is a locator without a law, which ends at \<open>stop\<close>.\<close>

definition statute_at ::
  "rstr \<Rightarrow> nat \<Rightarrow> nat option \<Rightarrow> (nat + extracted_statute) option comp" where
  "statute_at t at previous_end =
     and_then (statute_locator t at) (\<lambda>found.
       (case found of
          None \<Rightarrow> Ok None
        | Some ((article, cited_title, paragraph, subparagraph), e) \<Rightarrow>
            and_then (law_reference_at t at previous_end) (\<lambda>law.
              Ok (Some
                (case law of
                   None \<Rightarrow> Inl e
                 | Some l \<Rightarrow> Inr
                     \<lparr>es_law = l, es_article = article, es_article_start = at, es_byte_end = e,
                      es_paragraph = paragraph, es_subparagraph = subparagraph,
                      es_cited_title = cited_title\<rparr>)))))"

definition CASE_TYPES :: "rstr list" where
  "CASE_TYPES =
     [[0xAC00, 0xD569],
      [0xAC00, 0xB2E8],
      [0xAC00, 0xC18C],
      [0xB098],
      [0xB2E4],
      [0xB77C],
      [0xB9C8],
      [0xADF8],
      [0xBA38],
      [0xCE74],
      [0xD0C0],
      [0xCC28],
      [0xB4DC],
      [0xB974],
      [0xBBC0],
      [0xBE0C],
      [0xC2A4],
      [0xB290, 0xB2E8],
      [0xB290, 0xD569],
      [0xACE0, 0xD569],
      [0xACE0, 0xB2E8],
      [0xACE0, 0xC815],
      [0xACE0, 0xC57D],
      [0xB178],
      [0xB3C4],
      [0xB85C],
      [0xBAA8],
      [0xBCF4],
      [0xC624],
      [0xCD08],
      [0xAC10, 0xB3C4],
      [0xAD6C, 0xD569],
      [0xAD6C, 0xB2E8],
      [0xAD6C],
      [0xB204],
      [0xB450],
      [0xBB34],
      [0xD5C8],
      [0xD6C4],
      [0xD5CC, 0xAC00],
      [0xD5CC, 0xB098],
      [0xD5CC, 0xB2E4],
      [0xD5CC, 0xB77C],
      [0xD5CC, 0xB9C8],
      [0xD5CC, 0xBC14],
      [0xD5CC, 0xC0AC],
      [0xD5CC, 0xC544],
      [0xC7AC, 0xB2E4],
      [0xC7AC, 0xB450],
      [0xC7AC, 0xB3C4]]"

text \<open>The kind of case and the serial number after the year.\<close>

definition case_tail ::
  "(rchar \<Rightarrow> bool) \<Rightarrow> rstr \<Rightarrow> nat \<Rightarrow> nat \<Rightarrow> extracted_case option comp" where
  "case_tail alnum t at year_end =
     and_then (index_from t year_end) (\<lambda>rest.
       let kind = takeWhile hangul (take 3 rest); kind_end = year_end + str_len kind in
       if kind \<notin> set CASE_TYPES then Ok None
       else
         (case digits t kind_end 7 of
            None \<Rightarrow> Ok None
          | Some (_, e) \<Rightarrow>
              and_then (index_from t e) (\<lambda>after.
                if after \<noteq> [] \<and> alnum (hd after) \<and> \<not> hangul (hd after) then Ok None
                else
                  and_then (index_range t at e) (\<lambda>number.
                    Ok (Some \<lparr>ec_byte_start = at, ec_byte_end = e, ec_case_number = number\<rparr>)))))"

definition case_at :: "(rchar \<Rightarrow> bool) \<Rightarrow> rstr \<Rightarrow> nat \<Rightarrow> extracted_case option comp" where
  "case_at alnum t at =
     and_then (index_to t at) (\<lambda>before.
       if before \<noteq> [] \<and> alnum (last before) then Ok None
       else
         (case digits t at 4 of
            None \<Rightarrow> Ok None
          | Some (_, year_end) \<Rightarrow>
              and_then (index_range t at year_end) (\<lambda>year.
                if \<not> (str_len year = 2
                       \<or> str_len year = 4 \<and> (starts_with year (lit ''19'') \<or> starts_with year (lit ''20'')))
                then Ok None
                else case_tail alnum t at year_end)))"

definition MAX_STATUTE_CITATIONS :: nat where
  "MAX_STATUTE_CITATIONS = 50"

definition MAX_CASE_CITATIONS :: nat where
  "MAX_CASE_CITATIONS = 30"

section \<open>Positions\<close>

lemma index_from_boundary: "is_char_boundary t n \<Longrightarrow> \<exists>s. index_from t n = Ok s"
  by (auto simp: is_char_boundary_def index_from_def)

lemma index_to_boundary: "is_char_boundary t n \<Longrightarrow> \<exists>s. index_to t n = Ok s \<and> str_len s = n \<and> (\<exists>u. t = s @ u)"
  by (auto simp: is_char_boundary_def index_to_def dest!: split_bytes_SomeD)

lemma boundary_split: "is_char_boundary t n \<longleftrightarrow> (\<exists>a s. split_bytes t n = Some (a, s))"
  by (auto simp: is_char_boundary_def)

lemma boundary_after:
  assumes "split_bytes t at = Some (a, x @ y)"
  shows "is_char_boundary t (at + str_len x)"
proof -
  have "t = (a @ x) @ y" "str_len (a @ x) = at + str_len x" using split_bytes_SomeD [OF assms] by simp_all
  then show ?thesis unfolding char_boundary_iff by blast
qed

lemma digits_boundary:
  assumes "digits t at most = Some (n, e)"
  shows "is_char_boundary t at" "at < e" "is_char_boundary t e"
proof -
  obtain a s where s: "split_bytes t at = Some (a, s)" and
    run: "takeWhile is_ascii_digit (take most s) \<noteq> []" "e = at + length (takeWhile is_ascii_digit (take most s))"
    using assms by (auto simp: digits_def Let_def split: option.splits if_splits)
  let ?run = "takeWhile is_ascii_digit (take most s)"
  have "list_all (\<lambda>c. c < 128) ?run"
    by (auto simp: list_all_iff is_ascii_digit_def dest!: set_takeWhileD)
  then have len: "str_len ?run = length ?run" by (rule ascii_str_len)
  have "take most s = ?run @ dropWhile is_ascii_digit (take most s)" by simp
  then have "s = ?run @ (dropWhile is_ascii_digit (take most s) @ drop most s)"
    by (metis append.assoc append_take_drop_id)
  then show "is_char_boundary t e" using boundary_after [of t at a ?run] s run(2) len by metis
  show "is_char_boundary t at" using s by (simp add: is_char_boundary_def)
  show "at < e" using run by simp
qed

lemma skip_boundary:
  shows "at \<le> skip_spaces t at most"
    and "is_char_boundary t at \<Longrightarrow> is_char_boundary t (skip_spaces t at most)"
proof -
  show "at \<le> skip_spaces t at most" by (auto simp: skip_spaces_def split: option.splits)
  assume "is_char_boundary t at"
  then obtain a s where s: "split_bytes t at = Some (a, s)" by (auto simp: boundary_split)
  let ?run = "takeWhile (\<lambda>c. c = 32) (take most s)"
  have "list_all (\<lambda>c. c < 128) ?run" by (auto simp: list_all_iff dest!: set_takeWhileD)
  then have len: "str_len ?run = length ?run" by (rule ascii_str_len)
  have "s = ?run @ (dropWhile (\<lambda>c. c = 32) (take most s) @ drop most s)"
    by (metis append.assoc append_take_drop_id takeWhile_dropWhile_id)
  then have "is_char_boundary t (at + str_len ?run)" using boundary_after s by metis
  then show "is_char_boundary t (skip_spaces t at most)" using s len by (simp add: skip_spaces_def)
qed

lemma boundary_char:
  assumes "split_bytes t at = Some (a, c # s)"
  shows "is_char_boundary t (at + len_utf8 c)"
  using boundary_after [of t at a "[c]" s] assms by simp

lemma index_from_Ok: "index_from t n = Ok s \<longleftrightarrow> (\<exists>a. split_bytes t n = Some (a, s))"
  by (auto simp: index_from_def split: option.splits)

lemma optional_boundary:
  assumes "optional_number t s at marker = (n, e)" "is_char_boundary t at"
  shows "at \<le> e" "is_char_boundary t e"
  using assms digits_boundary [of t "at + len_utf8 marker"]
  by (fastforce simp: optional_number_def split: if_splits option.splits)+

text \<open>A parse never panics, and what it recognises ends after it starts, at a boundary.\<close>

definition parsed :: "rstr \<Rightarrow> nat \<Rightarrow> ('a \<times> nat) option comp \<Rightarrow> bool" where
  "parsed t at r \<longleftrightarrow>
     (\<exists>f. r = Ok f \<and> (\<forall>x e. f = Some (x, e) \<longrightarrow> at < e \<and> is_char_boundary t e))"

lemma parsed_None [simp]: "parsed t at (Ok None)"
  by (simp add: parsed_def)

lemma parsed_Some [simp]: "parsed t at (Ok (Some (x, e))) \<longleftrightarrow> at < e \<and> is_char_boundary t e"
  by (simp add: parsed_def)

lemma parsedE:
  assumes "parsed t at r"
  obtains (none) "r = Ok None" | (some) x e where "r = Ok (Some (x, e))" "at < e" "is_char_boundary t e"
  using assms unfolding parsed_def by (metis option.exhaust prod.exhaust)

lemma and_then_index:
  assumes "is_char_boundary t n" "\<And>a s. split_bytes t n = Some (a, s) \<Longrightarrow> P (k s)"
  shows "P (and_then (index_from t n) k)"
  using assms by (auto simp: boundary_split index_from_def)

lemma article_unit_parsed:
  assumes "at < e" "is_char_boundary t e"
  shows "parsed t at (article_unit t number part e)"
proof -
  have branch: "parsed t at (and_then (index_from t e2) (\<lambda>s.
        let (branch, e) = optional_number t s e2 UI in
        Ok (Some (\<lparr>an_number = number, an_part = part, an_branch = branch\<rparr>, e))))"
    if "at < e2" "is_char_boundary t e2" for e2
    by (rule and_then_index [OF that(2)])
      (use that(1) optional_boundary [OF _ that(2)] in \<open>fastforce split: prod.splits\<close>)
  show ?thesis
    unfolding article_unit_def
    by (rule and_then_index [OF assms(2)])
      (use assms(1) boundary_char branch in \<open>force simp: Let_def split: list.splits\<close>)
qed

lemma article_at_parsed: "parsed t at (article_at t at)"
proof -
  have tail: "parsed t at (and_then (index_from t e) (\<lambda>s.
      let (part, e) = optional_number t s e 45 in article_unit t number part (skip_spaces t e 1)))"
    if "digits t (skip_spaces t (at + len_utf8 prefix) 1) 5 = Some (number, e)" for prefix number e
  proof -
    have "at \<le> skip_spaces t (at + len_utf8 prefix) 1" by (rule le_trans [OF _ skip_boundary(1)]) simp
    then have e: "at < e" "is_char_boundary t e" using digits_boundary [OF that] by auto
    have "parsed t at (let (part, e) = optional_number t s e 45 in article_unit t number part (skip_spaces t e 1))" for s
    proof -
      obtain part e1 where o: "optional_number t s e 45 = (part, e1)" by (cases "optional_number t s e 45")
      have "at < skip_spaces t e1 1" "is_char_boundary t (skip_spaces t e1 1)"
        using optional_boundary [OF o e(2)] skip_boundary [where at = e1 and t = t and most = 1] e(1) by auto
      then show ?thesis using o by (simp add: article_unit_parsed)
    qed
    then show ?thesis by (rule and_then_index [OF e(2)])
  qed
  show ?thesis unfolding article_at_def using tail by (auto split: option.splits)
qed

lemma unit_number_parsed: "parsed t at (unit_number t at unit)"
proof -
  have tail: "parsed t at (let e = skip_spaces t e 1 in
      if n = 0 then Ok None
      else and_then (index_from t e) (\<lambda>s. Ok (if starts_with s [unit] then Some (n, e + len_utf8 unit) else None)))"
    if "digits t (skip_spaces t (at + len_utf8 prefix) 1) 5 = Some (n, e)" for prefix n e
  proof -
    have "at \<le> skip_spaces t (at + len_utf8 prefix) 1" by (rule le_trans [OF _ skip_boundary(1)]) simp
    then have e: "at < skip_spaces t e 1" "is_char_boundary t (skip_spaces t e 1)"
      using digits_boundary [OF that] skip_boundary [where at = e and t = t and most = 1] by auto
    have "parsed t at (and_then (index_from t (skip_spaces t e 1))
        (\<lambda>s. Ok (if starts_with s [unit] then Some (n, skip_spaces t e 1 + len_utf8 unit) else None)))"
      by (rule and_then_index [OF e(2)]) (use e(1) boundary_char in \<open>force simp: starts_with_iff\<close>)
    then show ?thesis by (simp add: Let_def del: One_nat_def)
  qed
  show ?thesis unfolding unit_number_def using tail by (auto split: option.splits)
qed

lemma char_indices_from_split:
  "(i, c) \<in> set (char_indices_from n s) \<Longrightarrow> \<exists>a b. s = a @ c # b \<and> i = n + str_len a"
proof (induction s arbitrary: n)
  case (Cons d s)
  then consider "i = n" "c = d" | "(i, c) \<in> set (char_indices_from (n + len_utf8 d) s)" by auto
  then show ?case
  proof cases
    case 1
    then show ?thesis by - (rule exI [of _ "[]"], rule exI [of _ s], simp)
  next
    case 2
    then obtain a b where "s = a @ c # b" "i = n + len_utf8 d + str_len a" using Cons.IH by blast
    then show ?thesis by - (rule exI [of _ "d # a"], rule exI [of _ b], simp)
  qed
qed simp

lemma char_indices_split:
  assumes "(i, c) \<in> set (char_indices s)"
  obtains a b where "s = a @ c # b" "i = str_len a"
  using char_indices_from_split [OF assms [unfolded char_indices_def]] that by auto

lemma char_indices_boundary:
  assumes "(i, c) \<in> set (char_indices s)"
  shows "is_char_boundary s i" "is_char_boundary s (i + len_utf8 c)" "i + len_utf8 c \<le> str_len s"
proof -
  obtain a b where ab: "s = a @ c # b" "i = str_len a" by (rule char_indices_split [OF assms])
  then have "s = (a @ [c]) @ b" "str_len (a @ [c]) = i + len_utf8 c" by simp_all
  then show "is_char_boundary s i" "is_char_boundary s (i + len_utf8 c)"
    unfolding char_boundary_iff using ab by blast+
  then show "i + len_utf8 c \<le> str_len s" by (simp add: char_boundary_le)
qed

lemma find_in_set: "find P xs = Some x \<Longrightarrow> x \<in> set xs \<and> P x"
  by (auto simp: find_Some_iff)

lemma boundary_suffix:
  assumes "split_bytes t n = Some (a, s)" "is_char_boundary s i"
  shows "is_char_boundary t (n + i)"
proof -
  obtain x y where "s = x @ y" "str_len x = i" using assms(2) char_boundary_iff by blast
  then show ?thesis using boundary_after [of t n a x y] assms(1) by simp
qed

lemma parenthetical_parsed: "parsed t at (parenthetical t at)"
proof -
  have tail: "parsed t at (and_then (index_from t (at + len_utf8 bracket)) (\<lambda>window.
      case find (\<lambda>(_, c). c = 41 \<or> c = 0xFF09)
             (takeWhile (\<lambda>(i, c). i < 200 \<and> c \<noteq> NL) (char_indices window)) of
        None \<Rightarrow> Ok None
      | Some (i, c) \<Rightarrow> and_then (index_to window i) (\<lambda>inner.
          Ok (Some (inner, at + len_utf8 bracket + i + len_utf8 c)))))"
    if opens: "split_bytes t at = Some (a, bracket # rest)" for a bracket rest
  proof (rule and_then_index [OF boundary_char [OF opens]])
    fix b window
    assume w: "split_bytes t (at + len_utf8 bracket) = Some (b, window)"
    let ?found = "find (\<lambda>(_, c). c = 41 \<or> c = 0xFF09)
             (takeWhile (\<lambda>(i, c). i < 200 \<and> c \<noteq> NL) (char_indices window))"
    show "parsed t at (case ?found of None \<Rightarrow> Ok None
      | Some (i, c) \<Rightarrow> and_then (index_to window i) (\<lambda>inner.
          Ok (Some (inner, at + len_utf8 bracket + i + len_utf8 c))))"
    proof (cases ?found)
      case (Some x)
      obtain i c where x: "x = (i, c)" by (cases x)
      have "(i, c) \<in> set (char_indices window)"
        using find_in_set [OF Some] x set_takeWhileD by fast
      note ic = char_indices_boundary [OF this]
      have "is_char_boundary t (at + len_utf8 bracket + (i + len_utf8 c))"
        by (rule boundary_suffix [OF w ic(2)])
      moreover obtain inner where "index_to window i = Ok inner" using index_to_boundary [OF ic(1)] by blast
      ultimately show ?thesis using Some x by (simp add: add.assoc)
    qed simp
  qed
  show ?thesis unfolding parenthetical_def Let_def using tail by (auto split: option.splits list.splits)
qed

lemma trim_end_by_split: "\<exists>b. s = trim_end_by P s @ b"
proof -
  have "rev s = takeWhile P (rev s) @ dropWhile P (rev s)" by simp
  then have "s = rev (dropWhile P (rev s)) @ rev (takeWhile P (rev s))"
    by (metis rev_append rev_rev_ident)
  then show ?thesis unfolding trim_end_by_def by blast
qed

lemma trim_end_boundary: "is_char_boundary s (str_len (trim_end_by P s))"
  unfolding char_boundary_iff using trim_end_by_split [of s P] by blast

lemma boundary_prefix: "is_char_boundary a n \<Longrightarrow> is_char_boundary (a @ b) n"
  unfolding char_boundary_iff by (metis append.assoc)

lemma index_range_boundary:
  assumes "is_char_boundary t a" "is_char_boundary t b" "a \<le> b"
  shows "\<exists>s. index_range t a b = Ok s \<and> slice t a b = Some s"
proof -
  obtain u where "slice t a b = Some u" by (rule slice_exists [OF assms])
  then show ?thesis by (simp add: index_range_def)
qed

lemma words_before_ok:
  "is_char_boundary prefix stop \<Longrightarrow> \<exists>ws. words_before prefix n stop = Ok ws"
proof (induction prefix n stop rule: words_before.induct)
  case (1 prefix n stop)
  obtain head u where head: "index_to prefix stop = Ok head" "str_len head = stop" "prefix = head @ u"
    using index_to_boundary [OF "1.prems"] by blast
  define start where "start = (case find (\<lambda>(_, c). is_whitespace c \<or> is_boundary c) (rev (char_indices head)) of
      None \<Rightarrow> 0 | Some (i, c) \<Rightarrow> i + len_utf8 c)"
  have start: "is_char_boundary head start" "start \<le> stop"
  proof -
    have "is_char_boundary head start \<and> start \<le> str_len head"
    proof (cases "find (\<lambda>(_, c). is_whitespace c \<or> is_boundary c) (rev (char_indices head))")
      case (Some x)
      obtain i c where x: "x = (i, c)" by (cases x)
      have "(i, c) \<in> set (char_indices head)" using find_in_set [OF Some] x by simp
      from char_indices_boundary [OF this] show ?thesis using Some x by (simp add: start_def)
    qed (simp add: start_def)
    then show "is_char_boundary head start" "start \<le> stop" using head(2) by auto
  qed
  have b: "is_char_boundary prefix start" using start(1) head(3) by (simp add: boundary_prefix)
  obtain word where word: "index_range prefix start stop = Ok word"
    using index_range_boundary [OF b "1.prems" start(2)] by blast
  obtain before v where before: "index_to prefix start = Ok before" "prefix = before @ v"
    using index_to_boundary [OF b] by blast
  let ?trimmed = "trim_end_by (\<lambda>c. is_whitespace c \<and> c \<noteq> NL) before"
  have "is_char_boundary prefix (str_len ?trimmed)"
    using trim_end_boundary before(2) by (simp add: boundary_prefix)
  then have ih: "\<exists>ws. words_before prefix (n - 1) (str_len ?trimmed) = Ok ws"
    if "\<not> (n = 0 \<or> stop = 0)" "start \<noteq> stop" "str_len ?trimmed \<noteq> str_len before"
    using "1.IH" [OF that(1) head(1) start_def that(2) word before(1) refl that(3)] by blast
  show ?case
    unfolding words_before.simps [of prefix n stop] head(1) and_then_simps Let_def start_def [symmetric]
    using ih word before(1) by (auto simp del: One_nat_def)
qed

lemma word_tail_ok: "\<exists>ws. word_tail prefix n = Ok ws"
  unfolding word_tail_def trim_end_def by (rule words_before_ok [OF trim_end_boundary])

lemma same_law_reference_ok: "\<exists>r. same_law_reference prefix = Ok r"
  using word_tail_ok [of prefix 3] by (auto simp: same_law_reference_def)

lemma bracketed_inner_ok: "\<exists>r. bracketed_inner body = Ok r"
proof -
  have inner: "\<exists>s. index_range body (start + len_utf8 c) (str_len body - len_utf8 (last body)) = Ok s"
    if f: "find (\<lambda>(_, x). x = c) (rev (char_indices body)) = Some (start, y)"
      and d: "body \<noteq> []" "opening_bracket (last body) = Some c" for c start y
  proof -
    have "(start, c) \<in> set (char_indices body)" using find_in_set [OF f] by auto
    then obtain a b where ab: "body = a @ c # b" "start = str_len a" by (rule char_indices_split)
    have "c \<noteq> last body" using d(2) by (auto simp: opening_bracket_def split: if_splits)
    then have "b \<noteq> []" using ab(1) by auto
    then obtain b' where b': "b = b' @ [last body]" using ab(1) by (cases b rule: rev_cases) auto
    have "body = (a @ [c]) @ b' @ [last body]" using ab(1) b' by simp
    moreover have "str_len (a @ [c]) = start + len_utf8 c" using ab(2) by simp
    moreover have "start + len_utf8 c + str_len b' = str_len body - len_utf8 (last body)"
      by (subst calculation(1)) (use ab(2) in \<open>simp del: last_appendR\<close>)
    ultimately have "slice body (start + len_utf8 c) (str_len body - len_utf8 (last body)) = Some b'"
      unfolding slice_Some_iff by blast
    then show ?thesis by (simp add: index_range_def)
  qed
  then show ?thesis unfolding bracketed_inner_def by (fastforce split: option.splits)
qed

lemma bracketed_name_ok: "\<exists>r. bracketed_name prefix = Ok r"
proof -
  obtain body suffix where b: "(case bracket_suffix (trim_end prefix) SUFFIXES of
      Some (b, s) \<Rightarrow> (b, Some s) | None \<Rightarrow> (trim_end prefix, None)) = (body, suffix)"
    by fastforce
  obtain r where "bracketed_inner body = Ok r" using bracketed_inner_ok by blast
  with b show ?thesis by (simp add: bracketed_name_def)
qed

lemma law_reference_ok:
  assumes "is_char_boundary t start" "\<And>e. previous = Some e \<Longrightarrow> is_char_boundary t e"
  shows "\<exists>r. law_reference_at t start previous = Ok r"
proof -
  obtain prefix where prefix: "index_to t start = Ok prefix" using index_to_boundary [OF assms(1)] by blast
  obtain b s w where ok: "bracketed_name prefix = Ok b" "same_law_reference prefix = Ok s"
      "word_tail prefix MAX_NAME_WORDS = Ok w"
    using bracketed_name_ok same_law_reference_ok word_tail_ok by blast
  have "\<exists>gap. index_range t e start = Ok gap" if "previous = Some e" "e \<le> start" for e
    using index_range_boundary [OF assms(2) [OF that(1)] assms(1) that(2)] by blast
  then show ?thesis
    unfolding law_reference_at_def prefix and_then_simps ok
    by (auto split: option.splits prod.splits)
qed

text \<open>What the statute parser recognises at a boundary.\<close>

definition statute_end :: "nat + extracted_statute \<Rightarrow> nat" where
  "statute_end r = (case r of Inl e \<Rightarrow> e | Inr c \<Rightarrow> es_byte_end c)"

lemma parsedD:
  assumes "parsed t at r"
  obtains f where "r = Ok f" "\<forall>x e. f = Some (x, e) \<longrightarrow> at < e \<and> is_char_boundary t e"
  using assms unfolding parsed_def by blast

lemma statute_locator_parsed: "parsed t at (statute_locator t at)"
proof -
  from article_at_parsed [of t at] show ?thesis
  proof (cases rule: parsedE)
    case none
    then show ?thesis by (simp add: statute_locator_def)
  next
    case (some article e)
    obtain paren where paren: "parenthetical t e = Ok paren"
        "\<forall>x e'. paren = Some (x, e') \<longrightarrow> e < e' \<and> is_char_boundary t e'"
      by (rule parsedD [OF parenthetical_parsed [of t e]])
    obtain title e1 where te: "(case paren of None \<Rightarrow> (None, e)
      | Some (inner, after) \<Rightarrow> (case usable_title inner of None \<Rightarrow> (None, e) | Some x \<Rightarrow> (Some x, after))) = (title, e1)"
      by fastforce
    have e1: "at < e1" using te some(2,3) paren(2) by (auto split: option.splits)
    have b1: "is_char_boundary t e1" using te some(2,3) paren(2) by (auto split: option.splits)
    obtain p where p: "unit_number t (skip_spaces t e1 1) HANG = Ok p"
        "\<forall>x e'. p = Some (x, e') \<longrightarrow> skip_spaces t e1 1 < e' \<and> is_char_boundary t e'"
      by (rule parsedD [OF unit_number_parsed [of t "skip_spaces t e1 1" HANG]])
    obtain par e2 where pe: "(case p of None \<Rightarrow> (None, e1) | Some (n, after) \<Rightarrow> (Some n, after)) = (par, e2)"
      by fastforce
    have e2: "at < e2" "is_char_boundary t e2"
      using pe e1 b1 p(2) skip_boundary(1) [of e1 t 1] by (auto split: option.splits)
    obtain s where s: "unit_number t (skip_spaces t e2 1) HO = Ok s"
        "\<forall>x e'. s = Some (x, e') \<longrightarrow> skip_spaces t e2 1 < e' \<and> is_char_boundary t e'"
      by (rule parsedD [OF unit_number_parsed [of t "skip_spaces t e2 1" HO]])
    obtain sub e3 where se: "(case s of None \<Rightarrow> (None, e2) | Some (n, after) \<Rightarrow> (Some n, after)) = (sub, e3)"
      by fastforce
    have "at < e3" "is_char_boundary t e3"
      using se e2 s(2) skip_boundary(1) [of e2 t 1] by (auto split: option.splits)
    then show ?thesis
      unfolding statute_locator_def some(1) and_then_simps option.case prod.case paren(1) Let_def te p(1) pe s(1) se
      by simp
  qed
qed

lemma statute_at_end:
  assumes "statute_at t at previous = Ok (Some x)"
  shows "at < statute_end x" "is_char_boundary t (statute_end x)"
    "x = Inr c \<Longrightarrow> es_article_start c = at"
proof -
  obtain a b c' d e law where l: "statute_locator t at = Ok (Some ((a, b, c', d), e))"
      "x = (case law of None \<Rightarrow> Inl e | Some l \<Rightarrow> Inr
         \<lparr>es_law = l, es_article = a, es_article_start = at, es_byte_end = e,
          es_paragraph = c', es_subparagraph = d, es_cited_title = b\<rparr>)"
    using assms by (fastforce simp: statute_at_def result_simps split: option.splits)
  have "at < e" "is_char_boundary t e" using statute_locator_parsed [of t at] l(1) by auto
  then show "at < statute_end x" "is_char_boundary t (statute_end x)" "x = Inr c \<Longrightarrow> es_article_start c = at"
    using l(2) by (auto simp: statute_end_def split: option.splits)
qed

lemma statute_at_ok:
  assumes "is_char_boundary t at" "\<And>e. previous = Some e \<Longrightarrow> is_char_boundary t e"
  shows "\<exists>r. statute_at t at previous = Ok r"
proof -
  obtain law where law: "law_reference_at t at previous = Ok law" using law_reference_ok [OF assms] by blast
  obtain f where "statute_locator t at = Ok f" using statute_locator_parsed [of t at] by (auto simp: parsed_def)
  then show ?thesis using law by (auto simp: statute_at_def split: option.splits)
qed

lemma case_tail_end:
  assumes "case_tail alnum t at year_end = Ok (Some c)" "at < year_end"
  shows "ec_byte_start c = at" "at < ec_byte_end c" "is_char_boundary t (ec_byte_end c)"
    "slice t at (ec_byte_end c) = Some (ec_case_number c)"
proof -
  obtain k n e where d: "digits t (year_end + k) 7 = Some (n, e)" "index_range t at e = Ok (ec_case_number c)"
      "ec_byte_start c = at" "ec_byte_end c = e"
    using assms(1) by (auto simp: case_tail_def result_simps Let_def split: if_splits option.splits)
  from digits_boundary [OF d(1)] assms(2) d(3,4) show "ec_byte_start c = at" "at < ec_byte_end c"
      "is_char_boundary t (ec_byte_end c)" by auto
  show "slice t at (ec_byte_end c) = Some (ec_case_number c)"
    using d(2,4) by (auto simp: index_range_def split: option.splits)
qed

lemma case_at_end:
  assumes "case_at alnum t at = Ok (Some c)"
  shows "ec_byte_start c = at" "at < ec_byte_end c" "is_char_boundary t (ec_byte_end c)"
    "slice t at (ec_byte_end c) = Some (ec_case_number c)"
proof -
  obtain n year_end where y: "digits t at 4 = Some (n, year_end)" "case_tail alnum t at year_end = Ok (Some c)"
    using assms by (auto simp: case_at_def result_simps split: if_splits option.splits)
  from case_tail_end [OF y(2) digits_boundary(2) [OF y(1)]]
  show "ec_byte_start c = at" "at < ec_byte_end c" "is_char_boundary t (ec_byte_end c)"
    "slice t at (ec_byte_end c) = Some (ec_case_number c)" .
qed

lemma case_tail_ok:
  assumes "is_char_boundary t at" "is_char_boundary t year_end" "at < year_end"
  shows "\<exists>r. case_tail alnum t at year_end = Ok r"
proof -
  have range: "\<exists>s. index_range t at e = Ok s" "\<exists>s. index_from t e = Ok s"
    if "digits t (year_end + k) 7 = Some (n, e)" for k n e
    using index_range_boundary [OF assms(1) digits_boundary(3) [OF that]] index_from_boundary [OF digits_boundary(3) [OF that]]
      digits_boundary(2) [OF that] assms(3) by auto
  obtain rest where "index_from t year_end = Ok rest" using index_from_boundary [OF assms(2)] by blast
  then show ?thesis
    using range [of "str_len (takeWhile hangul (take 3 rest))"]
    by (auto simp: case_tail_def Let_def split: option.splits)
qed

lemma case_at_ok:
  assumes "is_char_boundary t at"
  shows "\<exists>r. case_at alnum t at = Ok r"
proof -
  obtain before where b: "index_to t at = Ok before" using index_to_boundary [OF assms] by blast
  have "\<exists>r. index_range t at e = Ok r" "\<exists>r. case_tail alnum t at e = Ok r"
    if "digits t at 4 = Some (n, e)" for n e
    using index_range_boundary [OF assms digits_boundary(3) [OF that]] digits_boundary(2) [OF that]
      case_tail_ok [OF assms digits_boundary(3) [OF that] digits_boundary(2) [OF that]] by auto
  then show ?thesis using b by (auto simp: case_at_def split: option.splits)
qed

lemma statute_progress:
  "statute_at t at previous = Ok (Some (Inr c)) \<Longrightarrow> at < es_byte_end c"
  "statute_at t at previous = Ok (Some (Inl stop)) \<Longrightarrow> at < stop"
  using statute_at_end(1) by (fastforce simp: statute_end_def)+

section \<open>Extraction\<close>

function (sequential) extract_from ::
  "(rchar \<Rightarrow> bool) \<Rightarrow> rstr \<Rightarrow> nat \<Rightarrow> nat option \<Rightarrow> rstr list \<Rightarrow> extraction \<Rightarrow> extraction comp" where
  "extract_from alnum t i previous seen out =
     (if i < str_len t then
        and_then (index_from t i) (\<lambda>rest.
          (case rest of
             [] \<Rightarrow> Ok out
           | c # _ \<Rightarrow>
               if c = JE \<or> c = JE_HAN then
                 and_then (statute_at t i previous) (\<lambda>found.
                   (case found of
                      Some (Inr citation) \<Rightarrow>
                        if length (ex_statutes out) = MAX_STATUTE_CITATIONS
                        then extract_from alnum t (i + len_utf8 c) previous seen (out\<lparr>ex_truncated := True\<rparr>)
                        else
                          extract_from alnum t (es_byte_end citation) (Some (es_byte_end citation)) seen
                            (out\<lparr>ex_statutes := ex_statutes out @ [citation]\<rparr>)
                    | Some (Inl stop) \<Rightarrow> extract_from alnum t stop None seen out
                    | None \<Rightarrow> extract_from alnum t (i + len_utf8 c) previous seen out))
               else
                 and_then (if is_ascii_digit c then case_at alnum t i else Ok None) (\<lambda>found.
                   (case found of
                      Some x \<Rightarrow>
                        if ec_case_number x \<in> set seen
                        then extract_from alnum t (ec_byte_end x) previous seen out
                        else
                          let seen = ec_case_number x # seen in
                          extract_from alnum t (ec_byte_end x) previous seen
                            (if MAX_CASE_CITATIONS < length seen then out\<lparr>ex_truncated := True\<rparr>
                             else out\<lparr>ex_cases := ex_cases out @ [x]\<rparr>)
                    | None \<Rightarrow>
                        and_then
                          (if c = NL then and_then (index_from t (i + 1)) (\<lambda>s. Ok (starts_with s [NL]))
                           else Ok False) (\<lambda>blank.
                          extract_from alnum t (i + len_utf8 c) (if blank then None else previous) seen out)))))
      else Ok out)"
  by pat_completeness auto

termination
  by (relation "measure (\<lambda>(alnum, t, i, previous, seen, out). str_len t - i)")
    (auto simp: diff_less_mono2 dest!: statute_progress case_at_end(2) split: if_splits)

declare extract_from.simps [simp del]

definition extract_citations :: "(rchar \<Rightarrow> bool) \<Rightarrow> rstr \<Rightarrow> extraction comp" where
  "extract_citations alnum t =
     extract_from alnum t 0 None [] \<lparr>ex_statutes = [], ex_cases = [], ex_truncated = False\<rparr>"

section \<open>Annexes and decisions\<close>

record annex_label =
  al_number :: nat
  al_branch :: "nat option"

text \<open>The word for an annex, and the title of annex sections.\<close>

definition ANNEX :: rstr where
  "ANNEX = [0xBCC4, 0xD45C]"

definition ANNEX_SECTION :: rstr where
  "ANNEX_SECTION = [0xBCC4, 0xD45C, 0xB0B4, 0xC6A9]"

definition format_annex :: "annex_label \<Rightarrow> rstr" where
  "format_annex a =
     ANNEX @ [32] @ nat_str (al_number a)
     @ (case al_branch a of None \<Rightarrow> [] | Some b \<Rightarrow> [UI] @ nat_str b)"

definition parse_annex_label :: "rstr \<Rightarrow> annex_label option comp" where
  "parse_annex_label s =
     (let compact = filter (\<lambda>c. \<not> is_whitespace c \<and> c \<noteq> 91 \<and> c \<noteq> 93) s;
          body = (case strip_prefix ANNEX compact of None \<Rightarrow> compact | Some b \<Rightarrow> b);
          body = strip_char JE JE body in
      (case digits body 0 4 of
         None \<Rightarrow> Ok None
       | Some (number, e) \<Rightarrow>
           and_then (index_from body e) (\<lambda>rest.
           and_then (parse_branch rest) (\<lambda>branch.
             Ok (case branch of
                   None \<Rightarrow> None
                 | Some b \<Rightarrow> if 0 < number then Some \<lparr>al_number = number, al_branch = b\<rparr> else None)))))"

definition annex_marker :: "rstr \<Rightarrow> annex_label option comp" where
  "annex_marker t =
     and_then (index_to t (floor_boundary t (min 400 (str_len t)))) (\<lambda>head.
       (case split_once ANNEX head of
          None \<Rightarrow> Ok None
        | Some (before, _) \<Rightarrow>
            (case digits t (skip_spaces t (str_len before + str_len ANNEX) 1) 4 of
               None \<Rightarrow> Ok None
             | Some (number, e) \<Rightarrow>
                 and_then (index_from t e) (\<lambda>rest.
                   let branch =
                         (if starts_with rest [UI] then map_option fst (digits t (e + len_utf8 UI) 3) else None) in
                   Ok (if 0 < number then Some \<lparr>al_number = number, al_branch = branch\<rparr> else None)))))"

record located_annex =
  lx_label :: annex_label
  lx_section_id :: rstr
  lx_title :: rstr
  lx_text :: rstr
  lx_kind :: section_kind
  lx_sparse :: bool

definition annex_candidate :: "legal_section \<Rightarrow> bool" where
  "annex_candidate x =
     (case ls_kind x of ProviderText \<Rightarrow> ls_title x = ANNEX_SECTION | Extracted \<Rightarrow> True | Ocr \<Rightarrow> False)"

definition annex_section :: "legal_section \<Rightarrow> located_annex option comp" where
  "annex_section x =
     (if \<not> annex_candidate x then Ok None
      else
        and_then (annex_marker (ls_text x)) (\<lambda>label.
          Ok (case label of
                None \<Rightarrow> None
              | Some l \<Rightarrow> Some
                  \<lparr>lx_label = l, lx_section_id = ls_id x, lx_title = ls_title x, lx_text = trim (ls_text x),
                   lx_kind = ls_kind x,
                   lx_sparse = (length (filter hangul (ls_text x)) < 20
                     \<or> contains (ls_text x) (lit ''<img''))\<rparr>)))"

primrec annex_sections :: "legal_section list \<Rightarrow> located_annex list comp" where
  "annex_sections [] = Ok []"
| "annex_sections (x # xs) =
     and_then (annex_section x) (\<lambda>a.
     and_then (annex_sections xs) (\<lambda>rest.
       Ok (case a of None \<Rightarrow> rest | Some l \<Rightarrow> l # rest)))"

definition annexes :: "legal_section list \<Rightarrow> located_annex list comp" where
  "annexes sections =
     and_then (annex_sections sections) (\<lambda>found. Ok (sort_key (\<lambda>a. lx_kind a \<noteq> ProviderText) found))"

definition locate_annex :: "legal_section list \<Rightarrow> annex_label \<Rightarrow> located_annex list comp" where
  "locate_annex sections wanted =
     and_then (annexes sections) (\<lambda>found. Ok (filter (\<lambda>a. lx_label a = wanted) found))"

definition OVERRULING_PHRASES :: "rstr list" where
  "OVERRULING_PHRASES =
     [[0xBCC0, 0xACBD, 0xD558, 0xAE30, 0xB85C, 32, 0xD55C, 0xB2E4],
      [0xBCC0, 0xACBD, 0xD558, 0xAE30, 0xB85C, 32, 0xD558, 0xBA70],
      [0xBAA8, 0xB450, 32, 0xBCC0, 0xACBD],
      [0xACAC, 0xD574, 0xB97C, 32, 0xBCC0, 0xACBD],
      [0xB354, 32, 0xC774, 0xC0C1, 32, 0xC720, 0xC9C0, 0xD560, 32, 0xC218, 32, 0xC5C6],
      [0xD3D0, 0xAE30, 0xD558, 0xAE30, 0xB85C]]"

definition overruling_phrase :: "rstr \<Rightarrow> rstr option" where
  "overruling_phrase line =
     (let squeeze = filter (\<lambda>c. \<not> is_whitespace c); compact = squeeze line in
      find (\<lambda>phrase. contains compact (squeeze phrase)) OVERRULING_PHRASES)"

definition parse_case_number :: "(rchar \<Rightarrow> bool) \<Rightarrow> rstr \<Rightarrow> rstr option comp" where
  "parse_case_number alnum s =
     (let v = trim s in
      and_then (case_at alnum v 0) (\<lambda>found.
        Ok (case found of
              None \<Rightarrow> None
            | Some c \<Rightarrow> if ec_byte_end c = str_len v then Some (ec_case_number c) else None)))"

end
