(* ===== verification/Korean_Reference_Properties.thy ===== *)
theory Korean_Reference_Properties
  imports Korean_Reference
begin

text \<open>
  What the Korean profile promises: extraction of citations never panics and reports ordered, bounded
  spans; article numbers are read back as they are printed; an article is located exactly when the outline
  has it.
\<close>

section \<open>Extraction\<close>

text \<open>Spans in order, without overlap, ending at or before \<open>limit\<close>.\<close>

fun spans_before :: "nat \<Rightarrow> (nat \<times> nat) list \<Rightarrow> nat \<Rightarrow> bool" where
  "spans_before start [] limit = (start \<le> limit)"
| "spans_before start ((a, b) # spans) limit = (start \<le> a \<and> a < b \<and> spans_before b spans limit)"

lemma spans_before_snoc:
  "spans_before start spans a \<Longrightarrow> a < b \<Longrightarrow> spans_before start (spans @ [(a, b)]) b"
  by (induction start spans a rule: spans_before.induct) auto

lemma spans_before_mono: "spans_before start spans a \<Longrightarrow> a \<le> b \<Longrightarrow> spans_before start spans b"
  by (induction start spans a rule: spans_before.induct) auto

definition statute_span :: "extracted_statute \<Rightarrow> nat \<times> nat" where
  "statute_span c = (es_article_start c, es_byte_end c)"

definition case_span :: "extracted_case \<Rightarrow> nat \<times> nat" where
  "case_span c = (ec_byte_start c, ec_byte_end c)"

definition extraction_inv :: "rstr \<Rightarrow> nat \<Rightarrow> rstr list \<Rightarrow> extraction \<Rightarrow> bool" where
  "extraction_inv t i seen out \<longleftrightarrow>
     length (ex_statutes out) \<le> MAX_STATUTE_CITATIONS
     \<and> length (ex_cases out) \<le> MAX_CASE_CITATIONS \<and> length (ex_cases out) \<le> length seen
     \<and> distinct (map ec_case_number (ex_cases out)) \<and> ec_case_number ` set (ex_cases out) \<subseteq> set seen
     \<and> spans_before 0 (map statute_span (ex_statutes out)) i
     \<and> spans_before 0 (map case_span (ex_cases out)) i
     \<and> list_all (\<lambda>c. is_char_boundary t (es_article_start c) \<and> is_char_boundary t (es_byte_end c)) (ex_statutes out)
     \<and> list_all (\<lambda>x. slice t (ec_byte_start x) (ec_byte_end x) = Some (ec_case_number x)) (ex_cases out)"

lemma extraction_inv_advance: "extraction_inv t i seen out \<Longrightarrow> i \<le> j \<Longrightarrow> extraction_inv t j seen out"
  by (auto simp: extraction_inv_def intro: spans_before_mono)

lemma extraction_inv_truncated [simp]:
  "extraction_inv t i seen (out\<lparr>ex_truncated := b\<rparr>) = extraction_inv t i seen out"
  by (simp add: extraction_inv_def)

lemma extraction_inv_seen: "extraction_inv t i seen out \<Longrightarrow> extraction_inv t i (n # seen) out"
  by (auto simp: extraction_inv_def)

lemma extraction_inv_statute:
  assumes "extraction_inv t i seen out" "length (ex_statutes out) \<noteq> MAX_STATUTE_CITATIONS"
    "statute_at t i previous = Ok (Some (Inr c))" "is_char_boundary t i"
  shows "extraction_inv t (es_byte_end c) seen (out\<lparr>ex_statutes := ex_statutes out @ [c]\<rparr>)"
proof -
  have "es_article_start c = i" "i < es_byte_end c" "is_char_boundary t (es_byte_end c)"
    using statute_at_end [OF assms(3)] by (auto simp: statute_end_def)
  then show ?thesis
    using assms spans_before_mono [of 0 "map case_span (ex_cases out)" i "es_byte_end c"]
      spans_before_snoc [of 0 "map statute_span (ex_statutes out)" i "es_byte_end c"]
    by (auto simp: extraction_inv_def statute_span_def)
qed

lemma extraction_inv_case:
  assumes "extraction_inv t i seen out" "case_at alnum t i = Ok (Some x)" "ec_case_number x \<notin> set seen"
    "length seen < MAX_CASE_CITATIONS"
  shows "extraction_inv t (ec_byte_end x) (ec_case_number x # seen) (out\<lparr>ex_cases := ex_cases out @ [x]\<rparr>)"
  using assms case_at_end [OF assms(2)]
    spans_before_mono [of 0 "map statute_span (ex_statutes out)" i "ec_byte_end x"]
    spans_before_snoc [of 0 "map case_span (ex_cases out)" i "ec_byte_end x"]
  by (auto simp: extraction_inv_def case_span_def)

definition finishes ::
  "(rchar \<Rightarrow> bool) \<Rightarrow> rstr \<Rightarrow> nat \<Rightarrow> nat option \<Rightarrow> rstr list \<Rightarrow> extraction \<Rightarrow> bool" where
  "finishes alnum t i previous seen out \<longleftrightarrow>
     (\<exists>e seen'. extract_from alnum t i previous seen out = Ok e \<and> extraction_inv t (str_len t) seen' e)"

definition admissible :: "rstr \<Rightarrow> nat \<Rightarrow> nat option \<Rightarrow> rstr list \<Rightarrow> extraction \<Rightarrow> bool" where
  "admissible t i previous seen out \<longleftrightarrow>
     extraction_inv t i seen out \<and> is_char_boundary t i
     \<and> (\<forall>e. previous = Some e \<longrightarrow> is_char_boundary t e)"

lemma admissible_next:
  assumes "admissible t i previous seen out" "index_from t i = Ok (c # u)"
  shows "admissible t (i + len_utf8 c) previous seen out" "i < i + len_utf8 c"
  using assms boundary_char extraction_inv_advance [of t i seen out "i + len_utf8 c"]
  by (auto simp: admissible_def index_from_Ok)

lemma extract_statute_step:
  assumes ad: "admissible t i previous seen out"
    and i: "i < str_len t" "index_from t i = Ok (c # u)" "c = JE \<or> c = JE_HAN"
    and ih: "\<And>j p s x. i < j \<Longrightarrow> admissible t j p s x \<Longrightarrow> finishes alnum t j p s x"
  shows "finishes alnum t i previous seen out"
proof -
  have inv: "extraction_inv t i seen out" and b: "is_char_boundary t i" using ad by (auto simp: admissible_def)
  obtain r where r: "statute_at t i previous = Ok r"
    using statute_at_ok [OF b] ad by (auto simp: admissible_def)
  note skip = admissible_next [OF ad i(2)]
  show ?thesis
  proof (cases r)
    case None
    then show ?thesis
      using ih [OF skip(2,1)] i r by (simp add: finishes_def extract_from.simps [of _ _ i])
  next
    case (Some x)
    note e = statute_at_end [OF r [unfolded Some]]
    show ?thesis
    proof (cases x)
      case (Inl stop)
      have "admissible t stop None seen out"
        using e extraction_inv_advance [OF inv, of stop] Inl by (simp add: admissible_def statute_end_def)
      then show ?thesis
        using ih [of stop] e i r Some Inl by (simp add: finishes_def extract_from.simps [of _ _ i] statute_end_def)
    next
      case (Inr cit)
      have "admissible t (es_byte_end cit) (Some (es_byte_end cit)) seen (out\<lparr>ex_statutes := ex_statutes out @ [cit]\<rparr>)"
        if "length (ex_statutes out) \<noteq> MAX_STATUTE_CITATIONS"
        using extraction_inv_statute [OF inv that r [unfolded Some Inr] b] e Inr
        by (simp add: admissible_def statute_end_def)
      moreover have "admissible t (i + len_utf8 c) previous seen (out\<lparr>ex_truncated := True\<rparr>)"
        using skip(1) by (simp add: admissible_def)
      ultimately show ?thesis
        using ih e(1) skip(2) i r Some Inr
        by (auto simp: finishes_def extract_from.simps [of _ _ i] statute_end_def)
    qed
  qed
qed

lemma extract_case_step:
  assumes ad: "admissible t i previous seen out"
    and i: "i < str_len t" "index_from t i = Ok (c # u)" "\<not> (c = JE \<or> c = JE_HAN)"
    and ih: "\<And>j p s x. i < j \<Longrightarrow> admissible t j p s x \<Longrightarrow> finishes alnum t j p s x"
  shows "finishes alnum t i previous seen out"
proof -
  have inv: "extraction_inv t i seen out" and b: "is_char_boundary t i" using ad by (auto simp: admissible_def)
  obtain r where r: "(if is_ascii_digit c then case_at alnum t i else Ok None) = Ok r"
    using case_at_ok [OF b] by fastforce
  note skip = admissible_next [OF ad i(2)]
  show ?thesis
  proof (cases r)
    case None
    have "\<exists>blank. (if c = NL then and_then (index_from t (i + 1)) (\<lambda>s. Ok (starts_with s [NL])) else Ok False) = Ok blank"
    proof (cases "c = NL")
      case True
      then have "is_char_boundary t (i + 1)" using skip(1) by (simp add: admissible_def len_utf8_def)
      then show ?thesis using index_from_boundary True by fastforce
    qed auto
    then obtain blank where blank: "(if c = NL then and_then (index_from t (i + 1)) (\<lambda>s. Ok (starts_with s [NL])) else Ok False) = Ok blank" ..
    have "admissible t (i + len_utf8 c) (if blank then None else previous) seen out"
      using skip(1) by (auto simp: admissible_def)
    then show ?thesis
      using ih [OF skip(2)] i r blank None by (simp add: finishes_def extract_from.simps [of _ _ i] del: One_nat_def)
  next
    case (Some x)
    then have x: "case_at alnum t i = Ok (Some x)" using r by (auto split: if_splits)
    note e = case_at_end [OF x]
    have old: "admissible t (ec_byte_end x) previous seen out"
      using ad e extraction_inv_advance [OF inv, of "ec_byte_end x"] by (auto simp: admissible_def)
    then have more: "admissible t (ec_byte_end x) previous (n # seen) (out\<lparr>ex_truncated := True\<rparr>)" for n
      by (simp add: admissible_def extraction_inv_seen)
    have new: "admissible t (ec_byte_end x) previous (ec_case_number x # seen) (out\<lparr>ex_cases := ex_cases out @ [x]\<rparr>)"
      if "ec_case_number x \<notin> set seen" "length seen < MAX_CASE_CITATIONS"
      using extraction_inv_case [OF inv x that] ad e by (simp add: admissible_def)
    show ?thesis
      using ih [OF e(2)] old more new i r Some
      by (auto simp: finishes_def extract_from.simps [of _ _ i] Let_def not_less)
  qed
qed

lemma extract_from_ok: "admissible t i previous seen out \<Longrightarrow> finishes alnum t i previous seen out"
proof (induction "str_len t - i" arbitrary: i previous seen out rule: less_induct)
  case less
  have inv: "extraction_inv t i seen out" and b: "is_char_boundary t i" using less.prems by (auto simp: admissible_def)
  show ?case
  proof (cases "i < str_len t")
    case i: True
    have ih: "finishes alnum t j p s x" if "i < j" "admissible t j p s x" for j p s x
      using less.hyps [OF diff_less_mono2 [OF that(1) i] that(2)] .
    obtain rest where rest: "index_from t i = Ok rest" using index_from_boundary [OF b] by blast
    show ?thesis
    proof (cases rest)
      case Nil
      then show ?thesis
        using rest i extraction_inv_advance [OF inv, of "str_len t"]
        by (auto simp: finishes_def extract_from.simps [of _ _ i])
    next
      case (Cons c u)
      then show ?thesis
        using extract_statute_step [OF less.prems i _ _ ih] extract_case_step [OF less.prems i _ _ ih] rest by blast
    qed
  next
    case False
    then have "extract_from alnum t i previous seen out = Ok out" by (simp add: extract_from.simps [of _ _ i])
    moreover have "i = str_len t" using False char_boundary_le [OF b] by simp
    ultimately show ?thesis using inv by (auto simp: finishes_def)
  qed
qed

text \<open>
  C13. Extracting citations from any text ends and never panics.  It reports at most fifty statutes and
  thirty cases; the spans of the statutes, and those of the cases, are in order without overlap inside the
  text and start and end between characters; no case is reported twice, and each case number is the text
  at its span.
\<close>

theorem extract_citations_sound:
  "\<exists>e. extract_citations alnum t = Ok e
    \<and> length (ex_statutes e) \<le> 50 \<and> length (ex_cases e) \<le> 30
    \<and> spans_before 0 (map statute_span (ex_statutes e)) (str_len t)
    \<and> spans_before 0 (map case_span (ex_cases e)) (str_len t)
    \<and> list_all (\<lambda>c. is_char_boundary t (es_article_start c) \<and> is_char_boundary t (es_byte_end c)) (ex_statutes e)
    \<and> distinct (map ec_case_number (ex_cases e))
    \<and> list_all (\<lambda>x. slice t (ec_byte_start x) (ec_byte_end x) = Some (ec_case_number x)) (ex_cases e)"
proof -
  have "admissible t 0 None [] \<lparr>ex_statutes = [], ex_cases = [], ex_truncated = False\<rparr>"
    by (simp add: admissible_def extraction_inv_def)
  from extract_from_ok [OF this, of alnum] show ?thesis
    unfolding finishes_def extraction_inv_def extract_citations_def MAX_STATUTE_CITATIONS_def MAX_CASE_CITATIONS_def
    by blast
qed

section \<open>Article numbers\<close>

definition number_ok :: "nat \<Rightarrow> nat option \<Rightarrow> bool" where
  "number_ok limit n = (case n of None \<Rightarrow> True | Some k \<Rightarrow> 0 < k \<and> k < limit)"

definition article_ok :: "article_number \<Rightarrow> bool" where
  "article_ok a \<longleftrightarrow>
     0 < an_number a \<and> an_number a < 100000 \<and> number_ok 1000 (an_part a) \<and> number_ok 1000 (an_branch a)"

lemma digits_nat_str:
  assumes "length (nat_str n) \<le> most" "s = [] \<or> \<not> is_ascii_digit (hd s)"
  shows "digits (nat_str n @ s) 0 most = Some (n, length (nat_str n))"
proof -
  have d: "list_all is_ascii_digit (nat_str n)" by (rule nat_str_digits)
  have "takeWhile is_ascii_digit (take most (nat_str n @ s)) = nat_str n"
  proof -
    have "take most (nat_str n @ s) = nat_str n @ take (most - length (nat_str n)) s" using assms(1) by simp
    moreover have "takeWhile is_ascii_digit (take k s) = []" for k
      using assms(2) by (cases s; cases k) auto
    ultimately show ?thesis using d by (simp add: list_all_iff)
  qed
  then show ?thesis using assms(2) by (simp add: digits_def Let_def)
qed

lemma index_after_number: "index_from (nat_str n @ s) (length (nat_str n)) = Ok s"
  using split_bytes_append [of "nat_str n" s] by (simp add: index_from_def str_len_nat_str)

lemma number_no_space: "filter (\<lambda>c. \<not> is_whitespace c) (nat_str n) = nat_str n"
  using nat_str_set [of _ n] by (fastforce simp: filter_id_conv is_whitespace_def)

lemma format_no_space: "filter (\<lambda>c. \<not> is_whitespace c) (format_article a) = format_article a"
proof -
  have "\<not> is_whitespace JE" "\<not> is_whitespace JO" "\<not> is_whitespace UI" "\<not> is_whitespace 45"
    by (simp_all add: is_whitespace_def)
  then show ?thesis
    by (simp add: format_article_def number_no_space split: option.splits)
qed

lemma parse_branch_format:
  "number_ok 1000 b \<Longrightarrow> parse_branch (case b of None \<Rightarrow> [] | Some m \<Rightarrow> [UI] @ nat_str m) = Ok (Some b)"
  using digits_nat_str [of _ 3 "[]"] nat_str_length [of _ 3]
  by (auto simp: parse_branch_def number_ok_def str_len_nat_str split: option.splits)

text \<open>
  C39. Article numbers are read back as they are printed: every article number with a number of at most
  five digits and a part and a branch of at most three is parsed from its printed form, without a panic.
\<close>

theorem article_number_roundtrip:
  assumes "article_ok a"
  shows "parse_article_number (format_article a) = Ok (Some a)"
proof -
  let ?branch = "case an_branch a of None \<Rightarrow> [] | Some m \<Rightarrow> [UI] @ nat_str m"
  let ?rest = "(case an_part a of None \<Rightarrow> [] | Some p \<Rightarrow> [45] @ nat_str p) @ [JO] @ ?branch"
  have body: "strip_char JE JE_HAN (filter (\<lambda>c. \<not> is_whitespace c) (format_article a)) = nat_str (an_number a) @ ?rest"
    unfolding format_no_space by (simp add: format_article_def strip_char_def)
  have "hd ?rest = 45 \<or> hd ?rest = JO" by (auto split: option.splits)
  then have d: "digits (nat_str (an_number a) @ ?rest) 0 5 = Some (an_number a, length (nat_str (an_number a)))"
    using assms nat_str_length [of "an_number a" 5]
    by (intro digits_nat_str) (auto simp: article_ok_def is_ascii_digit_def)
  have dp: "digits (nat_str p @ [JO] @ ?branch) 0 3 = Some (p, length (nat_str p))" if "an_part a = Some p" for p
    using assms nat_str_length [of p 3] that
    by (intro digits_nat_str) (auto simp: article_ok_def number_ok_def is_ascii_digit_def)
  have "parse_branch (strip_char JO JO_HAN ([JO] @ ?branch)) = Ok (Some (an_branch a))"
    using parse_branch_format [of "an_branch a"] assms by (simp add: strip_char_def article_ok_def)
  then show ?thesis
    unfolding parse_article_number_def Let_def body d option.case prod.case index_after_number and_then_simps
    using assms dp index_after_number [of _ "[JO] @ ?branch"]
    by (auto simp: article_ok_def number_ok_def split: option.splits)
qed

definition sample_article :: article_number where
  "sample_article = \<lparr>an_number = 9, an_part = Some 5, an_branch = Some 2\<rparr>"

theorem article_number_roundtrip_witness:
  "parse_article_number (format_article sample_article) = Ok (Some sample_article)"
  by (rule article_number_roundtrip) code_simp

section \<open>Articles of a capture\<close>

definition articles :: "outline_unit list \<Rightarrow> located_article list" where
  "articles units = List.map_filter (\<lambda>u. case u of Article a \<Rightarrow> Some a | Heading _ _ _ \<Rightarrow> None) units"

lemma articles_simps [simp]:
  "articles [] = []"
  "articles (Heading l n t # us) = articles us"
  "articles (Article a # us) = a # articles us"
  "articles (us @ vs) = articles us @ articles vs"
  by (simp_all add: articles_def List.map_filter_def)

text \<open>Where an article of the outline comes from: it is a passage of a provider section that starts with
  the article's number.\<close>

definition passage_article :: "rstr \<Rightarrow> rstr \<Rightarrow> located_article \<Rightarrow> bool" where
  "passage_article section_id t a \<longleftrightarrow>
     la_section_id a = section_id \<and> (\<exists>u v. t = u @ la_text a @ v)
     \<and> (\<exists>e. article_at (la_text a) 0 = Ok (Some (la_number a, e)))"

definition article_of :: "legal_section list \<Rightarrow> located_article \<Rightarrow> bool" where
  "article_of sections a \<longleftrightarrow>
     list_ex (\<lambda>x. ls_kind x = ProviderText \<and> passage_article (ls_id x) (ls_text x) a) sections"

lemma trim_infix: "\<exists>u v. s = u @ trim s @ v"
proof -
  let ?t = "dropWhile is_whitespace s"
  obtain v where "?t = trim s @ v"
    using trim_end_by_split [of ?t is_whitespace] by (auto simp: trim_def trim_end_by_def)
  then have "s = takeWhile is_whitespace s @ trim s @ v" by (metis takeWhile_dropWhile_id)
  then show ?thesis by blast
qed

lemma build_article_ok:
  obtains r where "build_article sid hint body = Ok r"
    "\<forall>a. r = Some a \<longrightarrow> la_section_id a = sid \<and> la_text a = trim body
       \<and> (\<exists>e. article_at (trim body) 0 = Ok (Some (la_number a, e)))"
proof (cases rule: parsedE [OF article_at_parsed [of "trim body" 0]])
  case 1
  then show ?thesis using that by (simp add: build_article_def Let_def)
next
  case (2 number e)
  obtain paren where paren: "parenthetical (trim body) e = Ok paren"
      "\<forall>x e'. paren = Some (x, e') \<longrightarrow> e < e' \<and> is_char_boundary (trim body) e'"
    by (rule parsedD [OF parenthetical_parsed [of "trim body" e]])
  obtain title e1 where te: "(case paren of None \<Rightarrow> (trim hint, e)
      | Some (inner, after) \<Rightarrow> (if trim hint = [] then trim inner else trim hint, after)) = (title, e1)"
    by fastforce
  have "is_char_boundary (trim body) e1" using te paren(2) 2(3) by (auto split: option.splits)
  then obtain rest where rest: "index_from (trim body) e1 = Ok rest" using index_from_boundary by blast
  show ?thesis
    by (rule that; unfold build_article_def Let_def 2(1) and_then_simps option.case prod.case paren(1) te rest)
      (auto simp: 2)
qed

lemma heading_at_ok: "\<exists>r. heading_at s = Ok r"
proof -
  have level: "\<exists>after. index_from rest (e + len_utf8 c) = Ok after"
    if "index_from rest e = Ok (c # u)" for rest e c u
    using that boundary_char index_from_boundary by (auto simp: index_from_Ok)
  have branch: "\<exists>after. index_from u e = Ok after" if "digits u 0 most = Some (n, e)" for u most n e
    using digits_boundary(3) [OF that] by (rule index_from_boundary)
  show ?thesis
  proof (cases "trim_start s")
    case (Cons prefix rest)
    show ?thesis
    proof (cases "digits rest 0 4")
      case (Some x)
      obtain n e where x: "x = (n, e)" by (cases x)
      obtain tail where tail: "index_from rest e = Ok tail" using branch Some x by blast
      show ?thesis
        using Cons Some x tail level [of rest e] branch [of _ 3]
        by (cases tail) (fastforce simp: heading_at_def split: option.splits list.splits)+
    qed (use Cons in \<open>simp add: heading_at_def\<close>)
  qed (simp add: heading_at_def)
qed

lemma starts_article_ok: "\<exists>r. starts_article line = Ok r"
proof (cases rule: parsedE [OF article_at_parsed [of line 0]])
  case (2 number e)
  then show ?thesis using index_from_boundary [of line e] by (auto simp: starts_article_def)
qed (auto simp: starts_article_def)


lemma build_article_passage:
  assumes "t = u @ body @ v"
  obtains r where "build_article sid hint body = Ok r" "\<forall>a. r = Some a \<longrightarrow> passage_article sid t a"
proof -
  obtain x y where "body = x @ trim body @ y" using trim_infix by blast
  then have "t = (u @ x) @ trim body @ (y @ v)" using assms by (metis append.assoc)
  then have inside: "\<exists>u v. t = u @ trim body @ v" by blast
  obtain r where r: "build_article sid hint body = Ok r"
    "\<forall>a. r = Some a \<longrightarrow> la_section_id a = sid \<and> la_text a = trim body
       \<and> (\<exists>e. article_at (trim body) 0 = Ok (Some (la_number a, e)))"
    by (rule build_article_ok)
  then have "\<forall>a. r = Some a \<longrightarrow> passage_article sid t a" using inside by (simp add: passage_article_def)
  with r(1) show thesis by (rule that)
qed

lemma close_block_ok:
  assumes "is_char_boundary t stop" "\<And>start. opened = Some start \<Longrightarrow> is_char_boundary t start \<and> start \<le> stop"
  shows "\<exists>new. close_block sid t opened stop units = Ok (units @ new)
     \<and> list_all (passage_article sid t) (articles new)"
proof (cases opened)
  case (Some start)
  obtain block where block: "index_range t start stop = Ok block" "slice t start stop = Some block"
    using index_range_boundary [of t start stop] assms Some by blast
  obtain u v where t: "t = u @ block @ v" using block(2) slice_Some_iff by blast
  obtain r where r: "build_article sid [] block = Ok r" "\<forall>a. r = Some a \<longrightarrow> passage_article sid t a"
    by (rule build_article_passage [OF t])
  then show ?thesis using Some block(1) by (cases r) (auto simp: close_block_def)
qed (simp add: close_block_def)

lemma block_loop_ok:
  assumes "t = pre @ concat lines" "offset = str_len pre"
    "\<And>start. opened = Some start \<Longrightarrow> is_char_boundary t start \<and> start \<le> offset"
  shows "\<exists>new. block_loop sid t opened offset units lines = Ok (units @ new)
     \<and> list_all (passage_article sid t) (articles new)"
  using assms
proof (induction lines arbitrary: pre offset opened units)
  case Nil
  then show ?case using close_block_ok [of t "str_len t" opened] by simp
next
  case (Cons line lines)
  have here: "is_char_boundary t offset" unfolding char_boundary_iff using Cons.prems(1,2) by blast
  have next_line: "t = (pre @ line) @ concat lines" "offset + str_len line = str_len (pre @ line)"
    using Cons.prems(1,2) by simp_all
  obtain ws where ws: "line = ws @ trim_start line"
    unfolding trim_start_def by (metis takeWhile_dropWhile_id)
  define start where "start = offset + (str_len line - str_len (trim_start line))"
  have len: "str_len line = str_len ws + str_len (trim_start line)" by (subst ws) simp
  have "t = (pre @ ws) @ trim_start line @ concat lines" "str_len (pre @ ws) = start"
    using Cons.prems(1,2) ws len by (simp_all add: start_def)
  then have start: "is_char_boundary t start" "start \<le> offset + str_len line"
    using len unfolding char_boundary_iff by (blast, simp add: start_def)
  obtain heading where h: "heading_at (trim line) = Ok heading" using heading_at_ok by blast
  obtain fresh where f: "starts_article (trim line) = Ok fresh" using starts_article_ok by blast
  obtain new where new: "close_block sid t opened offset units = Ok (units @ new)"
      "list_all (passage_article sid t) (articles new)"
    using close_block_ok [OF here Cons.prems(3)] by blast
  note step = Cons.IH [OF next_line]
  show ?case
  proof (cases heading)
    case (Some x)
    obtain level number where x: "x = (level, number)" by (cases x)
    obtain more where "block_loop sid t None (offset + str_len line)
        ((units @ new) @ [Heading level number (trim line)]) lines
        = Ok (((units @ new) @ [Heading level number (trim line)]) @ more)"
        "list_all (passage_article sid t) (articles more)"
      using step [of None] by blast
    then show ?thesis using Some x h new by (auto simp: Let_def)
  next
    case None
    show ?thesis
    proof (cases fresh)
      case True
      obtain more where "block_loop sid t (Some start) (offset + str_len line) (units @ new) lines
          = Ok ((units @ new) @ more)" "list_all (passage_article sid t) (articles more)"
        using step [of "Some start"] start by blast
      then show ?thesis using None True h f new by (auto simp: Let_def start_def)
    next
      case False
      have "\<exists>new. block_loop sid t opened (offset + str_len line) units lines = Ok (units @ new)
          \<and> list_all (passage_article sid t) (articles new)"
        using step [of opened] Cons.prems(3) by fastforce
      then show ?thesis using None False h f by (simp add: Let_def)
    qed
  qed
qed

lemma section_outline_ok:
  "\<exists>new. section_outline x units = Ok (units @ new) \<and> list_all (article_of [x]) (articles new)"
proof -
  obtain u v where t: "ls_text x = u @ trim (ls_text x) @ v" using trim_infix by blast
  obtain r where r: "build_article (ls_id x) (ls_title x) (trim (ls_text x)) = Ok r"
      "\<forall>a. r = Some a \<longrightarrow> passage_article (ls_id x) (ls_text x) a"
    by (rule build_article_passage [OF t])
  obtain heading where "heading_at (trim (ls_text x)) = Ok heading" using heading_at_ok by blast
  moreover have "\<exists>new. block_loop (ls_id x) (ls_text x) None 0 units (split_inclusive (ls_text x)) = Ok (units @ new)
      \<and> list_all (passage_article (ls_id x) (ls_text x)) (articles new)"
    by (rule block_loop_ok [of _ "[]"]) (simp_all add: concat_split_inclusive)
  ultimately show ?thesis
    using r unfolding section_outline_def article_of_def by (cases r) (auto simp: Let_def split: option.splits)
qed

lemma outline_loop_ok:
  "\<exists>new. outline_loop units sections = Ok (units @ new) \<and> list_all (article_of sections) (articles new)"
proof (induction sections arbitrary: units)
  case (Cons x sections)
  obtain new where new: "section_outline x units = Ok (units @ new)" "list_all (article_of [x]) (articles new)"
    using section_outline_ok by blast
  obtain more where "outline_loop (units @ new) sections = Ok ((units @ new) @ more)"
      "list_all (article_of sections) (articles more)" using Cons.IH by blast
  then show ?case using new by (auto simp: article_of_def list_all_iff)
qed simp


text \<open>The order on article numbers is linear.\<close>

lemma article_le_linear: "article_le a b \<or> article_le b a"
  by (auto simp: article_le_def option_le_def split: option.splits)

lemma article_le_trans: "article_le a b \<Longrightarrow> article_le b c \<Longrightarrow> article_le a c"
  by (auto simp: article_le_def option_le_def split: option.splits)

lemma article_le_refl: "article_le a a"
  using article_le_linear by blast

text \<open>\<open>first\<close> and \<open>last\<close> are the ends of the numbers \<open>ns\<close> in that order.\<close>

definition number_range ::
  "article_number list \<Rightarrow> article_number option \<Rightarrow> article_number option \<Rightarrow> bool" where
  "number_range ns first last_one =
     (case (first, last_one) of
        (Some a, Some b) \<Rightarrow> a \<in> set ns \<and> b \<in> set ns \<and> list_all (\<lambda>n. article_le a n \<and> article_le n b) ns
      | (None, None) \<Rightarrow> ns = []
      | _ \<Rightarrow> False)"

lemma number_range_step:
  assumes "number_range ns first last_one"
  shows "number_range (ns @ [n]) (least_article first n) (greatest_article last_one n)"
proof (cases first)
  case None
  then show ?thesis
    using assms article_le_refl
    by (auto simp: number_range_def least_article_def greatest_article_def split: option.splits)
next
  case (Some a)
  then obtain b where b: "last_one = Some b" using assms by (auto simp: number_range_def split: option.splits)
  have ab: "a \<in> set ns" "b \<in> set ns" "\<And>m. m \<in> set ns \<Longrightarrow> article_le a m \<and> article_le m b"
    using assms Some b by (auto simp: number_range_def list_all_iff)
  have low: "article_le (if article_le a n then a else n) m" if "m \<in> set (ns @ [n])" for m
    using that ab article_le_linear [of a n] article_le_trans [of n a m] article_le_refl by auto
  have high: "article_le m (if article_le b n then n else b)" if "m \<in> set (ns @ [n])" for m
    using that ab article_le_linear [of b n] article_le_trans [of m b n] article_le_refl by auto
  show ?thesis
    using Some b ab(1,2) low high
    by (simp add: number_range_def least_article_def greatest_article_def list_all_iff)
qed

text \<open>The code writes an article with a part, when it has no branch, also as a branch of the article.\<close>

definition alternate_form :: "article_number \<Rightarrow> article_number option" where
  "alternate_form w =
     (if an_branch w = None
      then map_option (\<lambda>p. \<lparr>an_number = an_number w, an_part = None, an_branch = Some p\<rparr>) (an_part w)
      else None)"

definition first_with :: "article_number option \<Rightarrow> located_article list \<Rightarrow> located_article option" where
  "first_with n arts = find (\<lambda>a. Some (la_number a) = n) arts"

definition lookup_spec :: "article_number \<Rightarrow> located_article list \<Rightarrow> article_lookup \<Rightarrow> bool" where
  "lookup_spec wanted arts r =
     (case (first_with (Some wanted) arts, first_with (alternate_form wanted) arts) of
        (Some a, _) \<Rightarrow> r = Found a
      | (None, Some a) \<Rightarrow> r = Found a
      | (None, None) \<Rightarrow>
          (case r of NotFound first last_one \<Rightarrow> number_range (map la_number arts) first last_one | Found _ \<Rightarrow> False))"

lemma locate_loop_spec:
  assumes "number_range (map la_number past) first last_one"
    "first_with (Some wanted) past = None" "fallback = first_with (alternate_form wanted) past"
  shows "lookup_spec wanted (past @ articles units) (locate_loop wanted first last_one fallback units)"
  using assms
proof (induction wanted first last_one fallback units arbitrary: past rule: locate_loop.induct)
  case (3 wanted first last_one fallback a units)
  have find_snoc: "first_with n (past @ [a]) =
      (case first_with n past of Some b \<Rightarrow> Some b | None \<Rightarrow> if Some (la_number a) = n then Some a else None)" for n
    unfolding first_with_def by (induction past) auto
  show ?case
  proof (cases "la_number a = wanted")
    case True
    have "first_with (Some wanted) (past @ a # articles units) = Some a"
      using 3(3) True unfolding first_with_def by (induction past) (auto split: if_splits)
    then show ?thesis using True by (simp add: lookup_spec_def)
  next
    case False
    show ?thesis
      using "3.IH" [OF False refl refl, of "past @ [a]"] False "3.prems" number_range_step [OF "3.prems"(1)]
      by (auto simp: find_snoc alternate_form_def Let_def split: option.splits if_splits)
  qed
qed (auto simp: lookup_spec_def split: option.splits)

text \<open>
  C14. Locating an article never panics and answers as the capture has it: the first article of the outline
  with the wanted number; else, for a number with a part and no branch, the first one that writes the part
  as a branch; else not found, with the least and the greatest article number of the outline.  Every
  article of the outline is a passage of one of the provider's sections and starts with its number.
\<close>

theorem locate_article_correct:
  "\<exists>units r. outline sections = Ok units \<and> list_all (article_of sections) (articles units)
     \<and> locate_article sections wanted = Ok r \<and> lookup_spec wanted (articles units) r"
proof -
  obtain units where units: "outline sections = Ok units" "list_all (article_of sections) (articles units)"
    using outline_loop_ok [of "[]" sections] by (auto simp: outline_def)
  have "lookup_spec wanted ([] @ articles units) (locate_loop wanted None None None units)"
    by (rule locate_loop_spec) (simp_all add: number_range_def first_with_def)
  then show ?thesis using units by (auto simp: locate_article_def)
qed

end
