(* ===== verification/Spec2Isabelle.thy ===== *)
theory Spec2Isabelle
  imports Diff_Service_Properties Rate_Limit Framing Search_Query_Properties Payload_Processors
    Demand_Collection Payload_Identity Citation_Properties Reference_Lookup
    Korean_Reference_Properties
begin

text \<open>
  Verification development of openlegal4everyoneMCP, a server of the Model Context Protocol for
  public legal sources.  The program is a set of Rust crates: contracts (\<open>crates/domain\<close>), pure text
  processing (\<open>crates/normalization\<close>), services (\<open>crates/application\<close>), adapters to processes, storage
  and providers (\<open>crates/adapters\<close>), and the server (\<open>apps/server\<close>).

  \<^bold>\<open>Parts and interaction.\<close>  A caller reaches the services through a bounded transport
  (newline-delimited frames, a rate limiter per client).  The comparison service takes texts, patches
  or uploaded attachments, runs a comparison worker, validates its output and keeps the result for
  paged reading.  The retrieval service answers queries about synthetic sources from a memory cache,
  a durable store or an upstream, with one refresh per key shared by all callers.  The corpus
  services read captured legal records, keep content sessions open, admit searches written in a small
  query language and record demand for collection.

  \<^bold>\<open>Modelling.\<close>  A \<open>str\<close> is the list of its Unicode scalar values with byte lengths and offsets as in
  Rust (\<open>Rust_Text\<close>); \<open>Result\<close> is a sum type with the error on the left and \<open>and_then\<close> for the
  question mark (\<open>Prelude\<close>); machine integers are naturals with their bounds, checked and saturating
  operations written out where the code can reach them.  State behind a mutex is a record, every
  critical section is a function on it, and concurrent code is an inductive step relation whose steps
  are these sections, so that a property of all reachable states holds for every interleaving.  Clock
  readings, cancellation flags and answers of ports are arguments of the sections that observe them.
  Code outside the repository (the \<open>similar\<close> differ, \<open>serde_json\<close>, \<open>url\<close>, SHA-256, random handles, the
  storage ports) is a parameter; what is used of it is a named hypothesis or a locale.

  \<^bold>\<open>Theories and sources.\<close>
  \<^item> \<open>Prelude\<close>, \<open>Rust_Text\<close>, \<open>Text_Info\<close>, \<open>Ascii_Text\<close>, \<open>Utf8\<close>, \<open>Text_Slices\<close>: results, checked arithmetic, strings
    and slices between character boundaries.
  \<^item> \<open>Retrieval_Domain\<close>: \<open>domain/lib.rs\<close>, \<open>history.rs\<close>.  \<open>Text_Diff_Domain\<close>: \<open>domain/text_diff.rs\<close>.
  \<^item> \<open>Patch\<close>: \<open>normalization/patch.rs\<close>, the strict unified patch parser and applier, with the splicing
    of lines as its specification.
  \<^item> \<open>Diff_Compute\<close>: \<open>adapters/text_diff/compute.rs\<close>, comparing and printing, over a differ that keeps
    the contract of \<open>similar\<close>.
  \<^item> \<open>Diff_Paging\<close>: \<open>application/text_diff.rs\<close> and \<open>text_diff/paging.rs\<close>, validation of the worker's
    output and the pages.
  \<^item> \<open>Attachments\<close>, \<open>Attachment_Protocol\<close>: \<open>application/text_diff/attachments.rs\<close>, uploads, leases,
    paged reads and deletion.
  \<^item> \<open>Diff_Service\<close>, \<open>Diff_Service_Safety\<close>, \<open>Diff_Service_Properties\<close>: the comparison service of
    \<open>application/text_diff.rs\<close> as a step relation, its invariants and what they give.
  \<^item> \<open>Rate_Limit\<close>, \<open>Framing\<close>: \<open>server/rate_limit.rs\<close>, \<open>server/framing.rs\<close>.
  \<^item> \<open>Search_Query\<close>, \<open>Search_Query_Safety\<close>, \<open>Search_Query_Properties\<close>: the query language of
    \<open>domain/search_query.rs\<close> and \<open>normalization/search_query.rs\<close>.
  \<^item> \<open>Payload_Processors\<close>: \<open>normalization/lib.rs\<close>; the locale \<open>payload_processor\<close> is what the service
    relies on of a processor, and both layouts interpret it.
  \<^item> \<open>Memory_Cache\<close>, \<open>Upstream_Policy\<close>: \<open>adapters/cache.rs\<close>, \<open>application/upstream_policy.rs\<close> and the
    policies of \<open>application/persistence.rs\<close>; the locale \<open>cache_store\<close> is the port of the cache.
  \<^item> \<open>Retrieval_Service\<close>, \<open>Retrieval_Safety\<close>, \<open>Retrieval_Properties\<close>: \<open>application/service.rs\<close> and
    \<open>service/persistent.rs\<close> as a step relation, the ledger of flights, waiters and tasks, and the
    ownership of payloads.
  \<^item> \<open>Payload_Identity\<close>: \<open>application/persistence/identity.rs\<close> and the snapshot reads.
  \<^item> \<open>Rights\<close>, \<open>Datasets\<close>, \<open>Legal_Domain\<close>, \<open>Legal_Database\<close>: \<open>domain/rights.rs\<close>, \<open>jurisdiction.rs\<close>,
    \<open>legal.rs\<close>, \<open>legal_search.rs\<close>, \<open>application/database.rs\<close>, \<open>database_read.rs\<close>, \<open>search.rs\<close>.
  \<^item> \<open>Demand_Collection\<close>: \<open>domain/collection.rs\<close>, \<open>application/demand_collection.rs\<close>.
  \<^item> \<open>Citation_Identity\<close>: \<open>domain/citation.rs\<close>; the locale \<open>form_codec\<close> is the form encoding of the \<open>url\<close>
    crate, interpreted by the algorithm of the URL standard.
  \<^item> \<open>Citation_Service\<close>, \<open>Citation_Properties\<close>: \<open>application/citation.rs\<close>, citing search hits and reading
    citations over retained captures.
  \<^item> \<open>Reference_Lookup\<close>: \<open>application/legal_reference.rs\<close>, line lookups, the revision catalog and the
    selection of the revision in force.
  \<^item> \<open>Korean_Reference\<close>, \<open>Korean_Reference_Properties\<close>: \<open>normalization/kr_legal_reference.rs\<close> with
    \<open>normalization/legal_reference.rs\<close> and the locators of \<open>domain/legal_reference.rs\<close>: law names and the
    alias table, locators, the outline of a capture, citations, annexes.

  \<^bold>\<open>What is shown.\<close>  A printed comparison applied by the strict applier gives back the second text; the
  applier accepts exactly what splices; accepted worker output rebuilds the new text from the old one,
  and every page quotes the originals.  Uploads, reads and deletions keep their protocol; the
  comparison service stays within its memory, holds exactly the reservations, permits and
  leases of its tasks and callers, and stores
  nothing after it ended.  The parser of queries ends on every input, never panics, and accepts only
  well-formed expressions.  Frames do not depend on fragmentation; the limiter admits no more than
  its burst and refill.  The retrieval service shares one refresh per key, its counters are exact and
  never underflow, and what callers receive answers their query, names its source and is as fresh as
  it says; durable identities are injective and revalidation agrees with validation.  Records respect
  the reuse rights of their originals; content sessions never change their capture; demand is
  recorded exactly for plain terms, and for a query only when the request restricts nothing else.  Citation identities have one
  encoding; the citation of a hit holds its whole excerpt, can be fetched while the capture is kept
  and then returns exactly the cited text; passages tile their section and know their neighbours.  Citations
  are extracted from any text without a panic, in order and within bounds; an article is located as the
  outline of its capture has it; article numbers are read back as printed; the revision in force on a
  date is the latest that took effect by then; complete line lookups have followed every page.

  \<^bold>\<open>Bounds and fuel.\<close>  The query parser runs with \<open>parse_fuel\<close>, one more than the byte length of the
  query, and this is proved to be enough.  Every other loop is a terminating function.  Generations of
  flights are 64-bit and wrap; the retrieval steps assume fewer than \<open>2 ^ 64\<close> started flights.

  \<^bold>\<open>Not modelled.\<close>  Network endpoints, TLS, JSON schemas and configuration of the server; SQL stores,
  blob storage, search indexes and process supervision of the adapters; the provider client for
  law.go.kr; the document worker and vendored libraries; the tools of the
  server that combine references with the corpus.  These are input and output or code of other
  packages, and the services above see them through ports.  Of the retrieval service the
  floating-point token bucket (\<open>acquire_rate\<close>) appears as its answer, and metrics text and poisoned
  locks are left out.

  \<^bold>\<open>This theory\<close> joins refresh, revalidation and the retrieval service into one statement about what
  callers receive.
\<close>

section \<open>Retrieval from the provider to the caller\<close>

text \<open>
  The payloads that reach the retrieval service: what \<open>refresh\<close> returned for a source and query of the
  key, or what the durable store revalidated under the durable form of the key (every payload that
  \<open>postgres/data.rs\<close> restores and every candidate that \<open>postgres/publication.rs\<close> commits passes
  \<open>validate_payload\<close>).
\<close>

definition task_payload ::
  "serde_json \<Rightarrow> (nat list \<Rightarrow> nat list) \<Rightarrow> rstr \<Rightarrow> cache_key \<Rightarrow> stored_payload \<Rightarrow> bool" where
  "task_payload J sha256 namespace key v \<longleftrightarrow>
     (\<exists>last_instant policy generation source query attempts c.
        for_source source query = Ok key
        \<and> fst (refresh J (digest_hex sha256) last_instant policy generation source query attempts c) = Ok v)
     \<or> validate_payload J sha256 (persistent_key_of namespace key) v = Ok ()"

lemma task_payload_fits: "task_payload J sha256 namespace key v \<Longrightarrow> payload_for key v"
  unfolding task_payload_def by (elim disjE exE conjE refresh_fetched) (rule service_validate_fits revalidated_fits; assumption)+

text \<open>
  C2. Whatever a caller of \<open>retrieve\<close> receives answers its query and names the registered source it
  came from, in every interleaving of callers, tasks, timers and shutdown, with or without a durable
  store, when the tasks bring what \<open>refresh\<close> returned or the store revalidated.  An immediate answer
  and the result of a successful refresh are marked fresh and were validated less than 60 seconds
  before the clock reading that admits them.  After a failed refresh only a transient error and
  \<open>AllowStale\<close> give an answer, at most 300 seconds old, and it is marked fresh exactly when it is
  younger than 60 seconds.
\<close>

theorem retrieval_end_to_end:
  assumes "retrieval_reachable (task_payload J sha256 namespace) durable s"
    and "retrieval_reachable (task_payload J sha256 namespace) durable s2"
    and "retrieve_key sources cancelled query = Ok (source, key)"
  shows "(\<forall>env s'. retrieve_admit p t1 t2 t3 reaped_ok source key s = (Served env, s') \<longrightarrow>
           envelope_for sources query env \<and> fs_state (ev_freshness env) = Fresh
           \<and> ev_validated env \<le> t2 \<and> t2 < ev_validated env + 60)
    \<and> (\<forall>g r env s'. (key, g) \<in> set (rv_guards s) \<and> wait_poll c g s = Some r
           \<and> retrieve_finish p1 p2 t1 t2 t3 t4 requirement key r s2 = (Ok env, s') \<longrightarrow>
         envelope_for sources query env
         \<and> (case r of
              Inr _ \<Rightarrow> fs_state (ev_freshness env) = Fresh
                \<and> ev_validated env \<le> t1 \<and> t1 < ev_validated env + 60
            | Inl e \<Rightarrow> is_transient e \<and> requirement = AllowStale
                \<and> ev_validated env \<le> t2 \<and> t2 \<le> ev_validated env + 300
                \<and> (fs_state (ev_freshness env) = Fresh \<longleftrightarrow> t3 < ev_validated env + 60)))"
  by (rule served_envelopes [OF assms(1,2) task_payload_fits assms(3)])

text \<open>The payload a task of a memory-only service fetched in its second attempt.\<close>

definition sample_result :: "(stored_payload, retrieval_error) result" where
  "sample_result =
     fst (refresh sample_serde (digest_hex sample_digest) 1000000 request_policy_default 7 sample_source
       (Get (lit ''s'') (lit ''1'')) sample_attempts \<lparr>cd_until = None, cd_paused = None\<rparr>)"

definition sample_fresh :: stored_payload where
  "sample_fresh = (case sample_result of Inr v \<Rightarrow> v | Inl _ \<Rightarrow> sample_payload)"

theorem retrieval_end_to_end_witness:
  "envelope_for [sample_source] (Get (lit ''s'') (lit ''1'')) (envelope_of 130 sample_fresh Fresh)
   \<and> wait_poll False 1 (sample_published sample_fresh) = Some (Ok (sample_fresh, None))"
proof -
  let ?s = "sample_published sample_fresh"
  have r: "sample_result = Ok sample_fresh" by code_simp
  have "for_source sample_source (Get (lit ''s'') (lit ''1'')) = Ok sample_key" by code_simp
  then have "task_payload sample_serde sample_digest (lit ''ns'') sample_key sample_fresh"
    unfolding task_payload_def using r [unfolded sample_result_def] by blast
  note s = sample_published_reachable [of "task_payload sample_serde sample_digest (lit ''ns'')", OF this]
  have k: "retrieve_key [sample_source] False (Get (lit ''s'') (lit ''1'')) = Ok (sample_source, sample_key)"
    by code_simp
  have p: "wait_poll False 1 ?s = Some (Ok (sample_fresh, None))" "(sample_key, 1) \<in> set (rv_guards ?s)"
    by code_simp+
  have f: "retrieve_finish None None 120 130 130 130 FreshOnly sample_key (Ok (sample_fresh, None)) ?s
      = (Ok (envelope_of 130 sample_fresh Fresh),
         snd (retrieve_finish None None 120 130 130 130 FreshOnly sample_key (Ok (sample_fresh, None)) ?s))"
    by code_simp
  from retrieval_end_to_end [OF s s k, THEN conjunct2] p f show ?thesis by blast
qed

end
